(* ===== verification/Prelude.thy ===== *)
theory Prelude
  imports Main "HOL-Library.Word" "HOL-Library.Multiset" "HOL-Library.Monad_Syntax" "HOL-Library.Tree"
begin

text \<open>
  Shared vocabulary of the development: the fixed-width integer types of
  \<^verbatim>\<open>kernel/include/types.h\<close>, the reading of \<open>option\<close> as "returns normally or
  faults", chains of \<open>next\<close> pointers (the free lists of the page allocator and the slab
  lists), and the generic lemmas the components share.

  Conventions. Addresses and the unsigned integers of the code are words of their C width, so
  every wrap-around is the wrap-around of the code. The null pointer is the word 0. An
  operation that dereferences memory returns an \<open>option\<close>: \<open>None\<close> stands for an
  execution that does not return normally (a null or wild dereference, an out-of-bounds access,
  a division by zero, a loop that never stops); \<open>Some\<close> carries the returned value and the
  new state.
\<close>

unbundle bit_operations_syntax

type_synonym u8 = "8 word"
type_synonym u16 = "16 word"
type_synonym u32 = "32 word"
type_synonym u64 = "64 word"

named_theorems heap_simps \<open>reads and writes of the component heaps\<close>
named_theorems frame_simps \<open>what a write outside a structure leaves unchanged\<close>

subsection \<open>Chains of next pointers\<close>

text \<open>
  \<open>chain nxt p xs q\<close>: following \<open>nxt\<close> from \<open>p\<close> visits exactly the
  non-null addresses \<open>xs\<close> and arrives at \<open>q\<close>. A null-terminated list is a chain to 0.
\<close>

fun chain :: "(u64 \<Rightarrow> u64) \<Rightarrow> u64 \<Rightarrow> u64 list \<Rightarrow> u64 \<Rightarrow> bool" where
  "chain nxt p [] q \<longleftrightarrow> p = q"
| "chain nxt p (x # xs) q \<longleftrightarrow> p = x \<and> x \<noteq> 0 \<and> chain nxt (nxt x) xs q"

lemma chain_append:
  "chain nxt p (xs @ ys) q \<longleftrightarrow> (\<exists>m. chain nxt p xs m \<and> chain nxt m ys q)"
  by (induction xs arbitrary: p) auto

lemma chain_upd [frame_simps]:
  "a \<notin> set xs \<Longrightarrow> chain (nxt(a := v)) p xs q = chain nxt p xs q"
  by (induction xs arbitrary: p) auto

lemma chain_null [simp]: "chain nxt 0 xs 0 \<longleftrightarrow> xs = []"
  by (cases xs) auto

lemma chain_nonnull: "chain nxt p xs q \<Longrightarrow> 0 \<notin> set xs"
  by (induction xs arbitrary: p) auto

lemma chain_unique: "chain nxt p xs 0 \<Longrightarrow> chain nxt p ys 0 \<Longrightarrow> xs = ys"
proof (induction xs arbitrary: p ys)
  case Nil
  then show ?case by simp
next
  case (Cons x xs)
  then show ?case by (cases ys) auto
qed

lemma chain_distinct: "chain nxt p xs 0 \<Longrightarrow> distinct xs"
proof (induction xs arbitrary: p)
  case Nil
  then show ?case by simp
next
  case (Cons x xs)
  from Cons.prems have tl: "chain nxt (nxt x) xs 0" by simp
  have "x \<notin> set xs"
  proof
    assume "x \<in> set xs"
    then obtain us vs where xs: "xs = us @ x # vs" by (meson split_list)
    with tl have "chain nxt x (x # vs) 0" by (auto simp: chain_append)
    with Cons.prems have "x # xs = x # vs"
      using chain_unique [of nxt x "x # xs" "x # vs"] by simp
    with xs show False by simp
  qed
  with Cons.IH [OF tl] show ?case by simp
qed

lemma chain_cong: "(\<And>x. x \<in> set xs \<Longrightarrow> f x = g x) \<Longrightarrow> chain f p xs q = chain g p xs q"
  by (induction xs arbitrary: p) auto

lemma chain_remove:
  "chain f h (xs @ p # ys) 0 \<Longrightarrow> distinct (xs @ p # ys) \<Longrightarrow>
   chain (if xs = [] then f else f(last xs := f p)) (if xs = [] then f p else h) (xs @ ys) 0"
proof (induction xs arbitrary: h)
  case Nil
  then show ?case by simp
next
  case (Cons x xs)
  show ?case
  proof (cases "xs = []")
    case True
    with Cons.prems chain_upd [of x ys f "f p" "f p" 0] show ?thesis
      by (simp add: fun_upd_def)
  next
    case False
    then have "last xs \<noteq> x" using Cons.prems(2) by auto
    with Cons.IH [of "f x"] Cons.prems False show ?thesis by auto
  qed
qed

lemma chain_snoc:
  "chain f h xs 0 \<Longrightarrow> t \<noteq> 0 \<Longrightarrow> t \<notin> set xs \<Longrightarrow> f t = 0 \<Longrightarrow>
   chain (if xs = [] then f else f(last xs := t)) (if xs = [] then t else h) (xs @ [t]) 0"
proof (induction xs arbitrary: h)
  case Nil
  then show ?case by simp
next
  case (Cons x xs)
  show ?case
  proof (cases "xs = []")
    case True
    with Cons.prems show ?thesis by auto
  next
    case False
    have "x \<notin> set xs" using chain_distinct [OF Cons.prems(1)] by simp
    then have "last xs \<noteq> x" using False last_in_set by metis
    with Cons.IH [of "f x"] Cons.prems False show ?thesis by auto
  qed
qed

lemma chain_pointwise:
  assumes "\<And>i. i + 1 < n \<Longrightarrow> f (x i) = x (i + 1)" "f (x (n - 1)) = 0" "\<And>i. i < n \<Longrightarrow> x i \<noteq> 0"
  shows "k < n \<Longrightarrow> chain f (x k) (map x [k..<n]) 0"
proof (induction "n - k" arbitrary: k)
  case 0
  then show ?case by simp
next
  case (Suc d)
  show ?case
  proof (cases "k + 1 < n")
    case True
    then have "chain f (x (k + 1)) (map x [k + 1..<n]) 0" using Suc by (intro Suc.hyps(1)) auto
    then show ?thesis using True assms(1,3) [of k] Suc.prems by (simp add: upt_conv_Cons)
  next
    case False
    then have "n = k + 1" using Suc.prems by simp
    then show ?thesis using assms(2) assms(3) [of k] by simp
  qed
qed

subsection \<open>Sequential composition\<close>

text \<open>
  As a congruence rule this makes the simplifier run a \<open>do\<close> block from its first
  statement, leaving the continuation alone until the statement has returned.
\<close>

lemma bind_first_cong: "m = m' \<Longrightarrow> Option.bind m f = Option.bind m' f"
  by simp

lemma bind_eq_SomeI: "m = Some x \<Longrightarrow> f x = Some y \<Longrightarrow> Option.bind m f = Some y"
  by simp

subsection \<open>Words\<close>

lemma unat_inc: "i < m \<Longrightarrow> unat (i + 1) = unat i + 1" for i m :: "'a::len word"
proof -
  assume "i < m"
  moreover have "unat m < 2 ^ LENGTH('a)" by (rule unsigned_less)
  ultimately have "unat i + unat (1 :: 'a word) < 2 ^ LENGTH('a)"
    unfolding word_less_nat_alt unat_1 by linarith
  then have "unat (i + 1) = unat i + unat (1 :: 'a word)" by (rule unat_add_lem [THEN iffD1])
  then show ?thesis by simp
qed

lemma unat_of_nat64: "a < 2 ^ 64 \<Longrightarrow> unat (of_nat a :: u64) = a"
  by (simp add: unat_of_nat)

lemma unat_plus_of_nat: "unat p + k < 2 ^ 64 \<Longrightarrow> unat (p + of_nat k) = unat p + k" for p :: u64
proof -
  assume b: "unat p + k < 2 ^ 64"
  then have "unat (of_nat k :: u64) = k" by (simp add: unat_of_nat)
  with b have "unat p + unat (of_nat k :: u64) < 2 ^ LENGTH(64)" by simp
  then have "unat (p + of_nat k) = unat p + unat (of_nat k :: u64)" by (rule unat_add_lem [THEN iffD1])
  with \<open>unat (of_nat k :: u64) = k\<close> show ?thesis by simp
qed

lemma of_nat_eq: "a < 2 ^ 64 \<Longrightarrow> b < 2 ^ 64 \<Longrightarrow> (of_nat a :: u64) = of_nat b \<longleftrightarrow> a = b"
  by (metis unat_of_nat64)

lemma of_nat_zero: "k < 2 ^ 64 \<Longrightarrow> (of_nat k :: u64) = 0 \<longleftrightarrow> k = 0"
  using unat_plus_of_nat [of 0 k] by (auto simp: unat_eq_zero)

lemma sint_of_nat32: "n < 2 ^ 31 \<Longrightarrow> sint (of_nat n :: u32) = int n"
  using int_word_sint [where 'a = 32, of "int n"] by simp

lemma unat_minus_1: "unat (- 1 :: u64) = 2 ^ 64 - 1"
  by (simp add: unat_eq_nat_uint uint_word_ariths)

lemma unat_drop: "unat (drop_bit k w) = unat w div 2 ^ k" for w :: "'a::len word"
  unfolding unat_drop_bit_eq by (rule drop_bit_eq_div)

lemma unat_of_nat32: "a < 2 ^ 32 \<Longrightarrow> unat (of_nat a :: u32) = a"
  by (simp add: unat_of_nat)

lemma unat_ucast_8_32: "unat (ucast (w :: u8) :: u32) = unat w"
proof -
  have "unat w < 2 ^ 8" using unsigned_less [of w] by simp
  then show ?thesis unfolding unsigned_ucast_eq by (simp add: take_bit_nat_eq_self)
qed

lemma of_nat_word_zero: "unat (of_nat n :: u32) = n \<Longrightarrow> (of_nat n :: u32) = 0 \<longleftrightarrow> n = 0"
  by auto

subsection \<open>Array accesses\<close>

definition nth_opt :: "'a list \<Rightarrow> nat \<Rightarrow> 'a option" where
  "nth_opt xs i = (if i < length xs then Some (xs ! i) else None)"

definition upd_opt :: "'a list \<Rightarrow> nat \<Rightarrow> 'a \<Rightarrow> 'a list option" where
  "upd_opt xs i v = (if i < length xs then Some (xs[i := v]) else None)"

lemma nth_opt_in [simp]: "i < length xs \<Longrightarrow> nth_opt xs i = Some (xs ! i)"
  by (simp add: nth_opt_def)

lemma upd_opt_in [simp]: "i < length xs \<Longrightarrow> upd_opt xs i v = Some (xs[i := v])"
  by (simp add: upd_opt_def)

subsection \<open>Lists\<close>

lemma distinct_split_unique:
  assumes d: "distinct (xs @ x # ys)" and eq: "xs @ x # ys = us @ x # vs"
  shows "xs = us \<and> ys = vs"
proof -
  from d have "x \<notin> set xs" "x \<notin> set ys" by simp_all
  with eq show ?thesis by (simp add: append_Cons_eq_iff)
qed

section \<open>Rounding\<close>

text \<open>Clearing the low bits of a word rounds it down.\<close>

lemma and_not_mask_of_nat:
  "(of_nat n :: 'a::len word) AND NOT (mask k) = of_nat (n div 2 ^ k * 2 ^ k)" if "n < 2 ^ LENGTH('a)"
proof -
  let ?x = "of_nat n :: 'a word"
  have "?x = (?x AND mask k) + (?x AND NOT (mask k))" by (subst disjunctive_add) (auto simp: bit_simps intro: bit_word_eqI)
  moreover have "?x AND mask k = of_nat (n mod 2 ^ k)"
  proof -
    have "unat ?x = n" using that by (simp add: unat_of_nat take_bit_eq_mod)
    moreover have "unat (?x AND mask k) = take_bit k (unat ?x)"
      by (simp only: unsigned_take_bit_eq flip: take_bit_eq_mask)
    ultimately have "unat (?x AND mask k) = n mod 2 ^ k" by (simp only: take_bit_eq_mod)
    moreover have "?x AND mask k = of_nat (unat (?x AND mask k))" by (simp only: of_nat_unat ucast_id)
    ultimately show ?thesis by simp
  qed
  moreover have "?x = of_nat (n mod 2 ^ k) + of_nat (n div 2 ^ k * 2 ^ k)"
    by (simp only: of_nat_add [symmetric] mod_div_mult_eq)
  ultimately show ?thesis by (metis add_left_cancel)
qed

lemma seven_mask: "(7 :: 'a::len word) = mask 3"
  by (simp add: mask_eq_exp_minus_1)

end
