(* ===== verification/RbTree.thy ===== *)
theory RbTree
  imports Prelude
begin

text \<open>
  The intrusive red-black tree of \<^verbatim>\<open>kernel/rbtree.c\<close> on an explicit heap of nodes. A state is
  the heap (a partial map from addresses to \<open>struct rb_node\<close>) and the root pointer of the
  tree. Every C statement is one read or one write of that state, in the order of the source; a
  read or write through a null or unmapped pointer faults (\<open>None\<close>), and the loops are
  \<open>partial_function\<close>s, so that a loop that never stops is \<open>None\<close> too.
\<close>

section \<open>State and field access\<close>

datatype rb_colors = RB_RED | RB_BLACK

record rb_node =
  rb_left :: u64
  rb_right :: u64
  rb_parent :: u64
  rb_color :: rb_colors

record rb_state =
  rb_nodes :: "u64 \<rightharpoonup> rb_node"
  rb_root :: u64

definition rd :: "rb_state \<Rightarrow> u64 \<Rightarrow> rb_node option" where
  "rd s p = (if p = 0 then None else rb_nodes s p)"

definition wr :: "rb_state \<Rightarrow> u64 \<Rightarrow> rb_node \<Rightarrow> rb_state" where
  "wr s p n = s\<lparr>rb_nodes := (rb_nodes s)(p \<mapsto> n)\<rparr>"

definition get_left :: "rb_state \<Rightarrow> u64 \<Rightarrow> u64 option" where
  "get_left s p = map_option rb_left (rd s p)"

definition get_right :: "rb_state \<Rightarrow> u64 \<Rightarrow> u64 option" where
  "get_right s p = map_option rb_right (rd s p)"

definition get_parent :: "rb_state \<Rightarrow> u64 \<Rightarrow> u64 option" where
  "get_parent s p = map_option rb_parent (rd s p)"

definition get_color :: "rb_state \<Rightarrow> u64 \<Rightarrow> rb_colors option" where
  "get_color s p = map_option rb_color (rd s p)"

definition set_left :: "rb_state \<Rightarrow> u64 \<Rightarrow> u64 \<Rightarrow> rb_state option" where
  "set_left s p v = map_option (\<lambda>n. wr s p (n\<lparr>rb_left := v\<rparr>)) (rd s p)"

definition set_right :: "rb_state \<Rightarrow> u64 \<Rightarrow> u64 \<Rightarrow> rb_state option" where
  "set_right s p v = map_option (\<lambda>n. wr s p (n\<lparr>rb_right := v\<rparr>)) (rd s p)"

definition set_parent :: "rb_state \<Rightarrow> u64 \<Rightarrow> u64 \<Rightarrow> rb_state option" where
  "set_parent s p v = map_option (\<lambda>n. wr s p (n\<lparr>rb_parent := v\<rparr>)) (rd s p)"

definition set_color :: "rb_state \<Rightarrow> u64 \<Rightarrow> rb_colors \<Rightarrow> rb_state option" where
  "set_color s p c = map_option (\<lambda>n. wr s p (n\<lparr>rb_color := c\<rparr>)) (rd s p)"

definition rb_chk_black :: "rb_state \<Rightarrow> u64 \<Rightarrow> bool option" where
  "rb_chk_black s x =
     (if x = 0 then Some True else map_option (\<lambda>c. c = RB_BLACK) (get_color s x))"

definition rb_chk_red :: "rb_state \<Rightarrow> u64 \<Rightarrow> bool option" where
  "rb_chk_red s x =
     (if x = 0 then Some False else map_option (\<lambda>c. c = RB_RED) (get_color s x))"

definition rb_inittree :: "(u64 \<rightharpoonup> rb_node) \<Rightarrow> rb_state" where
  "rb_inittree m = \<lparr>rb_nodes = m, rb_root = 0\<rparr>"

section \<open>Rotations\<close>

definition rb_lrotate :: "rb_state \<Rightarrow> u64 \<Rightarrow> rb_state option" where
  "rb_lrotate s x = do {
     y \<leftarrow> get_right s x;
     yl \<leftarrow> get_left s y;
     s \<leftarrow> set_right s x yl;
     yl \<leftarrow> get_left s y;
     s \<leftarrow> (if yl \<noteq> 0 then set_parent s yl x else Some s);
     xp \<leftarrow> get_parent s x;
     s \<leftarrow> set_parent s y xp;
     xp \<leftarrow> get_parent s x;
     s \<leftarrow> (if xp = 0 then Some (s\<lparr>rb_root := y\<rparr>)
          else do {
            xpl \<leftarrow> get_left s xp;
            if x = xpl then set_left s xp y else set_right s xp y });
     s \<leftarrow> set_left s y x;
     set_parent s x y }"

definition rb_rrotate :: "rb_state \<Rightarrow> u64 \<Rightarrow> rb_state option" where
  "rb_rrotate s x = do {
     y \<leftarrow> get_left s x;
     yr \<leftarrow> get_right s y;
     s \<leftarrow> set_left s x yr;
     yr \<leftarrow> get_right s y;
     s \<leftarrow> (if yr \<noteq> 0 then set_parent s yr x else Some s);
     xp \<leftarrow> get_parent s x;
     s \<leftarrow> set_parent s y xp;
     xp \<leftarrow> get_parent s x;
     s \<leftarrow> (if xp = 0 then Some (s\<lparr>rb_root := y\<rparr>)
          else do {
            xpr \<leftarrow> get_right s xp;
            if x = xpr then set_right s xp y else set_left s xp y });
     s \<leftarrow> set_right s y x;
     set_parent s x y }"

section \<open>Walking the tree\<close>

partial_function (option) rb_getroot :: "rb_state \<Rightarrow> u64 \<Rightarrow> u64 option" where
  "rb_getroot s r =
     (if r = 0 then Some r
      else do {
        p \<leftarrow> get_parent s r;
        if p \<noteq> 0 then rb_getroot s p else Some r })"

partial_function (option) rb_leftmost :: "rb_state \<Rightarrow> u64 \<Rightarrow> u64 option" where
  "rb_leftmost s node = do {
     l \<leftarrow> get_left s node;
     if l \<noteq> 0 then rb_leftmost s l else Some node }"

partial_function (option) rb_rightmost :: "rb_state \<Rightarrow> u64 \<Rightarrow> u64 option" where
  "rb_rightmost s node = do {
     r \<leftarrow> get_right s node;
     if r \<noteq> 0 then rb_rightmost s r else Some node }"

definition rb_first :: "rb_state \<Rightarrow> u64 option" where
  "rb_first s = (if rb_root s = 0 then Some 0 else rb_leftmost s (rb_root s))"

definition rb_last :: "rb_state \<Rightarrow> u64 option" where
  "rb_last s = (if rb_root s = 0 then Some 0 else rb_rightmost s (rb_root s))"

partial_function (option) rb_next_up :: "rb_state \<Rightarrow> u64 \<Rightarrow> u64 \<Rightarrow> u64 option" where
  "rb_next_up s node parent =
     (if parent = 0 then Some parent
      else do {
        r \<leftarrow> get_right s parent;
        if node = r then do {
          pp \<leftarrow> get_parent s parent;
          rb_next_up s parent pp }
        else Some parent })"

definition rb_next :: "rb_state \<Rightarrow> u64 \<Rightarrow> u64 option" where
  "rb_next s node =
     (if node = 0 then Some 0
      else do {
        r \<leftarrow> get_right s node;
        if r \<noteq> 0 then rb_leftmost s r
        else do {
          parent \<leftarrow> get_parent s node;
          rb_next_up s node parent } })"

partial_function (option) rb_prev_up :: "rb_state \<Rightarrow> u64 \<Rightarrow> u64 \<Rightarrow> u64 option" where
  "rb_prev_up s node parent =
     (if parent = 0 then Some parent
      else do {
        l \<leftarrow> get_left s parent;
        if node = l then do {
          pp \<leftarrow> get_parent s parent;
          rb_prev_up s parent pp }
        else Some parent })"

definition rb_prev :: "rb_state \<Rightarrow> u64 \<Rightarrow> u64 option" where
  "rb_prev s node =
     (if node = 0 then Some 0
      else do {
        l \<leftarrow> get_left s node;
        if l \<noteq> 0 then rb_rightmost s l
        else do {
          parent \<leftarrow> get_parent s node;
          rb_prev_up s node parent } })"

section \<open>Insertion\<close>

text \<open>
  The loop \<open>while (x != tree->root && x->parent->color == RB_RED)\<close> is given by its condition,
  its body (which ends by the \<open>continue\<close> of the red-uncle case or by falling through) and
  the iteration.
\<close>

definition rb_fixins_cond :: "rb_state \<Rightarrow> u64 \<Rightarrow> bool option" where
  "rb_fixins_cond s x =
     (if x = rb_root s then Some False
      else do {
        parent \<leftarrow> get_parent s x;
        c \<leftarrow> get_color s parent;
        Some (c = RB_RED) })"

definition rb_fixins_body :: "rb_state \<Rightarrow> u64 \<Rightarrow> (rb_state \<times> u64) option" where
  "rb_fixins_body s x = do {
     parent \<leftarrow> get_parent s x;
     grandparent \<leftarrow> get_parent s parent;
     gl \<leftarrow> get_left s grandparent;
     let unc_right = (parent = gl);
     big_unc \<leftarrow> (if unc_right then get_right s grandparent else get_left s grandparent);
     unc_red \<leftarrow> rb_chk_red s big_unc;
     if unc_red then do {
       s \<leftarrow> set_color s parent RB_BLACK;
       s \<leftarrow> set_color s big_unc RB_BLACK;
       s \<leftarrow> set_color s grandparent RB_RED;
       Some (s, grandparent) }
     else do {
       inner \<leftarrow> (if unc_right then get_right s parent else get_left s parent);
       (s, x, parent, grandparent) \<leftarrow>
         (if x = inner then do {
            let x = parent;
            s \<leftarrow> (if unc_right then rb_lrotate s x else rb_rrotate s x);
            parent \<leftarrow> get_parent s x;
            grandparent \<leftarrow> get_parent s parent;
            Some (s, x, parent, grandparent) }
          else Some (s, x, parent, grandparent));
       s \<leftarrow> set_color s parent RB_BLACK;
       s \<leftarrow> set_color s grandparent RB_RED;
       s \<leftarrow> (if unc_right then rb_rrotate s grandparent else rb_lrotate s grandparent);
       Some (s, x) } }"

partial_function (option) rb_fixins_loop :: "rb_state \<Rightarrow> u64 \<Rightarrow> rb_state option" where
  "rb_fixins_loop s x = do {
     c \<leftarrow> rb_fixins_cond s x;
     if c then do {
       (s, x) \<leftarrow> rb_fixins_body s x;
       rb_fixins_loop s x }
     else Some s }"

definition rb_fixins :: "rb_state \<Rightarrow> u64 \<Rightarrow> rb_state option" where
  "rb_fixins s x = do {
     s \<leftarrow> rb_fixins_loop s x;
     set_color s (rb_root s) RB_BLACK }"

text \<open>
  The \<open>struct rb_node **link\<close> argument of \<^verbatim>\<open>rb_insert\<close> (and the \<open>parent_ptr_node\<close> of
  \<^verbatim>\<open>rb_remove\<close>) points at the root pointer or at a child field of a node.
\<close>

datatype rb_link = RootLink | LeftOf u64 | RightOf u64

definition link_get :: "rb_state \<Rightarrow> rb_link \<Rightarrow> u64 option" where
  "link_get s l = (case l of RootLink \<Rightarrow> Some (rb_root s)
     | LeftOf p \<Rightarrow> get_left s p | RightOf p \<Rightarrow> get_right s p)"

definition link_set :: "rb_state \<Rightarrow> rb_link \<Rightarrow> u64 \<Rightarrow> rb_state option" where
  "link_set s l v = (case l of RootLink \<Rightarrow> Some (s\<lparr>rb_root := v\<rparr>)
     | LeftOf p \<Rightarrow> set_left s p v | RightOf p \<Rightarrow> set_right s p v)"

definition rb_insert :: "rb_state \<Rightarrow> u64 \<Rightarrow> u64 \<Rightarrow> rb_link \<Rightarrow> rb_state option" where
  "rb_insert s node parent link =
     (if node = 0 then Some s
      else do {
        s \<leftarrow> set_left s node 0;
        s \<leftarrow> set_right s node 0;
        s \<leftarrow> set_parent s node parent;
        s \<leftarrow> set_color s node RB_RED;
        s \<leftarrow> link_set s link node;
        rb_fixins s node })"

section \<open>Removal\<close>

definition rb_fixdel_cond :: "rb_state \<Rightarrow> u64 \<Rightarrow> bool option" where
  "rb_fixdel_cond s x =
     (if x = rb_root s then Some False
      else map_option (\<lambda>c. c = RB_BLACK) (get_color s x))"

definition rb_fixdel_body :: "rb_state \<Rightarrow> u64 \<Rightarrow> (rb_state \<times> u64) option" where
  "rb_fixdel_body s x = do {
     xp \<leftarrow> get_parent s x;
     xpl \<leftarrow> get_left s xp;
     let lrotate = (xpl = x);
     x_sibling \<leftarrow> (if lrotate then get_right s xp else get_left s xp);
     sibling_inner \<leftarrow> (if lrotate then get_right s x_sibling else get_left s x_sibling);
     sibling_outer \<leftarrow> (if lrotate then get_left s x_sibling else get_right s x_sibling);
     sib_red \<leftarrow> rb_chk_red s x_sibling;
     (s, x_sibling, sibling_inner, sibling_outer) \<leftarrow>
       (if sib_red then do {
          s \<leftarrow> set_color s x_sibling RB_BLACK;
          xp \<leftarrow> get_parent s x;
          s \<leftarrow> set_color s xp RB_RED;
          xp \<leftarrow> get_parent s x;
          s \<leftarrow> (if lrotate then rb_lrotate s xp else rb_rrotate s xp);
          xp \<leftarrow> get_parent s x;
          sib \<leftarrow> (if lrotate then get_right s xp else get_left s xp);
          inner \<leftarrow> (if lrotate then get_right s xp else get_left s xp);
          outer \<leftarrow> (if lrotate then get_left s xp else get_right s xp);
          Some (s, sib, inner, outer) }
        else Some (s, x_sibling, sibling_inner, sibling_outer));
     inner_black \<leftarrow> rb_chk_black s sibling_inner;
     outer_black \<leftarrow> rb_chk_black s sibling_outer;
     if inner_black \<and> outer_black then do {
       s \<leftarrow> set_color s x_sibling RB_RED;
       xp \<leftarrow> get_parent s x;
       Some (s, xp) }
     else do {
       (s, x_sibling, sibling_outer) \<leftarrow>
         (if outer_black then
            (if lrotate then do {
               s \<leftarrow> rb_rrotate s x_sibling;
               xp \<leftarrow> get_parent s x;
               sib \<leftarrow> get_right s xp;
               outer \<leftarrow> get_left s sib;
               Some (s, sib, outer) }
             else do {
               s \<leftarrow> rb_lrotate s x_sibling;
               xp \<leftarrow> get_parent s x;
               sib \<leftarrow> get_left s xp;
               outer \<leftarrow> get_right s sib;
               Some (s, sib, outer) })
          else Some (s, x_sibling, sibling_outer));
       xp \<leftarrow> get_parent s x;
       xpc \<leftarrow> get_color s xp;
       s \<leftarrow> set_color s x_sibling xpc;
       xp \<leftarrow> get_parent s x;
       s \<leftarrow> set_color s xp RB_BLACK;
       s \<leftarrow> (if sibling_outer \<noteq> 0 then set_color s sibling_outer RB_BLACK else Some s);
       xp \<leftarrow> get_parent s x;
       s \<leftarrow> (if lrotate then rb_lrotate s xp else rb_rrotate s xp);
       Some (s, rb_root s) } }"

partial_function (option) rb_fixdel_loop :: "rb_state \<Rightarrow> u64 \<Rightarrow> (rb_state \<times> u64) option" where
  "rb_fixdel_loop s x = do {
     c \<leftarrow> rb_fixdel_cond s x;
     if c then do {
       (s, x) \<leftarrow> rb_fixdel_body s x;
       rb_fixdel_loop s x }
     else Some (s, x) }"

definition rb_fixdel :: "rb_state \<Rightarrow> u64 \<Rightarrow> rb_state option" where
  "rb_fixdel s x = do {
     (s, x) \<leftarrow> rb_fixdel_loop s x;
     if x \<noteq> 0 then set_color s x RB_BLACK else Some s }"

partial_function (option) rb_remove :: "rb_state \<Rightarrow> u64 \<Rightarrow> (rb_state \<times> u64) option" where
  "rb_remove s node =
     (if node = 0 then Some (s, 0)
      else do {
        parent_ptr_node \<leftarrow>
          (if node = rb_root s then Some RootLink
           else do {
             np \<leftarrow> get_parent s node;
             npl \<leftarrow> get_left s np;
             Some (if node = npl then LeftOf np else RightOf np) });
        l \<leftarrow> get_left s node;
        r \<leftarrow> get_right s node;
        if l = 0 \<and> r = 0 then do {
          s \<leftarrow> link_set s parent_ptr_node 0;
          c \<leftarrow> get_color s node;
          s \<leftarrow> (if c = RB_BLACK then rb_fixdel s node else Some s);
          Some (s, node) }
        else if l \<noteq> 0 \<and> r = 0 \<or> l = 0 \<and> r \<noteq> 0 then do {
          let x = (if l \<noteq> 0 then l else r);
          s \<leftarrow> link_set s parent_ptr_node x;
          np \<leftarrow> get_parent s node;
          s \<leftarrow> set_parent s x np;
          s \<leftarrow> set_color s x RB_BLACK;
          Some (s, node) }
        else do {
          x \<leftarrow> rb_leftmost s r;
          (s, _) \<leftarrow> rb_remove s x;
          s \<leftarrow> link_set s parent_ptr_node x;
          nl \<leftarrow> get_left s node;
          s \<leftarrow> set_left s x nl;
          xl \<leftarrow> get_left s x;
          s \<leftarrow> (if xl \<noteq> 0 then set_parent s xl x else Some s);
          nr \<leftarrow> get_right s node;
          s \<leftarrow> set_right s x nr;
          xr \<leftarrow> get_right s x;
          s \<leftarrow> (if xr \<noteq> 0 then set_parent s xr x else Some s);
          nc \<leftarrow> get_color s node;
          s \<leftarrow> set_color s x nc;
          np \<leftarrow> get_parent s node;
          s \<leftarrow> set_parent s x np;
          Some (s, node) } })"

section \<open>Code equations\<close>

declare rb_getroot.simps [code] rb_leftmost.simps [code] rb_rightmost.simps [code]
  rb_next_up.simps [code] rb_prev_up.simps [code] rb_fixins_loop.simps [code]
  rb_fixdel_loop.simps [code] rb_remove.simps [code]

end
