(* ===== verification/RbTreeRep.thy ===== *)
theory RbTreeRep
  imports RbTree
begin

text \<open>
  The abstraction of the red-black heap of \<^verbatim>\<open>kernel/rbtree.c\<close>: a heap and a root pointer
  represent a binary tree of (address, colour) pairs when every node's four fields are what the
  tree says. A position inside a tree is a zipper: the subtree at the position and the path of
  crumbs from it up to the root. Rotations and walks are stated on zippers, so that each lemma
  talks about the one place the code touches.
\<close>

section \<open>Trees of addresses and paths to the root\<close>

type_synonym rbt = "(u64 \<times> rb_colors) tree"

fun addr_of :: "rbt \<Rightarrow> u64" where
  "addr_of Leaf = 0"
| "addr_of (Node l (a, c) r) = a"

fun col :: "rbt \<Rightarrow> rb_colors" where
  "col Leaf = RB_BLACK"
| "col (Node l (a, c) r) = c"

fun addrs :: "rbt \<Rightarrow> u64 list" where
  "addrs Leaf = []"
| "addrs (Node l (a, c) r) = addrs l @ a # addrs r"

fun rep :: "rb_state \<Rightarrow> u64 \<Rightarrow> rbt \<Rightarrow> bool" where
  "rep s par Leaf \<longleftrightarrow> True"
| "rep s par (Node l (a, c) r) \<longleftrightarrow> a \<noteq> 0 \<and>
     rd s a = Some \<lparr>rb_left = addr_of l, rb_right = addr_of r, rb_parent = par, rb_color = c\<rparr> \<and>
     rep s a l \<and> rep s a r"

text \<open>\<open>CL a c t\<close>: the hole is the left child of node \<open>a\<close>, whose right subtree is \<open>t\<close>.\<close>

datatype crumb = CL u64 rb_colors rbt | CR u64 rb_colors rbt

fun top :: "crumb list \<Rightarrow> u64" where
  "top [] = 0"
| "top (CL a c t # ps) = a"
| "top (CR a c t # ps) = a"

fun topcol :: "crumb list \<Rightarrow> rb_colors" where
  "topcol [] = RB_BLACK"
| "topcol (CL a c t # ps) = c"
| "topcol (CR a c t # ps) = c"

fun crep :: "rb_state \<Rightarrow> u64 \<Rightarrow> u64 \<Rightarrow> crumb list \<Rightarrow> bool" where
  "crep s r ch [] \<longleftrightarrow> r = ch"
| "crep s r ch (CL a c t # ps) \<longleftrightarrow> a \<noteq> 0 \<and>
     rd s a = Some \<lparr>rb_left = ch, rb_right = addr_of t, rb_parent = top ps, rb_color = c\<rparr> \<and>
     rep s a t \<and> crep s r a ps"
| "crep s r ch (CR a c t # ps) \<longleftrightarrow> a \<noteq> 0 \<and>
     rd s a = Some \<lparr>rb_left = addr_of t, rb_right = ch, rb_parent = top ps, rb_color = c\<rparr> \<and>
     rep s a t \<and> crep s r a ps"

fun caddrs :: "crumb list \<Rightarrow> u64 list" where
  "caddrs [] = []"
| "caddrs (CL a c t # ps) = a # addrs t @ caddrs ps"
| "caddrs (CR a c t # ps) = a # addrs t @ caddrs ps"

fun zip_up :: "rbt \<Rightarrow> crumb list \<Rightarrow> rbt" where
  "zip_up t [] = t"
| "zip_up t (CL a c u # ps) = zip_up (Node t (a, c) u) ps"
| "zip_up t (CR a c u # ps) = zip_up (Node u (a, c) t) ps"

definition zrep :: "rb_state \<Rightarrow> rbt \<Rightarrow> crumb list \<Rightarrow> bool" where
  "zrep s t ps \<longleftrightarrow> rep s (top ps) t \<and> crep s (rb_root s) (addr_of t) ps \<and>
     distinct (addrs t @ caddrs ps)"

definition srep :: "rb_state \<Rightarrow> rbt \<Rightarrow> bool" where
  "srep s t \<longleftrightarrow> zrep s t []"

text \<open>Two states that agree on every node outside a set of addresses.\<close>

definition same_off :: "u64 set \<Rightarrow> rb_state \<Rightarrow> rb_state \<Rightarrow> bool" where
  "same_off A s s' \<longleftrightarrow> (\<forall>a. a \<notin> A \<longrightarrow> rd s' a = rd s a)"

abbreviation zone :: "rbt \<Rightarrow> crumb list \<Rightarrow> u64 set" where
  "zone t ps \<equiv> set (addrs t) \<union> set (caddrs ps)"

lemma same_off_refl [simp, intro]: "same_off A s s"
  by (simp add: same_off_def)

lemma same_off_trans: "same_off A s s' \<Longrightarrow> same_off A s' s'' \<Longrightarrow> same_off A s s''"
  by (simp add: same_off_def)

lemma same_off_mono: "same_off A s s' \<Longrightarrow> A \<subseteq> B \<Longrightarrow> same_off B s s'"
  by (auto simp: same_off_def)

section \<open>Heap reads, writes and frames\<close>

lemma rd_wr_same [heap_simps]: "p \<noteq> 0 \<Longrightarrow> rd (wr s p n) p = Some n"
  by (simp add: rd_def wr_def)

lemma rd_wr_diff [heap_simps]: "q \<noteq> p \<Longrightarrow> rd (wr s p n) q = rd s q"
  by (simp add: rd_def wr_def)

lemma rd_null [heap_simps]: "rd s 0 = None"
  by (simp add: rd_def)

lemma rd_root [heap_simps]: "rd (s\<lparr>rb_root := y\<rparr>) q = rd s q"
  by (simp add: rd_def)

lemma root_wr [heap_simps]: "rb_root (wr s p n) = rb_root s"
  by (simp add: wr_def)

lemmas field_ops [heap_simps] = get_left_def get_right_def get_parent_def get_color_def
  set_left_def set_right_def set_parent_def set_color_def

lemma same_off_wr [frame_simps]: "a \<in> A \<Longrightarrow> same_off A s (wr s' a n) = same_off A s s'"
  unfolding same_off_def by (metis rd_wr_diff)

lemma same_off_root [frame_simps]: "same_off A s (s'\<lparr>rb_root := y\<rparr>) = same_off A s s'"
  by (simp add: same_off_def rd_root)

lemma rep_wr [frame_simps]: "a \<notin> set (addrs t) \<Longrightarrow> rep (wr s a n) par t = rep s par t"
  by (induction t arbitrary: par rule: addrs.induct) (auto simp: rd_wr_diff)

lemma rep_root [frame_simps]: "rep (s\<lparr>rb_root := y\<rparr>) par t = rep s par t"
  by (induction t arbitrary: par rule: addrs.induct) (auto simp: rd_root)

lemma crep_wr [frame_simps]:
  "a \<notin> set (caddrs ps) \<Longrightarrow> crep (wr s a n) r ch ps = crep s r ch ps"
  by (induction ps arbitrary: ch rule: caddrs.induct) (auto simp: rep_wr rd_wr_diff)

lemma crep_root [frame_simps]: "crep (s\<lparr>rb_root := y\<rparr>) r ch ps = crep s r ch ps"
  by (induction ps arbitrary: ch rule: caddrs.induct) (auto simp: rep_root rd_root)

lemma rep_nonnull: "rep s par t \<Longrightarrow> 0 \<notin> set (addrs t)"
  by (induction t arbitrary: par rule: addrs.induct) auto

lemma crep_nonnull: "crep s r ch ps \<Longrightarrow> 0 \<notin> set (caddrs ps)"
  by (induction ps arbitrary: ch rule: caddrs.induct) (auto dest: rep_nonnull)

lemma addr_of_in [simp]: "t \<noteq> Leaf \<Longrightarrow> addr_of t \<in> set (addrs t)"
  by (cases t rule: addr_of.cases) auto

lemma not_addr_of [frame_simps]: "x \<notin> set (addrs t) \<Longrightarrow> x \<noteq> 0 \<Longrightarrow> x \<noteq> addr_of t"
  by (cases t rule: addr_of.cases) auto

lemma rep_addr_zero: "rep s par t \<Longrightarrow> addr_of t = 0 \<longleftrightarrow> t = Leaf"
  by (cases t rule: addr_of.cases) auto

lemma top_in: "ps \<noteq> [] \<Longrightarrow> top ps \<in> set (caddrs ps)"
  by (cases ps rule: top.cases) auto

lemma set_addrs_zip_up: "set (addrs (zip_up t ps)) = set (addrs t) \<union> set (caddrs ps)"
  by (induction t ps rule: zip_up.induct) auto

text \<open>The nodes before and after a position, in in-order.\<close>

fun before :: "crumb list \<Rightarrow> u64 list" where
  "before [] = []"
| "before (CL a c t # ps) = before ps"
| "before (CR a c t # ps) = before ps @ addrs t @ [a]"

fun after :: "crumb list \<Rightarrow> u64 list" where
  "after [] = []"
| "after (CL a c t # ps) = a # addrs t @ after ps"
| "after (CR a c t # ps) = after ps"

lemma addrs_zip_up: "addrs (zip_up t ps) = before ps @ addrs t @ after ps"
  by (induction t ps rule: zip_up.induct) auto

lemma set_before_after: "set (before ps) \<union> set (after ps) = set (caddrs ps)"
  by (induction ps rule: caddrs.induct) auto

lemma zrep_CL: "zrep s t (CL a c u # ps) \<longleftrightarrow> zrep s (Node t (a, c) u) ps"
  by (auto simp: zrep_def)

lemma zrep_CR: "zrep s t (CR a c u # ps) \<longleftrightarrow> zrep s (Node u (a, c) t) ps"
  by (auto simp: zrep_def)

lemma zrep_zip_up: "zrep s t ps \<longleftrightarrow> srep s (zip_up t ps)"
  by (induction t ps rule: zip_up.induct) (auto simp: srep_def zrep_CL zrep_CR)

section \<open>Rotations refine tree rotations\<close>

text \<open>
  A rotation at a node replaces the subtree there by the rotated one, whatever is above it, and
  writes no node outside the tree.
\<close>

lemma rb_lrotate_rep:
  assumes "zrep s (Node a (x, cx) (Node b (y, cy) c)) ps"
  shows "\<exists>s'. rb_lrotate s x = Some s' \<and> zrep s' (Node (Node a (x, cx) b) (y, cy) c) ps \<and>
    same_off (zone (Node a (x, cx) (Node b (y, cy) c)) ps) s s'"
  using assms unfolding zrep_def
  by (cases b rule: addr_of.cases; cases ps rule: top.cases; simp; elim conjE;
      simp add: rb_lrotate_def heap_simps frame_simps cong: bind_first_cong)

lemma rb_rrotate_rep:
  assumes "zrep s (Node (Node a (x, cx) b) (y, cy) c) ps"
  shows "\<exists>s'. rb_rrotate s y = Some s' \<and> zrep s' (Node a (x, cx) (Node b (y, cy) c)) ps \<and>
    same_off (zone (Node (Node a (x, cx) b) (y, cy) c) ps) s s'"
  using assms unfolding zrep_def
  by (cases b rule: addr_of.cases; cases ps rule: top.cases; simp; elim conjE;
      simp add: rb_rrotate_def heap_simps frame_simps cong: bind_first_cong)

end
