(* ===== verification/RbTreeInsert.thy ===== *)
theory RbTreeInsert
  imports RbTreeRep
begin

text \<open>
  Insertion into the red-black tree: the invariants of the tree, the invariants of a path (what
  must surround a subtree for the whole to be a red-black tree), and the proof that the fix-up
  loop of \<^verbatim>\<open>rb_fixins\<close> terminates, keeps the in-order sequence of nodes and restores the
  invariants.
\<close>

section \<open>Red-black invariants\<close>

fun bh :: "rbt \<Rightarrow> nat" where
  "bh Leaf = 0"
| "bh (Node l (a, c) r) = (if c = RB_BLACK then bh l + 1 else bh l)"

fun invc :: "rbt \<Rightarrow> bool" where
  "invc Leaf \<longleftrightarrow> True"
| "invc (Node l (a, c) r) \<longleftrightarrow>
     (c = RB_RED \<longrightarrow> col l = RB_BLACK \<and> col r = RB_BLACK) \<and> invc l \<and> invc r"

fun invh :: "rbt \<Rightarrow> bool" where
  "invh Leaf \<longleftrightarrow> True"
| "invh (Node l (a, c) r) \<longleftrightarrow> bh l = bh r \<and> invh l \<and> invh r"

fun paint :: "rb_colors \<Rightarrow> rbt \<Rightarrow> rbt" where
  "paint c Leaf = Leaf"
| "paint c (Node l (a, _) r) = Node l (a, c) r"

definition rb_valid :: "rbt \<Rightarrow> bool" where
  "rb_valid t \<longleftrightarrow> invc t \<and> invh t \<and> col t = RB_BLACK"

text \<open>
  \<open>cok n ps\<close>: plugging a subtree of black height \<open>n\<close> into the path \<open>ps\<close> gives a
  red-black tree, up to the colour of the plugged root.
\<close>

fun cok :: "nat \<Rightarrow> crumb list \<Rightarrow> bool" where
  "cok n [] \<longleftrightarrow> True"
| "cok n (CL a c u # ps) \<longleftrightarrow> invc u \<and> invh u \<and> bh u = n \<and>
     (if c = RB_RED then col u = RB_BLACK \<and> ps \<noteq> [] \<and> topcol ps = RB_BLACK \<and> cok n ps
      else cok (Suc n) ps)"
| "cok n (CR a c u # ps) \<longleftrightarrow> invc u \<and> invh u \<and> bh u = n \<and>
     (if c = RB_RED then col u = RB_BLACK \<and> ps \<noteq> [] \<and> topcol ps = RB_BLACK \<and> cok n ps
      else cok (Suc n) ps)"

lemma neq_black [simp]: "c \<noteq> RB_BLACK \<longleftrightarrow> c = RB_RED"
  by (cases c) auto

lemma neq_red [simp]: "c \<noteq> RB_RED \<longleftrightarrow> c = RB_BLACK"
  by (cases c) auto

lemma invc_paint: "invc t \<Longrightarrow> invc (paint RB_BLACK t)"
  by (cases t rule: addr_of.cases) auto

lemma invh_paint: "invh t \<Longrightarrow> invh (paint c t)"
  by (cases t rule: addr_of.cases) auto

lemma addrs_paint [simp]: "addrs (paint c t) = addrs t"
  by (cases t rule: addr_of.cases) auto

lemma col_paint: "col (paint RB_BLACK t) = RB_BLACK"
  by (cases t rule: addr_of.cases) auto

lemma zip_up_valid:
  "invc t \<Longrightarrow> invh t \<Longrightarrow> cok (bh t) ps \<Longrightarrow> col t = RB_BLACK \<or> ps \<noteq> [] \<and> topcol ps = RB_BLACK \<Longrightarrow>
   rb_valid (zip_up t ps)"
  by (induction t ps rule: zip_up.induct) (auto simp: rb_valid_def split: if_splits)

section \<open>Reading and recolouring through a zipper\<close>

lemma zrep_get:
  assumes "zrep s (Node l (x, c) r) ps"
  shows "x \<noteq> 0" "get_left s x = Some (addr_of l)" "get_right s x = Some (addr_of r)"
    "get_parent s x = Some (top ps)" "get_color s x = Some c"
  using assms by (auto simp: zrep_def field_ops)

lemma zrep_chk_red:
  assumes "zrep s t ps"
  shows "rb_chk_red s (addr_of t) = Some (col t = RB_RED)"
  using assms by (cases t rule: addr_of.cases) (auto simp: rb_chk_red_def dest: zrep_get)

lemma zrep_neq_sibling:
  assumes "zrep s (Node l (x, c) r) ps"
  shows "l \<noteq> Leaf \<Longrightarrow> addr_of l \<noteq> addr_of r" "r \<noteq> Leaf \<Longrightarrow> addr_of r \<noteq> addr_of l"
  using assms
  by (cases l rule: addr_of.cases; cases r rule: addr_of.cases; auto simp: zrep_def)+

lemma crep_root_in: "crep s r ch ps \<Longrightarrow> ps \<noteq> [] \<Longrightarrow> r \<in> set (caddrs ps)"
proof (induction ps arbitrary: ch)
  case Nil
  then show ?case by simp
next
  case (Cons p ps)
  then show ?case by (cases p; cases ps) auto
qed

lemma zrep_root_eq:
  assumes "zrep s (Node l (x, c) r) ps"
  shows "x = rb_root s \<longleftrightarrow> ps = []"
  using assms by (cases ps) (auto simp: zrep_def dest!: crep_root_in)

lemma set_color_rep:
  assumes "zrep s (Node l (x, c) r) ps"
  shows "\<exists>s'. set_color s x c' = Some s' \<and> zrep s' (Node l (x, c') r) ps \<and>
    same_off (zone (Node l (x, c) r) ps) s s'"
  using assms unfolding zrep_def
  by simp (elim conjE; simp add: heap_simps frame_simps)

lemma zrep_left: "zrep s (Node l (x, c) r) ps \<Longrightarrow> zrep s l (CL x c r # ps)"
  by (simp add: zrep_CL)

lemma zrep_right: "zrep s (Node l (x, c) r) ps \<Longrightarrow> zrep s r (CR x c l # ps)"
  by (simp add: zrep_CR)

lemma zrep_tops:
  assumes "zrep s t ps" "t \<noteq> Leaf"
  shows "get_parent s (addr_of t) = Some (top ps)"
  using assms by (cases t rule: addr_of.cases) (auto dest: zrep_get)

section \<open>One iteration of the fix-up loop\<close>

lemma fixins_recolor_L:
  assumes z: "zrep s (Node (Node a (p, RB_RED) b) (g, RB_BLACK) (Node ul (un, RB_RED) ur)) ps"
    and x: "get_parent s x = Some p"
  shows "\<exists>s'. rb_fixins_body s x = Some (s', g) \<and>
    zrep s' (Node (Node a (p, RB_BLACK) b) (g, RB_RED) (Node ul (un, RB_BLACK) ur)) ps \<and>
    same_off (zone (Node (Node a (p, RB_RED) b) (g, RB_BLACK) (Node ul (un, RB_RED) ur)) ps) s s'"
proof -
  note zp = zrep_left [OF z] and zu = zrep_right [OF z]
  obtain s1 where s1: "set_color s p RB_BLACK = Some s1"
    and z1: "zrep s1 (Node a (p, RB_BLACK) b) (CL g RB_BLACK (Node ul (un, RB_RED) ur) # ps)"
    and o1: "same_off (zone (Node a (p, RB_RED) b) (CL g RB_BLACK (Node ul (un, RB_RED) ur) # ps)) s s1"
    using set_color_rep [OF zp] by blast
  from z1 have "zrep s1 (Node ul (un, RB_RED) ur) (CR g RB_BLACK (Node a (p, RB_BLACK) b) # ps)"
    by (simp add: zrep_CL zrep_CR)
  then obtain s2 where s2: "set_color s1 un RB_BLACK = Some s2"
    and z2: "zrep s2 (Node ul (un, RB_BLACK) ur) (CR g RB_BLACK (Node a (p, RB_BLACK) b) # ps)"
    and o2: "same_off (zone (Node ul (un, RB_RED) ur) (CR g RB_BLACK (Node a (p, RB_BLACK) b) # ps)) s1 s2"
    using set_color_rep by blast
  from z2 have "zrep s2 (Node (Node a (p, RB_BLACK) b) (g, RB_BLACK) (Node ul (un, RB_BLACK) ur)) ps"
    by (simp add: zrep_CR)
  then obtain s3 where s3: "set_color s2 g RB_RED = Some s3"
    and z3: "zrep s3 (Node (Node a (p, RB_BLACK) b) (g, RB_RED) (Node ul (un, RB_BLACK) ur)) ps"
    and o3: "same_off (zone (Node (Node a (p, RB_BLACK) b) (g, RB_BLACK) (Node ul (un, RB_BLACK) ur)) ps) s2 s3"
    using set_color_rep by blast
  have "rb_fixins_body s x = Some (s3, g)"
    using zrep_get [OF z] zrep_get [OF zp] zrep_chk_red [OF zu] x s1 s2 s3
    by (simp add: rb_fixins_body_def)
  moreover have "same_off (zone (Node (Node a (p, RB_RED) b) (g, RB_BLACK) (Node ul (un, RB_RED) ur)) ps) s s3"
    using o1 o2 o3 by (simp add: same_off_def)
  ultimately show ?thesis using z3 by blast
qed

lemma fixins_outer_L:
  assumes z: "zrep s (Node (Node a (p, RB_RED) b) (g, RB_BLACK) u) ps"
    and u: "col u = RB_BLACK" and a: "a \<noteq> Leaf"
  shows "\<exists>s'. rb_fixins_body s (addr_of a) = Some (s', addr_of a) \<and>
    zrep s' (Node a (p, RB_BLACK) (Node b (g, RB_RED) u)) ps \<and>
    same_off (zone (Node (Node a (p, RB_RED) b) (g, RB_BLACK) u) ps) s s'"
proof -
  note zp = zrep_left [OF z] and zu = zrep_right [OF z]
  obtain s1 where s1: "set_color s p RB_BLACK = Some s1"
    and z1: "zrep s1 (Node a (p, RB_BLACK) b) (CL g RB_BLACK u # ps)"
    and o1: "same_off (zone (Node a (p, RB_RED) b) (CL g RB_BLACK u # ps)) s s1"
    using set_color_rep [OF zp] by blast
  from z1 have "zrep s1 (Node (Node a (p, RB_BLACK) b) (g, RB_BLACK) u) ps"
    by (simp add: zrep_CL)
  then obtain s2 where s2: "set_color s1 g RB_RED = Some s2"
    and z2: "zrep s2 (Node (Node a (p, RB_BLACK) b) (g, RB_RED) u) ps"
    and o2: "same_off (zone (Node (Node a (p, RB_BLACK) b) (g, RB_BLACK) u) ps) s1 s2"
    using set_color_rep by blast
  obtain s3 where s3: "rb_rrotate s2 g = Some s3"
    and z3: "zrep s3 (Node a (p, RB_BLACK) (Node b (g, RB_RED) u)) ps"
    and o3: "same_off (zone (Node (Node a (p, RB_BLACK) b) (g, RB_RED) u) ps) s2 s3"
    using rb_rrotate_rep [OF z2] by blast
  have "rb_fixins_body s (addr_of a) = Some (s3, addr_of a)"
    using zrep_get [OF z] zrep_get [OF zp] zrep_chk_red [OF zu] u s1 s2 s3
      zrep_neq_sibling(1) [OF zp a] zrep_tops [OF zrep_left [OF zp] a]
    by (simp add: rb_fixins_body_def)
  moreover have "same_off (zone (Node (Node a (p, RB_RED) b) (g, RB_BLACK) u) ps) s s3"
    using o1 o2 o3 by (simp add: same_off_def)
  ultimately show ?thesis using z3 by blast
qed

lemma fixins_inner_L:
  assumes z: "zrep s (Node (Node a (p, RB_RED) (Node b (x, RB_RED) c)) (g, RB_BLACK) u) ps"
    and u: "col u = RB_BLACK"
  shows "\<exists>s'. rb_fixins_body s x = Some (s', p) \<and>
    zrep s' (Node (Node a (p, RB_RED) b) (x, RB_BLACK) (Node c (g, RB_RED) u)) ps \<and>
    same_off (zone (Node (Node a (p, RB_RED) (Node b (x, RB_RED) c)) (g, RB_BLACK) u) ps) s s'"
proof -
  note zp = zrep_left [OF z] and zu = zrep_right [OF z]
  obtain s0 where s0: "rb_lrotate s p = Some s0"
    and z0: "zrep s0 (Node (Node a (p, RB_RED) b) (x, RB_RED) c) (CL g RB_BLACK u # ps)"
    and o0: "same_off (zone (Node a (p, RB_RED) (Node b (x, RB_RED) c)) (CL g RB_BLACK u # ps)) s s0"
    using rb_lrotate_rep [OF zp] by blast
  obtain s1 where s1: "set_color s0 x RB_BLACK = Some s1"
    and z1: "zrep s1 (Node (Node a (p, RB_RED) b) (x, RB_BLACK) c) (CL g RB_BLACK u # ps)"
    and o1: "same_off (zone (Node (Node a (p, RB_RED) b) (x, RB_RED) c) (CL g RB_BLACK u # ps)) s0 s1"
    using set_color_rep [OF z0] by blast
  from z1 have "zrep s1 (Node (Node (Node a (p, RB_RED) b) (x, RB_BLACK) c) (g, RB_BLACK) u) ps"
    by (simp add: zrep_CL)
  then obtain s2 where s2: "set_color s1 g RB_RED = Some s2"
    and z2: "zrep s2 (Node (Node (Node a (p, RB_RED) b) (x, RB_BLACK) c) (g, RB_RED) u) ps"
    and o2: "same_off (zone (Node (Node (Node a (p, RB_RED) b) (x, RB_BLACK) c) (g, RB_BLACK) u) ps) s1 s2"
    using set_color_rep by blast
  obtain s3 where s3: "rb_rrotate s2 g = Some s3"
    and z3: "zrep s3 (Node (Node a (p, RB_RED) b) (x, RB_BLACK) (Node c (g, RB_RED) u)) ps"
    and o3: "same_off (zone (Node (Node (Node a (p, RB_RED) b) (x, RB_BLACK) c) (g, RB_RED) u) ps) s2 s3"
    using rb_rrotate_rep [OF z2] by blast
  have "rb_fixins_body s x = Some (s3, p)"
    using zrep_get [OF z] zrep_get [OF zp] zrep_get [OF zrep_right [OF zp]]
      zrep_chk_red [OF zu] u s0 s1 s2 s3 zrep_get [OF z0] zrep_get [OF zrep_left [OF z0]]
    by (simp add: rb_fixins_body_def)
  moreover have "same_off (zone (Node (Node a (p, RB_RED) (Node b (x, RB_RED) c)) (g, RB_BLACK) u) ps) s s3"
    using o0 o1 o2 o3 by (simp add: same_off_def)
  ultimately show ?thesis using z3 by blast
qed

lemma fixins_recolor_R:
  assumes z: "zrep s (Node (Node ul (un, RB_RED) ur) (g, RB_BLACK) (Node a (p, RB_RED) b)) ps"
    and x: "get_parent s x = Some p"
  shows "\<exists>s'. rb_fixins_body s x = Some (s', g) \<and>
    zrep s' (Node (Node ul (un, RB_BLACK) ur) (g, RB_RED) (Node a (p, RB_BLACK) b)) ps \<and>
    same_off (zone (Node (Node ul (un, RB_RED) ur) (g, RB_BLACK) (Node a (p, RB_RED) b)) ps) s s'"
proof -
  note zp = zrep_right [OF z] and zu = zrep_left [OF z]
  obtain s1 where s1: "set_color s p RB_BLACK = Some s1"
    and z1: "zrep s1 (Node a (p, RB_BLACK) b) (CR g RB_BLACK (Node ul (un, RB_RED) ur) # ps)"
    and o1: "same_off (zone (Node a (p, RB_RED) b) (CR g RB_BLACK (Node ul (un, RB_RED) ur) # ps)) s s1"
    using set_color_rep [OF zp] by blast
  from z1 have "zrep s1 (Node ul (un, RB_RED) ur) (CL g RB_BLACK (Node a (p, RB_BLACK) b) # ps)"
    by (simp add: zrep_CL zrep_CR)
  then obtain s2 where s2: "set_color s1 un RB_BLACK = Some s2"
    and z2: "zrep s2 (Node ul (un, RB_BLACK) ur) (CL g RB_BLACK (Node a (p, RB_BLACK) b) # ps)"
    and o2: "same_off (zone (Node ul (un, RB_RED) ur) (CL g RB_BLACK (Node a (p, RB_BLACK) b) # ps)) s1 s2"
    using set_color_rep by blast
  from z2 have "zrep s2 (Node (Node ul (un, RB_BLACK) ur) (g, RB_BLACK) (Node a (p, RB_BLACK) b)) ps"
    by (simp add: zrep_CL)
  then obtain s3 where s3: "set_color s2 g RB_RED = Some s3"
    and z3: "zrep s3 (Node (Node ul (un, RB_BLACK) ur) (g, RB_RED) (Node a (p, RB_BLACK) b)) ps"
    and o3: "same_off (zone (Node (Node ul (un, RB_BLACK) ur) (g, RB_BLACK) (Node a (p, RB_BLACK) b)) ps) s2 s3"
    using set_color_rep by blast
  have "rb_fixins_body s x = Some (s3, g)"
    using zrep_get [OF z] zrep_get [OF zp] zrep_chk_red [OF zu] x s1 s2 s3
      zrep_neq_sibling(2) [OF z]
    by (simp add: rb_fixins_body_def)
  moreover have "same_off (zone (Node (Node ul (un, RB_RED) ur) (g, RB_BLACK) (Node a (p, RB_RED) b)) ps) s s3"
    using o1 o2 o3 by (simp add: same_off_def)
  ultimately show ?thesis using z3 by blast
qed

lemma fixins_outer_R:
  assumes z: "zrep s (Node u (g, RB_BLACK) (Node a (p, RB_RED) b)) ps"
    and u: "col u = RB_BLACK" and b: "b \<noteq> Leaf"
  shows "\<exists>s'. rb_fixins_body s (addr_of b) = Some (s', addr_of b) \<and>
    zrep s' (Node (Node u (g, RB_RED) a) (p, RB_BLACK) b) ps \<and>
    same_off (zone (Node u (g, RB_BLACK) (Node a (p, RB_RED) b)) ps) s s'"
proof -
  note zp = zrep_right [OF z] and zu = zrep_left [OF z]
  obtain s1 where s1: "set_color s p RB_BLACK = Some s1"
    and z1: "zrep s1 (Node a (p, RB_BLACK) b) (CR g RB_BLACK u # ps)"
    and o1: "same_off (zone (Node a (p, RB_RED) b) (CR g RB_BLACK u # ps)) s s1"
    using set_color_rep [OF zp] by blast
  from z1 have "zrep s1 (Node u (g, RB_BLACK) (Node a (p, RB_BLACK) b)) ps"
    by (simp add: zrep_CR)
  then obtain s2 where s2: "set_color s1 g RB_RED = Some s2"
    and z2: "zrep s2 (Node u (g, RB_RED) (Node a (p, RB_BLACK) b)) ps"
    and o2: "same_off (zone (Node u (g, RB_BLACK) (Node a (p, RB_BLACK) b)) ps) s1 s2"
    using set_color_rep by blast
  obtain s3 where s3: "rb_lrotate s2 g = Some s3"
    and z3: "zrep s3 (Node (Node u (g, RB_RED) a) (p, RB_BLACK) b) ps"
    and o3: "same_off (zone (Node u (g, RB_RED) (Node a (p, RB_BLACK) b)) ps) s2 s3"
    using rb_lrotate_rep [OF z2] by blast
  have "rb_fixins_body s (addr_of b) = Some (s3, addr_of b)"
    using zrep_get [OF z] zrep_get [OF zp] zrep_chk_red [OF zu] u s1 s2 s3
      zrep_neq_sibling(2) [OF zp b] zrep_neq_sibling(2) [OF z]
      zrep_tops [OF zrep_right [OF zp] b]
    by (simp add: rb_fixins_body_def)
  moreover have "same_off (zone (Node u (g, RB_BLACK) (Node a (p, RB_RED) b)) ps) s s3"
    using o1 o2 o3 by (simp add: same_off_def)
  ultimately show ?thesis using z3 by blast
qed

lemma fixins_inner_R:
  assumes z: "zrep s (Node u (g, RB_BLACK) (Node (Node a (x, RB_RED) b) (p, RB_RED) c)) ps"
    and u: "col u = RB_BLACK"
  shows "\<exists>s'. rb_fixins_body s x = Some (s', p) \<and>
    zrep s' (Node (Node u (g, RB_RED) a) (x, RB_BLACK) (Node b (p, RB_RED) c)) ps \<and>
    same_off (zone (Node u (g, RB_BLACK) (Node (Node a (x, RB_RED) b) (p, RB_RED) c)) ps) s s'"
proof -
  note zp = zrep_right [OF z] and zu = zrep_left [OF z]
  obtain s0 where s0: "rb_rrotate s p = Some s0"
    and z0: "zrep s0 (Node a (x, RB_RED) (Node b (p, RB_RED) c)) (CR g RB_BLACK u # ps)"
    and o0: "same_off (zone (Node (Node a (x, RB_RED) b) (p, RB_RED) c) (CR g RB_BLACK u # ps)) s s0"
    using rb_rrotate_rep [OF zp] by blast
  obtain s1 where s1: "set_color s0 x RB_BLACK = Some s1"
    and z1: "zrep s1 (Node a (x, RB_BLACK) (Node b (p, RB_RED) c)) (CR g RB_BLACK u # ps)"
    and o1: "same_off (zone (Node a (x, RB_RED) (Node b (p, RB_RED) c)) (CR g RB_BLACK u # ps)) s0 s1"
    using set_color_rep [OF z0] by blast
  from z1 have "zrep s1 (Node u (g, RB_BLACK) (Node a (x, RB_BLACK) (Node b (p, RB_RED) c))) ps"
    by (simp add: zrep_CR)
  then obtain s2 where s2: "set_color s1 g RB_RED = Some s2"
    and z2: "zrep s2 (Node u (g, RB_RED) (Node a (x, RB_BLACK) (Node b (p, RB_RED) c))) ps"
    and o2: "same_off (zone (Node u (g, RB_BLACK) (Node a (x, RB_BLACK) (Node b (p, RB_RED) c))) ps) s1 s2"
    using set_color_rep by blast
  obtain s3 where s3: "rb_lrotate s2 g = Some s3"
    and z3: "zrep s3 (Node (Node u (g, RB_RED) a) (x, RB_BLACK) (Node b (p, RB_RED) c)) ps"
    and o3: "same_off (zone (Node u (g, RB_RED) (Node a (x, RB_BLACK) (Node b (p, RB_RED) c))) ps) s2 s3"
    using rb_lrotate_rep [OF z2] by blast
  have "rb_fixins_body s x = Some (s3, p)"
    using zrep_get [OF z] zrep_get [OF zp] zrep_get [OF zrep_left [OF zp]]
      zrep_chk_red [OF zu] u s0 s1 s2 s3 zrep_get [OF z0] zrep_get [OF zrep_right [OF z0]]
      zrep_neq_sibling(2) [OF z]
    by (simp add: rb_fixins_body_def)
  moreover have "same_off (zone (Node u (g, RB_BLACK) (Node (Node a (x, RB_RED) b) (p, RB_RED) c)) ps) s s3"
    using o0 o1 o2 o3 by (simp add: same_off_def)
  ultimately show ?thesis using z3 by blast
qed

section \<open>The fix-up loop\<close>

lemma fixins_stop_root:
  assumes "zrep s (Node l (x, c) r) []"
  shows "rb_fixins_loop s x = Some s"
  using zrep_root_eq [OF assms] by (subst rb_fixins_loop.simps) (simp add: rb_fixins_cond_def)

lemma zrep_parent_color:
  assumes "zrep s t ps" "ps \<noteq> []"
  shows "get_color s (top ps) = Some (topcol ps)"
  using assms by (cases ps rule: top.cases) (auto simp: zrep_CL zrep_CR dest: zrep_get)

lemma fixins_cond_eval:
  assumes z: "zrep s (Node l (x, c) r) ps" and ps: "ps \<noteq> []"
  shows "rb_fixins_cond s x = Some (topcol ps = RB_RED)"
  using zrep_root_eq [OF z] ps zrep_get [OF z] zrep_parent_color [OF z ps]
  by (simp add: rb_fixins_cond_def)

lemma fixins_stop_black:
  assumes "zrep s (Node l (x, c) r) ps" "ps \<noteq> []" "topcol ps = RB_BLACK"
  shows "rb_fixins_loop s x = Some s"
  using fixins_cond_eval [OF assms(1,2)] assms(3) by (subst rb_fixins_loop.simps) simp

lemma fixins_step:
  assumes "zrep s (Node l (x, c) r) ps" "ps \<noteq> []" "topcol ps = RB_RED"
    and "rb_fixins_body s x = Some (s', x')"
  shows "rb_fixins_loop s x = rb_fixins_loop s' x'"
  using fixins_cond_eval [OF assms(1,2)] assms(3,4) by (subst rb_fixins_loop.simps) simp

lemma addrs_zip_up_cong: "addrs t = addrs t' \<Longrightarrow> addrs (zip_up t ps) = addrs (zip_up t' ps)"
  by (simp add: addrs_zip_up)

text \<open>
  \<open>fixed s res t ps\<close>: the outcome \<open>res\<close> of a fix-up that starts in state \<open>s\<close> at subtree
  \<open>t\<close> with path \<open>ps\<close> is a normal return with a red-black tree over the same in-order sequence
  of nodes (up to the colour of its root), and no node outside the tree has changed.
\<close>

definition fixed :: "rb_state \<Rightarrow> rb_state option \<Rightarrow> rbt \<Rightarrow> crumb list \<Rightarrow> bool" where
  "fixed s res t ps \<longleftrightarrow> (\<exists>s' t'. res = Some s' \<and> srep s' t' \<and>
     addrs t' = addrs (zip_up t ps) \<and> invh t' \<and> invc (paint RB_BLACK t') \<and> t' \<noteq> Leaf \<and>
     same_off (zone t ps) s s')"

lemma fixed_valid:
  assumes "zrep s' T qs" "T \<noteq> Leaf" "invc T" "invh T" "cok (bh T) qs"
    and "col T = RB_BLACK \<or> qs \<noteq> [] \<and> topcol qs = RB_BLACK"
    and "addrs (zip_up T qs) = addrs (zip_up t ps)" "same_off (zone t ps) s s'"
  shows "fixed s (Some s') t ps"
proof -
  from zip_up_valid assms(3-6) have v: "rb_valid (zip_up T qs)" by blast
  have "set (addrs (zip_up T qs)) \<noteq> {}"
    using assms(2) by (cases T rule: addr_of.cases) (auto simp: set_addrs_zip_up)
  then have "zip_up T qs \<noteq> Leaf" by auto
  with v assms(1,7,8) show ?thesis
    unfolding fixed_def by (auto simp: zrep_zip_up rb_valid_def invc_paint)
qed

lemma fixed_continue:
  assumes "fixed s1 res T qs" "addrs (zip_up T qs) = addrs (zip_up t ps)"
    and "zone T qs = zone t ps" "same_off (zone t ps) s s1"
  shows "fixed s res t ps"
  using assms unfolding fixed_def by (auto intro: same_off_trans)

lemma fixed_stop:
  assumes z: "zrep s' (Node a (x', cx) b) (q # qs)" and T: "T = zip_up (Node a (x', cx) b) [q]"
    and q: "topcol [q] = RB_BLACK" and inv: "invc T" "invh T" "cok (bh T) qs" "col T = RB_BLACK"
    and eq: "addrs (zip_up T qs) = addrs (zip_up t ps)" "same_off (zone t ps) s s'"
  shows "fixed s (rb_fixins_loop s' x') t ps"
proof -
  have "rb_fixins_loop s' x' = Some s'"
    using fixins_stop_black [OF z] q by (cases q) auto
  moreover have "zrep s' T qs" using z T by (cases q) (auto simp: zrep_CL zrep_CR)
  moreover have "T \<noteq> Leaf" using T by (cases q) auto
  ultimately show ?thesis using fixed_valid [OF _ _ inv(1-3)] inv(4) eq by auto
qed

text \<open>
  The induction hypothesis of the loop: a red node with a valid subtree at a shorter path gets
  fixed. The four lemmas below run one iteration, one for each position of the node and of its
  parent.
\<close>

definition fixes_at :: "crumb list \<Rightarrow> bool" where
  "fixes_at qs \<longleftrightarrow> (\<forall>s' a x' b. zrep s' (Node a (x', RB_RED) b) qs \<longrightarrow> invc (Node a (x', RB_RED) b) \<longrightarrow>
     invh (Node a (x', RB_RED) b) \<longrightarrow> cok (bh (Node a (x', RB_RED) b)) qs \<longrightarrow>
     fixed s' (rb_fixins_loop s' x') (Node a (x', RB_RED) b) qs)"

lemma fixed_go:
  assumes "fixes_at qs" "zrep s' (Node a (x', RB_RED) b) qs"
    "invc (Node a (x', RB_RED) b)" "invh (Node a (x', RB_RED) b)" "cok (bh (Node a (x', RB_RED) b)) qs"
    "addrs (zip_up (Node a (x', RB_RED) b) qs) = addrs (zip_up t ps)"
    "zone (Node a (x', RB_RED) b) qs = zone t ps" "same_off (zone t ps) s s'"
  shows "fixed s (rb_fixins_loop s' x') t ps"
  using fixed_continue [OF _ assms(6-8)] assms(1-5) unfolding fixes_at_def by blast

lemma fixins_case_LL:
  assumes z: "zrep s t (CL p RB_RED u # CL g RB_BLACK U # qs)" and t: "t = Node l (x, RB_RED) r"
    and inv: "invc t" "invh t" "cok (bh t) (CL p RB_RED u # CL g RB_BLACK U # qs)"
    and IH: "fixes_at qs"
  shows "fixed s (rb_fixins_loop s x) t (CL p RB_RED u # CL g RB_BLACK U # qs)"
proof -
  from z t have z': "zrep s (Node (Node t (p, RB_RED) u) (g, RB_BLACK) U) qs"
    by (simp add: zrep_CL)
  from inv t have kids: "col l = RB_BLACK" "col r = RB_BLACK" "bh l = bh r"
    "invc l" "invc r" "invh l" "invh r" by auto
  from inv have iu: "invc u" "invh u" "bh u = bh t" "col u = RB_BLACK"
    "invc U" "invh U" "bh U = bh t" "cok (Suc (bh t)) qs" by auto
  show ?thesis
  proof (cases "col U = RB_RED")
    case True
    then obtain ul un ur where U: "U = Node ul (un, RB_RED) ur"
      by (cases U rule: addr_of.cases) auto
    from zrep_tops [OF z] t have "get_parent s x = Some p" by simp
    from fixins_recolor_L [OF z' [unfolded U] this] obtain s' where
      b: "rb_fixins_body s x = Some (s', g)"
      "zrep s' (Node (Node t (p, RB_BLACK) u) (g, RB_RED) (Node ul (un, RB_BLACK) ur)) qs"
      "same_off (zone (Node (Node t (p, RB_RED) u) (g, RB_BLACK) (Node ul (un, RB_RED) ur)) qs) s s'"
      by blast
    show ?thesis
      unfolding fixins_step [OF z [unfolded t] _ _ b(1), simplified]
      by (rule fixed_go [OF IH b(2)])
        (use iu inv U b(3) in \<open>auto simp: same_off_def intro!: addrs_zip_up_cong\<close>)
  next
    case False
    with fixins_outer_L [OF z'] t obtain s' where
      b: "rb_fixins_body s x = Some (s', x)"
      "zrep s' (Node t (p, RB_BLACK) (Node u (g, RB_RED) U)) qs"
      "same_off (zone (Node (Node t (p, RB_RED) u) (g, RB_BLACK) U) qs) s s'"
      by auto
    then have "zrep s' (Node l (x, RB_RED) r) (CL p RB_BLACK (Node u (g, RB_RED) U) # qs)"
      using t by (simp add: zrep_CL)
    then show ?thesis
      unfolding fixins_step [OF z [unfolded t] _ _ b(1), simplified]
      by (rule fixed_stop [OF _ refl])
        (use iu inv kids t False b(3) in \<open>auto simp: same_off_def intro!: addrs_zip_up_cong\<close>)
  qed
qed

lemma fixins_case_RL:
  assumes z: "zrep s t (CR p RB_RED u # CL g RB_BLACK U # qs)" and t: "t = Node l (x, RB_RED) r"
    and inv: "invc t" "invh t" "cok (bh t) (CR p RB_RED u # CL g RB_BLACK U # qs)"
    and IH: "fixes_at qs"
  shows "fixed s (rb_fixins_loop s x) t (CR p RB_RED u # CL g RB_BLACK U # qs)"
proof -
  from z t have z': "zrep s (Node (Node u (p, RB_RED) t) (g, RB_BLACK) U) qs"
    by (simp add: zrep_CL zrep_CR)
  from inv t have kids: "col l = RB_BLACK" "col r = RB_BLACK" "bh l = bh r"
    "invc l" "invc r" "invh l" "invh r" by auto
  from inv have iu: "invc u" "invh u" "bh u = bh t" "col u = RB_BLACK"
    "invc U" "invh U" "bh U = bh t" "cok (Suc (bh t)) qs" by auto
  show ?thesis
  proof (cases "col U = RB_RED")
    case True
    then obtain ul un ur where U: "U = Node ul (un, RB_RED) ur"
      by (cases U rule: addr_of.cases) auto
    from zrep_tops [OF z] t have "get_parent s x = Some p" by simp
    from fixins_recolor_L [OF z' [unfolded U] this] obtain s' where
      b: "rb_fixins_body s x = Some (s', g)"
      "zrep s' (Node (Node u (p, RB_BLACK) t) (g, RB_RED) (Node ul (un, RB_BLACK) ur)) qs"
      "same_off (zone (Node (Node u (p, RB_RED) t) (g, RB_BLACK) (Node ul (un, RB_RED) ur)) qs) s s'"
      by blast
    show ?thesis
      unfolding fixins_step [OF z [unfolded t] _ _ b(1), simplified]
      by (rule fixed_go [OF IH b(2)])
        (use iu inv U b(3) in \<open>auto simp: same_off_def intro!: addrs_zip_up_cong\<close>)
  next
    case False
    with fixins_inner_L [OF z' [unfolded t]] obtain s' where
      b: "rb_fixins_body s x = Some (s', p)"
      "zrep s' (Node (Node u (p, RB_RED) l) (x, RB_BLACK) (Node r (g, RB_RED) U)) qs"
      "same_off (zone (Node (Node u (p, RB_RED) t) (g, RB_BLACK) U) qs) s s'"
      by (auto simp: t)
    then have "zrep s' (Node u (p, RB_RED) l) (CL x RB_BLACK (Node r (g, RB_RED) U) # qs)"
      using t by (simp add: zrep_CL)
    then show ?thesis
      unfolding fixins_step [OF z [unfolded t] _ _ b(1), simplified]
      by (rule fixed_stop [OF _ refl])
        (use iu inv kids t False b(3) in \<open>auto simp: same_off_def intro!: addrs_zip_up_cong\<close>)
  qed
qed

lemma fixins_case_LR:
  assumes z: "zrep s t (CL p RB_RED u # CR g RB_BLACK U # qs)" and t: "t = Node l (x, RB_RED) r"
    and inv: "invc t" "invh t" "cok (bh t) (CL p RB_RED u # CR g RB_BLACK U # qs)"
    and IH: "fixes_at qs"
  shows "fixed s (rb_fixins_loop s x) t (CL p RB_RED u # CR g RB_BLACK U # qs)"
proof -
  from z t have z': "zrep s (Node U (g, RB_BLACK) (Node t (p, RB_RED) u)) qs"
    by (simp add: zrep_CL zrep_CR)
  from inv t have kids: "col l = RB_BLACK" "col r = RB_BLACK" "bh l = bh r"
    "invc l" "invc r" "invh l" "invh r" by auto
  from inv have iu: "invc u" "invh u" "bh u = bh t" "col u = RB_BLACK"
    "invc U" "invh U" "bh U = bh t" "cok (Suc (bh t)) qs" by auto
  show ?thesis
  proof (cases "col U = RB_RED")
    case True
    then obtain ul un ur where U: "U = Node ul (un, RB_RED) ur"
      by (cases U rule: addr_of.cases) auto
    from zrep_tops [OF z] t have "get_parent s x = Some p" by simp
    from fixins_recolor_R [OF z' [unfolded U] this] obtain s' where
      b: "rb_fixins_body s x = Some (s', g)"
      "zrep s' (Node (Node ul (un, RB_BLACK) ur) (g, RB_RED) (Node t (p, RB_BLACK) u)) qs"
      "same_off (zone (Node (Node ul (un, RB_RED) ur) (g, RB_BLACK) (Node t (p, RB_RED) u)) qs) s s'"
      by blast
    show ?thesis
      unfolding fixins_step [OF z [unfolded t] _ _ b(1), simplified]
      by (rule fixed_go [OF IH b(2)])
        (use iu inv U b(3) in \<open>auto simp: same_off_def intro!: addrs_zip_up_cong\<close>)
  next
    case False
    with fixins_inner_R [OF z' [unfolded t]] obtain s' where
      b: "rb_fixins_body s x = Some (s', p)"
      "zrep s' (Node (Node U (g, RB_RED) l) (x, RB_BLACK) (Node r (p, RB_RED) u)) qs"
      "same_off (zone (Node U (g, RB_BLACK) (Node t (p, RB_RED) u)) qs) s s'"
      by (auto simp: t)
    then have "zrep s' (Node r (p, RB_RED) u) (CR x RB_BLACK (Node U (g, RB_RED) l) # qs)"
      using t by (simp add: zrep_CR)
    then show ?thesis
      unfolding fixins_step [OF z [unfolded t] _ _ b(1), simplified]
      by (rule fixed_stop [OF _ refl])
        (use iu inv kids t False b(3) in \<open>auto simp: same_off_def intro!: addrs_zip_up_cong\<close>)
  qed
qed

lemma fixins_case_RR:
  assumes z: "zrep s t (CR p RB_RED u # CR g RB_BLACK U # qs)" and t: "t = Node l (x, RB_RED) r"
    and inv: "invc t" "invh t" "cok (bh t) (CR p RB_RED u # CR g RB_BLACK U # qs)"
    and IH: "fixes_at qs"
  shows "fixed s (rb_fixins_loop s x) t (CR p RB_RED u # CR g RB_BLACK U # qs)"
proof -
  from z t have z': "zrep s (Node U (g, RB_BLACK) (Node u (p, RB_RED) t)) qs"
    by (simp add: zrep_CL zrep_CR)
  from inv t have kids: "col l = RB_BLACK" "col r = RB_BLACK" "bh l = bh r"
    "invc l" "invc r" "invh l" "invh r" by auto
  from inv have iu: "invc u" "invh u" "bh u = bh t" "col u = RB_BLACK"
    "invc U" "invh U" "bh U = bh t" "cok (Suc (bh t)) qs" by auto
  show ?thesis
  proof (cases "col U = RB_RED")
    case True
    then obtain ul un ur where U: "U = Node ul (un, RB_RED) ur"
      by (cases U rule: addr_of.cases) auto
    from zrep_tops [OF z] t have "get_parent s x = Some p" by simp
    from fixins_recolor_R [OF z' [unfolded U] this] obtain s' where
      b: "rb_fixins_body s x = Some (s', g)"
      "zrep s' (Node (Node ul (un, RB_BLACK) ur) (g, RB_RED) (Node u (p, RB_BLACK) t)) qs"
      "same_off (zone (Node (Node ul (un, RB_RED) ur) (g, RB_BLACK) (Node u (p, RB_RED) t)) qs) s s'"
      by blast
    show ?thesis
      unfolding fixins_step [OF z [unfolded t] _ _ b(1), simplified]
      by (rule fixed_go [OF IH b(2)])
        (use iu inv U b(3) in \<open>auto simp: same_off_def intro!: addrs_zip_up_cong\<close>)
  next
    case False
    with fixins_outer_R [OF z'] t obtain s' where
      b: "rb_fixins_body s x = Some (s', x)"
      "zrep s' (Node (Node U (g, RB_RED) u) (p, RB_BLACK) t) qs"
      "same_off (zone (Node U (g, RB_BLACK) (Node u (p, RB_RED) t)) qs) s s'"
      by auto
    then have "zrep s' (Node l (x, RB_RED) r) (CR p RB_BLACK (Node U (g, RB_RED) u) # qs)"
      using t by (simp add: zrep_CR)
    then show ?thesis
      unfolding fixins_step [OF z [unfolded t] _ _ b(1), simplified]
      by (rule fixed_stop [OF _ refl])
        (use iu inv kids t False b(3) in \<open>auto simp: same_off_def intro!: addrs_zip_up_cong\<close>)
  qed
qed

lemma red_parent_cases:
  assumes "ps \<noteq> []" "topcol ps = RB_RED" "cok n ps"
  obtains (LL) p u g U qs where "ps = CL p RB_RED u # CL g RB_BLACK U # qs"
    | (RL) p u g U qs where "ps = CR p RB_RED u # CL g RB_BLACK U # qs"
    | (LR) p u g U qs where "ps = CL p RB_RED u # CR g RB_BLACK U # qs"
    | (RR) p u g U qs where "ps = CR p RB_RED u # CR g RB_BLACK U # qs"
proof -
  from assms(1) obtain q1 ps1 where q1: "ps = q1 # ps1" by (cases ps) auto
  from q1 assms(2,3) have ps1: "ps1 \<noteq> []" "topcol ps1 = RB_BLACK" by (cases q1; simp)+
  then obtain q2 qs where q2: "ps1 = q2 # qs" by (cases ps1) auto
  with q1 assms(2) ps1(2) show ?thesis
    by (cases q1; cases q2) (auto intro: that)
qed

lemma rb_fixins_loop_fixed:
  assumes "zrep s t ps" "t = Node l (x, RB_RED) r" "invc t" "invh t" "cok (bh t) ps"
  shows "fixed s (rb_fixins_loop s x) t ps"
  using assms
proof (induction ps arbitrary: s t l x r rule: length_induct)
  case (1 ps)
  note z = "1.prems"(1) and t = "1.prems"(2) and inv = "1.prems"(3-5)
  have IH: "length qs < length ps \<Longrightarrow> fixes_at qs" for qs
    using "1.IH" unfolding fixes_at_def by blast
  consider "ps = []" | "ps \<noteq> []" "topcol ps = RB_BLACK" | "ps \<noteq> []" "topcol ps = RB_RED"
    by (cases "topcol ps") auto
  then show ?case
  proof cases
    case 1
    with z t fixins_stop_root have "rb_fixins_loop s x = Some s" by blast
    with z inv 1 t show ?thesis by (auto simp: fixed_def srep_def)
  next
    case 2
    with z t fixins_stop_black have "rb_fixins_loop s x = Some s" by auto
    with fixed_valid [OF z _ inv] 2 t show ?thesis by auto
  next
    case 3
    then show ?thesis using inv(3)
    proof (cases rule: red_parent_cases)
      case (LL p u g U qs)
      then show ?thesis
        using fixins_case_LL [OF _ t inv(1,2)] z inv(3) IH [of qs] by simp
    next
      case (RL p u g U qs)
      then show ?thesis
        using fixins_case_RL [OF _ t inv(1,2)] z inv(3) IH [of qs] by simp
    next
      case (LR p u g U qs)
      then show ?thesis
        using fixins_case_LR [OF _ t inv(1,2)] z inv(3) IH [of qs] by simp
    next
      case (RR p u g U qs)
      then show ?thesis
        using fixins_case_RR [OF _ t inv(1,2)] z inv(3) IH [of qs] by simp
    qed
  qed
qed


section \<open>rb_fixins and rb_insert\<close>

lemma zip_up_validD:
  "rb_valid (zip_up t ps) \<Longrightarrow>
   invc t \<and> invh t \<and> cok (bh t) ps \<and> (col t = RB_BLACK \<or> ps \<noteq> [] \<and> topcol ps = RB_BLACK)"
  by (induction t ps rule: zip_up.induct) (auto simp: rb_valid_def split: if_splits)

lemma rb_fixins_fixed:
  assumes "zrep s (Node l (x, RB_RED) r) ps" "invc (Node l (x, RB_RED) r)"
    "invh (Node l (x, RB_RED) r)" "cok (bh (Node l (x, RB_RED) r)) ps"
  shows "\<exists>s' t'. rb_fixins s x = Some s' \<and> srep s' t' \<and> rb_valid t' \<and>
    addrs t' = addrs (zip_up (Node l (x, RB_RED) r) ps) \<and>
    same_off (zone (Node l (x, RB_RED) r) ps) s s'"
proof -
  from rb_fixins_loop_fixed [OF assms(1) refl assms(2-4)] obtain s1 t1
    where s1: "rb_fixins_loop s x = Some s1" and r1: "srep s1 t1"
      and a1: "addrs t1 = addrs (zip_up (Node l (x, RB_RED) r) ps)"
      and v1: "invh t1" "invc (paint RB_BLACK t1)" and "t1 \<noteq> Leaf"
      and o1: "same_off (zone (Node l (x, RB_RED) r) ps) s s1"
    by (auto simp: fixed_def)
  then obtain l1 x1 c1 r1' where t1: "t1 = Node l1 (x1, c1) r1'"
    by (cases t1 rule: addr_of.cases) auto
  from r1 t1 have z1: "zrep s1 (Node l1 (x1, c1) r1') []" by (simp add: srep_def)
  then obtain s2 where s2: "set_color s1 x1 RB_BLACK = Some s2"
    and z2: "zrep s2 (Node l1 (x1, RB_BLACK) r1') []"
    and o2: "same_off (zone (Node l1 (x1, c1) r1') []) s1 s2"
    using set_color_rep by blast
  have "rb_fixins s x = Some s2"
    using s1 s2 zrep_root_eq [OF z1] by (simp add: rb_fixins_def)
  moreover have "srep s2 (paint RB_BLACK t1)" using z2 t1 by (simp add: srep_def)
  moreover have "rb_valid (paint RB_BLACK t1)"
    using v1 by (simp add: rb_valid_def invh_paint col_paint)
  moreover have "set (addrs t1) = zone (Node l (x, RB_RED) r) ps"
    using a1 by (simp add: set_addrs_zip_up)
  then have "same_off (zone (Node l (x, RB_RED) r) ps) s s2"
    using o1 o2 t1 by (auto intro: same_off_trans)
  ultimately show ?thesis using a1 by auto
qed

fun link_of :: "crumb list \<Rightarrow> rb_link" where
  "link_of [] = RootLink"
| "link_of (CL a c t # ps) = LeftOf a"
| "link_of (CR a c t # ps) = RightOf a"

lemma link_node_rep:
  assumes z: "zrep s Leaf ps" and n: "n \<noteq> 0" "rd s n = Some nd" "n \<notin> set (caddrs ps)"
  shows "\<exists>s'. do {
      s \<leftarrow> set_left s n 0; s \<leftarrow> set_right s n 0; s \<leftarrow> set_parent s n (top ps);
      s \<leftarrow> set_color s n RB_RED; link_set s (link_of ps) n } = Some s' \<and>
    zrep s' (Node Leaf (n, RB_RED) Leaf) ps \<and> same_off (insert n (set (caddrs ps))) s s'"
  using assms unfolding zrep_def
  by (cases ps rule: top.cases; simp; elim conjE;
      simp add: link_set_def heap_simps frame_simps cong: bind_first_cong)

lemma rb_insert_at_hole:
  assumes z: "zrep s Leaf ps" and v: "rb_valid (zip_up Leaf ps)"
    and n: "rd s n = Some nd" "n \<notin> set (caddrs ps)"
  shows "\<exists>s' t'. rb_insert s n (top ps) (link_of ps) = Some s' \<and> srep s' t' \<and> rb_valid t' \<and>
    addrs t' = before ps @ n # after ps \<and> same_off (insert n (set (caddrs ps))) s s'"
proof -
  from n have n0: "n \<noteq> 0" by (auto simp: rd_null)
  obtain s1 where s1: "do {
      s \<leftarrow> set_left s n 0; s \<leftarrow> set_right s n 0; s \<leftarrow> set_parent s n (top ps);
      s \<leftarrow> set_color s n RB_RED; link_set s (link_of ps) n } = Some s1"
    and z1: "zrep s1 (Node Leaf (n, RB_RED) Leaf) ps"
    and o1: "same_off (insert n (set (caddrs ps))) s s1"
    using link_node_rep [OF z n0 n] by blast
  from zip_up_validD [OF v] have "cok 0 ps" by simp
  with rb_fixins_fixed [OF z1] obtain s2 t2 where s2: "rb_fixins s1 n = Some s2"
    and t2: "srep s2 t2" "rb_valid t2" "addrs t2 = addrs (zip_up (Node Leaf (n, RB_RED) Leaf) ps)"
    and o2: "same_off (zone (Node Leaf (n, RB_RED) Leaf) ps) s1 s2"
    by auto
  have "rb_insert s n (top ps) (link_of ps) = Some s2"
    using s1 s2 n0 by (auto simp: rb_insert_def bind_eq_Some_conv)
  with t2 o1 o2 show ?thesis by (auto simp: addrs_zip_up intro: same_off_trans)
qed

end
