(* ===== verification/RbTreeWalk.thy ===== *)
theory RbTreeWalk
  imports RbTreeInsert
begin

text \<open>
  The walks of \<^verbatim>\<open>kernel/rbtree.c\<close> (\<open>rb_first\<close>, \<open>rb_last\<close>, \<open>rb_next\<close>, \<open>rb_prev\<close>,
  \<open>rb_getroot\<close>) return and follow the in-order sequence of the represented tree. The interface
  that a user of the tree relies on is the locale \<open>ordered_cursor\<close>, interpreted at the end on
  the heap model.
\<close>

section \<open>First and last elements\<close>

definition hd0 :: "u64 list \<Rightarrow> u64" where
  "hd0 xs = (case xs of [] \<Rightarrow> 0 | x # _ \<Rightarrow> x)"

definition last0 :: "u64 list \<Rightarrow> u64" where
  "last0 xs = (if xs = [] then 0 else last xs)"

lemma hd0_simps [simp]: "hd0 [] = 0" "hd0 (x # xs) = x"
  by (simp_all add: hd0_def)

lemma hd0_append: "hd0 (xs @ ys) = (if xs = [] then hd0 ys else hd0 xs)"
  by (cases xs) auto

lemma last0_simps [simp]: "last0 [] = 0" "last0 [x] = x" "last0 (xs @ [x]) = x"
  by (simp_all add: last0_def)

lemma last0_append: "last0 (xs @ ys) = (if ys = [] then last0 xs else last0 ys)"
  by (simp add: last0_def)

lemma addrs_Nil [simp]: "addrs t = [] \<longleftrightarrow> t = Leaf"
  by (cases t rule: addr_of.cases) auto

lemma addr_of_zero: "zrep s t ps \<Longrightarrow> addr_of t = 0 \<longleftrightarrow> t = Leaf"
  by (auto simp: zrep_def dest: rep_addr_zero)

section \<open>Walking\<close>

lemma rb_leftmost_rep:
  "zrep s t ps \<Longrightarrow> t \<noteq> Leaf \<Longrightarrow> rb_leftmost s (addr_of t) = Some (hd0 (addrs t))"
proof (induction t arbitrary: ps rule: addrs.induct)
  case 1
  then show ?case by simp
next
  case (2 l a c r)
  note g = zrep_get [OF "2.prems"(1)] and zl = zrep_left [OF "2.prems"(1)]
  show ?case
  proof (cases "l = Leaf")
    case True
    with g show ?thesis by (subst rb_leftmost.simps) simp
  next
    case False
    with "2.IH"(1) [OF zl] g addr_of_zero [OF zl] show ?thesis
      by (subst rb_leftmost.simps) (simp add: hd0_append)
  qed
qed

lemma rb_rightmost_rep:
  "zrep s t ps \<Longrightarrow> t \<noteq> Leaf \<Longrightarrow> rb_rightmost s (addr_of t) = Some (last0 (addrs t))"
proof (induction t arbitrary: ps rule: addrs.induct)
  case 1
  then show ?case by simp
next
  case (2 l a c r)
  note g = zrep_get [OF "2.prems"(1)] and zr = zrep_right [OF "2.prems"(1)]
  show ?case
  proof (cases "r = Leaf")
    case True
    with g show ?thesis by (subst rb_rightmost.simps) simp
  next
    case False
    with "2.IH"(2) [OF zr] g addr_of_zero [OF zr] show ?thesis
      by (subst rb_rightmost.simps) (simp add: last0_append last0_def)
  qed
qed

lemma rb_next_up_rep:
  "zrep s t ps \<Longrightarrow> t \<noteq> Leaf \<Longrightarrow> rb_next_up s (addr_of t) (top ps) = Some (hd0 (after ps))"
proof (induction t ps rule: zip_up.induct)
  case (1 t)
  show ?case by (subst rb_next_up.simps) simp
next
  case (2 t a c u ps)
  then have z: "zrep s (Node t (a, c) u) ps" by (simp add: zrep_CL)
  from zrep_get [OF z] zrep_neq_sibling(1) [OF z] 2(3) show ?case
    by (subst rb_next_up.simps) simp
next
  case (3 t a c u ps)
  then have z: "zrep s (Node u (a, c) t) ps" by (simp add: zrep_CR)
  from zrep_get [OF z] 3(1) [OF z] show ?case
    by (subst rb_next_up.simps) simp
qed

lemma rb_prev_up_rep:
  "zrep s t ps \<Longrightarrow> t \<noteq> Leaf \<Longrightarrow> rb_prev_up s (addr_of t) (top ps) = Some (last0 (before ps))"
proof (induction t ps rule: zip_up.induct)
  case (1 t)
  show ?case by (subst rb_prev_up.simps) simp
next
  case (2 t a c u ps)
  then have z: "zrep s (Node t (a, c) u) ps" by (simp add: zrep_CL)
  from zrep_get [OF z] 2(1) [OF z] show ?case
    by (subst rb_prev_up.simps) simp
next
  case (3 t a c u ps)
  then have z: "zrep s (Node u (a, c) t) ps" by (simp add: zrep_CR)
  from zrep_get [OF z] zrep_neq_sibling(2) [OF z] 3(3) show ?case
    by (subst rb_prev_up.simps) (simp add: last0_append)
qed

lemma rb_next_zip:
  assumes z: "zrep s (Node l (x, c) r) ps"
  shows "rb_next s x = Some (hd0 (addrs r @ after ps))"
proof (cases "r = Leaf")
  case True
  with zrep_get [OF z] rb_next_up_rep [OF z] show ?thesis by (simp add: rb_next_def)
next
  case False
  with zrep_get [OF z] addr_of_zero [OF zrep_right [OF z]] rb_leftmost_rep [OF zrep_right [OF z]]
  show ?thesis by (simp add: rb_next_def hd0_append)
qed

lemma rb_prev_zip:
  assumes z: "zrep s (Node l (x, c) r) ps"
  shows "rb_prev s x = Some (last0 (before ps @ addrs l))"
proof (cases "l = Leaf")
  case True
  with zrep_get [OF z] rb_prev_up_rep [OF z] show ?thesis by (simp add: rb_prev_def)
next
  case False
  with zrep_get [OF z] addr_of_zero [OF zrep_left [OF z]] rb_rightmost_rep [OF zrep_left [OF z]]
  show ?thesis by (simp add: rb_prev_def last0_append)
qed

section \<open>Positions by in-order sequence\<close>

lemma zip_exists:
  "x \<in> set (addrs t) \<Longrightarrow> \<exists>l c r qs. zip_up (Node l (x, c) r) (qs @ ps) = zip_up t ps"
proof (induction t arbitrary: ps rule: addrs.induct)
  case 1
  then show ?case by simp
next
  case (2 l a c r)
  from "2.prems" consider "x \<in> set (addrs l)" | "x = a" | "x \<in> set (addrs r)" by auto
  then show ?case
  proof cases
    case 1
    from "2.IH"(1) [OF this, of "CL a c r # ps"] obtain l' c' r' qs where
      "zip_up (Node l' (x, c') r') ((qs @ [CL a c r]) @ ps) = zip_up (Node l (a, c) r) ps" by auto
    then show ?thesis by blast
  next
    case 2
    then have "zip_up (Node l (x, c) r) ([] @ ps) = zip_up (Node l (a, c) r) ps" by simp
    then show ?thesis by blast
  next
    case 3
    from "2.IH"(2) [OF this, of "CR a c l # ps"] obtain l' c' r' qs where
      "zip_up (Node l' (x, c') r') ((qs @ [CR a c l]) @ ps) = zip_up (Node l (a, c) r) ps" by auto
    then show ?thesis by blast
  qed
qed

lemma srep_distinct: "srep s t \<Longrightarrow> distinct (addrs t)"
  by (simp add: srep_def zrep_def)

lemma zip_at:
  assumes s: "srep s t" and t: "addrs t = xs @ x # ys"
  obtains l c r ps where "zip_up (Node l (x, c) r) ps = t" "zrep s (Node l (x, c) r) ps"
    "xs = before ps @ addrs l" "ys = addrs r @ after ps"
proof -
  from t zip_exists [of x t "[]"] obtain l c r ps where zp: "zip_up (Node l (x, c) r) ps = t"
    by auto
  with s have z: "zrep s (Node l (x, c) r) ps" by (simp add: zrep_zip_up)
  have "xs @ x # ys = (before ps @ addrs l) @ x # (addrs r @ after ps)"
    using t zp addrs_zip_up [of "Node l (x, c) r" ps] by simp
  moreover have "distinct (xs @ x # ys)" using srep_distinct [OF s] t by simp
  ultimately have "xs = before ps @ addrs l \<and> ys = addrs r @ after ps"
    by (intro distinct_split_unique)
  then have "xs = before ps @ addrs l" "ys = addrs r @ after ps" by simp_all
  with that zp z show ?thesis by blast
qed

lemma rb_next_in_order: "srep s t \<Longrightarrow> addrs t = xs @ x # ys \<Longrightarrow> rb_next s x = Some (hd0 ys)"
  by (erule (1) zip_at) (simp add: rb_next_zip)

lemma rb_prev_in_order: "srep s t \<Longrightarrow> addrs t = xs @ x # ys \<Longrightarrow> rb_prev s x = Some (last0 xs)"
  by (erule (1) zip_at) (simp add: rb_prev_zip)

lemma srep_root: "srep s t \<Longrightarrow> rb_root s = addr_of t"
  by (simp add: srep_def zrep_def)

lemma rb_first_in_order: "srep s t \<Longrightarrow> rb_first s = Some (hd0 (addrs t))"
  using rb_leftmost_rep [of s t "[]"] addr_of_zero [of s t "[]"]
  by (cases "t = Leaf") (auto simp: rb_first_def srep_root srep_def)

lemma rb_last_in_order: "srep s t \<Longrightarrow> rb_last s = Some (last0 (addrs t))"
  using rb_rightmost_rep [of s t "[]"] addr_of_zero [of s t "[]"]
  by (cases "t = Leaf") (auto simp: rb_last_def srep_root srep_def)

lemma rb_getroot_rep:
  "zrep s t ps \<Longrightarrow> t \<noteq> Leaf \<Longrightarrow> rb_getroot s (addr_of t) = Some (rb_root s)"
proof (induction t ps rule: zip_up.induct)
  case (1 t)
  then show ?case
    by (cases t rule: addr_of.cases; subst rb_getroot.simps)
       (auto simp: zrep_get zrep_def field_ops)
next
  case (2 t a c u ps)
  then have z: "zrep s (Node t (a, c) u) ps" by (simp add: zrep_CL)
  with 2(1) zrep_tops [OF 2(2,3)] addr_of_zero [OF 2(2)] 2(3) zrep_get(1) [OF z] show ?case
    by (subst rb_getroot.simps) simp
next
  case (3 t a c u ps)
  then have z: "zrep s (Node u (a, c) t) ps" by (simp add: zrep_CR)
  with 3(1) zrep_tops [OF 3(2,3)] addr_of_zero [OF 3(2)] 3(3) zrep_get(1) [OF z] show ?case
    by (subst rb_getroot.simps) simp
qed

section \<open>The cursor interface\<close>

locale ordered_cursor =
  fixes holds :: "'s \<Rightarrow> u64 list \<Rightarrow> bool"
    and first last :: "'s \<Rightarrow> u64 option"
    and nxt prv :: "'s \<Rightarrow> u64 \<Rightarrow> u64 option"
  assumes nodes_ok: "holds s xs \<Longrightarrow> distinct xs \<and> 0 \<notin> set xs"
    and first_law: "holds s xs \<Longrightarrow> first s = Some (hd0 xs)"
    and last_law: "holds s xs \<Longrightarrow> last s = Some (last0 xs)"
    and next_law: "holds s (xs @ x # ys) \<Longrightarrow> nxt s x = Some (hd0 ys)"
    and prev_law: "holds s (xs @ x # ys) \<Longrightarrow> prv s x = Some (last0 xs)"
begin

lemma first_null_iff: "holds s xs \<Longrightarrow> first s = Some 0 \<longleftrightarrow> xs = []"
  using first_law nodes_ok by (cases xs) fastforce+

lemma chain_from:
  "holds s (us @ xs) \<Longrightarrow> chain (\<lambda>p. the (nxt s p)) (hd0 xs) xs 0"
proof (induction xs arbitrary: us)
  case Nil
  then show ?case by simp
next
  case (Cons x xs)
  from Cons.IH [of "us @ [x]"] Cons.prems
  have "chain (\<lambda>p. the (nxt s p)) (hd0 xs) xs 0" by simp
  moreover from next_law [of s us x xs] Cons.prems have "nxt s x = Some (hd0 xs)" by simp
  moreover have "x \<noteq> 0" using nodes_ok [OF Cons.prems] by auto
  ultimately show ?case by simp
qed

lemma prev_next:
  "holds s (xs @ x # y # ys) \<Longrightarrow> nxt s x = Some y \<and> prv s y = Some x"
  using next_law [of s xs x "y # ys"] prev_law [of s "xs @ [x]" y ys] by simp

end

definition rb_holds :: "rb_state \<Rightarrow> u64 list \<Rightarrow> bool" where
  "rb_holds s xs \<longleftrightarrow> (\<exists>t. srep s t \<and> addrs t = xs)"

interpretation rbcur: ordered_cursor rb_holds rb_first rb_last rb_next rb_prev
proof unfold_locales
  show "rb_holds s xs \<Longrightarrow> distinct xs \<and> 0 \<notin> set xs" for s xs
    by (auto simp: rb_holds_def srep_def zrep_def dest: rep_nonnull)
qed (auto simp: rb_holds_def rb_first_in_order rb_last_in_order rb_next_in_order rb_prev_in_order)

end
