(* ===== verification/RbTreeRemove.thy ===== *)
theory RbTreeRemove
  imports RbTreeWalk
begin

text \<open>
  Removal from the red-black tree of \<^verbatim>\<open>kernel/rbtree.c\<close>. \<open>rb_remove\<close> unlinks either the
  node itself (at most one child) or its in-order successor (two children), and runs the
  deletion fix-up when what it unlinks is a black leaf. The lemmas cover every removal that does
  not reach the fix-up (they are correct), and the removals of a black leaf that is the root or
  a left child (they fault, because the leaf is detached before the fix-up looks at it).
\<close>

section \<open>Which node leaves its place\<close>

fun min_sub :: "rbt \<Rightarrow> rbt" where
  "min_sub Leaf = Leaf"
| "min_sub (Node l a r) = (if l = Leaf then Node l a r else min_sub l)"

fun vacated :: "rbt \<Rightarrow> rbt" where
  "vacated Leaf = Leaf"
| "vacated (Node l a r) = (if l = Leaf \<or> r = Leaf then Node l a r else min_sub r)"

fun black_leaf :: "rbt \<Rightarrow> bool" where
  "black_leaf (Node Leaf (a, c) Leaf) \<longleftrightarrow> c = RB_BLACK"
| "black_leaf _ \<longleftrightarrow> False"

section \<open>The place of a node\<close>

lemma parent_ptr_link:
  assumes z: "zrep s (Node l (x, c) r) ps"
  shows "(if x = rb_root s then Some RootLink
     else do {
       np \<leftarrow> get_parent s x;
       npl \<leftarrow> get_left s np;
       Some (if x = npl then LeftOf np else RightOf np) }) = Some (link_of ps)"
proof (cases ps rule: top.cases)
  case 1
  with zrep_root_eq [OF z] show ?thesis by simp
next
  case (2 a ca t qs)
  with z have "zrep s (Node (Node l (x, c) r) (a, ca) t) qs" by (simp add: zrep_CL)
  with zrep_get [OF this] zrep_root_eq [OF z] zrep_get [OF z] 2 show ?thesis by simp
next
  case (3 a ca t qs)
  with z have z': "zrep s (Node t (a, ca) (Node l (x, c) r)) qs" by (simp add: zrep_CR)
  with zrep_get [OF this] zrep_root_eq [OF z] zrep_get [OF z] zrep_neq_sibling(2) [OF z'] 3
  show ?thesis by simp
qed

section \<open>Unlinking a red leaf or a node with one child\<close>

lemma remove_red_leaf:
  assumes z: "zrep s (Node Leaf (x, RB_RED) Leaf) ps"
  shows "\<exists>s'. rb_remove s x = Some (s', x) \<and> zrep s' Leaf ps \<and> rd s' x = rd s x \<and>
    same_off (zone (Node Leaf (x, RB_RED) Leaf) ps) s s'"
  using z unfolding rb_remove.simps [of s x] parent_ptr_link [OF z] zrep_def
  by (cases ps rule: top.cases; simp; elim conjE;
      simp add: link_set_def heap_simps frame_simps cong: bind_first_cong)

lemma remove_left_child:
  assumes z: "zrep s (Node (Node a (y, cy) b) (x, c) Leaf) ps"
  shows "\<exists>s'. rb_remove s x = Some (s', x) \<and> zrep s' (Node a (y, RB_BLACK) b) ps \<and> rd s' x = rd s x \<and>
    same_off (zone (Node (Node a (y, cy) b) (x, c) Leaf) ps) s s'"
  using z unfolding rb_remove.simps [of s x] parent_ptr_link [OF z] zrep_def
  by (cases ps rule: top.cases; simp; elim conjE;
      simp add: link_set_def heap_simps frame_simps cong: bind_first_cong)

lemma remove_right_child:
  assumes z: "zrep s (Node Leaf (x, c) (Node a (y, cy) b)) ps"
  shows "\<exists>s'. rb_remove s x = Some (s', x) \<and> zrep s' (Node a (y, RB_BLACK) b) ps \<and> rd s' x = rd s x \<and>
    same_off (zone (Node Leaf (x, c) (Node a (y, cy) b)) ps) s s'"
  using z unfolding rb_remove.simps [of s x] parent_ptr_link [OF z] zrep_def
  by (cases ps rule: top.cases; simp; elim conjE;
      simp add: link_set_def heap_simps frame_simps cong: bind_first_cong)

text \<open>What remains in the place of a vacated node.\<close>

fun remains :: "rbt \<Rightarrow> rbt" where
  "remains (Node l a r) = (if l \<noteq> Leaf then paint RB_BLACK l else paint RB_BLACK r)"
| "remains Leaf = Leaf"

lemma remove_unlink:
  assumes z: "zrep s (Node l (x, c) r) ps" and one: "l = Leaf \<or> r = Leaf"
    and nb: "\<not> black_leaf (Node l (x, c) r)"
  shows "\<exists>s'. rb_remove s x = Some (s', x) \<and> zrep s' (remains (Node l (x, c) r)) ps \<and> rd s' x = rd s x \<and>
    same_off (zone (Node l (x, c) r) ps) s s'"
proof -
  consider "l = Leaf" "r = Leaf" "c = RB_RED" | a y cy b where "l = Node a (y, cy) b" "r = Leaf"
    | a y cy b where "l = Leaf" "r = Node a (y, cy) b"
    using one nb by (cases l rule: addr_of.cases; cases r rule: addr_of.cases) auto
  then show ?thesis
    using z remove_red_leaf [of s x ps] remove_left_child [of s _ _ _ _ x c ps]
      remove_right_child [of s x c _ _ _ _ ps]
    by cases simp_all
qed

section \<open>Two children: the successor takes the node's place\<close>

lemma replace_rep:
  assumes z: "zrep s (Node l (x, c) r) ps" and l: "l \<noteq> Leaf"
    and y: "rd s y = Some ny" "y \<noteq> 0" "y \<notin> zone (Node l (x, c) r) ps"
  shows "\<exists>s'. do {
      s \<leftarrow> link_set s (link_of ps) y;
      nl \<leftarrow> get_left s x;
      s \<leftarrow> set_left s y nl;
      xl \<leftarrow> get_left s y;
      s \<leftarrow> (if xl \<noteq> 0 then set_parent s xl y else Some s);
      nr \<leftarrow> get_right s x;
      s \<leftarrow> set_right s y nr;
      xr \<leftarrow> get_right s y;
      s \<leftarrow> (if xr \<noteq> 0 then set_parent s xr y else Some s);
      nc \<leftarrow> get_color s x;
      s \<leftarrow> set_color s y nc;
      np \<leftarrow> get_parent s x;
      s \<leftarrow> set_parent s y np;
      Some (s, x) } = Some (s', x) \<and>
    zrep s' (Node l (y, c) r) ps \<and> same_off (insert y (zone (Node l (x, c) r) ps)) s s'"
  using z l y unfolding zrep_def
  by (cases l rule: addr_of.cases; cases r rule: addr_of.cases; cases ps rule: top.cases; simp; elim conjE;
      simp add: link_set_def heap_simps frame_simps cong: bind_first_cong)

fun all_left :: "crumb list \<Rightarrow> bool" where
  "all_left [] \<longleftrightarrow> True"
| "all_left (CL a c t # ps) \<longleftrightarrow> all_left ps"
| "all_left (CR a c t # ps) \<longleftrightarrow> False"

lemma all_left_append: "all_left (ps @ qs) \<longleftrightarrow> all_left ps \<and> all_left qs"
  by (induction ps rule: all_left.induct) auto

lemma before_append: "before (ps @ qs) = before qs @ before ps"
  by (induction ps rule: before.induct) auto

lemma after_append: "after (ps @ qs) = after ps @ after qs"
  by (induction ps rule: after.induct) auto

lemma before_all_left: "all_left ps \<Longrightarrow> before ps = []"
  by (induction ps rule: all_left.induct) auto

lemma zip_up_append: "zip_up t (ps @ qs) = zip_up (zip_up t ps) qs"
  by (induction t ps rule: zip_up.induct) auto

lemma caddrs_append: "caddrs (ps @ qs) = caddrs ps @ caddrs qs"
  by (induction ps rule: caddrs.induct) auto

lemma zrep_append: "zrep s t (ps @ qs) \<longleftrightarrow> zrep s (zip_up t ps) qs"
  by (simp add: zrep_zip_up zip_up_append)

lemma min_sub_path:
  "t \<noteq> Leaf \<Longrightarrow> \<exists>y cy ry qs. min_sub t = Node Leaf (y, cy) ry \<and> all_left qs \<and> t = zip_up (Node Leaf (y, cy) ry) qs"
proof (induction t rule: addrs.induct)
  case 1
  then show ?case by simp
next
  case (2 l a c r)
  show ?case
  proof (cases "l = Leaf")
    case True
    then have "min_sub (Node l (a, c) r) = Node Leaf (a, c) r \<and> all_left [] \<and>
      Node l (a, c) r = zip_up (Node Leaf (a, c) r) []" by simp
    then show ?thesis by blast
  next
    case False
    with "2.IH"(1) obtain y cy ry qs where "min_sub l = Node Leaf (y, cy) ry" "all_left qs"
      "l = zip_up (Node Leaf (y, cy) ry) qs" by blast
    moreover from this have "all_left (qs @ [CL a c r])" by (simp add: all_left_append)
    ultimately have "min_sub (Node l (a, c) r) = Node Leaf (y, cy) ry \<and> all_left (qs @ [CL a c r]) \<and>
      Node l (a, c) r = zip_up (Node Leaf (y, cy) ry) (qs @ [CL a c r])"
      using False by (simp add: zip_up_append)
    then show ?thesis by blast
  qed
qed

lemma remains_valid:
  assumes v: "rb_valid (zip_up (Node l (x, c) r) ps)" and one: "l = Leaf \<or> r = Leaf"
    and nb: "\<not> black_leaf (Node l (x, c) r)"
  shows "rb_valid (zip_up (remains (Node l (x, c) r)) ps)"
proof -
  from zip_up_validD [OF v] have i: "invc (Node l (x, c) r)" "invh (Node l (x, c) r)"
    "cok (bh (Node l (x, c) r)) ps" "c = RB_BLACK \<or> ps \<noteq> [] \<and> topcol ps = RB_BLACK" by simp_all
  have "bh (remains (Node l (x, c) r)) = bh (Node l (x, c) r) \<and> invc (remains (Node l (x, c) r)) \<and>
    invh (remains (Node l (x, c) r)) \<and> col (remains (Node l (x, c) r)) = RB_BLACK"
    using i(1,2) one nb
    by (cases l rule: addr_of.cases; cases r rule: addr_of.cases; cases c)
      (auto split: if_splits)
  with i(3) show ?thesis by (intro zip_up_valid) auto
qed

lemma addrs_remains: "l = Leaf \<or> r = Leaf \<Longrightarrow> addrs (remains (Node l (x, c) r)) = addrs l @ addrs r"
  by auto

lemma rb_valid_rename:
  "rb_valid (zip_up (Node l (x, c) r) ps) \<longleftrightarrow> rb_valid (zip_up (Node l (y, c) r) ps)"
proof -
  have "rb_valid (zip_up (Node l (x, c) r) ps) \<Longrightarrow> rb_valid (zip_up (Node l (y, c) r) ps)" for x y
    by (drule zip_up_validD, rule zip_up_valid) simp_all
  then show ?thesis by blast
qed

lemma rb_remove_one_child_correct:
  assumes z: "zrep s (Node l (x, c) r) ps" and v: "rb_valid (zip_up (Node l (x, c) r) ps)"
    and one: "l = Leaf \<or> r = Leaf" and nb: "\<not> black_leaf (Node l (x, c) r)"
  shows "\<exists>s' t'. rb_remove s x = Some (s', x) \<and> srep s' t' \<and> rb_valid t' \<and>
    addrs t' = before ps @ addrs l @ addrs r @ after ps \<and> same_off (zone (Node l (x, c) r) ps) s s'"
proof -
  from remove_unlink [OF z one nb] obtain s' where s': "rb_remove s x = Some (s', x)"
    "zrep s' (remains (Node l (x, c) r)) ps" "same_off (zone (Node l (x, c) r) ps) s s'" by blast
  have "addrs (zip_up (remains (Node l (x, c) r)) ps) = before ps @ addrs l @ addrs r @ after ps"
    using addrs_remains [OF one] by (simp add: addrs_zip_up)
  with s' remains_valid [OF v one nb] show ?thesis by (metis zrep_zip_up)
qed

lemma rb_remove_two_eq:
  assumes z: "zrep s (Node l (x, c) r) ps" and ne: "l \<noteq> Leaf" "r \<noteq> Leaf"
    and y: "min_sub r = Node Leaf (y, cy) ry"
  shows "rb_remove s x = do {
      (s, _) \<leftarrow> rb_remove s y;
      s \<leftarrow> link_set s (link_of ps) y;
      nl \<leftarrow> get_left s x;
      s \<leftarrow> set_left s y nl;
      xl \<leftarrow> get_left s y;
      s \<leftarrow> (if xl \<noteq> 0 then set_parent s xl y else Some s);
      nr \<leftarrow> get_right s x;
      s \<leftarrow> set_right s y nr;
      xr \<leftarrow> get_right s y;
      s \<leftarrow> (if xr \<noteq> 0 then set_parent s xr y else Some s);
      nc \<leftarrow> get_color s x;
      s \<leftarrow> set_color s y nc;
      np \<leftarrow> get_parent s x;
      s \<leftarrow> set_parent s y np;
      Some (s, x) }"
proof -
  from min_sub_path [OF ne(2)] y obtain qs where "all_left qs" "r = zip_up (Node Leaf (y, cy) ry) qs"
    by auto
  then have "hd0 (addrs r) = y" by (simp add: addrs_zip_up before_all_left)
  with rb_leftmost_rep [OF zrep_right [OF z] ne(2)] have "rb_leftmost s (addr_of r) = Some y" by simp
  with zrep_get [OF z] addr_of_zero [OF zrep_left [OF z]] addr_of_zero [OF zrep_right [OF z]] ne
  show ?thesis
    unfolding rb_remove.simps [of s x] parent_ptr_link [OF z] by simp
qed

lemma rb_remove_two_children_correct:
  assumes z: "zrep s (Node l (x, c) r) ps" and v: "rb_valid (zip_up (Node l (x, c) r) ps)"
    and ne: "l \<noteq> Leaf" "r \<noteq> Leaf" and nb: "\<not> black_leaf (min_sub r)"
  shows "\<exists>s' t'. rb_remove s x = Some (s', x) \<and> srep s' t' \<and> rb_valid t' \<and>
    addrs t' = before ps @ addrs l @ addrs r @ after ps \<and> same_off (zone (Node l (x, c) r) ps) s s'"
proof -
  from min_sub_path [OF ne(2)] obtain y cy ry qs where y: "min_sub r = Node Leaf (y, cy) ry"
    and al: "all_left qs" and r: "r = zip_up (Node Leaf (y, cy) ry) qs" by blast
  define N where "N = Node Leaf (y, cy) ry"
  let ?qs = "qs @ CR x c l # ps"
  have zy: "zrep s N ?qs" using z r by (simp add: N_def zrep_append zrep_CR)
  from v r have vy: "rb_valid (zip_up N ?qs)" by (simp add: N_def zip_up_append)
  from remove_unlink [OF zy [unfolded N_def]] nb y obtain s1 where
    s1: "rb_remove s y = Some (s1, y)" "zrep s1 (remains N) ?qs" "rd s1 y = rd s y"
    and o1: "same_off (zone N ?qs) s s1" by (auto simp: N_def)
  define r' where "r' = zip_up (remains N) qs"
  from s1(2) have z1: "zrep s1 (Node l (x, c) r') ps" by (simp add: r'_def zrep_append zrep_CR)
  have "set (addrs (remains N)) = set (addrs ry)" by (simp add: N_def)
  moreover from zy have "y \<notin> set (addrs ry) \<union> set (caddrs ?qs)" by (auto simp: zrep_def N_def)
  ultimately have yn: "y \<notin> zone (Node l (x, c) r') ps"
    by (auto simp: r'_def set_addrs_zip_up caddrs_append)
  from zrep_get(1) [OF zy [unfolded N_def]] zy have "\<exists>ny. rd s y = Some ny" "y \<noteq> 0"
    by (auto simp: zrep_def N_def)
  with s1(3) obtain ny where ny: "rd s1 y = Some ny" by auto
  obtain s' where s': "rb_remove s x = Some (s', x)" and z': "zrep s' (Node l (y, c) r') ps"
    and o2: "same_off (insert y (zone (Node l (x, c) r') ps)) s1 s'"
    using replace_rep [OF z1 ne(1) ny \<open>y \<noteq> 0\<close> yn] rb_remove_two_eq [OF z ne y] s1(1) by auto
  from remains_valid [OF vy [unfolded N_def]] nb y have "rb_valid (zip_up (remains N) ?qs)"
    by (simp add: N_def)
  then have "rb_valid (zip_up (Node l (x, c) r') ps)" by (simp add: r'_def zip_up_append)
  then have "rb_valid (zip_up (Node l (y, c) r') ps)" using rb_valid_rename by blast
  moreover have "addrs (zip_up (Node l (y, c) r') ps) = before ps @ addrs l @ addrs r @ after ps"
    using al r by (auto simp: r'_def N_def addrs_zip_up before_all_left)
  moreover have "same_off (zone (Node l (x, c) r) ps) s s'"
    using o1 o2 r by (auto simp: same_off_def r'_def N_def set_addrs_zip_up caddrs_append)
  ultimately show ?thesis using s' z' zrep_zip_up by blast
qed

section \<open>Black leaves that are detached before the fix-up\<close>

fun left_or_root :: "crumb list \<Rightarrow> bool" where
  "left_or_root [] \<longleftrightarrow> True"
| "left_or_root (CL a c t # ps) \<longleftrightarrow> True"
| "left_or_root (CR a c t # ps) \<longleftrightarrow> False"

lemma remove_black_leaf_fault:
  assumes z: "zrep s (Node Leaf (x, RB_BLACK) Leaf) ps" and lr: "left_or_root ps"
  shows "rb_remove s x = None"
  using z lr zrep_root_eq [OF z] unfolding rb_remove.simps [of s x] parent_ptr_link [OF z] zrep_def rb_fixdel_def
    rb_fixdel_loop.simps [of _ x]
  by (cases ps rule: top.cases; simp; elim conjE;
      simp add: link_set_def rb_fixdel_cond_def rb_fixdel_body_def heap_simps frame_simps
        cong: bind_first_cong)

lemma remove_two_fault:
  assumes z: "zrep s (Node l (x, c) r) ps" and ne: "l \<noteq> Leaf" "r \<noteq> Leaf"
    and y: "black_leaf (min_sub r)" and left: "min_sub r \<noteq> r"
  shows "rb_remove s x = None"
proof -
  from min_sub_path [OF ne(2)] obtain a cy ry qs where m: "min_sub r = Node Leaf (a, cy) ry"
    and al: "all_left qs" and r: "r = zip_up (Node Leaf (a, cy) ry) qs" by blast
  from m y have cy: "cy = RB_BLACK" "ry = Leaf" by (cases ry; auto)+
  from r m left al obtain b d u qs' where "qs = CL b d u # qs'"
    by (cases qs rule: all_left.cases) auto
  moreover from z r have "zrep s (Node Leaf (a, cy) ry) (qs @ CR x c l # ps)"
    by (simp add: zrep_append zrep_CR)
  ultimately have "rb_remove s a = None"
    using remove_black_leaf_fault [of s a "qs @ CR x c l # ps"] cy by simp
  with rb_remove_two_eq [OF z ne m] show ?thesis by simp
qed

text \<open>Removal when the vacated node is not a black leaf, whatever its number of children.\<close>

lemma rb_remove_spec:
  assumes z: "zrep s (Node l (x, c) r) ps" and v: "rb_valid (zip_up (Node l (x, c) r) ps)"
    and nb: "\<not> black_leaf (vacated (Node l (x, c) r))"
  shows "\<exists>s' t'. rb_remove s x = Some (s', x) \<and> srep s' t' \<and> rb_valid t' \<and>
    addrs t' = before ps @ addrs l @ addrs r @ after ps \<and> same_off (zone (Node l (x, c) r) ps) s s'"
proof (cases "l = Leaf \<or> r = Leaf")
  case True
  with nb show ?thesis by (intro rb_remove_one_child_correct [OF z v]) auto
next
  case False
  with nb show ?thesis by (intro rb_remove_two_children_correct [OF z v]) auto
qed

text \<open>The two cases together.\<close>

lemma remove_vacated_fault:
  assumes z: "zrep s (Node l (x, c) r) ps" and b: "black_leaf (vacated (Node l (x, c) r))"
    and pos: "if l = Leaf \<or> r = Leaf then left_or_root ps else min_sub r \<noteq> r"
  shows "rb_remove s x = None"
proof (cases "l = Leaf \<or> r = Leaf")
  case True
  with b have "l = Leaf" "r = Leaf" "c = RB_BLACK"
    by (cases l rule: addr_of.cases; cases r rule: addr_of.cases; auto)+
  with z pos remove_black_leaf_fault show ?thesis by simp
next
  case False
  with b pos show ?thesis by (intro remove_two_fault [OF z]) auto
qed

end
