(* ===== verification/RbTreeProps.thy ===== *)
theory RbTreeProps
  imports RbTreeRemove
begin

text \<open>
  The properties of \<^verbatim>\<open>kernel/rbtree.c\<close>, each applied at a concrete heap by its witness. Concrete
  heaps are laid out by \<open>heap_of\<close> from a tree of addresses.
\<close>

section \<open>Concrete heaps\<close>

fun load :: "u64 \<Rightarrow> rbt \<Rightarrow> (u64 \<rightharpoonup> rb_node)" where
  "load par Leaf = Map.empty"
| "load par (Node l (a, c) r) = (load a l ++ load a r)
     (a \<mapsto> \<lparr>rb_left = addr_of l, rb_right = addr_of r, rb_parent = par, rb_color = c\<rparr>)"

definition heap_of :: "rbt \<Rightarrow> rb_state" where
  "heap_of t = \<lparr>rb_nodes = load 0 t, rb_root = addr_of t\<rparr>"

text \<open>The in-order walk that a user of the tree performs, cut off after \<open>n\<close> steps.\<close>

primrec walk :: "nat \<Rightarrow> rb_state \<Rightarrow> u64 \<Rightarrow> u64 list option" where
  "walk 0 s p = Some []"
| "walk (Suc n) s p =
     (if p = 0 then Some [] else do { q \<leftarrow> rb_next s p; ps \<leftarrow> walk n s q; Some (p # ps) })"

definition spare :: "u64 \<Rightarrow> rb_state \<Rightarrow> rb_state" where
  "spare a s = wr s a \<lparr>rb_left = 0, rb_right = 0, rb_parent = 0, rb_color = RB_RED\<rparr>"

definition three :: rbt where
  "three = Node (Node Leaf (10, RB_RED) Leaf) (20, RB_BLACK) (Node Leaf (30, RB_RED) Leaf)"

definition five :: rbt where
  "five = Node (Node (Node Leaf (1, RB_BLACK) Leaf) (2, RB_RED) (Node Leaf (3, RB_BLACK) Leaf))
     (4, RB_BLACK) (Node Leaf (5, RB_BLACK) Leaf)"

section \<open>Insertion\<close>

text \<open>C1. Inserting a node at the hole a descent has found (its parent and the address of the
  child field) returns; the result is again a red-black tree, its in-order sequence is the old one
  with the node at the hole, and no node outside the tree is written. The fix-up loop's
  termination is part of the statement.\<close>

theorem rb_insert_correct:
  assumes "zrep s Leaf ps" "rb_valid (zip_up Leaf ps)" "rd s n = Some nd" "n \<notin> set (caddrs ps)"
  shows "\<exists>s' t'. rb_insert s n (top ps) (link_of ps) = Some s' \<and> srep s' t' \<and> rb_valid t' \<and>
    addrs t' = before ps @ n # after ps \<and> same_off (insert n (set (caddrs ps))) s s'"
  using rb_insert_at_hole [OF assms] .

lemma rb_insert_correct_witness:
  "\<exists>s' t'. rb_insert (spare 40 (heap_of three)) 40 30 (RightOf 30) = Some s' \<and> srep s' t' \<and>
     rb_valid t' \<and> addrs t' = [10, 20, 30, 40]"
  using rb_insert_correct [of "spare 40 (heap_of three)"
      "[CR 30 RB_RED Leaf, CR 20 RB_BLACK (Node Leaf (10, RB_RED) Leaf)]" 40]
  by (auto simp: zrep_def heap_of_def three_def spare_def rd_def wr_def rb_valid_def)

section \<open>Walks\<close>

text \<open>C3. On a heap that represents a tree, \<^verbatim>\<open>rb_first\<close>, \<^verbatim>\<open>rb_last\<close>, \<^verbatim>\<open>rb_next\<close> and
  \<^verbatim>\<open>rb_prev\<close> return and follow its in-order sequence in both directions (null at the ends), and
  \<^verbatim>\<open>rb_getroot\<close> climbs from any node to the root.\<close>

theorem rb_walk_correct:
  assumes "srep s t" "addrs t = xs @ x # ys"
  shows "rb_next s x = Some (hd0 ys) \<and> rb_prev s x = Some (last0 xs) \<and>
    rb_first s = Some (hd0 (addrs t)) \<and> rb_last s = Some (last0 (addrs t)) \<and>
    rb_getroot s x = Some (rb_root s)"
proof -
  from assms obtain l c r ps where "zrep s (Node l (x, c) r) ps" by (rule zip_at)
  from rb_getroot_rep [OF this] have "rb_getroot s x = Some (rb_root s)" by simp
  moreover from assms have h: "rb_holds s (xs @ x # ys)" by (auto simp: rb_holds_def)
  ultimately show ?thesis
    using rbcur.next_law [OF h] rbcur.prev_law [OF h] rbcur.first_law [OF h] rbcur.last_law [OF h]
      assms by simp
qed

lemma rb_walk_correct_witness:
  "rb_next (heap_of five) 3 = Some 4 \<and> rb_prev (heap_of five) 3 = Some 2"
  using rb_walk_correct [of "heap_of five" five "[1, 2]" 3 "[4, 5]"]
  by (simp add: srep_def zrep_def heap_of_def five_def rd_def last0_def)

section \<open>Removal\<close>

text \<open>C2. Removing a node works whenever the node that leaves its place (the node itself, or with
  two children its in-order successor) is not a black leaf: the call returns the removed node, the
  result is a red-black tree with exactly that node gone from the in-order sequence, and nothing
  outside the old tree is written.\<close>

theorem rb_remove_correct:
  assumes z: "zrep s (Node l (x, c) r) ps" and v: "rb_valid (zip_up (Node l (x, c) r) ps)"
    and nb: "\<not> black_leaf (vacated (Node l (x, c) r))"
  shows "\<exists>s' t'. rb_remove s x = Some (s', x) \<and> srep s' t' \<and> rb_valid t' \<and>
    addrs t' = before ps @ addrs l @ addrs r @ after ps \<and> same_off (zone (Node l (x, c) r) ps) s s'"
  using rb_remove_spec [OF z v nb] .

lemma rb_remove_correct_witness:
  "\<exists>s' t'. rb_remove (heap_of three) 20 = Some (s', 20) \<and> srep s' t' \<and> rb_valid t' \<and> addrs t' = [10, 30]"
  using rb_remove_correct [of "heap_of three" "Node Leaf (10, RB_RED) Leaf" 20 RB_BLACK
      "Node Leaf (30, RB_RED) Leaf" "[]"]
  by (auto simp: zrep_def heap_of_def three_def rd_def rb_valid_def)

text \<open>C4. A black leaf that is the root or a left child cannot be removed: \<^verbatim>\<open>rb_remove\<close> clears
  the parent's link to it before \<^verbatim>\<open>rb_fixdel\<close> looks for its sibling, so the fix-up dereferences a
  null pointer. In particular the last node of a tree cannot be removed. The same fault is reached
  through a node with two children whose successor is such a leaf.\<close>

theorem rb_remove_black_leaf_faults:
  assumes z: "zrep s (Node l (x, c) r) ps" and b: "black_leaf (vacated (Node l (x, c) r))"
    and pos: "if l = Leaf \<or> r = Leaf then left_or_root ps else min_sub r \<noteq> r"
  shows "rb_remove s x = None"
  by (rule remove_vacated_fault [OF assms])

lemma rb_remove_black_leaf_faults_witness:
  "rb_remove (heap_of (Node Leaf (7, RB_BLACK) Leaf)) 7 = None"
  using rb_remove_black_leaf_faults [of "heap_of (Node Leaf (7, RB_BLACK) Leaf)" Leaf 7 RB_BLACK Leaf "[]"]
  by (simp add: zrep_def heap_of_def rd_def)

text \<open>When the successor of a node with two children is a black leaf on the right, the removal
  can lose other nodes: its fix-up rotates the tree, and the link to the removed node, computed
  before that, is stale. From a valid red-black tree of the nodes 1 to 5, removing 4 leaves the
  root 5 with the single descendant 3 (nodes 1 and 2 are unreachable from the root), and the walk
  by \<^verbatim>\<open>rb_next\<close> from the first node goes round in a circle.\<close>

theorem rb_remove_loses_nodes:
  "srep (heap_of five) five \<and> rb_valid five \<and> addrs five = [1, 2, 3, 4, 5] \<and>
   do { (s, x) \<leftarrow> rb_remove (heap_of five) 4; l5 \<leftarrow> get_left s 5; r5 \<leftarrow> get_right s 5;
        l3 \<leftarrow> get_left s 3; r3 \<leftarrow> get_right s 3; Some (rb_root s, l5, r5, l3, r3) } =
     Some (5, 3, 0, 0, 0) \<and>
   do { (s, x) \<leftarrow> rb_remove (heap_of five) 4; p \<leftarrow> rb_first s; walk 6 s p } =
     Some [3, 5, 2, 3, 5, 2]"
proof (intro conjI)
  show "srep (heap_of five) five" "rb_valid five" "addrs five = [1, 2, 3, 4, 5]"
    by (simp_all add: srep_def zrep_def heap_of_def five_def rd_def rb_valid_def)
qed code_simp+

end
