(* ===== verification/Builtin.thy ===== *)
theory Builtin
  imports Prelude
begin

text \<open>
  The bit-counting builtins and power-of-two helpers of \<^verbatim>\<open>kernel/include/builtin.h\<close>, and the page
  arithmetic macros of \<^verbatim>\<open>kernel/pagetbl.h\<close> and \<^verbatim>\<open>kernel/include/macros.h\<close>. The builtins are
  undefined at 0 (\<open>None\<close>), and so is a shift by the width of its operand.
\<close>

definition ctz_bits :: "'a::len word \<Rightarrow> nat" where
  "ctz_bits x = length (takeWhile Not (map (bit x) [0..<LENGTH('a)]))"

definition clz_bits :: "'a::len word \<Rightarrow> nat" where
  "clz_bits x = length (takeWhile Not (map (bit x) (rev [0..<LENGTH('a)])))"

definition count_trailing_zeroes_64 :: "u64 \<Rightarrow> u64 option" where
  "count_trailing_zeroes_64 n = (if n = 0 then None else Some (of_nat (ctz_bits n)))"

definition count_leading_zeroes_64 :: "u64 \<Rightarrow> u64 option" where
  "count_leading_zeroes_64 n = (if n = 0 then None else Some (of_nat (clz_bits n)))"

definition count_trailing_zeroes_32 :: "u32 \<Rightarrow> u32 option" where
  "count_trailing_zeroes_32 n = (if n = 0 then None else Some (of_nat (ctz_bits n)))"

definition count_leading_zeroes_32 :: "u32 \<Rightarrow> u32 option" where
  "count_leading_zeroes_32 n = (if n = 0 then None else Some (of_nat (clz_bits n)))"

definition checked_add :: "u64 \<Rightarrow> u64 \<Rightarrow> bool \<times> u64" where
  "checked_add a b = (uint a + uint b \<noteq> uint (a + b), a + b)"

definition shl_opt :: "'a::len word \<Rightarrow> 'a word \<Rightarrow> 'a word option" where
  "shl_opt x k = (if unat k < LENGTH('a) then Some (push_bit (unat k) x) else None)"

definition ceil_pow2_32 :: "u32 \<Rightarrow> u32 option" where
  "ceil_pow2_32 n =
     (if n = 1 then Some 1 else do { c \<leftarrow> count_leading_zeroes_32 (n - 1); shl_opt 1 (32 - c) })"

definition ceil_pow2_64 :: "u64 \<Rightarrow> u64 option" where
  "ceil_pow2_64 n =
     (if n = 1 then Some 1 else do { c \<leftarrow> count_leading_zeroes_64 (n - 1); shl_opt 1 (64 - c) })"

definition floor_pow2_32 :: "u32 \<Rightarrow> u32 option" where
  "floor_pow2_32 n =
     (if n = 0 then Some 0 else do { c \<leftarrow> count_leading_zeroes_32 n; shl_opt 1 (31 - c) })"

definition floor_pow2_64 :: "u64 \<Rightarrow> u64 option" where
  "floor_pow2_64 n =
     (if n = 0 then Some 0 else do { c \<leftarrow> count_leading_zeroes_64 n; shl_opt 1 (63 - c) })"

definition PAGESIZE :: u64 where "PAGESIZE = 4096"
definition PAGE_ALIGNUP :: "u64 \<Rightarrow> u64" where "PAGE_ALIGNUP x = (x + (PAGESIZE - 1)) AND NOT (PAGESIZE - 1)"
definition PAGE_ALIGNDOWN :: "u64 \<Rightarrow> u64" where "PAGE_ALIGNDOWN x = x AND NOT (PAGESIZE - 1)"

definition SY_ALIGN_UP :: "u64 \<Rightarrow> u64 \<Rightarrow> u64" where
  "SY_ALIGN_UP x up_to = (x + (up_to - 1)) AND NOT (up_to - 1)"

definition SY_ALIGN_DOWN :: "u64 \<Rightarrow> u64 \<Rightarrow> u64" where
  "SY_ALIGN_DOWN x down_to = x AND NOT (down_to - 1)"

definition KPAGE_ERR :: u64 where "KPAGE_ERR = -1"

text \<open>The fixed addresses of \<^verbatim>\<open>kernel.ld\<close>.\<close>

definition KERNEL_OFFSET :: u64 where "KERNEL_OFFSET = 0xFFFFFFFF80000000"
definition KERNEL_VMMMAP :: u64 where "KERNEL_VMMMAP = 0xFFFFC00000000000"
definition KERNEL_PHMMAP :: u64 where "KERNEL_PHMMAP = 0xFFFF800000000000"

definition get_kernel_phmap :: u64 where "get_kernel_phmap = KERNEL_PHMMAP"
definition get_kernel_offs :: u64 where "get_kernel_offs = KERNEL_OFFSET"
definition get_kernel_vmmap :: u64 where "get_kernel_vmmap = KERNEL_VMMMAP"

definition virt_to_phys_pm :: "u64 \<Rightarrow> u64" where "virt_to_phys_pm v = v - get_kernel_phmap"
definition phys_to_virt_pm :: "u64 \<Rightarrow> u64" where "phys_to_virt_pm p = p + get_kernel_phmap"
definition virt_to_phys_of :: "u64 \<Rightarrow> u64" where "virt_to_phys_of v = v - get_kernel_offs"
definition phys_to_virt_of :: "u64 \<Rightarrow> u64" where "phys_to_virt_of p = p + get_kernel_offs"

lemma pm_inverse [simp]:
  "virt_to_phys_pm (phys_to_virt_pm p) = p" "phys_to_virt_pm (virt_to_phys_pm v) = v"
  by (simp_all add: virt_to_phys_pm_def phys_to_virt_pm_def)

section \<open>Counting zero bits\<close>

lemma clz_spec:
  fixes f :: "nat \<Rightarrow> bool"
  assumes "\<exists>i<n. f i"
  shows "\<exists>k<n. length (takeWhile Not (map f (rev [0..<n]))) = n - 1 - k \<and> f k \<and> (\<forall>j. k < j \<and> j < n \<longrightarrow> \<not> f j)"
  using assms
proof (induction n)
  case 0
  then show ?case by simp
next
  case (Suc n)
  show ?case
  proof (cases "f n")
    case True
    then show ?thesis by (intro exI [of _ n]) auto
  next
    case False
    with Suc.prems have "\<exists>i<n. f i" using less_Suc_eq by blast
    with Suc.IH obtain k where k: "k < n"
      "length (takeWhile Not (map f (rev [0..<n]))) = n - 1 - k" "f k" "\<forall>j. k < j \<and> j < n \<longrightarrow> \<not> f j"
      by blast
    with False show ?thesis by (intro exI [of _ k]) (auto simp: less_Suc_eq)
  qed
qed

lemma bounds_of_top_bit:
  fixes x :: "'a::len word"
  assumes "bit x k" "\<And>j. k < j \<Longrightarrow> j < LENGTH('a) \<Longrightarrow> \<not> bit x j"
  shows "2 ^ k \<le> unat x \<and> unat x < 2 ^ (k + 1)"
proof -
  have "take_bit (k + 1) x = x"
    using assms(2) by (intro bit_word_eqI) (auto simp: bit_take_bit_iff less_Suc_eq_le not_less [symmetric])
  then have "unat x = take_bit (k + 1) (unat x)" by (metis unsigned_take_bit_eq)
  then have "unat x < 2 ^ (k + 1)" by (metis take_bit_nat_less_exp)
  moreover have "bit (unat x) k"
    using assms(1) bit_imp_le_length [OF assms(1)] by (simp add: bit_unsigned_iff)
  then have "unat x div 2 ^ k \<noteq> 0" by (metis bit_iff_odd even_zero)
  then have "2 ^ k \<le> unat x" by (meson div_less not_le)
  ultimately show ?thesis by blast
qed

lemma clz_bounds:
  fixes x :: u64
  assumes "x \<noteq> 0"
  shows "clz_bits x < 64 \<and> 2 ^ (63 - clz_bits x) \<le> unat x \<and> unat x < 2 ^ (64 - clz_bits x)"
proof -
  have "\<exists>i. bit x i"
  proof (rule ccontr)
    assume "\<nexists>i. bit x i"
    then have "x = 0" by (intro bit_word_eqI) simp
    with assms show False by simp
  qed
  then obtain i where "bit x i" by blast
  then have "\<exists>i<64. bit x i" using bit_imp_le_length [of x i] by auto
  from clz_spec [OF this] obtain k where k: "k < 64" "clz_bits x = 63 - k" "bit x k"
    "\<forall>j. k < j \<and> j < 64 \<longrightarrow> \<not> bit x j" by (auto simp: clz_bits_def)
  with bounds_of_top_bit [of x k] show ?thesis by (simp add: Suc_diff_le)
qed

end
