(* ===== verification/Buddy.thy ===== *)
theory Buddy
  imports Builtin
begin

text \<open>
  The physical page allocator of \<^verbatim>\<open>kernel/mm/buddy.c\<close> and \<^verbatim>\<open>kernel/mm/buddy.h\<close>. The state holds the
  page frames (the metadata that a free page carries: \<^verbatim>\<open>struct kpage_frame\<close>), the region headers
  (\<^verbatim>\<open>struct _kslave_buddy\<close>) and the master array of region pointers, all addressed by the virtual
  addresses of the direct map. The bitmap of an order is the list of the bytes reserved for it in its
  region; an order without a bitmap has the empty list. A read or write through a pointer that is not
  a mapped frame or header, or outside an array, faults.
\<close>

section \<open>State\<close>

definition PFRAME_MAX_REGIONS :: nat where "PFRAME_MAX_REGIONS = 128"
definition PFRAME_MAX_ORDER :: u32 where "PFRAME_MAX_ORDER = 11"

record page_frame =
  pf_next :: u64
  pf_cache :: u64
  pf_order :: u8

record slave_buddy =
  sb_free :: "u64 list"
  order_blk_cnt :: "u64 list"
  max_order :: u32
  bitmap_arr :: "u8 list list"
  maxbits :: "u64 list"
  bitmap_reserved :: u64
  lut_base :: u64
  rbase :: u64
  mbase :: u64
  total_pages :: u64

record kbuddy =
  frames :: "u64 \<rightharpoonup> page_frame"
  slaves :: "u64 \<rightharpoonup> slave_buddy"
  regions :: "u64 list"
  region_count :: u64

definition get_slave :: "kbuddy \<Rightarrow> u64 \<Rightarrow> slave_buddy option" where
  "get_slave st sp = (if sp = 0 then None else slaves st sp)"

definition put_slave :: "kbuddy \<Rightarrow> u64 \<Rightarrow> slave_buddy \<Rightarrow> kbuddy" where
  "put_slave st sp s = st\<lparr>slaves := (slaves st)(sp \<mapsto> s)\<rparr>"

definition get_frame :: "kbuddy \<Rightarrow> u64 \<Rightarrow> page_frame option" where
  "get_frame st p = (if p = 0 then None else frames st p)"

definition put_frame :: "kbuddy \<Rightarrow> u64 \<Rightarrow> page_frame \<Rightarrow> kbuddy" where
  "put_frame st p f = st\<lparr>frames := (frames st)(p \<mapsto> f)\<rparr>"

section \<open>Finding the region of an address\<close>

definition buddy_order_to_val :: "u32 \<Rightarrow> u64" where
  "buddy_order_to_val ord = (if ord > PFRAME_MAX_ORDER - 1 then 0 else push_bit (unat ord) PAGESIZE)"

definition kbud_order_idx :: "u64 \<Rightarrow> u64 option" where
  "kbud_order_idx n = do { c \<leftarrow> count_trailing_zeroes_64 n; Some (c - 12) }"

text \<open>The binary search, on the signed \<open>lo\<close>, \<open>hi\<close>, \<open>owner\<close> of the code.\<close>

function find_slave_loop :: "kbuddy \<Rightarrow> u64 \<Rightarrow> int \<Rightarrow> int \<Rightarrow> int \<Rightarrow> int option" where
  "find_slave_loop st phy lo hi owner =
     (if lo \<le> hi then
        (let mid = (lo + hi) div 2 in
         if mid < 0 then None
         else do {
           r \<leftarrow> nth_opt (regions st) (nat mid);
           if virt_to_phys_pm r \<le> phy then find_slave_loop st phy (mid + 1) hi mid
           else find_slave_loop st phy lo (mid - 1) owner })
      else Some owner)"
  by pat_completeness auto
termination
  by (relation "measure (\<lambda>(st, phy, lo, hi, owner). nat (hi + 1 - lo))") auto

declare find_slave_loop.simps [simp del]

definition find_buddy_slave :: "kbuddy \<Rightarrow> u64 \<Rightarrow> u64 option" where
  "find_buddy_slave st phy =
     (if region_count st = 0 \<or> region_count st > of_nat PFRAME_MAX_REGIONS then Some KPAGE_ERR
      else do {
        owner \<leftarrow> find_slave_loop st phy 0 (uint (region_count st) - 1) (-1);
        if owner \<noteq> -1 then nth_opt (regions st) (nat owner) else Some KPAGE_ERR })"

definition find_valid_slave :: "kbuddy \<Rightarrow> u64 \<Rightarrow> u64 option" where
  "find_valid_slave st phy = do {
     sp \<leftarrow> find_buddy_slave st phy;
     if sp = KPAGE_ERR then Some KPAGE_ERR
     else do {
       s \<leftarrow> get_slave st sp;
       Some (if phy \<ge> mbase s + total_pages s * PAGESIZE then KPAGE_ERR else sp) } }"

section \<open>Adding a region\<close>

definition SLAVE_SIZE :: u64 where "SLAVE_SIZE = 400"
definition BITMAP_ALIGN :: u64 where "BITMAP_ALIGN = 0x40"

text \<open>Every byte 0xFF, then \<open>rbase\<close> and \<open>total_pages\<close>; no bitmap is left that can be accessed.\<close>

definition kbud_mark_invalid :: "slave_buddy \<Rightarrow> u64 \<Rightarrow> slave_buddy" where
  "kbud_mark_invalid s phy =
     \<lparr>sb_free = replicate 11 (-1), order_blk_cnt = replicate 11 (-1), max_order = -1,
      bitmap_arr = replicate 11 [], maxbits = replicate 11 (-1), bitmap_reserved = -1, lut_base = -1,
      rbase = phy, mbase = -1, total_pages = 0\<rparr>"

text \<open>The loop over the orders: \<open>n\<close> orders left from \<open>i\<close>, \<open>cur\<close> the end of the bitmaps so far.\<close>

primrec init_bitmaps :: "nat \<Rightarrow> nat \<Rightarrow> u64 \<Rightarrow> slave_buddy \<Rightarrow> u64 \<Rightarrow> slave_buddy \<times> u64" where
  "init_bitmaps 0 i rpages s cur = (s, cur)"
| "init_bitmaps (Suc n) i rpages s cur =
     (let bits = drop_bit (i + 1) rpages in
      if bits = 0 then (s, cur)
      else
        let bytes = drop_bit 3 (bits + 7);
            sz = SY_ALIGN_UP bytes BITMAP_ALIGN;
            s = s\<lparr>bitmap_arr := (bitmap_arr s)[i := replicate (unat sz) 0],
                  maxbits := (maxbits s)[i := bits], max_order := of_nat i\<rparr>
        in init_bitmaps n (i + 1) rpages s (cur + sz))"

definition kbud_init_region :: "slave_buddy \<Rightarrow> u64 \<Rightarrow> u64 \<Rightarrow> slave_buddy" where
  "kbud_init_region s phy len =
     (let virt_region = phys_to_virt_pm phy;
          rpages = drop_bit 12 (PAGE_ALIGNDOWN len);
          s = s\<lparr>total_pages := rpages, rbase := phy\<rparr>;
          virt_cur = ((virt_region + SLAVE_SIZE) + 7) AND NOT 7;
          (s, virt_cur) = init_bitmaps 11 0 rpages s virt_cur;
          s = s\<lparr>lut_base := phy + SLAVE_SIZE\<rparr>;
          phys_cur = phy + (virt_cur - virt_region);
          s = s\<lparr>mbase := PAGE_ALIGNUP phys_cur\<rparr>
      in if mbase s \<ge> phy + len then kbud_mark_invalid s phy
         else
           let phys_end = phy + PAGESIZE;
               s = s\<lparr>bitmap_reserved := (if mbase s > phys_end then drop_bit 12 (mbase s - phys_end) else 0)\<rparr>
           in s\<lparr>total_pages := drop_bit 12 (phy + len - mbase s)\<rparr>)"

definition zero_slave :: slave_buddy where
  "zero_slave = \<lparr>sb_free = replicate 11 0, order_blk_cnt = replicate 11 0, max_order = 0,
     bitmap_arr = replicate 11 [], maxbits = replicate 11 0, bitmap_reserved = 0, lut_base = 0,
     rbase = 0, mbase = 0, total_pages = 0\<rparr>"

text \<open>The insertion loop moves the larger pointers up by one, from position \<open>i\<close> downwards.\<close>

primrec shift_regions :: "nat \<Rightarrow> u64 list \<Rightarrow> u64 \<Rightarrow> (u64 list \<times> nat) option" where
  "shift_regions 0 mbr v = Some (mbr, 0)"
| "shift_regions (Suc i) mbr v = do {
     p \<leftarrow> nth_opt mbr i;
     if p > v then do { mbr \<leftarrow> upd_opt mbr (Suc i) p; shift_regions i mbr v }
     else Some (mbr, Suc i) }"

definition kbud_add_region :: "kbuddy \<Rightarrow> u64 \<Rightarrow> u64 \<Rightarrow> (kbuddy \<times> u64) option" where
  "kbud_add_region st phy len =
     (if region_count st + 1 > of_nat PFRAME_MAX_REGIONS then Some (st, KPAGE_ERR)
      else do {
        let virt_region = phys_to_virt_pm phy;
        (mbr, i) \<leftarrow> shift_regions (unat (region_count st)) (regions st) virt_region;
        mbr \<leftarrow> upd_opt mbr i virt_region;
        let rc = region_count st + 1;
        mbr \<leftarrow> upd_opt mbr (unat rc) KPAGE_ERR;
        let st = st\<lparr>regions := mbr, region_count := rc\<rparr>;
        Some (put_slave st virt_region (kbud_init_region zero_slave phy len), virt_region) })"

section \<open>Bits of block pairs\<close>

text \<open>\<open>(u8)(63 - count_leading_zeroes(frames - 1)) + 1\<close>.\<close>

definition kbud_byte_order :: "u64 \<Rightarrow> u8 option" where
  "kbud_byte_order sz =
     (let frms = drop_bit 12 (sz + PAGESIZE - 1) in
      if frms \<le> 1 then Some 0
      else do { c \<leftarrow> count_leading_zeroes_64 (frms - 1); Some (ucast (63 - c) + 1) })"

definition kbud_pfnum :: "u64 \<Rightarrow> slave_buddy \<Rightarrow> u64" where
  "kbud_pfnum phy s = drop_bit 12 (phy - mbase s)"

definition kbud_pair_idx :: "u64 \<Rightarrow> u32 \<Rightarrow> u64" where
  "kbud_pair_idx pfn ord = drop_bit (unat ord + 1) pfn"

definition buddy_bit_chk :: "slave_buddy \<Rightarrow> u64 \<Rightarrow> u32 \<Rightarrow> bool option" where
  "buddy_bit_chk s pfn ord =
     (if ord > max_order s then Some False
      else do {
        m \<leftarrow> nth_opt (maxbits s) (unat ord);
        Some (\<not> kbud_pair_idx pfn ord \<ge> m) })"

definition buddy_bit_get :: "slave_buddy \<Rightarrow> u64 \<Rightarrow> u32 \<Rightarrow> bool option" where
  "buddy_bit_get s pfn ord = do {
     let pidx = kbud_pair_idx pfn ord;
     bm \<leftarrow> nth_opt (bitmap_arr s) (unat ord);
     b \<leftarrow> nth_opt bm (unat (drop_bit 3 pidx));
     Some (bit b (unat (pidx AND 7))) }"

definition bit_write :: "(u8 \<Rightarrow> u8 \<Rightarrow> u8) \<Rightarrow> slave_buddy \<Rightarrow> u64 \<Rightarrow> u32 \<Rightarrow> slave_buddy option" where
  "bit_write f s pfn ord = do {
     let pidx = kbud_pair_idx pfn ord;
     bm \<leftarrow> nth_opt (bitmap_arr s) (unat ord);
     b \<leftarrow> nth_opt bm (unat (drop_bit 3 pidx));
     let bm = bm[unat (drop_bit 3 pidx) := f b (push_bit (unat (pidx AND 7)) 1)];
     Some (s\<lparr>bitmap_arr := (bitmap_arr s)[unat ord := bm]\<rparr>) }"

definition buddy_bit_set :: "slave_buddy \<Rightarrow> u64 \<Rightarrow> u32 \<Rightarrow> slave_buddy option" where
  "buddy_bit_set s pfn ord = bit_write (\<lambda>b m. b OR m) s pfn ord"

definition buddy_bit_clr :: "slave_buddy \<Rightarrow> u64 \<Rightarrow> u32 \<Rightarrow> slave_buddy option" where
  "buddy_bit_clr s pfn ord = bit_write (\<lambda>b m. b AND NOT m) s pfn ord"

section \<open>Free lists\<close>

definition cnt_add :: "slave_buddy \<Rightarrow> u32 \<Rightarrow> u64 \<Rightarrow> slave_buddy option" where
  "cnt_add s order d = do {
     c \<leftarrow> nth_opt (order_blk_cnt s) (unat order);
     Some (s\<lparr>order_blk_cnt := (order_blk_cnt s)[unat order := c + d]\<rparr>) }"

definition kbud_push :: "kbuddy \<Rightarrow> u64 \<Rightarrow> u64 \<Rightarrow> u32 \<Rightarrow> (kbuddy \<times> bool) option" where
  "kbud_push st sp phy order = do {
     s \<leftarrow> get_slave st sp;
     let pfn = kbud_pfnum phy s;
     ok \<leftarrow> buddy_bit_chk s pfn order;
     if \<not> ok then Some (st, False)
     else do {
       let p = phys_to_virt_pm phy;
       f \<leftarrow> get_frame st p;
       head \<leftarrow> nth_opt (sb_free s) (unat order);
       let st = put_frame st p (f\<lparr>pf_order := ucast order, pf_next := head\<rparr>);
       let s = s\<lparr>sb_free := (sb_free s)[unat order := p]\<rparr>;
       s \<leftarrow> cnt_add s order 1;
       s \<leftarrow> buddy_bit_set s pfn order;
       Some (put_slave st sp s, True) } }"

text \<open>A location holding a list pointer: the head of the list or the \<open>next\<close> field of a frame.\<close>

datatype frame_link = FreeHead | NextOf u64

definition flink_get :: "kbuddy \<Rightarrow> slave_buddy \<Rightarrow> u32 \<Rightarrow> frame_link \<Rightarrow> u64 option" where
  "flink_get st s order cur = (case cur of
       FreeHead \<Rightarrow> nth_opt (sb_free s) (unat order)
     | NextOf q \<Rightarrow> map_option pf_next (get_frame st q))"

definition flink_set ::
  "kbuddy \<Rightarrow> slave_buddy \<Rightarrow> u32 \<Rightarrow> frame_link \<Rightarrow> u64 \<Rightarrow> (kbuddy \<times> slave_buddy) option" where
  "flink_set st s order cur v = (case cur of
       FreeHead \<Rightarrow> Some (st, s\<lparr>sb_free := (sb_free s)[unat order := v]\<rparr>)
     | NextOf q \<Rightarrow> do { f \<leftarrow> get_frame st q; Some (put_frame st q (f\<lparr>pf_next := v\<rparr>), s) })"

partial_function (option) pop_find ::
  "kbuddy \<Rightarrow> slave_buddy \<Rightarrow> u32 \<Rightarrow> u64 \<Rightarrow> frame_link \<Rightarrow> frame_link option" where
  "pop_find st s order p cur = do {
     q \<leftarrow> flink_get st s order cur;
     if q \<noteq> p then pop_find st s order p (NextOf q) else Some cur }"

definition kbud_pop :: "kbuddy \<Rightarrow> u64 \<Rightarrow> u64 \<Rightarrow> u32 \<Rightarrow> (kbuddy \<times> bool) option" where
  "kbud_pop st sp phy order = do {
     s \<leftarrow> get_slave st sp;
     let pfn = kbud_pfnum phy s;
     ok \<leftarrow> buddy_bit_chk s pfn order;
     c \<leftarrow> (if ok then nth_opt (order_blk_cnt s) (unat order) else Some 0);
     if \<not> ok \<or> c = 0 then Some (st, False)
     else do {
       let p = phys_to_virt_pm phy;
       cur \<leftarrow> pop_find st s order p FreeHead;
       f \<leftarrow> get_frame st p;
       (st, s) \<leftarrow> flink_set st s order cur (pf_next f);
       s \<leftarrow> cnt_add s order (-1);
       s \<leftarrow> buddy_bit_clr s pfn order;
       Some (put_slave st sp s, True) } }"

definition kbud_pop_head :: "kbuddy \<Rightarrow> u64 \<Rightarrow> u32 \<Rightarrow> (kbuddy \<times> u64) option" where
  "kbud_pop_head st sp order = do {
     s \<leftarrow> get_slave st sp;
     blk \<leftarrow> nth_opt (sb_free s) (unat order);
     let pfn = kbud_pfnum (virt_to_phys_pm blk) s;
     ok \<leftarrow> buddy_bit_chk s pfn order;
     if \<not> ok then Some (st, KPAGE_ERR)
     else do {
       f \<leftarrow> get_frame st blk;
       let s = s\<lparr>sb_free := (sb_free s)[unat order := pf_next f]\<rparr>;
       s \<leftarrow> cnt_add s order (-1);
       s \<leftarrow> buddy_bit_clr s pfn order;
       Some (put_slave st sp s, blk) } }"

section \<open>Allocation\<close>

text \<open>
  \<open>while (order < PFRAME_MAX_ORDER && s->order_blk_cnt[order] == 0 && order < s->max_order) order++\<close>,
  with \<open>n\<close> the distance of \<open>order\<close> to \<open>PFRAME_MAX_ORDER\<close>.
\<close>

primrec find_order :: "nat \<Rightarrow> slave_buddy \<Rightarrow> u32 \<Rightarrow> u32 option" where
  "find_order 0 s order = Some order"
| "find_order (Suc n) s order = do {
     c \<leftarrow> nth_opt (order_blk_cnt s) (unat order);
     if c = 0 \<and> order < max_order s then find_order n s (order + 1) else Some order }"

text \<open>\<open>while (order > req)\<close>: the upper half of the block is pushed at each order on the way down.\<close>

primrec split_loop :: "nat \<Rightarrow> kbuddy \<Rightarrow> u64 \<Rightarrow> u64 \<Rightarrow> u32 \<Rightarrow> kbuddy option" where
  "split_loop 0 st sp addr order = Some st"
| "split_loop (Suc n) st sp addr order = do {
     let order = order - 1;
     let buddy = virt_to_phys_pm addr XOR push_bit (unat order) PAGESIZE;
     (st, _) \<leftarrow> kbud_push st sp buddy order;
     split_loop n st sp addr order }"

text \<open>One region: \<open>None\<close> inside the pair stands for the \<open>continue\<close> of the loop over the regions.\<close>

definition alloc_in_region :: "kbuddy \<Rightarrow> u64 \<Rightarrow> u32 \<Rightarrow> (kbuddy \<times> u64 option) option" where
  "alloc_in_region st sp req =
     (if sp = KPAGE_ERR then Some (st, None)
      else do {
        s \<leftarrow> get_slave st sp;
        order \<leftarrow> find_order (unat (PFRAME_MAX_ORDER - req)) s req;
        if order = PFRAME_MAX_ORDER \<or> order < req then Some (st, None)
        else do {
          (st, addr) \<leftarrow> kbud_pop_head st sp order;
          if addr = KPAGE_ERR then Some (st, None)
          else do {
            st \<leftarrow> split_loop (unat (order - req)) st sp addr order;
            Some (st, Some addr) } } })"

primrec alloc_loop :: "nat \<Rightarrow> nat \<Rightarrow> kbuddy \<Rightarrow> u32 \<Rightarrow> (kbuddy \<times> u64) option" where
  "alloc_loop 0 i st req = Some (st, KPAGE_ERR)"
| "alloc_loop (Suc n) i st req = do {
     sp \<leftarrow> nth_opt (regions st) i;
     (st, r) \<leftarrow> alloc_in_region st sp req;
     (case r of Some addr \<Rightarrow> Some (st, addr) | None \<Rightarrow> alloc_loop n (Suc i) st req) }"

definition kbud_alloc :: "kbuddy \<Rightarrow> u32 \<Rightarrow> (kbuddy \<times> u64) option" where
  "kbud_alloc st req =
     (if req \<ge> PFRAME_MAX_ORDER then Some (st, KPAGE_ERR)
      else alloc_loop (unat (region_count st)) 0 st req)"

definition kbud_alloc_range :: "kbuddy \<Rightarrow> u64 \<Rightarrow> (kbuddy \<times> u64) option" where
  "kbud_alloc_range st sz = do {
     let rounded_sz = PAGE_ALIGNUP sz;
     req \<leftarrow> kbud_byte_order rounded_sz;
     if ucast req \<ge> PFRAME_MAX_ORDER then Some (st, KPAGE_ERR)
     else alloc_loop (unat (region_count st)) 0 st (ucast req) }"

section \<open>Freeing\<close>

text \<open>
  The merging loop at order \<open>k\<close>, \<open>n = PFRAME_MAX_ORDER - 1 - k\<close> orders below the top; it ends by
  one of the three \<open>break\<close>s or at the top.
\<close>

primrec free_merge :: "nat \<Rightarrow> kbuddy \<Rightarrow> u64 \<Rightarrow> u64 \<Rightarrow> u32 \<Rightarrow> (kbuddy \<times> u64 \<times> u32) option" where
  "free_merge 0 st sp pfn k = Some (st, pfn, k)"
| "free_merge (Suc n) st sp pfn k = do {
     s \<leftarrow> get_slave st sp;
     let bpfn = pfn XOR push_bit (unat k) 1;
     if bpfn \<ge> total_pages s then Some (st, pfn, k)
     else do {
       ok \<leftarrow> buddy_bit_chk s bpfn k;
       if \<not> ok then Some (st, pfn, k)
       else do {
         b \<leftarrow> buddy_bit_get s bpfn k;
         if \<not> b then Some (st, pfn, k)
         else do {
           let buddy = mbase s + push_bit 12 bpfn;
           (st, _) \<leftarrow> kbud_pop st sp buddy k;
           s \<leftarrow> get_slave st sp;
           s \<leftarrow> buddy_bit_clr s bpfn k;
           let st = put_slave st sp s;
           free_merge n st sp (pfn AND NOT (push_bit (unat k) 1)) (k + 1) } } } }"

definition kbud_free :: "kbuddy \<Rightarrow> u64 \<Rightarrow> u32 \<Rightarrow> kbuddy option" where
  "kbud_free st vaddr order = do {
     let phy = virt_to_phys_pm vaddr;
     sp \<leftarrow> find_valid_slave st phy;
     if sp = KPAGE_ERR then Some st
     else do {
       s \<leftarrow> get_slave st sp;
       let pfn = kbud_pfnum phy s;
       (st, pfn, k) \<leftarrow> free_merge (10 - unat order) st sp pfn order;
       s \<leftarrow> get_slave st sp;
       (st, _) \<leftarrow> kbud_push st sp (mbase s + push_bit 12 pfn) k;
       Some st } }"

definition min_u32 :: "u32 \<Rightarrow> u32 \<Rightarrow> u32" where
  "min_u32 a b = (if a < b then a else b)"

partial_function (option) free_range_loop :: "kbuddy \<Rightarrow> u64 \<Rightarrow> u64 \<Rightarrow> u64 \<Rightarrow> kbuddy option" where
  "free_range_loop st sp phys sz =
     (if sz = 0 then Some st
      else do {
        s \<leftarrow> get_slave st sp;
        c \<leftarrow> count_leading_zeroes_64 (sz div PAGESIZE);
        let len_order = (ucast (63 - c) :: u8);
        t \<leftarrow> kbud_order_idx phys;
        let ptr_order = (ucast t :: u8);
        let ord = (if len_order < ptr_order then len_order else ptr_order);
        let ord = (ucast (min_u32 (PFRAME_MAX_ORDER - 1) (ucast ord)) :: u8);
        let ord = (ucast (min_u32 (max_order s) (ucast ord)) :: u8);
        (st, _) \<leftarrow> kbud_push st sp phys (ucast ord);
        let blksz = push_bit (unat ord) PAGESIZE;
        free_range_loop st sp (phys + blksz) (sz - blksz) })"

definition kbud_free_range :: "kbuddy \<Rightarrow> u64 \<Rightarrow> u64 \<Rightarrow> kbuddy option" where
  "kbud_free_range st vaddr len = do {
     let phys = PAGE_ALIGNDOWN (virt_to_phys_pm vaddr);
     sp \<leftarrow> find_valid_slave st phys;
     let sz = PAGE_ALIGNDOWN len;
     if sp = KPAGE_ERR then do {
       (st, sp) \<leftarrow> kbud_add_region st phys len;
       if sp = KPAGE_ERR then Some st
       else do {
         s \<leftarrow> get_slave st sp;
         let offs = ((mbase s - rbase s) + (PAGESIZE - 1)) AND NOT (PAGESIZE - 1);
         free_range_loop st sp (phys + offs) (sz - offs) } }
     else free_range_loop st sp phys sz }"

declare pop_find.simps [code] free_range_loop.simps [code]

end
