(* ===== verification/BuddyRegion.thy ===== *)
theory BuddyRegion
  imports Buddy
begin

text \<open>
  The master array of regions of \<^verbatim>\<open>kernel/mm/buddy.c\<close>: the binary search, the ordered insertion,
  and the order computed for a size.
\<close>

section \<open>The region of an address\<close>

abbreviation phys_region :: "kbuddy \<Rightarrow> nat \<Rightarrow> u64" where
  "phys_region st i \<equiv> virt_to_phys_pm (regions st ! i)"

lemma find_slave_loop_spec:
  assumes "\<And>i j. i < j \<Longrightarrow> j < n \<Longrightarrow> phys_region st i \<le> phys_region st j" "n \<le> length (regions st)"
    "0 \<le> lo" "lo \<le> hi + 1" "hi < int n" "owner = lo - 1"
    "\<And>i. int i < lo \<Longrightarrow> phys_region st i \<le> phy"
    "\<And>i. hi < int i \<Longrightarrow> i < n \<Longrightarrow> \<not> phys_region st i \<le> phy"
  shows "\<exists>k \<le> n. find_slave_loop st phy lo hi owner = Some (int k - 1) \<and>
    (\<forall>i<n. phys_region st i \<le> phy \<longleftrightarrow> i < k)"
  using assms
proof (induction st phy lo hi owner rule: find_slave_loop.induct)
  case (1 st phy lo hi owner)
  show ?case
  proof (cases "lo \<le> hi")
    case False
    with "1.prems" have "find_slave_loop st phy lo hi owner = Some (int (nat lo) - 1)" "nat lo \<le> n"
      "\<forall>i<n. phys_region st i \<le> phy \<longleftrightarrow> i < nat lo"
      by (auto simp: find_slave_loop.simps [of st phy lo] zless_nat_eq_int_zless) (smt (verit))+
    then show ?thesis by blast
  next
    case True
    define mid where "mid = (lo + hi) div 2"
    have mid: "lo \<le> mid" "mid \<le> hi" "0 \<le> mid" "nat mid < n" "nat mid < length (regions st)"
      using True "1.prems"(2-5) by (auto simp: mid_def)
    show ?thesis
    proof (cases "phys_region st (nat mid) \<le> phy")
      case le: True
      have "\<exists>k \<le> n. find_slave_loop st phy (mid + 1) hi mid = Some (int k - 1) \<and>
          (\<forall>i<n. phys_region st i \<le> phy \<longleftrightarrow> i < k)"
      proof (rule "1.IH"(1) [OF True mid_def _ nth_opt_in [OF mid(5)]])
        fix i assume "int i < mid + 1"
        then consider "i = nat mid" | "i < nat mid" using mid(3) by linarith
        then show "phys_region st i \<le> phy"
          using "1.prems"(1) [of i "nat mid"] mid(4) le by cases (auto intro: order_trans)
      qed (use "1.prems" mid le in auto)
      with True mid le show ?thesis
        by (subst find_slave_loop.simps) (simp add: mid_def [symmetric] Let_def)
    next
      case gt: False
      have "\<exists>k \<le> n. find_slave_loop st phy lo (mid - 1) owner = Some (int k - 1) \<and>
          (\<forall>i<n. phys_region st i \<le> phy \<longleftrightarrow> i < k)"
      proof (rule "1.IH"(2) [OF True mid_def _ nth_opt_in [OF mid(5)]])
        fix i assume "mid - 1 < int i" "i < n"
        then consider "i = nat mid" | "nat mid < i" using mid(3) by linarith
        then show "\<not> phys_region st i \<le> phy"
          using "1.prems"(1) [of "nat mid" i] \<open>i < n\<close> gt by cases (auto dest: order_trans)
      qed (use "1.prems" mid gt in auto)
      with True mid gt show ?thesis
        by (subst find_slave_loop.simps) (simp add: mid_def [symmetric] Let_def)
    qed
  qed
qed

definition regions_sorted :: "kbuddy \<Rightarrow> bool" where
  "regions_sorted st \<longleftrightarrow> length (regions st) = 128 \<and> unat (region_count st) < 128 \<and>
     sorted (take (unat (region_count st)) (regions st)) \<and>
     (\<forall>r \<in> set (take (unat (region_count st)) (regions st)). KERNEL_PHMMAP \<le> r \<and> r \<noteq> KPAGE_ERR)"

lemma virt_to_phys_mono: "KERNEL_PHMMAP \<le> a \<Longrightarrow> a \<le> b \<Longrightarrow> virt_to_phys_pm a \<le> virt_to_phys_pm b"
  unfolding virt_to_phys_pm_def get_kernel_phmap_def
  by (rule word_le_minus_mono_left) 
 
lemma find_buddy_slave_spec:
  assumes s: "regions_sorted st"
  shows "\<exists>k \<le> unat (region_count st).
    find_buddy_slave st phy = Some (if k = 0 then KPAGE_ERR else regions st ! (k - 1)) \<and>
    (\<forall>i < unat (region_count st). phys_region st i \<le> phy \<longleftrightarrow> i < k)"
proof (cases "region_count st = 0")
  case True
  then show ?thesis by (simp add: find_buddy_slave_def)
next
  case False
  define m where "m = unat (region_count st)"
  have n: "0 < m" "m < 128" "length (regions st) = 128"
    using False s by (auto simp: regions_sorted_def unat_gt_0 m_def)
  have mono: "phys_region st i \<le> phys_region st j" if "i < j" "j < m" for i j
  proof (rule virt_to_phys_mono)
    have "take m (regions st) ! i \<in> set (take m (regions st))" using that n by (intro nth_mem) simp
    with s that show "KERNEL_PHMMAP \<le> regions st ! i" by (simp add: regions_sorted_def m_def)
    show "regions st ! i \<le> regions st ! j"
      using s that n sorted_nth_mono [of "take m (regions st)" i j] by (simp add: regions_sorted_def m_def)
  qed
  have "\<exists>k \<le> m. find_slave_loop st phy 0 (int m - 1) (- 1) = Some (int k - 1) \<and>
    (\<forall>i<m. phys_region st i \<le> phy \<longleftrightarrow> i < k)"
    by (rule find_slave_loop_spec) (use n in \<open>simp_all add: mono\<close>)
  then obtain k where k: "k \<le> m" "find_slave_loop st phy 0 (int m - 1) (- 1) = Some (int k - 1)"
    "\<forall>i<m. phys_region st i \<le> phy \<longleftrightarrow> i < k" by blast
  have "\<not> region_count st > of_nat PFRAME_MAX_REGIONS"
    using n(2) by (simp add: PFRAME_MAX_REGIONS_def word_less_nat_alt m_def)
  moreover have "uint (region_count st) = int m" by (simp add: m_def)
  ultimately have "find_buddy_slave st phy = Some (if k = 0 then KPAGE_ERR else regions st ! (k - 1))"
    using k False n by (cases k) (auto simp: find_buddy_slave_def)
  with k show ?thesis unfolding m_def by blast
qed

section \<open>Adding a region\<close>

lemma shift_regions_spec:
  "i < length mbr \<Longrightarrow> sorted (take i mbr) \<Longrightarrow> \<exists>j mbr'. shift_regions i mbr v = Some (mbr', j) \<and> j \<le> i \<and>
     length mbr' = length mbr \<and>
     mbr'[j := v] = take j mbr @ v # drop j (take i mbr) @ drop (i + 1) mbr \<and>
     (\<forall>x \<in> set (take j mbr). x \<le> v) \<and> (\<forall>x \<in> set (drop j (take i mbr)). v < x)"
proof (induction i arbitrary: mbr)
  case 0
  then show ?case by (cases mbr) auto
next
  case (Suc i)
  let ?p = "mbr ! i"
  have t: "take (Suc i) mbr = take i mbr @ [?p]" using Suc.prems by (simp add: take_Suc_conv_app_nth)
  with Suc.prems have srt: "sorted (take i mbr)" "\<forall>x\<in>set (take i mbr). x \<le> ?p"
    by (auto simp: sorted_append)
  show ?case
  proof (cases "?p > v")
    case True
    let ?m = "mbr[Suc i := ?p]"
    obtain j mbr' where j: "shift_regions i ?m v = Some (mbr', j)" "j \<le> i" "length mbr' = length mbr"
      "mbr'[j := v] = take j mbr @ v # drop j (take i mbr) @ drop (i + 1) ?m"
      "\<forall>x \<in> set (take j mbr). x \<le> v" "\<forall>x \<in> set (drop j (take i mbr)). v < x"
      using Suc.IH [of ?m] Suc.prems srt by auto
    have "drop (i + 1) ?m = ?p # drop (i + 2) mbr"
      using Suc.prems by (simp add: Cons_nth_drop_Suc [symmetric] drop_update_swap)
    with j True Suc.prems t show ?thesis
      by (intro exI [of _ j] exI [of _ mbr']) auto
  next
    case False
    with Suc.prems srt t show ?thesis
      by (intro exI [of _ "Suc i"] exI [of _ mbr])
         (auto simp: upd_conv_take_nth_drop)
  qed
qed

lemma take_all_prefix: "length ys = n \<Longrightarrow> take n (ys @ zs) = ys"
  by simp

lemma add_region_spec:
  assumes s: "regions_sorted st" and n: "unat (region_count st) < 127"
    and p: "KERNEL_PHMMAP \<le> phys_to_virt_pm phy" "phys_to_virt_pm phy \<noteq> KPAGE_ERR"
  shows "\<exists>st'. kbud_add_region st phy len = Some (st', phys_to_virt_pm phy) \<and> regions_sorted st' \<and>
    region_count st' = region_count st + 1 \<and>
    mset (take (unat (region_count st')) (regions st')) =
      add_mset (phys_to_virt_pm phy) (mset (take (unat (region_count st)) (regions st))) \<and>
    regions st' ! unat (region_count st') = KPAGE_ERR \<and> frames st' = frames st"
proof -
  let ?n = "unat (region_count st)" and ?v = "phys_to_virt_pm phy"
  have len: "length (regions st) = 128" and srt: "sorted (take ?n (regions st))"
    using s by (simp_all add: regions_sorted_def)
  obtain j mbr' where j: "shift_regions ?n (regions st) ?v = Some (mbr', j)" "j \<le> ?n" "length mbr' = 128"
    "mbr'[j := ?v] = take j (regions st) @ ?v # drop j (take ?n (regions st)) @ drop (?n + 1) (regions st)"
    "\<forall>x \<in> set (take j (regions st)). x \<le> ?v" "\<forall>x \<in> set (drop j (take ?n (regions st))). ?v < x"
    using shift_regions_spec [of ?n "regions st" ?v] len srt n by auto
  have u: "unat (region_count st + 1) = ?n + 1"
    using n unat_plus_of_nat [of "region_count st" 1] by simp
  define mbr where "mbr = (mbr'[j := ?v])[?n + 1 := KPAGE_ERR]"
  let ?ys = "take j (regions st) @ ?v # drop j (take ?n (regions st))"
  have ly: "length ?ys = ?n + 1" using j(2) n len by simp
  have eq: "mbr'[j := ?v] = ?ys @ drop (?n + 1) (regions st)" using j(4) by simp
  have tk: "take (?n + 1) mbr = ?ys"
    unfolding mbr_def eq by (simp only: take_update_cancel [OF order_refl] take_all_prefix [OF ly])
  have split: "take ?n (regions st) = take j (regions st) @ drop j (take ?n (regions st))"
    using j(2) by (metis append_take_drop_id min.absorb1 take_take)
  have "sorted (take j (regions st) @ drop j (take ?n (regions st)))" using srt split by simp
  then have "sorted ?ys" using j(5,6) by (auto simp: sorted_append less_imp_le)
  moreover have "mset ?ys = add_mset ?v (mset (take ?n (regions st)))"
    using arg_cong [OF split, of mset] by simp
  ultimately have "sorted (take (?n + 1) mbr)" "mset (take (?n + 1) mbr) = add_mset ?v (mset (take ?n (regions st)))"
    using tk by simp_all
  moreover from this(2) have "set (take (?n + 1) mbr) = insert ?v (set (take ?n (regions st)))"
    by (metis set_mset_add_mset_insert set_mset_mset)
  moreover have "mbr ! (?n + 1) = KPAGE_ERR" "length mbr = 128" using j(3) n by (simp_all add: mbr_def)
  moreover have "\<not> region_count st + 1 > of_nat PFRAME_MAX_REGIONS"
    using n u by (simp add: PFRAME_MAX_REGIONS_def word_less_nat_alt)
  ultimately show ?thesis
    using j(1-3) n u s p by (auto simp: kbud_add_region_def regions_sorted_def put_slave_def mbr_def Let_def)
qed

lemma add_last_region_faults:
  assumes s: "regions_sorted st" and n: "unat (region_count st) = 127"
  shows "kbud_add_region st phy len = None"
proof -
  let ?v = "phys_to_virt_pm phy"
  have len: "length (regions st) = 128" and srt: "sorted (take 127 (regions st))"
    using s n by (simp_all add: regions_sorted_def)
  obtain j mbr' where j: "shift_regions 127 (regions st) ?v = Some (mbr', j)" "j \<le> 127" "length mbr' = 128"
    using shift_regions_spec [of 127 "regions st" ?v] len srt by auto
  have u: "unat (region_count st + 1) = 128"
    using n unat_plus_of_nat [of "region_count st" 1] by simp
  then have "\<not> region_count st + 1 > of_nat PFRAME_MAX_REGIONS"
    by (simp add: PFRAME_MAX_REGIONS_def word_less_nat_alt)
  with j n u show ?thesis by (simp add: kbud_add_region_def upd_opt_def)
qed

section \<open>The order of a size\<close>

lemma byte_order_spec:
  assumes "sz \<le> - 4096"
  shows "\<exists>ord. kbud_byte_order sz = Some ord \<and> unat ord \<le> 52 \<and> unat sz \<le> 4096 * 2 ^ unat ord \<and>
    (\<forall>j < unat ord. 4096 * 2 ^ j < unat sz)"
proof -
  define f where "f = drop_bit 12 (sz + PAGESIZE - 1)"
  have "unat (- 4096 :: u64) = 2 ^ 64 - 4096" by (simp add: unat_eq_nat_uint uint_word_ariths)
  then have b: "unat sz \<le> 2 ^ 64 - 4096" using assms by (metis word_le_nat_alt)
  then have "unat (sz + 4095) = unat sz + 4095" using unat_plus_of_nat [of sz 4095] by simp
  moreover have "f = (sz + 4095) div 4096" by (simp add: f_def PAGESIZE_def drop_bit_eq_div add.commute)
  ultimately have uf: "unat f = (unat sz + 4095) div 4096" by (simp add: unat_div)
  show ?thesis
  proof (cases "f \<le> 1")
    case True
    then have "unat f \<le> 1" by (simp add: word_le_nat_alt)
    then have "unat sz \<le> 4096" using uf by linarith
    with True show ?thesis by (simp add: kbud_byte_order_def f_def [symmetric] Let_def)
  next
    case False
    then have f1: "1 < unat f" by (simp add: word_le_nat_alt)
    then have u1: "unat (f - 1) = unat f - 1" by (metis unat_minus_one not_less_zero unat_0)
    then have ne: "f - 1 \<noteq> 0" using f1 by (metis unat_0 less_irrefl zero_less_diff)
    define c where "c = clz_bits (f - 1)"
    have c: "c < 64" "2 ^ (63 - c) \<le> unat f - 1" "unat f - 1 < 2 ^ (64 - c)"
      using clz_bounds [OF ne] u1 by (simp_all add: c_def)
    have "unat f - 1 < 2 ^ 52" using uf b by simp
    with c(2) have "(2 :: nat) ^ (63 - c) < 2 ^ 52" by (rule le_less_trans)
    then have c52: "63 - c < 52" by (rule power_less_imp_less_exp [rotated]) simp
    define ord :: u8 where "ord = ucast (63 - of_nat c :: u64) + 1"
    have "(63 - of_nat c :: u64) = of_nat (63 - c)" using c(1) by (simp add: of_nat_diff)
    then have "ord = of_nat (63 - c) + 1"
      unfolding ord_def by (simp add: unsigned_of_nat take_bit_nat_eq_self)
    also have "\<dots> = of_nat (64 - c)" using c(1) by (simp add: Suc_diff_le [symmetric] of_nat_diff)
    finally have uo: "unat ord = 64 - c" using c52 by (simp add: unat_of_nat)
    have "kbud_byte_order sz = Some ord"
      using False ne
      by (simp add: kbud_byte_order_def f_def [symmetric] Let_def count_leading_zeroes_64_def c_def ord_def)
    moreover have "unat sz \<le> 4096 * 2 ^ unat ord" using c(3) uf unfolding uo by linarith
    moreover have "4096 * 2 ^ j < unat sz" if "j < unat ord" for j
    proof -
      have "(2 :: nat) ^ j \<le> 2 ^ (63 - c)" using that uo by (intro power_increasing) auto
      from this c(2) have "2 ^ j \<le> unat f - 1" by (rule order_trans)
      with uf f1 show ?thesis by linarith
    qed
    ultimately show ?thesis using uo c52 by (intro exI [of _ ord]) auto
  qed
qed

end
