(* ===== verification/BuddyLists.thy ===== *)
theory BuddyLists
  imports BuddyRegion
begin

text \<open>
  The free lists and pair bitmaps of one region of the page allocator: lists of addresses behind the
  \<open>next\<close> pointers, bits behind the bitmap bytes, and what \<^verbatim>\<open>kbud_push\<close>, \<^verbatim>\<open>kbud_pop_head\<close> and
  \<^verbatim>\<open>kbud_pop\<close> do to them.
\<close>

section \<open>Free lists as lists of addresses\<close>

definition nextf :: "kbuddy \<Rightarrow> u64 \<Rightarrow> u64" where
  "nextf st p = (case get_frame st p of None \<Rightarrow> 0 | Some f \<Rightarrow> pf_next f)"

definition lists_ok :: "kbuddy \<Rightarrow> slave_buddy \<Rightarrow> (nat \<Rightarrow> u64 list) \<Rightarrow> bool" where
  "lists_ok st s L \<longleftrightarrow> length (sb_free s) = 11 \<and> length (order_blk_cnt s) = 11 \<and>
     (\<forall>k<11. chain (nextf st) (sb_free s ! k) (L k) 0 \<and>
        order_blk_cnt s ! k = of_nat (length (L k)) \<and> (\<forall>p \<in> set (L k). get_frame st p \<noteq> None)) \<and>
     (\<forall>j<11. \<forall>k<11. j \<noteq> k \<longrightarrow> set (L j) \<inter> set (L k) = {})"

definition bits_ok :: "slave_buddy \<Rightarrow> bool" where
  "bits_ok s \<longleftrightarrow> max_order s \<le> 10 \<and> length (maxbits s) = 11 \<and> length (bitmap_arr s) = 11 \<and>
     (\<forall>k. k \<le> unat (max_order s) \<longrightarrow> unat (maxbits s ! k) \<le> 8 * length (bitmap_arr s ! k))"

text \<open>The value of a bit, and what does not change when lists and bits do.\<close>

definition pair_bit :: "slave_buddy \<Rightarrow> nat \<Rightarrow> nat \<Rightarrow> bool" where
  "pair_bit s k i \<longleftrightarrow> bit (bitmap_arr s ! k ! (i div 8)) (i mod 8)"

definition same_geom :: "slave_buddy \<Rightarrow> slave_buddy \<Rightarrow> bool" where
  "same_geom s s' \<longleftrightarrow> max_order s' = max_order s \<and> maxbits s' = maxbits s \<and> mbase s' = mbase s \<and>
     rbase s' = rbase s \<and> total_pages s' = total_pages s"

lemma same_geom_refl [simp]: "same_geom s s"
  by (simp add: same_geom_def)

lemma same_geom_trans: "same_geom a b \<Longrightarrow> same_geom b c \<Longrightarrow> same_geom a c"
  by (simp add: same_geom_def)

lemma chk_geom: "same_geom s s' \<Longrightarrow> buddy_bit_chk s' pfn k = buddy_bit_chk s pfn k"
  by (simp add: buddy_bit_chk_def same_geom_def)

lemma pfnum_geom: "same_geom s s' \<Longrightarrow> kbud_pfnum phy s' = kbud_pfnum phy s"
  by (simp add: kbud_pfnum_def same_geom_def)

definition same_mem :: "kbuddy \<Rightarrow> kbuddy \<Rightarrow> bool" where
  "same_mem st st' \<longleftrightarrow> regions st' = regions st \<and> region_count st' = region_count st \<and>
     (\<forall>p. get_frame st' p = None \<longleftrightarrow> get_frame st p = None)"

lemma same_mem_refl [simp]: "same_mem st st"
  by (simp add: same_mem_def)

lemma same_mem_trans: "same_mem a b \<Longrightarrow> same_mem b c \<Longrightarrow> same_mem a c"
  by (simp add: same_mem_def)

lemma get_put [simp]:
  "sp \<noteq> 0 \<Longrightarrow> get_slave (put_slave st sp s) sp = Some s"
  "get_frame (put_slave st sp s) p = get_frame st p"
  "get_slave (put_frame st p f) sp = get_slave st sp"
  "get_frame (put_frame st p f) q = (if q = 0 then None else if q = p then Some f else get_frame st q)"
  by (simp_all add: get_slave_def put_slave_def get_frame_def put_frame_def)

lemma get_frame_null [simp]: "get_frame st 0 = None"
  by (simp add: get_frame_def)

lemma put_regions [simp]:
  "regions (put_slave st sp s) = regions st" "region_count (put_slave st sp s) = region_count st"
  "regions (put_frame st p f) = regions st" "region_count (put_frame st p f) = region_count st"
  by (simp_all add: put_slave_def put_frame_def)

lemma slave_nonnull: "get_slave st sp = Some s \<Longrightarrow> sp \<noteq> 0"
  by (auto simp: get_slave_def)

lemma nextf_put_slave [simp]: "nextf (put_slave st sp s) = nextf st"
  by (simp add: nextf_def fun_eq_iff)

lemma nextf_put_frame: "p \<noteq> 0 \<Longrightarrow> nextf (put_frame st p f) = (nextf st)(p := pf_next f)"
  by (auto simp: nextf_def fun_eq_iff)

lemma lists_ok_put_slave [simp]: "lists_ok (put_slave st sp x) s L = lists_ok st s L"
  by (simp add: lists_ok_def)

lemma mem_put [simp]:
  "same_mem st (put_slave st' sp s) = same_mem st st'"
  by (simp add: same_mem_def)

lemma mem_put_frame: "get_frame st p \<noteq> None \<Longrightarrow> same_mem st (put_frame st p f)"
  by (auto simp: same_mem_def)

section \<open>Bits\<close>

lemma byte_index:
  fixes x :: u64
  shows "unat (drop_bit 3 x) = unat x div 8" "unat (x AND 7) = unat x mod 8"
proof -
  show "unat (drop_bit 3 x) = unat x div 8" by (simp add: drop_bit_eq_div unat_div)
  have "x AND 7 = take_bit 3 x" by (simp add: take_bit_eq_mask mask_eq_exp_minus_1)
  then show "unat (x AND 7) = unat x mod 8" by (simp add: take_bit_eq_mod unat_mod)
qed

lemma chk_index:
  assumes "bits_ok s" "buddy_bit_chk s pfn k = Some True"
  shows "unat k \<le> unat (max_order s)" "unat k < 11"
    "unat (kbud_pair_idx pfn k) div 8 < length (bitmap_arr s ! unat k)"
    "unat (kbud_pair_idx pfn k) < unat (maxbits s ! unat k)"
proof -
  have k: "\<not> k > max_order s" using assms(2) by (auto simp: buddy_bit_chk_def split: if_splits)
  then show le: "unat k \<le> unat (max_order s)" by (simp add: word_le_nat_alt not_less)
  have "max_order s \<le> 10" using assms(1) by (simp add: bits_ok_def)
  then have "unat (max_order s) \<le> 10" by (simp add: word_le_nat_alt)
  with le show l: "unat k < 11" by simp
  have "\<not> kbud_pair_idx pfn k \<ge> maxbits s ! unat k"
    using assms k l by (auto simp: buddy_bit_chk_def bits_ok_def)
  then show p: "unat (kbud_pair_idx pfn k) < unat (maxbits s ! unat k)"
    by (simp add: word_le_nat_alt not_le)
  moreover have "unat (maxbits s ! unat k) \<le> 8 * length (bitmap_arr s ! unat k)"
    using assms(1) le by (simp add: bits_ok_def)
  ultimately show "unat (kbud_pair_idx pfn k) div 8 < length (bitmap_arr s ! unat k)" by simp
qed

lemma bit_get_chk:
  assumes "bits_ok s" "buddy_bit_chk s pfn k = Some True"
  shows "buddy_bit_get s pfn k = Some (pair_bit s (unat k) (unat (kbud_pair_idx pfn k)))"
  using chk_index [OF assms] assms(1)
  by (simp add: buddy_bit_get_def Let_def byte_index pair_bit_def bits_ok_def)

lemma bit_write_chk:
  assumes b: "bits_ok s" and c: "buddy_bit_chk s pfn k = Some True"
    and f: "\<And>b j. j < 8 \<Longrightarrow> bit (f b (push_bit (unat (kbud_pair_idx pfn k) mod 8) 1)) j =
      (if j = unat (kbud_pair_idx pfn k) mod 8 then v else bit b j)"
  shows "\<exists>s'. bit_write f s pfn k = Some s' \<and> bits_ok s' \<and> same_geom s s' \<and>
    sb_free s' = sb_free s \<and> order_blk_cnt s' = order_blk_cnt s \<and>
    (\<forall>j i. pair_bit s' j i =
       (if j = unat k \<and> i = unat (kbud_pair_idx pfn k) then v else pair_bit s j i))"
proof -
  let ?i = "unat (kbud_pair_idx pfn k)" and ?k = "unat k"
  note ix = chk_index [OF b c]
  have lb: "length (bitmap_arr s) = 11" using b by (simp add: bits_ok_def)
  define bm where "bm = (bitmap_arr s ! ?k)[?i div 8 := f (bitmap_arr s ! ?k ! (?i div 8)) (push_bit (?i mod 8) 1)]"
  define s' where "s' = s\<lparr>bitmap_arr := (bitmap_arr s)[?k := bm]\<rparr>"
  have "bit_write f s pfn k = Some s'"
    using ix lb by (simp add: bit_write_def Let_def byte_index s'_def bm_def)
  moreover have "bits_ok s'"
    using b ix lb by (auto simp: bits_ok_def s'_def bm_def nth_list_update)
  moreover have "pair_bit s' j i = (if j = ?k \<and> i = ?i then v else pair_bit s j i)" for j i
  proof (cases "j = ?k \<and> i div 8 = ?i div 8")
    case True
    then have "bitmap_arr s' ! j ! (i div 8) = f (bitmap_arr s ! ?k ! (?i div 8)) (push_bit (?i mod 8) 1)"
      using ix lb by (simp add: s'_def bm_def)
    moreover have "i = ?i \<longleftrightarrow> i mod 8 = ?i mod 8" using True by (metis div_mult_mod_eq)
    ultimately show ?thesis using True f [of "i mod 8"] by (simp add: pair_bit_def)
  next
    case False
    then have "bitmap_arr s' ! j ! (i div 8) = bitmap_arr s ! j ! (i div 8)"
      using ix lb by (cases "j = ?k") (auto simp: s'_def bm_def)
    with False show ?thesis by (auto simp: pair_bit_def)
  qed
  ultimately show ?thesis by (auto simp: s'_def same_geom_def)
qed

lemma bit_set_chk:
  assumes "bits_ok s" "buddy_bit_chk s pfn k = Some True"
  shows "\<exists>s'. buddy_bit_set s pfn k = Some s' \<and> bits_ok s' \<and> same_geom s s' \<and>
    sb_free s' = sb_free s \<and> order_blk_cnt s' = order_blk_cnt s \<and>
    (\<forall>j i. pair_bit s' j i =
       (if j = unat k \<and> i = unat (kbud_pair_idx pfn k) then True else pair_bit s j i))"
  unfolding buddy_bit_set_def by (rule bit_write_chk [OF assms]) (auto simp: bit_simps)

lemma bit_clr_chk:
  assumes "bits_ok s" "buddy_bit_chk s pfn k = Some True"
  shows "\<exists>s'. buddy_bit_clr s pfn k = Some s' \<and> bits_ok s' \<and> same_geom s s' \<and>
    sb_free s' = sb_free s \<and> order_blk_cnt s' = order_blk_cnt s \<and>
    (\<forall>j i. pair_bit s' j i =
       (if j = unat k \<and> i = unat (kbud_pair_idx pfn k) then False else pair_bit s j i))"
  unfolding buddy_bit_clr_def by (rule bit_write_chk [OF assms]) (auto simp: bit_simps)

section \<open>Push and pop\<close>

lemma lists_ok_nth:
  assumes "lists_ok st s L" "k < 11"
  shows "chain (nextf st) (sb_free s ! k) (L k) 0" "order_blk_cnt s ! k = of_nat (length (L k))"
    "p \<in> set (L k) \<Longrightarrow> get_frame st p \<noteq> None" "length (sb_free s) = 11" "length (order_blk_cnt s) = 11"
    "distinct (L k)"
  using assms chain_distinct [of "nextf st" "sb_free s ! k" "L k"] by (auto simp: lists_ok_def)

lemma kbud_push_spec:
  assumes s: "get_slave st sp = Some s" and l: "lists_ok st s L" and b: "bits_ok s"
    and c: "buddy_bit_chk s (kbud_pfnum phy s) k = Some True"
    and f: "get_frame st (phys_to_virt_pm phy) \<noteq> None"
    and n: "\<And>j. j < 11 \<Longrightarrow> phys_to_virt_pm phy \<notin> set (L j)"
  shows "\<exists>st' s'. kbud_push st sp phy k = Some (st', True) \<and> get_slave st' sp = Some s' \<and>
    lists_ok st' s' (L(unat k := phys_to_virt_pm phy # L (unat k))) \<and> bits_ok s' \<and> same_geom s s' \<and>
    same_mem st st' \<and> (\<forall>j i. pair_bit s' j i =
      (if j = unat k \<and> i = unat (kbud_pair_idx (kbud_pfnum phy s) k) then True else pair_bit s j i))"
proof -
  let ?p = "phys_to_virt_pm phy" and ?k = "unat k" and ?i = "unat (kbud_pair_idx (kbud_pfnum phy s) k)"
  note k = chk_index(2) [OF b c]
  note ln = lists_ok_nth [OF l]
  from f obtain fr where fr: "get_frame st ?p = Some fr" by blast
  then have p0: "?p \<noteq> 0" by auto
  define st1 where "st1 = put_frame st ?p (fr\<lparr>pf_order := ucast k, pf_next := sb_free s ! ?k\<rparr>)"
  define s1 where "s1 = s\<lparr>sb_free := (sb_free s)[?k := ?p],
    order_blk_cnt := (order_blk_cnt s)[?k := order_blk_cnt s ! ?k + 1]\<rparr>"
  have g1: "same_geom s s1" by (simp add: same_geom_def s1_def)
  have b1: "bits_ok s1" using b by (simp add: bits_ok_def s1_def)
  have "buddy_bit_chk s1 (kbud_pfnum phy s) k = Some True" using c chk_geom [OF g1] by simp
  from bit_set_chk [OF b1 this] obtain s2 where s2: "buddy_bit_set s1 (kbud_pfnum phy s) k = Some s2"
    "bits_ok s2" "same_geom s1 s2" "sb_free s2 = sb_free s1" "order_blk_cnt s2 = order_blk_cnt s1"
    "\<forall>j i. pair_bit s2 j i = (if j = ?k \<and> i = ?i then True else pair_bit s1 j i)"
    by blast
  have run: "kbud_push st sp phy k = Some (put_slave st1 sp s2, True)"
    using s c fr k ln s2(1) by (simp add: kbud_push_def cnt_add_def Let_def st1_def s1_def)
  have "lists_ok st1 s2 (L(?k := ?p # L ?k))"
    unfolding lists_ok_def
  proof (intro conjI allI impI)
    fix j :: nat assume j: "j < 11"
    have nx: "nextf st1 = (nextf st)(?p := sb_free s ! ?k)" using p0 by (simp add: st1_def nextf_put_frame)
    have "chain (nextf st1) (sb_free s ! j) (L j) 0" using ln(1) [OF j] n [OF j] by (simp add: nx chain_upd)
    then show "chain (nextf st1) (sb_free s2 ! j) ((L(?k := ?p # L ?k)) j) 0"
      using p0 ln(4) [OF j] k by (auto simp: s2 s1_def nx)
    show "order_blk_cnt s2 ! j = of_nat (length ((L(?k := ?p # L ?k)) j))"
      using ln(2) [OF j] ln(5) [OF j] k by (auto simp: s2 s1_def nth_list_update)
    show "\<forall>q \<in> set ((L(?k := ?p # L ?k)) j). get_frame st1 q \<noteq> None"
      using ln(3) [OF j] ln(3) [OF j, of 0] p0 by (auto simp: st1_def)
    fix i :: nat assume i: "i < 11" "j \<noteq> i"
    then show "set ((L(?k := ?p # L ?k)) j) \<inter> set ((L(?k := ?p # L ?k)) i) = {}"
      using l j n by (auto simp: lists_ok_def)
  qed (use ln [OF k] in \<open>simp_all add: s2 s1_def\<close>)
  moreover have "same_mem st st1" using fr by (simp add: st1_def mem_put_frame)
  ultimately show ?thesis
    using run s2 g1 slave_nonnull [OF s]
    by (intro exI [of _ "put_slave st1 sp s2"] exI [of _ s2])
       (auto simp: same_geom_def s1_def pair_bit_def)
qed

lemma kbud_pop_head_spec:
  assumes s: "get_slave st sp = Some s" and l: "lists_ok st s L" and b: "bits_ok s"
    and ne: "L (unat k) = p # ps" and c: "buddy_bit_chk s (kbud_pfnum (virt_to_phys_pm p) s) k = Some True"
  shows "\<exists>st' s'. kbud_pop_head st sp k = Some (st', p) \<and> get_slave st' sp = Some s' \<and>
    lists_ok st' s' (L(unat k := ps)) \<and> bits_ok s' \<and> same_geom s s' \<and>
    same_mem st st' \<and> (\<forall>j i. pair_bit s' j i =
      (if j = unat k \<and> i = unat (kbud_pair_idx (kbud_pfnum (virt_to_phys_pm p) s) k) then False else pair_bit s j i))"
proof -
  let ?k = "unat k" and ?pfn = "kbud_pfnum (virt_to_phys_pm p) s"
  let ?i = "unat (kbud_pair_idx ?pfn k)"
  note k = chk_index(2) [OF b c]
  note ln = lists_ok_nth [OF l]
  have hd: "sb_free s ! ?k = p" and tl: "chain (nextf st) (nextf st p) ps 0"
    using ln(1) [OF k] by (simp_all add: ne)
  from ln(3) [OF k, of p] obtain fr where fr: "get_frame st p = Some fr" by (auto simp: ne)
  then have nx: "pf_next fr = nextf st p" by (simp add: nextf_def)
  define s1 where "s1 = s\<lparr>sb_free := (sb_free s)[?k := nextf st p],
    order_blk_cnt := (order_blk_cnt s)[?k := order_blk_cnt s ! ?k - 1]\<rparr>"
  have g1: "same_geom s s1" by (simp add: same_geom_def s1_def)
  have b1: "bits_ok s1" using b by (simp add: bits_ok_def s1_def)
  have "buddy_bit_chk s1 ?pfn k = Some True" using c chk_geom [OF g1] by simp
  from bit_clr_chk [OF b1 this] obtain s2 where s2: "buddy_bit_clr s1 ?pfn k = Some s2"
    "bits_ok s2" "same_geom s1 s2" "sb_free s2 = sb_free s1" "order_blk_cnt s2 = order_blk_cnt s1"
    "\<forall>j i. pair_bit s2 j i = (if j = ?k \<and> i = ?i then False else pair_bit s1 j i)"
    by blast
  have run: "kbud_pop_head st sp k = Some (put_slave st sp s2, p)"
    using s c fr k ln s2(1) nx hd by (simp add: kbud_pop_head_def cnt_add_def Let_def s1_def)
  have "lists_ok st s2 (L(?k := ps))"
    unfolding lists_ok_def
  proof (intro conjI allI impI)
    fix j :: nat assume j: "j < 11"
    show "chain (nextf st) (sb_free s2 ! j) ((L(?k := ps)) j) 0"
      using ln(1) [OF j] ln(4) [OF j] k tl by (auto simp: s2 s1_def)
    show "order_blk_cnt s2 ! j = of_nat (length ((L(?k := ps)) j))"
      using ln(2) [OF j] ln(5) [OF j] k ne by (auto simp: s2 s1_def nth_list_update)
    show "\<forall>q \<in> set ((L(?k := ps)) j). get_frame st q \<noteq> None"
      using ln(3) [OF j] ne by auto
    fix i :: nat assume i: "i < 11" "j \<noteq> i"
    then have "set (L j) \<inter> set (L i) = {}" using l j by (simp add: lists_ok_def)
    then show "set ((L(?k := ps)) j) \<inter> set ((L(?k := ps)) i) = {}" using ne by auto
  qed (use ln [OF k] in \<open>simp_all add: s2 s1_def\<close>)
  then show ?thesis
    using run s2 g1 slave_nonnull [OF s]
    by (intro exI [of _ "put_slave st sp s2"] exI [of _ s2])
       (auto simp: same_geom_def s1_def pair_bit_def)
qed

text \<open>Unlinking a block from the middle of its list: the walk finds the link that holds it.\<close>

fun link_at :: "u64 list \<Rightarrow> frame_link" where
  "link_at xs = (if xs = [] then FreeHead else NextOf (last xs))"

declare link_at.simps [simp del]

lemma pop_find_chain:
  "chain (nextf st) h (xs @ p # ys) 0 \<Longrightarrow> (\<And>x. x \<in> set xs \<Longrightarrow> get_frame st x \<noteq> None) \<Longrightarrow> p \<notin> set xs \<Longrightarrow>
   flink_get st s k cur = Some h \<Longrightarrow>
   pop_find st s k p cur = Some (if xs = [] then cur else NextOf (last xs))"
proof (induction xs arbitrary: h cur)
  case Nil
  then show ?case by (subst pop_find.simps) simp
next
  case (Cons x xs)
  then have h: "h = x" "chain (nextf st) (nextf st x) (xs @ p # ys) 0" "x \<noteq> p" by auto
  from Cons.prems(2) [of x] obtain fr where "get_frame st x = Some fr" by auto
  then have "flink_get st s k (NextOf x) = Some (nextf st x)" by (simp add: flink_get_def nextf_def)
  with Cons.IH [OF h(2) _ _ this] Cons.prems h(1,3) show ?case
    by (subst pop_find.simps) (auto simp: )
qed

lemma kbud_pop_spec:
  assumes s: "get_slave st sp = Some s" and l: "lists_ok st s L" and b: "bits_ok s"
    and ne: "L (unat k) = xs @ phys_to_virt_pm phy # ys" and len: "length (L (unat k)) < 2 ^ 64"
    and c: "buddy_bit_chk s (kbud_pfnum phy s) k = Some True"
  shows "\<exists>st' s'. kbud_pop st sp phy k = Some (st', True) \<and> get_slave st' sp = Some s' \<and>
    lists_ok st' s' (L(unat k := xs @ ys)) \<and> bits_ok s' \<and> same_geom s s' \<and>
    same_mem st st' \<and> (\<forall>j i. pair_bit s' j i =
      (if j = unat k \<and> i = unat (kbud_pair_idx (kbud_pfnum phy s) k) then False else pair_bit s j i))"
proof -
  let ?p = "phys_to_virt_pm phy" and ?k = "unat k" and ?pfn = "kbud_pfnum phy s"
  let ?i = "unat (kbud_pair_idx ?pfn k)"
  note k = chk_index(2) [OF b c]
  note ln = lists_ok_nth [OF l]
  have ch: "chain (nextf st) (sb_free s ! ?k) (xs @ ?p # ys) 0" and d: "distinct (xs @ ?p # ys)"
    and mp: "\<And>q. q \<in> set (xs @ ?p # ys) \<Longrightarrow> get_frame st q \<noteq> None"
    using ln(1,6) [OF k] ln(3) [OF k] unfolding ne by auto
  have cnt: "order_blk_cnt s ! ?k \<noteq> 0" using ln(2) [OF k] ne len of_nat_zero [of "length (L ?k)"] by simp
  from mp [of ?p] obtain fr where fr: "get_frame st ?p = Some fr" by auto
  then have nx: "pf_next fr = nextf st ?p" by (simp add: nextf_def)
  define cur where "cur = (if xs = [] then FreeHead else NextOf (last xs))"
  have find: "pop_find st s k ?p FreeHead = Some cur"
    unfolding cur_def by (rule pop_find_chain [OF ch]) (use mp d k ln(4) [OF k] in \<open>auto simp: flink_get_def\<close>)
  obtain st1 s1 where s1: "flink_set st s k cur (nextf st ?p) = Some (st1, s1)"
    "nextf st1 = (if xs = [] then nextf st else (nextf st)(last xs := nextf st ?p))"
    "s1 = s\<lparr>sb_free := (if xs = [] then (sb_free s)[?k := nextf st ?p] else sb_free s)\<rparr>"
    "same_mem st st1" "\<And>x. get_slave st1 x = get_slave st x"
    "st1 = (if xs = [] then st else put_frame st (last xs) ((the (get_frame st (last xs)))\<lparr>pf_next := nextf st ?p\<rparr>))"
  proof (cases "xs = []")
    case True
    then show ?thesis by (intro that) (simp_all add: cur_def flink_set_def)
  next
    case False
    then have "last xs \<in> set (xs @ ?p # ys)" by simp
    with mp obtain g where g: "get_frame st (last xs) = Some g" by blast
    then have "last xs \<noteq> 0" by auto
    with False g show ?thesis
      by (intro that) (auto simp: cur_def flink_set_def nextf_put_frame mem_put_frame)
  qed
  define s2 where "s2 = s1\<lparr>order_blk_cnt := (order_blk_cnt s)[?k := order_blk_cnt s ! ?k - 1]\<rparr>"
  have g2: "same_geom s s2" by (simp add: same_geom_def s2_def s1(3))
  have b2: "bits_ok s2" using b by (simp add: bits_ok_def s2_def s1(3))
  have "buddy_bit_chk s2 ?pfn k = Some True" using c chk_geom [OF g2] by simp
  from bit_clr_chk [OF b2 this] obtain s3 where s3: "buddy_bit_clr s2 ?pfn k = Some s3"
    "bits_ok s3" "same_geom s2 s3" "sb_free s3 = sb_free s2" "order_blk_cnt s3 = order_blk_cnt s2"
    "\<forall>j i. pair_bit s3 j i = (if j = ?k \<and> i = ?i then False else pair_bit s2 j i)"
    by blast
  have run: "kbud_pop st sp phy k = Some (put_slave st1 sp s3, True)"
    using s c fr k ln s3(1) nx find cnt s1(1)
    by (simp add: kbud_pop_def cnt_add_def Let_def s2_def s1(3))
  have "lists_ok st1 s3 (L(?k := xs @ ys))"
    unfolding lists_ok_def
  proof (intro conjI allI impI)
    fix j :: nat assume j: "j < 11"
    show "chain (nextf st1) (sb_free s3 ! j) ((L(?k := xs @ ys)) j) 0"
    proof (cases "j = ?k")
      case True
      then show ?thesis using chain_remove [OF ch d] ln(4) [OF k] k
        by (cases "xs = []") (auto simp: s3 s2_def s1(2,3))
    next
      case False
      then have "set (L j) \<inter> set (L ?k) = {}" using l j k by (simp add: lists_ok_def)
      then have "xs \<noteq> [] \<Longrightarrow> last xs \<notin> set (L j)" using ne last_in_set by fastforce
      then show ?thesis using False ln(1) [OF j]
        by (auto simp: s3 s2_def s1(2,3) chain_upd)
    qed
    show "order_blk_cnt s3 ! j = of_nat (length ((L(?k := xs @ ys)) j))"
      using ln(2) [OF j] ln(5) [OF j] k ne by (auto simp: s3 s2_def s1(3) nth_list_update)
    show "\<forall>q \<in> set ((L(?k := xs @ ys)) j). get_frame st1 q \<noteq> None"
      using ln(3) [OF j] ne s1(4) by (auto simp: same_mem_def)
    fix i :: nat assume i: "i < 11" "j \<noteq> i"
    then have "set (L j) \<inter> set (L i) = {}" using l j by (simp add: lists_ok_def)
    then show "set ((L(?k := xs @ ys)) j) \<inter> set ((L(?k := xs @ ys)) i) = {}" using ne by auto
  qed (use ln [OF k] in \<open>simp_all add: s3 s2_def s1(3)\<close>)
  then show ?thesis
    using run s3 g2 slave_nonnull [OF s] s1(4)
    by (intro exI [of _ "put_slave st1 sp s3"] exI [of _ s3])
       (auto simp: same_geom_def s2_def s1(3) pair_bit_def)
qed

end
