(* ===== verification/BuddyFrames.thy ===== *)
theory BuddyFrames
  imports BuddyLists
begin

text \<open>
  Blocks of a region as frame numbers relative to \<open>mbase\<close>, for regions in which the address
  arithmetic of \<^verbatim>\<open>kernel/mm/buddy.c\<close> is consistent (\<open>geom\<close>): \<open>mbase\<close> aligned to the largest block
  and a whole number of such pairs of blocks. The word operations of the code (exclusive or with the
  block size on physical addresses, and with the order's bit on frame numbers) compute the buddy.
\<close>

section \<open>Frame numbers\<close>

definition faddr :: "slave_buddy \<Rightarrow> nat \<Rightarrow> u64" where
  "faddr s n = phys_to_virt_pm (mbase s + of_nat (4096 * n))"

definition fr :: "nat \<Rightarrow> nat \<Rightarrow> nat set" where
  "fr k n = {n..<n + 2 ^ k}"

definition bud :: "nat \<Rightarrow> nat \<Rightarrow> nat" where
  "bud k n = (if 2 ^ (k + 1) dvd n then n + 2 ^ k else n - 2 ^ k)"

definition geom :: "slave_buddy \<Rightarrow> nat \<Rightarrow> bool" where
  "geom s R \<longleftrightarrow> max_order s = 10 \<and> (\<forall>k \<le> 10. unat (maxbits s ! k) = R div 2 ^ (k + 1)) \<and>
     length (maxbits s) = 11 \<and> 2 ^ 11 dvd R \<and> 2 ^ 22 dvd unat (mbase s) \<and>
     unat (mbase s) + 4096 * R \<le> 2 ^ 46 \<and> unat (total_pages s) \<le> R"

lemma geom_same: "same_geom s s' \<Longrightarrow> geom s' R = geom s R"
  by (simp add: geom_def same_geom_def)

lemma faddr_same: "same_geom s s' \<Longrightarrow> faddr s' n = faddr s n"
  by (simp add: faddr_def same_geom_def)

lemma geom_frames: "geom s R \<Longrightarrow> n < R \<Longrightarrow> n < 2 ^ 34"
  by (auto simp: geom_def)

lemma unat_frame: "geom s R \<Longrightarrow> n \<le> R \<Longrightarrow> unat (mbase s + of_nat (4096 * n)) = unat (mbase s) + 4096 * n"
  by (rule unat_plus_of_nat) (auto simp: geom_def)

lemma faddr_pfn: "geom s R \<Longrightarrow> n < R \<Longrightarrow> kbud_pfnum (virt_to_phys_pm (faddr s n)) s = of_nat n"
proof -
  assume g: "geom s R" "n < R"
  have "unat (of_nat (4096 * n) :: u64) = 4096 * n"
    using geom_frames [OF g] by (intro unat_of_nat64) simp
  then have "unat (drop_bit 12 (of_nat (4096 * n) :: u64)) = n"
    by (simp add: drop_bit_eq_div unat_div del: of_nat_mult)
  moreover have "unat (of_nat n :: u64) = n" using geom_frames [OF g] by (intro unat_of_nat64) simp
  ultimately have "drop_bit 12 (of_nat (4096 * n) :: u64) = of_nat n"
    by (simp only: word_unat_eq_iff)
  then show ?thesis by (simp add: kbud_pfnum_def faddr_def)
qed

lemma pair_idx_nat: "n < 2 ^ 64 \<Longrightarrow> unat (kbud_pair_idx (of_nat n) k) = n div 2 ^ (unat k + 1)"
  by (simp add: kbud_pair_idx_def unat_drop unat_of_nat64)

lemma div_less_aligned: "(d :: nat) dvd R \<Longrightarrow> 0 < d \<Longrightarrow> n < R \<Longrightarrow> n div d < R div d"
  by (metis div_less_iff_less_mult dvd_div_mult_self)

lemma chk_frame:
  assumes "geom s R" "n < R" "k \<le> 10"
  shows "buddy_bit_chk s (of_nat n) (of_nat k) = Some True"
proof -
  have uk: "unat (of_nat k :: u32) = k" using assms(3) by (simp add: unat_of_nat)
  have "(2 :: nat) ^ (k + 1) dvd 2 ^ 11" using assms(3) by (intro le_imp_power_dvd) simp
  then have "2 ^ (k + 1) dvd R" using assms(1) by (meson dvd_trans geom_def)
  then have "n div 2 ^ (k + 1) < R div 2 ^ (k + 1)" using assms(2) by (intro div_less_aligned) auto
  moreover have "n < 2 ^ 64" using geom_frames [OF assms(1,2)] by simp
  ultimately have "kbud_pair_idx (of_nat n) (of_nat k) < maxbits s ! k"
    using assms pair_idx_nat [of n "of_nat k"] uk by (simp add: word_less_nat_alt geom_def)
  moreover have "\<not> of_nat k > max_order s" using assms uk by (simp add: geom_def word_less_nat_alt)
  ultimately show ?thesis using assms uk by (simp add: buddy_bit_chk_def geom_def not_le)
qed

lemma chk_null:
  assumes g: "geom s R" and k: "k \<le> 10"
  shows "buddy_bit_chk s (kbud_pfnum (virt_to_phys_pm 0) s) (of_nat k) = Some False"
proof -
  have uk: "unat (of_nat k :: u32) = k" using k by (simp add: unat_of_nat)
  let ?x = "virt_to_phys_pm 0 - mbase s"
  have v: "virt_to_phys_pm 0 = 2 ^ 47"
    by (simp add: virt_to_phys_pm_def get_kernel_phmap_def KERNEL_PHMMAP_def)
  have mb: "unat (mbase s) \<le> 2 ^ 46" "4096 * R \<le> 2 ^ 46" using g by (auto simp: geom_def)
  have "unat (2 ^ 47 :: u64) = 2 ^ 47" by simp
  with mb have "mbase s \<le> 2 ^ 47" by (simp add: word_le_nat_alt)
  then have "unat ?x = 2 ^ 47 - unat (mbase s)" unfolding v by (simp add: unat_sub)
  then have "2 ^ 34 \<le> unat ?x div 4096" using mb by simp
  then have "R \<le> unat ?x div 4096" using mb by simp
  then have "R div 2 ^ (k + 1) \<le> unat ?x div 4096 div 2 ^ (k + 1)" by (rule div_le_mono)
  moreover have "unat (kbud_pair_idx (kbud_pfnum (virt_to_phys_pm 0) s) (of_nat k)) =
      unat ?x div 4096 div 2 ^ (k + 1)"
    by (simp add: kbud_pair_idx_def kbud_pfnum_def uk unat_drop div_mult2_eq [symmetric] power_add)
  ultimately have "maxbits s ! k \<le> kbud_pair_idx (kbud_pfnum (virt_to_phys_pm 0) s) (of_nat k)"
    using g k by (simp add: word_le_nat_alt geom_def)
  then show ?thesis using g k uk by (simp add: buddy_bit_chk_def geom_def)
qed

lemma faddr_inj: "geom s R \<Longrightarrow> m < R \<Longrightarrow> n < R \<Longrightarrow> faddr s m = faddr s n \<longleftrightarrow> m = n"
proof -
  assume g: "geom s R" "m < R" "n < R"
  have "of_nat m = (of_nat n :: u64) \<longleftrightarrow> m = n"
    using geom_frames [OF g(1,2)] geom_frames [OF g(1,3)] by (intro of_nat_eq) auto
  then show ?thesis using faddr_pfn [OF g(1,2)] faddr_pfn [OF g(1,3)] by metis
qed

section \<open>Buddies of frame numbers\<close>

lemma dvd_half: "2 ^ k dvd (n :: nat) \<Longrightarrow> \<not> 2 ^ (k + 1) dvd n \<Longrightarrow> \<exists>m. n = m + 2 ^ k \<and> 2 ^ (k + 1) dvd m"
proof -
  assume "2 ^ k dvd n" "\<not> 2 ^ (k + 1) dvd n"
  then obtain q where q: "n = 2 ^ k * q" "odd q" by (auto elim!: dvdE)
  then obtain t where "q = 2 * t + 1" by (auto elim: oddE)
  with q show ?thesis by (intro exI [of _ "2 ^ (k + 1) * t"]) (simp add: algebra_simps)
qed

lemma bud_cases:
  assumes "2 ^ k dvd (n :: nat)"
  obtains "2 ^ (k + 1) dvd n" "bud k n = n + 2 ^ k" "bud k (bud k n) = n"
    | m where "n = m + 2 ^ k" "2 ^ (k + 1) dvd m" "bud k n = m" "bud k (bud k n) = n"
proof (cases "2 ^ (k + 1) dvd n")
  case True
  then have "\<not> 2 ^ (k + 1) dvd n + 2 ^ k" by (simp add: dvd_add_right_iff)
  with True that(1) show ?thesis by (simp add: bud_def)
next
  case False
  from dvd_half [OF assms this] obtain m where "n = m + 2 ^ k" "2 ^ (k + 1) dvd m" by blast
  with False that(2) show ?thesis by (simp add: bud_def)
qed

lemma bud_dvd: "2 ^ k dvd n \<Longrightarrow> 2 ^ k dvd bud k n"
  by (auto simp: bud_def)

lemma bud_bud: "2 ^ k dvd n \<Longrightarrow> bud k (bud k n) = n"
  by (erule bud_cases) auto

lemma bud_ne: "2 ^ k dvd n \<Longrightarrow> bud k n \<noteq> n"
  by (erule bud_cases) auto

lemma same_pair:
  assumes "2 ^ k dvd m" "2 ^ k dvd n"
  shows "m div 2 ^ (k + 1) = n div 2 ^ (k + 1) \<longleftrightarrow> m = n \<or> m = bud k n"
proof -
  have d: "x = (x div 2 ^ (k + 1)) * 2 ^ (k + 1) + (if 2 ^ (k + 1) dvd x then 0 else 2 ^ k)"
    if "2 ^ k dvd x" for x :: nat
  proof (cases "2 ^ (k + 1) dvd x")
    case True
    then show ?thesis by simp
  next
    case False
    from dvd_half [OF that this] obtain t where "x = t + 2 ^ k" "2 ^ (k + 1) dvd t" by blast
    with False show ?thesis by (auto elim!: dvdE simp: div_mult_self2)
  qed
  show ?thesis
  proof
    assume e: "m div 2 ^ (k + 1) = n div 2 ^ (k + 1)"
    show "m = n \<or> m = bud k n"
      using d [OF assms(1)] d [OF assms(2)] unfolding e bud_def by (auto split: if_splits)
  next
    assume "m = n \<or> m = bud k n"
    then show "m div 2 ^ (k + 1) = n div 2 ^ (k + 1)"
    proof
      assume m: "m = bud k n"
      from assms(2) show ?thesis by (rule bud_cases) (use m in \<open>auto elim!: dvdE simp: div_mult_self2\<close>)
    qed simp
  qed
qed

lemma bud_union: "2 ^ k dvd n \<Longrightarrow> fr k n \<union> fr k (bud k n) = fr (k + 1) (min n (bud k n))"
  by (erule bud_cases) (auto simp: fr_def)

lemma bud_disjoint: "2 ^ k dvd n \<Longrightarrow> fr k n \<inter> fr k (bud k n) = {}"
  by (erule bud_cases) (auto simp: fr_def)

lemma bud_min_dvd: "2 ^ k dvd n \<Longrightarrow> 2 ^ (k + 1) dvd min n (bud k n)"
  by (erule bud_cases) auto

section \<open>The word operations on frame numbers\<close>

lemma add_xor:
  fixes x :: u64
  assumes "2 ^ (i + 1) dvd unat x" "i < 64"
  shows "x XOR push_bit i 1 = x + push_bit i 1" "(x + push_bit i 1) XOR push_bit i 1 = x"
    "x AND NOT (push_bit i 1) = x" "(x + push_bit i 1) AND NOT (push_bit i 1) = x"
proof -
  have "\<not> bit (unat x) i" using assms(1) by (auto simp: bit_iff_odd elim!: dvdE)
  then have nb: "\<not> bit x i" using assms(2) by (simp add: bit_unsigned_iff)
  have "x + push_bit i 1 = x OR push_bit i 1" using nb by (intro disjunctive_add) (auto simp: bit_simps)
  then have e: "x + push_bit i 1 = x XOR push_bit i 1"
    using nb by (simp, intro bit_word_eqI) (auto simp: bit_simps)
  show "x XOR push_bit i 1 = x + push_bit i 1" using e by simp
  show "(x + push_bit i 1) XOR push_bit i 1 = x" unfolding e by (simp add: xor.assoc)
  show "x AND NOT (push_bit i 1) = x" using nb by (intro bit_word_eqI) (auto simp: bit_simps)
  show "(x + push_bit i 1) AND NOT (push_bit i 1) = x"
    unfolding e using nb by (intro bit_word_eqI) (auto simp: bit_simps)
qed

lemma bud_word:
  assumes d: "2 ^ k dvd n" and b: "n < 2 ^ 34" and k: "k \<le> 10"
  shows "(of_nat n :: u64) XOR push_bit k 1 = of_nat (bud k n)"
    "(of_nat n :: u64) AND NOT (push_bit k 1) = of_nat (min n (bud k n))"
proof -
  have p: "(push_bit k 1 :: u64) = of_nat (2 ^ k)" by (simp add: push_bit_eq_mult)
  have "(of_nat n :: u64) XOR push_bit k 1 = of_nat (bud k n) \<and>
    (of_nat n :: u64) AND NOT (push_bit k 1) = of_nat (min n (bud k n))"
    using d
  proof (rule bud_cases)
    assume h: "2 ^ (k + 1) dvd n" "bud k n = n + 2 ^ k"
    have "unat (of_nat n :: u64) = n" using b by (intro unat_of_nat64) simp
    with add_xor [of k "of_nat n"] h k show ?thesis by (simp add: p)
  next
    fix m assume h: "n = m + 2 ^ k" "2 ^ (k + 1) dvd m" "bud k n = m"
    have "unat (of_nat m :: u64) = m" using b h by (intro unat_of_nat64) simp
    with add_xor [of k "of_nat m"] h k show ?thesis by (simp add: p)
  qed
  then show "(of_nat n :: u64) XOR push_bit k 1 = of_nat (bud k n)"
    "(of_nat n :: u64) AND NOT (push_bit k 1) = of_nat (min n (bud k n))" by simp_all
qed

lemma split_word:
  assumes g: "geom s R" and n: "n < R" and d: "2 ^ (j + 1) dvd n" and j: "j \<le> 9"
  shows "virt_to_phys_pm (faddr s n) XOR push_bit j PAGESIZE = mbase s + of_nat (4096 * (n + 2 ^ j))"
proof -
  let ?x = "mbase s + of_nat (4096 * n)"
  have p: "push_bit j PAGESIZE = push_bit (j + 12) (1 :: u64)"
    by (simp add: PAGESIZE_def push_bit_eq_mult power_add)
  have "(2 :: nat) ^ (j + 12 + 1) dvd 2 ^ 22" using j by (intro le_imp_power_dvd) simp
  moreover have "2 ^ 22 dvd unat (mbase s)" using g by (simp add: geom_def)
  ultimately have "2 ^ (j + 12 + 1) dvd unat (mbase s)" by (rule dvd_trans)
  moreover have "(2 :: nat) ^ (j + 12 + 1) dvd 4096 * n"
    using mult_dvd_mono [OF dvd_refl [of "4096 :: nat"] d] by (simp add: power_add mult.commute)
  ultimately have "2 ^ (j + 12 + 1) dvd unat ?x" using unat_frame [OF g] n by simp
  from add_xor(1) [OF this] j have "?x XOR push_bit (j + 12) 1 = ?x + push_bit (j + 12) 1" by simp
  moreover have "push_bit (j + 12) (1 :: u64) = of_nat (4096 * 2 ^ j)"
    by (simp add: push_bit_eq_mult power_add)
  ultimately show ?thesis by (simp add: p faddr_def distrib_left add.assoc)
qed

end
