(* ===== verification/BuddyInv.thy ===== *)
theory BuddyInv
  imports BuddyFrames
begin

text \<open>
  The invariant of a region of the page allocator: the free lists hold aligned, disjoint blocks inside
  the region, the bit of a pair of buddies is set exactly when one of the two is free, and never both
  are. The list operations keep it; a block that is outside the lists is \<open>held\<close>.
\<close>

section \<open>The invariant of a region\<close>

definition free_frames :: "(nat \<Rightarrow> nat list) \<Rightarrow> nat set" where
  "free_frames F = {x. \<exists>k<11. \<exists>n \<in> set (F k). x \<in> fr k n}"

definition blocks_ok :: "nat \<Rightarrow> (nat \<Rightarrow> nat list) \<Rightarrow> bool" where
  "blocks_ok T F \<longleftrightarrow> (\<forall>k<11. \<forall>n \<in> set (F k). 2 ^ k dvd n \<and> n + 2 ^ k \<le> T) \<and>
     (\<forall>j<11. \<forall>k<11. \<forall>m \<in> set (F j). \<forall>n \<in> set (F k). (j, m) \<noteq> (k, n) \<longrightarrow> fr j m \<inter> fr k n = {})"

definition pairs_ok :: "slave_buddy \<Rightarrow> nat \<Rightarrow> (nat \<Rightarrow> nat list) \<Rightarrow> bool" where
  "pairs_ok s R F \<longleftrightarrow> (\<forall>k<10. \<forall>n<R. 2 ^ k dvd n \<longrightarrow>
     (pair_bit s k (n div 2 ^ (k + 1)) \<longleftrightarrow> n \<in> set (F k) \<or> bud k n \<in> set (F k)) \<and>
     \<not> (n \<in> set (F k) \<and> bud k n \<in> set (F k)))"

definition region_inv :: "kbuddy \<Rightarrow> slave_buddy \<Rightarrow> nat \<Rightarrow> (nat \<Rightarrow> nat list) \<Rightarrow> bool" where
  "region_inv st s R F \<longleftrightarrow> geom s R \<and> bits_ok s \<and> lists_ok st s (\<lambda>k. map (faddr s) (F k)) \<and>
     blocks_ok (unat (total_pages s)) F \<and> pairs_ok s R F \<and>
     (\<forall>n < unat (total_pages s). get_frame st (faddr s n) \<noteq> None)"

text \<open>A block outside the lists: allocated, or on its way between two lists.\<close>

definition held :: "slave_buddy \<Rightarrow> (nat \<Rightarrow> nat list) \<Rightarrow> nat \<Rightarrow> nat \<Rightarrow> bool" where
  "held s F k n \<longleftrightarrow> k < 11 \<and> 2 ^ k dvd n \<and> n + 2 ^ k \<le> unat (total_pages s) \<and> fr k n \<inter> free_frames F = {}"

lemma fr_self [simp]: "n \<in> fr k n"
  by (simp add: fr_def)

lemma held_notin: "held s F k n \<Longrightarrow> j < 11 \<Longrightarrow> m \<in> fr k n \<Longrightarrow> m \<notin> set (F j)"
  using fr_self [of m j] unfolding held_def free_frames_def by blast

lemma block_bounds:
  assumes "region_inv st s R F" "k < 11" "n \<in> set (F k)"
  shows "2 ^ k dvd n" "n + 2 ^ k \<le> unat (total_pages s)" "n < R" "n < unat (total_pages s)"
proof -
  show a: "2 ^ k dvd n" "n + 2 ^ k \<le> unat (total_pages s)"
    using assms by (auto simp: region_inv_def blocks_ok_def)
  moreover have "unat (total_pages s) \<le> R" using assms(1) by (simp add: region_inv_def geom_def)
  moreover have "(0 :: nat) < 2 ^ k" by simp
  ultimately show "n < R" "n < unat (total_pages s)" by linarith+
qed

lemma held_bounds:
  assumes "region_inv st s R F" "held s F k n"
  shows "n < R" "n < unat (total_pages s)" "k \<le> 10" "2 ^ k dvd n"
proof -
  have "n + 2 ^ k \<le> unat (total_pages s)" "unat (total_pages s) \<le> R"
    using assms by (auto simp: region_inv_def geom_def held_def)
  moreover have "(0 :: nat) < 2 ^ k" by simp
  ultimately show "n < R" "n < unat (total_pages s)" by linarith+
  show "k \<le> 10" "2 ^ k dvd n" using assms by (auto simp: held_def)
qed

lemma map_upd: "(\<lambda>j. map f ((F(k := xs)) j)) = (\<lambda>j. map f (F j))(k := map f xs)"
  by auto

lemma free_frames_add: "k < 11 \<Longrightarrow> free_frames (F(k := n # F k)) = free_frames F \<union> fr k n"
  by (rule set_eqI, rule iffI) (force simp: free_frames_def split: if_splits)+

lemma free_frames_split:
  assumes "blocks_ok T F" "k < 11" "F k = xs @ n # ys" "distinct (F k)"
  shows "free_frames F = free_frames (F(k := xs @ ys)) \<union> fr k n" "fr k n \<inter> free_frames (F(k := xs @ ys)) = {}"
proof -
  show "free_frames F = free_frames (F(k := xs @ ys)) \<union> fr k n"
  proof (intro set_eqI iffI)
    fix x assume "x \<in> free_frames F"
    then obtain j m where m: "j < 11" "m \<in> set (F j)" "x \<in> fr j m" by (auto simp: free_frames_def)
    show "x \<in> free_frames (F(k := xs @ ys)) \<union> fr k n"
    proof (cases "j = k \<and> m = n")
      case False
      then have "m \<in> set ((F(k := xs @ ys)) j)" using m(2) assms(3) by auto
      with m(1,3) show ?thesis unfolding free_frames_def by blast
    qed (use m(3) in simp)
  next
    fix x assume x: "x \<in> free_frames (F(k := xs @ ys)) \<union> fr k n"
    have "set ((F(k := xs @ ys)) j) \<subseteq> set (F j)" for j using assms(3) by auto
    moreover have "n \<in> set (F k)" using assms(3) by simp
    ultimately show "x \<in> free_frames F" using x assms(2) unfolding free_frames_def by blast
  qed
  have n: "n \<in> set (F k)" "n \<notin> set (xs @ ys)" using assms(3,4) by auto
  have "fr k n \<inter> fr j m = {}" if "j < 11" "m \<in> set ((F(k := xs @ ys)) j)" for j m
  proof -
    have "m \<in> set (F j)" "(k, n) \<noteq> (j, m)" using that n assms(3) by (auto split: if_splits)
    then show ?thesis using assms(1,2) that(1) n(1) by (simp add: blocks_ok_def)
  qed
  then show "fr k n \<inter> free_frames (F(k := xs @ ys)) = {}" unfolding free_frames_def by blast
qed

lemma blocks_ok_remove: "blocks_ok T F \<Longrightarrow> F k = xs @ n # ys \<Longrightarrow> blocks_ok T (F(k := xs @ ys))"
  unfolding blocks_ok_def by (auto split: if_splits)

lemma blocks_ok_add:
  assumes b: "blocks_ok T F" and k: "k < 11" "2 ^ k dvd n" "n + 2 ^ k \<le> T" and d: "fr k n \<inter> free_frames F = {}"
  shows "blocks_ok T (F(k := n # F k))"
proof -
  have d': "fr k n \<inter> fr j m = {}" if "j < 11" "m \<in> set (F j)" for j m
    using d that by (auto simp: free_frames_def)
  show ?thesis
    unfolding blocks_ok_def
  proof (intro conjI allI impI ballI)
    fix i m assume "i < 11" "m \<in> set ((F(k := n # F k)) i)"
    then show "2 ^ i dvd m" "m + 2 ^ i \<le> T" using b k by (auto simp: blocks_ok_def split: if_splits)
  next
    fix i j m m' assume a: "i < 11" "j < 11" "m \<in> set ((F(k := n # F k)) i)"
      "m' \<in> set ((F(k := n # F k)) j)" "(i, m) \<noteq> (j, m')"
    then have "(i = k \<and> m = n \<or> m \<in> set (F i))" "(j = k \<and> m' = n \<or> m' \<in> set (F j))"
      by (auto split: if_splits)
    then show "fr i m \<inter> fr j m' = {}"
      using d' [OF a(1)] d' [OF a(2)] b a(1,2,5) unfolding blocks_ok_def by blast
  qed
qed

lemma pairs_ok_add:
  assumes p: "pairs_ok s R F" and n: "2 ^ k dvd n" "n < R" "bud k n \<notin> set (F k) \<or> k = 10" "k \<le> 10"
    and b: "\<forall>j i. pair_bit s' j i = (if j = k \<and> i = n div 2 ^ (k + 1) then True else pair_bit s j i)"
  shows "pairs_ok s' R (F(k := n # F k))"
  unfolding pairs_ok_def
proof (intro allI impI conjI)
  fix j m assume m: "j < 10" "m < R" "2 ^ j dvd m"
  then have old: "pair_bit s j (m div 2 ^ (j + 1)) \<longleftrightarrow> m \<in> set (F j) \<or> bud j m \<in> set (F j)"
    "\<not> (m \<in> set (F j) \<and> bud j m \<in> set (F j))" using p by (auto simp: pairs_ok_def)
  have "j = k \<Longrightarrow> m div 2 ^ (j + 1) = n div 2 ^ (k + 1) \<longleftrightarrow> m = n \<or> m = bud k n"
    using same_pair [OF m(3)] n(1) by simp
  moreover have "bud k (bud k n) = n" "bud k n \<noteq> n" using bud_bud [OF n(1)] bud_ne [OF n(1)] .
  moreover have "j = k \<Longrightarrow> bud j m = n \<longleftrightarrow> m = bud k n" using bud_bud m(3) n(1) by metis
  ultimately show "pair_bit s' j (m div 2 ^ (j + 1)) \<longleftrightarrow>
      m \<in> set ((F(k := n # F k)) j) \<or> bud j m \<in> set ((F(k := n # F k)) j)"
    "\<not> (m \<in> set ((F(k := n # F k)) j) \<and> bud j m \<in> set ((F(k := n # F k)) j))"
    using old b n(3) m(1) by auto
qed

lemma pairs_ok_remove:
  assumes p: "pairs_ok s R F" and n: "2 ^ k dvd n" "n < R" "k \<le> 10"
    and F: "F k = xs @ n # ys" "distinct (F k)"
    and b: "\<forall>j i. pair_bit s' j i = (if j = k \<and> i = n div 2 ^ (k + 1) then False else pair_bit s j i)"
  shows "pairs_ok s' R (F(k := xs @ ys))"
  unfolding pairs_ok_def
proof (intro allI impI conjI)
  fix j m assume m: "j < 10" "m < R" "2 ^ j dvd m"
  then have old: "pair_bit s j (m div 2 ^ (j + 1)) \<longleftrightarrow> m \<in> set (F j) \<or> bud j m \<in> set (F j)"
    "\<not> (m \<in> set (F j) \<and> bud j m \<in> set (F j))" using p by (auto simp: pairs_ok_def)
  have e: "j = k \<Longrightarrow> m div 2 ^ (j + 1) = n div 2 ^ (k + 1) \<longleftrightarrow> m = n \<or> m = bud k n"
    using same_pair [OF m(3)] n(1) by simp
  have nb: "k < 10 \<Longrightarrow> bud k n \<notin> set (F k)"
    using p [unfolded pairs_ok_def, rule_format, of k n] n F(1) by auto
  have "bud k (bud k n) = n" "bud k n \<noteq> n" using bud_bud [OF n(1)] bud_ne [OF n(1)] .
  moreover have "j = k \<Longrightarrow> bud j m = n \<longleftrightarrow> m = bud k n" using bud_bud m(3) n(1) by metis
  ultimately show "pair_bit s' j (m div 2 ^ (j + 1)) \<longleftrightarrow>
      m \<in> set ((F(k := xs @ ys)) j) \<or> bud j m \<in> set ((F(k := xs @ ys)) j)"
    using old b e nb m(1) F by auto
  show "\<not> (m \<in> set ((F(k := xs @ ys)) j) \<and> bud j m \<in> set ((F(k := xs @ ys)) j))"
    using old(2) F(1) by auto
qed

section \<open>The list operations on regions in their invariant\<close>

lemma region_invD:
  assumes "region_inv st s R F"
  shows "geom s R" "bits_ok s" "lists_ok st s (\<lambda>k. map (faddr s) (F k))" "blocks_ok (unat (total_pages s)) F"
    "pairs_ok s R F" "n < unat (total_pages s) \<Longrightarrow> get_frame st (faddr s n) \<noteq> None"
  using assms by (auto simp: region_inv_def)

lemma map_in_faddr:
  assumes i: "region_inv st s R F" and k: "k < 11" and n: "n < R"
  shows "faddr s n \<in> set (map (faddr s) (F k)) \<longleftrightarrow> n \<in> set (F k)"
proof -
  have "m \<in> set (F k) \<Longrightarrow> faddr s m = faddr s n \<longleftrightarrow> m = n" for m
    using faddr_inj [OF region_invD(1) [OF i]] block_bounds(3) [OF i k] n by blast
  then show ?thesis by (metis (no_types, lifting) image_iff image_set)
qed

lemma list_distinct:
  assumes i: "region_inv st s R F" and k: "k < 11"
  shows "distinct (F k)"
  using lists_ok_nth(6) [OF region_invD(3) [OF i] k] by (simp add: distinct_map)

lemma list_length:
  assumes i: "region_inv st s R F" and k: "k < 11"
  shows "length (F k) < 2 ^ 64"
proof -
  have "set (F k) \<subseteq> {..<R}" using block_bounds(3) [OF i k] by auto
  then have "length (F k) \<le> R"
    using distinct_card [OF list_distinct [OF i k]] card_mono [of "{..<R}" "set (F k)"] by simp
  moreover have "4096 * R \<le> 2 ^ 46" using region_invD(1) [OF i] by (simp add: geom_def)
  ultimately show ?thesis by simp
qed

lemma uk10: "k \<le> 10 \<Longrightarrow> unat (of_nat k :: u32) = k"
  by (simp add: unat_of_nat)

lemma inv_change:
  assumes i: "region_inv st s R F" and g: "same_geom s s'" and m: "same_mem st st'" and b: "bits_ok s'"
    and l: "lists_ok st' s' (\<lambda>k. map (faddr s) (F' k))"
    and o: "blocks_ok (unat (total_pages s)) F'" and p: "pairs_ok s' R F'"
  shows "region_inv st' s' R F'"
proof -
  have f: "faddr s' = faddr s" by (rule ext) (rule faddr_same [OF g])
  moreover have "total_pages s' = total_pages s" using g by (simp add: same_geom_def)
  moreover have "geom s' R" using region_invD(1) [OF i] geom_same [OF g] by simp
  ultimately show ?thesis using region_invD(6) [OF i] m b l o p by (simp add: region_inv_def same_mem_def)
qed

lemma push_inv:
  assumes s: "get_slave st sp = Some s" and i: "region_inv st s R F" and h: "held s F k n"
    and nb: "k < 10 \<Longrightarrow> bud k n \<notin> set (F k)"
    and phy: "phys_to_virt_pm phy = faddr s n"
  shows "\<exists>st' s'. kbud_push st sp phy (of_nat k) = Some (st', True) \<and> get_slave st' sp = Some s' \<and>
    region_inv st' s' R (F(k := n # F k)) \<and> same_geom s s' \<and> same_mem st st'"
proof -
  note hb = held_bounds [OF i h] and iv = region_invD [OF i]
  have k: "k < 11" "k \<le> 10" using h by (auto simp: held_def)
  have pe: "phy = virt_to_phys_pm (faddr s n)" by (simp flip: phy)
  have pf: "kbud_pfnum phy s = of_nat n" unfolding pe by (rule faddr_pfn [OF iv(1) hb(1)])
  have c: "buddy_bit_chk s (kbud_pfnum phy s) (of_nat k) = Some True"
    unfolding pf by (rule chk_frame [OF iv(1) hb(1) hb(3)])
  have nf: "phys_to_virt_pm phy \<notin> set (map (faddr s) (F j))" if "j < 11" for j
    unfolding phy using map_in_faddr [OF i that hb(1)] held_notin [OF h that, of n] by simp
  have n64: "n < 2 ^ 64" using geom_frames [OF iv(1) hb(1)] by simp
  from kbud_push_spec [OF s iv(3) iv(2) c, unfolded phy, OF iv(6) [OF hb(2)] nf [unfolded phy]]
  obtain st' s' where r: "kbud_push st sp phy (of_nat k) = Some (st', True)" "get_slave st' sp = Some s'"
    "lists_ok st' s' ((\<lambda>j. map (faddr s) (F j))(k := faddr s n # map (faddr s) (F k)))" "bits_ok s'" "same_geom s s'"
    "same_mem st st'" "\<forall>j i. pair_bit s' j i = (if j = k \<and> i = n div 2 ^ (k + 1) then True else pair_bit s j i)"
    by (auto simp: uk10 [OF k(2)] pf pair_idx_nat [OF n64])
  have "region_inv st' s' R (F(k := n # F k))"
  proof (rule inv_change [OF i r(5,6,4)])
    show "lists_ok st' s' (\<lambda>j. map (faddr s) ((F(k := n # F k)) j))" using r(3) by (simp only: map_upd append_Nil list.map)
    show "blocks_ok (unat (total_pages s)) (F(k := n # F k))"
      using h by (intro blocks_ok_add iv(4)) (auto simp: held_def)
    show "pairs_ok s' R (F(k := n # F k))"
      using nb k by (intro pairs_ok_add [OF iv(5) hb(4) hb(1) _ k(2) r(7)]) linarith
  qed
  with r show ?thesis by blast
qed

lemma pop_inv:
  assumes s: "get_slave st sp = Some s" and i: "region_inv st s R F" and k: "k < 11"
    and F: "F k = xs @ n # ys" and phy: "phys_to_virt_pm phy = faddr s n"
  shows "\<exists>st' s'. kbud_pop st sp phy (of_nat k) = Some (st', True) \<and> get_slave st' sp = Some s' \<and>
    region_inv st' s' R (F(k := xs @ ys)) \<and> same_geom s s' \<and> same_mem st st' \<and>
    \<not> pair_bit s' k (n div 2 ^ (k + 1))"
proof -
  have nin: "n \<in> set (F k)" using F by simp
  note bb = block_bounds [OF i k nin] and iv = region_invD [OF i]
  have k10: "k \<le> 10" using k by simp
  have pe: "phy = virt_to_phys_pm (faddr s n)" by (simp flip: phy)
  have pf: "kbud_pfnum phy s = of_nat n" unfolding pe by (rule faddr_pfn [OF iv(1) bb(3)])
  have c: "buddy_bit_chk s (kbud_pfnum phy s) (of_nat k) = Some True"
    unfolding pf by (rule chk_frame [OF iv(1) bb(3) k10])
  have n64: "n < 2 ^ 64" using geom_frames [OF iv(1) bb(3)] by simp
  have F': "map (faddr s) (F (unat (of_nat k :: u32))) = map (faddr s) xs @ phys_to_virt_pm phy # map (faddr s) ys"
    by (simp add: uk10 [OF k10] F phy)
  have "length (map (faddr s) (F (unat (of_nat k :: u32)))) < 2 ^ 64"
    using list_length [OF i k] by (simp add: uk10 [OF k10])
  from kbud_pop_spec [OF s iv(3) iv(2) F' this c]
  obtain st' s' where r: "kbud_pop st sp phy (of_nat k) = Some (st', True)" "get_slave st' sp = Some s'"
    "lists_ok st' s' ((\<lambda>j. map (faddr s) (F j))(k := map (faddr s) (xs @ ys)))" "bits_ok s'" "same_geom s s'"
    "same_mem st st'" "\<forall>j i. pair_bit s' j i = (if j = k \<and> i = n div 2 ^ (k + 1) then False else pair_bit s j i)"
    by (auto simp: uk10 [OF k10] pf pair_idx_nat [OF n64])
  have "region_inv st' s' R (F(k := xs @ ys))"
  proof (rule inv_change [OF i r(5,6,4)])
    show "lists_ok st' s' (\<lambda>j. map (faddr s) ((F(k := xs @ ys)) j))" using r(3) by (simp only: map_upd append_Nil list.map)
    show "blocks_ok (unat (total_pages s)) (F(k := xs @ ys))" by (rule blocks_ok_remove [OF iv(4) F])
    show "pairs_ok s' R (F(k := xs @ ys))"
      by (rule pairs_ok_remove [OF iv(5) bb(1,3) k10 F list_distinct [OF i k] r(7)])
  qed
  with r show ?thesis by auto
qed

lemma pop_head_inv:
  assumes s: "get_slave st sp = Some s" and i: "region_inv st s R F" and k: "k < 11" and F: "F k = n # ys"
  shows "\<exists>st' s'. kbud_pop_head st sp (of_nat k) = Some (st', faddr s n) \<and> get_slave st' sp = Some s' \<and>
    region_inv st' s' R (F(k := ys)) \<and> same_geom s s' \<and> same_mem st st'"
proof -
  have nin: "n \<in> set (F k)" using F by simp
  note bb = block_bounds [OF i k nin] and iv = region_invD [OF i]
  have k10: "k \<le> 10" using k by simp
  have pf: "kbud_pfnum (virt_to_phys_pm (faddr s n)) s = of_nat n" by (rule faddr_pfn [OF iv(1) bb(3)])
  have c: "buddy_bit_chk s (kbud_pfnum (virt_to_phys_pm (faddr s n)) s) (of_nat k) = Some True"
    unfolding pf by (rule chk_frame [OF iv(1) bb(3) k10])
  have n64: "n < 2 ^ 64" using geom_frames [OF iv(1) bb(3)] by simp
  have F': "map (faddr s) (F (unat (of_nat k :: u32))) = faddr s n # map (faddr s) ys"
    by (simp add: uk10 [OF k10] F)
  from kbud_pop_head_spec [OF s iv(3) iv(2) F' c]
  obtain st' s' where r: "kbud_pop_head st sp (of_nat k) = Some (st', faddr s n)" "get_slave st' sp = Some s'"
    "lists_ok st' s' ((\<lambda>j. map (faddr s) (F j))(k := map (faddr s) ys))" "bits_ok s'" "same_geom s s'"
    "same_mem st st'" "\<forall>j i. pair_bit s' j i = (if j = k \<and> i = n div 2 ^ (k + 1) then False else pair_bit s j i)"
    by (auto simp: uk10 [OF k10] pf pair_idx_nat [OF n64])
  have F0: "F k = [] @ n # ys" using F by simp
  have "region_inv st' s' R (F(k := [] @ ys))"
  proof (rule inv_change [OF i r(5,6,4)])
    show "lists_ok st' s' (\<lambda>j. map (faddr s) ((F(k := [] @ ys)) j))" using r(3) by (simp only: map_upd append_Nil list.map)
    show "blocks_ok (unat (total_pages s)) (F(k := [] @ ys))" by (rule blocks_ok_remove [OF iv(4) F0])
    show "pairs_ok s' R (F(k := [] @ ys))"
      by (rule pairs_ok_remove [OF iv(5) bb(1,3) k10 F0 list_distinct [OF i k] r(7)])
  qed
  with r show ?thesis by auto
qed

section \<open>Splitting\<close>

lemma fr_halves: "fr (j + 1) n = fr j n \<union> fr j (n + 2 ^ j)"
  by (auto simp: fr_def)

lemma held_half:
  assumes h: "held s F (j + 1) n"
  shows "held s F j n" "held s F j (n + 2 ^ j)" "bud j (n + 2 ^ j) = n" "2 ^ (j + 1) dvd n"
proof -
  have d: "2 ^ (j + 1) dvd n" "j + 1 < 11" using h by (auto simp: held_def)
  then have d': "2 ^ j dvd n" by (meson dvd_trans le_imp_power_dvd le_add1)
  show "held s F j n" "held s F j (n + 2 ^ j)"
    using h d d' fr_halves [of j n] by (auto simp: held_def)
  have "\<not> 2 ^ (j + 1) dvd n + 2 ^ j" using d(1) by (simp add: dvd_add_right_iff)
  then show "bud j (n + 2 ^ j) = n" by (simp add: bud_def)
  show "2 ^ (j + 1) dvd n" by fact
qed

lemma held_add:
  assumes "held s F j n" "fr j n \<inter> fr i m = {}" "i < 11"
  shows "held s (F(i := m # F i)) j n"
  using assms by (auto simp: held_def free_frames_add)

lemma held_geom: "same_geom s s' \<Longrightarrow> held s' F k n = held s F k n"
  by (simp add: held_def same_geom_def)

lemma split_inv:
  assumes "get_slave st sp = Some s" "region_inv st s R F" "held s F (req + d) n"
  shows "\<exists>st' s' F'. split_loop d st sp (faddr s n) (of_nat (req + d)) = Some st' \<and>
    get_slave st' sp = Some s' \<and> region_inv st' s' R F' \<and> same_geom s s' \<and> same_mem st st' \<and>
    held s' F' req n \<and> free_frames F' \<union> fr req n = free_frames F \<union> fr (req + d) n"
  using assms
proof (induction d arbitrary: st s F)
  case 0
  then show ?case by auto
next
  case (Suc d)
  let ?j = "req + d"
  have h: "held s F (?j + 1) n" using Suc.prems(3) by simp
  note hh = held_half [OF h] and iv = region_invD [OF Suc.prems(2)]
  have j: "?j \<le> 9" using h by (simp add: held_def)
  have nR: "n < R" by (rule held_bounds(1) [OF Suc.prems(2) hh(1)])
  have w: "virt_to_phys_pm (faddr s n) XOR push_bit ?j PAGESIZE = mbase s + of_nat (4096 * (n + 2 ^ ?j))"
    by (rule split_word [OF iv(1) nR hh(4) j])
  have phy: "phys_to_virt_pm (mbase s + of_nat (4096 * (n + 2 ^ ?j))) = faddr s (n + 2 ^ ?j)"
    by (simp add: faddr_def)
  have nb: "bud ?j (n + 2 ^ ?j) \<notin> set (F ?j)"
    unfolding hh(3) using held_notin [OF hh(1), of ?j n] j by simp
  from push_inv [OF Suc.prems(1,2) hh(2) nb phy] obtain st1 s1 where
    p: "kbud_push st sp (mbase s + of_nat (4096 * (n + 2 ^ ?j))) (of_nat ?j) = Some (st1, True)"
    "get_slave st1 sp = Some s1" "region_inv st1 s1 R (F(?j := (n + 2 ^ ?j) # F ?j))" "same_geom s s1" "same_mem st st1"
    by blast
  let ?F = "F(?j := (n + 2 ^ ?j) # F ?j)"
  have dj: "fr ?j n \<inter> fr ?j (n + 2 ^ ?j) = {}" by (auto simp: fr_def)
  have "held s1 ?F ?j n" unfolding held_geom [OF p(4)] using j by (intro held_add [OF hh(1) dj]) simp
  from Suc.IH [OF p(2,3) this] obtain st' s' F' where
    r: "split_loop d st1 sp (faddr s1 n) (of_nat ?j) = Some st'" "get_slave st' sp = Some s'"
    "region_inv st' s' R F'" "same_geom s1 s'" "same_mem st1 st'" "held s' F' req n"
    "free_frames F' \<union> fr req n = free_frames ?F \<union> fr ?j n" by blast
  have u: "unat (of_nat ?j :: u32) = ?j" using j by (intro uk10) simp
  have o: "of_nat (req + Suc d) - 1 = (of_nat ?j :: u32)" by simp
  have "split_loop (Suc d) st sp (faddr s n) (of_nat (req + Suc d)) = Some st'"
    using r(1) p(1) w unfolding split_loop.simps o Let_def u by (simp add: faddr_same [OF p(4)])
  moreover have "free_frames F' \<union> fr req n = free_frames F \<union> fr (req + Suc d) n"
    using r(7) fr_halves [of ?j n] j by (auto simp: free_frames_add)
  ultimately show ?case
    using r same_geom_trans [OF p(4) r(4)] same_mem_trans [OF p(5) r(5)] by blast
qed

section \<open>The search for an order\<close>

lemma cnt_zero:
  assumes i: "region_inv st s R F" and k: "k < 11"
  shows "order_blk_cnt s ! k = 0 \<longleftrightarrow> F k = []" "length (order_blk_cnt s) = 11"
proof -
  have "order_blk_cnt s ! k = of_nat (length (F k))"
    using lists_ok_nth(2) [OF region_invD(3) [OF i] k] by simp
  then show "order_blk_cnt s ! k = 0 \<longleftrightarrow> F k = []"
    using of_nat_zero [of "length (F k)"] list_length [OF i k] by simp
  show "length (order_blk_cnt s) = 11" using lists_ok_nth(5) [OF region_invD(3) [OF i] k] .
qed

lemma find_order_spec:
  assumes i: "region_inv st s R F"
  shows "r \<le> 10 \<Longrightarrow> n = 11 - r \<Longrightarrow> \<exists>k. find_order n s (of_nat r) = Some (of_nat k) \<and> r \<le> k \<and> k \<le> 10 \<and>
    (\<forall>j. r \<le> j \<and> j < k \<longrightarrow> F j = []) \<and> (F k \<noteq> [] \<or> k = 10)"
proof (induction n arbitrary: r)
  case 0
  then show ?case by simp
next
  case (Suc n)
  have u: "unat (of_nat r :: u32) = r" using Suc.prems(1) by (rule uk10)
  have mo: "max_order s = 10" using region_invD(1) [OF i] by (simp add: geom_def)
  have lt: "(of_nat r :: u32) < max_order s \<longleftrightarrow> r < 10" by (simp add: mo word_less_nat_alt u)
  note cz = cnt_zero [OF i, of r]
  show ?case
  proof (cases "F r = [] \<and> r < 10")
    case True
    have "r + 1 \<le> 10" "n = 11 - (r + 1)" using True Suc.prems by auto
    from Suc.IH [OF this] obtain k where
      "find_order n s (of_nat (r + 1)) = Some (of_nat k)" "r + 1 \<le> k" "k \<le> 10"
      "\<forall>j. r + 1 \<le> j \<and> j < k \<longrightarrow> F j = []" "F k \<noteq> [] \<or> k = 10" by blast
    with True cz Suc.prems(1) u lt show ?thesis
      by (intro exI [of _ k]) (auto simp: add.commute le_eq_less_or_eq [of r])
  next
    case False
    with cz Suc.prems(1) u lt show ?thesis by (intro exI [of _ r]) auto
  qed
qed

section \<open>Allocation from a region\<close>

lemma pop_head_empty:
  assumes s: "get_slave st sp = Some s" and i: "region_inv st s R F" and k: "k \<le> 10" and F: "F k = []"
  shows "kbud_pop_head st sp (of_nat k) = Some (st, KPAGE_ERR)"
proof -
  have k': "k < 11" using k by simp
  have "sb_free s ! k = 0" "length (sb_free s) = 11"
    using lists_ok_nth(1,4) [OF region_invD(3) [OF i] k'] F by auto
  then show ?thesis
    using chk_null [OF region_invD(1) [OF i] k] s k by (simp add: kbud_pop_head_def uk10)
qed

lemma faddr_ok:
  assumes g: "geom s R" and n: "n < R"
  shows "faddr s n \<noteq> KPAGE_ERR" "faddr s n \<noteq> 0"
proof -
  have "unat (virt_to_phys_pm (faddr s n)) < 2 ^ 46"
    using unat_frame [OF g] n g by (simp add: faddr_def geom_def)
  then show "faddr s n \<noteq> KPAGE_ERR" "faddr s n \<noteq> 0"
    by (auto simp: virt_to_phys_pm_def get_kernel_phmap_def KERNEL_PHMMAP_def KPAGE_ERR_def)
qed

lemma ord_word: "k \<le> 10 \<Longrightarrow> r \<le> k \<Longrightarrow> \<not> (of_nat k :: u32) < of_nat r \<and> (of_nat k :: u32) \<noteq> PFRAME_MAX_ORDER \<and>
    unat ((of_nat k :: u32) - of_nat r) = k - r \<and> unat (PFRAME_MAX_ORDER - (of_nat r :: u32)) = 11 - r"
proof -
  assume a: "k \<le> 10" "r \<le> k"
  have u: "unat (of_nat k :: u32) = k" "unat (of_nat r :: u32) = r" using a by (auto intro!: uk10)
  have m: "unat PFRAME_MAX_ORDER = 11" by (simp add: PFRAME_MAX_ORDER_def)
  have "(of_nat r :: u32) \<le> of_nat k" "(of_nat r :: u32) \<le> PFRAME_MAX_ORDER"
    using a u m by (auto simp: word_le_nat_alt)
  then show ?thesis using a u m by (auto simp: unat_sub word_less_nat_alt)
qed

lemma alloc_region_empty:
  assumes s: "get_slave st sp = Some s" and i: "region_inv st s R F" and r: "r \<le> 10" and e: "sp \<noteq> KPAGE_ERR"
    and F: "\<forall>j. r \<le> j \<and> j \<le> 10 \<longrightarrow> F j = []"
  shows "alloc_in_region st sp (of_nat r) = Some (st, None)"
proof -
  from find_order_spec [OF i r refl] obtain k where k: "find_order (11 - r) s (of_nat r) = Some (of_nat k)"
    "r \<le> k" "k \<le> 10" by blast
  with F have "F k = []" by simp
  from pop_head_empty [OF s i k(3) this] k ord_word [OF k(3,2)] s e show ?thesis
    by (simp add: alloc_in_region_def)
qed

lemma alloc_region_some:
  assumes s: "get_slave st sp = Some s" and i: "region_inv st s R F" and r: "r \<le> 10" and e: "sp \<noteq> KPAGE_ERR"
    and F: "r \<le> j" "j \<le> 10" "F j \<noteq> []"
  shows "\<exists>st' s' F' n. alloc_in_region st sp (of_nat r) = Some (st', Some (faddr s n)) \<and>
    get_slave st' sp = Some s' \<and> region_inv st' s' R F' \<and> same_geom s s' \<and> same_mem st st' \<and>
    held s' F' r n \<and> free_frames F' \<union> fr r n = free_frames F"
proof -
  from find_order_spec [OF i r refl] obtain k where k: "find_order (11 - r) s (of_nat r) = Some (of_nat k)"
    "r \<le> k" "k \<le> 10" "\<forall>j. r \<le> j \<and> j < k \<longrightarrow> F j = []" "F k \<noteq> [] \<or> k = 10" by blast
  have "F k \<noteq> []"
  proof
    assume "F k = []"
    with k(5) have "k = 10" by simp
    with F k(4) \<open>F k = []\<close> show False by (cases "j = 10") auto
  qed
  then obtain n ys where n: "F k = n # ys" by (cases "F k") auto
  have k11: "k < 11" using k(3) by simp
  from pop_head_inv [OF s i k11 n] obtain st1 s1 where
    p: "kbud_pop_head st sp (of_nat k) = Some (st1, faddr s n)" "get_slave st1 sp = Some s1"
    "region_inv st1 s1 R (F(k := ys))" "same_geom s s1" "same_mem st st1" by blast
  have nin: "n \<in> set (F k)" using n by simp
  note bb = block_bounds [OF i k11 nin]
  have F0: "F k = [] @ n # ys" using n by simp
  note sp = free_frames_split [OF region_invD(4) [OF i] k11 F0 list_distinct [OF i k11], simplified]
  have "held s1 (F(k := ys)) (r + (k - r)) n"
    unfolding held_geom [OF p(4)] using bb k11 sp(2) k(2) by (simp add: held_def)
  from split_inv [OF p(2,3) this] obtain st' s' F' where
    q: "split_loop (k - r) st1 sp (faddr s1 n) (of_nat (r + (k - r))) = Some st'" "get_slave st' sp = Some s'"
    "region_inv st' s' R F'" "same_geom s1 s'" "same_mem st1 st'" "held s' F' r n"
    "free_frames F' \<union> fr r n = free_frames (F(k := ys)) \<union> fr (r + (k - r)) n" by blast
  have "alloc_in_region st sp (of_nat r) = Some (st', Some (faddr s n))"
    using k(1,2) p(1) q(1) ord_word [OF k(3,2)] s e faddr_ok(1) [OF region_invD(1) [OF i] bb(3)]
      faddr_same [OF p(4)] by (simp add: alloc_in_region_def)
  moreover have "free_frames F' \<union> fr r n = free_frames F" using q(7) sp(1) k(2) by simp
  ultimately show ?thesis
    using q same_geom_trans [OF p(4) q(4)] same_mem_trans [OF p(5) q(5)] by blast
qed

section \<open>Freeing\<close>

lemma bit_get_inv:
  assumes i: "region_inv st s R F" and h: "held s F k n" and k: "k < 10" and b: "bud k n < R"
  shows "buddy_bit_chk s (of_nat (bud k n)) (of_nat k) = Some True"
    "buddy_bit_get s (of_nat (bud k n)) (of_nat k) = Some (bud k n \<in> set (F k))"
proof -
  note hb = held_bounds [OF i h] and iv = region_invD [OF i]
  have k10: "k \<le> 10" using k by simp
  show c: "buddy_bit_chk s (of_nat (bud k n)) (of_nat k) = Some True"
    by (rule chk_frame [OF iv(1) b k10])
  have n64: "bud k n < 2 ^ 64" using geom_frames [OF iv(1) b] by simp
  have "bud k n div 2 ^ (k + 1) = n div 2 ^ (k + 1)"
    using same_pair [OF bud_dvd [OF hb(4)] hb(4)] by simp
  moreover have "n \<notin> set (F k)" using held_notin [OF h, of k n] k by simp
  ultimately have "pair_bit s k (bud k n div 2 ^ (k + 1)) = (bud k n \<in> set (F k))"
    using iv(5) [unfolded pairs_ok_def, rule_format, OF k hb(1,4)] by simp
  then show "buddy_bit_get s (of_nat (bud k n)) (of_nat k) = Some (bud k n \<in> set (F k))"
    using bit_get_chk [OF iv(2) c] by (simp add: uk10 [OF k10] pair_idx_nat [OF n64])
qed

lemma clr_inv:
  assumes s: "get_slave st sp = Some s" and i: "region_inv st s R F"
    and b: "m < R" "k \<le> 10" "\<not> pair_bit s k (m div 2 ^ (k + 1))"
  shows "\<exists>s'. buddy_bit_clr s (of_nat m) (of_nat k) = Some s' \<and> same_geom s s' \<and>
    region_inv (put_slave st sp s') s' R F"
proof -
  note iv = region_invD [OF i]
  have c: "buddy_bit_chk s (of_nat m) (of_nat k) = Some True" by (rule chk_frame [OF iv(1) b(1,2)])
  have m64: "m < 2 ^ 64" using geom_frames [OF iv(1) b(1)] by simp
  from bit_clr_chk [OF iv(2) c] obtain s' where r: "buddy_bit_clr s (of_nat m) (of_nat k) = Some s'" "bits_ok s'"
    "same_geom s s'" "sb_free s' = sb_free s" "order_blk_cnt s' = order_blk_cnt s"
    "\<forall>j i. pair_bit s' j i = (if j = k \<and> i = m div 2 ^ (k + 1) then False else pair_bit s j i)"
    by (auto simp: uk10 [OF b(2)] pair_idx_nat [OF m64])
  have pb: "pair_bit s' = pair_bit s" using r(6) b(3) by (auto simp: fun_eq_iff)
  have "region_inv (put_slave st sp s') s' R F"
  proof (rule inv_change [OF i r(3) _ r(2) _ iv(4)])
    show "same_mem st (put_slave st sp s')" by simp
    show "lists_ok (put_slave st sp s') s' (\<lambda>k. map (faddr s) (F k))"
      using iv(3) r(4,5) by (simp add: lists_ok_def)
    show "pairs_ok s' R F" using iv(5) by (simp add: pairs_ok_def pb)
  qed
  with r show ?thesis by blast
qed

lemma held_merge:
  assumes i: "region_inv st s R F" and h: "held s F k n" and k: "k < 10"
    and F: "F k = xs @ bud k n # ys"
  shows "held s (F(k := xs @ ys)) (k + 1) (min n (bud k n))"
    "free_frames (F(k := xs @ ys)) \<union> fr (k + 1) (min n (bud k n)) = free_frames F \<union> fr k n"
proof -
  have k11: "k < 11" and k10: "k \<le> 10" using k by auto
  note hb = held_bounds [OF i h] and iv = region_invD [OF i]
  have bin: "bud k n \<in> set (F k)" using F by simp
  note bb = block_bounds [OF i k11 bin]
  note sp = free_frames_split [OF iv(4) k11 F list_distinct [OF i k11]]
  have u: "fr (k + 1) (min n (bud k n)) = fr k n \<union> fr k (bud k n)" using bud_union [OF hb(4)] by simp
  have d: "2 ^ (k + 1) dvd min n (bud k n)" by (rule bud_min_dvd [OF hb(4)])
  have "min n (bud k n) + 2 ^ (k + 1) \<le> unat (total_pages s)"
    using hb(4) by (rule bud_cases) (use h bb(2) in \<open>auto simp: held_def\<close>)
  then show "held s (F(k := xs @ ys)) (k + 1) (min n (bud k n))"
    using h d k sp unfolding held_def u by auto
  show "free_frames (F(k := xs @ ys)) \<union> fr (k + 1) (min n (bud k n)) = free_frames F \<union> fr k n"
    using sp(1) unfolding u by auto
qed

definition merged :: "nat \<Rightarrow> nat \<Rightarrow> (nat \<Rightarrow> nat list) \<Rightarrow> bool" where
  "merged k n F \<longleftrightarrow> (k < 10 \<longrightarrow> bud k n \<notin> set (F k))"

lemma free_merge_inv:
  assumes "get_slave st sp = Some s" "region_inv st s R F" "held s F k n" "d = 10 - k"
  shows "\<exists>st' s' F' k' n'. free_merge d st sp (of_nat n) (of_nat k) = Some (st', of_nat n', of_nat k') \<and>
    get_slave st' sp = Some s' \<and> region_inv st' s' R F' \<and> same_geom s s' \<and> same_mem st st' \<and>
    held s' F' k' n' \<and> merged k' n' F' \<and> free_frames F' \<union> fr k' n' = free_frames F \<union> fr k n"
  using assms
proof (induction d arbitrary: st s F k n)
  case 0
  then show ?case by (intro exI [of _ st] exI [of _ s] exI [of _ F] exI [of _ k] exI [of _ n]) (simp add: merged_def)
next
  case (Suc d)
  let ?b = "bud k n"
  have k: "k < 10" "k \<le> 10" "k < 11" using Suc.prems(4) by auto
  note hb = held_bounds [OF Suc.prems(2,3)] and iv = region_invD [OF Suc.prems(2)]
  have n34: "n < 2 ^ 34" by (rule geom_frames [OF iv(1) hb(1)])
  note u = uk10 [OF k(2)] and w = bud_word [OF hb(4) n34 k(2), unfolded push_bit_eq_mult mult_1]
  have "?b \<le> n + 2 ^ k" unfolding bud_def by (auto intro: le_trans [OF diff_le_self])
  moreover have "(2 :: nat) ^ k \<le> 2 ^ 10" using k(2) by (intro power_increasing) auto
  ultimately have ub: "unat (of_nat ?b :: u64) = ?b" using n34 by (intro unat_of_nat64) simp
  have stop: ?case if "merged k n F" "free_merge (Suc d) st sp (of_nat n) (of_nat k) = Some (st, of_nat n, of_nat k)"
    using that Suc.prems by (intro exI [of _ st] exI [of _ s] exI [of _ F] exI [of _ k] exI [of _ n]) simp
  show ?case
  proof (cases "?b < unat (total_pages s)")
    case False
    then have "total_pages s \<le> of_nat ?b" using ub by (simp add: word_le_nat_alt)
    moreover have "?b \<notin> set (F k)" using False block_bounds(4) [OF Suc.prems(2) k(3)] by blast
    ultimately show ?thesis using Suc.prems(1) by (intro stop) (auto simp: merged_def Let_def u w)
  next
    case True
    then have lt: "\<not> total_pages s \<le> of_nat ?b" using ub by (simp add: word_le_nat_alt)
    have bR: "?b < R" using True iv(1) by (simp add: geom_def)
    note bg = bit_get_inv [OF Suc.prems(2,3) k(1) bR]
    show ?thesis
    proof (cases "?b \<in> set (F k)")
      case False
      then show ?thesis using Suc.prems(1) bg lt by (intro stop) (auto simp: merged_def Let_def u w)
    next
      case bin: True
      then obtain xs ys where F: "F k = xs @ ?b # ys" by (meson split_list)
      have phy: "phys_to_virt_pm (mbase s + push_bit 12 (of_nat ?b)) = faddr s ?b"
        by (simp add: faddr_def push_bit_eq_mult mult.commute)
      let ?F = "F(k := xs @ ys)"
      from pop_inv [OF Suc.prems(1,2) k(3) F phy] obtain st1 s1 where
        p: "kbud_pop st sp (mbase s + push_bit 12 (of_nat ?b)) (of_nat k) = Some (st1, True)"
        "get_slave st1 sp = Some s1" "region_inv st1 s1 R ?F" "same_geom s s1" "same_mem st st1"
        "\<not> pair_bit s1 k (?b div 2 ^ (k + 1))" by blast
      from clr_inv [OF p(2,3) bR k(2) p(6)] obtain s2 where
        c: "buddy_bit_clr s1 (of_nat ?b) (of_nat k) = Some s2" "same_geom s1 s2"
        "region_inv (put_slave st1 sp s2) s2 R ?F" by blast
      note hm = held_merge [OF Suc.prems(2,3) k(1) F]
      have g2: "same_geom s s2" by (rule same_geom_trans [OF p(4) c(2)])
      have s2: "get_slave (put_slave st1 sp s2) sp = Some s2" using slave_nonnull [OF p(2)] by simp
      have h2: "held s2 ?F (k + 1) (min n ?b)" unfolding held_geom [OF g2] by (rule hm(1))
      have d: "d = 10 - (k + 1)" using Suc.prems(4) by simp
      from Suc.IH [OF s2 c(3) h2 d] obtain st' s' F' k' n' where
        r: "free_merge d (put_slave st1 sp s2) sp (of_nat (min n ?b)) (of_nat (k + 1)) = Some (st', of_nat n', of_nat k')"
        "get_slave st' sp = Some s'" "region_inv st' s' R F'" "same_geom s2 s'" "same_mem (put_slave st1 sp s2) st'"
        "held s' F' k' n'" "merged k' n' F'" "free_frames F' \<union> fr k' n' = free_frames ?F \<union> fr (k + 1) (min n ?b)"
        by blast
      have "free_merge (Suc d) st sp (of_nat n) (of_nat k) = Some (st', of_nat n', of_nat k')"
        using Suc.prems(1) lt bg bin p(1,2) c(1) r(1) by (simp add: Let_def u w add.commute)
      moreover have "same_mem st st'" using p(5) r(5) by (auto simp: same_mem_def)
      ultimately show ?thesis
        using r(2,3,6,7) same_geom_trans [OF g2 r(4)] r(8) [unfolded hm(2)] by blast
    qed
  qed
qed

lemma kbud_free_inv:
  assumes s: "get_slave st sp = Some s" and i: "region_inv st s R F" and h: "held s F k n"
    and v: "find_valid_slave st (virt_to_phys_pm (faddr s n)) = Some sp" "sp \<noteq> KPAGE_ERR"
  shows "\<exists>st' s' F'. kbud_free st (faddr s n) (of_nat k) = Some st' \<and> get_slave st' sp = Some s' \<and>
    region_inv st' s' R F' \<and> same_geom s s' \<and> same_mem st st' \<and> free_frames F' = free_frames F \<union> fr k n"
proof -
  note hb = held_bounds [OF i h] and iv = region_invD [OF i]
  from free_merge_inv [OF s i h refl] obtain st1 s1 F1 k1 n1 where
    m: "free_merge (10 - k) st sp (of_nat n) (of_nat k) = Some (st1, of_nat n1, of_nat k1)"
    "get_slave st1 sp = Some s1" "region_inv st1 s1 R F1" "same_geom s s1" "same_mem st st1"
    "held s1 F1 k1 n1" "merged k1 n1 F1" "free_frames F1 \<union> fr k1 n1 = free_frames F \<union> fr k n" by blast
  have k1: "k1 < 11" using m(6) by (simp add: held_def)
  have phy: "phys_to_virt_pm (mbase s1 + push_bit 12 (of_nat n1)) = faddr s1 n1"
    by (simp add: faddr_def push_bit_eq_mult mult.commute)
  have nb: "k1 < 10 \<Longrightarrow> bud k1 n1 \<notin> set (F1 k1)" using m(7) by (simp add: merged_def)
  from push_inv [OF m(2,3,6) nb phy] obtain st' s' where
    p: "kbud_push st1 sp (mbase s1 + push_bit 12 (of_nat n1)) (of_nat k1) = Some (st', True)"
    "get_slave st' sp = Some s'" "region_inv st' s' R (F1(k1 := n1 # F1 k1))" "same_geom s1 s'" "same_mem st1 st'"
    by blast
  have "kbud_free st (faddr s n) (of_nat k) = Some st'"
    using v s m(1,2) p(1) faddr_pfn [OF iv(1) hb(1)] uk10 [OF hb(3)] by (simp add: kbud_free_def)
  moreover have "free_frames (F1(k1 := n1 # F1 k1)) = free_frames F \<union> fr k n"
    using m(8) k1 by (simp add: free_frames_add)
  ultimately show ?thesis
    using p same_geom_trans [OF m(4) p(4)] same_mem_trans [OF m(5) p(5)] by blast
qed

end
