(* ===== verification/BuddyProps.thy ===== *)
theory BuddyProps
  imports BuddyInv
begin

text \<open>
  Properties of the page allocator: allocation and freeing keep the region invariant and account for
  every page; the region array stays sorted and its search finds the owner; the order of a size is
  the least sufficient one. Two runs from a fresh memory show what happens for regions outside the
  invariant: a frame handed out twice where \<open>mbase\<close> is not aligned (in general in \<^theory_text>\<open>BuddyBase\<close>), and a block lost at the top order.
\<close>

section \<open>A fresh region\<close>

lemma fresh_inv:
  assumes g: "geom s R" and b: "bits_ok s" and z: "\<forall>k<11. \<forall>x \<in> set (bitmap_arr s ! k). x = 0"
    and f: "sb_free s = replicate 11 0" "order_blk_cnt s = replicate 11 0"
    and m: "\<And>n. n < unat (total_pages s) \<Longrightarrow> get_frame st (faddr s n) \<noteq> None"
  shows "region_inv st s R (\<lambda>_. [])"
proof -
  have "\<not> pair_bit s k (n div 2 ^ (k + 1))" if k: "k < 10" and n: "n < R" for k n
  proof -
    have k': "k \<le> 10" "k < 11" using k by auto
    have "n div 2 ^ (k + 1) < unat (maxbits s ! k)"
    proof -
      have "(2 :: nat) ^ (k + 1) dvd 2 ^ 11" using k by (intro le_imp_power_dvd) simp
      then have "2 ^ (k + 1) dvd R" using g by (meson dvd_trans geom_def)
      with n have "n div 2 ^ (k + 1) < R div 2 ^ (k + 1)" by (intro div_less_aligned) auto
      moreover have "unat (maxbits s ! k) = R div 2 ^ (k + 1)" using g k' unfolding geom_def by blast
      ultimately show ?thesis by simp
    qed
    moreover have "unat (maxbits s ! k) \<le> 8 * length (bitmap_arr s ! k)"
    proof -
      have "k \<le> unat (max_order s)" using g k' by (simp add: geom_def)
      then show ?thesis using b unfolding bits_ok_def by blast
    qed
    ultimately have "n div 2 ^ (k + 1) div 8 < length (bitmap_arr s ! k)" by linarith
    then have "bitmap_arr s ! k ! (n div 2 ^ (k + 1) div 8) = 0" using z k' by (metis nth_mem)
    then show ?thesis by (simp add: pair_bit_def)
  qed
  then have "pairs_ok s R (\<lambda>_. [])" by (auto simp: pairs_ok_def)
  then show ?thesis using g b f m by (simp add: region_inv_def lists_ok_def blocks_ok_def)
qed

section \<open>A memory with one region\<close>

text \<open>256 MiB of mapped frames; one region of 2048 pages whose first page holds the header.\<close>

definition boot_mem :: kbuddy where
  "boot_mem = \<lparr>frames = (\<lambda>p. if virt_to_phys_pm p < 0x10000000 then Some \<lparr>pf_next = 0, pf_cache = 0, pf_order = 0\<rparr> else None),
     slaves = Map.empty, regions = replicate 128 0, region_count = 0\<rparr>"

definition demo_sp :: u64 where "demo_sp = phys_to_virt_pm 0x3FF000"
definition demo_slave :: slave_buddy where "demo_slave = kbud_init_region zero_slave 0x3FF000 0x800000"
definition demo0 :: kbuddy where "demo0 = fst (the (kbud_add_region boot_mem 0x3FF000 0x800000))"
definition demo1 :: kbuddy where "demo1 = fst (the (kbud_push demo0 demo_sp 0x400000 2))"

lemma demo_slave_vals: "max_order demo_slave = 10 \<and> mbase demo_slave = 0x400000 \<and> total_pages demo_slave = 2047 \<and>
    maxbits demo_slave = [1024, 512, 256, 128, 64, 32, 16, 8, 4, 2, 1] \<and>
    map length (bitmap_arr demo_slave) = [128, 64, 64, 64, 64, 64, 64, 64, 64, 64, 64] \<and>
    list_all (list_all (\<lambda>x. x = 0)) (bitmap_arr demo_slave) \<and>
    sb_free demo_slave = replicate 11 0 \<and> order_blk_cnt demo_slave = replicate 11 0"
  by code_simp

lemma upto_10: "(k :: nat) \<le> 10 \<longleftrightarrow> k \<in> {0, 1, 2, 3, 4, 5, 6, 7, 8, 9, 10}"
  unfolding insert_iff empty_iff by presburger

lemma demo_geom: "geom demo_slave 2048" "bits_ok demo_slave"
proof -
  note v = demo_slave_vals
  have "\<forall>k \<in> {0, 1, 2, 3, 4, 5, 6, 7, 8, 9, 10}. unat (maxbits demo_slave ! k) = 2048 div 2 ^ (k + 1)"
    using v by simp
  then show "geom demo_slave 2048" using v unfolding geom_def upto_10 by simp
  have l: "length (bitmap_arr demo_slave) = 11" using arg_cong [OF v [THEN conjunct2, THEN conjunct2, THEN conjunct2, THEN conjunct2, THEN conjunct1], of length] by simp
  have "length (bitmap_arr demo_slave ! k) = map length (bitmap_arr demo_slave) ! k" if "k \<le> 10" for k
    using that l by simp
  then have "\<forall>k \<in> {0, 1, 2, 3, 4, 5, 6, 7, 8, 9, 10}. unat (maxbits demo_slave ! k) \<le> 8 * length (bitmap_arr demo_slave ! k)"
    using v by (simp add: upto_10)
  then show "bits_ok demo_slave" using v l unfolding bits_ok_def by (simp add: upto_10)
qed

lemma demo0_vals: "demo0 = put_slave (boot_mem\<lparr>regions := demo_sp # KPAGE_ERR # replicate 126 0, region_count := 1\<rparr>) demo_sp demo_slave"
proof -
  have "\<not> (1 :: u64) > of_nat PFRAME_MAX_REGIONS" by (simp add: PFRAME_MAX_REGIONS_def)
  moreover have "replicate 128 (0 :: u64) = 0 # 0 # replicate 126 0" by (simp add: numeral_eq_Suc)
  ultimately show ?thesis
    by (simp add: demo0_def kbud_add_region_def boot_mem_def Let_def demo_sp_def demo_slave_def upd_opt_def)
qed

lemma demo_sp: "demo_sp \<noteq> 0" "demo_sp \<noteq> KPAGE_ERR"
  by (simp_all add: demo_sp_def phys_to_virt_pm_def get_kernel_phmap_def KERNEL_PHMMAP_def KPAGE_ERR_def)

lemma demo0_inv: "get_slave demo0 demo_sp = Some demo_slave" "region_inv demo0 demo_slave 2048 (\<lambda>_. [])"
proof -
  show "get_slave demo0 demo_sp = Some demo_slave" using demo_sp by (simp add: demo0_vals)
  note v = demo_slave_vals
  show "region_inv demo0 demo_slave 2048 (\<lambda>_. [])"
  proof (rule fresh_inv [OF demo_geom])
    show "\<forall>k<11. \<forall>x\<in>set (bitmap_arr demo_slave ! k). x = 0"
    proof (intro allI impI)
      fix k :: nat assume k: "k < 11"
      have "length (bitmap_arr demo_slave) = 11" using demo_geom(2) by (simp add: bits_ok_def)
      with k have "bitmap_arr demo_slave ! k \<in> set (bitmap_arr demo_slave)" by simp
      with v show "\<forall>x\<in>set (bitmap_arr demo_slave ! k). x = 0" by (auto simp: list_all_iff)
    qed
    fix n assume "n < unat (total_pages demo_slave)"
    then have n: "n < 2047" using v by simp
    have "unat (virt_to_phys_pm (faddr demo_slave n)) = 0x400000 + 4096 * n"
      using unat_frame [OF demo_geom(1), of n] n v by (simp add: faddr_def)
    then have "virt_to_phys_pm (faddr demo_slave n) < 0x10000000" using n by (simp add: word_less_nat_alt)
    moreover have "faddr demo_slave n \<noteq> 0" using faddr_ok(2) [OF demo_geom(1)] n by simp
    ultimately show "get_frame demo0 (faddr demo_slave n) \<noteq> None"
      by (simp add: demo0_vals get_frame_def put_slave_def boot_mem_def)
  qed (use v in simp_all)
qed

lemma demo1_inv:
  obtains s where "get_slave demo1 demo_sp = Some s" "region_inv demo1 s 2048 ((\<lambda>_. [])(2 := [0]))"
    "same_geom demo_slave s" "same_mem demo0 demo1"
proof -
  have h: "held demo_slave (\<lambda>_. []) 2 0"
    using demo_slave_vals by (simp add: held_def free_frames_def)
  have phy: "phys_to_virt_pm 0x400000 = faddr demo_slave 0" using demo_slave_vals by (simp add: faddr_def)
  from push_inv [OF demo0_inv h _ phy] obtain st' s' where
    "kbud_push demo0 demo_sp 0x400000 2 = Some (st', True)" "get_slave st' demo_sp = Some s'"
    "region_inv st' s' 2048 ((\<lambda>_. [])(2 := [0]))" "same_geom demo_slave s'" "same_mem demo0 st'" by auto
  then show ?thesis by (intro that) (simp_all add: demo1_def)
qed

section \<open>Allocation over the regions\<close>

text \<open>A region without a free block of order \<open>r\<close> or more; an invalid pointer is passed over.\<close>

definition exhausted :: "kbuddy \<Rightarrow> nat \<Rightarrow> u64 \<Rightarrow> bool" where
  "exhausted st r sp \<longleftrightarrow> sp = KPAGE_ERR \<or>
     (\<exists>s R F. get_slave st sp = Some s \<and> region_inv st s R F \<and> (\<forall>j. r \<le> j \<and> j \<le> 10 \<longrightarrow> F j = []))"

lemma alloc_exhausted: "exhausted st r sp \<Longrightarrow> r \<le> 10 \<Longrightarrow> alloc_in_region st sp (of_nat r) = Some (st, None)"
  unfolding exhausted_def by (elim disjE exE conjE) (simp add: alloc_in_region_def, cases "sp = KPAGE_ERR",
    simp add: alloc_in_region_def, blast intro: alloc_region_empty)

lemma alloc_loop_skip:
  assumes "r \<le> 10"
  shows "i + m \<le> length (regions st) \<Longrightarrow> (\<And>j. i \<le> j \<Longrightarrow> j < i + m \<Longrightarrow> exhausted st r (regions st ! j)) \<Longrightarrow>
    alloc_loop (m + d) i st (of_nat r) = alloc_loop d (i + m) st (of_nat r)"
proof (induction m arbitrary: i)
  case 0
  then show ?case by simp
next
  case (Suc m)
  have "alloc_in_region st (regions st ! i) (of_nat r) = Some (st, None)"
    using Suc.prems(2) [of i] by (intro alloc_exhausted assms) simp
  then have "alloc_loop (Suc m + d) i st (of_nat r) = alloc_loop (m + d) (Suc i) st (of_nat r)"
    using Suc.prems(1) by simp
  also have "\<dots> = alloc_loop d (Suc i + m) st (of_nat r)" using Suc.prems by (intro Suc.IH) auto
  finally show ?case by simp
qed

lemma req_small: "r \<le> 10 \<Longrightarrow> \<not> (of_nat r :: u32) \<ge> PFRAME_MAX_ORDER"
  by (simp add: PFRAME_MAX_ORDER_def word_le_nat_alt uk10)

lemma kbud_alloc_some:
  assumes r: "r \<le> 10" and i: "i < unat (region_count st)" "unat (region_count st) \<le> length (regions st)"
    and e: "\<forall>j<i. exhausted st r (regions st ! j)"
    and s: "regions st ! i \<noteq> KPAGE_ERR" "get_slave st (regions st ! i) = Some s" "region_inv st s R F"
    and F: "\<exists>j. r \<le> j \<and> j \<le> 10 \<and> F j \<noteq> []"
  shows "\<exists>st' s' F' n. kbud_alloc st (of_nat r) = Some (st', faddr s n) \<and>
    get_slave st' (regions st ! i) = Some s' \<and> region_inv st' s' R F' \<and>
    held s' F' r n \<and> free_frames F' \<union> fr r n = free_frames F \<and> same_mem st st'"
proof -
  from F obtain j where j: "r \<le> j" "j \<le> 10" "F j \<noteq> []" by blast
  from alloc_region_some [OF s(2,3) r s(1) j] obtain st' s' F' n where
    a: "alloc_in_region st (regions st ! i) (of_nat r) = Some (st', Some (faddr s n))"
    "get_slave st' (regions st ! i) = Some s'" "region_inv st' s' R F'" "same_mem st st'"
    "held s' F' r n" "free_frames F' \<union> fr r n = free_frames F" by blast
  define d where "d = unat (region_count st) - i - 1"
  have d: "unat (region_count st) = i + Suc d" using i by (simp add: d_def)
  have "alloc_loop (i + Suc d) 0 st (of_nat r) = alloc_loop (Suc d) (0 + i) st (of_nat r)"
    using e i by (intro alloc_loop_skip r) auto
  also have "\<dots> = Some (st', faddr s n)" using a(1) i by simp
  finally have "kbud_alloc st (of_nat r) = Some (st', faddr s n)"
    using req_small [OF r] by (simp add: kbud_alloc_def d)
  with a show ?thesis by blast
qed

lemma kbud_alloc_none:
  assumes r: "r \<le> 10" and i: "unat (region_count st) \<le> length (regions st)"
    and e: "\<forall>j < unat (region_count st). exhausted st r (regions st ! j)"
  shows "kbud_alloc st (of_nat r) = Some (st, KPAGE_ERR)"
  using alloc_loop_skip [OF r, of 0 "unat (region_count st)" st 0] e i req_small [OF r]
  by (simp add: kbud_alloc_def)

section \<open>Calls in sequence\<close>

datatype buddy_call = BAlloc u32 | BFree u64 u32

text \<open>The physical addresses that the allocations of a sequence of calls return.\<close>

primrec buddy_trace :: "kbuddy \<Rightarrow> buddy_call list \<Rightarrow> u64 list option" where
  "buddy_trace st [] = Some []"
| "buddy_trace st (c # cs) = (case c of
     BAlloc order \<Rightarrow> do {
       (st, a) \<leftarrow> kbud_alloc st order;
       out \<leftarrow> buddy_trace st cs;
       Some ((if a = KPAGE_ERR then KPAGE_ERR else virt_to_phys_pm a) # out) }
   | BFree phy order \<Rightarrow> do { st \<leftarrow> kbud_free st (phys_to_virt_pm phy) order; buddy_trace st cs })"

definition buddy_run :: "u64 \<Rightarrow> u64 \<Rightarrow> buddy_call list \<Rightarrow> u64 list option" where
  "buddy_run phy len cs = do {
     st \<leftarrow> kbud_free_range boot_mem (phys_to_virt_pm phy) len;
     buddy_trace st cs }"

lemma demo_find: "same_mem demo0 st \<Longrightarrow> get_slave st demo_sp = Some s \<Longrightarrow> same_geom demo_slave s \<Longrightarrow>
  find_valid_slave st (virt_to_phys_pm (faddr s 8)) = Some demo_sp"
proof -
  assume a: "same_mem demo0 st" "get_slave st demo_sp = Some s" "same_geom demo_slave s"
  have r: "regions st = demo_sp # KPAGE_ERR # replicate 126 0" "region_count st = 1"
    using a(1) by (simp_all add: same_mem_def demo0_vals)
  have g: "mbase s = 0x400000" "total_pages s = 2047"
    using a(3) demo_slave_vals by (simp_all add: same_geom_def)
  have p: "virt_to_phys_pm (faddr s 8) = 0x408000" by (simp add: faddr_def g)
  have "virt_to_phys_pm demo_sp = 0x3FF000" by (simp add: demo_sp_def)
  then have "find_slave_loop st 0x408000 0 0 (- 1) = Some 0"
    by (simp add: find_slave_loop.simps r)
  then show ?thesis using a(2) demo_sp(2) g r
    by (simp add: find_valid_slave_def find_buddy_slave_def PFRAME_MAX_REGIONS_def p PAGESIZE_def)
qed

section \<open>Claims\<close>

text \<open>C6. \<^verbatim>\<open>kbud_alloc\<close> serves a request of order \<open>r\<close> from the first region with a sufficient block: it
  returns the address of an aligned block of \<open>2 ^ r\<close> pages that was free, takes exactly these pages off
  the free lists, and keeps the region's invariant.\<close>

theorem kbud_alloc_correct:
  assumes "r \<le> 10" "i < unat (region_count st)" "unat (region_count st) \<le> length (regions st)"
    and "\<forall>j<i. exhausted st r (regions st ! j)"
    and "regions st ! i \<noteq> KPAGE_ERR" "get_slave st (regions st ! i) = Some s" "region_inv st s R F"
    and "\<exists>j. r \<le> j \<and> j \<le> 10 \<and> F j \<noteq> []"
  shows "\<exists>st' s' F' n. kbud_alloc st (of_nat r) = Some (st', faddr s n) \<and>
    get_slave st' (regions st ! i) = Some s' \<and> region_inv st' s' R F' \<and>
    held s' F' r n \<and> free_frames F' \<union> fr r n = free_frames F \<and> same_mem st st'"
  by (rule kbud_alloc_some [OF assms])

lemma kbud_alloc_correct_witness:
  "\<exists>st' s' s F' n. kbud_alloc demo1 0 = Some (st', faddr s n) \<and> get_slave st' demo_sp = Some s' \<and>
    held s' F' 0 n \<and> free_frames F' \<union> fr 0 n = fr 2 0"
proof (rule demo1_inv)
  fix s assume s: "get_slave demo1 demo_sp = Some s" "region_inv demo1 s 2048 ((\<lambda>_. [])(2 := [0]))"
    "same_geom demo_slave s" "same_mem demo0 demo1"
  have r: "regions demo1 = demo_sp # KPAGE_ERR # replicate 126 0" "region_count demo1 = 1"
    using s(4) by (simp_all add: same_mem_def demo0_vals)
  have "free_frames ((\<lambda>_. [])(2 := [0])) = fr 2 0" by (auto simp: free_frames_def)
  moreover have "\<exists>j :: nat. 0 \<le> j \<and> j \<le> 10 \<and> ((\<lambda>_. [])(2 := [0 :: nat])) j \<noteq> []" by (intro exI [of _ 2]) simp
  ultimately show ?thesis
    using kbud_alloc_correct [of 0 0 demo1 s 2048 "(\<lambda>_. [])(2 := [0])"] r s(1,2) demo_sp(2) by simp blast
qed

text \<open>C7. \<^verbatim>\<open>kbud_free\<close> of a block that is held returns, keeps the region's invariant (in particular no two
  free buddies remain, so merging is complete) and adds exactly the pages of the block to the free ones.\<close>

theorem kbud_free_correct:
  assumes "get_slave st sp = Some s" "region_inv st s R F" "held s F k n"
    and "find_valid_slave st (virt_to_phys_pm (faddr s n)) = Some sp" "sp \<noteq> KPAGE_ERR"
  shows "\<exists>st' s' F'. kbud_free st (faddr s n) (of_nat k) = Some st' \<and> get_slave st' sp = Some s' \<and>
    region_inv st' s' R F' \<and> same_geom s s' \<and> same_mem st st' \<and> free_frames F' = free_frames F \<union> fr k n"
  by (rule kbud_free_inv [OF assms])

lemma kbud_free_correct_witness:
  "\<exists>st' s s' F'. kbud_free demo1 (faddr s 8) 3 = Some st' \<and> get_slave st' demo_sp = Some s' \<and>
    region_inv st' s' 2048 F' \<and> free_frames F' = fr 2 0 \<union> fr 3 8"
proof (rule demo1_inv)
  fix s assume s: "get_slave demo1 demo_sp = Some s" "region_inv demo1 s 2048 ((\<lambda>_. [])(2 := [0]))"
    "same_geom demo_slave s" "same_mem demo0 demo1"
  have ff: "free_frames ((\<lambda>_. [])(2 := [0])) = fr 2 0" by (auto simp: free_frames_def)
  have "held s ((\<lambda>_. [])(2 := [0])) 3 8"
    using s(3) demo_slave_vals by (simp add: held_def ff) (auto simp: fr_def same_geom_def)
  from kbud_free_correct [OF s(1,2) this demo_find [OF s(4,1,3)] demo_sp(2)]
  show ?thesis unfolding ff by auto
qed

text \<open>In a region whose \<open>mbase\<close> is page-aligned only (0x11000 for a region at 0x10000) splitting computes
  the buddy from the physical address and freeing from the frame number. After six one-page allocations
  and two frees, three more allocations return 0x14000, which was allocated and never freed; \<^theory_text>\<open>BuddyBase\<close>
  has the general statement.\<close>

lemma kbud_run_twice:
  "buddy_run 0x10000 0x20000 (replicate 6 (BAlloc 0) @ [BFree 0x15000 0, BFree 0x16000 0] @ replicate 3 (BAlloc 0)) =
     Some [0x11000, 0x12000, 0x13000, 0x14000, 0x15000, 0x16000, 0x17000, 0x15000, 0x14000]"
  by code_simp

text \<open>Two buddies of the region's \<open>max_order\<close> that are both free get merged into a block of the next
  order, which \<^verbatim>\<open>kbud_push\<close> refuses: after freeing all its memory the region has none left.\<close>

theorem kbud_top_order_leak:
  "buddy_run 0x1F000 0x21000 [BAlloc 4, BAlloc 4, BAlloc 0] = Some [0x30000, 0x20000, KPAGE_ERR] \<and>
   buddy_run 0x1F000 0x21000 [BAlloc 4, BAlloc 4, BFree 0x20000 4, BFree 0x30000 4, BAlloc 0] =
     Some [0x30000, 0x20000, KPAGE_ERR]"
  by code_simp

text \<open>C34. The binary search of \<^verbatim>\<open>find_buddy_slave\<close> on a sorted region array ends, reads the array only within its bounds
  and returns the last region that starts at or below the address, and \<^verbatim>\<open>KPAGE_ERR\<close> when there is none.\<close>

theorem find_buddy_slave_correct:
  assumes "regions_sorted st"
  shows "\<exists>k \<le> unat (region_count st).
    find_buddy_slave st phy = Some (if k = 0 then KPAGE_ERR else regions st ! (k - 1)) \<and>
    (\<forall>i < unat (region_count st). phys_region st i \<le> phy \<longleftrightarrow> i < k)"
  by (rule find_buddy_slave_spec [OF assms])

lemma demo_sorted: "regions_sorted demo0"
  by (simp add: regions_sorted_def demo0_vals demo_sp_def phys_to_virt_pm_def get_kernel_phmap_def
      KERNEL_PHMMAP_def KPAGE_ERR_def)

lemma find_buddy_slave_correct_witness:
  "\<exists>k \<le> 1. find_buddy_slave demo0 0x400000 = Some (if k = 0 then KPAGE_ERR else regions demo0 ! (k - 1)) \<and>
    (\<forall>i < 1. phys_region demo0 i \<le> 0x400000 \<longleftrightarrow> i < k)"
  using find_buddy_slave_correct [OF demo_sorted, of "0x400000"] by (simp add: demo0_vals)

text \<open>C9. \<^verbatim>\<open>kbud_add_region\<close> inserts the region's pointer so that the array stays sorted and holds the same
  pointers otherwise, with the end marker behind; for the 128th region, which the bound admits, the end
  marker is written behind the array.\<close>

theorem kbud_add_region_correct:
  assumes "regions_sorted st" "KERNEL_PHMMAP \<le> phys_to_virt_pm phy" "phys_to_virt_pm phy \<noteq> KPAGE_ERR"
  shows "if unat (region_count st) = 127 then kbud_add_region st phy len = None
    else \<exists>st'. kbud_add_region st phy len = Some (st', phys_to_virt_pm phy) \<and> regions_sorted st' \<and>
      region_count st' = region_count st + 1 \<and>
      mset (take (unat (region_count st')) (regions st')) =
        add_mset (phys_to_virt_pm phy) (mset (take (unat (region_count st)) (regions st))) \<and>
      regions st' ! unat (region_count st') = KPAGE_ERR \<and> frames st' = frames st"
proof (cases "unat (region_count st) = 127")
  case True
  with add_last_region_faults [OF assms(1)] show ?thesis by simp
next
  case False
  moreover have "unat (region_count st) < 128" using assms(1) by (simp add: regions_sorted_def)
  ultimately have "unat (region_count st) < 127" by simp
  with add_region_spec [OF assms(1) _ assms(2,3)] False show ?thesis by simp
qed

lemma kbud_add_region_correct_witness:
  "\<exists>st'. kbud_add_region demo0 0x2000000 0x100000 = Some (st', phys_to_virt_pm 0x2000000) \<and> regions_sorted st'"
proof -
  have a: "KERNEL_PHMMAP \<le> phys_to_virt_pm 0x2000000" "phys_to_virt_pm 0x2000000 \<noteq> KPAGE_ERR"
    by (simp_all add: phys_to_virt_pm_def get_kernel_phmap_def KERNEL_PHMMAP_def KPAGE_ERR_def)
  have "unat (region_count demo0) \<noteq> 127" by (simp add: demo0_vals)
  with kbud_add_region_correct [OF demo_sorted a] show ?thesis by auto
qed

text \<open>\<^verbatim>\<open>kbud_byte_order\<close> returns the least order whose block holds the size.\<close>

theorem kbud_byte_order_correct:
  assumes "sz \<le> - 4096"
  shows "\<exists>ord. kbud_byte_order sz = Some ord \<and> unat ord \<le> 52 \<and> unat sz \<le> 4096 * 2 ^ unat ord \<and>
    (\<forall>j < unat ord. 4096 * 2 ^ j < unat sz)"
  by (rule byte_order_spec [OF assms])

lemma kbud_byte_order_correct_witness:
  "\<exists>ord. kbud_byte_order 0x5001 = Some ord \<and> unat (0x5001 :: u64) \<le> 4096 * 2 ^ unat ord \<and>
    (\<forall>j < unat ord. 4096 * 2 ^ j < unat (0x5001 :: u64))"
proof -
  have "(0x5001 :: u64) \<le> - 4096" by simp
  from kbud_byte_order_correct [OF this] show ?thesis by blast
qed
end
