(* ===== verification/BuddyBase.thy ===== *)
theory BuddyBase
  imports BuddyProps
begin

text \<open>
  Regions whose first page is not aligned beyond 4 KiB. \<^verbatim>\<open>kbud_free\<close> pairs pages by their number in the region,
  the splitting of \<^verbatim>\<open>kbud_alloc\<close> by their physical address; where the base is an odd page the two disagree, and a
  page that is in use is handed out again.
\<close>

section \<open>Pages of a region with an odd base\<close>

definition odd_base :: "slave_buddy \<Rightarrow> nat \<Rightarrow> bool" where
  "odd_base s R \<longleftrightarrow> unat (mbase s) mod 8192 = 4096 \<and> unat (mbase s) + 4096 * R \<le> 2 ^ 46"

lemma odd_geom: "same_geom s s' \<Longrightarrow> odd_base s' R = odd_base s R"
  by (simp add: odd_base_def same_geom_def)

lemma page_pfn: "n < 2 ^ 34 \<Longrightarrow> kbud_pfnum (mbase s + of_nat (4096 * n)) s = of_nat n"
proof -
  assume n: "n < 2 ^ 34"
  then have "unat (of_nat (4096 * n) :: u64) = 4096 * n" "unat (of_nat n :: u64) = n" by (auto intro!: unat_of_nat64 simp del: of_nat_mult)
  then have "drop_bit 12 (of_nat (4096 * n) :: u64) = of_nat n" unfolding word_unat_eq_iff unat_drop by simp
  then show ?thesis by (simp add: kbud_pfnum_def del: of_nat_mult)
qed

lemma faddr_page_pfn: "n < 2 ^ 34 \<Longrightarrow> kbud_pfnum (virt_to_phys_pm (faddr s n)) s = of_nat n"
  using page_pfn by (simp add: faddr_def)

lemma faddr_eq: "m < 2 ^ 34 \<Longrightarrow> n < 2 ^ 34 \<Longrightarrow> faddr s m = faddr s n \<longleftrightarrow> m = n"
proof -
  assume "m < 2 ^ 34" "n < 2 ^ 34"
  then have "of_nat m = (of_nat n :: u64) \<longleftrightarrow> m = n" by (intro of_nat_eq) auto
  then show ?thesis using faddr_page_pfn [of m s] faddr_page_pfn [of n s] \<open>m < 2 ^ 34\<close> \<open>n < 2 ^ 34\<close> by metis
qed

text \<open>The physical buddy of an even page of the region is the page before it.\<close>

lemma odd_split:
  assumes o: "odd_base s R" and n: "even n" "2 \<le> n" "n < R"
  shows "virt_to_phys_pm (faddr s n) XOR push_bit 0 PAGESIZE = mbase s + of_nat (4096 * (n - 1))"
proof -
  let ?y = "mbase s + of_nat (4096 * (n - 1))"
  have uy: "unat ?y = unat (mbase s) + 4096 * (n - 1)"
  proof (rule unat_plus_of_nat)
    have "4096 * (n - 1) \<le> 4096 * R" using n(3) by simp
    then have "unat (mbase s) + 4096 * (n - 1) \<le> 2 ^ 46" using o unfolding odd_base_def by linarith
    then show "unat (mbase s) + 4096 * (n - 1) < 2 ^ 64" by simp
  qed
  obtain k where k: "n = 2 * k" using n(1) by (rule evenE)
  obtain b where b: "unat (mbase s) = 8192 * b + 4096" using o unfolding odd_base_def by (metis mult_div_mod_eq)
  have "unat ?y = 8192 * (b + k)" unfolding uy b using k n(2) by (cases k) simp_all
  then have "2 ^ (12 + 1) dvd unat ?y" by simp
  from add_xor(2) [OF this] have x: "(?y + push_bit 12 1) XOR push_bit 12 1 = ?y" by simp
  have p: "push_bit 0 PAGESIZE = push_bit 12 (1 :: u64)" by (simp add: PAGESIZE_def push_bit_eq_mult)
  have "4096 * n = 4096 * (n - 1) + 4096" using n(2) by simp
  then have "(of_nat (4096 * n) :: u64) = of_nat (4096 * (n - 1)) + of_nat 4096" by (simp only: of_nat_add)
  then have "virt_to_phys_pm (faddr s n) = ?y + push_bit 12 1"
    by (simp add: faddr_def push_bit_eq_mult add.assoc del: of_nat_mult)
  then show ?thesis unfolding p using x by simp
qed

lemma chk_pair: "buddy_bit_chk s (x XOR push_bit (unat k) 1) k = buddy_bit_chk s x k"
  "kbud_pair_idx (x XOR push_bit (unat k) 1) k = kbud_pair_idx x k"
proof -
  have "drop_bit (unat k + 1) (x XOR push_bit (unat k) 1) = drop_bit (unat k + 1) x"
    by (intro bit_word_eqI) (auto simp: bit_simps)
  then show "kbud_pair_idx (x XOR push_bit (unat k) 1) k = kbud_pair_idx x k" by (simp add: kbud_pair_idx_def)
  then show "buddy_bit_chk s (x XOR push_bit (unat k) 1) k = buddy_bit_chk s x k" by (simp add: buddy_bit_chk_def)
qed

section \<open>Two allocations\<close>

lemma alloc_first_region:
  assumes "regions st = sp # rs" "region_count st \<noteq> 0" "alloc_in_region st sp 0 = Some (st', Some a)"
  shows "kbud_alloc st 0 = Some (st', a)"
proof -
  obtain m where "unat (region_count st) = Suc m" using assms(2) by (cases "unat (region_count st)") (auto simp: unat_eq_zero)
  then show ?thesis using assms by (simp add: kbud_alloc_def PFRAME_MAX_ORDER_def nth_opt_def)
qed

lemma find_order_two:
  assumes "length (order_blk_cnt s) = 11"
  shows "order_blk_cnt s ! 0 \<noteq> 0 \<Longrightarrow> find_order 11 s 0 = Some 0"
    "order_blk_cnt s ! 0 = 0 \<Longrightarrow> 0 < max_order s \<Longrightarrow> order_blk_cnt s ! 1 \<noteq> 0 \<Longrightarrow> find_order 11 s 0 = Some 1"
proof -
  have e: "find_order 11 s = find_order (Suc (Suc 9)) s" by simp
  show "order_blk_cnt s ! 0 \<noteq> 0 \<Longrightarrow> find_order 11 s 0 = Some 0"
    "order_blk_cnt s ! 0 = 0 \<Longrightarrow> 0 < max_order s \<Longrightarrow> order_blk_cnt s ! 1 \<noteq> 0 \<Longrightarrow> find_order 11 s 0 = Some 1"
    unfolding e find_order.simps using assms by (simp_all add: nth_opt_def)
qed

lemma faddr_not_err:
  assumes o: "odd_base s R" and n: "n < R"
  shows "faddr s n \<noteq> KPAGE_ERR"
proof
  assume "faddr s n = KPAGE_ERR"
  then have e: "mbase s + of_nat (4096 * n) = virt_to_phys_pm KPAGE_ERR" by (metis faddr_def pm_inverse(1))
  have "4096 * n \<le> 4096 * R" using n by simp
  then have b: "unat (mbase s) + 4096 * n \<le> 2 ^ 46" using o unfolding odd_base_def by linarith
  then have "unat (mbase s + of_nat (4096 * n)) = unat (mbase s) + 4096 * n" by (intro unat_plus_of_nat) simp
  moreover have "unat (virt_to_phys_pm KPAGE_ERR) > 2 ^ 46"
    by (simp add: virt_to_phys_pm_def get_kernel_phmap_def KERNEL_PHMMAP_def KPAGE_ERR_def)
  ultimately show False using b e by simp
qed

lemma alloc_head:
  assumes s: "get_slave st sp = Some s" "lists_ok st s L" "bits_ok s" and r: "regions st = sp # rs" "region_count st \<noteq> 0" "sp \<noteq> KPAGE_ERR"
    and L: "L 0 = [p]" "p \<noteq> KPAGE_ERR" and c: "buddy_bit_chk s (kbud_pfnum (virt_to_phys_pm p) s) 0 = Some True"
  shows "\<exists>st'. kbud_alloc st 0 = Some (st', p)"
proof -
  note ln = lists_ok_nth [OF s(2), of 0]
  have "order_blk_cnt s ! 0 \<noteq> 0" using ln(2) by (simp add: L)
  then have f: "find_order 11 s 0 = Some 0" using find_order_two(1) ln(5) by simp
  have L0: "L (unat (0 :: u32)) = p # []" by (simp add: L)
  from kbud_pop_head_spec [OF s L0 c] obtain st' where "kbud_pop_head st sp 0 = Some (st', p)" by blast
  then have "alloc_in_region st sp 0 = Some (st', Some p)"
    using s(1) r(3) f L(2) by (simp add: alloc_in_region_def PFRAME_MAX_ORDER_def)
  then show ?thesis using alloc_first_region [OF r(1,2)] by blast
qed

text \<open>A block of two pages at an even page: the page behind it is pushed to no list, the one before it is.\<close>

lemma alloc_split:
  assumes s: "get_slave st sp = Some s" "lists_ok st s (\<lambda>k. map (faddr s) (F k))" "bits_ok s"
    and r: "regions st = sp # rs" "region_count st \<noteq> 0" "sp \<noteq> KPAGE_ERR" and o: "odd_base s R"
    and F: "F 0 = []" "F 1 = n # ns" "length (F 1) < 2 ^ 64" and n: "even n" "2 \<le> n" "n < R"
    and c: "buddy_bit_chk s (of_nat n) 1 = Some True" "buddy_bit_chk s (of_nat (n - 1)) 0 = Some True"
    and p: "get_frame st (faddr s (n - 1)) \<noteq> None" "\<And>j. j < 11 \<Longrightarrow> faddr s (n - 1) \<notin> set (map (faddr s) (F j))"
  shows "\<exists>st' s'. kbud_alloc st 0 = Some (st', faddr s n) \<and> get_slave st' sp = Some s' \<and>
    lists_ok st' s' (\<lambda>k. map (faddr s) ((F(1 := ns, 0 := [n - 1])) k)) \<and> bits_ok s' \<and> same_geom s s' \<and> same_mem st st'"
proof -
  have n34: "n < 2 ^ 34" "n - 1 < 2 ^ 34" using o n by (auto simp: odd_base_def)
  note ln = lists_ok_nth [OF s(2)]
  have z: "order_blk_cnt s ! 0 = 0" using ln(2) [of 0] by (simp add: F)
  have o1: "order_blk_cnt s ! 1 \<noteq> 0" using ln(2) [of 1] of_nat_zero [of "length (F 1)"] F(2,3) by simp
  have mo: "0 < max_order s" using chk_index(1) [OF s(3) c(1)] by (simp add: word_less_nat_alt)
  have f: "find_order 11 s 0 = Some 1" using find_order_two(2) [OF ln(5) [of 0] z mo o1] by simp
  have c1: "buddy_bit_chk s (kbud_pfnum (virt_to_phys_pm (faddr s n)) s) 1 = Some True" using c(1) faddr_page_pfn [OF n34(1)] by simp
  have F1: "map (faddr s) (F (unat (1 :: u32))) = faddr s n # map (faddr s) ns" by (simp add: F(2) del: One_nat_def)
  from kbud_pop_head_spec [OF s F1 c1] obtain st1 s1 where
    1: "kbud_pop_head st sp 1 = Some (st1, faddr s n)" "get_slave st1 sp = Some s1"
    "lists_ok st1 s1 ((\<lambda>k. map (faddr s) (F k))(1 := map (faddr s) ns))" "bits_ok s1" "same_geom s s1" "same_mem st st1" by auto
  let ?L = "(\<lambda>k. map (faddr s) (F k))(1 := map (faddr s) ns)"
  define M where "M = ?L"
  have lM: "lists_ok st1 s1 M" unfolding M_def by (rule 1(3))
  define b where "b = mbase s + of_nat (4096 * (n - 1))"
  have fb: "phys_to_virt_pm b = faddr s (n - 1)" by (simp add: faddr_def b_def)
  have pb: "kbud_pfnum b s1 = of_nat (n - 1)" unfolding b_def using pfnum_geom [OF 1(5)] page_pfn [OF n34(2)] by simp
  have cb: "buddy_bit_chk s1 (kbud_pfnum b s1) 0 = Some True" unfolding pb chk_geom [OF 1(5)] by (rule c(2))
  have nf: "phys_to_virt_pm b \<notin> set (M j)" if "j < 11" for j
    using p(2) [OF that] F(2) unfolding fb M_def by (auto split: if_splits)
  have fr: "get_frame st1 (phys_to_virt_pm b) \<noteq> None" unfolding fb using p(1) 1(6) by (auto simp: same_mem_def)
  from kbud_push_spec [OF 1(2) lM 1(4) cb fr nf] obtain st2 s2 where
    2: "kbud_push st1 sp b 0 = Some (st2, True)" "get_slave st2 sp = Some s2"
    "lists_ok st2 s2 (M(0 := faddr s (n - 1) # M 0))" "bits_ok s2" "same_geom s1 s2" "same_mem st1 st2" by (auto simp: fb)
  have "split_loop (Suc 0) st1 sp (faddr s n) 1 = Some st2"
    unfolding split_loop.simps Let_def using 2(1) odd_split [OF o n, folded b_def] by simp
  then have "alloc_in_region st sp 0 = Some (st2, Some (faddr s n))"
    using s(1) r(3) f 1(1) faddr_not_err [OF o n(3)] by (simp add: alloc_in_region_def PFRAME_MAX_ORDER_def)
  then have "kbud_alloc st 0 = Some (st2, faddr s n)" using alloc_first_region [OF r(1,2)] by blast
  moreover have "M(0 := faddr s (n - 1) # M 0) = (\<lambda>k. map (faddr s) ((F(1 := ns, 0 := [n - 1])) k))" by (auto simp: F M_def)
  ultimately show ?thesis using 2 same_geom_trans [OF 1(5) 2(5)] same_mem_trans [OF 1(6) 2(6)] by metis
qed

section \<open>Freeing\<close>

text \<open>The second page of a pair whose first one is the only free page: the pair becomes a block of order 1.\<close>

lemma free_pair:
  assumes s: "get_slave st sp = Some s" "lists_ok st s (\<lambda>k. map (faddr s) (F k))" "bits_ok s"
    and v: "find_valid_slave st (virt_to_phys_pm (faddr s (n + 1))) = Some sp" "sp \<noteq> KPAGE_ERR"
    and F: "F 0 = [n]" and n: "even n" "n + 1 < 2 ^ 34" "n < unat (total_pages s)"
    and c: "buddy_bit_chk s (of_nat n) 0 = Some True" "buddy_bit_chk s (of_nat n) 1 = Some True"
    and b: "pair_bit s 0 (n div 2)" "\<not> pair_bit s 1 (n div 4)"
  shows "\<exists>st' s'. kbud_free st (faddr s (n + 1)) 0 = Some st' \<and> get_slave st' sp = Some s' \<and>
    lists_ok st' s' (\<lambda>k. map (faddr s) ((F(0 := [], 1 := n # F 1)) k)) \<and> bits_ok s' \<and> same_geom s s' \<and> same_mem st st'"
proof -
  have u: "unat (of_nat n :: u64) = n" using n(2) by (intro unat_of_nat64) simp
  have x: "(of_nat (n + 1) :: u64) XOR push_bit 0 1 = of_nat n" "(of_nat (n + 1) :: u64) AND NOT (push_bit 0 1) = of_nat n"
  proof -
    have d: "2 ^ (0 + 1) dvd unat (of_nat n :: u64)" using n(1) u by simp
    have "push_bit 0 (1 :: u64) = 1" by simp
    then have "(of_nat (n + 1) :: u64) = of_nat n + push_bit 0 1" by simp
    then show "(of_nat (n + 1) :: u64) XOR push_bit 0 1 = of_nat n" "(of_nat (n + 1) :: u64) AND NOT (push_bit 0 1) = of_nat n"
      using add_xor(2,4) [OF d] by (simp_all only:)
  qed
  have x2: "push_bit (unat (0 :: u32)) 1 = (push_bit 0 1 :: u64)" by simp
  have px: "unat (kbud_pair_idx (of_nat n) 0) = n div 2" "unat (kbud_pair_idx (of_nat n) 1) = n div 4"
    using pair_idx_nat [of n 0] pair_idx_nat [of n 1] n(2) by simp_all
  have g0: "buddy_bit_get s (of_nat n) 0 = Some True" using bit_get_chk [OF s(3) c(1)] b(1) px by simp
  define b where "b = mbase s + of_nat (4096 * n)"
  have phy: "mbase s + push_bit 12 (of_nat n) = b" by (simp add: b_def push_bit_eq_mult mult.commute)
  have fa: "phys_to_virt_pm b = faddr s n" by (simp add: faddr_def b_def)
  have pf: "kbud_pfnum b s = of_nat n" unfolding b_def using n(2) by (intro page_pfn) simp
  let ?L = "\<lambda>k. map (faddr s) (F k)"
  have L0: "?L (unat (0 :: u32)) = [] @ phys_to_virt_pm b # []" by (simp add: F fa)
  have c0: "buddy_bit_chk s (kbud_pfnum b s) 0 = Some True" unfolding pf by (rule c(1))
  from kbud_pop_spec [OF s L0 _ c0] F obtain st1 s1 where
    1: "kbud_pop st sp b 0 = Some (st1, True)" "get_slave st1 sp = Some s1"
    "lists_ok st1 s1 (?L(0 := []))" "bits_ok s1" "same_geom s s1" "same_mem st st1"
    "\<forall>j i. pair_bit s1 j i = (if j = 0 \<and> i = n div 2 then False else pair_bit s j i)" by (auto simp: pf px)
  have c1: "buddy_bit_chk s1 (of_nat n) 0 = Some True" unfolding chk_geom [OF 1(5)] by (rule c(1))
  from bit_clr_chk [OF 1(4) c1] obtain s2 where
    2: "buddy_bit_clr s1 (of_nat n) 0 = Some s2" "bits_ok s2" "same_geom s1 s2" "sb_free s2 = sb_free s1"
    "order_blk_cnt s2 = order_blk_cnt s1" "\<forall>j i. pair_bit s2 j i = (if j = 0 \<and> i = n div 2 then False else pair_bit s1 j i)"
    by (auto simp: px)
  have sp0: "sp \<noteq> 0" by (rule slave_nonnull [OF s(1)])
  define st2 where "st2 = put_slave st1 sp s2"
  have g2: "same_geom s s2" by (rule same_geom_trans [OF 1(5) 2(3)])
  have l2: "lists_ok st2 s2 (?L(0 := []))" using 1(3) 2(4,5) by (simp add: st2_def lists_ok_def)
  define M where "M = ?L(0 := [])"
  have lM: "lists_ok st2 s2 M" unfolding M_def by (rule l2)
  have s2: "get_slave st2 sp = Some s2" using sp0 by (simp add: st2_def)
  have stop: "free_merge 9 st2 sp (of_nat n) 1 = Some (st2, of_nat n, 1)"
  proof -
    have k: "buddy_bit_chk s2 (of_nat n XOR push_bit (unat (1 :: u32)) 1) 1 = Some True"
      unfolding chk_pair(1) chk_geom [OF g2] by (rule c(2))
    have "buddy_bit_get s2 (of_nat n XOR push_bit (unat (1 :: u32)) 1) 1 = Some False"
      unfolding bit_get_chk [OF 2(2) k] chk_pair(2) px using b(2) 1(7) 2(6) by simp
    then have "free_merge (Suc 8) st2 sp (of_nat n) 1 = Some (st2, of_nat n, 1)"
      unfolding free_merge.simps using s2 k by (simp add: Let_def)
    then show ?thesis by simp
  qed
  have "kbud_pfnum (virt_to_phys_pm (faddr s (n + 1))) s = of_nat (n + 1)" by (rule faddr_page_pfn [OF n(2)])
  moreover have "\<not> of_nat n \<ge> total_pages s" using n(3) u by (simp add: word_le_nat_alt)
  then have "free_merge (Suc 9) st sp (of_nat (n + 1)) 0 = Some (st2, of_nat n, 1)"
    unfolding free_merge.simps x2 x using s(1) c(1) g0 1(1,2) 2(1) stop by (simp add: Let_def phy st2_def del: of_nat_add of_nat_Suc)
  then have "free_merge 10 st sp (of_nat (n + 1)) 0 = Some (st2, of_nat n, 1)" by simp
  moreover have m2: "mbase s2 = mbase s" using g2 by (simp add: same_geom_def)
  moreover have "\<exists>st3 s3. kbud_push st2 sp b 1 = Some (st3, True) \<and> get_slave st3 sp = Some s3 \<and>
    lists_ok st3 s3 (M(1 := faddr s n # M 1)) \<and> bits_ok s3 \<and> same_geom s2 s3 \<and> same_mem st2 st3"
  proof -
    have pf2: "kbud_pfnum b s2 = of_nat n" using pf pfnum_geom [OF g2] by simp
    have k: "buddy_bit_chk s2 (kbud_pfnum b s2) 1 = Some True"
      unfolding pf2 chk_geom [OF g2] by (rule c(2))
    have "get_frame st (faddr s n) \<noteq> None" using lists_ok_nth(3) [OF s(2), of 0 "faddr s n"] by (simp add: F)
    then have fr: "get_frame st2 (phys_to_virt_pm b) \<noteq> None"
      unfolding fa using 1(6) by (simp add: st2_def same_mem_def)
    have nf: "phys_to_virt_pm b \<notin> set (M j)" if "j < 11" for j
    proof (cases "j = 0")
      case False
      then have "set (?L 0) \<inter> set (?L j) = {}" using s(2) that unfolding lists_ok_def by (metis zero_less_numeral)
      then show ?thesis using False by (simp add: fa F M_def)
    qed (simp add: M_def)
    from kbud_push_spec [OF s2 lM 2(2) k fr nf] show ?thesis by (auto simp: fa)
  qed
  then obtain st3 s3 where 3: "kbud_push st2 sp b 1 = Some (st3, True)" "get_slave st3 sp = Some s3"
    "lists_ok st3 s3 (M(1 := faddr s n # M 1))" "bits_ok s3" "same_geom s2 s3" "same_mem st2 st3" by blast
  ultimately have "kbud_free st (faddr s (n + 1)) 0 = Some st3"
    using v s(1) s2 by (simp add: kbud_free_def Let_def phy del: of_nat_add of_nat_Suc)
  moreover have "M(1 := faddr s n # M 1) = (\<lambda>k. map (faddr s) ((F(0 := [], 1 := n # F 1)) k))" by (auto simp: M_def)
  moreover have "same_mem st st2" using 1(6) by (simp add: st2_def)
  ultimately show ?thesis using 3 same_geom_trans [OF g2 3(5)] same_mem_trans [OF _ 3(6)] by metis
qed

section \<open>A page that is handed out twice\<close>

text \<open>Pages \<open>n\<close> and \<open>n + 1\<close> are a pair of the region by their numbers; the bitmaps reach over both and the page before.\<close>

lemma double_allocation:
  assumes s: "get_slave st sp = Some s" "lists_ok st s (\<lambda>k. map (faddr s) (F k))" "bits_ok s"
    and r: "regions st = sp # rs" "region_count st \<noteq> 0" "sp \<noteq> KPAGE_ERR" and o: "odd_base s R"
    and v: "find_valid_slave st (virt_to_phys_pm (faddr s (n + 1))) = Some sp"
    and n: "even n" "2 \<le> n" "n + 1 < R" "n < unat (total_pages s)"
    and F: "F 0 = [n]" "\<forall>j<11. \<forall>m \<in> set (F j). m < R"
    and c: "buddy_bit_chk s (of_nat n) 0 = Some True" "buddy_bit_chk s (of_nat n) 1 = Some True" "buddy_bit_chk s (of_nat (n - 1)) 0 = Some True"
    and b: "pair_bit s 0 (n div 2)" "\<not> pair_bit s 1 (n div 4)"
    and p: "get_frame st (faddr s (n - 1)) \<noteq> None" "n - 1 \<notin> free_frames F"
  shows "\<exists>st1 st2 st3. kbud_free st (faddr s (n + 1)) 0 = Some st1 \<and> kbud_alloc st1 0 = Some (st2, faddr s n) \<and>
    kbud_alloc st2 0 = Some (st3, faddr s (n - 1))"
proof -
  have R34: "R \<le> 2 ^ 34" using o by (simp add: odd_base_def)
  have n34: "n + 1 < 2 ^ 34" using n(3) R34 by linarith
  from free_pair [OF s v r(3) F(1) n(1) n34 n(4) c(1,2) b] obtain st1 s1 where
    1: "kbud_free st (faddr s (n + 1)) 0 = Some st1" "get_slave st1 sp = Some s1"
    "lists_ok st1 s1 (\<lambda>k. map (faddr s) ((F(0 := [], 1 := n # F 1)) k))" "bits_ok s1" "same_geom s s1" "same_mem st st1" by blast
  let ?F = "F(0 := [], 1 := n # F 1)"
  note fs = faddr_same [OF 1(5)]
  have fs': "faddr s1 = faddr s" by (rule ext) (rule fs)
  have r1: "regions st1 = sp # rs" "region_count st1 \<noteq> 0" using r 1(6) by (simp_all add: same_mem_def)
  have o1: "odd_base s1 R" using o odd_geom [OF 1(5)] by simp
  have FR: "set (?F 1) \<subseteq> {..<R}" using F(2) [rule_format, of 1] n(3) by auto
  have "distinct (map (faddr s) (?F 1))" by (rule lists_ok_nth(6) [OF 1(3)]) simp
  then have "length (?F 1) = card (set (?F 1))" by (simp only: distinct_map distinct_card)
  also have "\<dots> \<le> R" using card_mono [OF _ FR] by simp
  finally have len: "length (?F 1) < 2 ^ 64" using R34 by simp
  have nf: "faddr s1 (n - 1) \<notin> set (map (faddr s1) (?F j))" if "j < 11" for j
  proof
    assume "faddr s1 (n - 1) \<in> set (map (faddr s1) (?F j))"
    then obtain m where m: "m \<in> set (?F j)" "faddr s m = faddr s (n - 1)" by (auto simp: fs')
    have "m < R" using m(1) F(2) [rule_format, of j m] F(2) [rule_format, of 1 m] that n(3) by (auto split: if_splits)
    then have e: "m = n - 1" using faddr_eq [of m "n - 1" s] m(2) R34 n34 by simp
    have "m \<noteq> n" using e n(2) by simp
    then have "m \<in> set (F j)" using m(1) by (auto split: if_splits)
    then show False using p(2) e that fr_self [of m j] unfolding free_frames_def by blast
  qed
  have cc: "buddy_bit_chk s1 (of_nat n) 1 = Some True" "buddy_bit_chk s1 (of_nat (n - 1)) 0 = Some True"
    unfolding chk_geom [OF 1(5)] by (rule c)+
  have p1: "get_frame st1 (faddr s1 (n - 1)) \<noteq> None" using p(1) 1(6) unfolding fs' same_mem_def by metis
  have l1: "lists_ok st1 s1 (\<lambda>k. map (faddr s1) (?F k))" using 1(3) by (simp only: fs')
  have nR: "n < R" using n(3) by simp
  have F01: "?F 0 = []" "?F 1 = n # F 1" by simp_all
  from alloc_split [OF 1(2) l1 1(4) r1 r(3) o1 F01 len n(1,2) nR cc p1 nf, unfolded fs'] obtain st2 s2 where
    2: "kbud_alloc st1 0 = Some (st2, faddr s n)" "get_slave st2 sp = Some s2"
    "lists_ok st2 s2 (\<lambda>k. map (faddr s) ((?F(1 := F 1, 0 := [n - 1])) k))" "bits_ok s2" "same_geom s1 s2" "same_mem st1 st2"
    by blast
  have r2: "regions st2 = sp # rs" "region_count st2 \<noteq> 0" using r1 2(6) by (simp_all add: same_mem_def)
  have g2: "same_geom s s2" by (rule same_geom_trans [OF 1(5) 2(5)])
  have c2: "buddy_bit_chk s2 (kbud_pfnum (virt_to_phys_pm (faddr s (n - 1))) s2) 0 = Some True"
    unfolding pfnum_geom [OF g2] chk_geom [OF g2] using c(3) faddr_page_pfn [of "n - 1" s] n34 by simp
  have "faddr s (n - 1) \<noteq> KPAGE_ERR" using nR by (intro faddr_not_err [OF o]) simp
  from alloc_head [OF 2(2,3,4) r2 r(3) _ this c2] show ?thesis using 1(1) 2(1) by auto
qed

text \<open>The region at 0x10000 of 32 pages, base 0x11000: page 4 is free, page 5 and page 3 are in use.\<close>

definition odd_sp :: u64 where "odd_sp = phys_to_virt_pm 0x10000"
definition odd_slave :: slave_buddy where "odd_slave = kbud_init_region zero_slave 0x10000 0x20000"
definition odd_mem :: kbuddy where
  "odd_mem = put_slave (boot_mem\<lparr>regions := [odd_sp], region_count := 1\<rparr>) odd_sp odd_slave"

lemma odd_slave_vals: "max_order odd_slave = 4 \<and> mbase odd_slave = 0x11000 \<and> total_pages odd_slave = 31 \<and>
    maxbits odd_slave = [16, 8, 4, 2, 1, 0, 0, 0, 0, 0, 0] \<and>
    map length (bitmap_arr odd_slave) = [64, 64, 64, 64, 64, 0, 0, 0, 0, 0, 0] \<and>
    take 2 (bitmap_arr odd_slave) = replicate 2 (replicate 64 0) \<and>
    sb_free odd_slave = replicate 11 0 \<and> order_blk_cnt odd_slave = replicate 11 0"
  by code_simp

lemma odd_demo:
  obtains st s where "get_slave st odd_sp = Some s" "lists_ok st s (\<lambda>k. map (faddr s) (((\<lambda>_. [])(0 := [4 :: nat])) k))" "bits_ok s"
    "regions st = [odd_sp]" "region_count st = 1" "odd_base s 32" "same_geom odd_slave s" "\<And>n. n < 31 \<Longrightarrow> get_frame st (faddr s n) \<noteq> None"
    "pair_bit s 0 2" "\<not> pair_bit s 1 1"
proof -
  note v = odd_slave_vals
  have sp: "odd_sp \<noteq> 0" by (simp add: odd_sp_def phys_to_virt_pm_def get_kernel_phmap_def KERNEL_PHMMAP_def)
  have g: "get_slave odd_mem odd_sp = Some odd_slave" using sp by (simp add: odd_mem_def)
  have l: "lists_ok odd_mem odd_slave (\<lambda>_. [])" using v by (simp add: lists_ok_def)
  have len: "length (bitmap_arr odd_slave) = 11"
    using arg_cong [OF v [THEN conjunct2, THEN conjunct2, THEN conjunct2, THEN conjunct2, THEN conjunct1], of length] by simp
  have "length (bitmap_arr odd_slave ! k) = map length (bitmap_arr odd_slave) ! k" if "k \<le> 4" for k using that len by simp
  then have "\<forall>k \<in> {0, 1, 2, 3, 4}. unat (maxbits odd_slave ! k) \<le> 8 * length (bitmap_arr odd_slave ! k)" using v by simp
  moreover have "k \<le> 4 \<longleftrightarrow> k \<in> {0, 1, 2, 3, 4}" for k :: nat by auto
  ultimately have b: "bits_ok odd_slave" using v len unfolding bits_ok_def by simp
  have o: "odd_base odd_slave 32" using v by (simp add: odd_base_def)
  have c: "buddy_bit_chk odd_slave (kbud_pfnum 0x15000 odd_slave) 0 = Some True" using v by (simp add: buddy_bit_chk_def kbud_pfnum_def kbud_pair_idx_def nth_opt_def)
  have fm: "get_frame odd_mem (faddr odd_slave n) \<noteq> None" if n: "n < 31" for n
  proof -
    have u: "unat (mbase odd_slave + of_nat (4096 * n)) = 0x11000 + 4096 * n"
      using n v unat_plus_of_nat [of "mbase odd_slave" "4096 * n"] by simp
    then have "mbase odd_slave + of_nat (4096 * n) < 0x10000000" using n by (simp add: word_less_nat_alt)
    moreover have "faddr odd_slave n \<noteq> 0"
    proof
      assume "faddr odd_slave n = 0"
      then have "mbase odd_slave + of_nat (4096 * n) = virt_to_phys_pm 0" by (metis faddr_def pm_inverse(1))
      with u n show False by (simp add: virt_to_phys_pm_def get_kernel_phmap_def KERNEL_PHMMAP_def)
    qed
    ultimately show ?thesis by (simp add: odd_mem_def get_frame_def put_slave_def boot_mem_def faddr_def)
  qed
  have p: "phys_to_virt_pm 0x15000 = faddr odd_slave 4" using v by (simp add: faddr_def)
  have f: "get_frame odd_mem (phys_to_virt_pm 0x15000) \<noteq> None" unfolding p by (rule fm) simp
  from kbud_push_spec [OF g l b c f] obtain st s where r: "get_slave st odd_sp = Some s"
    "lists_ok st s ((\<lambda>_. [])(0 := [faddr odd_slave 4]))" "bits_ok s" "same_geom odd_slave s" "same_mem odd_mem st"
    "\<forall>j i. pair_bit s j i = (if j = 0 \<and> i = unat (kbud_pair_idx (kbud_pfnum 0x15000 odd_slave) 0) then True else pair_bit odd_slave j i)"
    by (auto simp: p)
  have fs: "faddr s = faddr odd_slave" by (rule ext) (rule faddr_same [OF r(4)])
  have L: "(\<lambda>_. [])(0 := [faddr odd_slave 4]) = (\<lambda>k. map (faddr s) (((\<lambda>_. [])(0 := [4])) k))" by (auto simp: fs)
  have "bitmap_arr odd_slave ! 1 = take 2 (bitmap_arr odd_slave) ! 1" by simp
  also have "\<dots> = replicate 2 (replicate 64 0) ! 1" using v by (simp only:)
  finally have "bitmap_arr odd_slave ! 1 = replicate 64 0" by simp
  then have z: "\<not> pair_bit odd_slave 1 1" by (simp add: pair_bit_def)
  have i: "unat (kbud_pair_idx (kbud_pfnum 0x15000 odd_slave) 0) = 2" using v by (simp add: kbud_pair_idx_def kbud_pfnum_def)
  show ?thesis
  proof (rule that [OF r(1) r(2) [unfolded L] r(3) _ _ _ r(4)])
    show "regions st = [odd_sp]" "region_count st = 1" using r(5) by (simp_all add: same_mem_def odd_mem_def)
    show "odd_base s 32" using o odd_geom [OF r(4)] by simp
    show "get_frame st (faddr s n) \<noteq> None" if "n < 31" for n using fm [OF that] r(5) unfolding fs same_mem_def by metis
    show "pair_bit s 0 2" "\<not> pair_bit s 1 1" using r(6) i z by simp_all
  qed
qed

section \<open>Claims\<close>



end
