(* ===== verification/Slab.thy ===== *)
theory Slab
  imports Buddy
begin

text \<open>
  The slab allocator of \<^verbatim>\<open>kernel/mm/slab.c\<close> on top of the page allocator. The state holds the page
  allocator, the slab headers (\<^verbatim>\<open>struct kslab\<close>, at the base of each slab), the caches and the bytes of
  the direct map, in which the free objects of a slab hold the pointers of its free list. The headers
  are kept beside the bytes: they occupy the reserved part of a slab, which holds no object. A
  dereference of the null pointer, or of an address that holds no header or cache, faults.
\<close>

section \<open>Bytes\<close>

type_synonym byte_mem = "u64 \<Rightarrow> u8"

text \<open>An 8-byte pointer in little-endian order.\<close>

definition load64 :: "byte_mem \<Rightarrow> u64 \<Rightarrow> u64" where
  "load64 m a = foldr (\<lambda>i w. push_bit (8 * i) (ucast (m (a + of_nat i))) OR w) [0..<8] 0"

definition store64 :: "byte_mem \<Rightarrow> u64 \<Rightarrow> u64 \<Rightarrow> byte_mem" where
  "store64 m a v = (\<lambda>x. if x - a < 8 then ucast (drop_bit (8 * unat (x - a)) v) else m x)"

definition zero_bytes :: "byte_mem \<Rightarrow> u64 \<Rightarrow> u64 \<Rightarrow> byte_mem" where
  "zero_bytes m a n = (\<lambda>x. if x - a < n then 0 else m x)"

section \<open>State\<close>

definition KSLAB_PRESET_MAX_EMPTY :: u8 where "KSLAB_PRESET_MAX_EMPTY = 4"

record kslab =
  ks_cache :: u64
  ks_next :: u64
  ks_prev :: u64
  ks_pool :: u64
  ks_freelist :: u64
  free_count :: u32

record kslab_cache =
  ident_ptr :: u64
  sc_order :: u32
  obj_size :: u64
  alignment :: u64
  slab_pages :: u64
  sc_full :: u64
  sc_partial :: u64
  sc_empty :: u64
  empty_slabs :: u32
  slab_objs_per :: u32
  waste :: u32
  reserved :: u32
  metadata :: u32
  max_empty_slabs :: u8

record kheap =
  buddy :: kbuddy
  slabs :: "u64 \<rightharpoonup> kslab"
  caches :: "u64 \<rightharpoonup> kslab_cache"
  bytes :: byte_mem

definition get_slab :: "kheap \<Rightarrow> u64 \<Rightarrow> kslab option" where
  "get_slab h a = (if a = 0 then None else slabs h a)"

definition put_slab :: "kheap \<Rightarrow> u64 \<Rightarrow> kslab \<Rightarrow> kheap" where
  "put_slab h a s = h\<lparr>slabs := (slabs h)(a \<mapsto> s)\<rparr>"

definition get_cache :: "kheap \<Rightarrow> u64 \<Rightarrow> kslab_cache option" where
  "get_cache h cp = (if cp = 0 then None else caches h cp)"

definition put_cache :: "kheap \<Rightarrow> u64 \<Rightarrow> kslab_cache \<Rightarrow> kheap" where
  "put_cache h cp c = h\<lparr>caches := (caches h)(cp \<mapsto> c)\<rparr>"

definition load_ptr :: "kheap \<Rightarrow> u64 \<Rightarrow> u64 option" where
  "load_ptr h a = (if a = 0 then None else Some (load64 (bytes h) a))"

definition store_ptr :: "kheap \<Rightarrow> u64 \<Rightarrow> u64 \<Rightarrow> kheap option" where
  "store_ptr h a v = (if a = 0 then None else Some (h\<lparr>bytes := store64 (bytes h) a v\<rparr>))"

section \<open>The lists of a cache\<close>

text \<open>A location that holds a slab pointer: one of the heads in the cache, or the \<open>next\<close> of a slab.\<close>

datatype slab_list = FullList | PartialList | EmptyList
datatype slab_link = SHead slab_list | SNext u64

fun list_head :: "kslab_cache \<Rightarrow> slab_list \<Rightarrow> u64" where
  "list_head c FullList = sc_full c"
| "list_head c PartialList = sc_partial c"
| "list_head c EmptyList = sc_empty c"

fun set_head :: "kslab_cache \<Rightarrow> slab_list \<Rightarrow> u64 \<Rightarrow> kslab_cache" where
  "set_head c FullList v = c\<lparr>sc_full := v\<rparr>"
| "set_head c PartialList v = c\<lparr>sc_partial := v\<rparr>"
| "set_head c EmptyList v = c\<lparr>sc_empty := v\<rparr>"

definition slink_get :: "kheap \<Rightarrow> u64 \<Rightarrow> slab_link \<Rightarrow> u64 option" where
  "slink_get h cp l = (case l of
       SHead k \<Rightarrow> map_option (\<lambda>c. list_head c k) (get_cache h cp)
     | SNext a \<Rightarrow> map_option ks_next (get_slab h a))"

definition slink_set :: "kheap \<Rightarrow> u64 \<Rightarrow> slab_link \<Rightarrow> u64 \<Rightarrow> kheap option" where
  "slink_set h cp l v = (case l of
       SHead k \<Rightarrow> map_option (\<lambda>c. put_cache h cp (set_head c k v)) (get_cache h cp)
     | SNext a \<Rightarrow> map_option (\<lambda>s. put_slab h a (s\<lparr>ks_next := v\<rparr>)) (get_slab h a))"

text \<open>\<open>while (*p) p = &(*p)->next\<close> and \<open>while (*p && *p != target) p = &(*p)->next\<close>.\<close>

partial_function (option) slab_end :: "kheap \<Rightarrow> u64 \<Rightarrow> slab_link \<Rightarrow> slab_link option" where
  "slab_end h cp l = do {
     p \<leftarrow> slink_get h cp l;
     if p \<noteq> 0 then slab_end h cp (SNext p) else Some l }"

partial_function (option) slab_seek :: "kheap \<Rightarrow> u64 \<Rightarrow> u64 \<Rightarrow> slab_link \<Rightarrow> slab_link option" where
  "slab_seek h cp target l = do {
     p \<leftarrow> slink_get h cp l;
     if p \<noteq> 0 \<and> p \<noteq> target then slab_seek h cp target (SNext p) else Some l }"

definition kslab_relink_node ::
  "kheap \<Rightarrow> u64 \<Rightarrow> slab_list \<Rightarrow> slab_list \<Rightarrow> u64 \<Rightarrow> kheap option" where
  "kslab_relink_node h cp src dst target = do {
     p \<leftarrow> slab_seek h cp target (SHead src);
     v \<leftarrow> slink_get h cp p;
     t \<leftarrow> get_slab h target;
     h \<leftarrow> (if v \<noteq> 0 then slink_set h cp p (ks_next t) else Some h);
     t \<leftarrow> get_slab h target;
     let h = put_slab h target (t\<lparr>ks_next := 0\<rparr>);
     p \<leftarrow> slab_end h cp (SHead dst);
     slink_set h cp p target }"

definition kslab_remove_node :: "kheap \<Rightarrow> u64 \<Rightarrow> slab_list \<Rightarrow> u64 \<Rightarrow> kheap option" where
  "kslab_remove_node h cp src target = do {
     p \<leftarrow> slab_seek h cp target (SHead src);
     v \<leftarrow> slink_get h cp p;
     h \<leftarrow> (if v \<noteq> 0 then do { t \<leftarrow> get_slab h target; slink_set h cp p (ks_next t) } else Some h);
     c \<leftarrow> get_cache h cp;
     b \<leftarrow> kbud_free (buddy h) target (sc_order c);
     Some (h\<lparr>buddy := b\<rparr>) }"

section \<open>New slabs\<close>

definition zero_slab :: kslab where
  "zero_slab = \<lparr>ks_cache = 0, ks_next = 0, ks_prev = 0, ks_pool = 0, ks_freelist = 0, free_count = 0\<rparr>"

text \<open>\<open>memset(rmem, 0, n)\<close> with a header at the base; headers further inside are gone.\<close>

definition clear_slab :: "kheap \<Rightarrow> u64 \<Rightarrow> u64 \<Rightarrow> kheap" where
  "clear_slab h a n = h\<lparr>bytes := zero_bytes (bytes h) a n,
     slabs := (\<lambda>x. if x - a < n then None else slabs h x)(a \<mapsto> zero_slab)\<rparr>"

text \<open>The loop that links the objects; it leaves \<open>cur\<close> at the last one.\<close>

primrec link_objs :: "nat \<Rightarrow> byte_mem \<Rightarrow> u64 \<Rightarrow> u64 \<Rightarrow> byte_mem \<times> u64" where
  "link_objs 0 m cur sz = (m, cur)"
| "link_objs (Suc n) m cur sz = link_objs n (store64 m cur (cur + sz)) (cur + sz) sz"

definition kslab_new_slab :: "kheap \<Rightarrow> u64 \<Rightarrow> (kheap \<times> u64) option" where
  "kslab_new_slab h cp =
     (if cp = 0 then Some (h, KPAGE_ERR)
      else do {
        c \<leftarrow> get_cache h cp;
        (b, rmem) \<leftarrow> kbud_alloc (buddy h) (sc_order c);
        let h = h\<lparr>buddy := b\<rparr>;
        if rmem = KPAGE_ERR then Some (h, KPAGE_ERR)
        else do {
          let h = clear_slab h rmem (buddy_order_to_val (sc_order c));
          pe \<leftarrow> slab_end h cp (SHead EmptyList);
          h \<leftarrow> slink_set h cp pe rmem;
          s \<leftarrow> get_slab h rmem;
          let pl = rmem + ucast (reserved c);
          let h = put_slab h rmem (s\<lparr>ks_cache := cp, ks_pool := pl, ks_freelist := pl,
                    free_count := slab_objs_per c\<rparr>);
          let (m, cur) = link_objs (unat (slab_objs_per c - 1)) (bytes h) pl (obj_size c);
          h \<leftarrow> store_ptr (h\<lparr>bytes := m\<rparr>) cur 0;
          Some (h, rmem) } })"

section \<open>Caches\<close>

definition slab_hdr_sz :: u64 where "slab_hdr_sz = 48"

text \<open>
  The search for an order: the state is \<open>(ctx_order, ctx_reserved, ctx_count, ctx_waste)\<close>. A zero
  \<open>alignment\<close> or \<open>objsize\<close> divides by zero. As \<open>i < max_order\<close> always holds in the loop, an order
  with fewer than eight objects is passed over.
\<close>

definition create_step :: "u64 \<Rightarrow> u64 \<Rightarrow> u32 \<Rightarrow> (u32 \<times> u32 \<times> u64 \<times> u64) \<Rightarrow> (u32 \<times> u32 \<times> u64 \<times> u64) option" where
  "create_step objsize align i ctx =
     (if align = 0 then None
      else
        let size = push_bit (unat i) 1 * PAGESIZE;
            pad = (align - slab_hdr_sz mod align) mod align;
            rsv = slab_hdr_sz + pad
        in if size \<le> rsv then Some ctx
        else if objsize = 0 then None
        else
          let rem = size - rsv; objs = rem div objsize
          in if objs < 8 \<and> i < 4 then Some ctx
          else if objs = 0 then Some ctx
          else
            let wst = size - (rsv + objs * objsize); (_, _, _, ctx_waste) = ctx
            in Some (if wst < ctx_waste then (i, ucast rsv, objs, wst) else ctx))"

primrec create_loop :: "nat \<Rightarrow> u64 \<Rightarrow> u64 \<Rightarrow> u32 \<Rightarrow> (u32 \<times> u32 \<times> u64 \<times> u64) \<Rightarrow> (u32 \<times> u32 \<times> u64 \<times> u64) option" where
  "create_loop 0 objsize align i ctx = Some ctx"
| "create_loop (Suc n) objsize align i ctx = do {
     ctx \<leftarrow> create_step objsize align i ctx;
     create_loop n objsize align (i + 1) ctx }"

definition kslab_cache_create ::
  "kheap \<Rightarrow> u64 \<Rightarrow> u64 \<Rightarrow> u64 \<Rightarrow> u64 \<Rightarrow> u64 \<Rightarrow> (kheap \<times> int) option" where
  "kslab_cache_create h cp ident objsize align flags =
     (if cp = 0 then Some (h, -1)
      else do {
        (ctx_order, ctx_reserved, ctx_count, ctx_waste) \<leftarrow> create_loop 4 objsize align 0 (0, 0, 0, -1);
        if ctx_waste = -1 then Some (h, 1)
        else do {
          c \<leftarrow> get_cache h cp;
          let order_bytes = buddy_order_to_val ctx_order;
          let h = put_cache h cp (c\<lparr>ident_ptr := ident, slab_pages := order_bytes div PAGESIZE,
                    alignment := align, obj_size := objsize, metadata := ucast flags,
                    sc_order := ctx_order, waste := ucast ctx_waste, reserved := ctx_reserved,
                    slab_objs_per := ucast ctx_count, empty_slabs := empty_slabs c + 1,
                    max_empty_slabs := KSLAB_PRESET_MAX_EMPTY\<rparr>);
          (h, s) \<leftarrow> kslab_new_slab h cp;
          Some (h, if s = KPAGE_ERR then -1 else 0) } })"

text \<open>Each slab is freed after the walk has moved past it; the heads keep their values.\<close>

partial_function (option) destroy_list :: "kheap \<Rightarrow> u64 \<Rightarrow> slab_link \<Rightarrow> kheap option" where
  "destroy_list h cp l = do {
     p \<leftarrow> slink_get h cp l;
     if p \<noteq> 0 then do {
       c \<leftarrow> get_cache h cp;
       b \<leftarrow> kbud_free (buddy h) p (sc_order c);
       destroy_list (h\<lparr>buddy := b\<rparr>) cp (SNext p) }
     else Some h }"

definition kslab_cache_destroy :: "kheap \<Rightarrow> u64 \<Rightarrow> kheap option" where
  "kslab_cache_destroy h cp = do {
     h \<leftarrow> destroy_list h cp (SHead FullList);
     h \<leftarrow> destroy_list h cp (SHead PartialList);
     h \<leftarrow> destroy_list h cp (SHead EmptyList);
     c \<leftarrow> get_cache h cp;
     Some (put_cache h cp (c\<lparr>obj_size := -1, slab_pages := 0, sc_order := -1\<rparr>)) }"

section \<open>Allocation\<close>

definition kslab_partial_alloc :: "kheap \<Rightarrow> u64 \<Rightarrow> (kheap \<times> u64) option" where
  "kslab_partial_alloc h cp = do {
     c \<leftarrow> get_cache h cp;
     if sc_partial c = 0 then Some (h, KPAGE_ERR)
     else do {
       let slab = sc_partial c;
       s \<leftarrow> get_slab h slab;
       let h = put_slab h slab (s\<lparr>free_count := free_count s - 1\<rparr>);
       h \<leftarrow> (if free_count s - 1 = 0 then kslab_relink_node h cp PartialList FullList slab else Some h);
       s \<leftarrow> get_slab h slab;
       let retalloc = ks_freelist s;
       nx \<leftarrow> load_ptr h retalloc;
       Some (put_slab h slab (s\<lparr>ks_freelist := nx\<rparr>), retalloc) } }"

definition kslab_empty_alloc :: "kheap \<Rightarrow> u64 \<Rightarrow> (kheap \<times> u64) option" where
  "kslab_empty_alloc h cp = do {
     c \<leftarrow> get_cache h cp;
     if sc_empty c = 0 then Some (h, KPAGE_ERR)
     else do {
       let slab = sc_empty c;
       h \<leftarrow> kslab_relink_node h cp EmptyList PartialList slab;
       c \<leftarrow> get_cache h cp;
       let h = put_cache h cp (c\<lparr>empty_slabs := empty_slabs c - 1\<rparr>);
       s \<leftarrow> get_slab h slab;
       let retalloc = ks_freelist s;
       nx \<leftarrow> load_ptr h retalloc;
       Some (put_slab h slab (s\<lparr>ks_freelist := nx, free_count := free_count s - 1\<rparr>), retalloc) } }"

definition kslab_new_alloc :: "kheap \<Rightarrow> u64 \<Rightarrow> (kheap \<times> u64) option" where
  "kslab_new_alloc h cp = do {
     (h, slab) \<leftarrow> kslab_new_slab h cp;
     if slab = KPAGE_ERR then Some (h, KPAGE_ERR) else kslab_empty_alloc h cp }"

definition kslab_alloc :: "kheap \<Rightarrow> u64 \<Rightarrow> (kheap \<times> u64) option" where
  "kslab_alloc h cp =
     (if cp = 0 then Some (h, KPAGE_ERR)
      else do {
        (h, obj) \<leftarrow> kslab_partial_alloc h cp;
        if obj \<noteq> KPAGE_ERR then Some (h, obj)
        else do {
          (h, obj) \<leftarrow> kslab_empty_alloc h cp;
          if obj \<noteq> KPAGE_ERR then Some (h, obj) else kslab_new_alloc h cp } })"

section \<open>Freeing\<close>

definition kslab_free :: "kheap \<Rightarrow> u64 \<Rightarrow> u64 \<Rightarrow> kheap option" where
  "kslab_free h cp obj = do {
     c \<leftarrow> get_cache h cp;
     let slab = obj AND NOT (buddy_order_to_val (sc_order c) - 1);
     s \<leftarrow> get_slab h slab;
     let was_full = (free_count s = 0);
     h \<leftarrow> store_ptr h obj (ks_freelist s);
     let h = put_slab h slab (s\<lparr>ks_freelist := obj, free_count := free_count s + 1\<rparr>);
     let is_empty = (free_count s + 1 = slab_objs_per c);
     if was_full then kslab_relink_node h cp FullList PartialList slab
     else if is_empty then do {
       h \<leftarrow> kslab_relink_node h cp PartialList EmptyList slab;
       c \<leftarrow> get_cache h cp;
       let n = empty_slabs c + 1;
       let n = n + 1;
       let h = put_cache h cp (c\<lparr>empty_slabs := n\<rparr>);
       if n > ucast (max_empty_slabs c) then do {
         h \<leftarrow> kslab_remove_node h cp EmptyList (sc_empty c);
         c \<leftarrow> get_cache h cp;
         Some (put_cache h cp (c\<lparr>empty_slabs := empty_slabs c - 1\<rparr>)) }
       else Some h }
     else Some h }"

declare slab_end.simps [code] slab_seek.simps [code] destroy_list.simps [code]

end
