(* ===== verification/SlabLists.thy ===== *)
theory SlabLists
  imports Slab
begin

text \<open>
  The slab lists of a cache as lists of addresses, the free-list pointers as 8-byte loads and stores
  in the byte memory, and what moving a slab between two lists does.
\<close>

section \<open>Pointers in the byte memory\<close>

lemma bit_foldr_or:
  "bit (foldr (\<lambda>i w. f i OR w) xs w) n \<longleftrightarrow> bit w n \<or> (\<exists>i \<in> set xs. bit (f i :: u64) n)"
  by (induction xs) (auto simp: bit_or_iff)

lemma load64_bit: "bit (load64 m a) n \<longleftrightarrow> n < 64 \<and> bit (m (a + of_nat (n div 8))) (n mod 8)"
proof -
  have b: "bit (push_bit (8 * i) (ucast b) :: u64) n \<longleftrightarrow> n < 64 \<and> i = n div 8 \<and> bit b (n mod 8)" for i and b :: u8
  proof
    assume "bit (push_bit (8 * i) (ucast b) :: u64) n"
    then have h: "8 * i \<le> n" "n < 64" "bit b (n - 8 * i)" by (auto simp: bit_simps)
    then have "n - 8 * i < 8" using bit_imp_le_length [of b "n - 8 * i"] by simp
    then have i: "i = n div 8" using h(1) by linarith
    then have "n - 8 * i = n mod 8" by (simp add: minus_mult_div_eq_mod)
    with h i show "n < 64 \<and> i = n div 8 \<and> bit b (n mod 8)" by simp
  qed (auto simp: bit_simps minus_mult_div_eq_mod)
  show ?thesis unfolding load64_def bit_foldr_or b by auto
qed

lemma load_store_same: "load64 (store64 m a v) a = v"
proof (rule bit_word_eqI)
  fix n assume n: "n < LENGTH(64)"
  then have i: "n div 8 < 8" by simp
  have u: "unat (of_nat (n div 8) :: u64) = n div 8" using i by (intro unat_of_nat64) simp
  then have "(of_nat (n div 8) :: u64) < 8" using i by (simp add: word_less_nat_alt)
  then show "bit (load64 (store64 m a v) a) n = bit v n"
    using n u by (simp add: load64_bit store64_def bit_simps)
qed

text \<open>Two pointers that do not overlap.\<close>

definition apart :: "u64 \<Rightarrow> u64 \<Rightarrow> bool" where
  "apart a b \<longleftrightarrow> 8 \<le> b - a \<and> 8 \<le> a - b"

lemma load_store_other:
  assumes "apart a b"
  shows "load64 (store64 m a v) b = load64 m b"
proof (rule bit_word_eqI)
  fix n assume "n < LENGTH(64)"
  then have i: "n div 8 < 8" by simp
  have "\<not> (b + of_nat (n div 8)) - a < 8"
  proof
    assume c: "(b + of_nat (n div 8)) - a < 8"
    define j where "j = unat (b + of_nat (n div 8) - a)"
    have j: "j < 8" using c by (simp add: j_def word_less_nat_alt)
    have "of_nat j = b + of_nat (n div 8) - a" by (simp add: j_def)
    then have e: "b - a = of_nat j - of_nat (n div 8)" by (simp add: algebra_simps)
    show False
    proof (cases "n div 8 \<le> j")
      case True
      then have "b - a = of_nat (j - n div 8)" using e by (simp add: of_nat_diff)
      then have "unat (b - a) < 8" using j unat_of_nat64 [of "j - n div 8"] by simp
      with assms show False by (simp add: apart_def word_le_nat_alt)
    next
      case False
      then have "a - b = of_nat (n div 8 - j)" using e by (simp add: of_nat_diff algebra_simps)
      then have "unat (a - b) < 8" using i unat_of_nat64 [of "n div 8 - j"] by simp
      with assms show False by (simp add: apart_def word_le_nat_alt)
    qed
  qed
  then show "bit (load64 (store64 m a v) b) n = bit (load64 m b) n"
    by (simp add: load64_bit store64_def)
qed

lemma apart_nat:
  assumes "unat a + 8 \<le> unat b \<or> unat b + 8 \<le> unat a" "unat a + 8 \<le> 2 ^ 64" "unat b + 8 \<le> 2 ^ 64"
  shows "apart a b"
proof -
  have *: "8 \<le> b - a \<and> 8 \<le> a - b" if h: "unat a + 8 \<le> unat b" "unat b + 8 \<le> 2 ^ 64" for a b :: u64
  proof -
    have "unat b < 2 ^ 64" using unsigned_less [of b] by simp
    then have "unat (a - b) = unat a + 2 ^ 64 - unat b" "unat (b - a) = unat b - unat a"
      using h by (simp_all add: unat_sub_if_size word_size)
    with h \<open>unat b < 2 ^ 64\<close> show ?thesis unfolding word_le_nat_alt by (simp add: le_diff_conv2)
  qed
  show ?thesis using assms * [of a b] * [of b a] by (auto simp: apart_def)
qed

section \<open>The lists of a cache\<close>

definition snext :: "kheap \<Rightarrow> u64 \<Rightarrow> u64" where
  "snext h a = (case get_slab h a of None \<Rightarrow> 0 | Some s \<Rightarrow> ks_next s)"

definition slab_lists :: "kheap \<Rightarrow> u64 \<Rightarrow> (slab_list \<Rightarrow> u64 list) \<Rightarrow> bool" where
  "slab_lists h cp L \<longleftrightarrow> (\<exists>c. get_cache h cp = Some c \<and>
     (\<forall>k. chain (snext h) (list_head c k) (L k) 0 \<and> (\<forall>a \<in> set (L k). get_slab h a \<noteq> None))) \<and>
     (\<forall>j k. j \<noteq> k \<longrightarrow> set (L j) \<inter> set (L k) = {})"

text \<open>What a change of the lists leaves alone.\<close>

definition same_slabs :: "kheap \<Rightarrow> kheap \<Rightarrow> bool" where
  "same_slabs h h' \<longleftrightarrow> bytes h' = bytes h \<and> buddy h' = buddy h \<and>
     (\<forall>a. map_option (\<lambda>s. s\<lparr>ks_next := 0\<rparr>) (get_slab h' a) = map_option (\<lambda>s. s\<lparr>ks_next := 0\<rparr>) (get_slab h a))"

definition same_cache :: "kslab_cache \<Rightarrow> kslab_cache \<Rightarrow> bool" where
  "same_cache c c' \<longleftrightarrow> c'\<lparr>sc_full := 0, sc_partial := 0, sc_empty := 0\<rparr> = c\<lparr>sc_full := 0, sc_partial := 0, sc_empty := 0\<rparr>"

lemma get_put_slab [simp]:
  "get_slab (put_slab h a s) b = (if b = 0 then None else if b = a then Some s else get_slab h b)"
  "get_cache (put_slab h a s) cp = get_cache h cp" "bytes (put_slab h a s) = bytes h" "buddy (put_slab h a s) = buddy h"
  by (simp_all add: get_slab_def put_slab_def get_cache_def)

lemma get_put_cache [simp]:
  "get_cache (put_cache h cp c) cp = (if cp = 0 then None else Some c)"
  "get_slab (put_cache h cp c) b = get_slab h b" "bytes (put_cache h cp c) = bytes h" "buddy (put_cache h cp c) = buddy h"
  by (simp_all add: get_slab_def put_cache_def get_cache_def)

lemma slab_nonnull: "get_slab h a = Some s \<Longrightarrow> a \<noteq> 0" "get_cache h cp = Some c \<Longrightarrow> cp \<noteq> 0"
  by (auto simp: get_slab_def get_cache_def)

lemma get_slab_null [simp]: "get_slab h 0 = None"
  by (simp add: get_slab_def)

lemma set_head_other [simp]:
  "(set_head c k v)\<lparr>sc_full := 0, sc_partial := 0, sc_empty := 0\<rparr> = c\<lparr>sc_full := 0, sc_partial := 0, sc_empty := 0\<rparr>"
  by (cases k) simp_all

lemma list_head_set [simp]: "list_head (set_head c j v) k = (if k = j then v else list_head c k)"
  by (cases j; cases k) auto

lemma set_head_same [simp]: "same_cache c (set_head c' j v) = same_cache c c'"
  by (cases j) (simp_all add: same_cache_def)

lemma slink_next: "get_slab h a \<noteq> None \<Longrightarrow> slink_get h cp (SNext a) = Some (snext h a)"
  by (auto simp: slink_get_def snext_def)

definition link_at_end :: "slab_list \<Rightarrow> u64 list \<Rightarrow> slab_link" where
  "link_at_end k xs = (if xs = [] then SHead k else SNext (last xs))"

lemma slab_end_chain:
  "chain (snext h) p xs 0 \<Longrightarrow> (\<And>x. x \<in> set xs \<Longrightarrow> get_slab h x \<noteq> None) \<Longrightarrow> slink_get h cp l = Some p \<Longrightarrow>
   slab_end h cp l = Some (if xs = [] then l else SNext (last xs))"
proof (induction xs arbitrary: p l)
  case Nil
  then show ?case by (subst slab_end.simps) simp
next
  case (Cons x xs)
  then have "slab_end h cp (SNext x) = Some (if xs = [] then SNext x else SNext (last xs))"
    using slink_next [of h x cp] by (intro Cons.IH [of "snext h x"]) auto
  with Cons.prems show ?case by (subst slab_end.simps) auto
qed

lemma slab_seek_chain:
  "chain (snext h) p (xs @ t # ys) 0 \<Longrightarrow> (\<And>x. x \<in> set xs \<Longrightarrow> get_slab h x \<noteq> None) \<Longrightarrow> t \<notin> set xs \<Longrightarrow>
   slink_get h cp l = Some p \<Longrightarrow> slab_seek h cp t l = Some (if xs = [] then l else SNext (last xs))"
proof (induction xs arbitrary: p l)
  case Nil
  then show ?case by (subst slab_seek.simps) simp
next
  case (Cons x xs)
  then have "slab_seek h cp t (SNext x) = Some (if xs = [] then SNext x else SNext (last xs))"
    using slink_next [of h x cp] by (intro Cons.IH [of "snext h x"]) auto
  with Cons.prems show ?case by (subst slab_seek.simps) auto
qed

lemma slink_set_cases:
  assumes "get_cache h cp = Some c" "xs \<noteq> [] \<Longrightarrow> get_slab h (last xs) \<noteq> None"
  obtains h' c' where "slink_set h cp (link_at_end k xs) v = Some h'" "get_cache h' cp = Some c'"
    "same_slabs h h'" "same_cache c c'"
    "snext h' = (if xs = [] then snext h else (snext h)(last xs := v))"
    "\<And>j. list_head c' j = (if xs = [] \<and> j = k then v else list_head c j)"
proof (cases "xs = []")
  case True
  with assms(1) show ?thesis
    by (intro that [of "put_cache h cp (set_head c k v)" "set_head c k v"])
       (auto simp: slink_set_def link_at_end_def same_slabs_def snext_def same_cache_def dest: slab_nonnull)
next
  case False
  with assms(2) obtain s where s: "get_slab h (last xs) = Some s" by auto
  with assms(1) False show ?thesis
    by (intro that [of "put_slab h (last xs) (s\<lparr>ks_next := v\<rparr>)" c])
       (auto simp: slink_set_def link_at_end_def same_slabs_def snext_def same_cache_def fun_eq_iff dest: slab_nonnull)
qed

lemma same_slabs_trans: "same_slabs a b \<Longrightarrow> same_slabs b c \<Longrightarrow> same_slabs a c"
  by (simp add: same_slabs_def)

lemma same_cache_trans: "same_cache a b \<Longrightarrow> same_cache b c \<Longrightarrow> same_cache a c"
  by (simp add: same_cache_def)

lemma same_slabs_none: "same_slabs h h' \<Longrightarrow> get_slab h' a = None \<longleftrightarrow> get_slab h a = None"
  unfolding same_slabs_def by (metis option.map_disc_iff)

lemma same_slabs_next: "same_slabs h (put_slab h a (s\<lparr>ks_next := v\<rparr>)) \<longleftrightarrow> same_slabs h (put_slab h a (s\<lparr>ks_next := 0\<rparr>))"
  by (simp add: same_slabs_def)

text \<open>Moving a slab to the end of another list.\<close>

lemma kslab_relink_spec:
  assumes L: "slab_lists h cp L" and c: "get_cache h cp = Some c" and f: "L src = xs @ t # ys" and ne: "src \<noteq> dst"
  shows "\<exists>h' c'. kslab_relink_node h cp src dst t = Some h' \<and> get_cache h' cp = Some c' \<and> same_cache c c' \<and>
    same_slabs h h' \<and> slab_lists h' cp (L(src := xs @ ys, dst := L dst @ [t]))"
proof -
  have ch: "\<And>k. chain (snext h) (list_head c k) (L k) 0" and mp: "\<And>k a. a \<in> set (L k) \<Longrightarrow> get_slab h a \<noteq> None"
    and dj: "\<And>j k. j \<noteq> k \<Longrightarrow> set (L j) \<inter> set (L k) = {}"
    using L c by (auto simp: slab_lists_def)
  note chs = ch [of src, unfolded f]
  have d: "distinct (xs @ t # ys)" by (rule chain_distinct [OF chs])
  have tn: "t \<noteq> 0" "t \<notin> set xs" "t \<notin> set ys" "get_slab h t \<noteq> None" "t \<notin> set (L dst)"
    using chain_nonnull [OF chs] d mp [of t src] dj [OF ne] f by auto
  then obtain s where s: "get_slab h t = Some s" by blast
  have sn: "ks_next s = snext h t" using s by (simp add: snext_def)
  have seek: "slab_seek h cp t (SHead src) = Some (link_at_end src xs)"
    unfolding link_at_end_def
    by (rule slab_seek_chain [OF chs]) (use mp [of _ src] f tn c in \<open>auto simp: slink_get_def\<close>)
  have get: "slink_get h cp (link_at_end src xs) = Some t"
  proof (cases "xs = []")
    case True
    then show ?thesis using chs c by (simp add: link_at_end_def slink_get_def)
  next
    case False
    then obtain us u where xs: "xs = us @ [u]" by (metis rev_exhaust)
    have "snext h u = t" using chs by (auto simp: xs chain_append)
    moreover have "get_slab h u \<noteq> None" using mp [of u src] f xs by simp
    ultimately show ?thesis by (simp add: link_at_end_def xs slink_next)
  qed
  have "xs \<noteq> [] \<Longrightarrow> get_slab h (last xs) \<noteq> None" using mp [of "last xs" src] f by simp
  from slink_set_cases [OF c this] obtain h1 c1 where h1: "slink_set h cp (link_at_end src xs) (snext h t) = Some h1"
    "get_cache h1 cp = Some c1" "same_slabs h h1" "same_cache c c1"
    "snext h1 = (if xs = [] then snext h else (snext h)(last xs := snext h t))"
    "\<And>j. list_head c1 j = (if xs = [] \<and> j = src then snext h t else list_head c j)" by blast
  have "get_slab h1 t \<noteq> None" using same_slabs_none [OF h1(3)] tn(4) by simp
  then obtain s1 where s1: "get_slab h1 t = Some s1" by blast
  define h2 where "h2 = put_slab h1 t (s1\<lparr>ks_next := 0\<rparr>)"
  have h2: "get_cache h2 cp = Some c1" "same_slabs h1 h2" "snext h2 = (snext h1)(t := 0)"
    using h1(2) s1 tn(1) by (auto simp: h2_def same_slabs_def snext_def fun_eq_iff)
  have ld: "last xs \<notin> set (L j)" if "xs \<noteq> []" "j \<noteq> src" for j
  proof -
    have "last xs \<in> set (L src)" using that(1) f by simp
    then show ?thesis using dj [OF that(2)] by blast
  qed
  have src1: "chain (snext h1) (list_head c1 src) (xs @ ys) 0"
    using chain_remove [OF chs d] by (cases "xs = []") (simp_all add: h1(5,6))
  have oth1: "chain (snext h1) (list_head c1 j) (L j) 0" if "j \<noteq> src" for j
    using ch [of j] ld [OF _ that] that by (cases "xs = []") (simp_all add: h1(5,6) chain_upd)
  have src2: "chain (snext h2) (list_head c1 src) (xs @ ys) 0"
    using src1 tn by (simp add: h2(3) chain_upd)
  have oth2: "chain (snext h2) (list_head c1 j) (L j) 0" if "j \<noteq> src" for j
    using oth1 [OF that] dj [OF that] f by (subst h2(3), subst chain_upd) auto
  have mp2: "get_slab h2 a \<noteq> None" if "a \<in> set (L k)" for a k
    using mp [OF that] same_slabs_none [OF h1(3)] same_slabs_none [OF h2(2)] by simp
  have "slab_end h2 cp (SHead dst) = Some (link_at_end dst (L dst))"
    unfolding link_at_end_def
    by (rule slab_end_chain [OF oth2]) (use ne mp2 [of _ dst] h2(1) in \<open>auto simp: slink_get_def\<close>)
  note en = this
  have "L dst \<noteq> [] \<Longrightarrow> get_slab h2 (last (L dst)) \<noteq> None" using mp2 [of "last (L dst)" dst] by simp
  from slink_set_cases [OF h2(1) this] obtain h3 c3 where h3: "slink_set h2 cp (link_at_end dst (L dst)) t = Some h3"
    "get_cache h3 cp = Some c3" "same_slabs h2 h3" "same_cache c1 c3"
    "snext h3 = (if L dst = [] then snext h2 else (snext h2)(last (L dst) := t))"
    "\<And>j. list_head c3 j = (if L dst = [] \<and> j = dst then t else list_head c1 j)" by blast
  have run: "kslab_relink_node h cp src dst t = Some h3"
    unfolding kslab_relink_node_def Let_def
    using seek get s sn h1(1) s1 en h3(1) tn(1) by (simp add: h2_def)
  have lo: "last (L dst) \<notin> set (L j)" if "L dst \<noteq> []" "j \<noteq> dst" for j
  proof -
    have "last (L dst) \<in> set (L dst)" using that(1) by simp
    then show ?thesis using dj [OF that(2)] by blast
  qed
  have dst3: "chain (snext h3) (list_head c3 dst) (L dst @ [t]) 0"
    using chain_snoc [OF oth2 [of dst] tn(1,5)] ne by (cases "L dst = []") (simp_all add: h3(5,6) h2(3))
  have oth3: "chain (snext h3) (list_head c3 j) (L j) 0" if "j \<noteq> src" "j \<noteq> dst" for j
    using oth2 [OF that(1)] lo [OF _ that(2)] that by (cases "L dst = []") (simp_all add: h3(5,6) chain_upd)
  have src3: "chain (snext h3) (list_head c3 src) (xs @ ys) 0"
    using src2 lo [of src] ne f by (cases "L dst = []") (simp_all add: h3(5,6) chain_upd)
  let ?L = "L(src := xs @ ys, dst := L dst @ [t])"
  have "slab_lists h3 cp ?L"
    unfolding slab_lists_def
  proof (intro conjI exI [of _ c3] allI impI ballI)
    show "get_cache h3 cp = Some c3" by (rule h3(2))
    show "chain (snext h3) (list_head c3 k) (?L k) 0" for k
      using dst3 oth3 src3 ne by (cases "k = dst"; cases "k = src") auto
    show "get_slab h3 a \<noteq> None" if "a \<in> set (?L k)" for a k
    proof -
      have "a \<in> set (L k) \<or> a \<in> set (L src) \<or> a \<in> set (L dst)" using that f by (auto split: if_splits)
      then have "get_slab h2 a \<noteq> None" using mp2 by blast
      then show ?thesis using same_slabs_none [OF h3(3)] by simp
    qed
    show "set (?L j) \<inter> set (?L k) = {}" if "j \<noteq> k" for j k
      using dj [OF that] dj [of j src] dj [of k src] dj [of j dst] dj [of k dst] that d f ne tn by auto
  qed
  then show ?thesis
    using run h3(2) same_cache_trans [OF h1(4) h3(4)] same_slabs_trans [OF same_slabs_trans [OF h1(3) h2(2)] h3(3)]
    by blast
qed
end
