(* ===== verification/SlabInv.thy ===== *)
theory SlabInv
  imports SlabLists
begin

text \<open>
  The invariant of a slab cache: every slab lies at a multiple of its size, its free list holds
  distinct objects of it, and the list the slab is on says how many it has. Allocation takes the head
  of a free list and freeing puts an object back, both moving the slab between the lists as needed.
\<close>

section \<open>Objects of a slab\<close>

definition slab_bytes :: "kslab_cache \<Rightarrow> nat" where
  "slab_bytes c = 4096 * 2 ^ unat (sc_order c)"

definition obj_addr :: "kslab_cache \<Rightarrow> u64 \<Rightarrow> nat \<Rightarrow> u64" where
  "obj_addr c a i = a + of_nat (unat (reserved c) + i * unat (obj_size c))"

definition objs_of :: "kslab_cache \<Rightarrow> u64 \<Rightarrow> u64 set" where
  "objs_of c a = obj_addr c a ` {..<unat (slab_objs_per c)}"

definition cache_geom :: "kslab_cache \<Rightarrow> bool" where
  "cache_geom c \<longleftrightarrow> unat (sc_order c) \<le> 3 \<and> 8 \<le> unat (obj_size c) \<and> 8 \<le> unat (slab_objs_per c) \<and>
     48 \<le> unat (reserved c) \<and> unat (reserved c) + unat (slab_objs_per c) * unat (obj_size c) \<le> slab_bytes c"

definition slab_place :: "kslab_cache \<Rightarrow> u64 \<Rightarrow> bool" where
  "slab_place c a \<longleftrightarrow> slab_bytes c dvd unat a \<and> unat a + slab_bytes c \<le> 2 ^ 64"

lemma same_cache_fields:
  assumes "same_cache c c'"
  shows "sc_order c' = sc_order c" "obj_size c' = obj_size c" "slab_objs_per c' = slab_objs_per c"
    "reserved c' = reserved c" "empty_slabs c' = empty_slabs c" "max_empty_slabs c' = max_empty_slabs c"
  using assms unfolding same_cache_def by (cases c; cases c'; simp)+

text \<open>The fields that fix the layout of a slab.\<close>

definition same_shape :: "kslab_cache \<Rightarrow> kslab_cache \<Rightarrow> bool" where
  "same_shape c c' \<longleftrightarrow> sc_order c' = sc_order c \<and> obj_size c' = obj_size c \<and>
     slab_objs_per c' = slab_objs_per c \<and> reserved c' = reserved c"

lemma same_cache_shape: "same_cache c c' \<Longrightarrow> same_shape c c'"
  by (simp add: same_shape_def same_cache_fields)

lemma same_shape_geom:
  assumes "same_shape c c'"
  shows "cache_geom c' = cache_geom c" "objs_of c' = objs_of c" "slab_place c' = slab_place c"
  using assms unfolding same_shape_def
  by (auto simp: cache_geom_def slab_bytes_def objs_of_def obj_addr_def slab_place_def fun_eq_iff)

lemma obj_bounds:
  assumes g: "cache_geom c" and p: "slab_place c a" and i: "i < unat (slab_objs_per c)"
  shows "unat (obj_addr c a i) = unat a + unat (reserved c) + i * unat (obj_size c)"
    "unat (reserved c) + i * unat (obj_size c) + 8 \<le> slab_bytes c"
proof -
  have "Suc i * unat (obj_size c) \<le> unat (slab_objs_per c) * unat (obj_size c)"
    using i by (intro mult_le_mono1) simp
  then show b: "unat (reserved c) + i * unat (obj_size c) + 8 \<le> slab_bytes c"
    using g by (simp add: cache_geom_def)
  have "unat a + (unat (reserved c) + i * unat (obj_size c)) < 2 ^ 64" using b p by (simp add: slab_place_def)
  then show "unat (obj_addr c a i) = unat a + unat (reserved c) + i * unat (obj_size c)"
    unfolding obj_addr_def by (subst unat_plus_of_nat) auto
qed

lemma obj_range:
  assumes "cache_geom c" "slab_place c a" "x \<in> objs_of c a"
  shows "unat a + 48 \<le> unat x" "unat x + 8 \<le> unat a + slab_bytes c" "x \<noteq> 0" "x \<noteq> KPAGE_ERR"
proof -
  from assms(3) obtain i where i: "i < unat (slab_objs_per c)" "x = obj_addr c a i" by (auto simp: objs_of_def)
  note b = obj_bounds [OF assms(1,2) i(1)]
  show l: "unat a + 48 \<le> unat x" and u: "unat x + 8 \<le> unat a + slab_bytes c"
    using b assms(1) by (simp_all add: i(2) cache_geom_def)
  show "x \<noteq> 0" using l by auto
  have "unat x < 2 ^ 64 - 1" using u assms(2) by (simp add: slab_place_def)
  then show "x \<noteq> KPAGE_ERR" unfolding KPAGE_ERR_def using unat_minus_1 by auto
qed

lemma dvd_gap: "(S :: nat) dvd a \<Longrightarrow> S dvd b \<Longrightarrow> a < b \<Longrightarrow> a + S \<le> b"
  by (metis add_le_imp_le_left dvd_diff_nat dvd_imp_le le_add_diff_inverse less_imp_le_nat zero_less_diff add_le_cancel_left)

lemma objs_apart:
  assumes g: "cache_geom c" and p: "slab_place c a" "slab_place c b"
    and x: "x \<in> objs_of c a" and y: "y \<in> objs_of c b" and ne: "x \<noteq> y"
  shows "apart x y"
proof (rule apart_nat)
  note rx = obj_range [OF g p(1) x] and ry = obj_range [OF g p(2) y]
  show "unat x + 8 \<le> 2 ^ 64" "unat y + 8 \<le> 2 ^ 64" using rx ry p by (auto simp: slab_place_def)
  show "unat x + 8 \<le> unat y \<or> unat y + 8 \<le> unat x"
  proof (cases "a = b")
    case True
    from x y obtain i j where i: "i < unat (slab_objs_per c)" "x = obj_addr c a i"
      and j: "j < unat (slab_objs_per c)" "y = obj_addr c a j" by (auto simp: objs_of_def True)
    have "i \<noteq> j" using ne i j by auto
    then have "Suc i * unat (obj_size c) \<le> j * unat (obj_size c) \<or> Suc j * unat (obj_size c) \<le> i * unat (obj_size c)"
      by (metis Suc_leI linorder_neqE_nat mult_le_mono1)
    then show ?thesis using obj_bounds [OF g p(1) i(1)] obj_bounds [OF g p(1) j(1)] g i(2) j(2)
      by (auto simp: cache_geom_def)
  next
    case False
    then have "unat a < unat b \<or> unat b < unat a" by (metis linorder_neqE_nat word_unat_eq_iff)
    then have "unat a + slab_bytes c \<le> unat b \<or> unat b + slab_bytes c \<le> unat a"
      using p dvd_gap by (auto simp: slab_place_def)
    then show ?thesis using rx ry by linarith
  qed
qed

text \<open>The base of the slab from the address of an object: \<open>pv & ~(size - 1)\<close>.\<close>

lemma block_base:
  fixes a x :: u64
  assumes "2 ^ m dvd unat a" "unat x < 2 ^ m" "m < 64"
  shows "(a + x) AND NOT (push_bit m 1 - 1) = a"
proof -
  have na: "\<not> bit a n" if "n < m" for n
  proof -
    have "(2 :: nat) ^ (n + 1) dvd 2 ^ m" using that by (intro le_imp_power_dvd) simp
    then have "2 ^ (n + 1) dvd unat a" using assms(1) by (rule dvd_trans)
    then have "\<not> bit (unat a) n" by (auto simp: bit_iff_odd elim!: dvdE)
    then show ?thesis using that assms(3) by (simp add: bit_unsigned_iff)
  qed
  have nx: "\<not> bit x n" if "m \<le> n" for n
  proof -
    have "unat x < 2 ^ n" using assms(2) that by (meson less_le_trans one_le_numeral power_increasing)
    then have "\<not> bit (unat x) n" by (simp add: bit_iff_odd)
    then show ?thesis by (simp add: bit_unsigned_iff)
  qed
  have "a + x = a OR x" using na nx by (intro disjunctive_add) (metis not_le)
  moreover have "push_bit m 1 - 1 = (mask m :: u64)" by (simp add: mask_eq_exp_minus_1 push_bit_eq_mult)
  ultimately show ?thesis using na nx
    by (intro bit_word_eqI) (auto simp: bit_simps not_less intro: leI)
qed

lemma obj_base:
  assumes g: "cache_geom c" and p: "slab_place c a" and x: "x \<in> objs_of c a"
  shows "x AND NOT (buddy_order_to_val (sc_order c) - 1) = a"
proof -
  let ?k = "unat (sc_order c)"
  have k: "?k \<le> 3" using g by (simp add: cache_geom_def)
  have "\<not> sc_order c > PFRAME_MAX_ORDER - 1" using k by (simp add: PFRAME_MAX_ORDER_def word_less_nat_alt)
  then have v: "buddy_order_to_val (sc_order c) = push_bit (12 + ?k) 1"
    by (simp add: buddy_order_to_val_def PAGESIZE_def push_bit_eq_mult power_add mult.commute)
  have S: "slab_bytes c = 2 ^ (12 + ?k)" by (simp add: slab_bytes_def power_add)
  from x obtain i where i: "i < unat (slab_objs_per c)" "x = obj_addr c a i" by (auto simp: objs_of_def)
  let ?o = "unat (reserved c) + i * unat (obj_size c)"
  have o: "?o < 2 ^ (12 + ?k)" using obj_bounds(2) [OF g p i(1)] by (simp add: S)
  also have "(2 :: nat) ^ (12 + ?k) \<le> 2 ^ 15" using k by (intro power_increasing) auto
  finally have "unat (of_nat ?o :: u64) = ?o" by (intro unat_of_nat64) simp
  then have "unat (of_nat ?o :: u64) < 2 ^ (12 + ?k)" using o by simp
  moreover have "2 ^ (12 + ?k) dvd unat a" using p by (simp add: slab_place_def S)
  ultimately show ?thesis unfolding v i(2) obj_addr_def using k by (intro block_base) auto
qed

section \<open>The invariant of a cache\<close>

definition slab_ok :: "kheap \<Rightarrow> kslab_cache \<Rightarrow> u64 \<Rightarrow> u64 list \<Rightarrow> bool" where
  "slab_ok h c a fl \<longleftrightarrow> slab_place c a \<and> set fl \<subseteq> objs_of c a \<and>
     (\<exists>s. get_slab h a = Some s \<and> chain (load64 (bytes h)) (ks_freelist s) fl 0 \<and> free_count s = of_nat (length fl))"

definition filled :: "kslab_cache \<Rightarrow> slab_list \<Rightarrow> nat \<Rightarrow> bool" where
  "filled c k n = (case k of FullList \<Rightarrow> n = 0 | PartialList \<Rightarrow> 0 < n \<and> n < unat (slab_objs_per c)
     | EmptyList \<Rightarrow> n = unat (slab_objs_per c))"

definition slab_inv :: "kheap \<Rightarrow> u64 \<Rightarrow> kslab_cache \<Rightarrow> (slab_list \<Rightarrow> u64 list) \<Rightarrow> (u64 \<Rightarrow> u64 list) \<Rightarrow> bool" where
  "slab_inv h cp c L fl \<longleftrightarrow> get_cache h cp = Some c \<and> cache_geom c \<and> slab_lists h cp L \<and>
     (\<forall>k. \<forall>a \<in> set (L k). slab_ok h c a (fl a) \<and> filled c k (length (fl a)))"

lemma slab_okD:
  assumes "slab_ok h c a fl"
  obtains s where "get_slab h a = Some s" "chain (load64 (bytes h)) (ks_freelist s) fl 0"
    "free_count s = of_nat (length fl)" "slab_place c a" "set fl \<subseteq> objs_of c a"
  using assms by (auto simp: slab_ok_def)

lemma free_list_card:
  assumes g: "cache_geom c" and o: "slab_ok h c a fl"
  shows "length fl \<le> unat (slab_objs_per c)" "distinct fl" "unat (of_nat (length fl) :: u32) = length fl"
proof -
  obtain s :: kslab where s: "chain (load64 (bytes h)) (ks_freelist s) fl 0" "set fl \<subseteq> objs_of c a"
    using o by (auto simp: slab_ok_def)
  show d: "distinct fl" by (rule chain_distinct [OF s(1)])
  have "card (objs_of c a) \<le> unat (slab_objs_per c)"
    unfolding objs_of_def using card_image_le [of "{..<unat (slab_objs_per c)}" "obj_addr c a"] by simp
  moreover have "card (set fl) \<le> card (objs_of c a)" using s(2) by (intro card_mono) (auto simp: objs_of_def)
  ultimately show l: "length fl \<le> unat (slab_objs_per c)" using distinct_card [OF d] by simp
  have "unat (slab_objs_per c) < 2 ^ 32" using unsigned_less [of "slab_objs_per c"] by simp
  with l show "unat (of_nat (length fl) :: u32) = length fl" by (simp add: unat_of_nat)
qed

lemma slab_inv_nth:
  assumes i: "slab_inv h cp c L fl" and a: "a \<in> set (L k)"
  shows "slab_ok h c a (fl a)" "filled c k (length (fl a))"
  using assms by (auto simp: slab_inv_def)

lemma slab_lists_disjoint: "slab_lists h cp L \<Longrightarrow> a \<in> set (L j) \<Longrightarrow> a \<in> set (L k) \<Longrightarrow> j = k"
  unfolding slab_lists_def by blast

lemma same_slabs_get:
  assumes "same_slabs h h'" "get_slab h a = Some s"
  obtains s' where "get_slab h' a = Some s'" "ks_freelist s' = ks_freelist s" "free_count s' = free_count s"
proof -
  from assms have e: "map_option (\<lambda>s. s\<lparr>ks_next := 0\<rparr>) (get_slab h' a) = Some (s\<lparr>ks_next := 0\<rparr>)"
    by (simp add: same_slabs_def)
  then obtain s' where s': "get_slab h' a = Some s'" "s'\<lparr>ks_next := 0\<rparr> = s\<lparr>ks_next := 0\<rparr>" by auto
  then show ?thesis using that by (cases s; cases s'; simp)
qed

lemma snext_put:
  "a \<noteq> 0 \<Longrightarrow> get_slab h a = Some s \<Longrightarrow> ks_next s' = ks_next s \<Longrightarrow> snext (put_slab h a s') = snext h"
  by (auto simp: snext_def fun_eq_iff)

lemma slab_lists_put:
  assumes "get_slab h a = Some s" "ks_next s' = ks_next s"
  shows "slab_lists (put_slab h a s') cp L = slab_lists h cp L"
proof -
  have a: "a \<noteq> 0" using slab_nonnull(1) [OF assms(1)] .
  have "get_slab (put_slab h a s') b = None \<longleftrightarrow> get_slab h b = None" for b using assms(1) a by auto
  then show ?thesis by (simp add: slab_lists_def snext_put [OF a assms])
qed

lemma heap_fields [simp]:
  "snext (h\<lparr>bytes := m\<rparr>) = snext h" "get_slab (h\<lparr>bytes := m\<rparr>) a = get_slab h a" "get_cache (h\<lparr>bytes := m\<rparr>) cp = get_cache h cp"
  "snext (h\<lparr>buddy := b\<rparr>) = snext h" "get_slab (h\<lparr>buddy := b\<rparr>) a = get_slab h a" "get_cache (h\<lparr>buddy := b\<rparr>) cp = get_cache h cp"
  by (simp_all add: get_cache_def get_slab_def snext_def fun_eq_iff)

lemma slab_lists_bytes [simp]: "slab_lists (h\<lparr>bytes := m\<rparr>) cp L = slab_lists h cp L"
  by (simp add: slab_lists_def)

lemma slab_lists_buddy [simp]: "slab_lists (h\<lparr>buddy := b\<rparr>) cp L = slab_lists h cp L"
  by (simp add: slab_lists_def)

text \<open>Slabs other than the one worked on keep their free lists.\<close>

lemma slab_ok_frame:
  assumes o: "slab_ok h c b fl" and s: "map_option (\<lambda>s. s\<lparr>ks_next := 0\<rparr>) (get_slab h' b) = map_option (\<lambda>s. s\<lparr>ks_next := 0\<rparr>) (get_slab h b)"
    and m: "\<And>y. y \<in> set fl \<Longrightarrow> load64 (bytes h') y = load64 (bytes h) y" and c: "same_shape c c'"
  shows "slab_ok h' c' b fl"
proof -
  from o obtain s where f: "get_slab h b = Some s" "chain (load64 (bytes h)) (ks_freelist s) fl 0"
    "free_count s = of_nat (length fl)" "slab_place c b" "set fl \<subseteq> objs_of c b" by (rule slab_okD)
  from f(1) s obtain s' where s': "get_slab h' b = Some s'" "s'\<lparr>ks_next := 0\<rparr> = s\<lparr>ks_next := 0\<rparr>" by auto
  then have "ks_freelist s' = ks_freelist s" "free_count s' = free_count s" by (cases s; cases s'; simp)+
  moreover have "chain (load64 (bytes h')) (ks_freelist s) fl 0" using f(2) chain_cong [of fl "load64 (bytes h')" "load64 (bytes h)"] m by blast
  ultimately show ?thesis using f s' same_shape_geom [OF c] by (auto simp: slab_ok_def)
qed

lemma filled_same: "same_shape c c' \<Longrightarrow> filled c' k n = filled c k n"
  by (cases k) (simp_all add: filled_def same_shape_def)

text \<open>One slab gets a new free list and perhaps another place; the others stay as they are.\<close>

lemma slab_inv_step:
  assumes i: "slab_inv h cp c L fl" and c: "get_cache h' cp = Some c'" "same_shape c c'" and L: "slab_lists h' cp L'"
    and o: "slab_ok h' c' a xs" and k: "a \<in> set (L' k)" "filled c k (length xs)"
    and r: "\<And>j b. b \<noteq> a \<Longrightarrow> b \<in> set (L' j) \<Longrightarrow> b \<in> set (L j)"
    and s: "\<And>b. b \<noteq> a \<Longrightarrow> map_option (\<lambda>s. s\<lparr>ks_next := 0\<rparr>) (get_slab h' b) = map_option (\<lambda>s. s\<lparr>ks_next := 0\<rparr>) (get_slab h b)"
    and m: "\<And>b j y. b \<noteq> a \<Longrightarrow> b \<in> set (L j) \<Longrightarrow> y \<in> set (fl b) \<Longrightarrow> load64 (bytes h') y = load64 (bytes h) y"
  shows "slab_inv h' cp c' L' (fl(a := xs))"
proof -
  have "slab_ok h' c' b ((fl(a := xs)) b) \<and> filled c' j (length ((fl(a := xs)) b))" if b: "b \<in> set (L' j)" for b j
  proof (cases "b = a")
    case True
    then have "j = k" using slab_lists_disjoint [OF L b [unfolded True] k(1)] by blast
    then show ?thesis using True o k(2) filled_same [OF c(2)] by simp
  next
    case False
    note bj = r [OF False b]
    have "slab_ok h' c' b (fl b)"
      by (rule slab_ok_frame [OF slab_inv_nth(1) [OF i bj] s [OF False] m [OF False bj] c(2)])
    then show ?thesis using False slab_inv_nth(2) [OF i bj] filled_same [OF c(2)] by simp
  qed
  moreover have "cache_geom c'" using i same_shape_geom(1) [OF c(2)] by (simp add: slab_inv_def)
  ultimately show ?thesis using c(1) L by (auto simp: slab_inv_def)
qed

text \<open>The slabs of a cache, in whatever list.\<close>

definition slabs_of :: "(slab_list \<Rightarrow> u64 list) \<Rightarrow> u64 set" where
  "slabs_of L = set (L FullList) \<union> set (L PartialList) \<union> set (L EmptyList)"

section \<open>Allocation\<close>

text \<open>Taking the head of the free list of a slab that was found.\<close>

lemma slab_ok_take:
  assumes "slab_ok h c a fl" "fl \<noteq> []" "cache_geom c"
  obtains s x xs where "get_slab h a = Some s" "fl = x # xs" "ks_freelist s = x" "load_ptr h x = Some (load64 (bytes h) x)"
    "chain (load64 (bytes h)) (load64 (bytes h) x) xs 0" "free_count s = of_nat (length fl)" "x \<noteq> KPAGE_ERR"
    "free_count s - 1 = of_nat (length xs)" "unat (of_nat (length xs) :: u32) = length xs"
    "x \<in> objs_of c a" "x \<notin> set xs"
proof -
  from assms(1) obtain s where s: "get_slab h a = Some s" "chain (load64 (bytes h)) (ks_freelist s) fl 0"
    "free_count s = of_nat (length fl)" "slab_place c a" "set fl \<subseteq> objs_of c a" by (rule slab_okD)
  from assms(2) obtain x xs where x: "fl = x # xs" by (cases fl) auto
  note cd = free_list_card [OF assms(3,1)]
  have "unat (slab_objs_per c) < 2 ^ 32" using unsigned_less [of "slab_objs_per c"] by simp
  then have "length xs < 2 ^ 32" using cd(1) x by simp
  then have "unat (of_nat (length xs) :: u32) = length xs" by (simp add: unat_of_nat)
  moreover have "x \<in> objs_of c a" using s(5) x by simp
  ultimately show ?thesis
    using s x cd(2) obj_range(4) [OF assms(3) s(4)] by (intro that [of s x xs]) (auto simp: load_ptr_def)
qed

lemma partial_alloc_spec:
  assumes i: "slab_inv h cp c L fl" and a: "L PartialList = a # rest"
  shows "\<exists>h' c' x xs L'. fl a = x # xs \<and> kslab_partial_alloc h cp = Some (h', x) \<and> x \<noteq> KPAGE_ERR \<and>
    slab_inv h' cp c' L' (fl(a := xs)) \<and> same_shape c c' \<and> bytes h' = bytes h \<and> buddy h' = buddy h \<and>
    slabs_of L' = slabs_of L"
proof -
  have ain: "a \<in> set (L PartialList)" using a by simp
  note oa = slab_inv_nth [OF i ain]
  have g: "cache_geom c" and c: "get_cache h cp = Some c" and L: "slab_lists h cp L" using i by (auto simp: slab_inv_def)
  have hd: "sc_partial c = a" "a \<noteq> 0"
    using L c a unfolding slab_lists_def by (auto dest: spec [of _ PartialList])
  have "fl a \<noteq> []" using oa(2) by (auto simp: filled_def)
  from slab_ok_take [OF oa(1) this g] obtain s x xs where
    s: "get_slab h a = Some s" "fl a = x # xs" "ks_freelist s = x" "load_ptr h x = Some (load64 (bytes h) x)"
    "chain (load64 (bytes h)) (load64 (bytes h) x) xs 0" "x \<noteq> KPAGE_ERR"
    "free_count s - 1 = of_nat (length xs)" "unat (of_nat (length xs) :: u32) = length xs" by blast
  have z: "free_count s - 1 = 0 \<longleftrightarrow> xs = []" unfolding s(7) of_nat_word_zero [OF s(8)] by simp
  define h1 where "h1 = put_slab h a (s\<lparr>free_count := free_count s - 1\<rparr>)"
  have L1: "slab_lists h1 cp L" using L slab_lists_put [OF s(1)] by (simp add: h1_def)
  have c1: "get_cache h1 cp = Some c" using c by (simp add: h1_def)
  define L' where "L' = (if xs = [] then L(PartialList := [] @ rest, FullList := L FullList @ [a]) else L)"
  have "\<exists>h2 c2. (if free_count s - 1 = 0 then kslab_relink_node h1 cp PartialList FullList a else Some h1) = Some h2 \<and>
    get_cache h2 cp = Some c2 \<and> same_cache c c2 \<and> same_slabs h1 h2 \<and> slab_lists h2 cp L'"
  proof (cases "xs = []")
    case True
    from kslab_relink_spec [OF L1 c1, of PartialList "[]" a rest FullList] a True z show ?thesis by (simp add: L'_def)
  next
    case False
    then show ?thesis using z c1 L1 by (auto simp: L'_def same_cache_def same_slabs_def)
  qed
  then obtain h2 c2 where h2: "(if free_count s - 1 = 0 then kslab_relink_node h1 cp PartialList FullList a else Some h1) = Some h2"
    "get_cache h2 cp = Some c2" "same_cache c c2" "same_slabs h1 h2" "slab_lists h2 cp L'" by blast
  have "get_slab h1 a = Some (s\<lparr>free_count := free_count s - 1\<rparr>)" using hd(2) by (simp add: h1_def)
  from same_slabs_get [OF h2(4) this] obtain s2 where
    s2: "get_slab h2 a = Some s2" "ks_freelist s2 = x" "free_count s2 = of_nat (length xs)" using s(3,7) by auto
  define h3 where "h3 = put_slab h2 a (s2\<lparr>ks_freelist := load64 (bytes h) x\<rparr>)"
  have by2: "bytes h2 = bytes h" "buddy h2 = buddy h" using h2(4) by (simp_all add: same_slabs_def h1_def)
  have run: "kslab_partial_alloc h cp = Some (h3, x)"
    using c hd s(1,4) h2(1) s2(1,2) by2(1) by (simp add: kslab_partial_alloc_def h1_def [symmetric] h3_def load_ptr_def split: if_splits)
  have sh: "same_shape c c2" by (rule same_cache_shape [OF h2(3)])
  have "slab_inv h3 cp c2 L' (fl(a := xs))"
  proof (rule slab_inv_step [OF i _ sh])
    show "get_cache h3 cp = Some c2" using h2(2) by (simp add: h3_def)
    show "slab_lists h3 cp L'" using h2(5) slab_lists_put [OF s2(1)] by (simp add: h3_def)
    show "slab_ok h3 c2 a xs"
      using oa(1) s(2,5) s2 same_shape_geom [OF sh] by2 hd(2) by (auto simp: slab_ok_def h3_def)
    show "a \<in> set (L' (if xs = [] then FullList else PartialList))" using ain by (simp add: L'_def)
    show "filled c (if xs = [] then FullList else PartialList) (length xs)"
      using free_list_card(1) [OF g oa(1)] s(2) by (auto simp: filled_def)
    show "\<And>j b. b \<noteq> a \<Longrightarrow> b \<in> set (L' j) \<Longrightarrow> b \<in> set (L j)" using a by (auto simp: L'_def split: if_splits)
  qed (use h2(4) by2 in \<open>auto simp: h3_def same_slabs_def h1_def\<close>)
  moreover have "slabs_of L' = slabs_of L" using a by (auto simp: slabs_of_def L'_def)
  moreover have "bytes h3 = bytes h" "buddy h3 = buddy h" using by2 by (simp_all add: h3_def)
  ultimately show ?thesis using run s(2,6) sh by blast
qed

lemma empty_alloc_spec:
  assumes i: "slab_inv h cp c L fl" and a: "L EmptyList = a # rest"
  shows "\<exists>h' c' x xs L'. fl a = x # xs \<and> kslab_empty_alloc h cp = Some (h', x) \<and> x \<noteq> KPAGE_ERR \<and>
    slab_inv h' cp c' L' (fl(a := xs)) \<and> same_shape c c' \<and> bytes h' = bytes h \<and> buddy h' = buddy h \<and>
    slabs_of L' = slabs_of L"
proof -
  have ain: "a \<in> set (L EmptyList)" using a by simp
  note oa = slab_inv_nth [OF i ain]
  have g: "cache_geom c" and c: "get_cache h cp = Some c" and L: "slab_lists h cp L" using i by (auto simp: slab_inv_def)
  have hd: "sc_empty c = a" "a \<noteq> 0"
    using L c a unfolding slab_lists_def by (auto dest: spec [of _ EmptyList])
  have full: "length (fl a) = unat (slab_objs_per c)" "8 \<le> unat (slab_objs_per c)"
    using oa(2) g by (auto simp: filled_def cache_geom_def)
  then have "fl a \<noteq> []" by auto
  from slab_ok_take [OF oa(1) this g] obtain s x xs where
    s: "get_slab h a = Some s" "fl a = x # xs" "ks_freelist s = x" "load_ptr h x = Some (load64 (bytes h) x)"
    "chain (load64 (bytes h)) (load64 (bytes h) x) xs 0" "x \<noteq> KPAGE_ERR"
    "free_count s - 1 = of_nat (length xs)" by blast
  define L' where "L' = L(EmptyList := [] @ rest, PartialList := L PartialList @ [a])"
  from kslab_relink_spec [OF L c, of EmptyList "[]" a rest PartialList] a obtain h2 c2 where
    h2: "kslab_relink_node h cp EmptyList PartialList a = Some h2" "get_cache h2 cp = Some c2" "same_cache c c2"
    "same_slabs h h2" "slab_lists h2 cp L'" by (auto simp: L'_def)
  from same_slabs_get [OF h2(4) s(1)] obtain s2 where
    s2': "get_slab h2 a = Some s2" "ks_freelist s2 = ks_freelist s" "free_count s2 = free_count s" .
  have s2: "get_slab h2 a = Some s2" "ks_freelist s2 = x" "free_count s2 - 1 = of_nat (length xs)"
    using s2' s(3,7) by simp_all
  define c3 where "c3 = c2\<lparr>empty_slabs := empty_slabs c2 - 1\<rparr>"
  define h3 where "h3 = put_slab (put_cache h2 cp c3) a (s2\<lparr>ks_freelist := load64 (bytes h) x, free_count := free_count s2 - 1\<rparr>)"
  have by2: "bytes h2 = bytes h" "buddy h2 = buddy h" using h2(4) by (simp_all add: same_slabs_def)
  have lp: "load_ptr (put_cache h2 cp c3) x = Some (load64 (bytes h) x)"
    using s(4) by2(1) by (simp add: load_ptr_def split: if_splits)
  have run: "kslab_empty_alloc h cp = Some (h3, x)"
    using c hd h2(1,2) s2(1,2) lp by (simp add: kslab_empty_alloc_def h3_def c3_def)
  have sh: "same_shape c c3" using same_cache_shape [OF h2(3)] by (simp add: same_shape_def c3_def)
  have cp: "cp \<noteq> 0" using c by (rule slab_nonnull)
  have L3: "slab_lists (put_cache h2 cp c3) cp L'"
  proof -
    have hds: "list_head c3 k = list_head c2 k" for k by (cases k) (simp_all add: c3_def)
    have "snext (put_cache h2 cp c3) = snext h2" by (simp add: snext_def fun_eq_iff)
    then show ?thesis using h2(2,5) cp hds by (simp add: slab_lists_def)
  qed
  have "slab_inv h3 cp c3 L' (fl(a := xs))"
  proof (rule slab_inv_step [OF i _ sh])
    show "get_cache h3 cp = Some c3" using cp by (simp add: h3_def)
    show "slab_lists h3 cp L'" unfolding h3_def using L3 s2(1) by (subst slab_lists_put) auto
    show "slab_ok h3 c3 a xs"
      using oa(1) s(2,5) s2 same_shape_geom [OF sh] by2 hd(2) by (auto simp: slab_ok_def h3_def)
    show "a \<in> set (L' PartialList)" by (simp add: L'_def)
    show "filled c PartialList (length xs)" using full s(2) by (cases xs) (simp_all add: filled_def)
    show "\<And>j b. b \<noteq> a \<Longrightarrow> b \<in> set (L' j) \<Longrightarrow> b \<in> set (L j)" using a by (auto simp: L'_def split: if_splits)
  qed (use h2(4) by2 in \<open>auto simp: h3_def same_slabs_def\<close>)
  moreover have "slabs_of L' = slabs_of L" using a by (auto simp: slabs_of_def L'_def)
  moreover have "bytes h3 = bytes h" "buddy h3 = buddy h" using by2 by (simp_all add: h3_def)
  ultimately show ?thesis using run s(2,6) sh by blast
qed

lemma kslab_alloc_spec:
  assumes i: "slab_inv h cp c L fl" and a: "L PartialList @ L EmptyList = a # rest"
  shows "\<exists>h' c' x xs L'. fl a = x # xs \<and> kslab_alloc h cp = Some (h', x) \<and> x \<noteq> KPAGE_ERR \<and>
    slab_inv h' cp c' L' (fl(a := xs)) \<and> same_shape c c' \<and> bytes h' = bytes h \<and> buddy h' = buddy h \<and>
    slabs_of L' = slabs_of L"
proof -
  have c: "get_cache h cp = Some c" "cp \<noteq> 0" and L: "slab_lists h cp L"
    using i slab_nonnull(2) [of h cp c] by (auto simp: slab_inv_def)
  show ?thesis
  proof (cases "L PartialList")
    case Nil
    then have "sc_partial c = 0" using L c unfolding slab_lists_def by (auto dest: spec [of _ PartialList])
    then have "kslab_partial_alloc h cp = Some (h, KPAGE_ERR)" using c by (simp add: kslab_partial_alloc_def)
    moreover from a Nil have "L EmptyList = a # rest" by simp
    from empty_alloc_spec [OF i this] obtain h' c' x xs L' where r: "fl a = x # xs" "kslab_empty_alloc h cp = Some (h', x)"
      "x \<noteq> KPAGE_ERR" "slab_inv h' cp c' L' (fl(a := xs))" "same_shape c c'" "bytes h' = bytes h" "buddy h' = buddy h"
      "slabs_of L' = slabs_of L" by blast
    ultimately have "kslab_alloc h cp = Some (h', x)" using c(2) by (simp add: kslab_alloc_def)
    with r show ?thesis by blast
  next
    case (Cons b bs)
    then have "L PartialList = a # bs" using a by simp
    from partial_alloc_spec [OF i this] obtain h' c' x xs L' where r: "fl a = x # xs" "kslab_partial_alloc h cp = Some (h', x)"
      "x \<noteq> KPAGE_ERR" "slab_inv h' cp c' L' (fl(a := xs))" "same_shape c c'" "bytes h' = bytes h" "buddy h' = buddy h"
      "slabs_of L' = slabs_of L" by blast
    then have "kslab_alloc h cp = Some (h', x)" using c(2) by (simp add: kslab_alloc_def)
    with r show ?thesis by blast
  qed
qed

section \<open>Giving a slab back\<close>

lemma slab_inv_cache:
  assumes i: "slab_inv h cp c L fl" and c: "same_shape c c'" "\<And>k. list_head c' k = list_head c k"
  shows "slab_inv (put_cache h cp c') cp c' L fl"
proof -
  have L: "slab_lists h cp L" "get_cache h cp = Some c" and g: "cache_geom c'" using i same_shape_geom(1) [OF c(1)] by (simp_all add: slab_inv_def)
  note cp = slab_nonnull(2) [OF L(2)]
  have "snext (put_cache h cp c') = snext h" by (simp add: snext_def fun_eq_iff)
  then have "slab_lists (put_cache h cp c') cp L" using L c(2) cp by (simp add: slab_lists_def)
  moreover have "slab_ok (put_cache h cp c') c' a (fl a)" if "a \<in> set (L k)" for a k
    by (rule slab_ok_frame [OF slab_inv_nth(1) [OF i that] _ _ c(1)]) simp_all
  ultimately show ?thesis using i g cp filled_same [OF c(1)] by (simp add: slab_inv_def)
qed

text \<open>The first empty slab leaves the cache and its pages go to the page allocator.\<close>

lemma kslab_remove_spec:
  assumes i: "slab_inv h cp c L fl" and e: "L EmptyList = e # es" and b: "kbud_free (buddy h) e (sc_order c) = Some b"
  shows "\<exists>h' c'. kslab_remove_node h cp EmptyList (sc_empty c) = Some h' \<and> get_cache h' cp = Some c' \<and>
    slab_inv h' cp c' (L(EmptyList := es)) fl \<and> same_shape c c' \<and> buddy h' = b \<and> slabs_of (L(EmptyList := es)) = slabs_of L - {e}"
proof -
  have c: "get_cache h cp = Some c" and L: "slab_lists h cp L" and g: "cache_geom c" using i by (auto simp: slab_inv_def)
  note cp = slab_nonnull(2) [OF c]
  have ch: "chain (snext h) (list_head c k) (L k) 0" for k using L c by (auto simp: slab_lists_def)
  have mp: "get_slab h a \<noteq> None" if "a \<in> set (L k)" for a k using L that by (auto simp: slab_lists_def)
  have hd: "sc_empty c = e" and tl: "chain (snext h) (snext h e) es 0" and e0: "e \<noteq> 0"
    using ch [of EmptyList] chain_nonnull [OF ch [of EmptyList]] by (auto simp: e)
  have de: "e \<notin> set es" using chain_distinct [OF ch [of EmptyList]] by (simp add: e)
  obtain s where s: "get_slab h e = Some s" using mp [of e EmptyList] by (auto simp: e)
  then have sn: "ks_next s = snext h e" by (simp add: snext_def)
  define c' where "c' = set_head c EmptyList (snext h e)"
  define h1 where "h1 = put_cache h cp c'"
  have "slab_seek h cp e (SHead EmptyList) = Some (SHead EmptyList)"
    using c hd by (subst slab_seek.simps) (simp add: slink_get_def)
  then have run: "kslab_remove_node h cp EmptyList (sc_empty c) = Some (h1\<lparr>buddy := b\<rparr>)"
    using c hd e0 s sn b cp by (simp add: kslab_remove_node_def slink_get_def slink_set_def h1_def c'_def put_cache_def get_cache_def)
  have sh: "same_shape c c'" by (simp add: c'_def same_shape_def)
  define M where "M = L(EmptyList := es)"
  have sub: "set (M k) \<subseteq> set (L k)" for k by (auto simp: e M_def)
  have "snext h1 = snext h" by (simp add: snext_def fun_eq_iff h1_def)
  moreover have "chain (snext h) (list_head c' k) (M k) 0" for k
    using ch [of k] tl by (cases k) (simp_all add: c'_def M_def)
  moreover have "get_slab h1 a \<noteq> None" if "a \<in> set (M k)" for a k
    using mp [of a k] sub [of k] that by (auto simp: h1_def)
  moreover have "set (M j) \<inter> set (M k) = {}" if "j \<noteq> k" for j k
    using L sub [of j] sub [of k] that unfolding slab_lists_def by blast
  moreover have "get_cache h1 cp = Some c'" using cp by (simp add: h1_def)
  ultimately have L1: "slab_lists h1 cp M" unfolding slab_lists_def by simp
  have "slab_ok h1 c' a (fl a) \<and> filled c' k (length (fl a))" if "a \<in> set (M k)" for a k
  proof -
    have a: "a \<in> set (L k)" using that by (auto simp: e M_def split: if_splits)
    have "slab_ok h1 c' a (fl a)" by (rule slab_ok_frame [OF slab_inv_nth(1) [OF i a] _ _ sh]) (simp_all add: h1_def)
    then show ?thesis using slab_inv_nth(2) [OF i a] filled_same [OF sh] by simp
  qed
  then have "slab_inv h1 cp c' M fl"
    using L1 g cp same_shape_geom(1) [OF sh] by (simp add: slab_inv_def h1_def)
  then have inv: "slab_inv (h1\<lparr>buddy := b\<rparr>) cp c' M fl" by (simp add: slab_inv_def slab_ok_def)
  have "e \<notin> set (L FullList)" "e \<notin> set (L PartialList)"
    using slab_lists_disjoint [OF L, of e EmptyList] e by auto
  then have "slabs_of M = slabs_of L - {e}" using de e by (auto simp: slabs_of_def M_def)
  then show ?thesis using run inv sh cp by (auto simp: h1_def M_def)
qed

section \<open>Freeing\<close>

text \<open>The last allocated object of a slab is freed and the counter, raised twice, is over the limit: the first empty
  slab is given back, which is the slab itself when no other is empty.\<close>

definition free_releases :: "kslab_cache \<Rightarrow> nat \<Rightarrow> bool" where
  "free_releases c n \<longleftrightarrow> n + 1 = unat (slab_objs_per c) \<and> empty_slabs c + 2 > ucast (max_empty_slabs c)"

lemma free_stays: "n + 1 < unat (slab_objs_per c) \<or> unat (empty_slabs c) + 2 \<le> unat (max_empty_slabs c) \<Longrightarrow> \<not> free_releases c n"
proof -
  have "unat (empty_slabs c + 2) \<le> unat (empty_slabs c) + unat (2 :: u32)"
    unfolding unat_word_ariths(1) by (rule mod_less_eq_dividend)
  moreover have "unat (ucast (max_empty_slabs c) :: u32) = unat (max_empty_slabs c)" by (rule unat_ucast_8_32)
  ultimately show "n + 1 < unat (slab_objs_per c) \<or> unat (empty_slabs c) + 2 \<le> unat (max_empty_slabs c) \<Longrightarrow> \<not> free_releases c n"
    by (auto simp: free_releases_def word_less_nat_alt)
qed

lemma kslab_free_spec:
  assumes i: "slab_inv h cp c L fl" and a: "a \<in> set (L FullList) \<union> set (L PartialList)"
    and x: "x \<in> objs_of c a" "x \<notin> set (fl a)"
    and rel: "free_releases c (length (fl a)) \<Longrightarrow> kbud_free (buddy h) (hd (L EmptyList @ [a])) (sc_order c) = Some b"
  shows "\<exists>h' c' L'. kslab_free h cp x = Some h' \<and> slab_inv h' cp c' L' (fl(a := x # fl a)) \<and> same_shape c c' \<and>
    (if free_releases c (length (fl a)) then buddy h' = b \<and> slabs_of L' = slabs_of L - {hd (L EmptyList @ [a])}
     else buddy h' = buddy h \<and> slabs_of L' = slabs_of L)"
proof -
  from a obtain k where k: "a \<in> set (L k)" "k = FullList \<or> k = PartialList" by auto
  note oa = slab_inv_nth [OF i k(1)]
  have g: "cache_geom c" and c: "get_cache h cp = Some c" and L: "slab_lists h cp L" using i by (auto simp: slab_inv_def)
  note cp = slab_nonnull(2) [OF c]
  from slab_okD [OF oa(1)] obtain s where s: "get_slab h a = Some s" "chain (load64 (bytes h)) (ks_freelist s) (fl a) 0"
    "free_count s = of_nat (length (fl a))" "slab_place c a" "set (fl a) \<subseteq> objs_of c a" .
  note fc = free_list_card [OF g oa(1)]
  have base: "x AND NOT (buddy_order_to_val (sc_order c) - 1) = a" by (rule obj_base [OF g s(4) x(1)])
  have x0: "x \<noteq> 0" and a0: "a \<noteq> 0" using obj_range(3) [OF g s(4) x(1)] slab_nonnull(1) [OF s(1)] by auto
  have lt: "length (fl a) < unat (slab_objs_per c)" using oa(2) k(2) g by (auto simp: filled_def cache_geom_def)
  have n32: "unat (slab_objs_per c) < 2 ^ 32" using unsigned_less [of "slab_objs_per c"] by simp
  have wf: "free_count s = 0 \<longleftrightarrow> fl a = []" unfolding s(3) of_nat_word_zero [OF fc(3)] by simp
  have f1: "free_count s + 1 = of_nat (length (fl a) + 1)" by (simp add: s(3))
  have u1: "unat (of_nat (length (fl a) + 1) :: u32) = length (fl a) + 1" using lt n32 by (intro unat_of_nat32) simp
  have em: "free_count s + 1 = slab_objs_per c \<longleftrightarrow> length (fl a) + 1 = unat (slab_objs_per c)"
    unfolding f1 using u1 by (metis word_unat_eq_iff)
  have kf: "k = FullList \<longleftrightarrow> fl a = []" using oa(2) k(2) by (auto simp: filled_def)
  define m where "m = store64 (bytes h) x (ks_freelist s)"
  have lo: "load64 m y = load64 (bytes h) y" if "b \<in> set (L j)" "y \<in> set (fl b)" for b j y
  proof -
    from slab_okD [OF slab_inv_nth(1) [OF i that(1)]] have pb: "slab_place c b" "y \<in> objs_of c b" using that(2) by blast+
    have "x \<noteq> y"
    proof
      assume e: "x = y"
      have "b = y AND NOT (buddy_order_to_val (sc_order c) - 1)" using obj_base [OF g pb] by simp
      with base e have "b = a" by simp
      with x(2) that(2) e show False by simp
    qed
    then show ?thesis unfolding m_def by (intro load_store_other objs_apart [OF g s(4) pb(1) x(1) pb(2)])
  qed
  define h1 where "h1 = put_slab (h\<lparr>bytes := m\<rparr>) a (s\<lparr>ks_freelist := x, free_count := free_count s + 1\<rparr>)"
  have sx: "get_slab h1 a = Some (s\<lparr>ks_freelist := x, free_count := free_count s + 1\<rparr>)"
    and c1: "get_cache h1 cp = Some c" and m1: "bytes h1 = m" "buddy h1 = buddy h"
    using a0 c by (simp_all add: h1_def)
  have L1: "slab_lists h1 cp L" unfolding h1_def using s(1) L by (subst slab_lists_put) auto
  have ok: "slab_ok h' c' a (x # fl a)" if "same_slabs h1 h'" "same_shape c c'" for h' c'
  proof -
    from same_slabs_get [OF that(1) sx] obtain s' where s': "get_slab h' a = Some s'" "ks_freelist s' = x"
      "free_count s' = free_count s + 1" by auto
    have "bytes h' = m" using that(1) m1 by (simp add: same_slabs_def)
    moreover have "load64 m x = ks_freelist s" by (simp add: m_def load_store_same)
    moreover have "chain (load64 m) (ks_freelist s) (fl a) 0"
      using s(2) chain_cong [of "fl a" "load64 m" "load64 (bytes h)"] lo [OF k(1)] by blast
    ultimately show ?thesis
      using s' s(4,5) x(1) x0 f1 same_shape_geom [OF that(2)] by (auto simp: slab_ok_def)
  qed
  have step: "slab_inv h' cp c' L' (fl(a := x # fl a))"
    if "get_cache h' cp = Some c'" "same_shape c c'" "slab_lists h' cp L'" "same_slabs h1 h'" "a \<in> set (L' j)"
      "filled c j (length (fl a) + 1)" "\<And>j b. b \<noteq> a \<Longrightarrow> b \<in> set (L' j) \<Longrightarrow> b \<in> set (L j)" for h' c' L' j
  proof (rule slab_inv_step [OF i that(1-3) ok [OF that(4,2)] that(5)])
    show "filled c j (length (x # fl a))" using that(6) by simp
    show "map_option (\<lambda>s. s\<lparr>ks_next := 0\<rparr>) (get_slab h' b) = map_option (\<lambda>s. s\<lparr>ks_next := 0\<rparr>) (get_slab h b)" if "b \<noteq> a" for b
      using \<open>same_slabs h1 h'\<close> that by (auto simp: same_slabs_def h1_def)
    show "load64 (bytes h') y = load64 (bytes h) y" if "b \<noteq> a" "b \<in> set (L j)" "y \<in> set (fl b)" for b j y
      using \<open>same_slabs h1 h'\<close> lo [OF that(2,3)] m1 by (simp add: same_slabs_def)
  qed (rule that(7))
  have st: "store_ptr h x (ks_freelist s) = Some (h\<lparr>bytes := m\<rparr>)" using x0 by (simp add: store_ptr_def m_def)
  obtain xs ys where sp: "L k = xs @ a # ys" using k(1) by (meson split_list)
  show ?thesis
  proof (cases "fl a = []")
    case True
    then have kk: "k = FullList" using kf by simp
    define L' where "L' = L(FullList := xs @ ys, PartialList := L PartialList @ [a])"
    from kslab_relink_spec [OF L1 c1, of FullList xs a ys PartialList] sp kk obtain h2 c2 where
      h2: "kslab_relink_node h1 cp FullList PartialList a = Some h2" "get_cache h2 cp = Some c2" "same_cache c c2"
      "same_slabs h1 h2" "slab_lists h2 cp L'" by (auto simp: L'_def)
    note sh = same_cache_shape [OF h2(3)]
    have "slab_inv h2 cp c2 L' (fl(a := x # fl a))"
    proof (rule step [OF h2(2) sh h2(5,4)])
      show "a \<in> set (L' PartialList)" by (simp add: L'_def)
      show "filled c PartialList (length (fl a) + 1)" using True g by (simp add: filled_def cache_geom_def)
    qed (use sp kk in \<open>auto simp: L'_def split: if_splits\<close>)
    moreover have "kslab_free h cp x = Some h2"
      using c base s(1) st True h2(1) by (simp add: kslab_free_def wf h1_def [symmetric])
    moreover have "slabs_of L' = slabs_of L" using sp kk by (auto simp: slabs_of_def L'_def)
    moreover have "\<not> free_releases c (length (fl a))" using True g by (simp add: free_releases_def cache_geom_def)
    ultimately show ?thesis using sh h2(4) m1 by (intro exI [of _ h2] exI [of _ c2] exI [of _ L']) (simp add: same_slabs_def)
  next
    case nf: False
    then have kk: "k = PartialList" using kf k(2) by auto
    show ?thesis
    proof (cases "length (fl a) + 1 = unat (slab_objs_per c)")
      case False
      have "slab_inv h1 cp c L (fl(a := x # fl a))"
      proof (rule step [OF c1 _ L1 _ k(1)])
        show "filled c k (length (fl a) + 1)" using False lt kk by (simp add: filled_def)
      qed (simp_all add: same_shape_def same_slabs_def)
      moreover have "kslab_free h cp x = Some h1"
        using c base s(1) st wf nf em False by (simp add: kslab_free_def h1_def [symmetric])
      moreover have "\<not> free_releases c (length (fl a))" using False by (simp add: free_releases_def)
      ultimately show ?thesis using m1 by (intro exI [of _ h1] exI [of _ c] exI [of _ L]) (simp add: same_shape_def)
    next
      case True
      define L' where "L' = L(PartialList := xs @ ys, EmptyList := L EmptyList @ [a])"
      from kslab_relink_spec [OF L1 c1, of PartialList xs a ys EmptyList] sp kk obtain h2 c2 where
        h2: "kslab_relink_node h1 cp PartialList EmptyList a = Some h2" "get_cache h2 cp = Some c2" "same_cache c c2"
        "same_slabs h1 h2" "slab_lists h2 cp L'" by (auto simp: L'_def)
      define c3 where "c3 = c2\<lparr>empty_slabs := empty_slabs c2 + 1 + 1\<rparr>"
      have sh: "same_shape c c3" using same_cache_shape [OF h2(3)] by (simp add: same_shape_def c3_def)
      define h3 where "h3 = put_cache h2 cp c3"
      have fs: "empty_slabs c2 = empty_slabs c" "max_empty_slabs c2 = max_empty_slabs c"
        using same_cache_fields [OF h2(3)] by auto
      have hds: "list_head c3 j = list_head c2 j" for j by (cases j) (simp_all add: c3_def)
      have "snext h3 = snext h2" by (simp add: snext_def fun_eq_iff h3_def)
      then have L3: "slab_lists h3 cp L'" using h2(2,5) cp hds by (simp add: slab_lists_def h3_def)
      have i3: "slab_inv h3 cp c3 L' (fl(a := x # fl a))"
      proof (rule step [OF _ sh L3])
        show "get_cache h3 cp = Some c3" using cp by (simp add: h3_def)
        show "same_slabs h1 h3" using h2(4) by (simp add: h3_def same_slabs_def)
        show "a \<in> set (L' EmptyList)" by (simp add: L'_def)
        show "filled c EmptyList (length (fl a) + 1)" using True by (simp add: filled_def)
      qed (use sp kk in \<open>auto simp: L'_def split: if_splits\<close>)
      have so: "slabs_of L' = slabs_of L" using sp kk by (auto simp: slabs_of_def L'_def)
      have b3: "buddy h3 = buddy h" using h2(4) m1 by (simp add: same_slabs_def h3_def)
      have ov: "empty_slabs c + 1 + 1 > ucast (max_empty_slabs c) \<longleftrightarrow> free_releases c (length (fl a))"
        using True by (simp add: free_releases_def add.assoc)
      note start = c base s(1) st nf True h2(1,2) fs wf em h1_def [symmetric] ov
      show ?thesis
      proof (cases "free_releases c (length (fl a))")
        case False
        then have "kslab_free h cp x = Some h3" using start by (simp add: kslab_free_def h3_def c3_def)
        then show ?thesis using i3 so b3 False sh by (intro exI [of _ h3] exI [of _ c3] exI [of _ L']) simp
      next
        case rl: True
        obtain e es where e: "L EmptyList @ [a] = e # es" by (cases "L EmptyList @ [a]") auto
        have e': "L' EmptyList = e # es" and he: "hd (L EmptyList @ [a]) = e" using e by (simp_all add: L'_def)
        have o3: "sc_order c3 = sc_order c" using sh by (simp add: same_shape_def)
        have kb: "kbud_free (buddy h3) e (sc_order c3) = Some b" using rel [OF rl] by (simp only: b3 o3 he)
        from kslab_remove_spec [OF i3 e' kb] obtain h4 c4 where
          4: "kslab_remove_node h3 cp EmptyList (sc_empty c3) = Some h4" "get_cache h4 cp = Some c4"
          "slab_inv h4 cp c4 (L'(EmptyList := es)) (fl(a := x # fl a))" "same_shape c3 c4" "buddy h4 = b"
          "slabs_of (L'(EmptyList := es)) = slabs_of L' - {e}" by blast
        define c5 where "c5 = c4\<lparr>empty_slabs := empty_slabs c4 - 1\<rparr>"
        have h45: "same_shape c4 c5" "\<And>k. list_head c5 k = list_head c4 k"
          by (simp add: c5_def same_shape_def, case_tac k, simp_all add: c5_def)
        note i5 = slab_inv_cache [OF 4(3) h45]
        have "sc_empty c3 = sc_empty c2" by (simp add: c3_def)
        then have "kslab_free h cp x = Some (put_cache h4 cp c5)"
          using start rl 4(1,2) by (simp add: kslab_free_def h3_def c3_def c5_def)
        moreover have "same_shape c c5" using sh 4(4) h45(1) by (simp add: same_shape_def)
        moreover have "buddy (put_cache h4 cp c5) = b" using 4(5) by (simp add: put_cache_def)
        ultimately show ?thesis using i5 rl 4(6) so he by (intro exI [of _ "put_cache h4 cp c5"] exI [of _ c5]) auto
      qed
    qed
  qed
qed

end
