(* ===== verification/SlabCreate.thy ===== *)
theory SlabCreate
  imports SlabInv
begin

text \<open>
  Setting up a slab cache: the free list of a new slab links all its objects in order, and the search
  of \<^verbatim>\<open>kslab_cache_create\<close> chooses the first order of least waste that holds eight objects.
\<close>

section \<open>A new slab\<close>

lemma obj_addr_step: "obj_addr c a i + obj_size c = obj_addr c a (i + 1)"
  by (simp add: obj_addr_def algebra_simps)

lemma obj_addr_inj:
  assumes "cache_geom c" "slab_place c a" "i < unat (slab_objs_per c)" "j < unat (slab_objs_per c)"
  shows "obj_addr c a i = obj_addr c a j \<longleftrightarrow> i = j"
proof
  assume "obj_addr c a i = obj_addr c a j"
  then have "i * unat (obj_size c) = j * unat (obj_size c)"
    using obj_bounds(1) [OF assms(1-3)] obj_bounds(1) [OF assms(1,2,4)] by (metis add_left_cancel)
  moreover have "0 < unat (obj_size c)" using assms(1) by (simp add: cache_geom_def)
  ultimately show "i = j" by simp
qed simp

lemma link_objs_spec:
  assumes g: "cache_geom c" and p: "slab_place c a"
  shows "i + k < unat (slab_objs_per c) \<Longrightarrow>
    \<exists>m'. link_objs k m (obj_addr c a i) (obj_size c) = (m', obj_addr c a (i + k)) \<and>
      (\<forall>j. i \<le> j \<and> j < i + k \<longrightarrow> load64 m' (obj_addr c a j) = obj_addr c a (j + 1)) \<and>
      (\<forall>j < i. load64 m' (obj_addr c a j) = load64 m (obj_addr c a j))"
proof (induction k arbitrary: i m)
  case 0
  then show ?case by auto
next
  case (Suc k)
  let ?m = "store64 m (obj_addr c a i) (obj_addr c a (i + 1))"
  have ap: "load64 ?m (obj_addr c a j) = load64 m (obj_addr c a j)" if "j < i" for j
  proof (rule load_store_other)
    have ij: "i < unat (slab_objs_per c)" "j < unat (slab_objs_per c)" using Suc.prems that by auto
    then have "obj_addr c a i \<noteq> obj_addr c a j" using obj_addr_inj [OF g p ij] that by simp
    then show "apart (obj_addr c a i) (obj_addr c a j)"
      using ij by (intro objs_apart [OF g p p]) (auto simp: objs_of_def)
  qed
  from Suc.IH [of "i + 1" ?m] Suc.prems obtain m' where m':
    "link_objs k ?m (obj_addr c a (i + 1)) (obj_size c) = (m', obj_addr c a (i + 1 + k))"
    "\<forall>j. i + 1 \<le> j \<and> j < i + 1 + k \<longrightarrow> load64 m' (obj_addr c a j) = obj_addr c a (j + 1)"
    "\<forall>j < i + 1. load64 m' (obj_addr c a j) = load64 ?m (obj_addr c a j)" by auto
  have "load64 m' (obj_addr c a i) = obj_addr c a (i + 1)" using m'(3) by (simp add: load_store_same)
  then have "\<forall>j. i \<le> j \<and> j < i + Suc k \<longrightarrow> load64 m' (obj_addr c a j) = obj_addr c a (j + 1)"
    using m'(2) by (metis add_Suc_right add_Suc Suc_eq_plus1 le_neq_implies_less Suc_leI)
  moreover have "\<forall>j < i. load64 m' (obj_addr c a j) = load64 m (obj_addr c a j)" using m'(3) ap by simp
  ultimately show ?case using m'(1) by (auto simp: obj_addr_step)
qed

definition all_objs :: "kslab_cache \<Rightarrow> u64 \<Rightarrow> u64 list" where
  "all_objs c a = map (obj_addr c a) [0..<unat (slab_objs_per c)]"

lemma init_links_chain:
  assumes g: "cache_geom c" and p: "slab_place c a"
  obtains m' where "link_objs (unat (slab_objs_per c - 1)) m (obj_addr c a 0) (obj_size c) =
      (m', obj_addr c a (unat (slab_objs_per c) - 1))"
    "chain (load64 (store64 m' (obj_addr c a (unat (slab_objs_per c) - 1)) 0)) (obj_addr c a 0) (all_objs c a) 0"
    "obj_addr c a (unat (slab_objs_per c) - 1) \<noteq> 0"
proof -
  let ?n = "unat (slab_objs_per c)"
  have n: "8 \<le> ?n" using g by (simp add: cache_geom_def)
  have u: "unat (slab_objs_per c - 1) = ?n - 1" using n by (metis unat_minus_one unat_0 not_numeral_le_zero)
  from link_objs_spec [OF g p, of 0 "?n - 1" m] n obtain m' where m':
    "link_objs (?n - 1) m (obj_addr c a 0) (obj_size c) = (m', obj_addr c a (?n - 1))"
    "\<forall>j. j < ?n - 1 \<longrightarrow> load64 m' (obj_addr c a j) = obj_addr c a (j + 1)" by auto
  have in0: "i < ?n \<Longrightarrow> obj_addr c a i \<in> objs_of c a" for i by (simp add: objs_of_def)
  have nz: "i < ?n \<Longrightarrow> obj_addr c a i \<noteq> 0" for i using obj_range(3) [OF g p in0] .
  let ?m = "store64 m' (obj_addr c a (?n - 1)) 0"
  have "load64 ?m (obj_addr c a i) = obj_addr c a (i + 1)" if "i + 1 < ?n" for i
  proof -
    have "obj_addr c a (?n - 1) \<noteq> obj_addr c a i" using obj_addr_inj [OF g p, of "?n - 1" i] that by simp
    then have "apart (obj_addr c a (?n - 1)) (obj_addr c a i)"
      using that by (intro objs_apart [OF g p p]) (auto intro: in0)
    then show ?thesis using m'(2) that by (simp add: load_store_other)
  qed
  then have "chain (load64 ?m) (obj_addr c a 0) (all_objs c a) 0"
    unfolding all_objs_def using n nz by (intro chain_pointwise) (auto simp: load_store_same)
  then show ?thesis using that m'(1) nz n u by (simp add: nz)
qed

text \<open>The invariant after the first slab of a cache without slabs.\<close>

definition one_empty :: "u64 \<Rightarrow> slab_list \<Rightarrow> u64 list" where
  "one_empty a = (\<lambda>k. if k = EmptyList then [a] else [])"

lemma new_slab_spec:
  assumes c: "get_cache h cp = Some c" "sc_full c = 0" "sc_partial c = 0" "sc_empty c = 0" and g: "cache_geom c"
    and b: "kbud_alloc (buddy h) (sc_order c) = Some (b, a)" "a \<noteq> KPAGE_ERR" "a \<noteq> 0" and p: "slab_place c a"
  shows "\<exists>h' c'. kslab_new_slab h cp = Some (h', a) \<and> same_cache c c' \<and>
    slab_inv h' cp c' (one_empty a) (\<lambda>_. all_objs c a) \<and> buddy h' = b"
proof -
  note cp = slab_nonnull(2) [OF c(1)]
  define h1 where "h1 = clear_slab (h\<lparr>buddy := b\<rparr>) a (buddy_order_to_val (sc_order c))"
  have h1: "get_cache h1 cp = Some c" "get_slab h1 a = Some zero_slab" "buddy h1 = b"
    using c(1) cp b(3) by (simp_all add: h1_def clear_slab_def get_cache_def get_slab_def)
  have e: "slab_end h1 cp (SHead EmptyList) = Some (SHead EmptyList)"
    using h1(1) c(4) by (subst slab_end.simps) (simp add: slink_get_def)
  define c' where "c' = c\<lparr>sc_empty := a\<rparr>"
  define s where "s = zero_slab\<lparr>ks_cache := cp, ks_pool := obj_addr c a 0, ks_freelist := obj_addr c a 0, free_count := slab_objs_per c\<rparr>"
  define h2 where "h2 = put_slab (put_cache h1 cp c') a s"
  have pool: "a + ucast (reserved c) = obj_addr c a 0" by (simp add: obj_addr_def)
  from init_links_chain [OF g p, of "bytes h1"] obtain m' where m':
    "link_objs (unat (slab_objs_per c - 1)) (bytes h1) (obj_addr c a 0) (obj_size c) =
      (m', obj_addr c a (unat (slab_objs_per c) - 1))"
    "chain (load64 (store64 m' (obj_addr c a (unat (slab_objs_per c) - 1)) 0)) (obj_addr c a 0) (all_objs c a) 0"
    "obj_addr c a (unat (slab_objs_per c) - 1) \<noteq> 0" .
  define h3 where "h3 = h2\<lparr>bytes := store64 m' (obj_addr c a (unat (slab_objs_per c) - 1)) 0\<rparr>"
  have run: "kslab_new_slab h cp = Some (h3, a)"
    using cp c(1) b e h1 m'(1,3)
    by (simp add: kslab_new_slab_def h1_def [symmetric] slink_set_def c'_def [symmetric] pool s_def [symmetric]
        h2_def [symmetric] store_ptr_def h3_def)
  have sc: "same_cache c c'" by (simp add: same_cache_def c'_def)
  note sg = same_shape_geom [OF same_cache_shape [OF sc]]
  have gs: "get_slab h3 a = Some s" "get_cache h3 cp = Some c'" using b(3) cp by (simp_all add: h3_def h2_def)
  have "slab_lists h3 cp (one_empty a)"
    unfolding slab_lists_def
  proof (intro conjI exI [of _ c'] allI impI ballI)
    show "chain (snext h3) (list_head c' k) (one_empty a k) 0" for k
      using c b(3) gs by (cases k) (auto simp: c'_def one_empty_def snext_def s_def zero_slab_def)
  qed (use gs in \<open>auto simp: one_empty_def split: if_splits\<close>)
  moreover have "slab_ok h3 c' a (all_objs c a)"
  proof -
    have "set (all_objs c a) \<subseteq> objs_of c a" by (auto simp: all_objs_def objs_of_def)
    moreover have "bytes h3 = store64 m' (obj_addr c a (unat (slab_objs_per c) - 1)) 0" by (simp add: h3_def)
    ultimately show ?thesis using gs p m'(2) sg by (auto simp: slab_ok_def s_def all_objs_def)
  qed
  moreover have "filled c' EmptyList (length (all_objs c a))" by (simp add: filled_def all_objs_def c'_def)
  ultimately have "slab_inv h3 cp c' (one_empty a) (\<lambda>_. all_objs c a)"
    using gs g sg by (auto simp: slab_inv_def one_empty_def split: if_splits)
  with run sc h1(3) show ?thesis by (auto simp: h3_def h2_def)
qed

section \<open>Choosing the order of a cache\<close>

text \<open>The header padded to the alignment, and whether an order holds at least eight objects.\<close>

definition hdr_room :: "nat \<Rightarrow> nat" where
  "hdr_room al = 48 + (al - 48 mod al) mod al"

definition order_fits :: "nat \<Rightarrow> nat \<Rightarrow> nat \<Rightarrow> bool" where
  "order_fits sz al k \<longleftrightarrow> hdr_room al < 4096 * 2 ^ k \<and> 8 \<le> (4096 * 2 ^ k - hdr_room al) div sz"

definition order_waste :: "nat \<Rightarrow> nat \<Rightarrow> nat \<Rightarrow> nat" where
  "order_waste sz al k = (4096 * 2 ^ k - hdr_room al) mod sz"

lemma hdr_room_spec:
  assumes "0 < al"
  shows "al dvd hdr_room al" "48 \<le> hdr_room al" "hdr_room al < 48 + al"
proof -
  have lt: "48 mod al < al" using assms by simp
  show "48 \<le> hdr_room al" "hdr_room al < 48 + al" using assms by (simp_all add: hdr_room_def)
  have "(48 + (al - 48 mod al)) mod al = 0"
  proof -
    have "48 + (al - 48 mod al) = (48 - 48 mod al) + al"
      using lt mod_less_eq_dividend [of 48 al] by linarith
    moreover have "(48 - 48 mod al) mod al = 0" using dvd_minus_mod [of al 48] by (simp add: mod_eq_0_iff_dvd)
    ultimately show ?thesis by (simp only: mod_add_self2)
  qed
  then show "al dvd hdr_room al" unfolding hdr_room_def by (simp add: mod_eq_0_iff_dvd [symmetric] mod_add_right_eq)
qed

lemma hdr_word:
  assumes "0 < al"
  shows "unat (slab_hdr_sz + (al - slab_hdr_sz mod al) mod al) = hdr_room (unat al)"
proof -
  have u: "unat (slab_hdr_sz mod al) = 48 mod unat al" by (simp add: slab_hdr_sz_def unat_mod)
  have al: "0 < unat al" using assms by (simp add: word_less_nat_alt)
  then have "48 mod unat al \<le> unat al" by (simp add: less_imp_le)
  then have "unat (al - slab_hdr_sz mod al) = unat al - 48 mod unat al"
    using u by (simp add: unat_sub word_le_nat_alt)
  then have p: "unat ((al - slab_hdr_sz mod al) mod al) = (unat al - 48 mod unat al) mod unat al" by (simp add: unat_mod)
  have "48 + (unat al - 48 mod unat al) mod unat al < 2 ^ 64"
  proof (cases "unat al \<le> 48")
    case True
    then have "48 + (unat al - 48 mod unat al) mod unat al < 96"
      using mod_less_divisor [OF al, of "unat al - 48 mod unat al"] by linarith
    then show ?thesis by simp
  next
    case False
    then have "(unat al - 48 mod unat al) mod unat al = unat al - 48" by simp
    then show ?thesis using False unsigned_less [of al] by simp
  qed
  then show ?thesis
    unfolding hdr_room_def by (subst unat_add_lem [THEN iffD1]) (simp_all add: p, simp_all add: slab_hdr_sz_def)
qed

text \<open>One step of the search in numbers, and the search: the first order of least waste.\<close>

lemma create_step_spec:
  assumes al: "0 < al" and sz: "0 < sz" and k: "k < 4" and w: "ctx = (o1, r1, n1, w1)"
  shows "create_step sz al (of_nat k) ctx =
    Some (if order_fits (unat sz) (unat al) k \<and> order_waste (unat sz) (unat al) k < unat w1
            then (of_nat k, of_nat (hdr_room (unat al)), of_nat ((4096 * 2 ^ k - hdr_room (unat al)) div unat sz),
                  of_nat (order_waste (unat sz) (unat al) k)) else ctx)"
proof -
  let ?S = "4096 * 2 ^ k :: nat" and ?r = "hdr_room (unat al)" and ?n = "(4096 * 2 ^ k - hdr_room (unat al)) div unat sz"
  define size where "size = push_bit (unat (of_nat k :: u32)) (1 :: u64) * PAGESIZE"
  define rsv where "rsv = slab_hdr_sz + (al - slab_hdr_sz mod al) mod al"
  have k32: "unat (of_nat k :: u32) = k" using k by (intro unat_of_nat32) simp
  have "(2 :: nat) ^ k \<le> 2 ^ 3" using k by (intro power_increasing) auto
  then have S: "?S \<le> 32768" by simp
  have "size = of_nat ?S" by (simp add: size_def k32 PAGESIZE_def push_bit_eq_mult mult.commute)
  then have us: "unat size = ?S" using S by (simp only:) (intro unat_of_nat64, simp)
  have ur: "unat rsv = ?r" unfolding rsv_def by (rule hdr_word [OF al])
  have sz0: "sz \<noteq> 0" "al \<noteq> 0" "0 < unat sz" using al sz by (auto simp: word_less_nat_alt)
  have i4: "(of_nat k :: u32) < 4" using k k32 by (simp add: word_less_nat_alt)
  show ?thesis
  proof (cases "size \<le> rsv")
    case True
    then have "\<not> order_fits (unat sz) (unat al) k" using us ur by (simp add: order_fits_def word_le_nat_alt)
    then show ?thesis using True sz0 by (simp add: create_step_def size_def rsv_def Let_def)
  next
    case False
    then have lt: "?r < ?S" using us ur by (simp add: word_le_nat_alt)
    define rm where "rm = size - rsv"
    have urm: "unat rm = ?S - ?r" using False us ur by (simp add: rm_def unat_sub)
    define objs where "objs = rm div sz"
    have uo: "unat objs = ?n" by (simp add: objs_def unat_div urm)
    have o8: "objs < 8 \<longleftrightarrow> ?n < 8" using uo by (simp add: word_less_nat_alt)
    have o0: "objs = 0 \<longleftrightarrow> ?n = 0" using uo by (metis unat_0 unat_eq_zero)
    have mul: "?n * unat sz \<le> ?S - ?r" by (rule div_times_less_eq_dividend)
    then have "?n * unat sz < 2 ^ 64" using S by (rule_tac le_less_trans) (assumption, simp)
    then have um: "unat (objs * sz) = ?n * unat sz"
      by (subst unat_mult_lem [THEN iffD1]) (simp_all add: uo)
    have "?r + ?n * unat sz \<le> 32768" using S mul lt by linarith
    then have ua: "unat (rsv + objs * sz) = ?r + ?n * unat sz"
      by (subst unat_add_lem [THEN iffD1]) (simp_all add: ur um)
    have "unat (size - (rsv + objs * sz)) = ?S - (?r + ?n * unat sz)"
    proof -
      have "?r + ?n * unat sz \<le> ?S" using mul lt by linarith
      then show ?thesis using us ua by (simp add: unat_sub word_le_nat_alt)
    qed
    also have "\<dots> = order_waste (unat sz) (unat al) k"
      by (simp add: order_waste_def minus_div_mult_eq_mod [symmetric])
    finally have uw: "unat (size - (rsv + objs * sz)) = order_waste (unat sz) (unat al) k" .
    have ew: "size - (rsv + objs * sz) = of_nat (order_waste (unat sz) (unat al) k)" by (simp flip: uw)
    have er: "(ucast rsv :: u32) = of_nat ?r" by (simp flip: ur)
    have eo: "objs = of_nat ?n" by (simp flip: uo)
    have fit: "order_fits (unat sz) (unat al) k \<longleftrightarrow> \<not> objs < 8" using lt o8 by (auto simp: order_fits_def)
    have run: "create_step sz al (of_nat k) ctx = Some
      (if objs < 8 then ctx else if size - (rsv + objs * sz) < w1 then (of_nat k, ucast rsv, objs, size - (rsv + objs * sz)) else ctx)"
    proof (cases "objs < 8")
      case True
      then show ?thesis using False sz0 i4
        unfolding create_step_def size_def [symmetric] rsv_def [symmetric] Let_def rm_def [symmetric] objs_def [symmetric] by simp
    next
      case n8: False
      then have "objs \<noteq> 0" by auto
      then show ?thesis using False n8 sz0
        unfolding create_step_def size_def [symmetric] rsv_def [symmetric] Let_def rm_def [symmetric] objs_def [symmetric] w by simp
    qed
    have lw: "size - (rsv + objs * sz) < w1 \<longleftrightarrow> order_waste (unat sz) (unat al) k < unat w1"
      using uw by (simp add: word_less_nat_alt)
    show ?thesis unfolding run fit lw using ew er eo by (cases "objs < 8") auto
  qed
qed

definition best_order :: "nat \<Rightarrow> nat \<Rightarrow> nat \<Rightarrow> bool" where
  "best_order sz al k \<longleftrightarrow> k < 4 \<and> order_fits sz al k \<and>
     (\<forall>j<4. order_fits sz al j \<longrightarrow> order_waste sz al k \<le> order_waste sz al j) \<and>
     (\<forall>j<k. order_fits sz al j \<longrightarrow> order_waste sz al k < order_waste sz al j)"

definition order_ctx :: "nat \<Rightarrow> nat \<Rightarrow> nat \<Rightarrow> u32 \<times> u32 \<times> u64 \<times> u64" where
  "order_ctx sz al k = (of_nat k, of_nat (hdr_room al), of_nat ((4096 * 2 ^ k - hdr_room al) div sz), of_nat (order_waste sz al k))"

lemma waste_small: "k < 4 \<Longrightarrow> order_waste sz al k < 2 ^ 15 + 1" "k < 4 \<Longrightarrow> unat (of_nat (order_waste sz al k) :: u64) = order_waste sz al k"
proof -
  assume k: "k < 4"
  have "(2 :: nat) ^ k \<le> 2 ^ 3" using k by (intro power_increasing) auto
  moreover have "order_waste sz al k \<le> 4096 * 2 ^ k - hdr_room al" by (simp add: order_waste_def)
  ultimately show b: "order_waste sz al k < 2 ^ 15 + 1" by simp
  then show "unat (of_nat (order_waste sz al k) :: u64) = order_waste sz al k" by (intro unat_of_nat64) simp
qed

lemma create_loop_inv:
  assumes al: "0 < al" and sz: "0 < sz"
  shows "n + i = 4 \<Longrightarrow>
    (ctx = (0, 0, 0, -1) \<and> (\<forall>j<i. \<not> order_fits (unat sz) (unat al) j)) \<or>
    (\<exists>k<i. ctx = order_ctx (unat sz) (unat al) k \<and> order_fits (unat sz) (unat al) k \<and>
      (\<forall>j<i. order_fits (unat sz) (unat al) j \<longrightarrow> order_waste (unat sz) (unat al) k \<le> order_waste (unat sz) (unat al) j) \<and>
      (\<forall>j<k. order_fits (unat sz) (unat al) j \<longrightarrow> order_waste (unat sz) (unat al) k < order_waste (unat sz) (unat al) j)) \<Longrightarrow>
    (\<exists>k. create_loop n sz al (of_nat i) ctx = Some (order_ctx (unat sz) (unat al) k) \<and> best_order (unat sz) (unat al) k) \<or>
    (create_loop n sz al (of_nat i) ctx = Some (0, 0, 0, -1) \<and> (\<forall>j<4. \<not> order_fits (unat sz) (unat al) j))"
proof (induction n arbitrary: i ctx)
  case 0
  then show ?case by (auto simp: best_order_def)
next
  case (Suc n)
  let ?F = "order_fits (unat sz) (unat al)" and ?W = "order_waste (unat sz) (unat al)"
  have i: "i < 4" using Suc.prems(1) by simp
  obtain o1 r1 n1 w1 where c: "ctx = (o1, r1, n1, w1)" by (cases ctx) auto
  from create_step_spec [OF al sz i c] have st: "create_step sz al (of_nat i) ctx = Some
    (if ?F i \<and> ?W i < unat w1 then order_ctx (unat sz) (unat al) i else ctx)" by (simp add: order_ctx_def)
  have step: "create_loop (Suc n) sz al (of_nat i) ctx = create_loop n sz al (of_nat (i + 1))
    (if ?F i \<and> ?W i < unat w1 then order_ctx (unat sz) (unat al) i else ctx)" by (simp add: st add.commute)
  note wi = waste_small [OF i, of "unat sz" "unat al"]
  show ?case
    unfolding step
  proof (rule Suc.IH)
    show "n + (i + 1) = 4" using Suc.prems(1) by simp
    from Suc.prems(2) show "(if ?F i \<and> ?W i < unat w1 then order_ctx (unat sz) (unat al) i else ctx) = (0, 0, 0, -1) \<and>
        (\<forall>j<i + 1. \<not> ?F j) \<or>
      (\<exists>k<i + 1. (if ?F i \<and> ?W i < unat w1 then order_ctx (unat sz) (unat al) i else ctx) = order_ctx (unat sz) (unat al) k \<and>
        ?F k \<and> (\<forall>j<i + 1. ?F j \<longrightarrow> ?W k \<le> ?W j) \<and> (\<forall>j<k. ?F j \<longrightarrow> ?W k < ?W j))"
    proof (elim disjE exE conjE)
      assume z: "ctx = (0, 0, 0, -1)" "\<forall>j<i. \<not> ?F j"
      then have "?W i < unat w1" using wi(1) c unat_minus_1 by simp
      then show ?thesis
        using z by (cases "?F i") (auto simp: less_Suc_eq intro!: exI [of _ i])
    next
      fix k assume k: "k < i" "ctx = order_ctx (unat sz) (unat al) k" "?F k" "\<forall>j<i. ?F j \<longrightarrow> ?W k \<le> ?W j"
        "\<forall>j<k. ?F j \<longrightarrow> ?W k < ?W j"
      have w1: "unat w1 = ?W k" using k(1,2) c i waste_small(2) [of k "unat sz" "unat al"] by (simp add: order_ctx_def)
      show ?thesis
      proof (cases "?F i \<and> ?W i < ?W k")
        case True
        then show ?thesis using k(4) w1 by (auto simp: less_Suc_eq intro!: exI [of _ i])
      next
        case False
        then show ?thesis using k w1 by (auto simp: less_Suc_eq intro!: exI [of _ k])
      qed
    qed
  qed
qed

lemma create_loop_spec:
  assumes "0 < al" "0 < sz"
  shows "(\<exists>k. create_loop 4 sz al 0 (0, 0, 0, -1) = Some (order_ctx (unat sz) (unat al) k) \<and> best_order (unat sz) (unat al) k) \<or>
    (create_loop 4 sz al 0 (0, 0, 0, -1) = Some (0, 0, 0, -1) \<and> (\<forall>j<4. \<not> order_fits (unat sz) (unat al) j))"
  using create_loop_inv [OF assms, of 4 0 "(0, 0, 0, -1)"] by simp

lemma create_spec:
  assumes c: "get_cache h cp = Some c" "sc_full c = 0" "sc_partial c = 0" "sc_empty c = 0"
    and al: "0 < al" and sz: "8 \<le> sz" and k: "best_order (unat sz) (unat al) k"
    and b: "kbud_alloc (buddy h) (of_nat k) = Some (b, a)" "a \<noteq> KPAGE_ERR" "a \<noteq> 0"
      "4096 * 2 ^ k dvd unat a" "unat a + 4096 * 2 ^ k \<le> 2 ^ 64"
  shows "\<exists>h' c'. kslab_cache_create h cp ident sz al flags = Some (h', 0) \<and>
    slab_inv h' cp c' (one_empty a) (\<lambda>_. all_objs c' a) \<and> buddy h' = b \<and>
    unat (sc_order c') = k \<and> obj_size c' = sz \<and> unat (reserved c') = hdr_room (unat al) \<and>
    unat (slab_objs_per c') = (4096 * 2 ^ k - hdr_room (unat al)) div unat sz"
proof -
  note cp = slab_nonnull(2) [OF c(1)]
  have usz: "8 \<le> unat sz" using sz by (simp add: word_le_nat_alt)
  have sz0: "0 < sz" using usz by (simp add: word_less_nat_alt)
  have uniq: "k' = k" if "best_order (unat sz) (unat al) k'" for k'
  proof -
    have "\<not> k' < k" "\<not> k < k'" using that k unfolding best_order_def by (meson not_le)+
    then show ?thesis by simp
  qed
  have lp: "create_loop 4 sz al 0 (0, 0, 0, -1) = Some (order_ctx (unat sz) (unat al) k)"
    using create_loop_spec [OF al sz0]
  proof (elim disjE exE conjE)
    fix k' assume "create_loop 4 sz al 0 (0, 0, 0, - 1) = Some (order_ctx (unat sz) (unat al) k')" "best_order (unat sz) (unat al) k'"
    with uniq [of k'] show ?thesis by simp
  next
    assume "\<forall>j<4. \<not> order_fits (unat sz) (unat al) j"
    with k have False unfolding best_order_def by blast
    then show ?thesis ..
  qed
  have k4: "k < 4" and fit: "order_fits (unat sz) (unat al) k" using k by (auto simp: best_order_def)
  let ?r = "hdr_room (unat al)" and ?n = "(4096 * 2 ^ k - hdr_room (unat al)) div unat sz"
  have "(2 :: nat) ^ k \<le> 2 ^ 3" using k4 by (intro power_increasing) auto
  then have S: "4096 * 2 ^ k \<le> (32768 :: nat)" by simp
  have r: "?r < 4096 * 2 ^ k" "48 \<le> ?r" using fit by (simp_all add: order_fits_def hdr_room_def)
  have n: "8 \<le> ?n" "?n \<le> 32768" using fit S by (auto simp: order_fits_def intro: order_trans [OF div_le_dividend])
  have uk: "unat (of_nat k :: u32) = k" "unat (of_nat ?r :: u32) = ?r" "unat (ucast (of_nat ?n :: u64) :: u32) = ?n"
  proof -
    show "unat (of_nat k :: u32) = k" "unat (of_nat ?r :: u32) = ?r" using k4 r S by (auto intro!: unat_of_nat32)
    have "unat (of_nat ?n :: u64) = ?n" using n(2) by (intro unat_of_nat64) simp
    then show "unat (ucast (of_nat ?n :: u64) :: u32) = ?n"
      unfolding unsigned_ucast_eq using n(2) by (simp add: take_bit_nat_eq_self)
  qed
  have "unat (of_nat (order_waste (unat sz) (unat al) k) :: u64) \<noteq> unat (- 1 :: u64)"
    unfolding waste_small(2) [OF k4] unat_minus_1 using waste_small(1) [OF k4, of "unat sz" "unat al"] by simp
  then have w: "(of_nat (order_waste (unat sz) (unat al) k) :: u64) \<noteq> - 1" by metis
  define c1 where "c1 = c\<lparr>ident_ptr := ident, slab_pages := buddy_order_to_val (of_nat k) div PAGESIZE,
    alignment := al, obj_size := sz, metadata := ucast flags, sc_order := of_nat k,
    waste := ucast (of_nat (order_waste (unat sz) (unat al) k) :: u64), reserved := of_nat ?r,
    slab_objs_per := ucast (of_nat ?n :: u64), empty_slabs := empty_slabs c + 1, max_empty_slabs := KSLAB_PRESET_MAX_EMPTY\<rparr>"
  have f1: "unat (sc_order c1) = k" "obj_size c1 = sz" "unat (reserved c1) = ?r" "unat (slab_objs_per c1) = ?n"
    "slab_bytes c1 = 4096 * 2 ^ k"
    using uk by (simp_all add: c1_def slab_bytes_def)
  have "?n * unat sz \<le> 4096 * 2 ^ k - ?r" by (rule div_times_less_eq_dividend)
  then have "?r + ?n * unat sz \<le> 4096 * 2 ^ k" using r(1) by linarith
  then have g: "cache_geom c1" using f1 k4 usz n r by (simp add: cache_geom_def)
  have pl: "slab_place c1 a" using b(4,5) by (simp add: slab_place_def f1(5))
  have pc: "get_cache (put_cache h cp c1) cp = Some c1" using cp by simp
  have b': "kbud_alloc (buddy (put_cache h cp c1)) (sc_order c1) = Some (b, a)" using b(1) by (simp add: c1_def)
  have z: "sc_full c1 = 0" "sc_partial c1 = 0" "sc_empty c1 = 0" using c by (simp_all add: c1_def)
  from new_slab_spec [OF pc z g b' b(2,3) pl] obtain h' c' where
    r': "kslab_new_slab (put_cache h cp c1) cp = Some (h', a)" "same_cache c1 c'"
    "slab_inv h' cp c' (one_empty a) (\<lambda>_. all_objs c1 a)" "buddy h' = b" by blast
  note sf = same_cache_fields [OF r'(2)]
  have "all_objs c' a = all_objs c1 a" by (simp add: all_objs_def obj_addr_def sf)
  moreover have "kslab_cache_create h cp ident sz al flags = Some (h', 0)"
    using cp lp w c(1) r'(1) b(2) by (simp add: kslab_cache_create_def order_ctx_def c1_def [symmetric])
  ultimately show ?thesis
    using r'(3,4) sf f1 by (intro exI [of _ h'] exI [of _ c']) simp
qed
end
