(* ===== verification/SlabProps.thy ===== *)
theory SlabProps
  imports SlabCreate BuddyProps
begin

text \<open>
  Properties of the slab allocator: setting up a cache, allocating from it and freeing to it keep the
  cache invariant and return objects that are free and distinct; a run shows the counter of empty
  slabs drifting.
\<close>

section \<open>A cache on the demonstration memory\<close>

definition demo_cache :: kslab_cache where
  "demo_cache = \<lparr>ident_ptr = 0, sc_order = 0, obj_size = 0, alignment = 0, slab_pages = 0, sc_full = 0, sc_partial = 0,
     sc_empty = 0, empty_slabs = 0, slab_objs_per = 0, waste = 0, reserved = 0, metadata = 0, max_empty_slabs = 0\<rparr>"

definition demo_heap :: "kbuddy \<Rightarrow> kheap" where
  "demo_heap b = \<lparr>buddy = b, slabs = Map.empty, caches = [0x100 \<mapsto> demo_cache], bytes = (\<lambda>_. 0)\<rparr>"

lemma demo_page:
  obtains b a where "kbud_alloc demo1 0 = Some (b, a)" "a \<noteq> KPAGE_ERR" "a \<noteq> 0"
    "4096 dvd unat a" "unat a + 4096 \<le> 2 ^ 64"
proof (rule demo1_inv)
  fix s assume s: "get_slave demo1 demo_sp = Some s" "region_inv demo1 s 2048 ((\<lambda>_. [])(2 := [0]))"
    "same_geom demo_slave s" "same_mem demo0 demo1"
  have r: "regions demo1 = demo_sp # KPAGE_ERR # replicate 126 0" "region_count demo1 = 1"
    using s(4) by (simp_all add: same_mem_def demo0_vals)
  have "\<exists>j :: nat. 0 \<le> j \<and> j \<le> 10 \<and> ((\<lambda>_. [])(2 := [0 :: nat])) j \<noteq> []" by (intro exI [of _ 2]) simp
  then obtain b s' F' n where b: "kbud_alloc demo1 0 = Some (b, faddr s n)" "region_inv b s' 2048 F'" "held s' F' 0 n"
    "free_frames F' \<union> fr 0 n = free_frames ((\<lambda>_. [])(2 := [0]))"
    using kbud_alloc_some [of 0 0 demo1 s 2048 "(\<lambda>_. [])(2 := [0])"] r s(1,2) demo_sp(2) by auto
  have "n \<in> free_frames ((\<lambda>_. [])(2 := [0]))" using b(4) fr_self [of n 0] by blast
  then have n: "n < 4" by (auto simp: free_frames_def fr_def split: if_splits)
  have g: "geom s 2048" using s(2) by (rule region_invD)
  have m: "mbase s = 0x400000" using s(3) demo_slave_vals by (simp add: same_geom_def)
  have "faddr s n = of_nat (0xFFFF800000400000 + 4096 * n)"
    by (simp add: faddr_def m phys_to_virt_pm_def get_kernel_phmap_def KERNEL_PHMMAP_def)
  then have "unat (faddr s n) = 0xFFFF800000400000 + 4096 * n" using n by (simp only:) (intro unat_of_nat64, simp)
  moreover have "(4096 :: nat) dvd 0xFFFF800000400000 + 4096 * n" by (intro dvd_add) simp_all
  ultimately show ?thesis using that [OF b(1)] faddr_ok [OF g, of n] n by simp
qed

lemma demo_best: "best_order 64 8 0"
proof -
  have h: "hdr_room 8 = 48" by (simp add: hdr_room_def)
  have "order_fits 64 8 j \<and> order_waste 64 8 j = 16" if "j < 4" for j
  proof -
    have "j = 0 \<or> j = 1 \<or> j = 2 \<or> j = 3" using that by linarith
    then show ?thesis by (elim disjE) (simp_all add: order_fits_def order_waste_def h)
  qed
  then show ?thesis by (simp add: best_order_def)
qed

lemma demo_slab:
  obtains h c a where "kslab_cache_create (demo_heap demo1) 0x100 0 64 8 0 = Some (h, 0)"
    "slab_inv h 0x100 c (one_empty a) (\<lambda>_. all_objs c a)" "unat (slab_objs_per c) = 63"
proof (rule demo_page)
  fix b a assume b: "kbud_alloc demo1 0 = Some (b, a)" "a \<noteq> KPAGE_ERR" "a \<noteq> 0" "4096 dvd unat a" "unat a + 4096 \<le> 2 ^ 64"
  have "get_cache (demo_heap demo1) 0x100 = Some demo_cache" by (simp add: get_cache_def demo_heap_def)
  from create_spec [OF this, of 8 64 0 b a 0 0] b demo_best obtain h c where
    "kslab_cache_create (demo_heap demo1) 0x100 0 64 8 0 = Some (h, 0)"
    "slab_inv h 0x100 c (one_empty a) (\<lambda>_. all_objs c a)" "unat (slab_objs_per c) = (4096 - hdr_room 8) div 64"
    by (auto simp: demo_cache_def demo_heap_def)
  then show ?thesis by (intro that) (simp_all add: hdr_room_def)
qed

text \<open>One allocation from a slab that is the only one of its cache, and two in a row.\<close>

lemma alloc_single:
  assumes i: "slab_inv h cp c L fl" and s: "slabs_of L = {a}" and n: "unat (slab_objs_per c) = 63" "2 \<le> length (fl a)"
  obtains h' c' x xs L' where "fl a = x # xs" "slab_inv h' cp c' L' (fl(a := xs))" "slabs_of L' = {a}"
    "unat (slab_objs_per c') = 63" "a \<in> set (L' PartialList)" "x \<in> objs_of c' a" "x \<notin> set xs"
proof -
  have g: "cache_geom c" using i by (simp add: slab_inv_def)
  from s obtain k where k: "a \<in> set (L k)" by (auto simp: slabs_of_def)
  note ok = slab_inv_nth [OF i k]
  have "k \<noteq> FullList" using ok(2) n(2) by (auto simp: filled_def)
  then have ne: "L PartialList @ L EmptyList \<noteq> []" using k by (cases k) auto
  have "set (L PartialList @ L EmptyList) \<subseteq> {a}" using s by (auto simp: slabs_of_def)
  then obtain rest where r: "L PartialList @ L EmptyList = a # rest"
    using ne by (cases "L PartialList @ L EmptyList") auto
  from kslab_alloc_spec [OF i r] obtain h' c' x xs L' where a: "fl a = x # xs" "slab_inv h' cp c' L' (fl(a := xs))"
    "same_shape c c'" "slabs_of L' = {a}" using s by blast
  have n': "unat (slab_objs_per c') = 63" using a(3) n(1) by (simp add: same_shape_def)
  from a(4) obtain k' where k': "a \<in> set (L' k')" by (auto simp: slabs_of_def)
  have "length xs < 63" using free_list_card(1) [OF g ok(1)] a(1) n(1) by simp
  moreover have "0 < length xs" using n(2) a(1) by (cases xs) simp_all
  ultimately have "k' = PartialList" using slab_inv_nth(2) [OF a(2) k'] n' by (cases k') (auto simp: filled_def)
  moreover have "x \<in> objs_of c' a" "x \<notin> set xs"
    using ok(1) free_list_card(2) [OF g ok(1)] same_shape_geom(2) [OF a(3)] a(1) by (auto simp: slab_ok_def)
  ultimately show ?thesis using that a k' n' by blast
qed

lemma demo_taken:
  obtains h c L fl a x where "slab_inv h 0x100 c L fl" "a \<in> set (L FullList) \<union> set (L PartialList)"
    "x \<in> objs_of c a" "x \<notin> set (fl a)" "length (fl a) + 1 < unat (slab_objs_per c)"
proof (rule demo_slab)
  fix h c a assume h: "slab_inv h 0x100 c (one_empty a) (\<lambda>_. all_objs c a)" "unat (slab_objs_per c) = 63"
  have l: "length (all_objs c a) = 63" by (simp add: all_objs_def h(2))
  have s: "slabs_of (one_empty a) = {a}" by (simp add: slabs_of_def one_empty_def)
  have "2 \<le> length (all_objs c a)" using l by simp
  then obtain h1 c1 x1 xs1 L1 where
    1: "all_objs c a = x1 # xs1" "slab_inv h1 0x100 c1 L1 ((\<lambda>_. all_objs c a)(a := xs1))" "slabs_of L1 = {a}"
    "unat (slab_objs_per c1) = 63" "a \<in> set (L1 PartialList)" "x1 \<in> objs_of c1 a" "x1 \<notin> set xs1"
    by (rule alloc_single [OF h(1) s h(2)])
  have l1: "length xs1 = 62" using l 1(1) by simp
  then have "2 \<le> length (((\<lambda>_. all_objs c a)(a := xs1)) a)" by simp
  then obtain h2 c2 x xs L2 where
    2: "((\<lambda>_. all_objs c a)(a := xs1)) a = x # xs" "slab_inv h2 0x100 c2 L2 (((\<lambda>_. all_objs c a)(a := xs1))(a := xs))"
    "slabs_of L2 = {a}" "unat (slab_objs_per c2) = 63" "a \<in> set (L2 PartialList)" "x \<in> objs_of c2 a" "x \<notin> set xs"
    by (rule alloc_single [OF 1(2-4)])
  show ?thesis by (rule that [OF 2(2)]) (use 2 l1 in auto)
qed

text \<open>Allocation and immediate freeing of one object, repeated.\<close>

primrec slab_cycles :: "nat \<Rightarrow> kheap \<Rightarrow> u64 \<Rightarrow> kheap option" where
  "slab_cycles 0 h cp = Some h"
| "slab_cycles (Suc n) h cp = do { (h, x) \<leftarrow> kslab_alloc h cp; h \<leftarrow> kslab_free h cp x; slab_cycles n h cp }"

definition slab_run :: "u64 \<Rightarrow> nat \<Rightarrow> (u32 \<times> u8 \<times> u64) option" where
  "slab_run objsize n = do {
     (h, _) \<leftarrow> kslab_cache_create (demo_heap demo1) 0x100 0 objsize 8 0;
     h \<leftarrow> slab_cycles n h 0x100;
     c \<leftarrow> get_cache h 0x100;
     Some (empty_slabs c, max_empty_slabs c, sc_empty c) }"

section \<open>Claims\<close>

text \<open>C11. \<^verbatim>\<open>kslab_cache_create\<close> on a cache without slabs chooses, among the orders 0 to 3 with room for
  eight objects behind the padded header, the first of least waste, and sets up one empty slab whose
  free list links all its objects in order.\<close>

theorem kslab_cache_create_correct:
  assumes "get_cache h cp = Some c" "sc_full c = 0" "sc_partial c = 0" "sc_empty c = 0"
    and "0 < al" "8 \<le> sz" "best_order (unat sz) (unat al) k"
    and "kbud_alloc (buddy h) (of_nat k) = Some (b, a)" "a \<noteq> KPAGE_ERR" "a \<noteq> 0"
      "4096 * 2 ^ k dvd unat a" "unat a + 4096 * 2 ^ k \<le> 2 ^ 64"
  shows "\<exists>h' c'. kslab_cache_create h cp ident sz al flags = Some (h', 0) \<and>
    slab_inv h' cp c' (one_empty a) (\<lambda>_. all_objs c' a) \<and> buddy h' = b \<and>
    unat (sc_order c') = k \<and> obj_size c' = sz \<and> unat (reserved c') = hdr_room (unat al) \<and>
    unat (slab_objs_per c') = (4096 * 2 ^ k - hdr_room (unat al)) div unat sz"
  by (rule create_spec [OF assms])

lemma kslab_cache_create_correct_witness:
  "\<exists>h c a. kslab_cache_create (demo_heap demo1) 0x100 0 64 8 0 = Some (h, 0) \<and>
    slab_inv h 0x100 c (one_empty a) (\<lambda>_. all_objs c a) \<and> unat (slab_objs_per c) = 63"
proof (rule demo_page)
  fix b a assume b: "kbud_alloc demo1 0 = Some (b, a)" "a \<noteq> KPAGE_ERR" "a \<noteq> 0" "4096 dvd unat a" "unat a + 4096 \<le> 2 ^ 64"
  have "get_cache (demo_heap demo1) 0x100 = Some demo_cache" by (simp add: get_cache_def demo_heap_def)
  from kslab_cache_create_correct [OF this, of 8 64 0 b a 0 0] b demo_best show ?thesis
    by (auto simp: demo_cache_def demo_heap_def hdr_room_def)
qed

text \<open>C12. \<^verbatim>\<open>kslab_alloc\<close> on a cache with a partial or empty slab returns the head of the free list of the
  first partial slab, else of the first empty one: an object that was free, no longer is, and the
  cache invariant holds again; no page is taken from the page allocator.\<close>

theorem kslab_alloc_correct:
  assumes "slab_inv h cp c L fl" "L PartialList @ L EmptyList = a # rest"
  shows "\<exists>h' c' x xs L'. fl a = x # xs \<and> kslab_alloc h cp = Some (h', x) \<and> x \<noteq> KPAGE_ERR \<and>
    slab_inv h' cp c' L' (fl(a := xs)) \<and> same_shape c c' \<and> bytes h' = bytes h \<and> buddy h' = buddy h \<and>
    slabs_of L' = slabs_of L"
  by (rule kslab_alloc_spec [OF assms])

lemma kslab_alloc_correct_witness:
  "\<exists>h h' c' x a xs L'. kslab_cache_create (demo_heap demo1) 0x100 0 64 8 0 = Some (h, 0) \<and>
    kslab_alloc h 0x100 = Some (h', x) \<and> slab_inv h' 0x100 c' L' ((\<lambda>_. x # xs)(a := xs))"
proof (rule demo_slab)
  fix h c a assume h: "kslab_cache_create (demo_heap demo1) 0x100 0 64 8 0 = Some (h, 0)"
    "slab_inv h 0x100 c (one_empty a) (\<lambda>_. all_objs c a)"
  have "one_empty a PartialList @ one_empty a EmptyList = a # []" by (simp add: one_empty_def)
  from kslab_alloc_correct [OF h(2) this] h(1) show ?thesis by metis
qed

text \<open>C13. \<^verbatim>\<open>kslab_free\<close> of an allocated object finds its slab from the address, puts the object at the head of the
  slab's free list and moves the slab to the partial or empty list as its number of free objects demands; the
  cache invariant holds again. Where that was the last allocated object of its slab and the counter of empty slabs, raised by
  two, exceeds the limit (\<open>free_releases\<close>), the first slab of the empty list, which is the slab itself when there is no
  other, leaves the cache and its block goes to the page allocator, provided \<^verbatim>\<open>kbud_free\<close> of that block returns;
  otherwise the cache keeps its slabs and the page allocator is as before.\<close>

theorem kslab_free_correct:
  assumes "slab_inv h cp c L fl" "a \<in> set (L FullList) \<union> set (L PartialList)"
    and "x \<in> objs_of c a" "x \<notin> set (fl a)"
    and "free_releases c (length (fl a)) \<Longrightarrow> kbud_free (buddy h) (hd (L EmptyList @ [a])) (sc_order c) = Some b"
  shows "\<exists>h' c' L'. kslab_free h cp x = Some h' \<and> slab_inv h' cp c' L' (fl(a := x # fl a)) \<and> same_shape c c' \<and>
    (if free_releases c (length (fl a)) then buddy h' = b \<and> slabs_of L' = slabs_of L - {hd (L EmptyList @ [a])}
     else buddy h' = buddy h \<and> slabs_of L' = slabs_of L)"
  by (rule kslab_free_spec [OF assms])

lemma kslab_free_correct_witness:
  "\<exists>h x h' c' L' fl. kslab_free h 0x100 x = Some h' \<and> slab_inv h' 0x100 c' L' (fl :: u64 \<Rightarrow> u64 list)"
proof (rule demo_taken)
  fix h c L fl a x assume d: "slab_inv h 0x100 c L fl" "a \<in> set (L FullList) \<union> set (L PartialList)"
    "x \<in> objs_of c a" "x \<notin> set (fl a)" "length (fl a) + 1 < unat (slab_objs_per c)"
  have "\<not> free_releases c (length (fl a))" using d(5) by (intro free_stays) simp
  with kslab_free_correct [OF d(1-4), of "buddy h"] show ?thesis by blast
qed

text \<open>\<^verbatim>\<open>kslab_free\<close> counts a slab that becomes empty twice, \<^verbatim>\<open>kslab_empty_alloc\<close> takes one off: a cache with one
  empty slab counts one; after an allocation that is freed at once it counts two, with the same single slab.
  Each further round adds one, until the limit of four is passed and that slab is given back.\<close>

lemma kslab_counter_drifts: "slab_run 504 1 = Some (2, 4, 0xFFFF800000400000)"
  by code_simp

end
