(* ===== verification/Vma.thy ===== *)
theory Vma
  imports Slab RbTree
begin

text \<open>
  The virtual memory areas of \<^verbatim>\<open>kernel/mm/vma.c\<close>: an area (\<^verbatim>\<open>struct kernel_vma\<close>) is an object of the
  slab cache \<^verbatim>\<open>vma_cache\<close> with a red-black tree node embedded 32 bytes into it. The state holds the
  memory of the slab allocator, the areas by address, and the region with its tree. An object that is
  given back to the cache is no longer an area.
\<close>

section \<open>State\<close>

definition VMA_INVALID_PTR :: u64 where "VMA_INVALID_PTR = -1"
definition KERNEL_VMMAP_LEN :: u64 where "KERNEL_VMMAP_LEN = 1024 * 1024 * 1024 * 1024 * 64"

definition VM_READ :: u32 where "VM_READ = push_bit 0 1"
definition VM_WRITE :: u32 where "VM_WRITE = push_bit 1 1"
definition VM_EXEC :: u32 where "VM_EXEC = push_bit 2 1"
definition VM_USER :: u32 where "VM_USER = push_bit 3 1"
definition VM_ANON :: u32 where "VM_ANON = push_bit 4 1"
definition VM_IO :: u32 where "VM_IO = push_bit 5 1"
definition VM_NOCACHE :: u32 where "VM_NOCACHE = push_bit 6 1"
definition VM_WRITE_THROUGH :: u32 where "VM_WRITE_THROUGH = push_bit 7 1"
definition VM_SHARED :: u32 where "VM_SHARED = push_bit 8 1"
definition VM_GROWSDOWN :: u32 where "VM_GROWSDOWN = push_bit 9 1"

record kernel_vma =
  vm_start :: u64
  vm_end :: u64
  vm_pages :: u64
  vm_flags :: u32

record vmm =
  kheap :: kheap
  vma_cache :: u64
  vmas :: "u64 \<rightharpoonup> kernel_vma"
  r_start :: u64
  r_end :: u64
  r_tree :: rb_state

definition get_vma :: "vmm \<Rightarrow> u64 \<Rightarrow> kernel_vma option" where
  "get_vma m p = (if p = 0 then None else vmas m p)"

text \<open>\<open>substruct_owner(x, kernel_vma_t, rb_node)\<close> and \<open>&vma->rb_node\<close>.\<close>

definition vma_struct_from_rb_node :: "u64 \<Rightarrow> u64" where
  "vma_struct_from_rb_node x = x - 32"

definition vma_rb_node :: "u64 \<Rightarrow> u64" where
  "vma_rb_node p = p + 32"

section \<open>The cache of areas\<close>

definition vma_cache_free :: "vmm \<Rightarrow> u64 \<Rightarrow> vmm option" where
  "vma_cache_free m p = do {
     h \<leftarrow> kslab_free (kheap m) (vma_cache m) p;
     Some (m\<lparr>kheap := h, vmas := (vmas m)(p := None)\<rparr>) }"

definition vma_cache_alloc :: "vmm \<Rightarrow> (vmm \<times> u64) option" where
  "vma_cache_alloc m = do {
     (h, p) \<leftarrow> kslab_alloc (kheap m) (vma_cache m);
     Some (m\<lparr>kheap := h\<rparr>, p) }"

section \<open>Insertion, search, removal\<close>

text \<open>The descent: the link and its owner, or \<open>None\<close> when an area overlaps (\<open>return -1\<close>).\<close>

partial_function (option) vma_descend ::
  "vmm \<Rightarrow> kernel_vma \<Rightarrow> rb_link \<Rightarrow> u64 \<Rightarrow> (rb_link \<times> u64) option option" where
  "vma_descend m v link parent = do {
     current \<leftarrow> link_get (r_tree m) link;
     if current = 0 then Some (Some (link, parent))
     else do {
       cv \<leftarrow> get_vma m (vma_struct_from_rb_node current);
       if vm_end v \<le> vm_start cv then vma_descend m v (LeftOf current) current
       else if vm_start v \<ge> vm_end cv then vma_descend m v (RightOf current) current
       else Some None } }"

definition vma_insert :: "vmm \<Rightarrow> u64 \<Rightarrow> (vmm \<times> int) option" where
  "vma_insert m vma = do {
     v \<leftarrow> get_vma m vma;
     r \<leftarrow> vma_descend m v RootLink 0;
     (case r of
        None \<Rightarrow> Some (m, -1)
      | Some (link, parent) \<Rightarrow> do {
          t \<leftarrow> rb_insert (r_tree m) (vma_rb_node vma) parent link;
          Some (m\<lparr>r_tree := t\<rparr>, 0) }) }"

definition vma_remove :: "vmm \<Rightarrow> u64 \<Rightarrow> vmm option" where
  "vma_remove m vma =
     (if vma = 0 then Some m
      else do {
        (t, _) \<leftarrow> rb_remove (r_tree m) (vma_rb_node vma);
        vma_cache_free (m\<lparr>r_tree := t\<rparr>) vma })"

partial_function (option) vma_search_from :: "vmm \<Rightarrow> u64 \<Rightarrow> u64 \<Rightarrow> u64 option" where
  "vma_search_from m addr node =
     (if node = 0 then Some VMA_INVALID_PTR
      else do {
        let v = vma_struct_from_rb_node node;
        s \<leftarrow> get_vma m v;
        if addr \<ge> vm_start s \<and> addr < vm_end s then Some v
        else do {
          node \<leftarrow> (if addr < vm_start s then get_left (r_tree m) node else Some node);
          node \<leftarrow> (if addr \<ge> vm_end s then get_right (r_tree m) node else Some node);
          vma_search_from m addr node } })"

definition vma_search :: "vmm \<Rightarrow> u64 \<Rightarrow> u64 option" where
  "vma_search m addr = vma_search_from m addr (rb_root (r_tree m))"

definition vma_remove_by_addr :: "vmm \<Rightarrow> u64 \<Rightarrow> vmm option" where
  "vma_remove_by_addr m addr = do { v \<leftarrow> vma_search m addr; vma_remove m v }"

definition vma_free_area :: "vmm \<Rightarrow> u64 \<Rightarrow> vmm option" where
  "vma_free_area m addr = do {
     vma \<leftarrow> vma_search m addr;
     if vma = VMA_INVALID_PTR then Some m
     else do {
       (t, _) \<leftarrow> rb_remove (r_tree m) (vma_rb_node vma);
       vma_cache_free (m\<lparr>r_tree := t\<rparr>) vma } }"

section \<open>Allocation of an area\<close>

text \<open>The new object, cleared (its tree node too) and filled; the code 1 without an object.\<close>

definition vma_assign_struct :: "vmm \<Rightarrow> u64 \<Rightarrow> u64 \<Rightarrow> u32 \<Rightarrow> (vmm \<times> u64 \<times> int) option" where
  "vma_assign_struct m begn sz flags = do {
     (m, p) \<leftarrow> vma_cache_alloc m;
     if p = VMA_INVALID_PTR then Some (m, p, 1)
     else
       let t = r_tree m;
           t = t\<lparr>rb_nodes := (rb_nodes t)(vma_rb_node p \<mapsto>
                 \<lparr>rb_left = 0, rb_right = 0, rb_parent = 0, rb_color = RB_RED\<rparr>)\<rparr>;
           v = \<lparr>vm_start = begn, vm_end = begn + sz, vm_pages = 0, vm_flags = flags\<rparr>
       in Some (m\<lparr>r_tree := t, vmas := (vmas m)(p \<mapsto> v)\<rparr>, p, 0) }"

text \<open>The walk over the gaps between neighbours: the end before the first gap that is large enough.\<close>

partial_function (option) vma_gap :: "vmm \<Rightarrow> u64 \<Rightarrow> u64 \<Rightarrow> u64 \<Rightarrow> u64 option option" where
  "vma_gap m area_size highest node =
     (if node \<noteq> highest then do {
        s \<leftarrow> get_vma m node;
        let prev_end = vm_end s;
        nx \<leftarrow> rb_next (r_tree m) (vma_rb_node node);
        let node = vma_struct_from_rb_node nx;
        s \<leftarrow> get_vma m node;
        if vm_start s - prev_end \<ge> area_size then Some (Some prev_end)
        else vma_gap m area_size highest node }
      else Some None)"

text \<open>Where the area goes: \<open>None\<close> for no place.\<close>

definition vma_place :: "vmm \<Rightarrow> u64 \<Rightarrow> u64 option option" where
  "vma_place m area_size =
     (if rb_root (r_tree m) = 0 then Some (Some (r_start m))
      else do {
        rb_lowest \<leftarrow> rb_first (r_tree m);
        rb_highest \<leftarrow> rb_last (r_tree m);
        if rb_lowest = 0 \<or> rb_highest = 0 then Some None
        else do {
          let lowest = vma_struct_from_rb_node rb_lowest;
          let highest = vma_struct_from_rb_node rb_highest;
          lo \<leftarrow> get_vma m lowest;
          if vm_start lo - r_start m \<ge> area_size then Some (Some (r_start m))
          else do {
            hi \<leftarrow> get_vma m highest;
            if r_end m - vm_end hi \<ge> area_size then Some (Some (vm_end hi))
            else vma_gap m area_size highest lowest } } })"

definition vma_alloc_area :: "vmm \<Rightarrow> u64 \<Rightarrow> u32 \<Rightarrow> (vmm \<times> u64) option" where
  "vma_alloc_area m area_size flags = do {
     let area_size = PAGE_ALIGNUP area_size;
     let region_depth = r_end m - r_start m;
     if area_size > region_depth then Some (m, VMA_INVALID_PTR)
     else do {
       place \<leftarrow> vma_place m area_size;
       (case place of
          None \<Rightarrow> Some (m, VMA_INVALID_PTR)
        | Some start \<Rightarrow> do {
            (m, vma, ret) \<leftarrow> vma_assign_struct m start area_size flags;
            if ret \<noteq> 0 then Some (m, VMA_INVALID_PTR)
            else do {
              (m, _) \<leftarrow> vma_insert m vma;
              Some (m, vma) } }) } }"

definition vma_subsystem_init :: "vmm \<Rightarrow> u64 \<Rightarrow> (vmm \<times> int) option" where
  "vma_subsystem_init m ident = do {
     (h, ret) \<leftarrow> kslab_cache_create (kheap m) (vma_cache m) ident 64 8 0;
     let m = m\<lparr>kheap := h\<rparr>;
     if ret \<noteq> 0 then Some (m, 1)
     else Some (m\<lparr>r_start := get_kernel_vmmap, r_end := get_kernel_vmmap + KERNEL_VMMAP_LEN\<rparr>, 0) }"

declare vma_descend.simps [code] vma_search_from.simps [code] vma_gap.simps [code]

end
