(* ===== verification/ObjectPool.thy ===== *)
theory ObjectPool
  imports Builtin
begin

text \<open>
  What an allocator of fixed-size objects promises its clients: of the set \<open>U\<close> of all its objects the set
  \<open>F\<close> is free; allocation returns a free object and takes it out of \<open>F\<close>, freeing puts it back; what lies
  beside the pool (\<open>others\<close>) stays as it is. The slab caches and the page allocator are instances.
\<close>

section \<open>The interface\<close>

locale object_pool =
  fixes holds :: "'h \<Rightarrow> u64 set \<Rightarrow> u64 set \<Rightarrow> bool"
    and alloc :: "'h \<Rightarrow> ('h \<times> u64) option"
    and others :: "'h \<Rightarrow> 'r"
  assumes alloc_law: "holds h U F \<Longrightarrow> F \<noteq> {} \<Longrightarrow>
      \<exists>h' x. alloc h = Some (h', x) \<and> x \<in> F \<and> holds h' U (F - {x}) \<and> others h' = others h"
    and pool_ok: "holds h U F \<Longrightarrow> finite F \<and> F \<subseteq> U \<and> 0 \<notin> U \<and> KPAGE_ERR \<notin> U"
begin

lemma alloc_fresh:
  assumes "holds h U F" "F \<noteq> {}"
  obtains h' x where "alloc h = Some (h', x)" "x \<in> F" "x \<noteq> 0" "x \<noteq> KPAGE_ERR" "holds h' U (F - {x})" "others h' = others h"
  using alloc_law [OF assms] pool_ok [OF assms(1)] by blast

primrec alloc_many :: "nat \<Rightarrow> 'h \<Rightarrow> ('h \<times> u64 list) option" where
  "alloc_many 0 h = Some (h, [])"
| "alloc_many (Suc n) h = do { (h, x) \<leftarrow> alloc h; (h, xs) \<leftarrow> alloc_many n h; Some (h, x # xs) }"

lemma alloc_many_distinct:
  "holds h U F \<Longrightarrow> n \<le> card F \<Longrightarrow>
    \<exists>h' xs. alloc_many n h = Some (h', xs) \<and> length xs = n \<and> distinct xs \<and> set xs \<subseteq> F \<and> holds h' U (F - set xs)"
proof (induction n arbitrary: h F)
  case 0
  then show ?case by simp
next
  case (Suc n)
  then have "F \<noteq> {}" by auto
  from alloc_law [OF Suc.prems(1) this] obtain h1 x where
    1: "alloc h = Some (h1, x)" "x \<in> F" "holds h1 U (F - {x})" by blast
  have "n \<le> card (F - {x})" using Suc.prems(2) 1(2) by (simp add: card_Diff_singleton)
  from Suc.IH [OF 1(3) this] obtain h2 xs where
    2: "alloc_many n h1 = Some (h2, xs)" "length xs = n" "distinct xs" "set xs \<subseteq> F - {x}" "holds h2 U (F - {x} - set xs)"
    by blast
  have "F - {x} - set xs = F - set (x # xs)" by auto
  with 1 2 show ?case by (intro exI [of _ h2] exI [of _ "x # xs"]) auto
qed

end

locale object_pool_free = object_pool holds alloc others
  for holds :: "'h \<Rightarrow> u64 set \<Rightarrow> u64 set \<Rightarrow> bool" and alloc :: "'h \<Rightarrow> ('h \<times> u64) option" and others :: "'h \<Rightarrow> 'r" +
  fixes free :: "'h \<Rightarrow> u64 \<Rightarrow> 'h option"
    and stays :: "'h \<Rightarrow> u64 \<Rightarrow> bool"
  assumes free_law: "holds h U F \<Longrightarrow> x \<in> U - F \<Longrightarrow> stays h x \<Longrightarrow> \<exists>h'. free h x = Some h' \<and> holds h' U (insert x F) \<and> others h' = others h"
begin

lemma alloc_free:
  assumes "holds h U F" "F \<noteq> {}" "alloc h = Some (h1, x)" "stays h1 x"
  shows "\<exists>h2. free h1 x = Some h2 \<and> holds h2 U F"
proof -
  from alloc_law [OF assms(1,2)] assms(3) have 1: "x \<in> F" "holds h1 U (F - {x})" by auto
  then have "x \<in> U - (F - {x})" using pool_ok [OF assms(1)] by auto
  from free_law [OF 1(2) this assms(4)] show ?thesis using 1(1) by (auto simp: insert_absorb)
qed

end

end
