(* ===== verification/SlabPool.thy ===== *)
theory SlabPool
  imports SlabCreate ObjectPool
begin

text \<open>
  The object pool that a slab cache offers its users: the set of free objects and the set of all
  objects; the laws of the interface \<open>object_pool_free\<close> hold for \<^verbatim>\<open>kslab_alloc\<close> and \<^verbatim>\<open>kslab_free\<close>.
\<close>

section \<open>A slab cache as a pool\<close>

definition pool_free :: "(slab_list \<Rightarrow> u64 list) \<Rightarrow> (u64 \<Rightarrow> u64 list) \<Rightarrow> u64 set" where
  "pool_free L fl = (\<Union>a \<in> slabs_of L. set (fl a))"

definition pool_objs :: "kslab_cache \<Rightarrow> (slab_list \<Rightarrow> u64 list) \<Rightarrow> u64 set" where
  "pool_objs c L = (\<Union>a \<in> slabs_of L. objs_of c a)"

definition slab_pool :: "u64 \<Rightarrow> kslab_cache \<Rightarrow> kheap \<Rightarrow> u64 set \<Rightarrow> u64 set \<Rightarrow> bool" where
  "slab_pool cp d h U F \<longleftrightarrow> (\<exists>c L fl. slab_inv h cp c L fl \<and> same_shape d c \<and>
     U = pool_objs c L \<and> F = pool_free L fl)"

text \<open>Whether the slab of an object stays in the cache when the object is freed.\<close>

definition slab_stays :: "u64 \<Rightarrow> kheap \<Rightarrow> u64 \<Rightarrow> bool" where
  "slab_stays cp h x = (case get_cache h cp of None \<Rightarrow> False | Some c \<Rightarrow>
     (case get_slab h (x AND NOT (buddy_order_to_val (sc_order c) - 1)) of None \<Rightarrow> False | Some s \<Rightarrow>
        unat (free_count s) + 1 < unat (slab_objs_per c) \<or> unat (empty_slabs c) + 2 \<le> unat (max_empty_slabs c)))"

lemma slabs_of_in: "a \<in> slabs_of L \<Longrightarrow> \<exists>k. a \<in> set (L k)"
  by (auto simp: slabs_of_def)

lemma in_slabs_of: "a \<in> set (L k) \<Longrightarrow> a \<in> slabs_of L"
  by (cases k) (auto simp: slabs_of_def)

lemma slabs_of_ok:
  assumes "slab_inv h cp c L fl" "a \<in> slabs_of L"
  shows "slab_ok h c a (fl a)" "slab_place c a" "set (fl a) \<subseteq> objs_of c a"
  using slabs_of_in [OF assms(2)] slab_inv_nth(1) [OF assms(1)] by (auto simp: slab_ok_def)

text \<open>Every object lies in one slab only, the one its address gives.\<close>

lemma objs_of_unique:
  assumes "cache_geom c" "slab_place c a" "slab_place c b" "x \<in> objs_of c a" "x \<in> objs_of c b"
  shows "a = b"
  using obj_base [OF assms(1,2,4)] obj_base [OF assms(1,3,5)] by simp

lemma pool_free_upd:
  assumes i: "slab_inv h cp c L fl" and a: "a \<in> slabs_of L" and x: "x \<in> objs_of c a" and S: "slabs_of L' = slabs_of L"
  shows "fl a = x # xs \<Longrightarrow> pool_free L' (fl(a := xs)) = pool_free L fl - {x}"
    and "x \<notin> set (fl a) \<Longrightarrow> pool_free L' (fl(a := x # fl a)) = insert x (pool_free L fl)"
proof -
  have g: "cache_geom c" using i by (simp add: slab_inv_def)
  have other: "x \<notin> set (fl b)" if "b \<in> slabs_of L" "b \<noteq> a" for b
    using that objs_of_unique [OF g slabs_of_ok(2) [OF i a] slabs_of_ok(2) [OF i that(1)] x] slabs_of_ok(3) [OF i that(1)]
    by auto
  show "pool_free L' (fl(a := xs)) = pool_free L fl - {x}" if f: "fl a = x # xs"
  proof -
    have "x \<notin> set xs" using free_list_card(2) [OF g slabs_of_ok(1) [OF i a]] f by simp
    then show ?thesis using other a f S by (fastforce simp: pool_free_def split: if_splits)
  qed
  show "pool_free L' (fl(a := x # fl a)) = insert x (pool_free L fl)" if "x \<notin> set (fl a)"
    using a S by (auto simp: pool_free_def split: if_splits)
qed

lemma pool_objs_same: "same_shape c c' \<Longrightarrow> slabs_of L' = slabs_of L \<Longrightarrow> pool_objs c' L' = pool_objs c L"
  using same_shape_geom(2) [of c c'] by (simp add: pool_objs_def)

lemma slab_pool_alloc:
  assumes h: "slab_pool cp d h U F" and ne: "F \<noteq> {}"
  shows "\<exists>h' x. kslab_alloc h cp = Some (h', x) \<and> x \<in> F \<and> slab_pool cp d h' U (F - {x}) \<and> buddy h' = buddy h"
proof -
  from h obtain c L fl where i: "slab_inv h cp c L fl" and s: "same_shape d c" "U = pool_objs c L" "F = pool_free L fl"
    by (auto simp: slab_pool_def)
  from ne s(3) obtain b k where b: "fl b \<noteq> []" "b \<in> set (L k)"
    by (auto simp: pool_free_def dest: slabs_of_in)
  have "k \<noteq> FullList" using slab_inv_nth(2) [OF i b(2)] b(1) by (auto simp: filled_def)
  then have "L PartialList @ L EmptyList \<noteq> []" using b(2) by (cases k) auto
  then obtain a rest where ar: "L PartialList @ L EmptyList = a # rest" by (cases "L PartialList @ L EmptyList") auto
  have "a \<in> set (L PartialList @ L EmptyList)" by (simp only: ar) simp
  then have a: "a \<in> slabs_of L" by (auto simp: slabs_of_def)
  from kslab_alloc_spec [OF i ar] obtain h' c' x xs L' where r: "fl a = x # xs" "kslab_alloc h cp = Some (h', x)" "x \<noteq> KPAGE_ERR"
    "slab_inv h' cp c' L' (fl(a := xs))" "same_shape c c'" "bytes h' = bytes h" "buddy h' = buddy h" "slabs_of L' = slabs_of L"
    by blast
  have x: "x \<in> objs_of c a" using slabs_of_ok(3) [OF i a] r(1) by simp
  have xF: "x \<in> F" unfolding s(3) pool_free_def using a r(1) by (intro UN_I [of a]) simp_all
  have "slab_pool cp d h' U (F - {x})"
    unfolding slab_pool_def s pool_free_upd(1) [OF i a x r(8) r(1), symmetric] pool_objs_same [OF r(5,8), symmetric]
    using r(4,5) s(1) by (intro exI [of _ c'] exI [of _ L'] exI [of _ "fl(a := xs)"]) (simp add: same_shape_def)
  with r(2,7) xF show ?thesis by blast
qed

lemma slab_pool_ok:
  assumes "slab_pool cp d h U F"
  shows "finite F \<and> F \<subseteq> U \<and> 0 \<notin> U \<and> KPAGE_ERR \<notin> U"
proof -
  from assms obtain c L fl where i: "slab_inv h cp c L fl" and s: "U = pool_objs c L" "F = pool_free L fl"
    by (auto simp: slab_pool_def)
  have g: "cache_geom c" using i by (simp add: slab_inv_def)
  have "finite F" by (simp add: s pool_free_def slabs_of_def)
  moreover have "F \<subseteq> U" using slabs_of_ok(3) [OF i] by (fastforce simp: s pool_free_def pool_objs_def)
  moreover have "0 \<notin> U" "KPAGE_ERR \<notin> U"
    using obj_range(3,4) [OF g slabs_of_ok(2) [OF i]] by (auto simp: s pool_objs_def)
  ultimately show ?thesis by simp
qed

lemma taken_slab:
  assumes i: "slab_inv h cp c L fl" and a: "a \<in> slabs_of L" and x: "x \<in> objs_of c a" "x \<notin> set (fl a)"
  shows "a \<in> set (L FullList) \<union> set (L PartialList)"
proof -
  have g: "cache_geom c" using i by (simp add: slab_inv_def)
  note ok = slabs_of_ok [OF i a]
  have "set (fl a) \<subset> objs_of c a" using ok(3) x by auto
  then have "card (set (fl a)) < card (objs_of c a)" by (intro psubset_card_mono) (auto simp: objs_of_def)
  moreover have "card (objs_of c a) \<le> unat (slab_objs_per c)"
    unfolding objs_of_def using card_image_le [of "{..<unat (slab_objs_per c)}" "obj_addr c a"] by simp
  ultimately have "length (fl a) < unat (slab_objs_per c)" using distinct_card [OF free_list_card(2) [OF g ok(1)]] by simp
  moreover from slabs_of_in [OF a] obtain k where k: "a \<in> set (L k)" ..
  ultimately have "k \<noteq> EmptyList" using slab_inv_nth(2) [OF i k] by (auto simp: filled_def)
  then show ?thesis using k by (cases k) auto
qed

lemma slab_pool_free:
  assumes h: "slab_pool cp d h U F" and x: "x \<in> U - F" and st: "slab_stays cp h x"
  shows "\<exists>h'. kslab_free h cp x = Some h' \<and> slab_pool cp d h' U (insert x F) \<and> buddy h' = buddy h"
proof -
  from h obtain c L fl where i: "slab_inv h cp c L fl" and s: "same_shape d c" "U = pool_objs c L" "F = pool_free L fl"
    by (auto simp: slab_pool_def)
  have g: "cache_geom c" and c: "get_cache h cp = Some c" using i by (simp_all add: slab_inv_def)
  from x s obtain a where a: "a \<in> slabs_of L" "x \<in> objs_of c a" "x \<notin> set (fl a)" by (auto simp: pool_objs_def pool_free_def)
  note ok = slabs_of_ok [OF i a(1)]
  note b = obj_base [OF g ok(2) a(2)] and fc = free_list_card(3) [OF g ok(1)]
  from slab_okD [OF ok(1)] obtain s1 where s1: "get_slab h a = Some s1" "free_count s1 = of_nat (length (fl a))" by blast
  have room: "length (fl a) + 1 < unat (slab_objs_per c) \<or> unat (empty_slabs c) + 2 \<le> unat (max_empty_slabs c)"
    using st unfolding slab_stays_def c option.case b s1(1) s1(2) fc .
  note nr = free_stays [OF room]
  from kslab_free_spec [OF i taken_slab [OF i a] a(2,3), of undefined] nr obtain h' c' L' where
    r: "kslab_free h cp x = Some h'" "slab_inv h' cp c' L' (fl(a := x # fl a))" "same_shape c c'" "slabs_of L' = slabs_of L"
    "buddy h' = buddy h" by auto
  have "slab_pool cp d h' U (insert x F)"
    unfolding slab_pool_def s pool_free_upd(2) [OF i a(1,2) r(4) a(3), symmetric] pool_objs_same [OF r(3,4), symmetric]
    using r(2,3) s(1) by (intro exI [of _ c'] exI [of _ L'] exI [of _ "fl(a := x # fl a)"]) (simp add: same_shape_def)
  with r(1,5) show ?thesis by blast
qed

interpretation sp: object_pool_free "slab_pool cp d" "\<lambda>h. kslab_alloc h cp" buddy "\<lambda>h x. kslab_free h cp x" "slab_stays cp"
  by unfold_locales (fact slab_pool_alloc slab_pool_ok slab_pool_free)+

lemma slab_pool_room:
  assumes h: "slab_pool cp d h U F" and x: "x \<in> U"
  shows "unat x + unat (obj_size d) \<le> 2 ^ 64"
proof -
  from h obtain c L fl where i: "slab_inv h cp c L fl" and s: "same_shape d c" "U = pool_objs c L"
    by (auto simp: slab_pool_def)
  have g: "cache_geom c" using i by (simp_all add: slab_inv_def)
  from x s obtain a where a: "a \<in> slabs_of L" "x \<in> objs_of c a" by (auto simp: pool_objs_def)
  note p = slabs_of_ok(2) [OF i a(1)]
  from a(2) obtain j where j: "j < unat (slab_objs_per c)" "x = obj_addr c a j" by (auto simp: objs_of_def)
  have "Suc j * unat (obj_size c) \<le> unat (slab_objs_per c) * unat (obj_size c)"
    using j by (intro mult_le_mono1) simp
  moreover have "obj_size c = obj_size d" using s(1) by (simp add: same_shape_def)
  ultimately show ?thesis using obj_bounds(1) [OF g p j(1)] p g by (simp add: j(2) cache_geom_def slab_place_def)
qed

lemma create_pool:
  assumes "slab_inv h cp c (one_empty a) (\<lambda>_. all_objs c a)"
  shows "slab_pool cp c h (objs_of c a) (objs_of c a)"
proof -
  have e: "set (all_objs c a) = objs_of c a" by (auto simp: all_objs_def objs_of_def)
  have "slabs_of (one_empty a) = {a}" by (simp add: slabs_of_def one_empty_def)
  then show ?thesis using assms e unfolding slab_pool_def
    by (intro exI [of _ c] exI [of _ "one_empty a"] exI [of _ "\<lambda>_. all_objs c a"]) (simp add: pool_objs_def pool_free_def same_shape_def)
qed

text \<open>An object that shares its slab with another allocated object leaves the slab in the cache.\<close>

lemma slab_stays_shared:
  assumes h: "slab_pool cp d h U F" and x: "x \<in> U - F" and y: "y \<in> U - F" and ne: "x \<noteq> y"
    and b: "x AND NOT (buddy_order_to_val (sc_order d) - 1) = y AND NOT (buddy_order_to_val (sc_order d) - 1)"
  shows "slab_stays cp h x"
proof -
  from h obtain c L fl where i: "slab_inv h cp c L fl" and s: "same_shape d c" "U = pool_objs c L" "F = pool_free L fl"
    by (auto simp: slab_pool_def)
  have g: "cache_geom c" and c: "get_cache h cp = Some c" using i by (simp_all add: slab_inv_def)
  have o: "sc_order c = sc_order d" using s(1) by (simp add: same_shape_def)
  from x s obtain a where a: "a \<in> slabs_of L" "x \<in> objs_of c a" "x \<notin> set (fl a)" by (auto simp: pool_objs_def pool_free_def)
  from y s obtain a' where a': "a' \<in> slabs_of L" "y \<in> objs_of c a'" "y \<notin> set (fl a')" by (auto simp: pool_objs_def pool_free_def)
  note ok = slabs_of_ok [OF i a(1)]
  note bx = obj_base [OF g ok(2) a(2)] and fc = free_list_card [OF g ok(1)]
  have "a' = a" using bx obj_base [OF g slabs_of_ok(2) [OF i a'(1)] a'(2)] b by (simp add: o)
  then have sub: "set (x # y # fl a) \<subseteq> objs_of c a" and dis: "distinct (x # y # fl a)"
    using a a' ok(3) ne fc(2) by auto
  have "card (set (x # y # fl a)) \<le> card (objs_of c a)" using sub by (intro card_mono) (auto simp: objs_of_def)
  moreover have "card (objs_of c a) \<le> unat (slab_objs_per c)"
    unfolding objs_of_def using card_image_le [of "{..<unat (slab_objs_per c)}" "obj_addr c a"] by simp
  ultimately have "length (fl a) + 1 < unat (slab_objs_per c)" unfolding distinct_card [OF dis] by simp
  moreover from slab_okD [OF ok(1)] obtain s1 where "get_slab h a = Some s1" "free_count s1 = of_nat (length (fl a))" by blast
  ultimately show ?thesis by (simp add: slab_stays_def c bx fc(3))
qed

end
