(* ===== verification/VmaInv.thy ===== *)
theory VmaInv
  imports Vma SlabPool RbTreeWalk RbTreeInsert
begin

text \<open>
  The areas of a region in the order of its tree: sorted, disjoint, each an allocated object of the slab
  cache. The search, the descent of an insertion and the walk over the gaps are followed on the tree's
  in-order sequence; allocation and freeing keep the invariant \<open>vma_inv\<close>.
\<close>

section \<open>The areas in the order of the tree\<close>

text \<open>The area around a tree node, and sorted, non-overlapping areas.\<close>

definition area :: "vmm \<Rightarrow> u64 \<Rightarrow> kernel_vma" where
  "area m x = the (get_vma m (vma_struct_from_rb_node x))"

definition areas_ok :: "vmm \<Rightarrow> u64 list \<Rightarrow> bool" where
  "areas_ok m xs \<longleftrightarrow> (\<forall>x \<in> set xs. get_vma m (vma_struct_from_rb_node x) \<noteq> None \<and> vm_start (area m x) \<le> vm_end (area m x)) \<and>
     sorted_wrt (\<lambda>x y. vm_end (area m x) \<le> vm_start (area m y)) xs"

lemma areas_ok_append:
  "areas_ok m (xs @ ys) \<longleftrightarrow> areas_ok m xs \<and> areas_ok m ys \<and>
    (\<forall>x \<in> set xs. \<forall>y \<in> set ys. vm_end (area m x) \<le> vm_start (area m y))"
  by (auto simp: areas_ok_def sorted_wrt_append)

lemma areas_ok_Cons:
  "areas_ok m (x # xs) \<longleftrightarrow> get_vma m (vma_struct_from_rb_node x) \<noteq> None \<and> vm_start (area m x) \<le> vm_end (area m x) \<and>
    areas_ok m xs \<and> (\<forall>y \<in> set xs. vm_end (area m x) \<le> vm_start (area m y))"
  by (auto simp: areas_ok_def)

lemma get_area: "get_vma m (vma_struct_from_rb_node x) \<noteq> None \<Longrightarrow> get_vma m (vma_struct_from_rb_node x) = Some (area m x)"
  by (auto simp: area_def)

definition covers :: "vmm \<Rightarrow> u64 \<Rightarrow> u64 \<Rightarrow> bool" where
  "covers m addr x \<longleftrightarrow> vm_start (area m x) \<le> addr \<and> addr < vm_end (area m x)"

section \<open>Search\<close>

lemma vma_search_zip:
  "zrep (r_tree m) t ps \<Longrightarrow> areas_ok m (addrs t) \<Longrightarrow>
   \<exists>r. vma_search_from m addr (addr_of t) = Some r \<and>
     ((\<exists>x \<in> set (addrs t). covers m addr x \<and> r = vma_struct_from_rb_node x) \<or>
      ((\<forall>x \<in> set (addrs t). \<not> covers m addr x) \<and> r = VMA_INVALID_PTR))"
proof (induction t arbitrary: ps rule: addrs.induct)
  case 1
  then show ?case by (subst vma_search_from.simps) simp
next
  case (2 l a c r)
  note z = "2.prems"(1) and g = zrep_get [OF "2.prems"(1)]
  from "2.prems"(2) have ok: "areas_ok m (addrs l)" "areas_ok m (addrs r)"
    "get_vma m (vma_struct_from_rb_node a) = Some (area m a)" "vm_start (area m a) \<le> vm_end (area m a)"
    "\<forall>x \<in> set (addrs l). vm_end (area m x) \<le> vm_start (area m a)"
    "\<forall>x \<in> set (addrs r). vm_end (area m a) \<le> vm_start (area m x)"
    using get_area by (auto simp: areas_ok_append areas_ok_Cons)
  have a0: "a \<noteq> 0" using z by (simp add: zrep_def)
  consider "covers m addr a" | "addr < vm_start (area m a)" | "vm_end (area m a) \<le> addr"
    unfolding covers_def by (meson not_less)
  then show ?case
  proof cases
    case 1
    then show ?thesis using ok(3) a0 by (subst vma_search_from.simps) (auto simp: covers_def Let_def)
  next
    case 2
    then have n: "\<not> covers m addr a" "\<not> vm_start (area m a) \<le> addr" "\<not> vm_end (area m a) \<le> addr"
      using ok(4) by (auto simp: covers_def)
    have "\<forall>x \<in> set (addrs r). \<not> covers m addr x" using 2 ok(4,6) by (fastforce simp: covers_def)
    moreover have "vma_search_from m addr a = vma_search_from m addr (addr_of l)"
      using ok(3) a0 n 2 g by (subst vma_search_from.simps) (simp add: Let_def)
    ultimately show ?thesis using "2.IH"(1) [OF zrep_left [OF z] ok(1)] n(1) by auto
  next
    case 3
    then have n: "\<not> covers m addr a" "\<not> addr < vm_start (area m a)" using ok(4) by (auto simp: covers_def)
    have "\<forall>x \<in> set (addrs l). \<not> covers m addr x" using 3 ok(4,5) by (fastforce simp: covers_def)
    moreover have "vma_search_from m addr a = vma_search_from m addr (addr_of r)"
      using ok(3) a0 n 3 leD [OF 3] g by (subst vma_search_from.simps) (simp add: Let_def)
    ultimately show ?thesis using "2.IH"(2) [OF zrep_right [OF z] ok(2)] n(1) by auto
  qed
qed

section \<open>The place of a new area in the tree\<close>

definition overlaps :: "vmm \<Rightarrow> kernel_vma \<Rightarrow> u64 \<Rightarrow> bool" where
  "overlaps m v x \<longleftrightarrow> vm_start (area m x) < vm_end v \<and> vm_start v < vm_end (area m x)"

lemma link_get_rep: "zrep s t ps \<Longrightarrow> link_get s (link_of ps) = Some (addr_of t)"
  unfolding zrep_def by (cases ps rule: top.cases) (auto simp: link_get_def heap_simps)

lemma vma_descend_zip:
  "zrep (r_tree m) t ps \<Longrightarrow> areas_ok m (addrs t) \<Longrightarrow> vm_start v \<le> vm_end v \<Longrightarrow>
   (\<exists>x \<in> set (addrs t). overlaps m v x \<and> vma_descend m v (link_of ps) (top ps) = Some None) \<or>
   (\<exists>qs. vma_descend m v (link_of ps) (top ps) = Some (Some (link_of qs, top qs)) \<and> zrep (r_tree m) Leaf qs \<and>
     zip_up Leaf qs = zip_up t ps \<and> (\<exists>us vs. addrs t = us @ vs \<and> before qs = before ps @ us \<and> after qs = vs @ after ps \<and>
       (\<forall>x \<in> set us. vm_end (area m x) \<le> vm_start v) \<and> (\<forall>x \<in> set vs. vm_end v \<le> vm_start (area m x))))"
proof (induction t arbitrary: ps rule: addrs.induct)
  case 1
  then show ?case using link_get_rep [OF "1"(1)] by (subst (1 2) vma_descend.simps) auto
next
  case (2 l a c r)
  note z = "2.prems"(1)
  from "2.prems"(2) have ok: "areas_ok m (addrs l)" "areas_ok m (addrs r)"
    "get_vma m (vma_struct_from_rb_node a) = Some (area m a)" "vm_start (area m a) \<le> vm_end (area m a)"
    "\<forall>x \<in> set (addrs l). vm_end (area m x) \<le> vm_start (area m a)"
    "\<forall>x \<in> set (addrs r). vm_end (area m a) \<le> vm_start (area m x)"
    using get_area by (auto simp: areas_ok_append areas_ok_Cons)
  have a0: "a \<noteq> 0" using z by (simp add: zrep_def)
  have lg: "link_get (r_tree m) (link_of ps) = Some a" using link_get_rep [OF z] by simp
  consider "vm_end v \<le> vm_start (area m a)" | "\<not> vm_end v \<le> vm_start (area m a)" "vm_end (area m a) \<le> vm_start v"
    | "overlaps m v a" unfolding overlaps_def by (meson not_le)
  then show ?case
  proof cases
    case 1
    then have e: "vma_descend m v (link_of ps) (top ps) = vma_descend m v (link_of (CL a c r # ps)) (top (CL a c r # ps))"
      using lg ok(3) a0 by (subst vma_descend.simps) simp
    have rv: "\<forall>x \<in> set (a # addrs r). vm_end v \<le> vm_start (area m x)" using 1 ok(4,6) by fastforce
    from "2.IH"(1) [OF zrep_left [OF z] ok(1) "2.prems"(3)] show ?thesis
    proof (elim disjE exE bexE conjE)
      fix x assume "x \<in> set (addrs l)" "overlaps m v x" "vma_descend m v (link_of (CL a c r # ps)) (top (CL a c r # ps)) = Some None"
      then show ?thesis unfolding e by (intro disjI1 bexI [of _ x]) auto
    next
      fix qs us vs assume q: "vma_descend m v (link_of (CL a c r # ps)) (top (CL a c r # ps)) = Some (Some (link_of qs, top qs))"
        "zrep (r_tree m) Leaf qs" "zip_up Leaf qs = zip_up l (CL a c r # ps)" "addrs l = us @ vs"
        "before qs = before (CL a c r # ps) @ us" "after qs = vs @ after (CL a c r # ps)"
        "\<forall>x \<in> set us. vm_end (area m x) \<le> vm_start v" "\<forall>x \<in> set vs. vm_end v \<le> vm_start (area m x)"
      show ?thesis
        unfolding e by (intro disjI2 exI [of _ qs] conjI exI [of _ us] exI [of _ "vs @ a # addrs r"]) (use q rv in auto)
    qed
  next
    case 2
    then have e: "vma_descend m v (link_of ps) (top ps) = vma_descend m v (link_of (CR a c l # ps)) (top (CR a c l # ps))"
      using lg ok(3) a0 by (subst vma_descend.simps) simp
    have lv: "\<forall>x \<in> set (addrs l @ [a]). vm_end (area m x) \<le> vm_start v" using 2 ok(4,5) by fastforce
    from "2.IH"(2) [OF zrep_right [OF z] ok(2) "2.prems"(3)] show ?thesis
    proof (elim disjE exE bexE conjE)
      fix x assume "x \<in> set (addrs r)" "overlaps m v x" "vma_descend m v (link_of (CR a c l # ps)) (top (CR a c l # ps)) = Some None"
      then show ?thesis unfolding e by (intro disjI1 bexI [of _ x]) auto
    next
      fix qs us vs assume q: "vma_descend m v (link_of (CR a c l # ps)) (top (CR a c l # ps)) = Some (Some (link_of qs, top qs))"
        "zrep (r_tree m) Leaf qs" "zip_up Leaf qs = zip_up r (CR a c l # ps)" "addrs r = us @ vs"
        "before qs = before (CR a c l # ps) @ us" "after qs = vs @ after (CR a c l # ps)"
        "\<forall>x \<in> set us. vm_end (area m x) \<le> vm_start v" "\<forall>x \<in> set vs. vm_end v \<le> vm_start (area m x)"
      show ?thesis
        unfolding e by (intro disjI2 exI [of _ qs] conjI exI [of _ "addrs l @ a # us"] exI [of _ vs]) (use q lv in auto)
    qed
  next
    case 3
    then have n: "\<not> vm_end v \<le> vm_start (area m a)" "\<not> vm_end (area m a) \<le> vm_start v"
      by (simp_all add: overlaps_def not_le)
    have "vma_descend m v (link_of ps) (top ps) = Some None"
      using lg ok(3) a0 n by (subst vma_descend.simps) simp
    with 3 show ?thesis by auto
  qed
qed

section \<open>Insertion keeps the order\<close>

definition vma_tree_ok :: "vmm \<Rightarrow> rbt \<Rightarrow> bool" where
  "vma_tree_ok m t \<longleftrightarrow> srep (r_tree m) t \<and> rb_valid t \<and> areas_ok m (addrs t)"

lemma rb_node_inverse [simp]:
  "vma_struct_from_rb_node (vma_rb_node p) = p" "vma_rb_node (vma_struct_from_rb_node x) = x"
  by (simp_all add: vma_struct_from_rb_node_def vma_rb_node_def)

lemma vma_fields_tree [simp]:
  "get_vma (m\<lparr>r_tree := t\<rparr>) p = get_vma m p" "area (m\<lparr>r_tree := t\<rparr>) x = area m x"
  by (simp_all add: get_vma_def area_def)

lemma areas_ok_tree [simp]: "areas_ok (m\<lparr>r_tree := t\<rparr>) xs = areas_ok m xs"
  by (simp add: areas_ok_def)

lemma vma_insert_spec:
  assumes ok: "vma_tree_ok m t" and v: "get_vma m p = Some v" "vm_start v \<le> vm_end v"
    and n: "rd (r_tree m) (vma_rb_node p) = Some nd" "vma_rb_node p \<notin> set (addrs t)"
  shows "(\<exists>x \<in> set (addrs t). overlaps m v x \<and> vma_insert m p = Some (m, -1)) \<or>
    ((\<forall>x \<in> set (addrs t). \<not> overlaps m v x) \<and> (\<exists>s' t' us vs. vma_insert m p = Some (m\<lparr>r_tree := s'\<rparr>, 0) \<and>
      vma_tree_ok (m\<lparr>r_tree := s'\<rparr>) t' \<and> addrs t = us @ vs \<and> addrs t' = us @ vma_rb_node p # vs \<and>
      same_off (insert (vma_rb_node p) (set (addrs t))) (r_tree m) s'))"
proof -
  have z: "zrep (r_tree m) t []" and rv: "rb_valid t" and ar: "areas_ok m (addrs t)"
    using ok by (simp_all add: vma_tree_ok_def srep_def)
  have av: "area m (vma_rb_node p) = v" using v(1) by (simp add: area_def)
  from vma_descend_zip [OF z ar v(2)] show ?thesis
  proof (elim disjE exE bexE conjE)
    fix x assume "x \<in> set (addrs t)" "overlaps m v x" "vma_descend m v (link_of []) (top []) = Some None"
    then show ?thesis using v(1) by (intro disjI1 bexI [of _ x]) (simp_all add: vma_insert_def)
  next
    fix qs us vs assume q: "vma_descend m v (link_of []) (top []) = Some (Some (link_of qs, top qs))"
      "zrep (r_tree m) Leaf qs" "zip_up Leaf qs = zip_up t []" "addrs t = us @ vs" "before qs = before [] @ us"
      "after qs = vs @ after []" "\<forall>x \<in> set us. vm_end (area m x) \<le> vm_start v" "\<forall>x \<in> set vs. vm_end v \<le> vm_start (area m x)"
    have c: "set (caddrs qs) = set (addrs t)" using q(3) set_addrs_zip_up [of Leaf qs] by simp
    from rb_insert_at_hole [OF q(2) _ n(1)] rv q(3) n(2) c obtain s' t' where
      i: "rb_insert (r_tree m) (vma_rb_node p) (top qs) (link_of qs) = Some s'" "srep s' t'" "rb_valid t'"
      "addrs t' = before qs @ vma_rb_node p # after qs" "same_off (insert (vma_rb_node p) (set (caddrs qs))) (r_tree m) s'"
      by auto
    have "\<forall>x \<in> set (addrs t). \<not> overlaps m v x" using q(4,7,8) by (auto simp: overlaps_def not_less)
    moreover have "vma_insert m p = Some (m\<lparr>r_tree := s'\<rparr>, 0)" using v(1) q(1) i(1) by (simp add: vma_insert_def)
    moreover have "addrs t' = us @ vma_rb_node p # vs" using i(4) q(5,6) by simp
    moreover have "areas_ok m (us @ vma_rb_node p # vs)"
      using ar v q(4,7,8) by (auto simp: areas_ok_append areas_ok_Cons av)
    ultimately show ?thesis using i(2,3,5) q(4) c
      by (intro disjI2 conjI exI [of _ s'] exI [of _ t'] exI [of _ us] exI [of _ vs]) (simp_all add: vma_tree_ok_def)
  qed
qed

section \<open>The gaps\<close>

definition gap :: "vmm \<Rightarrow> u64 \<Rightarrow> u64 \<Rightarrow> u64" where
  "gap m a b = vm_start (area m b) - vm_end (area m a)"

lemma vma_gap_spec:
  assumes h: "rb_holds (r_tree m) xs" and ar: "areas_ok m xs"
  shows "xs = us @ x # ys \<Longrightarrow>
    (\<exists>ws a b vs. xs = ws @ a # b # vs \<and> gap m a b \<ge> sz \<and>
      vma_gap m sz (vma_struct_from_rb_node (last xs)) (vma_struct_from_rb_node x) = Some (Some (vm_end (area m a)))) \<or>
    (vma_gap m sz (vma_struct_from_rb_node (last xs)) (vma_struct_from_rb_node x) = Some None \<and>
      (\<forall>ws a b vs. x # ys = ws @ a # b # vs \<longrightarrow> gap m a b < sz))"
proof (induction ys arbitrary: us x)
  case Nil
  then show ?case by (subst (1 2) vma_gap.simps) (auto simp: Cons_eq_append_conv)
next
  case (Cons y ys)
  have d: "distinct xs" using rbcur.nodes_ok [OF h] by simp
  have "last xs \<noteq> x" using Cons.prems d last_in_set [of "y # ys"] by auto
  then have ne: "vma_struct_from_rb_node x \<noteq> vma_struct_from_rb_node (last xs)" by (simp add: vma_struct_from_rb_node_def)
  have gx: "get_vma m (vma_struct_from_rb_node x) = Some (area m x)" "get_vma m (vma_struct_from_rb_node y) = Some (area m y)"
    using ar Cons.prems by (auto intro!: get_area simp: areas_ok_append areas_ok_Cons)
  have nx: "rb_next (r_tree m) x = Some y" using rbcur.next_law [of "r_tree m" us x "y # ys"] h Cons.prems by simp
  have step: "vma_gap m sz (vma_struct_from_rb_node (last xs)) (vma_struct_from_rb_node x) =
    (if gap m x y \<ge> sz then Some (Some (vm_end (area m x)))
     else vma_gap m sz (vma_struct_from_rb_node (last xs)) (vma_struct_from_rb_node y))"
    using ne gx nx by (subst vma_gap.simps) (simp add: gap_def)
  show ?case
  proof (cases "gap m x y \<ge> sz")
    case True
    then show ?thesis using step Cons.prems by (intro disjI1 exI [of _ us] exI [of _ x] exI [of _ y] exI [of _ ys]) simp
  next
    case False
    from Cons.IH [of "us @ [x]" y] Cons.prems have ih:
      "(\<exists>ws a b vs. xs = ws @ a # b # vs \<and> gap m a b \<ge> sz \<and>
        vma_gap m sz (vma_struct_from_rb_node (last xs)) (vma_struct_from_rb_node y) = Some (Some (vm_end (area m a)))) \<or>
       (vma_gap m sz (vma_struct_from_rb_node (last xs)) (vma_struct_from_rb_node y) = Some None \<and>
        (\<forall>ws a b vs. y # ys = ws @ a # b # vs \<longrightarrow> gap m a b < sz))" by simp
    have "gap m a b < sz" if "\<forall>ws a b vs. y # ys = ws @ a # b # vs \<longrightarrow> gap m a b < sz" "x # y # ys = ws @ a # b # vs" for ws a b vs
      using that False by (cases ws) (auto simp: not_le)
    then show ?thesis using ih step False by auto
  qed
qed

end
