(* ===== verification/VmaAlloc.thy ===== *)
theory VmaAlloc
  imports VmaInv RbTreeRemove
begin

text \<open>
  Allocation and freeing of areas: the free gaps of a region as a list, the place the code chooses among
  them, and the invariant \<open>vma_inv\<close> (tree, order, region and slab cache together) kept by both.
\<close>

section \<open>The free gaps of a region\<close>

text \<open>The gaps between \<open>s\<close> and the end of the region, as a start and a length each.\<close>

fun gaps_from :: "vmm \<Rightarrow> u64 \<Rightarrow> u64 list \<Rightarrow> (u64 \<times> u64) list" where
  "gaps_from m s [] = [(s, r_end m - s)]"
| "gaps_from m s (x # xs) = (s, vm_start (area m x) - s) # gaps_from m (vm_end (area m x)) xs"

text \<open>The end of the region as a number: an end that wraps to 0 is the end of the address space.\<close>

definition region_end :: "vmm \<Rightarrow> nat" where
  "region_end m = unat (r_end m - 1) + 1"

definition in_region :: "vmm \<Rightarrow> u64 list \<Rightarrow> bool" where
  "in_region m xs \<longleftrightarrow> unat (r_start m) \<le> region_end m \<and> region_end m < unat (r_start m) + 2 ^ 64 \<and>
     (\<forall>x \<in> set xs. r_start m \<le> vm_start (area m x) \<and> unat (vm_end (area m x)) \<le> region_end m)"

text \<open>The three places the code looks at: before the first area, behind the last, between neighbours.\<close>

lemma gaps_between:
  "xs = ws @ a # b # vs \<Longrightarrow> (vm_end (area m a), gap m a b) \<in> set (gaps_from m s xs)"
proof (induction ws arbitrary: s xs)
  case Nil
  then show ?case by (simp add: gap_def)
next
  case (Cons w ws)
  then show ?case by simp
qed

lemma gaps_last: "xs \<noteq> [] \<Longrightarrow> (vm_end (area m (last xs)), r_end m - vm_end (area m (last xs))) \<in> set (gaps_from m s xs)"
proof (induction m s xs rule: gaps_from.induct)
  case (2 m s x xs)
  then show ?case by (cases xs) auto
qed simp

lemma gaps_cases:
  "g \<in> set (gaps_from m s xs) \<Longrightarrow> xs \<noteq> [] \<Longrightarrow> g = (s, vm_start (area m (hd xs)) - s) \<or>
     g = (vm_end (area m (last xs)), r_end m - vm_end (area m (last xs))) \<or>
     (\<exists>ws a b vs. xs = ws @ a # b # vs \<and> g = (vm_end (area m a), gap m a b))"
proof (induction xs arbitrary: s)
  case Nil
  then show ?case by simp
next
  case (Cons x xs)
  show ?case
  proof (cases xs)
    case Nil
    with Cons.prems show ?thesis by auto
  next
    case (Cons y ys)
    consider "g = (s, vm_start (area m x) - s)" | "g \<in> set (gaps_from m (vm_end (area m x)) xs)" using Cons.prems by auto
    then show ?thesis
    proof cases
      case 1
      then show ?thesis by simp
    next
      case 2
      from Cons.IH [OF 2] Cons consider "g = (vm_end (area m x), gap m x y)"
        | "g = (vm_end (area m (last xs)), r_end m - vm_end (area m (last xs)))"
        | ws a b vs where "xs = ws @ a # b # vs" "g = (vm_end (area m a), gap m a b)"
        by (auto simp: gap_def)
      then show ?thesis
      proof cases
        case 1
        with Cons show ?thesis by (intro disjI2 exI [of _ "[]"] exI [of _ x] exI [of _ y] exI [of _ ys]) simp
      next
        case 2
        with Cons show ?thesis by simp
      next
        case (3 ws a b vs)
        then show ?thesis by (intro disjI2 exI [of _ "x # ws"] exI [of _ a] exI [of _ b] exI [of _ vs]) simp
      qed
    qed
  qed
qed

text \<open>What is placed in a gap lies in the region, does not wrap and overlaps no area.\<close>

lemma gap_fits:
  fixes s e n :: u64
  assumes "s \<le> e" "n \<le> e - s"
  shows "unat s + unat n \<le> unat e"
  using assms unat_sub [OF assms(1)] by (simp add: word_le_nat_alt)

lemma region_rest:
  assumes "unat s \<le> region_end m" "region_end m < unat s + 2 ^ 64"
  shows "unat (r_end m - s) = region_end m - unat s"
proof (cases "r_end m = 0")
  case True
  then have "region_end m = 2 ^ 64" using unat_minus_1 by (simp add: region_end_def)
  moreover from this assms have "s \<noteq> 0" by auto
  moreover have "unat (- s) = 2 ^ 64 - unat s" if "s \<noteq> 0"
  proof -
    have "1 \<le> s" using that by (simp add: word_le_nat_alt Suc_leI unat_gt_0)
    then have "unat (s - 1) = unat s - 1" "1 \<le> unat s" using unat_sub [of 1 s] by (simp_all add: word_le_nat_alt)
    moreover have "unat (- 1 - (s - 1)) = unat (- 1 :: u64) - unat (s - 1)" by (intro unat_sub) simp
    ultimately show ?thesis using unat_minus_1 by simp
  qed
  ultimately show ?thesis using True by simp
next
  case False
  then have "1 \<le> r_end m" by (simp add: word_le_nat_alt Suc_leI unat_gt_0)
  then have "region_end m = unat (r_end m)" using unat_sub [of 1 "r_end m"] by (simp add: region_end_def word_le_nat_alt)
  then show ?thesis using assms(1) by (simp add: unat_sub word_le_nat_alt)
qed

lemma gaps_free:
  "(g, l) \<in> set (gaps_from m s xs) \<Longrightarrow> n \<le> l \<Longrightarrow> areas_ok m xs \<Longrightarrow> unat s \<le> region_end m \<Longrightarrow>
   region_end m < unat s + 2 ^ 64 \<Longrightarrow> \<forall>x \<in> set xs. s \<le> vm_start (area m x) \<and> unat (vm_end (area m x)) \<le> region_end m \<Longrightarrow>
   s \<le> g \<and> unat g + unat n \<le> region_end m \<and>
     (\<forall>x \<in> set xs. vm_end (area m x) \<le> g \<or> unat g + unat n \<le> unat (vm_start (area m x)))"
proof (induction m s xs rule: gaps_from.induct)
  case (1 m s)
  then show ?case using region_rest [of s m] by (auto simp: word_le_nat_alt)
next
  case (2 m s x xs)
  from "2.prems"(3) have ok: "areas_ok m xs" "vm_start (area m x) \<le> vm_end (area m x)"
    "\<forall>y \<in> set xs. vm_end (area m x) \<le> vm_start (area m y)" by (simp_all add: areas_ok_Cons)
  from "2.prems"(6) have sx: "s \<le> vm_start (area m x)" and ex: "unat (vm_end (area m x)) \<le> region_end m" by simp_all
  from "2.prems"(1) consider "g = s" "l = vm_start (area m x) - s" | "(g, l) \<in> set (gaps_from m (vm_end (area m x)) xs)" by auto
  then show ?case
  proof cases
    case 1
    then have f: "unat s + unat n \<le> unat (vm_start (area m x))" using gap_fits [OF sx, of n] "2.prems"(2) by simp
    have "unat s + unat n \<le> unat (vm_start (area m y))" if "y \<in> set xs" for y
      using f ok(2,3) that by (auto simp: word_le_nat_alt)
    then show ?thesis using 1 f ok(2) ex by (auto simp: word_le_nat_alt)
  next
    case 2
    have "region_end m < unat (vm_end (area m x)) + 2 ^ 64" using "2.prems"(5) sx ok(2) by (simp add: word_le_nat_alt)
    from "2.IH" [OF 2 "2.prems"(2) ok(1) ex this] "2.prems"(6) ok(3)
    have "vm_end (area m x) \<le> g \<and> unat g + unat n \<le> region_end m \<and>
      (\<forall>x \<in> set xs. vm_end (area m x) \<le> g \<or> unat g + unat n \<le> unat (vm_start (area m x)))" by simp
    then show ?thesis using sx ok(2) by (auto intro: order_trans)
  qed
qed

section \<open>The place of a new area\<close>

definition vma_gaps :: "vmm \<Rightarrow> u64 list \<Rightarrow> (u64 \<times> u64) list" where
  "vma_gaps m xs = gaps_from m (r_start m) xs"

lemma vma_place_spec:
  assumes h: "rb_holds (r_tree m) xs" and ar: "areas_ok m xs" and n: "n \<le> r_end m - r_start m"
  shows "(\<exists>g l. (g, l) \<in> set (vma_gaps m xs) \<and> n \<le> l \<and> vma_place m n = Some (Some g)) \<or>
    (vma_place m n = Some None \<and> (\<forall>(g, l) \<in> set (vma_gaps m xs). l < n))"
proof (cases xs)
  case Nil
  then have "rb_root (r_tree m) = 0" using h by (auto simp: rb_holds_def srep_def zrep_def)
  then have "vma_place m n = Some (Some (r_start m))" by (simp add: vma_place_def)
  then show ?thesis using n Nil by (simp add: vma_gaps_def)
next
  case (Cons x ys)
  note f = rbcur.first_law [OF h] rbcur.last_law [OF h]
  note nd = rbcur.nodes_ok [OF h]
  have r0: "rb_root (r_tree m) \<noteq> 0"
  proof
    assume "rb_root (r_tree m) = 0"
    then have "xs = []" using h rep_addr_zero by (auto simp: rb_holds_def srep_def zrep_def)
    with Cons show False by simp
  qed
  have l: "last0 xs = last xs" "last xs \<in> set xs" using Cons by (simp_all add: last0_def)
  have l0: "last xs \<noteq> 0" "x \<noteq> 0" using nd l(2) Cons by auto
  have g: "get_vma m (vma_struct_from_rb_node x) = Some (area m x)"
    "get_vma m (vma_struct_from_rb_node (last xs)) = Some (area m (last xs))"
    using ar l(2) Cons by (auto intro!: get_area simp: areas_ok_def)
  have step: "vma_place m n =
    (if vm_start (area m x) - r_start m \<ge> n then Some (Some (r_start m))
     else if r_end m - vm_end (area m (last xs)) \<ge> n then Some (Some (vm_end (area m (last xs))))
     else vma_gap m n (vma_struct_from_rb_node (last xs)) (vma_struct_from_rb_node x))"
    using f l l0 g r0 Cons by (simp add: vma_place_def Let_def)
  have ne: "xs \<noteq> []" using Cons by simp
  have hd: "(r_start m, vm_start (area m x) - r_start m) \<in> set (vma_gaps m xs)" using Cons by (simp add: vma_gaps_def)
  note la = gaps_last [OF ne, of m "r_start m", folded vma_gaps_def]
  consider "n \<le> vm_start (area m x) - r_start m" | "\<not> n \<le> vm_start (area m x) - r_start m" "n \<le> r_end m - vm_end (area m (last xs))"
    | "\<not> n \<le> vm_start (area m x) - r_start m" "\<not> n \<le> r_end m - vm_end (area m (last xs))" by blast
  then show ?thesis
  proof cases
    case 1
    with step hd show ?thesis by (intro disjI1 exI conjI) auto
  next
    case 2
    with step la show ?thesis by (intro disjI1 exI conjI) auto
  next
    case 3
    from Cons have xy: "xs = [] @ x # ys" by simp
    have xy': "x # ys = xs" using Cons by simp
    from vma_gap_spec [OF h ar xy, of n, unfolded xy']
    consider ws a b vs where "xs = ws @ a # b # vs" "gap m a b \<ge> n"
        "vma_gap m n (vma_struct_from_rb_node (last xs)) (vma_struct_from_rb_node x) = Some (Some (vm_end (area m a)))"
      | "vma_gap m n (vma_struct_from_rb_node (last xs)) (vma_struct_from_rb_node x) = Some None"
        "\<forall>ws a b vs. xs = ws @ a # b # vs \<longrightarrow> gap m a b < n" by blast
    then show ?thesis
    proof cases
      case (1 ws a b vs)
      note gb = gaps_between [OF 1(1), of m "r_start m", folded vma_gaps_def]
      show ?thesis by (rule disjI1, intro exI conjI, rule gb) (use 1 3 step in simp_all)
    next
      case 2
      have "l < n" if "(g, l) \<in> set (vma_gaps m xs)" for g l
        using gaps_cases [OF that [unfolded vma_gaps_def] ne] 2(2) 3 Cons by (auto simp: not_le)
      then show ?thesis using 2(1) 3 step by auto
    qed
  qed
qed

lemma vma_gaps_free:
  assumes "(g, l) \<in> set (vma_gaps m xs)" "n \<le> l" "areas_ok m xs" "in_region m xs" "g + n \<noteq> 0"
  shows "r_start m \<le> g" "g \<le> g + n" "unat (g + n) \<le> region_end m"
    "\<forall>x \<in> set xs. vm_end (area m x) \<le> g \<or> g + n \<le> vm_start (area m x)"
proof -
  from gaps_free [OF assms(1) [unfolded vma_gaps_def] assms(2,3)] assms(4)
  have f: "r_start m \<le> g" "unat g + unat n \<le> region_end m"
    "\<forall>x \<in> set xs. vm_end (area m x) \<le> g \<or> unat g + unat n \<le> unat (vm_start (area m x))"
    by (simp_all add: in_region_def)
  have "unat (r_end m - 1) < 2 ^ 64" using unsigned_less [of "r_end m - 1"] by simp
  then have "region_end m \<le> 2 ^ 64" by (simp add: region_end_def)
  moreover have "unat g + unat n \<noteq> 2 ^ 64"
  proof
    assume "unat g + unat n = 2 ^ 64"
    then have "unat (g + n) = 0" by (simp add: unat_word_ariths)
    with assms(5) show False by (simp add: unat_eq_zero)
  qed
  ultimately have u: "unat (g + n) = unat g + unat n" using f(2) by (simp add: unat_word_ariths)
  show "r_start m \<le> g" "g \<le> g + n" "unat (g + n) \<le> region_end m"
    "\<forall>x \<in> set xs. vm_end (area m x) \<le> g \<or> g + n \<le> vm_start (area m x)"
    using f u by (simp_all add: word_le_nat_alt)
qed

text \<open>No gap is longer than the region.\<close>

lemma gaps_bounded:
  assumes ar: "areas_ok m xs" and r: "in_region m xs" and g: "(g, l) \<in> set (vma_gaps m xs)"
  shows "l \<le> r_end m - r_start m"
proof -
  from gaps_free [OF g [unfolded vma_gaps_def] order_refl ar] r
  have b: "r_start m \<le> g" "unat g + unat l \<le> region_end m" by (simp_all add: in_region_def)
  moreover have "unat (r_end m - r_start m) = region_end m - unat (r_start m)"
    using r by (intro region_rest) (simp_all add: in_region_def)
  ultimately show ?thesis by (simp add: word_le_nat_alt)
qed

section \<open>The invariant of a region\<close>

text \<open>The areas are objects of the cache that are not free; \<open>U\<close> are all its objects, \<open>F\<close> the
  free ones and \<open>d\<close> a cache of its shape.\<close>

definition vma_inv :: "vmm \<Rightarrow> kslab_cache \<Rightarrow> rbt \<Rightarrow> u64 set \<Rightarrow> u64 set \<Rightarrow> bool" where
  "vma_inv m d t U F \<longleftrightarrow> vma_tree_ok m t \<and> in_region m (addrs t) \<and> slab_pool (vma_cache m) d (kheap m) U F \<and>
     unat (obj_size d) = 64 \<and>
     (\<forall>x \<in> set (addrs t). vma_struct_from_rb_node x \<in> U - F)"

lemma vma_inv_addrs:
  assumes "vma_inv m d t U F"
  shows "areas_ok m (addrs t)" "rb_holds (r_tree m) (addrs t)" "in_region m (addrs t)"
  using assms by (auto simp: vma_inv_def vma_tree_ok_def rb_holds_def)

lemma rb_node_nonnull:
  assumes "slab_pool cp d h U F" "p \<in> U" "unat (obj_size d) = 64"
  shows "vma_rb_node p \<noteq> 0"
proof -
  have "unat p + 32 < 2 ^ 64" using slab_pool_room [OF assms(1,2)] assms(3) by simp
  then have "unat (p + 32) = unat p + 32" using unat_plus_of_nat [of p 32] by simp
  then show ?thesis by (auto simp: vma_rb_node_def)
qed

lemma srep_wr: "x \<notin> set (addrs t) \<Longrightarrow> srep (wr s x n) t = srep s t"
  by (simp add: srep_def zrep_def frame_simps root_wr)

text \<open>The new object: allocated, outside the tree, with a cleared node.\<close>

lemma vma_assign_spec:
  assumes i: "vma_inv m d t U F" and F: "F \<noteq> {}"
  obtains h p nd where "vma_assign_struct m b n fl =
      Some (m\<lparr>kheap := h, r_tree := wr (r_tree m) (vma_rb_node p) nd, vmas := (vmas m)(p \<mapsto> \<lparr>vm_start = b, vm_end = b + n, vm_pages = 0, vm_flags = fl\<rparr>)\<rparr>, p, 0)"
    "p \<in> F" "p \<noteq> 0" "p \<noteq> VMA_INVALID_PTR" "slab_pool (vma_cache m) d h U (F - {p})"
    "vma_rb_node p \<notin> set (addrs t)" "vma_rb_node p \<noteq> 0"
    "buddy h = buddy (kheap m)"
proof -
  have sp: "slab_pool (vma_cache m) d (kheap m) U F" using i by (simp add: vma_inv_def)
  from sp.alloc_fresh [OF sp F] obtain h p where a: "kslab_alloc (kheap m) (vma_cache m) = Some (h, p)" "p \<in> F" "p \<noteq> 0"
    "p \<noteq> KPAGE_ERR" "slab_pool (vma_cache m) d h U (F - {p})" "buddy h = buddy (kheap m)" .
  have pi: "p \<noteq> VMA_INVALID_PTR" using a(4) by (simp add: VMA_INVALID_PTR_def KPAGE_ERR_def)
  have "p \<in> U" using sp.pool_ok [OF sp] a(2) by auto
  then have n0: "vma_rb_node p \<noteq> 0" by (rule rb_node_nonnull [OF sp]) (use i in \<open>simp add: vma_inv_def\<close>)
  have "vma_rb_node p \<notin> set (addrs t)" using i a(2) by (auto simp: vma_inv_def dest: bspec [of _ _ "vma_rb_node p"])
  then show ?thesis using a pi n0
    by (intro that [where h = h and p = p and
        nd = "\<lparr>rb_left = 0, rb_right = 0, rb_parent = 0, rb_color = RB_RED\<rparr>"])
      (simp_all add: vma_assign_struct_def vma_cache_alloc_def wr_def Let_def)
qed

lemma area_upd:
  assumes "x \<noteq> vma_rb_node p"
  shows "get_vma (m\<lparr>kheap := h, r_tree := s, vmas := (vmas m)(p \<mapsto> v)\<rparr>) (vma_struct_from_rb_node x) =
      get_vma m (vma_struct_from_rb_node x)"
    "area (m\<lparr>kheap := h, r_tree := s, vmas := (vmas m)(p \<mapsto> v)\<rparr>) x = area m x"
proof -
  have "vma_struct_from_rb_node x \<noteq> p" using assms by auto
  then show "get_vma (m\<lparr>kheap := h, r_tree := s, vmas := (vmas m)(p \<mapsto> v)\<rparr>) (vma_struct_from_rb_node x) =
      get_vma m (vma_struct_from_rb_node x)" by (simp add: get_vma_def)
  then show "area (m\<lparr>kheap := h, r_tree := s, vmas := (vmas m)(p \<mapsto> v)\<rparr>) x = area m x" by (simp add: area_def)
qed

lemma areas_ok_cong:
  assumes "\<And>x. x \<in> set xs \<Longrightarrow> get_vma m' (vma_struct_from_rb_node x) = get_vma m (vma_struct_from_rb_node x)"
  shows "areas_ok m' xs = areas_ok m xs"
proof -
  have "area m' x = area m x" if "x \<in> set xs" for x using assms [OF that] by (simp add: area_def)
  then show ?thesis using assms unfolding areas_ok_def by (auto intro: sorted_wrt_mono_rel [rotated])
qed

section \<open>Allocation of an area\<close>

text \<open>The place is known: the area is put there.\<close>

lemma vma_alloc_placed:
  assumes i: "vma_inv m d t U F" and F: "F \<noteq> {}" and n: "n = PAGE_ALIGNUP sz"
    and pl: "n \<le> r_end m - r_start m" "vma_place m n = Some (Some g)"
    and gl: "(g, l) \<in> set (vma_gaps m (addrs t))" "n \<le> l" and g0: "g + n \<noteq> 0"
  shows "\<exists>m' t' p us vs. vma_alloc_area m sz fl = Some (m', p) \<and> p \<in> F \<and>
       get_vma m' p = Some \<lparr>vm_start = g, vm_end = g + n, vm_pages = 0, vm_flags = fl\<rparr> \<and>
       vma_inv m' d t' U (F - {p}) \<and> addrs t = us @ vs \<and> addrs t' = us @ vma_rb_node p # vs \<and>
       (\<forall>x \<in> set (addrs t). area m' x = area m x) \<and> r_start m' = r_start m \<and> r_end m' = r_end m \<and>
       buddy (kheap m') = buddy (kheap m)"
proof -
  note ia = vma_inv_addrs [OF i]
  have tok: "vma_tree_ok m t" and sp: "slab_pool (vma_cache m) d (kheap m) U F" using i by (simp_all add: vma_inv_def)
  note fit = vma_gaps_free [OF gl ia(1,3) g0]
  define v where "v = \<lparr>vm_start = g, vm_end = g + n, vm_pages = 0, vm_flags = fl\<rparr>"
  from vma_assign_spec [OF i F, where b = g and n = n and fl = fl, folded v_def] obtain h p nd where
    a: "vma_assign_struct m g n fl = Some (m\<lparr>kheap := h, r_tree := wr (r_tree m) (vma_rb_node p) nd, vmas := (vmas m)(p \<mapsto> v)\<rparr>, p, 0)"
    "p \<in> F" "p \<noteq> 0" "p \<noteq> VMA_INVALID_PTR" "slab_pool (vma_cache m) d h U (F - {p})"
    "vma_rb_node p \<notin> set (addrs t)" "vma_rb_node p \<noteq> 0" "buddy h = buddy (kheap m)" .
  define m1 where "m1 = m\<lparr>kheap := h, r_tree := wr (r_tree m) (vma_rb_node p) nd, vmas := (vmas m)(p \<mapsto> v)\<rparr>"
  have same: "get_vma m1 (vma_struct_from_rb_node x) = get_vma m (vma_struct_from_rb_node x)" "area m1 x = area m x"
    if "x \<in> set (addrs t)" for x
    using that a(6) area_upd [where m = m and p = p and h = h and v = v and x = x] unfolding m1_def by metis+
  have ok1: "vma_tree_ok m1 t"
    using tok a(6) areas_ok_cong [of "addrs t" m1 m] same(1) by (simp add: vma_tree_ok_def m1_def srep_wr)
  have gv: "get_vma m1 p = Some v" using a(3) by (simp add: get_vma_def m1_def)
  have vle: "vm_start v \<le> vm_end v" using fit(2) by (simp add: v_def)
  have nd: "rd (r_tree m1) (vma_rb_node p) = Some nd" using a(7) by (simp add: m1_def rd_wr_same)
  have no: "\<not> overlaps m1 v x" if "x \<in> set (addrs t)" for x
    using fit(4) that same(2) [OF that] by (auto simp: overlaps_def v_def not_less)
  from vma_insert_spec [OF ok1 gv vle nd a(6)] no obtain s' t' us vs where
    r: "vma_insert m1 p = Some (m1\<lparr>r_tree := s'\<rparr>, 0)" "vma_tree_ok (m1\<lparr>r_tree := s'\<rparr>) t'" "addrs t = us @ vs"
    "addrs t' = us @ vma_rb_node p # vs" by blast
  have run: "vma_alloc_area m sz fl = Some (m1\<lparr>r_tree := s'\<rparr>, p)"
    using pl a(1) r(1) by (simp add: vma_alloc_area_def Let_def n [symmetric] m1_def [symmetric] not_less [symmetric])
  have fs: "r_start m1 = r_start m" "r_end m1 = r_end m" "region_end (m1\<lparr>r_tree := s'\<rparr>) = region_end m" "kheap m1 = h" "buddy h = buddy (kheap m)" "vma_cache m1 = vma_cache m"
    using a(8) by (simp_all add: m1_def region_end_def)
  have av: "area m1 (vma_rb_node p) = v" using gv by (simp add: area_def)
  have reg: "in_region (m1\<lparr>r_tree := s'\<rparr>) (addrs t')"
    using ia(3) fit(1,3) same(2) r(3,4) av fs unfolding in_region_def by (auto simp: v_def)
  have "p \<in> U - (F - {p})" using sp.pool_ok [OF sp] a(2) by auto
  then have "vma_inv (m1\<lparr>r_tree := s'\<rparr>) d t' U (F - {p})"
    using r reg a(5) i fs unfolding vma_inv_def by auto
  then show ?thesis using run a(2) gv r(3,4) same(2) fs(1,2,4,5)
    by (intro exI [of _ "m1\<lparr>r_tree := s'\<rparr>"] exI [of _ t'] exI [of _ p]
        exI [of _ us] exI [of _ vs]) (simp add: v_def)
qed

text \<open>A region whose bounds and areas are page-aligned: so are its gaps, and the new area.\<close>

definition page_aligned :: "vmm \<Rightarrow> u64 list \<Rightarrow> bool" where
  "page_aligned m xs \<longleftrightarrow> 4096 dvd unat (r_start m) \<and>
     (\<forall>x \<in> set xs. 4096 dvd unat (vm_start (area m x)) \<and> 4096 dvd unat (vm_end (area m x)))"

lemma gaps_from_start:
  "(g, l) \<in> set (gaps_from m s xs) \<Longrightarrow> g = s \<or> (\<exists>x \<in> set xs. g = vm_end (area m x))"
  by (induction m s xs rule: gaps_from.induct) auto

lemma gaps_aligned: "(g, l) \<in> set (vma_gaps m xs) \<Longrightarrow> page_aligned m xs \<Longrightarrow> 4096 dvd unat g"
  using gaps_from_start [of g l m "r_start m" xs] by (auto simp: vma_gaps_def page_aligned_def)

lemma align_up_aligned: "4096 dvd unat (PAGE_ALIGNUP n)"
proof -
  have m: "PAGESIZE - 1 = mask 12" by (simp add: PAGESIZE_def mask_eq_exp_minus_1)
  define x where "x = n + (PAGESIZE - 1)"
  have "PAGE_ALIGNUP n = x AND NOT (mask 12)" unfolding PAGE_ALIGNUP_def m x_def ..
  then have "take_bit 12 (PAGE_ALIGNUP n) = 0" by (simp add: take_bit_eq_mask bit_eq_iff bit_simps)
  then have "unat (take_bit 12 (PAGE_ALIGNUP n)) = 0" by simp
  moreover have "unat (take_bit 12 (PAGE_ALIGNUP n)) = take_bit 12 (unat (PAGE_ALIGNUP n))" by (rule unsigned_take_bit_eq)
  moreover have "take_bit 12 (unat (PAGE_ALIGNUP n)) = unat (PAGE_ALIGNUP n) mod 2 ^ 12" by (rule take_bit_eq_mod)
  ultimately have "unat (PAGE_ALIGNUP n) mod 2 ^ 12 = 0" by simp
  then show ?thesis by (simp add: dvd_eq_mod_eq_0)
qed

lemma add_aligned: "4096 dvd unat g \<Longrightarrow> 4096 dvd unat n \<Longrightarrow> 4096 dvd unat (g + n :: u64)"
proof -
  assume d: "4096 dvd unat g" "4096 dvd unat n"
  have "(4096 :: nat) dvd 2 ^ 64" by (rule dvdI [of _ _ "2 ^ 52"]) simp
  then show ?thesis using d by (simp add: unat_word_ariths dvd_mod)
qed

lemma vma_alloc_area_spec:
  assumes i: "vma_inv m d t U F" and F: "F \<noteq> {}" and n: "n = PAGE_ALIGNUP sz"
    and top: "\<forall>(g, l) \<in> set (vma_gaps m (addrs t)). n \<le> l \<longrightarrow> g + n \<noteq> 0"
  shows "(vma_alloc_area m sz fl = Some (m, VMA_INVALID_PTR) \<and> (\<forall>(g, l) \<in> set (vma_gaps m (addrs t)). l < n)) \<or>
    (\<exists>m' t' p g l us vs. vma_alloc_area m sz fl = Some (m', p) \<and> p \<in> F \<and> (g, l) \<in> set (vma_gaps m (addrs t)) \<and> n \<le> l \<and>
       get_vma m' p = Some \<lparr>vm_start = g, vm_end = g + n, vm_pages = 0, vm_flags = fl\<rparr> \<and>
       vma_inv m' d t' U (F - {p}) \<and> addrs t = us @ vs \<and> addrs t' = us @ vma_rb_node p # vs \<and>
       (\<forall>x \<in> set (addrs t). area m' x = area m x) \<and> r_start m' = r_start m \<and> r_end m' = r_end m \<and>
       buddy (kheap m') = buddy (kheap m) \<and>
       (page_aligned m (addrs t) \<longrightarrow> 4096 dvd unat g \<and> 4096 dvd unat n \<and> page_aligned m' (addrs t')))"
proof -
  note ia = vma_inv_addrs [OF i]
  have big: "\<forall>(g, l) \<in> set (vma_gaps m (addrs t)). l < n" if "r_end m - r_start m < n"
    using gaps_bounded [OF ia(1,3)] that by (auto intro: le_less_trans)
  consider "r_end m - r_start m < n"
    | "n \<le> r_end m - r_start m" "vma_place m n = Some None" "\<forall>(g, l) \<in> set (vma_gaps m (addrs t)). l < n"
    | g l where "n \<le> r_end m - r_start m" "(g, l) \<in> set (vma_gaps m (addrs t))" "n \<le> l" "vma_place m n = Some (Some g)"
    using vma_place_spec [OF ia(2,1)] by (metis not_le)
  then show ?thesis
  proof cases
    case 1
    then show ?thesis using big by (intro disjI1) (simp add: vma_alloc_area_def Let_def n)
  next
    case 2
    then show ?thesis by (intro disjI1) (simp add: vma_alloc_area_def Let_def n [symmetric] not_less [symmetric])
  next
    case (3 g l)
    then have g0: "g + n \<noteq> 0" using top by auto
    from vma_alloc_placed [OF i F n 3(1,4,2,3) g0, of fl] obtain m' t' p us vs where
      r: "vma_alloc_area m sz fl = Some (m', p)" "p \<in> F" "get_vma m' p = Some \<lparr>vm_start = g, vm_end = g + n, vm_pages = 0, vm_flags = fl\<rparr>"
      "vma_inv m' d t' U (F - {p})" "addrs t = us @ vs" "addrs t' = us @ vma_rb_node p # vs" "\<forall>x \<in> set (addrs t). area m' x = area m x"
      "r_start m' = r_start m" "r_end m' = r_end m" "buddy (kheap m') = buddy (kheap m)" by blast
    have "4096 dvd unat g \<and> 4096 dvd unat n \<and> page_aligned m' (addrs t')" if al: "page_aligned m (addrs t)"
    proof -
      have "4096 dvd unat g" "4096 dvd unat n" using gaps_aligned [OF 3(2) al] align_up_aligned n by auto
      moreover from this have "4096 dvd unat (g + n)" by (rule add_aligned)
      moreover have "area m' (vma_rb_node p) = \<lparr>vm_start = g, vm_end = g + n, vm_pages = 0, vm_flags = fl\<rparr>" using r(3) by (simp add: area_def)
      ultimately show ?thesis using al r(5-8) by (auto simp: page_aligned_def)
    qed
    then show ?thesis using r 3(2,3) by blast
  qed
qed

section \<open>Freeing of an area\<close>

lemma area_gone:
  assumes "vma_struct_from_rb_node x \<noteq> p"
  shows "get_vma (m\<lparr>kheap := h, r_tree := s, vmas := (vmas m)(p := None)\<rparr>) (vma_struct_from_rb_node x) =
      get_vma m (vma_struct_from_rb_node x)"
  using assms by (simp add: get_vma_def)

lemma areas_ok_remove: "areas_ok m (us @ x # vs) \<Longrightarrow> areas_ok m (us @ vs)"
  by (auto simp: areas_ok_append areas_ok_Cons)

lemma vma_search_spec:
  assumes i: "vma_inv m d t U F"
  shows "\<exists>r. vma_search m addr = Some r \<and>
    ((\<exists>x \<in> set (addrs t). covers m addr x \<and> r = vma_struct_from_rb_node x) \<or>
     ((\<forall>x \<in> set (addrs t). \<not> covers m addr x) \<and> r = VMA_INVALID_PTR))"
proof -
  have z: "zrep (r_tree m) t []" using i by (simp add: vma_inv_def vma_tree_ok_def srep_def)
  have "rb_root (r_tree m) = addr_of t" using z by (simp add: zrep_def)
  then show ?thesis using vma_search_zip [OF z vma_inv_addrs(1) [OF i]] by (simp add: vma_search_def)
qed

lemma covers_unique:
  assumes "areas_ok m xs" "x \<in> set xs" "y \<in> set xs" "covers m addr x" "covers m addr y" "distinct xs"
  shows "x = y"
proof (rule ccontr)
  assume ne: "x \<noteq> y"
  from assms(2) obtain us vs where s: "xs = us @ x # vs" by (auto dest: split_list)
  then have "y \<in> set us \<or> y \<in> set vs" using assms(3) ne by auto
  then have "vm_end (area m y) \<le> vm_start (area m x) \<or> vm_end (area m x) \<le> vm_start (area m y)"
    using assms(1) s by (auto simp: areas_ok_append areas_ok_Cons)
  then show False using assms(4,5) by (auto simp: covers_def dest: less_le_trans le_less_trans)
qed

text \<open>The search finds the area that covers the address, a proper pointer.\<close>

lemma vma_search_covering:
  assumes i: "vma_inv m d t U F" and x: "x \<in> set (addrs t)" "covers m addr x"
  shows "vma_search m addr = Some (vma_struct_from_rb_node x)" "vma_struct_from_rb_node x \<noteq> VMA_INVALID_PTR"
    "vma_struct_from_rb_node x \<noteq> 0" "vma_struct_from_rb_node x \<in> U - F"
proof -
  have d: "distinct (addrs t)" using rbcur.nodes_ok [OF vma_inv_addrs(2) [OF i]] by simp
  from vma_search_spec [OF i, of addr] x obtain y where y: "y \<in> set (addrs t)" "covers m addr y"
    "vma_search m addr = Some (vma_struct_from_rb_node y)" by auto
  with covers_unique [OF vma_inv_addrs(1) [OF i] y(1) x(1) y(2) x(2) d] show "vma_search m addr = Some (vma_struct_from_rb_node x)" by simp
  show u: "vma_struct_from_rb_node x \<in> U - F" using i x(1) by (simp add: vma_inv_def)
  have "slab_pool (vma_cache m) d (kheap m) U F" using i by (simp add: vma_inv_def)
  from sp.pool_ok [OF this] u show "vma_struct_from_rb_node x \<noteq> VMA_INVALID_PTR" "vma_struct_from_rb_node x \<noteq> 0"
    by (auto simp: VMA_INVALID_PTR_def KPAGE_ERR_def)
qed

lemma vma_free_area_spec:
  assumes i: "vma_inv m d t U F" and z: "zrep (r_tree m) (Node l (x, c) r) ps" "zip_up (Node l (x, c) r) ps = t"
    and cv: "covers m addr x" and nb: "\<not> black_leaf (vacated (Node l (x, c) r))"
    and st: "slab_stays (vma_cache m) (kheap m) (vma_struct_from_rb_node x)"
  shows "\<exists>m' t' us vs. vma_free_area m addr = Some m' \<and> vma_remove_by_addr m addr = Some m' \<and>
    vma_inv m' d t' U (insert (vma_struct_from_rb_node x) F) \<and> addrs t = us @ x # vs \<and> addrs t' = us @ vs \<and>
    get_vma m' (vma_struct_from_rb_node x) = None \<and> (\<forall>y \<in> set (us @ vs). area m' y = area m y) \<and>
    r_start m' = r_start m \<and> r_end m' = r_end m"
proof -
  define p where "p = vma_struct_from_rb_node x"
  have px: "vma_rb_node p = x" by (simp add: p_def)
  define us vs where "us = before ps @ addrs l" and "vs = addrs r @ after ps"
  have tx: "addrs t = us @ x # vs" using z(2) by (auto simp: addrs_zip_up us_def vs_def)
  have x: "x \<in> set (addrs t)" by (simp add: tx)
  note f = vma_search_covering [OF i x cv, folded p_def]
  note ia = vma_inv_addrs [OF i]
  have d: "distinct (addrs t)" using rbcur.nodes_ok [OF ia(2)] by simp
  have sp: "slab_pool (vma_cache m) d (kheap m) U F" and v: "rb_valid (zip_up (Node l (x, c) r) ps)"
    using i z(2) by (simp_all add: vma_inv_def vma_tree_ok_def)
  from rb_remove_spec [OF z(1) v nb] obtain s' t' where
    s': "rb_remove (r_tree m) x = Some (s', x)" "srep s' t'" "rb_valid t'" "addrs t' = us @ vs"
    by (auto simp: us_def vs_def)
  from sp.free_law [OF sp f(4) st [folded p_def]] obtain h where
    h: "kslab_free (kheap m) (vma_cache m) p = Some h" "slab_pool (vma_cache m) d h U (insert p F)" by blast
  define m' where "m' = m\<lparr>kheap := h, r_tree := s', vmas := (vmas m)(p := None)\<rparr>"
  have run: "vma_free_area m addr = Some m'" "vma_remove_by_addr m addr = Some m'"
    using f s'(1) h(1) by (simp_all add: vma_free_area_def vma_remove_by_addr_def vma_remove_def vma_cache_free_def px m'_def)
  have ne: "vma_struct_from_rb_node y \<noteq> p" if "y \<in> set (us @ vs)" for y
  proof
    assume "vma_struct_from_rb_node y = p"
    then have "y = x" by (metis px rb_node_inverse(2))
    with that d tx show False by auto
  qed
  have same: "get_vma m' (vma_struct_from_rb_node y) = get_vma m (vma_struct_from_rb_node y)" "area m' y = area m y"
    if "y \<in> set (us @ vs)" for y
    using area_gone [OF ne [OF that], where m = m and h = h and s = s'] by (simp_all add: m'_def area_def)
  have "areas_ok m' (us @ vs)" using areas_ok_cong [of "us @ vs" m' m] same(1) areas_ok_remove ia(1) tx by metis
  moreover have "in_region m' (us @ vs)"
    using ia(3) same(2) tx unfolding in_region_def region_end_def by (auto simp: m'_def)
  moreover have "vma_struct_from_rb_node y \<in> U - insert p F" if "y \<in> set (us @ vs)" for y
    using i ne [OF that] that tx by (auto simp: vma_inv_def)
  ultimately have "vma_inv m' d t' U (insert p F)"
    using s' h(2) i by (auto simp: vma_inv_def vma_tree_ok_def m'_def)
  moreover have "get_vma m' p = None" by (simp add: get_vma_def m'_def)
  moreover have "r_start m' = r_start m" "r_end m' = r_end m" by (simp_all add: m'_def)
  ultimately show ?thesis using run tx s'(4) same(2)
    by (intro exI [of _ m'] exI [of _ t'] exI [of _ us] exI [of _ vs]) (simp add: p_def)
qed

text \<open>The faults: an area whose removal from the tree faults (among them the only area of a region), and an address that
  no area covers.\<close>

lemma vma_free_black_fault:
  assumes i: "vma_inv m d t U F" and z: "zrep (r_tree m) (Node l (x, c) r) ps" "zip_up (Node l (x, c) r) ps = t" and cv: "covers m addr x"
    and b: "black_leaf (vacated (Node l (x, c) r))" "if l = Leaf \<or> r = Leaf then left_or_root ps else min_sub r \<noteq> r"
  shows "vma_free_area m addr = None" "vma_remove_by_addr m addr = None"
proof -
  have "x \<in> set (addrs t)" using z(2) by (auto simp: addrs_zip_up)
  note f = vma_search_covering [OF i this cv]
  have "rb_remove (r_tree m) x = None" by (rule remove_vacated_fault [OF z(1) b])
  then show "vma_free_area m addr = None" "vma_remove_by_addr m addr = None"
    using f by (simp_all add: vma_free_area_def vma_remove_by_addr_def vma_remove_def)
qed

lemma vma_only_area_fault:
  assumes i: "vma_inv m d t U F" and t: "addrs t = [x]" and cv: "covers m addr x"
  shows "vma_free_area m addr = None" "vma_remove_by_addr m addr = None"
proof -
  obtain c where "t = Node Leaf (x, c) Leaf"
    using t by (cases t rule: addrs.cases) (auto simp: append_eq_Cons_conv)
  then have tt: "t = Node Leaf (x, RB_BLACK) Leaf" using i by (simp add: vma_inv_def vma_tree_ok_def rb_valid_def)
  then have z: "zrep (r_tree m) (Node Leaf (x, RB_BLACK) Leaf) []" using i by (simp add: vma_inv_def vma_tree_ok_def srep_def)
  from vma_free_black_fault [OF i z _ cv] tt show "vma_free_area m addr = None" "vma_remove_by_addr m addr = None" by simp_all
qed

lemma vma_remove_invalid_fault:
  assumes "rd (r_tree m) 31 = None"
  shows "vma_remove m VMA_INVALID_PTR = None"
proof -
  have "vma_rb_node VMA_INVALID_PTR = 31" by (simp add: vma_rb_node_def VMA_INVALID_PTR_def)
  moreover have "rb_remove (r_tree m) 31 = None"
    using assms by (subst rb_remove.simps) (simp add: get_left_def get_parent_def)
  ultimately show ?thesis by (simp add: vma_remove_def VMA_INVALID_PTR_def)
qed

end
