(* ===== verification/VmaProps.thy ===== *)
theory VmaProps
  imports VmaAlloc SlabProps RbTreeProps
begin

text \<open>
  The properties of \<^verbatim>\<open>kernel/mm/vma.c\<close>. The demonstration sets the subsystem up on the memory of
  \<open>demo1\<close> and allocates one area, then two; the witnesses run on it.
\<close>

section \<open>The subsystem on the demonstration memory\<close>

definition demo_vmm :: vmm where
  "demo_vmm = \<lparr>kheap = demo_heap demo1, vma_cache = 0x100, vmas = Map.empty, r_start = 0, r_end = 0, r_tree = rb_inittree Map.empty\<rparr>"

text \<open>A cache whose first slab is in place gives an empty region the invariant.\<close>

lemma vma_init_inv:
  assumes "kslab_cache_create (kheap m) (vma_cache m) ident 64 8 0 = Some (h, 0)"
    "slab_inv h (vma_cache m) c (one_empty a) (\<lambda>_. all_objs c a)" "unat (obj_size c) = 64" "rb_root (r_tree m) = 0"
  obtains m' where "vma_subsystem_init m ident = Some (m', 0)" "vma_inv m' c Leaf (objs_of c a) (objs_of c a)"
    "r_start m' = KERNEL_VMMMAP" "r_end m' = KERNEL_VMMMAP + KERNEL_VMMAP_LEN" "r_tree m' = r_tree m"
    "kheap m' = h"
proof
  let ?m = "m\<lparr>kheap := h, r_start := get_kernel_vmmap, r_end := get_kernel_vmmap + KERNEL_VMMAP_LEN\<rparr>"
  show "vma_subsystem_init m ident = Some (?m, 0)" using assms(1) by (simp add: vma_subsystem_init_def)
  have "region_end ?m = 2 ^ 64"
    using unat_minus_1 by (simp add: region_end_def get_kernel_vmmap_def KERNEL_VMMMAP_def KERNEL_VMMAP_LEN_def)
  then have "in_region ?m []" by (simp add: in_region_def get_kernel_vmmap_def KERNEL_VMMMAP_def)
  then show "vma_inv ?m c Leaf (objs_of c a) (objs_of c a)"
    using create_pool [OF assms(2)] assms(3,4)
    by (simp add: vma_inv_def vma_tree_ok_def srep_def zrep_def rb_valid_def areas_ok_def)
qed (simp_all add: get_kernel_vmmap_def)

lemma demo_region:
  obtains m c a where "vma_subsystem_init demo_vmm 0 = Some (m, 0)" "vma_inv m c Leaf (objs_of c a) (objs_of c a)"
    "r_start m = KERNEL_VMMMAP" "r_end m = KERNEL_VMMMAP + KERNEL_VMMAP_LEN" "card (objs_of c a) = 63" "cache_geom c" "slab_place c a"
    "r_tree m = rb_inittree Map.empty" "kbud_alloc demo1 0 = Some (buddy (kheap m), a)"
proof -
  have g: "get_cache (demo_heap demo1) 0x100 = Some demo_cache" by (simp add: get_cache_def demo_heap_def)
  from demo_page obtain b a where b: "kbud_alloc demo1 0 = Some (b, a)" "a \<noteq> KPAGE_ERR" "a \<noteq> 0" "4096 dvd unat a"
    "unat a + 4096 \<le> 2 ^ 64" .
  from create_spec [OF g, of 8 64 0 b a 0 0] b demo_best obtain h c where
    c: "kslab_cache_create (demo_heap demo1) 0x100 0 64 8 0 = Some (h, 0)" "slab_inv h 0x100 c (one_empty a) (\<lambda>_. all_objs c a)"
    "unat (sc_order c) = 0" "obj_size c = 64" "unat (slab_objs_per c) = 63" "buddy h = b"
    by (auto simp: demo_cache_def demo_heap_def hdr_room_def)
  have gm: "cache_geom c" using c(2) by (simp add: slab_inv_def)
  have p: "slab_place c a" using b(4,5) c(3) by (simp add: slab_place_def slab_bytes_def)
  have "inj_on (obj_addr c a) {..<63}" using obj_addr_inj [OF gm p] c(5) by (auto simp: inj_on_def)
  then have n: "card (objs_of c a) = 63" by (simp add: objs_of_def c(5) card_image)
  have k: "kslab_cache_create (kheap demo_vmm) (vma_cache demo_vmm) 0 64 8 0 = Some (h, 0)"
    "slab_inv h (vma_cache demo_vmm) c (one_empty a) (\<lambda>_. all_objs c a)" "unat (obj_size c) = 64" "rb_root (r_tree demo_vmm) = 0"
    using c by (simp_all add: demo_vmm_def rb_inittree_def)
  from vma_init_inv [OF k] obtain m' where "vma_subsystem_init demo_vmm 0 = Some (m', 0)"
    "vma_inv m' c Leaf (objs_of c a) (objs_of c a)"
    "r_start m' = KERNEL_VMMMAP" "r_end m' = KERNEL_VMMMAP + KERNEL_VMMAP_LEN" "r_tree m' = r_tree demo_vmm" "kheap m' = h" .
  then show ?thesis using that n gm p b(1) c(6) by (auto simp: demo_vmm_def)
qed

text \<open>One area of two pages, and a second one behind it.\<close>

lemma demo_one:
  obtains m1 t1 c a p where "vma_inv m1 c t1 (objs_of c a) (objs_of c a - {p})" "addrs t1 = [vma_rb_node p]" "p \<in> objs_of c a"
    "area m1 (vma_rb_node p) = \<lparr>vm_start = KERNEL_VMMMAP, vm_end = KERNEL_VMMMAP + 8192, vm_pages = 0, vm_flags = 2\<rparr>"
    "card (objs_of c a) = 63" "cache_geom c" "slab_place c a"
    "r_start m1 = KERNEL_VMMMAP" "r_end m1 = 0"
proof -
  from demo_region obtain m c a where m: "vma_subsystem_init demo_vmm 0 = Some (m, 0)" "vma_inv m c Leaf (objs_of c a) (objs_of c a)"
    "r_start m = KERNEL_VMMMAP" "r_end m = KERNEL_VMMMAP + KERNEL_VMMAP_LEN" "card (objs_of c a) = 63" "cache_geom c" "slab_place c a"
    "r_tree m = rb_inittree Map.empty" "kbud_alloc demo1 0 = Some (buddy (kheap m), a)" .
  have n: "8192 = PAGE_ALIGNUP 5000" by (simp add: PAGE_ALIGNUP_def PAGESIZE_def)
  have ne: "objs_of c a \<noteq> {}" using m(5) by auto
  have g: "vma_gaps m [] = [(KERNEL_VMMMAP, KERNEL_VMMAP_LEN)]" using m(3,4) by (simp add: vma_gaps_def)
  have "8192 < KERNEL_VMMAP_LEN" by (simp add: KERNEL_VMMAP_LEN_def)
  moreover have "\<forall>(g, l) \<in> set (vma_gaps m (addrs Leaf)). 8192 \<le> l \<longrightarrow> g + 8192 \<noteq> 0" by (simp add: g KERNEL_VMMMAP_def)
  note vma_alloc_area_spec [OF m(2) ne n this, of VM_WRITE, unfolded addrs.simps g]
  ultimately obtain m1 t1 p us vs where
    r: "vma_alloc_area m 5000 VM_WRITE = Some (m1, p)" "p \<in> objs_of c a"
    "get_vma m1 p = Some \<lparr>vm_start = KERNEL_VMMMAP, vm_end = KERNEL_VMMMAP + 8192, vm_pages = 0, vm_flags = VM_WRITE\<rparr>"
    "vma_inv m1 c t1 (objs_of c a) (objs_of c a - {p})" "[] = us @ vs" "addrs t1 = us @ vma_rb_node p # vs"
    "r_start m1 = r_start m" "r_end m1 = r_end m" by auto
  show ?thesis
    by (rule that [of m1 c t1 a p]) (use r m in \<open>simp_all add: area_def VM_WRITE_def KERNEL_VMMMAP_def KERNEL_VMMAP_LEN_def\<close>)
qed

lemma demo_two:
  obtains m2 t2 c a p q where "vma_inv m2 c t2 (objs_of c a) (objs_of c a - {p} - {q})"
    "addrs t2 = [vma_rb_node p, vma_rb_node q] \<or> addrs t2 = [vma_rb_node q, vma_rb_node p]"
    "p \<in> objs_of c a" "q \<in> objs_of c a" "p \<noteq> q" "cache_geom c" "slab_place c a"
    "area m2 (vma_rb_node p) = \<lparr>vm_start = KERNEL_VMMMAP, vm_end = KERNEL_VMMMAP + 8192, vm_pages = 0, vm_flags = 2\<rparr>"
proof -
  from demo_one obtain m1 t1 c a p where m: "vma_inv m1 c t1 (objs_of c a) (objs_of c a - {p})" "addrs t1 = [vma_rb_node p]"
    "p \<in> objs_of c a" "area m1 (vma_rb_node p) = \<lparr>vm_start = KERNEL_VMMMAP, vm_end = KERNEL_VMMMAP + 8192, vm_pages = 0, vm_flags = 2\<rparr>"
    "card (objs_of c a) = 63" "cache_geom c" "slab_place c a" "r_start m1 = KERNEL_VMMMAP" "r_end m1 = 0" .
  have n: "4096 = PAGE_ALIGNUP 1" by (simp add: PAGE_ALIGNUP_def PAGESIZE_def)
  have "finite (objs_of c a)" by (simp add: objs_of_def)
  then have "card (objs_of c a - {p}) = 62" using m(3,5) by simp
  then have ne: "objs_of c a - {p} \<noteq> {}" by (metis card.empty zero_neq_numeral)
  have g: "vma_gaps m1 (addrs t1) = [(KERNEL_VMMMAP, 0), (KERNEL_VMMMAP + 8192, - (KERNEL_VMMMAP + 8192))]"
    by (simp add: vma_gaps_def m(2,4,8,9))
  have top: "\<forall>(g, l) \<in> set (vma_gaps m1 (addrs t1)). 4096 \<le> l \<longrightarrow> g + 4096 \<noteq> 0" by (simp add: g KERNEL_VMMMAP_def)
  have "4096 < - (KERNEL_VMMMAP + 8192)" by (simp add: KERNEL_VMMMAP_def)
  with vma_alloc_area_spec [OF m(1) ne n top, of VM_READ, unfolded g] obtain m2 t2 q us vs where
    r: "vma_alloc_area m1 1 VM_READ = Some (m2, q)" "q \<in> objs_of c a - {p}"
    "vma_inv m2 c t2 (objs_of c a) (objs_of c a - {p} - {q})" "addrs t1 = us @ vs" "addrs t2 = us @ vma_rb_node q # vs"
    "\<forall>x \<in> set (addrs t1). area m2 x = area m1 x" by auto
  have "us = [] \<and> vs = [vma_rb_node p] \<or> us = [vma_rb_node p] \<and> vs = []"
    using r(4) m(2) by (auto simp: Cons_eq_append_conv)
  then show ?thesis
    by (intro that [of m2 c t2 a p q]) (use r m in auto)
qed

section \<open>The whole region in one area\<close>

text \<open>The end of the kernel's region wraps to 0, and so does the end of an area that fills it.\<close>

lemma vma_alloc_whole_spec:
  assumes i: "vma_inv m d Leaf U F" and F: "F \<noteq> {}" and n: "n = PAGE_ALIGNUP sz" "n = r_end m - r_start m"
    and e: "r_end m = 0" "r_start m \<noteq> 0"
  shows "\<exists>m' p. vma_alloc_area m sz fl = Some (m', p) \<and> p \<in> F \<and>
    get_vma m' p = Some \<lparr>vm_start = r_start m, vm_end = 0, vm_pages = 0, vm_flags = fl\<rparr> \<and>
    (\<forall>addr. vma_search m' addr = (if addr < r_start m then None else Some VMA_INVALID_PTR))"
proof -
  have r0: "rb_root (r_tree m) = 0" using i by (simp add: vma_inv_def vma_tree_ok_def srep_def zrep_def)
  define v where "v = \<lparr>vm_start = r_start m, vm_end = 0, vm_pages = 0, vm_flags = fl\<rparr>"
  have e0: "r_start m + n = 0" using e(1) n(2) by simp
  from vma_assign_spec [OF i F, where b = "r_start m" and n = n and fl = fl, unfolded e0, folded v_def] obtain h p nd where
    a: "vma_assign_struct m (r_start m) n fl =
      Some (m\<lparr>kheap := h, r_tree := wr (r_tree m) (vma_rb_node p) nd, vmas := (vmas m)(p \<mapsto> v)\<rparr>, p, 0)"
    "p \<in> F" "p \<noteq> 0" "p \<noteq> VMA_INVALID_PTR" "vma_rb_node p \<noteq> 0" .
  define m1 where "m1 = m\<lparr>kheap := h, r_tree := wr (r_tree m) (vma_rb_node p) nd, vmas := (vmas m)(p \<mapsto> v)\<rparr>"
  have t1: "zrep (r_tree m1) Leaf []" "rb_root (r_tree m1) = 0" "rd (r_tree m1) (vma_rb_node p) = Some nd"
    using r0 a(5) by (simp_all add: m1_def zrep_def root_wr rd_wr_same)
  have gv: "get_vma (m1\<lparr>r_tree := s\<rparr>) p = Some v" for s using a(3) by (simp add: get_vma_def m1_def)
  have "rb_valid (zip_up Leaf [])" by (simp add: rb_valid_def)
  from rb_insert_at_hole [OF t1(1) this t1(3)] obtain s' t' where
    s: "rb_insert (r_tree m1) (vma_rb_node p) 0 RootLink = Some s'" "srep s' t'" "rb_valid t'" "addrs t' = [vma_rb_node p]"
    by auto
  have "vma_descend m1 v RootLink 0 = Some (Some (RootLink, 0))"
    using t1(2) by (subst vma_descend.simps) (simp add: link_get_def)
  then have "vma_insert m1 p = Some (m1\<lparr>r_tree := s'\<rparr>, 0)" using gv [of "r_tree m1"] s(1) by (simp add: vma_insert_def)
  moreover have "vma_place m n = Some (Some (r_start m))" using r0 by (simp add: vma_place_def)
  ultimately have run: "vma_alloc_area m sz fl = Some (m1\<lparr>r_tree := s'\<rparr>, p)"
    using a(1) n by (simp add: vma_alloc_area_def Let_def m1_def [symmetric])
  from s(4) obtain c where "t' = Node Leaf (vma_rb_node p, c) Leaf"
    by (cases t' rule: addrs.cases) (auto simp: append_eq_Cons_conv)
  then have g: "rb_root s' = vma_rb_node p" "get_left s' (vma_rb_node p) = Some 0" "get_right s' (vma_rb_node p) = Some 0"
    using s(2) a(5) by (simp_all add: srep_def zrep_def get_left_def get_right_def)
  have nul: "vma_search_from (m1\<lparr>r_tree := s'\<rparr>) addr 0 = Some VMA_INVALID_PTR" for addr
    by (subst vma_search_from.simps) simp
  have r00: "get_right s' 0 = None" by (simp add: get_right_def rd_null)
  have "vma_search (m1\<lparr>r_tree := s'\<rparr>) addr = (if addr < r_start m then None else Some VMA_INVALID_PTR)" for addr
    unfolding vma_search_def using g a(5) gv nul r00
    by (subst vma_search_from.simps) (simp add: v_def)
  then show ?thesis using run a(2) gv by (auto simp: v_def)
qed


section \<open>Claims\<close>

text \<open>C16. \<^verbatim>\<open>vma_search\<close> on a region that satisfies the invariant returns: the one area that covers the address,
  or \<^verbatim>\<open>VMA_INVALID_PTR\<close> when none does.\<close>

theorem vma_search_correct:
  assumes "vma_inv m d t U F"
  shows "\<exists>r. vma_search m addr = Some r \<and>
    ((\<exists>x \<in> set (addrs t). covers m addr x \<and> (\<forall>y \<in> set (addrs t). covers m addr y \<longrightarrow> y = x) \<and> r = vma_struct_from_rb_node x) \<or>
     ((\<forall>x \<in> set (addrs t). \<not> covers m addr x) \<and> r = VMA_INVALID_PTR))"
proof -
  note ia = vma_inv_addrs [OF assms]
  have "distinct (addrs t)" using rbcur.nodes_ok [OF ia(2)] by simp
  then have u: "\<forall>y \<in> set (addrs t). covers m addr y \<longrightarrow> y = x" if "x \<in> set (addrs t)" "covers m addr x" for x
    using covers_unique [OF ia(1)] that by blast
  from vma_search_spec [OF assms, of addr] show ?thesis
  proof (elim exE conjE disjE bexE)
    fix r x assume r: "vma_search m addr = Some r" "x \<in> set (addrs t)" "covers m addr x" "r = vma_struct_from_rb_node x"
    show ?thesis by (intro exI [of _ r] conjI disjI1 bexI [of _ x]) (fact r u [OF r(2,3)])+
  qed simp
qed

lemma vma_search_correct_witness:
  "\<exists>m p. vma_search m (KERNEL_VMMMAP + 5000) = Some p \<and>
     get_vma m p = Some \<lparr>vm_start = KERNEL_VMMMAP, vm_end = KERNEL_VMMMAP + 8192, vm_pages = 0, vm_flags = 2\<rparr>"
proof (rule demo_one)
  fix m1 t1 c a p
  assume m: "vma_inv m1 c t1 (objs_of c a) (objs_of c a - {p})" "addrs t1 = [vma_rb_node p]"
    "area m1 (vma_rb_node p) = \<lparr>vm_start = KERNEL_VMMMAP, vm_end = KERNEL_VMMMAP + 8192, vm_pages = 0, vm_flags = 2\<rparr>"
  have "covers m1 (KERNEL_VMMMAP + 5000) (vma_rb_node p)" by (simp add: covers_def m(3) KERNEL_VMMMAP_def)
  moreover have "get_vma m1 p = Some (area m1 (vma_rb_node p))"
    using vma_inv_addrs(1) [OF m(1)] get_area [of m1 "vma_rb_node p"] by (simp add: m(2) areas_ok_def)
  ultimately show ?thesis using vma_search_correct [OF m(1), of "KERNEL_VMMMAP + 5000"] m(2,3) by auto
qed

text \<open>\<^verbatim>\<open>vma_insert\<close> of an area whose node is outside the tree returns -1 and changes nothing when it
  overlaps an area of the tree; otherwise it returns 0 and the tree is again a red-black tree of disjoint
  areas in address order, the new one in its place.\<close>

theorem vma_insert_correct:
  assumes "vma_tree_ok m t" "get_vma m p = Some v" "vm_start v \<le> vm_end v"
    and "rd (r_tree m) (vma_rb_node p) = Some nd" "vma_rb_node p \<notin> set (addrs t)"
  shows "(\<exists>x \<in> set (addrs t). overlaps m v x \<and> vma_insert m p = Some (m, -1)) \<or>
    ((\<forall>x \<in> set (addrs t). \<not> overlaps m v x) \<and> (\<exists>s' t' us vs. vma_insert m p = Some (m\<lparr>r_tree := s'\<rparr>, 0) \<and>
      vma_tree_ok (m\<lparr>r_tree := s'\<rparr>) t' \<and> addrs t = us @ vs \<and> addrs t' = us @ vma_rb_node p # vs \<and>
      same_off (insert (vma_rb_node p) (set (addrs t))) (r_tree m) s'))"
  by (rule vma_insert_spec [OF assms])

definition demo_map :: "u64 \<Rightarrow> vmm" where
  "demo_map e = demo_vmm\<lparr>r_tree := spare 0x420 (heap_of (Node (Node Leaf (0x120, RB_RED) Leaf) (0x220, RB_BLACK) (Node Leaf (0x320, RB_RED) Leaf))),
     vmas := [0x100 \<mapsto> \<lparr>vm_start = 0x1000, vm_end = 0x2000, vm_pages = 0, vm_flags = 1\<rparr>,
              0x200 \<mapsto> \<lparr>vm_start = 0x3000, vm_end = 0x5000, vm_pages = 0, vm_flags = 1\<rparr>,
              0x300 \<mapsto> \<lparr>vm_start = 0x7000, vm_end = 0x8000, vm_pages = 0, vm_flags = 1\<rparr>,
              0x400 \<mapsto> \<lparr>vm_start = 0x5000, vm_end = e, vm_pages = 0, vm_flags = 1\<rparr>]\<rparr>"

lemma vma_insert_correct_witness:
  "vma_insert (demo_map 0x7001) 0x400 = Some (demo_map 0x7001, -1) \<and>
   (\<exists>m t. vma_insert (demo_map 0x7000) 0x400 = Some (m, 0) \<and> vma_tree_ok m t \<and> addrs t = [0x120, 0x220, 0x420, 0x320])"
proof -
  let ?t = "Node (Node Leaf (0x120, RB_RED) Leaf) (0x220, RB_BLACK) (Node Leaf (0x320, RB_RED) Leaf) :: rbt"
  have ok: "vma_tree_ok (demo_map e) ?t" for e
    by (simp add: vma_tree_ok_def demo_map_def demo_vmm_def srep_def zrep_def heap_of_def spare_def rd_def wr_def rb_valid_def
        areas_ok_def area_def get_vma_def vma_struct_from_rb_node_def)
  have v: "get_vma (demo_map e) 0x400 = Some \<lparr>vm_start = 0x5000, vm_end = e, vm_pages = 0, vm_flags = 1\<rparr>" for e
    by (simp add: demo_map_def get_vma_def)
  have nd: "rd (r_tree (demo_map e)) (vma_rb_node 0x400) = Some \<lparr>rb_left = 0, rb_right = 0, rb_parent = 0, rb_color = RB_RED\<rparr>" for e
    by (simp add: demo_map_def vma_rb_node_def spare_def rd_def wr_def)
  have ov: "overlaps (demo_map e') \<lparr>vm_start = 0x5000, vm_end = e, vm_pages = 0, vm_flags = 1\<rparr> x \<longleftrightarrow>
     0x7000 < e \<and> x = 0x320" if "x \<in> set (addrs ?t)" "0x5000 \<le> e" for e e' x
    using that by (auto simp: overlaps_def area_def demo_map_def get_vma_def vma_struct_from_rb_node_def)
  have out: "vma_rb_node 0x400 \<notin> set (addrs ?t)" by (simp add: vma_rb_node_def)
  have 1: "vma_insert (demo_map 0x7001) 0x400 = Some (demo_map 0x7001, -1)"
    using vma_insert_correct [OF ok [of "0x7001"] v _ nd out] ov [where x = "0x320" and e = "0x7001" and e' = "0x7001"] by auto
  have "\<forall>x \<in> set (addrs ?t). \<not> overlaps (demo_map 0x7000) \<lparr>vm_start = 0x5000, vm_end = 0x7000, vm_pages = 0, vm_flags = 1\<rparr> x"
    using ov [where e = "0x7000" and e' = "0x7000"] by auto
  with vma_insert_correct [OF ok [of "0x7000"] v _ nd out] obtain s t us vs where
    i: "vma_insert (demo_map 0x7000) 0x400 = Some (demo_map 0x7000\<lparr>r_tree := s\<rparr>, 0)" "vma_tree_ok (demo_map 0x7000\<lparr>r_tree := s\<rparr>) t"
    "addrs ?t = us @ vs" "addrs t = us @ vma_rb_node 0x400 # vs" by auto
  have "sorted_wrt (\<lambda>x y. vm_end (area (demo_map 0x7000) x) \<le> vm_start (area (demo_map 0x7000) y)) (us @ 0x420 # vs)"
    using i(2,4) by (simp add: vma_tree_ok_def areas_ok_def vma_rb_node_def)
  then have "us @ 0x420 # vs = [0x120, 0x220, 0x420, 0x320]"
    using i(3) by (auto simp: Cons_eq_append_conv area_def demo_map_def get_vma_def vma_struct_from_rb_node_def)
  then show ?thesis using 1 i by (auto simp: vma_rb_node_def)
qed

text \<open>C14. \<^verbatim>\<open>vma_alloc_area\<close>, with an object left in the cache (\<open>F\<close> is not empty) and no sufficient gap in which the new area
  would end at the top of the address space (\<open>g + n\<close> wraps to 0), either finds every free gap of the region too small and returns
  \<^verbatim>\<open>VMA_INVALID_PTR\<close> with nothing changed, or places an area of the size rounded up to pages at the start of
  a gap that is large enough: a formerly free object, linked into the tree at its place, and the invariant of the region (disjoint
  areas inside it, the cache, the tree) holds again. When the start of the region and all its areas are page-aligned, so is
  the new area, and all areas are again.\<close>

theorem vma_alloc_area_correct:
  assumes "vma_inv m d t U F" "F \<noteq> {}" "n = PAGE_ALIGNUP sz"
    and "\<forall>(g, l) \<in> set (vma_gaps m (addrs t)). n \<le> l \<longrightarrow> g + n \<noteq> 0"
  shows "(vma_alloc_area m sz fl = Some (m, VMA_INVALID_PTR) \<and> (\<forall>(g, l) \<in> set (vma_gaps m (addrs t)). l < n)) \<or>
    (\<exists>m' t' p g l us vs. vma_alloc_area m sz fl = Some (m', p) \<and> p \<in> F \<and> (g, l) \<in> set (vma_gaps m (addrs t)) \<and> n \<le> l \<and>
       get_vma m' p = Some \<lparr>vm_start = g, vm_end = g + n, vm_pages = 0, vm_flags = fl\<rparr> \<and>
       vma_inv m' d t' U (F - {p}) \<and> addrs t = us @ vs \<and> addrs t' = us @ vma_rb_node p # vs \<and>
       (\<forall>x \<in> set (addrs t). area m' x = area m x) \<and> r_start m' = r_start m \<and> r_end m' = r_end m \<and>
       buddy (kheap m') = buddy (kheap m) \<and>
       (page_aligned m (addrs t) \<longrightarrow> 4096 dvd unat g \<and> 4096 dvd unat n \<and> page_aligned m' (addrs t')))"
  by (rule vma_alloc_area_spec [OF assms])

lemma vma_alloc_area_correct_witness:
  "\<exists>m m' p. vma_subsystem_init demo_vmm 0 = Some (m, 0) \<and> vma_alloc_area m 5000 VM_WRITE = Some (m', p) \<and>
     get_vma m' p = Some \<lparr>vm_start = 0xFFFFC00000000000, vm_end = 0xFFFFC00000002000, vm_pages = 0, vm_flags = 2\<rparr> \<and>
     vma_alloc_area m (KERNEL_VMMAP_LEN + 1) VM_WRITE = Some (m, VMA_INVALID_PTR)"
proof (rule demo_region)
  fix m c a assume m: "vma_subsystem_init demo_vmm 0 = Some (m, 0)" "vma_inv m c Leaf (objs_of c a) (objs_of c a)"
    "r_start m = KERNEL_VMMMAP" "r_end m = KERNEL_VMMMAP + KERNEL_VMMAP_LEN" "card (objs_of c a) = 63"
  have ne: "objs_of c a \<noteq> {}" using m(5) by auto
  have g: "vma_gaps m [] = [(KERNEL_VMMMAP, KERNEL_VMMAP_LEN)]" using m(3,4) by (simp add: vma_gaps_def)
  have n1: "0x2000 = PAGE_ALIGNUP 5000" and n2: "KERNEL_VMMAP_LEN + 0x1000 = PAGE_ALIGNUP (KERNEL_VMMAP_LEN + 1)"
    by (simp_all add: PAGE_ALIGNUP_def PAGESIZE_def KERNEL_VMMAP_LEN_def)
  have "\<forall>(g, l) \<in> set (vma_gaps m (addrs Leaf)). 0x2000 \<le> l \<longrightarrow> g + 0x2000 \<noteq> 0" by (simp add: g KERNEL_VMMMAP_def)
  from vma_alloc_area_correct [OF m(2) ne n1 this, of VM_WRITE, unfolded addrs.simps g] obtain m' p where
    "vma_alloc_area m 5000 VM_WRITE = Some (m', p)"
    "get_vma m' p = Some \<lparr>vm_start = KERNEL_VMMMAP, vm_end = KERNEL_VMMMAP + 0x2000, vm_pages = 0, vm_flags = VM_WRITE\<rparr>"
    by (auto simp: KERNEL_VMMAP_LEN_def)
  moreover have "\<forall>(g, l) \<in> set (vma_gaps m (addrs Leaf)). KERNEL_VMMAP_LEN + 0x1000 \<le> l \<longrightarrow> g + (KERNEL_VMMAP_LEN + 0x1000) \<noteq> 0"
    by (simp add: g KERNEL_VMMMAP_def KERNEL_VMMAP_LEN_def)
  from vma_alloc_area_correct [OF m(2) ne n2 this, of VM_WRITE, unfolded addrs.simps g]
  have "vma_alloc_area m (KERNEL_VMMAP_LEN + 1) VM_WRITE = Some (m, VMA_INVALID_PTR)"
    by (auto simp: KERNEL_VMMAP_LEN_def)
  ultimately show ?thesis using m(1) by (auto simp: KERNEL_VMMMAP_def VM_WRITE_def)
qed

text \<open>C15. \<^verbatim>\<open>vma_free_area\<close> and \<^verbatim>\<open>vma_remove_by_addr\<close> of an address inside an area. Where the tree node that leaves its place (the
  node itself, or its successor when it has two children) is not a black leaf, and the slab of the area's object stays in
  the cache: exactly that area leaves the tree, its object is free again, and the invariant of the region holds. Where that node is
  a black leaf which is the root or a left child, both dereference a null pointer (the case of \<^verbatim>\<open>rb_remove\<close> on such a
  node). Nothing is claimed for a black leaf on the right, where \<^verbatim>\<open>rb_remove\<close> may lose other nodes, and for
  a slab that is given back.\<close>

theorem vma_free_area_correct:
  assumes "vma_inv m d t U F" "zrep (r_tree m) (Node l (x, c) r) ps" "zip_up (Node l (x, c) r) ps = t" "covers m addr x"
  shows "(\<not> black_leaf (vacated (Node l (x, c) r)) \<and> slab_stays (vma_cache m) (kheap m) (vma_struct_from_rb_node x) \<longrightarrow>
    (\<exists>m' t' us vs. vma_free_area m addr = Some m' \<and> vma_remove_by_addr m addr = Some m' \<and>
      vma_inv m' d t' U (insert (vma_struct_from_rb_node x) F) \<and> addrs t = us @ x # vs \<and> addrs t' = us @ vs \<and>
      get_vma m' (vma_struct_from_rb_node x) = None \<and> (\<forall>y \<in> set (us @ vs). area m' y = area m y) \<and>
      r_start m' = r_start m \<and> r_end m' = r_end m)) \<and>
    (black_leaf (vacated (Node l (x, c) r)) \<and> (if l = Leaf \<or> r = Leaf then left_or_root ps else min_sub r \<noteq> r) \<longrightarrow>
      vma_free_area m addr = None \<and> vma_remove_by_addr m addr = None)"
  using vma_free_area_spec [OF assms] vma_free_black_fault [OF assms] by blast

text \<open>In a tree of two nodes either one can be removed.\<close>

lemma two_nodes:
  assumes "rb_valid t" "addrs t = [x, y]" "z \<in> {x, y}"
  obtains l c r ps where "t = zip_up (Node l (z, c) r) ps" "\<not> black_leaf (vacated (Node l (z, c) r))"
proof -
  from assms(1,2) consider "t = Node Leaf (x, RB_BLACK) (Node Leaf (y, RB_RED) Leaf)"
    | "t = Node (Node Leaf (x, RB_RED) Leaf) (y, RB_BLACK) Leaf"
    by (cases t rule: addrs.cases) (auto simp: append_eq_Cons_conv Cons_eq_append_conv rb_valid_def eq_commute [of "[]"]
        elim!: addrs.elims split: if_splits intro: rb_colors.exhaust)
  then show ?thesis
  proof cases
    case 1
    then show ?thesis
      using assms(3) that [of Leaf RB_BLACK "Node Leaf (y, RB_RED) Leaf" "[]"] that [of Leaf RB_RED Leaf "[CR x RB_BLACK Leaf]"] by auto
  next
    case 2
    then show ?thesis
      using assms(3) that [of "Node Leaf (x, RB_RED) Leaf" RB_BLACK Leaf "[]"] that [of Leaf RB_RED Leaf "[CL y RB_BLACK Leaf]"] by auto
  qed
qed

lemma vma_free_area_correct_witness:
  "\<exists>m m' d t' U F q. vma_free_area m (KERNEL_VMMMAP + 5000) = Some m' \<and> vma_inv m' d t' U F \<and> addrs t' = [q]"
proof (rule demo_two)
  fix m2 t2 c a p q
  assume m: "vma_inv m2 c t2 (objs_of c a) (objs_of c a - {p} - {q})"
    "addrs t2 = [vma_rb_node p, vma_rb_node q] \<or> addrs t2 = [vma_rb_node q, vma_rb_node p]"
    "p \<in> objs_of c a" "q \<in> objs_of c a" "p \<noteq> q" "cache_geom c" "slab_place c a"
    "area m2 (vma_rb_node p) = \<lparr>vm_start = KERNEL_VMMMAP, vm_end = KERNEL_VMMMAP + 8192, vm_pages = 0, vm_flags = 2\<rparr>"
  have v: "rb_valid t2" and s: "srep (r_tree m2) t2" and sp: "slab_pool (vma_cache m2) c (kheap m2) (objs_of c a) (objs_of c a - {p} - {q})"
    using m(1) by (simp_all add: vma_inv_def vma_tree_ok_def)
  obtain x y where "addrs t2 = [x, y]" "vma_rb_node p \<in> {x, y}" using m(2) by auto
  then obtain l k r ps where z: "t2 = zip_up (Node l (vma_rb_node p, k) r) ps"
    "\<not> black_leaf (vacated (Node l (vma_rb_node p, k) r))" by (rule two_nodes [OF v])
  have zr: "zrep (r_tree m2) (Node l (vma_rb_node p, k) r) ps" using s z(1) by (simp add: zrep_zip_up)
  have cv: "covers m2 (KERNEL_VMMMAP + 5000) (vma_rb_node p)" by (simp add: covers_def m(8) KERNEL_VMMMAP_def)
  have "slab_stays (vma_cache m2) (kheap m2) p"
    by (rule slab_stays_shared [OF sp, of p q]) (use m(3-5) obj_base [OF m(6,7)] in auto)
  then have st: "slab_stays (vma_cache m2) (kheap m2) (vma_struct_from_rb_node (vma_rb_node p))" by simp
  from vma_free_area_correct [OF m(1) zr z(1) [symmetric] cv] z(2) st obtain m' t' us vs where
    r: "vma_free_area m2 (KERNEL_VMMMAP + 5000) = Some m'" "addrs t2 = us @ vma_rb_node p # vs" "addrs t' = us @ vs"
    and i: "vma_inv m' c t' (objs_of c a) (insert p (objs_of c a - {p} - {q}))" by auto
  have "vma_rb_node p \<noteq> vma_rb_node q" using m(5) by (simp add: vma_rb_node_def)
  then have "addrs t' = [vma_rb_node q]" using m(2) r(2,3) by (auto simp: Cons_eq_append_conv append_eq_Cons_conv)
  then show ?thesis using r(1) i by blast
qed

text \<open>What the code does not survive: freeing the only area of a region faults (the removal of a black
  root), and so does \<^verbatim>\<open>vma_remove_by_addr\<close> of an address in no area, which follows \<^verbatim>\<open>VMA_INVALID_PTR\<close> to a
  tree node at address 31; \<^verbatim>\<open>vma_free_area\<close> of such an address does nothing.\<close>

theorem vma_free_faults:
  assumes "vma_inv m d t U F"
  shows "(\<forall>x. addrs t = [x] \<and> covers m addr x \<longrightarrow> vma_free_area m addr = None \<and> vma_remove_by_addr m addr = None) \<and>
    ((\<forall>x \<in> set (addrs t). \<not> covers m addr x) \<longrightarrow> vma_free_area m addr = Some m \<and>
       (rd (r_tree m) 31 = None \<longrightarrow> vma_remove_by_addr m addr = None))"
proof (intro conjI allI impI)
  fix x assume "addrs t = [x] \<and> covers m addr x"
  then show "vma_free_area m addr = None" "vma_remove_by_addr m addr = None"
    using vma_only_area_fault [OF assms] by auto
next
  assume "\<forall>x \<in> set (addrs t). \<not> covers m addr x"
  then have s: "vma_search m addr = Some VMA_INVALID_PTR" using vma_search_spec [OF assms, of addr] by auto
  then show "vma_free_area m addr = Some m" by (simp add: vma_free_area_def)
  show "vma_remove_by_addr m addr = None" if "rd (r_tree m) 31 = None"
    using s vma_remove_invalid_fault [OF that] by (simp add: vma_remove_by_addr_def)
qed

lemma vma_free_faults_witness:
  "(\<exists>m x. covers m (KERNEL_VMMMAP + 1) x \<and> vma_free_area m (KERNEL_VMMMAP + 1) = None) \<and>
   (\<exists>m. vma_subsystem_init demo_vmm 0 = Some (m, 0) \<and> vma_remove_by_addr m 5 = None)"
proof
  show "\<exists>m x. covers m (KERNEL_VMMMAP + 1) x \<and> vma_free_area m (KERNEL_VMMMAP + 1) = None"
  proof (rule demo_one)
    fix m1 t1 c a p
    assume m: "vma_inv m1 c t1 (objs_of c a) (objs_of c a - {p})" "addrs t1 = [vma_rb_node p]"
      "area m1 (vma_rb_node p) = \<lparr>vm_start = KERNEL_VMMMAP, vm_end = KERNEL_VMMMAP + 8192, vm_pages = 0, vm_flags = 2\<rparr>"
    have "covers m1 (KERNEL_VMMMAP + 1) (vma_rb_node p)" by (simp add: covers_def m(3) KERNEL_VMMMAP_def)
    then show ?thesis using vma_free_faults [OF m(1)] m(2) by blast
  qed
  show "\<exists>m. vma_subsystem_init demo_vmm 0 = Some (m, 0) \<and> vma_remove_by_addr m 5 = None"
  proof (rule demo_region)
    fix m c a assume m: "vma_subsystem_init demo_vmm 0 = Some (m, 0)" "vma_inv m c Leaf (objs_of c a) (objs_of c a)"
      "r_tree m = rb_inittree Map.empty"
    have "rd (r_tree m) 31 = None" by (simp add: m(3) rb_inittree_def rd_def)
    then show ?thesis using m(1) vma_free_faults [OF m(2), of 5] by auto
  qed
qed

text \<open>C18. The end of the kernel's region, its base plus 64 TiB, wraps to 0. When a request fills such a region,
  \<^verbatim>\<open>vma_alloc_area\<close> succeeds with an area whose end is 0: \<^verbatim>\<open>vma_search\<close> then finds it for no address and
  dereferences a null pointer for every address below the region.\<close>

theorem vma_alloc_area_wraps:
  assumes "vma_inv m d Leaf U F" "F \<noteq> {}" "n = PAGE_ALIGNUP sz" "n = r_end m - r_start m"
    and "r_end m = 0" "r_start m \<noteq> 0"
  shows "\<exists>m' p. vma_alloc_area m sz fl = Some (m', p) \<and> p \<in> F \<and>
    get_vma m' p = Some \<lparr>vm_start = r_start m, vm_end = 0, vm_pages = 0, vm_flags = fl\<rparr> \<and>
    (\<forall>addr. vma_search m' addr = (if addr < r_start m then None else Some VMA_INVALID_PTR))"
  by (rule vma_alloc_whole_spec [OF assms])

lemma vma_alloc_area_wraps_witness:
  "\<exists>m m' p. vma_subsystem_init demo_vmm 0 = Some (m, 0) \<and> vma_alloc_area m KERNEL_VMMAP_LEN VM_READ = Some (m', p) \<and>
     vma_search m' KERNEL_VMMMAP = Some VMA_INVALID_PTR \<and> vma_search m' 4096 = None"
proof (rule demo_region)
  fix m c a assume m: "vma_subsystem_init demo_vmm 0 = Some (m, 0)" "vma_inv m c Leaf (objs_of c a) (objs_of c a)"
    "r_start m = KERNEL_VMMMAP" "r_end m = KERNEL_VMMMAP + KERNEL_VMMAP_LEN" "card (objs_of c a) = 63"
  have ne: "objs_of c a \<noteq> {}" using m(5) by auto
  have n: "KERNEL_VMMAP_LEN = PAGE_ALIGNUP KERNEL_VMMAP_LEN" "KERNEL_VMMAP_LEN = r_end m - r_start m" "r_end m = 0" "r_start m \<noteq> 0"
    by (simp_all add: m(3,4) PAGE_ALIGNUP_def PAGESIZE_def KERNEL_VMMAP_LEN_def KERNEL_VMMMAP_def)
  have "(4096 :: u64) < KERNEL_VMMMAP" by (simp add: KERNEL_VMMMAP_def)
  with vma_alloc_area_wraps [OF m(2) ne n, of VM_READ] m(1,3) show ?thesis by auto
qed

end
