(* ===== verification/PageTables.thy ===== *)
theory PageTables
  imports Slab
begin

text \<open>
  The page tables of \<^verbatim>\<open>kernel/pagetbl.c\<close> and \<^verbatim>\<open>kernel/pagetbl.h\<close>. A page table is 512 entries at a virtual
  address of the direct map; the state holds the tables by address, the register \<^verbatim>\<open>cr3\<close>, the page
  allocator the tables come from, the log of \<^verbatim>\<open>invlpg\<close> instructions and the bytes that are overwritten at
  the end of booting. A read or write of an entry of an address that holds no page table faults: null,
  \<^verbatim>\<open>KPT_NOT_PRESENT\<close> and the data page behind a large entry among them.
\<close>

section \<open>Constants and address arithmetic\<close>

definition BITRANGE_MASK :: "nat \<Rightarrow> nat \<Rightarrow> u64" where
  "BITRANGE_MASK a b = push_bit (a - b + 1) 1 - 1"

definition page_l4_idx :: "u64 \<Rightarrow> u64" where "page_l4_idx virt = drop_bit 39 virt AND 0x1FF"
definition page_l3_idx :: "u64 \<Rightarrow> u64" where "page_l3_idx virt = drop_bit 30 virt AND 0x1FF"
definition page_l2_idx :: "u64 \<Rightarrow> u64" where "page_l2_idx virt = drop_bit 21 virt AND 0x1FF"
definition page_l1_idx :: "u64 \<Rightarrow> u64" where "page_l1_idx virt = drop_bit 12 virt AND 0x1FF"
definition page_offs_idx :: "u64 \<Rightarrow> u64" where "page_offs_idx virt = virt AND 0xFFF"

definition page_phys_rebase :: "u64 \<Rightarrow> nat \<Rightarrow> u64 \<Rightarrow> u64" where
  "page_phys_rebase phys shift msk = push_bit shift (drop_bit shift phys AND msk)"

definition PT_REBASE :: "u64 \<Rightarrow> u64" where
  "PT_REBASE p = page_phys_rebase p 12 (BITRANGE_MASK 51 12)"

definition PT_ENTRIES :: u64 where "PT_ENTRIES = 512"
definition PT_L1_ENTRYSZ :: u64 where "PT_L1_ENTRYSZ = 4096"
definition PT_L2_ENTRYSZ :: u64 where "PT_L2_ENTRYSZ = PT_L1_ENTRYSZ * PT_ENTRIES"
definition PT_L3_ENTRYSZ :: u64 where "PT_L3_ENTRYSZ = PT_L2_ENTRYSZ * PT_ENTRIES"
definition PT_L4_ENTRYSZ :: u64 where "PT_L4_ENTRYSZ = PT_L3_ENTRYSZ * PT_ENTRIES"
definition PT_L2_ENTRYMASK :: u64 where "PT_L2_ENTRYMASK = PT_L2_ENTRYSZ - 1"
definition PT_L3_ENTRYMASK :: u64 where "PT_L3_ENTRYMASK = PT_L3_ENTRYSZ - 1"
definition PT_L4_ENTRYMASK :: u64 where "PT_L4_ENTRYMASK = PT_L4_ENTRYSZ - 1"

definition get_pagetbl_count_l3 :: "u64 \<Rightarrow> u64" where
  "get_pagetbl_count_l3 n = ((n + PT_L4_ENTRYMASK) AND NOT PT_L4_ENTRYMASK) div PT_L4_ENTRYSZ"
definition get_pagetbl_count_l2 :: "u64 \<Rightarrow> u64" where
  "get_pagetbl_count_l2 n = ((n + PT_L3_ENTRYMASK) AND NOT PT_L3_ENTRYMASK) div PT_L3_ENTRYSZ"
definition get_pagetbl_count_l1 :: "u64 \<Rightarrow> u64" where
  "get_pagetbl_count_l1 n = ((n + PT_L2_ENTRYMASK) AND NOT PT_L2_ENTRYMASK) div PT_L2_ENTRYSZ"

definition PT_FLAG_PRESENT :: u64 where "PT_FLAG_PRESENT = push_bit 0 1"
definition PT_FLAG_WRITABLE :: u64 where "PT_FLAG_WRITABLE = push_bit 1 1"
definition PT_FLAG_USER :: u64 where "PT_FLAG_USER = push_bit 2 1"
definition PT_FLAG_WRITE_THROUGH :: u64 where "PT_FLAG_WRITE_THROUGH = push_bit 3 1"
definition PT_FLAG_PAGECACHE_DISABLE :: u64 where "PT_FLAG_PAGECACHE_DISABLE = push_bit 4 1"
definition PT_FLAG_DIRTY :: u64 where "PT_FLAG_DIRTY = push_bit 5 1"
definition PT_FLAG_PAGESIZE :: u64 where "PT_FLAG_PAGESIZE = push_bit 7 1"

definition KPT_NOT_PRESENT :: u64 where "KPT_NOT_PRESENT = -1"

section \<open>State\<close>

record pgm =
  pt_buddy :: kbuddy
  tables :: "u64 \<rightharpoonup> (u64 \<Rightarrow> u64)"
  cr3 :: u64
  invlpg :: "u64 list"
  pt_bytes :: byte_mem

definition entry :: "pgm \<Rightarrow> u64 \<Rightarrow> u64 \<Rightarrow> u64 option" where
  "entry m t i = (if t = 0 then None else map_option (\<lambda>f. f i) (tables m t))"

definition set_entry :: "pgm \<Rightarrow> u64 \<Rightarrow> u64 \<Rightarrow> u64 \<Rightarrow> pgm option" where
  "set_entry m t i e =
     (if t = 0 then None else map_option (\<lambda>f. m\<lparr>tables := (tables m)(t \<mapsto> f(i := e))\<rparr>) (tables m t))"

definition tlb_invl_page :: "pgm \<Rightarrow> u64 \<Rightarrow> pgm" where
  "tlb_invl_page m vaddr = m\<lparr>invlpg := vaddr # invlpg m\<rparr>"

text \<open>\<^verbatim>\<open>tlb_flush\<close> loads \<^verbatim>\<open>cr3\<close> with its own value.\<close>

definition tlb_flush :: "pgm \<Rightarrow> pgm" where
  "tlb_flush m = m\<lparr>cr3 := cr3 m\<rparr>"

section \<open>The tables on the way to an address\<close>

definition kpt_get_l4 :: "pgm \<Rightarrow> u64" where
  "kpt_get_l4 m = phys_to_virt_pm (PT_REBASE (cr3 m))"

definition kpt_get_l3 :: "pgm \<Rightarrow> u64 \<Rightarrow> u64 \<Rightarrow> u64 option" where
  "kpt_get_l3 m vaddr l4 =
     (if l4 \<noteq> 0 then do { e \<leftarrow> entry m l4 (page_l4_idx vaddr); Some (phys_to_virt_pm (PT_REBASE e)) }
      else do { e \<leftarrow> entry m (kpt_get_l4 m) (page_l4_idx vaddr); Some (phys_to_virt_pm (PT_REBASE e)) })"

definition kpt_get_l2 :: "pgm \<Rightarrow> u64 \<Rightarrow> u64 \<Rightarrow> u64 option" where
  "kpt_get_l2 m vaddr l3 =
     (if l3 \<noteq> 0 then do { e \<leftarrow> entry m l3 (page_l3_idx vaddr); Some (phys_to_virt_pm (PT_REBASE e)) }
      else do {
        pdpt \<leftarrow> kpt_get_l3 m vaddr 0;
        e \<leftarrow> entry m pdpt (page_l3_idx vaddr);
        Some (if e AND PT_FLAG_PRESENT = 0 then KPT_NOT_PRESENT
              else if e AND PT_FLAG_PAGESIZE \<noteq> 0 then 0
              else phys_to_virt_pm (PT_REBASE e)) })"

definition kpt_get_l1 :: "pgm \<Rightarrow> u64 \<Rightarrow> u64 \<Rightarrow> u64 option" where
  "kpt_get_l1 m vaddr l2 =
     (if l2 \<noteq> 0 then do { e \<leftarrow> entry m l2 (page_l2_idx vaddr); Some (phys_to_virt_pm (PT_REBASE e)) }
      else do {
        pd \<leftarrow> kpt_get_l2 m vaddr 0;
        e \<leftarrow> entry m pd (page_l2_idx vaddr);
        Some (if e AND PT_FLAG_PRESENT = 0 then KPT_NOT_PRESENT
              else if e AND PT_FLAG_PAGESIZE \<noteq> 0 then 0
              else phys_to_virt_pm (PT_REBASE e)) })"

text \<open>\<open>return_pt_or_alloc(&t->entries[i])\<close>: the table behind the entry, or a new, cleared one.\<close>

definition return_pt_or_alloc :: "pgm \<Rightarrow> u64 \<Rightarrow> u64 \<Rightarrow> (pgm \<times> u64) option" where
  "return_pt_or_alloc m t i = do {
     pte \<leftarrow> entry m t i;
     if pte AND PT_FLAG_PRESENT = 0 then do {
       (b, p) \<leftarrow> kbud_alloc (pt_buddy m) 0;
       let m = m\<lparr>pt_buddy := b\<rparr>;
       if p = KPAGE_ERR then Some (m, KPAGE_ERR)
       else do {
         let m = m\<lparr>tables := (tables m)(p \<mapsto> (\<lambda>_. 0))\<rparr>;
         m \<leftarrow> set_entry m t i (virt_to_phys_pm p OR PT_FLAG_PRESENT OR PT_FLAG_WRITABLE);
         Some (m, p) } }
     else Some (m, phys_to_virt_pm (PT_REBASE pte)) }"

section \<open>Translation and unmapping\<close>

definition kpt_get_phys :: "pgm \<Rightarrow> u64 \<Rightarrow> u64 option" where
  "kpt_get_phys m vaddr = do {
     e \<leftarrow> entry m (kpt_get_l4 m) (page_l4_idx vaddr);
     if e AND PT_FLAG_PRESENT = 0 then Some KPAGE_ERR
     else do {
       e \<leftarrow> entry m (phys_to_virt_pm (PT_REBASE e)) (page_l3_idx vaddr);
       if e AND PT_FLAG_PRESENT = 0 then Some KPAGE_ERR
       else if e AND PT_FLAG_PAGESIZE \<noteq> 0 then
         Some (page_phys_rebase e 30 (BITRANGE_MASK 51 30) OR (vaddr AND BITRANGE_MASK 29 0))
       else do {
         e \<leftarrow> entry m (phys_to_virt_pm (PT_REBASE e)) (page_l2_idx vaddr);
         if e AND PT_FLAG_PRESENT = 0 then Some KPAGE_ERR
         else if e AND PT_FLAG_PAGESIZE \<noteq> 0 then
           Some (page_phys_rebase e 21 (BITRANGE_MASK 51 21) OR (vaddr AND BITRANGE_MASK 20 0))
         else do {
           e \<leftarrow> entry m (phys_to_virt_pm (PT_REBASE e)) (page_l1_idx vaddr);
           if e AND PT_FLAG_PRESENT = 0 then Some KPAGE_ERR
           else Some (PT_REBASE e OR (vaddr AND BITRANGE_MASK 11 0)) } } } }"

definition kpt_unmap_page :: "pgm \<Rightarrow> u64 \<Rightarrow> pgm option" where
  "kpt_unmap_page m vaddr =
     (if vaddr = 0 then Some m
      else do {
        let valign = PAGE_ALIGNDOWN vaddr;
        l1 \<leftarrow> kpt_get_l1 m valign 0;
        pte \<leftarrow> entry m l1 (page_l1_idx valign);
        m \<leftarrow> set_entry m l1 (page_l1_idx valign) (pte AND NOT PT_FLAG_PRESENT);
        Some (tlb_invl_page m valign) })"

section \<open>The switch to the kernel's own tables\<close>

text \<open>The symbols the linker places, and the values the boot code leaves.\<close>

record kimage =
  begin_sym :: u64
  after_ro :: u64
  kstack_guard :: u64
  kstack_top :: u64
  kphys_start :: u64
  kphys_end :: u64
  prebegin :: u64
  preend :: u64

record bootmem =
  load_addr :: u64
  ram_max :: u64
  reg0_base :: u64
  reg0_frames :: u64

definition kstack_guard_init :: "kimage \<Rightarrow> pgm \<Rightarrow> pgm option" where
  "kstack_guard_init im m = do { m \<leftarrow> kpt_unmap_page m (kstack_guard im); kpt_unmap_page m (kstack_top im) }"

primrec kcode_pages :: "nat \<Rightarrow> u64 \<Rightarrow> kimage \<Rightarrow> pgm \<Rightarrow> u64 \<Rightarrow> u64 \<Rightarrow> (pgm \<times> u64) option" where
  "kcode_pages 0 k im m pt phy = Some (m, phy)"
| "kcode_pages (Suc n) k im m pt phy = do {
     let flags = PT_FLAG_PRESENT;
     let addr = phys_to_virt_of phy;
     let flags = (if addr < begin_sym im \<or> addr \<ge> after_ro im then flags OR PT_FLAG_WRITABLE else flags);
     m \<leftarrow> set_entry m pt k (phy OR flags);
     kcode_pages n (k + 1) im m pt (phy + PT_L1_ENTRYSZ) }"

primrec kcode_l1 :: "nat \<Rightarrow> u64 \<Rightarrow> kimage \<Rightarrow> pgm \<Rightarrow> u64 \<Rightarrow> u64 \<Rightarrow> u64 \<Rightarrow> (pgm \<times> u64) option" where
  "kcode_l1 0 j im m pd offs phy = Some (m, phy)"
| "kcode_l1 (Suc n) j im m pd offs phy = do {
     (m, pt) \<leftarrow> return_pt_or_alloc m pd (page_l2_idx (offs + j * PT_L2_ENTRYSZ));
     (m, phy) \<leftarrow> kcode_pages (unat PT_ENTRIES) 0 im m pt phy;
     kcode_l1 n (j + 1) im m pd offs phy }"

primrec kcode_l2 :: "nat \<Rightarrow> u64 \<Rightarrow> u64 \<Rightarrow> kimage \<Rightarrow> pgm \<Rightarrow> u64 \<Rightarrow> u64 \<Rightarrow> u64 \<Rightarrow> (pgm \<times> u64) option" where
  "kcode_l2 0 i l1_count im m l3 offs phy = Some (m, phy)"
| "kcode_l2 (Suc n) i l1_count im m l3 offs phy = do {
     (m, pd) \<leftarrow> return_pt_or_alloc m l3 (page_l3_idx (offs + i * PT_L3_ENTRYSZ));
     (m, phy) \<leftarrow> kcode_l1 (unat l1_count) 0 im m pd offs phy;
     kcode_l2 n (i + 1) l1_count im m l3 offs phy }"

definition remap_bootmem_kcode_pages :: "kimage \<Rightarrow> pgm \<Rightarrow> u64 \<Rightarrow> u64 \<Rightarrow> u64 \<Rightarrow> pgm option" where
  "remap_bootmem_kcode_pages im m l4 offs kernsz = do {
     let l1_count = ((kernsz + PT_L2_ENTRYMASK) AND NOT PT_L2_ENTRYMASK) div PT_L2_ENTRYSZ;
     let l2_count = ((kernsz + PT_L3_ENTRYMASK) AND NOT PT_L3_ENTRYMASK) div PT_L3_ENTRYSZ;
     (m, l3) \<leftarrow> return_pt_or_alloc m l4 (page_l4_idx offs);
     (m, _) \<leftarrow> kcode_l2 (unat l2_count) 0 l1_count im m l3 offs 0;
     Some m }"

primrec dmap_l3 :: "nat \<Rightarrow> pgm \<Rightarrow> u64 \<Rightarrow> u64 \<Rightarrow> u64 \<Rightarrow> (pgm \<times> u64 \<times> u64) option" where
  "dmap_l3 0 m pdpt phys dmap = Some (m, phys, dmap)"
| "dmap_l3 (Suc n) m pdpt phys dmap = do {
     m \<leftarrow> set_entry m pdpt (page_l3_idx dmap) (phys OR (PT_FLAG_PRESENT OR PT_FLAG_WRITABLE OR PT_FLAG_PAGESIZE));
     dmap_l3 n m pdpt (phys + PT_L3_ENTRYSZ) (dmap + PT_L3_ENTRYSZ) }"

primrec dmap_l4 :: "nat \<Rightarrow> pgm \<Rightarrow> u64 \<Rightarrow> u64 \<Rightarrow> u64 \<Rightarrow> u64 \<Rightarrow> pgm option" where
  "dmap_l4 0 m l4 rem phys dmap = Some m"
| "dmap_l4 (Suc n) m l4 rem phys dmap = do {
     (m, pdpt) \<leftarrow> return_pt_or_alloc m l4 (page_l4_idx dmap);
     let count = (if rem > 512 then 512 else rem);
     (m, phys, dmap) \<leftarrow> dmap_l3 (unat count) m pdpt phys dmap;
     dmap_l4 n m l4 (rem - count) phys dmap }"

definition remap_bootmem_dmap_pages :: "pgm \<Rightarrow> u64 \<Rightarrow> u64 \<Rightarrow> u64 \<Rightarrow> pgm option" where
  "remap_bootmem_dmap_pages m l4 dmap ramsz =
     (let pt_l3_count = ((ramsz + PT_L4_ENTRYMASK) AND NOT PT_L4_ENTRYMASK) div PT_L4_ENTRYSZ;
          pt_l2_count = ((ramsz + PT_L3_ENTRYMASK) AND NOT PT_L3_ENTRYMASK) div PT_L3_ENTRYSZ
      in dmap_l4 (unat pt_l3_count) m l4 pt_l2_count 0 dmap)"

definition fill_bytes :: "byte_mem \<Rightarrow> u64 \<Rightarrow> u8 \<Rightarrow> u64 \<Rightarrow> byte_mem" where
  "fill_bytes b a c n = (\<lambda>x. if x - a < n then c else b x)"

definition reallocate_bootmem_pages :: "kimage \<Rightarrow> bootmem \<Rightarrow> pgm \<Rightarrow> pgm option" where
  "reallocate_bootmem_pages im info m = do {
     let kernsz = (kphys_end im - kphys_start im) + load_addr info;
     let len = push_bit 12 (reg0_frames info);
     let vbase = phys_to_virt_pm (reg0_base info);
     let dmap = get_kernel_phmap;
     let offs = get_kernel_offs;
     (b, pml4) \<leftarrow> kbud_alloc (pt_buddy m) 0;
     let m = m\<lparr>pt_buddy := b\<rparr>;
     if pml4 = KPAGE_ERR then Some m
     else do {
       let m = m\<lparr>tables := (tables m)(pml4 \<mapsto> (\<lambda>_. 0))\<rparr>;
       m \<leftarrow> remap_bootmem_kcode_pages im m pml4 offs kernsz;
       m \<leftarrow> remap_bootmem_dmap_pages m pml4 dmap (ram_max info);
       let m = m\<lparr>cr3 := virt_to_phys_pm pml4\<rparr>;
       b \<leftarrow> kbud_free_range (pt_buddy m) vbase len;
       let m = m\<lparr>pt_buddy := b\<rparr>;
       let preinit_memory = preend im - prebegin im;
       let base = phys_to_virt_of (prebegin im);
       let m = m\<lparr>pt_bytes := fill_bytes (pt_bytes m) base (- 1) preinit_memory\<rparr>;
       b \<leftarrow> kbud_free_range (pt_buddy m) base preinit_memory;
       Some (m\<lparr>pt_buddy := b\<rparr>) } }"

definition kern_uhalf_init :: "kimage \<Rightarrow> bootmem \<Rightarrow> pgm \<Rightarrow> (pgm \<times> int) option" where
  "kern_uhalf_init im info m = do {
     m \<leftarrow> reallocate_bootmem_pages im info m;
     m \<leftarrow> kstack_guard_init im m;
     Some (m, 0) }"

end
