(* ===== verification/PageWalk.thy ===== *)
theory PageWalk
  imports PageTables
begin

text \<open>
  The walk through the page tables in a form that is uniform in the level, the tree of tables behind
  \<^verbatim>\<open>cr3\<close> by the path of indices that leads to each, and the two changes the kernel makes to it: a fresh,
  cleared table is linked behind an entry that is not present, and an entry of a last-level table is written.
\<close>

section \<open>Levels\<close>

definition present :: "u64 \<Rightarrow> bool" where "present e \<longleftrightarrow> bit e 0"
definition large :: "u64 \<Rightarrow> bool" where "large e \<longleftrightarrow> bit e 7"
definition table_ptr :: "u64 \<Rightarrow> u64" where "table_ptr e = phys_to_virt_pm (PT_REBASE e)"

text \<open>The index at a level: 0 for the last one (4 KiB pages), 3 for the one behind \<^verbatim>\<open>cr3\<close>.\<close>

definition idx :: "nat \<Rightarrow> u64 \<Rightarrow> u64" where
  "idx k va = drop_bit (12 + 9 * k) va AND 0x1FF"

primrec pwalk :: "pgm \<Rightarrow> u64 \<Rightarrow> nat \<Rightarrow> u64 \<Rightarrow> u64 option" where
  "pwalk m va 0 t = do {
     e \<leftarrow> entry m t (idx 0 va);
     Some (if \<not> present e then KPAGE_ERR else PT_REBASE e OR (va AND 0xFFF)) }"
| "pwalk m va (Suc k) t = do {
     e \<leftarrow> entry m t (idx (Suc k) va);
     if \<not> present e then Some KPAGE_ERR
     else if k < 2 \<and> large e then
       Some (page_phys_rebase e (12 + 9 * Suc k) (BITRANGE_MASK 51 (12 + 9 * Suc k)) OR (va AND mask (12 + 9 * Suc k)))
     else pwalk m va k (table_ptr e) }"

lemma flag_tests: "e AND PT_FLAG_PRESENT = 0 \<longleftrightarrow> \<not> present e" "e AND PT_FLAG_PAGESIZE = 0 \<longleftrightarrow> \<not> large e"
proof -
  have g: "e AND push_bit n 1 = 0 \<longleftrightarrow> \<not> bit e n" if "n < 64" for n
  proof
    assume "e AND push_bit n 1 = 0"
    then have "\<not> bit (e AND push_bit n 1) n" by simp
    then show "\<not> bit e n" using that by (simp add: bit_simps)
  next
    assume "\<not> bit e n"
    then show "e AND push_bit n 1 = 0" by (intro bit_word_eqI) (auto simp: bit_simps)
  qed
  show "e AND PT_FLAG_PRESENT = 0 \<longleftrightarrow> \<not> present e" "e AND PT_FLAG_PAGESIZE = 0 \<longleftrightarrow> \<not> large e"
    using g [of 0] g [of 7] by (simp_all add: PT_FLAG_PRESENT_def PT_FLAG_PAGESIZE_def present_def large_def)
qed

lemma idx_simps: "page_l4_idx va = idx 3 va" "page_l3_idx va = idx 2 va" "page_l2_idx va = idx 1 va" "page_l1_idx va = idx 0 va"
  by (simp_all add: idx_def page_l4_idx_def page_l3_idx_def page_l2_idx_def page_l1_idx_def)

lemma low_masks: "BITRANGE_MASK 29 0 = mask 30" "BITRANGE_MASK 20 0 = mask 21" "BITRANGE_MASK 11 0 = 0xFFF"
  by (simp_all add: BITRANGE_MASK_def mask_eq_exp_minus_1)

lemma kpt_get_phys_walk: "kpt_get_phys m va = pwalk m va 3 (kpt_get_l4 m)"
proof -
  have n: "pwalk m va 3 = pwalk m va (Suc (Suc (Suc 0)))" by (simp add: numeral_3_eq_3)
  show ?thesis unfolding n pwalk.simps kpt_get_phys_def flag_tests idx_simps low_masks table_ptr_def [symmetric]
    by (simp add: numeral_2_eq_2 [symmetric] numeral_3_eq_3 [symmetric] low_masks if_distrib [of Some] cong: if_cong)
qed

section \<open>The tree of tables\<close>

text \<open>The table at the end of a path of indices, the last index first.\<close>

fun table_at :: "pgm \<Rightarrow> u64 list \<Rightarrow> u64 option" where
  "table_at m [] = Some (kpt_get_l4 m)"
| "table_at m (i # p) = do {
     t \<leftarrow> table_at m p;
     e \<leftarrow> entry m t i;
     if present e \<and> (p \<noteq> [] \<longrightarrow> \<not> large e) then Some (table_ptr e) else None }"

definition tpath :: "u64 \<Rightarrow> nat \<Rightarrow> u64 list" where
  "tpath va k = map (\<lambda>j. idx j va) [Suc k..<4]"

lemma tpath_length: "length (tpath va k) = 3 - k"
  by (simp add: tpath_def)

lemma tpath_simps: "tpath va 3 = []" "k < 3 \<Longrightarrow> tpath va k = idx (Suc k) va # tpath va (Suc k)"
  by (simp_all add: tpath_def upt_rec [of "Suc k" 4])

lemma tpath_Nil: "k \<le> 3 \<Longrightarrow> tpath va k = [] \<longleftrightarrow> k = 3"
  by (simp add: tpath_def)

definition tree_inj :: "pgm \<Rightarrow> bool" where
  "tree_inj m \<longleftrightarrow> (\<forall>p q t. length p \<le> 3 \<and> length q \<le> 3 \<and> table_at m p = Some t \<and> table_at m q = Some t \<longrightarrow> p = q)"

lemma tree_injD: "tree_inj m \<Longrightarrow> table_at m p = Some t \<Longrightarrow> table_at m q = Some t \<Longrightarrow> length p \<le> 3 \<Longrightarrow> length q \<le> 3 \<Longrightarrow> p = q"
  unfolding tree_inj_def by blast

text \<open>Walks that read the same entries give the same result.\<close>

lemma pwalk_next:
  assumes "k < 3" "table_at m (tpath va (Suc k)) = Some t" "entry m t (idx (Suc k) va) = Some e" "present e" "\<not> (k < 2 \<and> large e)"
  shows "table_at m (tpath va k) = Some (table_ptr e)"
  using assms tpath_Nil [of "Suc k" va] by (simp add: tpath_simps(2))

lemma pwalk_cong:
  "\<lbrakk>\<And>j s. j \<le> k \<Longrightarrow> table_at m (tpath va j) = Some s \<Longrightarrow> entry m' s (idx j va) = entry m s (idx j va);
    k \<le> 3; table_at m (tpath va k) = Some t\<rbrakk> \<Longrightarrow> pwalk m' va k t = pwalk m va k t"
proof (induction k arbitrary: t)
  case 0
  from "0.prems"(1) [OF order_refl "0.prems"(3)] show ?case by simp
next
  case (Suc k)
  have e: "entry m' t (idx (Suc k) va) = entry m t (idx (Suc k) va)" using Suc.prems(1) [OF order_refl Suc.prems(3)] .
  show ?case
  proof (cases "entry m t (idx (Suc k) va)")
    case None
    then show ?thesis using e by simp
  next
    case (Some x)
    show ?thesis
    proof (cases "present x \<and> \<not> (k < 2 \<and> large x)")
      case True
      have "pwalk m' va k (table_ptr x) = pwalk m va k (table_ptr x)"
        using True Some Suc.prems by (intro Suc.IH pwalk_next) auto
      then show ?thesis using e Some True by auto
    next
      case False
      then show ?thesis using e Some by auto
    qed
  qed
qed

section \<open>Writing the entries of one table\<close>

lemma entry_upd:
  assumes "tables m t = Some f" "t \<noteq> 0"
  shows "entry (m\<lparr>tables := (tables m)(t \<mapsto> g)\<rparr>) s i = (if s = t then Some (g i) else entry m s i)"
  using assms by (simp add: entry_def)

lemma l4_tables [simp]: "kpt_get_l4 (m\<lparr>tables := x\<rparr>) = kpt_get_l4 m" "kpt_get_l4 (m\<lparr>pt_buddy := b\<rparr>) = kpt_get_l4 m"
  by (simp_all add: kpt_get_l4_def)

lemma leaf_tree:
  assumes inj: "tree_inj m" and t: "table_at m pt = Some t" "length pt = 3" "tables m t = Some f" "t \<noteq> 0"
    and m': "m' = m\<lparr>tables := (tables m)(t \<mapsto> g)\<rparr>"
  shows "length p \<le> 3 \<Longrightarrow> table_at m' p = table_at m p"
proof (induction p)
  case Nil
  then show ?case by (simp add: m')
next
  case (Cons i p)
  then have "table_at m p \<noteq> Some t" using tree_injD [OF inj t(1), of p] t(2) by auto
  then show ?case using Cons entry_upd [OF t(3,4), of g, folded m'] by (cases "table_at m p") auto
qed

lemma leaf_walk:
  assumes inj: "tree_inj m" and t: "table_at m pt = Some t" "length pt = 3" "tables m t = Some f" "t \<noteq> 0"
    and o: "tpath va 0 \<noteq> pt \<or> g (idx 0 va) = f (idx 0 va)"
  shows "kpt_get_phys (m\<lparr>tables := (tables m)(t \<mapsto> g)\<rparr>) va = kpt_get_phys m va"
  unfolding kpt_get_phys_walk l4_tables
proof (rule pwalk_cong)
  fix j s assume j: "j \<le> 3" "table_at m (tpath va j) = Some s"
  show "entry (m\<lparr>tables := (tables m)(t \<mapsto> g)\<rparr>) s (idx j va) = entry m s (idx j va)"
  proof (cases "s = t")
    case True
    then have p: "tpath va j = pt" using tree_injD [OF inj j(2), of pt] t(1,2) tpath_length [of va j] by simp
    then have "j = 0" using t(2) tpath_length [of va j] by simp
    then show ?thesis using o p True t(3,4) by (simp add: entry_upd [OF t(3,4)]) (simp add: entry_def)
  qed (simp add: entry_upd [OF t(3,4)])
qed (simp_all add: tpath_simps)

lemma leaf_hit:
  assumes "table_at m (tpath va 0) = Some t" "entry m t (idx 0 va) = Some e" "present e"
  shows "kpt_get_phys m va = Some (PT_REBASE e OR (va AND 0xFFF))"
proof -
  have "k \<le> 3 \<Longrightarrow> table_at m (tpath va k) = Some s \<Longrightarrow> pwalk m va k s = pwalk m va 0 t" for k s
  proof (induction k arbitrary: s)
    case 0
    then show ?case using assms(1) by simp
  next
    case (Suc k)
    from assms(1) have "table_at m (tpath va k) \<noteq> None"
    proof (rule contrapos_pn)
      assume n: "table_at m (tpath va k) = None"
      have "j \<le> k \<Longrightarrow> table_at m (tpath va (k - j)) = None" for j
      proof (induction j)
        case 0
        then show ?case using n by simp
      next
        case (Suc j)
        then have "tpath va (k - Suc j) = idx (k - j) va # tpath va (k - j)"
          using tpath_simps(2) [of "k - Suc j" va] \<open>Suc k \<le> 3\<close> by (simp add: Suc_diff_Suc)
        then show ?case using Suc by simp
      qed
      from this [of k] show "table_at m (tpath va 0) \<noteq> Some t" by simp
    qed
    then obtain s' where s': "table_at m (tpath va k) = Some s'" by auto
    then obtain x where x: "entry m s (idx (Suc k) va) = Some x" "present x" "tpath va (Suc k) \<noteq> [] \<longrightarrow> \<not> large x" "s' = table_ptr x"
      using Suc.prems by (auto simp: tpath_simps(2) split: if_splits bind_splits)
    have "\<not> (k < 2 \<and> large x)" using x(3) Suc.prems(1) tpath_Nil [of "Suc k" va] by auto
    then show ?case using Suc.IH [OF _ s'] Suc.prems(1) x by auto
  qed
  from this [of 3] show ?thesis using assms(2,3) by (simp add: kpt_get_phys_walk tpath_simps)
qed

section \<open>Linking a fresh table\<close>

text \<open>The entry \<open>i\<close> of the table \<open>s\<close> at path \<open>ps\<close> is not present; the cleared page \<open>q\<close> is linked there.\<close>

definition link_table :: "pgm \<Rightarrow> u64 \<Rightarrow> u64 \<Rightarrow> u64 \<Rightarrow> u64 \<Rightarrow> (u64 \<Rightarrow> u64) \<Rightarrow> pgm" where
  "link_table m q s i e f = m\<lparr>tables := (tables m)(q \<mapsto> (\<lambda>_. 0), s \<mapsto> f(i := e))\<rparr>"

lemma link_entry:
  assumes "s \<noteq> 0" "q \<noteq> 0" "q \<noteq> s" "tables m s = Some f"
  shows "entry (link_table m q s i e f) t j =
    (if t = s then Some (if j = i then e else f j) else if t = q then Some 0 else entry m t j)"
  using assms by (simp add: link_table_def entry_def)

lemma link_tree:
  assumes inj: "tree_inj m" and s: "table_at m ps = Some s" "length ps \<le> 2" "tables m s = Some f" "s \<noteq> 0"
    and q: "q \<noteq> 0" "\<forall>p. length p \<le> 3 \<longrightarrow> table_at m p \<noteq> Some q" and np: "\<not> present (f i)"
    and e: "present e" "\<not> large e" "table_ptr e = q"
  shows "length p \<le> 3 \<Longrightarrow> table_at (link_table m q s i e f) p = (if p = i # ps then Some q else table_at m p)"
proof (induction p)
  case Nil
  then show ?case by (simp add: link_table_def)
next
  case (Cons j p)
  have qs: "q \<noteq> s" using q(2) [rule_format, of ps] s(1,2) by auto
  note en = link_entry [OF s(4) q(1) qs s(3)]
  have z: "\<not> present 0" by (simp add: present_def)
  have ih: "table_at (link_table m q s i e f) p = (if p = i # ps then Some q else table_at m p)" using Cons by simp
  show ?case
  proof (cases "p = i # ps")
    case True
    have "table_at m p = None" using True s np by (simp add: entry_def)
    then show ?thesis using True ih en qs z by simp
  next
    case False
    show ?thesis
    proof (cases "table_at m p")
      case None
      have "p \<noteq> ps" using None s(1) by auto
      then show ?thesis using None ih False by simp
    next
      case (Some t)
      have t: "t \<noteq> q" "t = s \<longleftrightarrow> p = ps" using Some q(2) [rule_format, of p] Cons.prems s(1,2) tree_injD [OF inj s(1), of p] by auto
      have es: "entry m s j = Some (f j)" using s(3,4) by (simp add: entry_def)
      show ?thesis using Some ih False en t es e by auto
    qed
  qed
qed

lemma link_inj:
  assumes inj: "tree_inj m" and s: "table_at m ps = Some s" "length ps \<le> 2" "tables m s = Some f" "s \<noteq> 0"
    and q: "q \<noteq> 0" "\<forall>p. length p \<le> 3 \<longrightarrow> table_at m p \<noteq> Some q" and np: "\<not> present (f i)"
    and e: "present e" "\<not> large e" "table_ptr e = q"
  shows "tree_inj (link_table m q s i e f)"
  using link_tree [OF assms] inj q(2) unfolding tree_inj_def by (simp split: if_splits) metis

lemma link_walk:
  assumes inj: "tree_inj m" and s: "table_at m ps = Some s" "length ps \<le> 2" "tables m s = Some f" "s \<noteq> 0"
    and q: "q \<noteq> 0" "\<forall>p. length p \<le> 3 \<longrightarrow> table_at m p \<noteq> Some q" and np: "\<not> present (f i)"
    and e: "present e" "\<not> large e" "table_ptr e = q"
  shows "kpt_get_phys (link_table m q s i e f) va = kpt_get_phys m va"
proof -
  let ?m = "link_table m q s i e f"
  have qs: "q \<noteq> s" using q(2) [rule_format, of ps] s(1,2) by auto
  note en = link_entry [OF s(4) q(1) qs s(3)]
  have z: "pwalk ?m va k q = Some KPAGE_ERR" for k using en qs by (cases k) (simp_all add: present_def)
  have "k \<le> 3 \<Longrightarrow> table_at m (tpath va k) = Some t \<Longrightarrow> pwalk ?m va k t = pwalk m va k t" for k t
  proof (induction k arbitrary: t)
    case 0
    have "t \<noteq> q" using 0 q(2) [rule_format, of "tpath va 0"] by (auto simp: tpath_length)
    moreover have "t \<noteq> s" using tree_injD [OF inj s(1), of "tpath va 0"] 0 s(2) tpath_length [of va 0] by auto
    ultimately show ?case using en by simp
  next
    case (Suc k)
    have l: "length (tpath va (Suc k)) \<le> 3" by (simp add: tpath_length)
    have tq: "t \<noteq> q" using Suc.prems q(2) [rule_format, OF l] by auto
    show ?case
    proof (cases "t = s \<and> idx (Suc k) va = i")
      case True
      then have "entry m t (idx (Suc k) va) = Some (f i)" using s(3,4) by (simp add: entry_def)
      then have "pwalk m va (Suc k) t = Some KPAGE_ERR" using np by simp
      moreover have "pwalk ?m va (Suc k) t = Some KPAGE_ERR" using True en e z by simp
      ultimately show ?thesis by simp
    next
      case False
      then have ee: "entry ?m t (idx (Suc k) va) = entry m t (idx (Suc k) va)"
        using tq en s(3,4) by (auto simp: entry_def)
      show ?thesis
      proof (cases "entry m t (idx (Suc k) va)")
        case None
        then show ?thesis using ee by simp
      next
        case (Some x)
        show ?thesis
        proof (cases "present x \<and> \<not> (k < 2 \<and> large x)")
          case True
          have "pwalk ?m va k (table_ptr x) = pwalk m va k (table_ptr x)"
            using True Some Suc.prems by (intro Suc.IH pwalk_next) auto
          then show ?thesis using ee Some True by auto
        next
          case False
          then show ?thesis using ee Some by auto
        qed
      qed
    qed
  qed
  from this [of 3 "kpt_get_l4 m"] show ?thesis by (simp add: kpt_get_phys_walk tpath_simps link_table_def)
qed

end
