(* ===== verification/PagePool.thy ===== *)
theory PagePool
  imports BuddyInv ObjectPool
begin

text \<open>
  The first region of the page allocator as a pool of single pages: the laws of \<open>object_pool\<close> hold for
  \<^verbatim>\<open>kbud_alloc(BUDDY_ORDER_4K)\<close>, and every page lies at a multiple of its size in physical memory.
\<close>


section \<open>Frames as addresses\<close>

definition page_ok :: "u64 \<Rightarrow> bool" where
  "page_ok a \<longleftrightarrow> 4096 dvd unat (virt_to_phys_pm a) \<and> unat (virt_to_phys_pm a) < 2 ^ 52"

definition frames :: "slave_buddy \<Rightarrow> nat set \<Rightarrow> u64 set" where
  "frames s A = faddr s ` (A \<inter> {..<unat (total_pages s)})"

lemma faddr_phys:
  assumes "geom s R" "n < R"
  shows "unat (virt_to_phys_pm (faddr s n)) = unat (mbase s) + 4096 * n"
  using unat_frame [OF assms(1)] assms by (simp add: faddr_def)

lemma faddr_page_ok: "geom s R \<Longrightarrow> n < R \<Longrightarrow> page_ok (faddr s n)"
proof -
  assume g: "geom s R" and n: "n < R"
  have "(2 :: nat) ^ 12 dvd 2 ^ 22" by (intro le_imp_power_dvd) simp
  moreover have "2 ^ 22 dvd unat (mbase s)" using g by (simp add: geom_def)
  ultimately have "2 ^ 12 dvd unat (mbase s)" by (rule dvd_trans)
  then have d: "4096 dvd unat (mbase s) + 4096 * n" by simp
  have "4096 * n < 4096 * R" using n by simp
  then have "unat (mbase s) + 4096 * n < 2 ^ 46" using g by (simp add: geom_def)
  then show "page_ok (faddr s n)" using d by (simp add: page_ok_def faddr_phys [OF g n])
qed

section \<open>The page allocator as a pool of pages\<close>

definition page_pool :: "kbuddy \<Rightarrow> u64 set \<Rightarrow> u64 set \<Rightarrow> bool" where
  "page_pool b U F \<longleftrightarrow> (\<exists>s R Fl. get_slave b (regions b ! 0) = Some s \<and> region_inv b s R Fl \<and> regions b ! 0 \<noteq> KPAGE_ERR \<and>
     0 < unat (region_count b) \<and> unat (region_count b) \<le> length (regions b) \<and>
     U = frames s UNIV \<and> F = frames s (free_frames Fl))"

lemma page_pool_alloc:
  assumes h: "page_pool b U F" and ne: "F \<noteq> {}"
  shows "\<exists>b' x. kbud_alloc b 0 = Some (b', x) \<and> x \<in> F \<and> page_pool b' U (F - {x}) \<and> () = ()"
proof -
  from h obtain s R Fl where s: "get_slave b (regions b ! 0) = Some s" "region_inv b s R Fl" "regions b ! 0 \<noteq> KPAGE_ERR"
    and c: "0 < unat (region_count b)" "unat (region_count b) \<le> length (regions b)"
    and U: "U = frames s UNIV" and F: "F = frames s (free_frames Fl)" unfolding page_pool_def by blast
  have g: "geom s R" using s(2) by (rule region_invD)
  have tR: "unat (total_pages s) \<le> R" using g by (simp add: geom_def)
  from ne F obtain x where "x \<in> free_frames Fl" by (auto simp: frames_def)
  then obtain j k where "j < 11" "k \<in> set (Fl j)" by (auto simp: free_frames_def)
  then have j: "j \<le> 10" "Fl j \<noteq> []" by auto
  from alloc_region_some [OF s(1,2) _ s(3) _ j, of 0] obtain b' s' F' n where
    a: "alloc_in_region b (regions b ! 0) 0 = Some (b', Some (faddr s n))" "get_slave b' (regions b ! 0) = Some s'"
    "region_inv b' s' R F'" "same_geom s s'" "same_mem b b'" "held s' F' 0 n" "free_frames F' \<union> fr 0 n = free_frames Fl" by auto
  obtain d where d: "unat (region_count b) = Suc d" using c(1) by (cases "unat (region_count b)") auto
  have nt: "nth_opt (regions b) 0 = Some (regions b ! 0)" using c(2) d by (intro nth_opt_in) linarith
  have run: "kbud_alloc b 0 = Some (b', faddr s n)"
    using a(1) nt by (simp add: kbud_alloc_def d PFRAME_MAX_ORDER_def)
  have f0: "fr 0 n = {n}" by (auto simp: fr_def)
  have n: "n < unat (total_pages s)" "n \<notin> free_frames F'"
    using held_bounds(2) [OF a(3,6)] a(4,6) f0 by (auto simp: held_def same_geom_def)
  have ff: "frames s' A = frames s A" for A using a(4) by (simp add: frames_def same_geom_def faddr_def)
  have fn: "free_frames Fl = insert n (free_frames F')" using a(7) f0 by auto
  have "faddr s n \<notin> frames s (free_frames F')"
  proof
    assume "faddr s n \<in> frames s (free_frames F')"
    then obtain x where x: "x \<in> free_frames F'" "x < unat (total_pages s)" "faddr s n = faddr s x" by (auto simp: frames_def)
    have "n = x" by (rule faddr_inj [OF g, THEN iffD1, OF _ _ x(3)]) (use n(1) x(2) tR in linarith)+
    with x(1) n(2) show False by simp
  qed
  then have rest: "frames s (free_frames F') = F - {faddr s n}" using n(1) by (auto simp: F fn frames_def)
  have "faddr s n \<in> F" using n(1) by (simp add: F fn frames_def)
  moreover have "page_pool b' U (F - {faddr s n})"
    unfolding page_pool_def U rest [symmetric] using a(2,3,5) s(3) c
    by (intro exI [of _ s'] exI [of _ R] exI [of _ F']) (simp add: ff same_mem_def)
  ultimately show ?thesis using run by blast
qed

lemma page_pool_ok:
  assumes "page_pool b U F"
  shows "finite F \<and> F \<subseteq> U \<and> 0 \<notin> U \<and> KPAGE_ERR \<notin> U"
proof -
  from assms obtain s R Fl where g: "geom s R" and U: "U = frames s UNIV" and F: "F = frames s (free_frames Fl)"
    unfolding page_pool_def by (blast dest: region_invD)
  have tR: "unat (total_pages s) \<le> R" using g by (simp add: geom_def)
  have "a \<noteq> 0 \<and> a \<noteq> KPAGE_ERR" if "a \<in> U" for a
    using that faddr_ok [OF g] tR unfolding U frames_def by (auto simp: image_iff)
  then have "0 \<notin> U" "KPAGE_ERR \<notin> U" by blast+
  moreover have "finite F" "F \<subseteq> U" by (auto simp: U F frames_def)
  ultimately show ?thesis by simp
qed

lemma page_pool_pages:
  assumes "page_pool b U F" "a \<in> U"
  shows "page_ok a"
proof -
  from assms obtain s R Fl where g: "geom s R" and U: "U = frames s UNIV"
    unfolding page_pool_def by (blast dest: region_invD)
  have "unat (total_pages s) \<le> R" using g by (simp add: geom_def)
  then show ?thesis using assms(2) faddr_page_ok [OF g] by (auto simp: U frames_def)
qed

interpretation pages: object_pool page_pool "\<lambda>b. kbud_alloc b 0" "\<lambda>_. ()"
  by unfold_locales (fact page_pool_alloc page_pool_ok)+

end
