(* ===== verification/PageMap.thy ===== *)
theory PageMap
  imports PageWalk PagePool
begin

text \<open>
  The invariant of the page tables (the tables behind \<^verbatim>\<open>cr3\<close> form a tree, none of them a free page) and
  what a call of \<^verbatim>\<open>return_pt_or_alloc\<close> or a write to a last-level entry does to it: page numbers and the
  indices they are taken apart into, the entries' bits, and the frame of each change, that is which
  translations stay as they were.
\<close>

section \<open>Page numbers\<close>

definition pageno :: "u64 \<Rightarrow> nat" where "pageno w = unat w div 4096"
definition pg :: "nat \<Rightarrow> u64" where "pg N = of_nat (4096 * N)"
definition pidx :: "nat \<Rightarrow> nat \<Rightarrow> u64" where "pidx k N = of_nat (N div 2 ^ (9 * k) mod 512)"
definition ppath :: "nat \<Rightarrow> nat \<Rightarrow> u64 list" where "ppath N k = map (\<lambda>j. pidx j N) [Suc k..<4]"

lemma and_mask_nat: "unat (w AND 0x1FF) = unat w mod 512" for w :: u64
proof -
  have "w AND 0x1FF = take_bit 9 w" by (simp add: take_bit_eq_mask mask_eq_exp_minus_1)
  then show ?thesis by (simp add: unsigned_take_bit_eq take_bit_nat_def)
qed

lemma idx_pageno: "idx k w = pidx k (pageno w)"
proof -
  have "unat (idx k w) = unat w div 2 ^ (12 + 9 * k) mod 512"
    unfolding idx_def and_mask_nat by (simp add: unat_drop)
  also have "\<dots> = pageno w div 2 ^ (9 * k) mod 512"
    by (simp add: pageno_def power_add div_mult2_eq)
  finally have "unat (idx k w) = pageno w div 2 ^ (9 * k) mod 512" .
  moreover have "idx k w = of_nat (unat (idx k w))" by simp
  ultimately show ?thesis by (simp add: pidx_def)
qed

lemma tpath_pageno: "tpath w k = ppath (pageno w) k"
  by (simp add: tpath_def ppath_def idx_pageno)

lemma pidx_inject: "pidx k N = pidx k M \<longleftrightarrow> N div 2 ^ (9 * k) mod 512 = M div 2 ^ (9 * k) mod 512"
proof
  assume "pidx k N = pidx k M"
  moreover have "unat (pidx k N) = N div 2 ^ (9 * k) mod 512" for N
    unfolding pidx_def by (rule unat_of_nat64) (simp add: less_trans [OF mod_less_divisor])
  ultimately show "N div 2 ^ (9 * k) mod 512 = M div 2 ^ (9 * k) mod 512" by metis
qed (simp add: pidx_def)

lemma ppath_Cons: "k < 3 \<Longrightarrow> ppath N k = pidx (Suc k) N # ppath N (Suc k)"
  by (simp add: ppath_def upt_rec [of "Suc k" 4])

lemma ppath_simps: "ppath N 3 = []" "length (ppath N k) = 3 - k"
  by (simp_all add: ppath_def)

lemma ppath_same:
  assumes "N div 2 ^ (9 * Suc k) = M div 2 ^ (9 * Suc k)"
  shows "ppath N k = ppath M k"
proof -
  have "pidx j N = pidx j M" if "Suc k \<le> j" for j
  proof -
    have "9 * j = 9 * Suc k + 9 * (j - Suc k)" using that by simp
    then have "x div 2 ^ (9 * j) = x div 2 ^ (9 * Suc k) div 2 ^ (9 * (j - Suc k))" for x :: nat
      by (simp only: power_add div_mult2_eq)
    then show ?thesis using assms by (simp add: pidx_def)
  qed
  then show ?thesis by (simp add: ppath_def)
qed

lemma digits_eq:
  fixes N M :: nat
  assumes "N mod 512 = M mod 512" "N div 512 mod 512 = M div 512 mod 512"
    "N div 262144 mod 512 = M div 262144 mod 512" "N div 134217728 mod 512 = M div 134217728 mod 512"
  shows "N mod 2 ^ 36 = M mod 2 ^ 36"
proof -
  have e: "x mod 2 ^ 36 = x mod 512 + 512 * (x div 512 mod 512) + 262144 * (x div 262144 mod 512) +
      134217728 * (x div 134217728 mod 512)" for x :: nat
  proof -
    have "x mod (512 * (512 * (512 * 512))) = 512 * (x div 512 mod (512 * (512 * 512))) + x mod 512" by (rule mod_mult2_eq)
    moreover have "x div 512 mod (512 * (512 * 512)) = 512 * (x div 512 div 512 mod (512 * 512)) + x div 512 mod 512" by (rule mod_mult2_eq)
    moreover have "x div 512 div 512 mod (512 * 512) = 512 * (x div 512 div 512 div 512 mod 512) + x div 512 div 512 mod 512" by (rule mod_mult2_eq)
    ultimately show ?thesis by (simp add: div_mult2_eq [symmetric])
  qed
  show ?thesis unfolding e using assms by simp
qed

lemma page_distinct:
  assumes "N mod 2 ^ 36 \<noteq> M mod 2 ^ 36"
  shows "ppath N 0 \<noteq> ppath M 0 \<or> pidx 0 N \<noteq> pidx 0 M"
proof (rule ccontr)
  assume c: "\<not> ?thesis"
  have up: "[Suc 0..<4] = [1, 2, 3]" by (simp add: upt_rec)
  from c have "pidx k N = pidx k M" if "k \<in> {0, 1, 2, 3}" for k using that by (auto simp: ppath_def up)
  then have "N div 2 ^ (9 * k) mod 512 = M div 2 ^ (9 * k) mod 512" if "k \<in> {0, 1, 2, 3}" for k
    using that by (simp add: pidx_inject)
  from this [of 0] this [of 1] this [of 2] this [of 3] have "N mod 2 ^ 36 = M mod 2 ^ 36"
    by (intro digits_eq) simp_all
  with assms show False ..
qed

lemma pageno_pg:
  assumes "N < 2 ^ 52" "off < 4096"
  shows "pageno (pg N + of_nat off) = N" "unat (pg N + of_nat off) = 4096 * N + off"
proof -
  have "4096 * N + off < 2 ^ 64" using assms by simp
  then have "unat (of_nat (4096 * N + off) :: u64) = 4096 * N + off" by (rule unat_of_nat64)
  then show u: "unat (pg N + of_nat off) = 4096 * N + off" by (simp add: pg_def)
  show "pageno (pg N + of_nat off) = N" using assms(2) by (simp add: pageno_def u)
qed

lemma pageno_pg0: "N < 2 ^ 52 \<Longrightarrow> pageno (pg N) = N"
  using pageno_pg(1) [of N 0] by simp

lemma pg_step: "pg N + PAGESIZE = pg (Suc N)"
  by (simp add: pg_def PAGESIZE_def)

section \<open>Bits of entries\<close>

lemma rebase_bit: "bit (PT_REBASE e) n \<longleftrightarrow> 12 \<le> n \<and> n < 52 \<and> bit e n"
proof -
  have "BITRANGE_MASK 51 12 = mask 40" by (simp add: BITRANGE_MASK_def mask_eq_exp_minus_1)
  then show ?thesis by (auto simp: PT_REBASE_def page_phys_rebase_def bit_simps)
qed

definition high_low :: "u64 \<Rightarrow> bool" where
  "high_low f \<longleftrightarrow> (\<forall>n. bit f n \<longrightarrow> n < 12 \<or> 52 \<le> n)"

lemma page_bits:
  fixes x :: u64
  assumes "4096 dvd unat x" "unat x < 2 ^ 52" "bit x n"
  shows "12 \<le> n \<and> n < 52"
proof -
  from assms(3) have "bit (unat x) n" by (simp add: bit_unsigned_iff)
  then have o: "odd (unat x div 2 ^ n)" by (simp add: bit_iff_odd)
  have "12 \<le> n"
  proof (rule ccontr)
    assume "\<not> 12 \<le> n"
    then have "(2 :: nat) ^ Suc n dvd 2 ^ 12" by (intro le_imp_power_dvd) simp
    then have "2 ^ Suc n dvd unat x" using assms(1) by (auto intro: dvd_trans)
    then have "even (unat x div 2 ^ n)" by (auto elim!: dvdE)
    with o show False by simp
  qed
  moreover have "n < 52"
  proof (rule ccontr)
    assume "\<not> n < 52"
    then have "(2 :: nat) ^ 52 \<le> 2 ^ n" by (intro power_increasing) auto
    then have "unat x div 2 ^ n = 0" using assms(2) by simp
    with o show False by simp
  qed
  ultimately show ?thesis by simp
qed

lemma rebase_or:
  assumes "4096 dvd unat x" "unat x < 2 ^ 52" "high_low f"
  shows "PT_REBASE (x OR f) = x"
  using page_bits [OF assms(1,2)] assms(3) unfolding high_low_def
  by (intro bit_word_eqI) (auto simp: rebase_bit bit_simps)

lemma link_entry_facts:
  assumes "page_ok q"
  shows "present (virt_to_phys_pm q OR PT_FLAG_PRESENT OR PT_FLAG_WRITABLE)"
    "\<not> large (virt_to_phys_pm q OR PT_FLAG_PRESENT OR PT_FLAG_WRITABLE)"
    "table_ptr (virt_to_phys_pm q OR PT_FLAG_PRESENT OR PT_FLAG_WRITABLE) = q"
proof -
  let ?f = "PT_FLAG_PRESENT OR PT_FLAG_WRITABLE"
  have f: "bit ?f n \<longleftrightarrow> n = 0 \<or> n = 1" for n
    unfolding PT_FLAG_PRESENT_def PT_FLAG_WRITABLE_def bit_or_iff bit_push_bit_iff bit_1_iff by auto
  have hl: "high_low ?f" unfolding high_low_def f by auto
  have p: "4096 dvd unat (virt_to_phys_pm q)" "unat (virt_to_phys_pm q) < 2 ^ 52" using assms by (simp_all add: page_ok_def)
  show "present (virt_to_phys_pm q OR PT_FLAG_PRESENT OR PT_FLAG_WRITABLE)"
    by (simp add: present_def bit_simps PT_FLAG_PRESENT_def)
  show "\<not> large (virt_to_phys_pm q OR PT_FLAG_PRESENT OR PT_FLAG_WRITABLE)"
    using page_bits [OF p, of 7] by (auto simp: large_def bit_simps PT_FLAG_PRESENT_def PT_FLAG_WRITABLE_def)
  show "table_ptr (virt_to_phys_pm q OR PT_FLAG_PRESENT OR PT_FLAG_WRITABLE) = q"
    using rebase_or [OF p hl] by (simp add: table_ptr_def or.assoc)
qed

section \<open>The invariant of the page tables\<close>

text \<open>No table is reached on two paths and none is a free page.\<close>

definition pt_inv :: "pgm \<Rightarrow> u64 set \<Rightarrow> u64 set \<Rightarrow> bool" where
  "pt_inv m U F \<longleftrightarrow> tree_inj m \<and> page_pool (pt_buddy m) U F \<and>
     (\<forall>p t. length p \<le> 3 \<and> table_at m p = Some t \<longrightarrow> t \<noteq> 0 \<and> t \<notin> F \<and> tables m t \<noteq> None)"

text \<open>An entry that is present leads to a table: it is not a large page.\<close>

definition open_at :: "pgm \<Rightarrow> u64 list \<Rightarrow> u64 \<Rightarrow> bool" where
  "open_at m p i \<longleftrightarrow> (\<forall>s e. table_at m p = Some s \<and> entry m s i = Some e \<and> present e \<longrightarrow> table_at m (i # p) \<noteq> None)"

definition pte_of :: "pgm \<Rightarrow> nat \<Rightarrow> u64 option" where
  "pte_of m N = do { t \<leftarrow> table_at m (ppath N 0); entry m t (pidx 0 N) }"

definition grown :: "pgm \<Rightarrow> pgm \<Rightarrow> bool" where
  "grown m m' \<longleftrightarrow> (\<forall>q t. length q \<le> 3 \<and> table_at m q = Some t \<longrightarrow> table_at m' q = Some t) \<and>
     (\<forall>q j. length q \<le> 2 \<and> open_at m q j \<longrightarrow> open_at m' q j) \<and> cr3 m' = cr3 m"

definition same_walk :: "nat set \<Rightarrow> pgm \<Rightarrow> pgm \<Rightarrow> bool" where
  "same_walk A m m' \<longleftrightarrow> (\<forall>w. pageno w mod 2 ^ 36 \<notin> A \<longrightarrow> kpt_get_phys m' w = kpt_get_phys m w) \<and>
     (\<forall>N e. N mod 2 ^ 36 \<notin> A \<and> pte_of m N = Some e \<longrightarrow> pte_of m' N = Some e)"

lemma grown_trans: "grown a b \<Longrightarrow> grown b c \<Longrightarrow> grown a c"
  by (simp add: grown_def)

lemma grown_refl [simp]: "grown a a" by (simp add: grown_def)

lemma same_walk_trans: "same_walk A a b \<Longrightarrow> same_walk B b c \<Longrightarrow> A \<subseteq> C \<Longrightarrow> B \<subseteq> C \<Longrightarrow> same_walk C a c"
  unfolding same_walk_def by (metis subsetD)

lemma same_walk_refl [simp]: "same_walk A a a" by (simp add: same_walk_def)

text \<open>Linking a fresh, cleared page as a table grows the tree and changes no translation.\<close>

definition pt_tree :: "pgm \<Rightarrow> bool" where
  "pt_tree m \<longleftrightarrow> tree_inj m \<and> (\<forall>p t. length p \<le> 3 \<and> table_at m p = Some t \<longrightarrow> t \<noteq> 0 \<and> tables m t \<noteq> None)"

lemma pt_treeD: "pt_tree m \<Longrightarrow> length p \<le> 3 \<Longrightarrow> table_at m p = Some t \<Longrightarrow> t \<noteq> 0 \<and> tables m t \<noteq> None"
  unfolding pt_tree_def by blast

lemma buddy_indep:
  "table_at (x\<lparr>pt_buddy := b\<rparr>) r = table_at x r" "entry (x\<lparr>pt_buddy := b\<rparr>) = entry x"
  "kpt_get_phys (x\<lparr>pt_buddy := b\<rparr>) = kpt_get_phys x"
proof -
  show e: "entry (x\<lparr>pt_buddy := b\<rparr>) = entry x" by (simp add: entry_def fun_eq_iff)
  show "table_at (x\<lparr>pt_buddy := b\<rparr>) r = table_at x r" by (induction r) (simp_all add: e)
  have "pwalk (x\<lparr>pt_buddy := b\<rparr>) w k r = pwalk x w k r" for w k r
    by (induction k arbitrary: r) (simp_all add: e cong: if_cong)
  then show "kpt_get_phys (x\<lparr>pt_buddy := b\<rparr>) = kpt_get_phys x" by (simp add: fun_eq_iff kpt_get_phys_walk)
qed

lemma link_grows:
  assumes tr: "pt_tree m" and s: "table_at m p = Some s" "length p \<le> 2" "tables m s = Some f" "s \<noteq> 0"
    and q: "q \<noteq> 0" "\<forall>p'. length p' \<le> 3 \<longrightarrow> table_at m p' \<noteq> Some q" and np: "\<not> present (f i)"
    and ef: "present e" "\<not> large e" "table_ptr e = q"
    and m': "m' = (link_table m q s i e f)\<lparr>pt_buddy := b\<rparr>"
  shows "\<And>r. length r \<le> 3 \<Longrightarrow> table_at m' r = (if r = i # p then Some q else table_at m r)"
    and "grown m m'" "same_walk {} m m'" "pt_tree m'"
proof -
  have inj: "tree_inj m" using tr by (simp add: pt_tree_def)
  have nq: "table_at m p' \<noteq> Some q" if "length p' \<le> 3" for p' using q(2) that by blast
  have qs: "q \<noteq> s" using nq [of p] s by auto
  define m1 where "m1 = link_table m q s i e f"
  note tree = link_tree [OF inj s q np ef, folded m1_def]
  note walk = link_walk [OF inj s q np ef, folded m1_def]
  note ent = link_entry [OF s(4) q(1) qs s(3), of i e, folded m1_def]
  have m1: "m' = m1\<lparr>pt_buddy := b\<rparr>" by (simp add: m' m1_def)
  show tm': "table_at m' r = (if r = i # p then Some q else table_at m r)" if "length r \<le> 3" for r
    using tree [OF that] by (simp add: m1 buddy_indep)
  have em': "entry m' = entry m1" by (simp add: m1 buddy_indep)
  have en: "entry m s i = Some (f i)" using s(3,4) by (simp add: entry_def)
  have none: "table_at m (i # p) = None" using s(1) en np by simp
  have g1: "table_at m' r = Some t" if "length r \<le> 3" "table_at m r = Some t" for r t
    using tm' [OF that(1)] that(2) none by auto
  have g2: "open_at m' r j" if r: "length r \<le> 2" "open_at m r j" for r j
    unfolding open_at_def
  proof (intro allI impI, elim conjE)
    fix t x assume t: "table_at m' r = Some t" "entry m' t j = Some x" "present x"
    consider "r = i # p" | "r = p" "j = i" | "r \<noteq> i # p" "\<not> (r = p \<and> j = i)" by blast
    then show "table_at m' (j # r) \<noteq> None"
    proof cases
      case 1
      then have "t = q" using tm' [of r] t(1) r(1) by simp
      then have "x = 0" using t(2) ent qs by (simp add: em')
      with t(3) show ?thesis by (simp add: present_def)
    next
      case 2
      then show ?thesis using tm' [of "i # p"] s(2) by simp
    next
      case 3
      then have tr: "table_at m r = Some t" using tm' [of r] t(1) r(1) by simp
      then have "t \<noteq> q" using nq [of r] r(1) by auto
      moreover have "t = s \<longrightarrow> j \<noteq> i" using tree_injD [OF inj tr, of p] s r(1) 3 by auto
      ultimately have "entry m t j = Some x" using t(2) ent s(3,4) by (auto simp: em' entry_def split: if_splits)
      with r(2) tr t(3) obtain y where "table_at m (j # r) = Some y" unfolding open_at_def by blast
      then show ?thesis using g1 [of "j # r"] r(1) by simp
    qed
  qed
  show "grown m m'" unfolding grown_def using g1 g2 by (auto simp: m1 m1_def link_table_def)
  show "same_walk {} m m'"
    unfolding same_walk_def
  proof (intro conjI allI impI)
    show "kpt_get_phys m' w = kpt_get_phys m w" for w using walk by (simp add: m1 buddy_indep)
  next
    fix N x assume "N mod 2 ^ 36 \<notin> {} \<and> pte_of m N = Some x"
    then obtain t where t: "table_at m (ppath N 0) = Some t" "entry m t (pidx 0 N) = Some x"
      by (auto simp: pte_of_def split: bind_splits)
    have "t \<noteq> q" using nq [of "ppath N 0"] t(1) by (auto simp: ppath_simps)
    moreover have "t \<noteq> s" using tree_injD [OF inj t(1), of p] s ppath_simps(2) [of N 0] by auto
    ultimately show "pte_of m' N = Some x"
      using g1 [OF _ t(1)] t(2) ent by (simp add: pte_of_def ppath_simps em')
  qed
  have "tree_inj m1" using link_inj [OF inj s q np ef] by (simp add: m1_def)
  then have "tree_inj m'" by (simp add: tree_inj_def m1 buddy_indep)
  moreover have "t \<noteq> 0 \<and> tables m' t \<noteq> None" if "length r \<le> 3" "table_at m' r = Some t" for r t
    using tm' [OF that(1)] that pt_treeD [OF tr, of r t] q(1) by (auto simp: m1 m1_def link_table_def split: if_splits)
  ultimately show "pt_tree m'" unfolding pt_tree_def by blast
qed

text \<open>So does an entry that neither was nor becomes a link to a table, but for the addresses it serves.\<close>

lemma entry_writes:
  assumes tr: "pt_tree m" and t: "table_at m q = Some t" "length q \<le> 3"
    and nl: "length q < 3 \<Longrightarrow> table_at m (i # q) = None \<and> \<not> (present e \<and> (q \<noteq> [] \<longrightarrow> \<not> large e))"
  obtains m' where "set_entry m t i e = Some m'" "pt_tree m'" "\<forall>p. length p \<le> 3 \<longrightarrow> table_at m' p = table_at m p"
    "\<forall>s j. entry m' s j = (if s = t \<and> j = i then Some e else entry m s j)"
    "\<forall>w. \<not> (tpath w (3 - length q) = q \<and> idx (3 - length q) w = i) \<longrightarrow> kpt_get_phys m' w = kpt_get_phys m w"
    "m' = m\<lparr>tables := tables m'\<rparr>" "dom (tables m') = dom (tables m)"
proof -
  have inj: "tree_inj m" using tr by (simp add: pt_tree_def)
  obtain f where f: "tables m t = Some f" "t \<noteq> 0" using pt_treeD [OF tr t(2,1)] by auto
  define m' where "m' = m\<lparr>tables := (tables m)(t \<mapsto> f(i := e))\<rparr>"
  have run: "set_entry m t i e = Some m'" using f by (simp add: set_entry_def m'_def)
  have en: "entry m' s j = (if s = t \<and> j = i then Some e else entry m s j)" for s j
    using f by (simp add: entry_def m'_def)
  have tb: "table_at m' p = table_at m p" if "length p \<le> 3" for p
    using that
  proof (induction p)
    case Nil
    then show ?case by (simp add: m'_def)
  next
    case (Cons j p)
    then have ih: "table_at m' p = table_at m p" by simp
    consider "p = q" "j = i" | "p = q" "j \<noteq> i" | "p \<noteq> q" by blast
    then show ?case
    proof cases
      case 1
      then show ?thesis using ih t(1) nl Cons.prems en by auto
    next
      case 2
      then show ?thesis using ih t(1) en by simp
    next
      case 3
      then have "table_at m p \<noteq> Some t" using tree_injD [OF inj t(1), of p] t(2) Cons.prems by auto
      then show ?thesis using ih en by (cases "table_at m p") auto
    qed
  qed
  have walk: "kpt_get_phys m' w = kpt_get_phys m w" if o: "\<not> (tpath w (3 - length q) = q \<and> idx (3 - length q) w = i)" for w
    unfolding kpt_get_phys_walk m'_def l4_tables
  proof (rule pwalk_cong, unfold m'_def [symmetric])
    fix j s assume j: "j \<le> 3" "table_at m (tpath w j) = Some s"
    show "entry m' s (idx j w) = entry m s (idx j w)"
    proof (cases "s = t")
      case True
      then have "tpath w j = q" using tree_injD [OF inj j(2), of q] t tpath_length [of w j] by simp
      then show ?thesis using o en tpath_length [of w j] j(1) by auto
    qed (simp add: en)
  qed (simp_all add: tpath_simps)
  have "tree_inj m'" using inj tb unfolding tree_inj_def by auto
  moreover have d: "dom (tables m') = dom (tables m)" using f by (auto simp: m'_def)
  moreover from this have "s \<noteq> 0 \<and> tables m' s \<noteq> None" if "length p \<le> 3" "table_at m' p = Some s" for p s
    using pt_treeD [OF tr that(1), of s] that tb [OF that(1)] by (metis domIff)
  ultimately have pt: "pt_tree m'" unfolding pt_tree_def by blast
  have rc: "m' = m\<lparr>tables := tables m'\<rparr>" by (simp add: m'_def)
  show ?thesis by (rule that [OF run pt _ _ _ rc d]) (use tb en walk in blast)+
qed

text \<open>An entry of a last-level table: exactly one page is served differently.\<close>

lemma leaf_writes:
  assumes tr: "pt_tree m" and t: "table_at m (ppath N 0) = Some t"
  obtains m' where "set_entry m t (pidx 0 N) e = Some m'" "pt_tree m'" "grown m m'"
    "same_walk {N mod 2 ^ 36} m m'" "pte_of m' N = Some e" "\<forall>p. length p \<le> 3 \<longrightarrow> table_at m' p = table_at m p"
    "m' = m\<lparr>tables := tables m'\<rparr>" "dom (tables m') = dom (tables m)"
proof -
  have inj: "tree_inj m" using tr by (simp add: pt_tree_def)
  have l: "length (ppath N 0) = 3" by (simp add: ppath_simps)
  then have l3: "length (ppath N 0) \<le> 3" "\<not> length (ppath N 0) < 3" by simp_all
  obtain m' where run: "set_entry m t (pidx 0 N) e = Some m'" "pt_tree m'"
    and tb: "\<forall>p. length p \<le> 3 \<longrightarrow> table_at m' p = table_at m p"
    and en: "\<forall>s j. entry m' s j = (if s = t \<and> j = pidx 0 N then Some e else entry m s j)"
    and wk: "\<forall>w. \<not> (tpath w 0 = ppath N 0 \<and> idx 0 w = pidx 0 N) \<longrightarrow> kpt_get_phys m' w = kpt_get_phys m w"
    and rc: "m' = m\<lparr>tables := tables m'\<rparr>" "dom (tables m') = dom (tables m)"
    using entry_writes [OF tr t l3(1), of "pidx 0 N" e] l3(2) by (auto simp: l)
  have ph: "kpt_get_phys m' w = kpt_get_phys m w" if "pageno w mod 2 ^ 36 \<noteq> N mod 2 ^ 36" for w
    using page_distinct [OF that] wk by (auto simp: tpath_pageno idx_pageno)
  have lf: "pte_of m' M = Some x" if M: "M mod 2 ^ 36 \<noteq> N mod 2 ^ 36" "pte_of m M = Some x" for M x
  proof -
    from M(2) obtain s where s: "table_at m (ppath M 0) = Some s" "entry m s (pidx 0 M) = Some x"
      by (auto simp: pte_of_def split: bind_splits)
    have "pidx 0 M \<noteq> pidx 0 N" if "s = t"
      using page_distinct [OF M(1)] tree_injD [OF inj s(1), of "ppath N 0"] t l that by (auto simp: ppath_simps)
    then show ?thesis using s tb en by (auto simp: pte_of_def ppath_simps)
  qed
  have sw: "same_walk {N mod 2 ^ 36} m m'" unfolding same_walk_def using ph lf by blast
  have op: "open_at m' q j" if "length q \<le> 2" "open_at m q j" for q j
    unfolding open_at_def
  proof (intro allI impI, elim conjE)
    fix s x assume s: "table_at m' q = Some s" "entry m' s j = Some x" "present x"
    have q: "table_at m q = Some s" using tb s(1) that(1) by simp
    have "s \<noteq> t" using tree_injD [OF inj q, of "ppath N 0"] t l that(1) by auto
    then have "table_at m (j # q) \<noteq> None" using that(2) q s(2,3) en unfolding open_at_def by auto
    then show "table_at m' (j # q) \<noteq> None" using tb [rule_format, of "j # q"] that(1) by simp
  qed
  have "cr3 m' = cr3 m" by (subst rc) simp
  then have gr: "grown m m'" unfolding grown_def using op tb by auto
  have lo: "pte_of m' N = Some e" using tb t l en by (simp add: pte_of_def)
  show ?thesis by (rule that [OF run gr sw lo tb rc])
qed

lemma return_pt_spec:
  assumes i: "pt_inv m U F" and s: "table_at m p = Some s" "length p \<le> 2" and o: "open_at m p i" and F: "F \<noteq> {}"
  shows "\<exists>m' t F'. return_pt_or_alloc m s i = Some (m', t) \<and> table_at m' (i # p) = Some t \<and> pt_inv m' U F' \<and>
    F' \<subseteq> F \<and> card F \<le> card F' + 1 \<and> grown m m' \<and> same_walk {} m m'"
proof -
  have pp: "page_pool (pt_buddy m) U F" using i by (simp add: pt_inv_def)
  have tb: "t \<noteq> 0" "t \<notin> F" "tables m t \<noteq> None" if "length p \<le> 3" "table_at m p = Some t" for p t
    using i that by (auto simp: pt_inv_def)
  have tr: "pt_tree m" using i by (auto simp: pt_inv_def pt_tree_def)
  obtain f where f: "tables m s = Some f" "s \<noteq> 0" using tb [of p s] s by auto
  then have en: "entry m s i = Some (f i)" by (simp add: entry_def)
  show ?thesis
  proof (cases "present (f i)")
    case True
    with o s(1) en obtain t where t: "table_at m (i # p) = Some t" unfolding open_at_def by blast
    then have "t = table_ptr (f i)" using s(1) en by (simp split: if_splits)
    then have "return_pt_or_alloc m s i = Some (m, t)" using en True
      by (simp add: return_pt_or_alloc_def flag_tests table_ptr_def)
    with t i show ?thesis by (intro exI [of _ m] exI [of _ t] exI [of _ F]) simp
  next
    case False
    from pages.alloc_fresh [OF pp F] obtain b q where b: "kbud_alloc (pt_buddy m) 0 = Some (b, q)" "q \<in> F" "q \<noteq> 0"
      "q \<noteq> KPAGE_ERR" "page_pool b U (F - {q})" by blast
    define e where "e = virt_to_phys_pm q OR PT_FLAG_PRESENT OR PT_FLAG_WRITABLE"
    have "q \<in> U" using pages.pool_ok [OF pp] b(2) by auto
    note ef = link_entry_facts [OF page_pool_pages [OF pp this], folded e_def]
    have nq: "\<forall>p'. length p' \<le> 3 \<longrightarrow> table_at m p' \<noteq> Some q" using tb(2) [of _ q] b(2) by auto
    then have qs: "q \<noteq> s" using s by (auto dest: spec [of _ p])
    define m' where "m' = (link_table m q s i e f)\<lparr>pt_buddy := b\<rparr>"
    note g = link_grows [OF tr s f b(3) nq False ef m'_def]
    have run: "return_pt_or_alloc m s i = Some (m', q)"
      using en False b(1,4) f qs
      by (simp add: return_pt_or_alloc_def flag_tests set_entry_def m'_def link_table_def e_def)
    have "t \<notin> F - {q}" if "length r \<le> 3" "table_at m' r = Some t" for r t
      using g(1) [OF that(1)] that(2) tb(2) [OF that(1)] by (auto split: if_splits)
    then have "pt_inv m' U (F - {q})"
      using g(4) b(5) by (auto simp: pt_inv_def pt_tree_def m'_def)
    moreover have "card F \<le> card (F - {q}) + 1" using pages.pool_ok [OF pp] b(2) by (simp add: card_Diff_singleton)
    ultimately show ?thesis using run g(1) [of "i # p"] s(2) g(2,3)
      by (intro exI [of _ m'] exI [of _ q] exI [of _ "F - {q}"]) auto
  qed
qed

section \<open>How many tables a range needs\<close>

lemma ceil_bytes:
  assumes "b < 2 ^ 63" "s \<le> 39"
  shows "((of_nat b + (push_bit s 1 - 1)) AND NOT (push_bit s 1 - 1)) div push_bit s 1 =
    (of_nat ((b + (2 ^ s - 1)) div 2 ^ s) :: u64)"
proof -
  let ?M = "push_bit s 1 - 1 :: u64" and ?x = "of_nat b + (push_bit s 1 - 1) :: u64"
  have M: "?M = mask s" by (simp add: mask_eq_exp_minus_1 push_bit_eq_mult)
  have s39: "(2 :: nat) ^ s \<le> 2 ^ 39" using assms(2) by (intro power_increasing) auto
  have "?M = of_nat (2 ^ s - 1)" by (simp add: push_bit_eq_mult of_nat_diff)
  then have "?x = of_nat (b + (2 ^ s - 1))" by (simp only: of_nat_add)
  moreover have "b + (2 ^ s - 1) < 2 ^ 64" using assms(1) s39 by simp
  ultimately have sum: "unat ?x = b + (2 ^ s - 1)" by (simp only: unat_of_nat64)
  have "(?x AND NOT ?M) div push_bit s 1 = drop_bit s (?x AND NOT (mask s))"
    unfolding M by (simp add: push_bit_eq_mult drop_bit_eq_div)
  also have "\<dots> = drop_bit s ?x" by (intro bit_word_eqI) (auto simp: bit_simps dest: bit_imp_le_length)
  finally have d: "(?x AND NOT ?M) div push_bit s 1 = drop_bit s ?x" .
  have "unat (drop_bit s ?x) = (b + (2 ^ s - 1)) div 2 ^ s" unfolding unat_drop sum ..
  moreover have "of_nat (unat x) = x" for x :: u64 by simp
  ultimately show ?thesis unfolding d by metis
qed

end
