(* ===== verification/Vmalloc.thy ===== *)
theory Vmalloc
  imports Vma PageTables
begin

text \<open>
  Mapping of device memory, \<^verbatim>\<open>kernel/mm/vmalloc.c\<close>: an area of the kernel's region is allocated and its pages
  are entered into the page tables, by entries of 1 GiB, 2 MiB or 4 KiB. The state is that of the areas and
  that of the page tables; both allocate from the one page allocator, which is handed from one to the other.
  Also \<^verbatim>\<open>mm_init\<close> of \<^verbatim>\<open>kernel/mm/kmalloc.c\<close>.
\<close>

section \<open>State and constants\<close>

record kvm =
  areas_of :: vmm
  pages_of :: pgm

text \<open>Page tables are entered with the allocator the areas left, and leave it to them.\<close>

definition with_pages :: "kvm \<Rightarrow> (pgm \<Rightarrow> pgm option) \<Rightarrow> kvm option" where
  "with_pages kv f = do {
     p \<leftarrow> f ((pages_of kv)\<lparr>pt_buddy := buddy (kheap (areas_of kv))\<rparr>);
     Some \<lparr>areas_of = (areas_of kv)\<lparr>kheap := (kheap (areas_of kv))\<lparr>buddy := pt_buddy p\<rparr>\<rparr>, pages_of = p\<rparr> }"

definition SZ_2M :: u64 where "SZ_2M = 2 * 1024 * 1024"
definition SZ_1G :: u64 where "SZ_1G = 1024 * 1024 * 1024"

definition IS_ALIGNED :: "u64 \<Rightarrow> u64 \<Rightarrow> bool" where
  "IS_ALIGNED val al \<longleftrightarrow> val AND (al - 1) = 0"

definition vma_to_pte_flags :: "u32 \<Rightarrow> u64" where
  "vma_to_pte_flags flags =
     (let f = PT_FLAG_PRESENT;
          f = (if flags AND VM_WRITE \<noteq> 0 then f OR PT_FLAG_WRITABLE else f);
          f = (if flags AND VM_USER \<noteq> 0 then f OR PT_FLAG_USER else f);
          f = (if flags AND VM_IO \<noteq> 0 then f OR (PT_FLAG_PRESENT OR PT_FLAG_WRITABLE) else f);
          f = (if flags AND VM_NOCACHE \<noteq> 0 then f OR PT_FLAG_PAGECACHE_DISABLE else f);
          f = (if flags AND VM_WRITE_THROUGH \<noteq> 0 then f OR PT_FLAG_WRITE_THROUGH else f)
      in if flags AND VM_EXEC = 0 then f OR push_bit 63 1 else f)"

record page_ctx =
  vaddr :: u64
  paddr :: u64
  align_sz :: u64
  pte_flags :: u64
  l4_ent_count :: u64
  l3_ent_count :: u64
  l2_ent_count :: u64
  l1_ent_count :: u64

section \<open>Entries of 1 GiB\<close>

primrec huge_l3 :: "nat \<Rightarrow> page_ctx \<Rightarrow> pgm \<Rightarrow> u64 \<Rightarrow> u64 \<Rightarrow> u64 \<Rightarrow> (pgm \<times> u64 \<times> u64) option" where
  "huge_l3 0 ctx m l3 vbase pbase = Some (m, vbase, pbase)"
| "huge_l3 (Suc n) ctx m l3 vbase pbase = do {
     m \<leftarrow> set_entry m l3 (page_l3_idx vbase) (pbase OR pte_flags ctx OR PT_FLAG_PAGESIZE);
     huge_l3 n ctx m l3 (vbase + PT_L3_ENTRYSZ) (pbase + PT_L3_ENTRYSZ) }"

primrec huge_l4 :: "nat \<Rightarrow> page_ctx \<Rightarrow> pgm \<Rightarrow> u64 \<Rightarrow> u64 \<Rightarrow> u64 \<Rightarrow> u64 \<Rightarrow> pgm option" where
  "huge_l4 0 ctx m l4 vbase pbase l3_rem = Some m"
| "huge_l4 (Suc n) ctx m l4 vbase pbase l3_rem = do {
     (m, l3) \<leftarrow> return_pt_or_alloc m l4 (page_l4_idx vbase);
     let l3_count = (if l3_rem > 512 then 512 else l3_rem);
     (m, vbase, pbase) \<leftarrow> huge_l3 (unat l3_count) ctx m l3 vbase pbase;
     huge_l4 n ctx m l4 vbase pbase (l3_rem - l3_count) }"

definition pt_map_huge :: "pgm \<Rightarrow> u64 \<Rightarrow> page_ctx \<Rightarrow> pgm option" where
  "pt_map_huge m l4 ctx = huge_l4 (unat (l4_ent_count ctx)) ctx m l4 (vaddr ctx) (paddr ctx) (l3_ent_count ctx)"

section \<open>Entries of 2 MiB\<close>

primrec large_l2 :: "nat \<Rightarrow> page_ctx \<Rightarrow> pgm \<Rightarrow> u64 \<Rightarrow> u64 \<Rightarrow> u64 \<Rightarrow> (pgm \<times> u64 \<times> u64) option" where
  "large_l2 0 ctx m l2 vbase pbase = Some (m, vbase, pbase)"
| "large_l2 (Suc n) ctx m l2 vbase pbase = do {
     m \<leftarrow> set_entry m l2 (page_l2_idx vbase) (pbase OR pte_flags ctx OR PT_FLAG_PAGESIZE);
     large_l2 n ctx m l2 (vbase + PT_L2_ENTRYSZ) (pbase + PT_L2_ENTRYSZ) }"

primrec large_l3 :: "nat \<Rightarrow> page_ctx \<Rightarrow> pgm \<Rightarrow> u64 \<Rightarrow> u64 \<Rightarrow> u64 \<Rightarrow> u64 \<Rightarrow> (pgm \<times> u64 \<times> u64 \<times> u64) option" where
  "large_l3 0 ctx m l3 vbase pbase l2_rem = Some (m, vbase, pbase, l2_rem)"
| "large_l3 (Suc n) ctx m l3 vbase pbase l2_rem = do {
     (m, l2) \<leftarrow> return_pt_or_alloc m l3 (page_l3_idx vbase);
     let l2_count = (if l2_rem > 512 then 512 else l2_rem);
     (m, vbase, pbase) \<leftarrow> large_l2 (unat l2_count) ctx m l2 vbase pbase;
     large_l3 n ctx m l3 vbase pbase (l2_rem - l2_count) }"

text \<open>The loop over the entries of the third level runs to \<open>l3_ent_rem\<close>, not to \<open>l3_ent_count\<close>.\<close>

primrec large_l4 :: "nat \<Rightarrow> page_ctx \<Rightarrow> pgm \<Rightarrow> u64 \<Rightarrow> u64 \<Rightarrow> u64 \<Rightarrow> u64 \<Rightarrow> u64 \<Rightarrow> pgm option" where
  "large_l4 0 ctx m l4 vbase pbase l3_rem l2_rem = Some m"
| "large_l4 (Suc n) ctx m l4 vbase pbase l3_rem l2_rem = do {
     (m, l3) \<leftarrow> return_pt_or_alloc m l4 (page_l4_idx vbase);
     let l3_count = (if l3_rem > 512 then 512 else l3_rem);
     (m, vbase, pbase, l2_rem) \<leftarrow> large_l3 (unat l3_rem) ctx m l3 vbase pbase l2_rem;
     large_l4 n ctx m l4 vbase pbase (l3_rem - l3_count) l2_rem }"

definition pt_map_large :: "pgm \<Rightarrow> u64 \<Rightarrow> page_ctx \<Rightarrow> pgm option" where
  "pt_map_large m l4 ctx =
     large_l4 (unat (l4_ent_count ctx)) ctx m l4 (vaddr ctx) (paddr ctx) (l3_ent_count ctx) (l2_ent_count ctx)"

section \<open>Entries of 4 KiB\<close>

primrec norm_l1 :: "nat \<Rightarrow> page_ctx \<Rightarrow> pgm \<Rightarrow> u64 \<Rightarrow> u64 \<Rightarrow> u64 \<Rightarrow> (pgm \<times> u64 \<times> u64) option" where
  "norm_l1 0 ctx m l1 vbase pbase = Some (m, vbase, pbase)"
| "norm_l1 (Suc n) ctx m l1 vbase pbase = do {
     m \<leftarrow> set_entry m l1 (page_l1_idx vbase) (pbase OR pte_flags ctx);
     norm_l1 n ctx m l1 (vbase + PAGESIZE) (pbase + PAGESIZE) }"

primrec norm_l2 :: "nat \<Rightarrow> page_ctx \<Rightarrow> pgm \<Rightarrow> u64 \<Rightarrow> u64 \<Rightarrow> u64 \<Rightarrow> u64 \<Rightarrow> (pgm \<times> u64 \<times> u64 \<times> u64) option" where
  "norm_l2 0 ctx m l2 vbase pbase l1_rem = Some (m, vbase, pbase, l1_rem)"
| "norm_l2 (Suc n) ctx m l2 vbase pbase l1_rem = do {
     (m, l1) \<leftarrow> return_pt_or_alloc m l2 (page_l2_idx vbase);
     let l1_count = (if l1_rem > 512 then 512 else l1_rem);
     (m, vbase, pbase) \<leftarrow> norm_l1 (unat l1_count) ctx m l1 vbase pbase;
     norm_l2 n ctx m l2 vbase pbase (l1_rem - l1_count) }"

primrec norm_l3 :: "nat \<Rightarrow> page_ctx \<Rightarrow> pgm \<Rightarrow> u64 \<Rightarrow> u64 \<Rightarrow> u64 \<Rightarrow> u64 \<Rightarrow> u64 \<Rightarrow> (pgm \<times> u64 \<times> u64 \<times> u64 \<times> u64) option" where
  "norm_l3 0 ctx m l3 vbase pbase l2_rem l1_rem = Some (m, vbase, pbase, l2_rem, l1_rem)"
| "norm_l3 (Suc n) ctx m l3 vbase pbase l2_rem l1_rem = do {
     (m, l2) \<leftarrow> return_pt_or_alloc m l3 (page_l3_idx vbase);
     let l2_count = (if l2_rem > 512 then 512 else l2_rem);
     (m, vbase, pbase, l1_rem) \<leftarrow> norm_l2 (unat l2_count) ctx m l2 vbase pbase l1_rem;
     norm_l3 n ctx m l3 vbase pbase (l2_rem - l2_count) l1_rem }"

primrec norm_l4 :: "nat \<Rightarrow> page_ctx \<Rightarrow> pgm \<Rightarrow> u64 \<Rightarrow> u64 \<Rightarrow> u64 \<Rightarrow> u64 \<Rightarrow> u64 \<Rightarrow> u64 \<Rightarrow> pgm option" where
  "norm_l4 0 ctx m l4 vbase pbase l3_rem l2_rem l1_rem = Some m"
| "norm_l4 (Suc n) ctx m l4 vbase pbase l3_rem l2_rem l1_rem = do {
     (m, l3) \<leftarrow> return_pt_or_alloc m l4 (page_l4_idx vbase);
     let l3_count = (if l3_rem > 512 then 512 else l3_rem);
     (m, vbase, pbase, l2_rem, l1_rem) \<leftarrow> norm_l3 (unat l3_count) ctx m l3 vbase pbase l2_rem l1_rem;
     norm_l4 n ctx m l4 vbase pbase (l3_rem - l3_count) l2_rem l1_rem }"

definition pt_map_norm :: "pgm \<Rightarrow> u64 \<Rightarrow> page_ctx \<Rightarrow> pgm option" where
  "pt_map_norm m l4 ctx = norm_l4 (unat (l4_ent_count ctx)) ctx m l4 (vaddr ctx) (paddr ctx)
     (l3_ent_count ctx) (l2_ent_count ctx) (l1_ent_count ctx)"

section \<open>The interface\<close>

definition ioremap :: "kvm \<Rightarrow> u64 \<Rightarrow> u64 \<Rightarrow> u32 \<Rightarrow> (kvm \<times> u64) option" where
  "ioremap kv phy len flags = do {
     let offs = phy AND (PAGESIZE - 1);
     let aligned_size = PAGE_ALIGNUP (len + offs);
     let aligned_phys = PAGE_ALIGNDOWN phy;
     (vm, vma) \<leftarrow> vma_alloc_area (areas_of kv) aligned_size flags;
     let kv = kv\<lparr>areas_of := vm\<rparr>;
     if vma = VMA_INVALID_PTR then Some (kv, 0)
     else do {
       v \<leftarrow> get_vma vm vma;
       let ctx = \<lparr>vaddr = vm_start v, paddr = aligned_phys, align_sz = aligned_size,
                  pte_flags = vma_to_pte_flags flags,
                  l4_ent_count = get_pagetbl_count_l3 aligned_size, l3_ent_count = get_pagetbl_count_l2 aligned_size,
                  l2_ent_count = get_pagetbl_count_l1 aligned_size, l1_ent_count = drop_bit 12 aligned_size\<rparr>;
       let pml4 = kpt_get_l4 (pages_of kv);
       let hugepage_aligned = (IS_ALIGNED aligned_phys SZ_1G \<and> IS_ALIGNED (vaddr ctx) SZ_1G \<and> IS_ALIGNED aligned_size SZ_1G);
       let largepage_aligned = (IS_ALIGNED aligned_phys SZ_2M \<and> IS_ALIGNED (vaddr ctx) SZ_2M \<and> IS_ALIGNED aligned_size SZ_2M);
       kv \<leftarrow> (if hugepage_aligned then with_pages kv (\<lambda>m. pt_map_huge m pml4 ctx)
              else if largepage_aligned then with_pages kv (\<lambda>m. pt_map_large m pml4 ctx)
              else with_pages kv (\<lambda>m. pt_map_norm m pml4 ctx));
       Some (kv, vaddr ctx + offs) } }"

text \<open>The functions that are only declared so far: they do nothing and return null.\<close>

definition ioremap_prot :: "kvm \<Rightarrow> u64 \<Rightarrow> u64 \<Rightarrow> u32 \<Rightarrow> kvm \<times> u64" where
  "ioremap_prot kv phy len flags = (kv, 0)"

definition iounmap :: "kvm \<Rightarrow> u64 \<Rightarrow> kvm \<times> u64" where "iounmap kv va = (kv, 0)"
definition kmap :: "kvm \<Rightarrow> u64 \<Rightarrow> kvm \<times> u64" where "kmap kv phy = (kv, 0)"
definition kunmap :: "kvm \<Rightarrow> u64 \<Rightarrow> kvm" where "kunmap kv va = kv"
definition vmalloc_init :: "kvm \<Rightarrow> kvm \<times> int" where "vmalloc_init kv = (kv, 0)"
definition kmalloc_init :: "kvm \<Rightarrow> kvm \<times> int" where "kmalloc_init kv = (kv, 0)"

text \<open>\<^verbatim>\<open>mm_init\<close>: a failing part ends in a panic with its message.\<close>

definition mm_init :: "kimage \<Rightarrow> bootmem \<Rightarrow> u64 \<Rightarrow> kvm \<Rightarrow> (string + kvm) option" where
  "mm_init im info ident kv = do {
     (p, r) \<leftarrow> kern_uhalf_init im info ((pages_of kv)\<lparr>pt_buddy := buddy (kheap (areas_of kv))\<rparr>);
     kv \<leftarrow> with_pages kv (\<lambda>_. Some p);
     if r \<noteq> 0 then Some (Inl ''kernel upper-half memory failed to initialize!'')
     else do {
       (vm, r) \<leftarrow> vma_subsystem_init (areas_of kv) ident;
       let kv = kv\<lparr>areas_of := vm\<rparr>;
       if r \<noteq> 0 then Some (Inl ''kernel VMA subsystem failed to initialize!'')
       else
         let (kv, r) = vmalloc_init kv in
         if r \<noteq> 0 then Some (Inl ''kernel vmalloc subsystem failed to initialize!'')
         else
           let (kv, r) = kmalloc_init kv in
           if r \<noteq> 0 then Some (Inl ''kernel kmalloc subsystem failed to initialize!'')
           else Some (Inr kv) } }"

end
