(* ===== verification/PageEnter.thy ===== *)
theory PageEnter
  imports PageMap Vmalloc
begin

text \<open>
  Entering pages into the tables: the loops of \<^verbatim>\<open>pt_map_norm\<close> over the last three levels, the range of pages
  they enter (\<open>entered\<close>) and what happens to a range that runs over the end of a table.
\<close>

section \<open>Writing one last-level entry\<close>

definition pages_mod :: "nat \<Rightarrow> nat \<Rightarrow> nat set" where
  "pages_mod N n = (\<lambda>j. (N + j) mod 2 ^ 36) ` {..<n}"

lemma leaf_step:
  assumes i: "pt_inv m U F" and t: "table_at m (ppath N 0) = Some t"
  obtains m' where "set_entry m t (pidx 0 N) e = Some m'" "pt_inv m' U F" "grown m m'"
    "same_walk {N mod 2 ^ 36} m m'" "pte_of m' N = Some e" "\<And>p. length p \<le> 3 \<Longrightarrow> table_at m' p = table_at m p"
    "invlpg m' = invlpg m"
proof -
  have tr: "pt_tree m" using i by (auto simp: pt_inv_def pt_tree_def)
  obtain m' where m': "set_entry m t (pidx 0 N) e = Some m'" "pt_tree m'" "grown m m'"
    "same_walk {N mod 2 ^ 36} m m'" "pte_of m' N = Some e"
    and tb: "\<forall>p. length p \<le> 3 \<longrightarrow> table_at m' p = table_at m p"
    and rc: "m' = m\<lparr>tables := tables m'\<rparr>"
    by (rule leaf_writes [OF tr t, of e])
  have iv: "invlpg m' = invlpg m" by (subst rc) simp
  have "pt_buddy m' = pt_buddy m" by (subst rc) simp
  then have "pt_inv m' U F" using i m'(2) tb unfolding pt_inv_def pt_tree_def by (simp, metis)
  then show ?thesis by (rule that [OF m'(1) _ m'(3-5) _ iv]) (simp add: tb)
qed

section \<open>The three loops\<close>

text \<open>
  The loop over a last-level table takes each index from the address alone: what runs over the end of the
  table is entered at its beginning. \<open>B\<close> is the first page of the table.
\<close>

definition wrapped :: "nat \<Rightarrow> nat \<Rightarrow> nat \<Rightarrow> nat set" where
  "wrapped B N n = (\<lambda>j. (B + (N + j) mod 512) mod 2 ^ 36) ` {..<n}"

lemma in_table:
  assumes "B mod 512 = 0" "x < 512"
  shows "ppath (B + x) 0 = ppath B 0" "pidx 0 (B + x) = of_nat x"
proof -
  obtain q where "B = 512 * q" using assms(1) by (auto simp: mod_eq_0_iff_dvd elim: dvdE)
  then have "(B + x) div 512 = B div 512" "(B + x) mod 512 = x" using assms(2) by simp_all
  then show "ppath (B + x) 0 = ppath B 0" "pidx 0 (B + x) = of_nat x" by (auto intro: ppath_same simp: pidx_def)
qed

lemma mod_inject:
  fixes a b :: nat
  assumes "a mod 2 ^ 36 = b mod 2 ^ 36" "a \<le> b" "b < a + 2 ^ 36"
  shows "a = b"
proof (rule ccontr)
  assume "a \<noteq> b"
  moreover have "2 ^ 36 dvd b - a" using assms(1,2) mod_eq_dvd_iff_nat [of a b "2 ^ 36"] by metis
  ultimately have "2 ^ 36 \<le> b - a" using assms(2) by (intro dvd_imp_le) simp_all
  with assms(3) show False by simp
qed

lemma norm_l1_wraps:
  "pt_inv m U F \<Longrightarrow> table_at m (ppath B 0) = Some t \<Longrightarrow> B mod 512 = 0 \<Longrightarrow> n \<le> 512 \<Longrightarrow> N + n \<le> 2 ^ 52 \<Longrightarrow>
   \<exists>m'. norm_l1 n ctx m t (pg N) (pg P) = Some (m', pg (N + n), pg (P + n)) \<and> pt_inv m' U F \<and> grown m m' \<and>
     same_walk (wrapped B N n) m m' \<and> (\<forall>j<n. pte_of m' (B + (N + j) mod 512) = Some (pg (P + j) OR pte_flags ctx))"
proof (induction n arbitrary: m N P)
  case 0
  then show ?case by simp
next
  case (Suc n)
  have N: "N < 2 ^ 52" using Suc.prems(5) by simp
  define x where "x = N mod 512"
  have x: "x < 512" by (simp add: x_def)
  note it = in_table [OF Suc.prems(3) x]
  have ix: "page_l1_idx (pg N) = pidx 0 (B + x)"
    unfolding it(2) using N by (simp add: idx_simps idx_pageno pageno_pg0 pidx_def x_def)
  have t: "table_at m (ppath (B + x) 0) = Some t" unfolding it(1) by (rule Suc.prems(2))
  from leaf_step [OF Suc.prems(1) t, of "pg P OR pte_flags ctx"] obtain m1 where
    1: "set_entry m t (pidx 0 (B + x)) (pg P OR pte_flags ctx) = Some m1" "pt_inv m1 U F" "grown m m1"
    "same_walk {(B + x) mod 2 ^ 36} m m1" "pte_of m1 (B + x) = Some (pg P OR pte_flags ctx)"
    "\<And>p. length p \<le> 3 \<Longrightarrow> table_at m1 p = table_at m p" by blast
  have "table_at m1 (ppath B 0) = Some t" using Suc.prems(2) 1(6) [of "ppath B 0"] by (simp add: ppath_simps)
  with Suc.IH [of m1 "Suc N" "Suc P"] 1(2) Suc.prems(3-5) obtain m2 where
    2: "norm_l1 n ctx m1 t (pg (Suc N)) (pg (Suc P)) = Some (m2, pg (Suc N + n), pg (Suc P + n))" "pt_inv m2 U F" "grown m1 m2"
    "same_walk (wrapped B (Suc N) n) m1 m2" "\<forall>j<n. pte_of m2 (B + (Suc N + j) mod 512) = Some (pg (Suc P + j) OR pte_flags ctx)"
    by auto
  have fresh: "(B + x) mod 2 ^ 36 \<notin> wrapped B (Suc N) n"
  proof
    assume "(B + x) mod 2 ^ 36 \<in> wrapped B (Suc N) n"
    then obtain j where j: "j < n" "(B + x) mod 2 ^ 36 = (B + (Suc N + j) mod 512) mod 2 ^ 36" by (auto simp: wrapped_def)
    define y where "y = (Suc N + j) mod 512"
    have y: "y < 512" by (simp add: y_def)
    have j2: "(B + x) mod 2 ^ 36 = (B + y) mod 2 ^ 36" using j(2) by (simp add: y_def)
    have "x = y"
    proof (cases "x \<le> y")
      case True
      with mod_inject [OF j2] y show ?thesis by simp
    next
      case False
      with mod_inject [OF j2 [symmetric]] x show ?thesis by simp
    qed
    then have "(Suc N + j) mod 512 = N mod 512" by (simp add: x_def y_def)
    then have "512 dvd (Suc N + j) - N" using mod_eq_dvd_iff_nat [of N "Suc N + j" 512] by (metis le_add1 plus_nat.simps(2) le_SucI)
    then have "512 dvd Suc j" by simp
    then have "512 \<le> Suc j" by (rule dvd_imp_le) simp
    with j(1) Suc.prems(4) show False by simp
  qed
  have sub: "{(B + x) mod 2 ^ 36} \<subseteq> wrapped B N (Suc n)" by (force simp: wrapped_def x_def)
  have sub2: "wrapped B (Suc N) n \<subseteq> wrapped B N (Suc n)"
  proof
    fix y assume "y \<in> wrapped B (Suc N) n"
    then obtain j where "j < n" "y = (B + (N + Suc j) mod 512) mod 2 ^ 36" by (auto simp: wrapped_def)
    then show "y \<in> wrapped B N (Suc n)" unfolding wrapped_def by (intro image_eqI [of _ _ "Suc j"]) simp_all
  qed
  have "pte_of m2 (B + (N + j) mod 512) = Some (pg (P + j) OR pte_flags ctx)" if "j < Suc n" for j
  proof (cases j)
    case 0
    then show ?thesis using 2(4) 1(5) fresh unfolding same_walk_def by (simp add: x_def)
  next
    case (Suc i)
    then show ?thesis using 2(5) that by simp
  qed
  moreover have "norm_l1 (Suc n) ctx m t (pg N) (pg P) = Some (m2, pg (N + Suc n), pg (P + Suc n))"
    using 1(1) 2(1) by (simp add: ix pg_step)
  ultimately show ?case using 2(2) grown_trans [OF 1(3) 2(3)] same_walk_trans [OF 1(4) 2(4) sub sub2] by blast
qed

lemma table_base: "B = N - N mod 512 \<Longrightarrow> B mod 512 = 0 \<and> ppath B 0 = ppath N 0 \<and> (\<forall>j. N mod 512 + j < 512 \<longrightarrow> B + (N + j) mod 512 = N + j)"
proof (intro conjI allI impI)
  assume B: "B = N - N mod 512"
  then have e: "B = 512 * (N div 512)" by (simp add: minus_mod_eq_mult_div)
  then show b: "B mod 512 = 0" by simp
  have "N = B + N mod 512" using e by simp
  then show "ppath B 0 = ppath N 0" using in_table(1) [OF b, of "N mod 512"] by simp
  fix j assume j: "N mod 512 + j < 512"
  have "(N + j) mod 512 = (N mod 512 + j) mod 512" by (simp add: mod_add_left_eq)
  then show "B + (N + j) mod 512 = N + j" using j e by simp
qed

lemma norm_l1_spec:
  assumes "pt_inv m U F" "table_at m (ppath N 0) = Some t" "N mod 512 + n \<le> 512" "N + n \<le> 2 ^ 52"
  shows "\<exists>m'. norm_l1 n ctx m t (pg N) (pg P) = Some (m', pg (N + n), pg (P + n)) \<and> pt_inv m' U F \<and> grown m m' \<and>
     same_walk (pages_mod N n) m m' \<and> (\<forall>j<n. pte_of m' (N + j) = Some (pg (P + j) OR pte_flags ctx))"
proof -
  define B where "B = N - N mod 512"
  note tb = table_base [OF B_def]
  have "pages_mod N n = wrapped B N n" using tb assms(3) by (auto simp: pages_mod_def wrapped_def)
  moreover have "B + (N + j) mod 512 = N + j" if "j < n" for j using tb assms(3) that by auto
  ultimately show ?thesis
    using norm_l1_wraps [OF assms(1) _ _ _ assms(4), of B t ctx P] tb assms(2,3) by auto
qed

lemma page_mod_later:
  assumes "j < a" "a + n \<le> 2 ^ 36"
  shows "(N + j) mod 2 ^ 36 \<notin> pages_mod (N + a) n"
proof
  assume "(N + j) mod 2 ^ 36 \<in> pages_mod (N + a) n"
  then obtain i where i: "i < n" "(N + a + i) mod 2 ^ 36 = (N + j) mod 2 ^ 36" by (auto simp: pages_mod_def)
  moreover have "N + j \<le> N + a + i" using assms(1) by simp
  ultimately have "2 ^ 36 dvd (N + a + i) - (N + j)" using mod_eq_dvd_iff_nat by blast
  then have "2 ^ 36 dvd a + i - j" by simp
  then have "2 ^ 36 \<le> a + i - j" using assms(1) by (intro dvd_imp_le) simp_all
  then show False using i(1) assms(2) by linarith
qed

lemma pages_mod_append: "pages_mod N a \<subseteq> pages_mod N (a + b)" "pages_mod (N + a) b \<subseteq> pages_mod N (a + b)"
proof -
  show "pages_mod N a \<subseteq> pages_mod N (a + b)" by (auto simp: pages_mod_def)
  show "pages_mod (N + a) b \<subseteq> pages_mod N (a + b)"
  proof
    fix x assume "x \<in> pages_mod (N + a) b"
    then obtain i where "i < b" "x = (N + a + i) mod 2 ^ 36" by (auto simp: pages_mod_def)
    then have "a + i < a + b" "x = (N + (a + i)) mod 2 ^ 36" by (simp_all add: add.assoc)
    then show "x \<in> pages_mod N (a + b)" unfolding pages_mod_def by blast
  qed
qed

text \<open>The pages \<open>N\<close> to \<open>N + r - 1\<close> are entered for \<open>P\<close> onwards, and no other translation changes.\<close>

definition entered :: "u64 \<Rightarrow> pgm \<Rightarrow> pgm \<Rightarrow> nat \<Rightarrow> nat \<Rightarrow> nat \<Rightarrow> bool" where
  "entered fl m m' N P r \<longleftrightarrow> same_walk (pages_mod N r) m m' \<and> (\<forall>j<r. pte_of m' (N + j) = Some (pg (P + j) OR fl))"

lemma entered_pre: "same_walk {} a b \<Longrightarrow> entered fl b c N P r \<Longrightarrow> entered fl a c N P r"
  using same_walk_trans [of "{}" a b "pages_mod N r" c "pages_mod N r"] by (simp add: entered_def)

lemma entered_append:
  assumes a: "entered fl m0 m1 N P a" and b: "entered fl m1 m2 (N + a) (P + a) b" and s: "a + b \<le> 2 ^ 36"
  shows "entered fl m0 m2 N P (a + b)"
  unfolding entered_def
proof (intro conjI allI impI)
  show "same_walk (pages_mod N (a + b)) m0 m2"
    using a b pages_mod_append [of N a b] unfolding entered_def by (blast intro: same_walk_trans)
next
  fix j assume j: "j < a + b"
  show "pte_of m2 (N + j) = Some (pg (P + j) OR fl)"
  proof (cases "j < a")
    case True
    then have "pte_of m1 (N + j) = Some (pg (P + j) OR fl)" using a by (simp add: entered_def)
    then show ?thesis using b page_mod_later [OF True s] by (simp add: entered_def same_walk_def)
  next
    case False
    then have "j - a < b" "N + a + (j - a) = N + j" "P + a + (j - a) = P + j" using j by auto
    then show ?thesis using b unfolding entered_def by metis
  qed
qed

lemma norm_l2_spec:
  "pt_inv m U F \<Longrightarrow> 0 < k \<longrightarrow> table_at m (ppath N 1) = Some pd \<Longrightarrow> r \<le> 512 * k \<Longrightarrow> 512 * (k - 1) < r \<or> k = 0 \<Longrightarrow>
   N mod 512 = 0 \<or> N mod 512 + r \<le> 512 \<Longrightarrow> N div 512 mod 512 + k \<le> 512 \<Longrightarrow> N + r \<le> 2 ^ 52 \<Longrightarrow>
   \<forall>j<k. open_at m (ppath N 1) (pidx 1 (N + 512 * j)) \<Longrightarrow> k \<le> card F \<Longrightarrow>
   \<exists>m' F'. norm_l2 k ctx m pd (pg N) (pg P) (of_nat r) = Some (m', pg (N + r), pg (P + r), 0) \<and> pt_inv m' U F' \<and>
     F' \<subseteq> F \<and> card F \<le> card F' + k \<and> grown m m' \<and> entered (pte_flags ctx) m m' N P r"
proof (induction k arbitrary: m N P r F)
  case 0
  then have "r = 0" by simp
  then show ?case using 0 by (intro exI [of _ m] exI [of _ F]) (simp add: entered_def)
next
  case (Suc k)
  have pd: "table_at m (ppath N 1) = Some pd" and op: "open_at m (ppath N 1) (pidx 1 N)"
    using Suc.prems(2) Suc.prems(8) by auto
  have r: "0 < r" "N < 2 ^ 52" using Suc.prems(4,7) by auto
  have ne: "F \<noteq> {}" using Suc.prems(9) by auto
  have ix: "page_l2_idx (pg N) = pidx 1 N" using r(2) by (simp add: idx_simps idx_pageno pageno_pg0)
  have p0: "pidx 1 N # ppath N 1 = ppath N 0" using ppath_Cons [of 0 N] by simp
  from return_pt_spec [OF Suc.prems(1) pd _ op ne] obtain m1 l1 F1 where
    1: "return_pt_or_alloc m pd (pidx 1 N) = Some (m1, l1)" "table_at m1 (ppath N 0) = Some l1" "pt_inv m1 U F1"
    "F1 \<subseteq> F" "card F \<le> card F1 + 1" "grown m m1" "same_walk {} m m1" unfolding p0 by (auto simp: ppath_simps)
  define c where "c = min r 512"
  have c: "N mod 512 + c \<le> 512" "N + c \<le> 2 ^ 52" "c \<le> r" "0 < c"
    using Suc.prems(5,7) r(1) by (auto simp: c_def min_def)
  from norm_l1_spec [OF 1(3,2) c(1,2), of ctx P] obtain m2 where
    2: "norm_l1 c ctx m1 l1 (pg N) (pg P) = Some (m2, pg (N + c), pg (P + c))" "pt_inv m2 U F1" "grown m1 m2"
    "entered (pte_flags ctx) m1 m2 N P c" unfolding entered_def by blast
  have g2: "grown m m2" by (rule grown_trans [OF 1(6) 2(3)])
  have e2: "entered (pte_flags ctx) m m2 N P c" by (rule entered_pre [OF 1(7) 2(4)])
  have rw: "unat (of_nat r :: u64) = r" using Suc.prems(7) by (intro unat_of_nat64) simp
  have cw: "(if of_nat r > (512 :: u64) then 512 else of_nat r) = (of_nat c :: u64)"
    using rw by (auto simp: c_def min_def word_less_nat_alt)
  have cu: "unat (of_nat c :: u64) = c" by (intro unat_of_nat64) (simp add: c_def)
  have rem: "(of_nat r :: u64) - of_nat c = of_nat (r - c)" using c(3) by (simp add: of_nat_diff)
  have step: "norm_l2 (Suc k) ctx m pd (pg N) (pg P) (of_nat r) = norm_l2 k ctx m2 pd (pg (N + c)) (pg (P + c)) (of_nat (r - c))"
    using 1(1) 2(1) by (simp add: ix cw cu rem)
  have rest: "\<exists>m' F'. norm_l2 k ctx m2 pd (pg (N + c)) (pg (P + c)) (of_nat (r - c)) =
      Some (m', pg (N + c + (r - c)), pg (P + c + (r - c)), 0) \<and> pt_inv m' U F' \<and>
      F' \<subseteq> F1 \<and> card F1 \<le> card F' + k \<and> grown m2 m' \<and> entered (pte_flags ctx) m2 m' (N + c) (P + c) (r - c)"
  proof (cases "k = 0")
    case True
    then have "r \<le> 512" using Suc.prems(3) by simp
    then have "r - c = 0" by (simp add: c_def)
    then show ?thesis using True 2(2) by (intro exI [of _ m2] exI [of _ F1]) (simp add: entered_def)
  next
    case False
    then have r512: "512 < r" using Suc.prems(4) by (cases k) auto
    then have c512: "c = 512" by (simp add: c_def)
    have N0: "N mod 512 = 0" using Suc.prems(5) r512 by auto
    have dv: "(N + 512) div 512 = N div 512 + 1" by simp
    have "N div 512 mod 512 \<noteq> 511" using Suc.prems(6) False by auto
    then have md: "(N div 512 + 1) mod 512 = N div 512 mod 512 + 1" "(N div 512 + 1) div 512 = N div 512 div 512"
      by (simp_all add: mod_Suc div_Suc)
    then have "(N + 512) div 2 ^ (9 * Suc 1) = N div 2 ^ (9 * Suc 1)"
      using dv by (simp add: div_mult2_eq [of _ 512 512, simplified])
    then have pp: "ppath (N + 512) 1 = ppath N 1" by (rule ppath_same)
    show ?thesis unfolding c512
    proof (rule Suc.IH [OF 2(2)])
      show "0 < k \<longrightarrow> table_at m2 (ppath (N + 512) 1) = Some pd"
        unfolding pp using g2 pd by (simp add: grown_def ppath_simps)
      show "r - 512 \<le> 512 * k" "512 * (k - 1) < r - 512 \<or> k = 0" using Suc.prems(3,4) False by (auto simp: algebra_simps)
      show "(N + 512) mod 512 = 0 \<or> (N + 512) mod 512 + (r - 512) \<le> 512" using N0 by simp
      show "(N + 512) div 512 mod 512 + k \<le> 512" using Suc.prems(6) dv md by simp
      show "N + 512 + (r - 512) \<le> 2 ^ 52" using Suc.prems(7) r512 by simp
      show "\<forall>j<k. open_at m2 (ppath (N + 512) 1) (pidx 1 (N + 512 + 512 * j))"
      proof (intro allI impI)
        fix j assume "j < k"
        then have "open_at m (ppath N 1) (pidx 1 (N + 512 * Suc j))" using Suc.prems(8) by blast
        then have "open_at m2 (ppath N 1) (pidx 1 (N + 512 * Suc j))" using g2 by (simp add: grown_def ppath_simps)
        then show "open_at m2 (ppath (N + 512) 1) (pidx 1 (N + 512 + 512 * j))" unfolding pp by (simp add: add.assoc)
      qed
      show "k \<le> card F1" using Suc.prems(9) 1(5) by simp
    qed
  qed
  then obtain m' F' where R: "norm_l2 k ctx m2 pd (pg (N + c)) (pg (P + c)) (of_nat (r - c)) = Some (m', pg (N + c + (r - c)), pg (P + c + (r - c)), 0)"
    "pt_inv m' U F'" "F' \<subseteq> F1" "card F1 \<le> card F' + k" "grown m2 m'" "entered (pte_flags ctx) m2 m' (N + c) (P + c) (r - c)"
    by blast
  have "c + (r - c) \<le> 2 ^ 36" using c(3) Suc.prems(3,6) by simp
  from entered_append [OF e2 R(6) this] have e: "entered (pte_flags ctx) m m' N P r" using c(3) by simp
  have "norm_l2 (Suc k) ctx m pd (pg N) (pg P) (of_nat r) = Some (m', pg (N + r), pg (P + r), 0)"
    using step R(1) c(3) by simp
  moreover have "F' \<subseteq> F" "card F \<le> card F' + Suc k" using R(3,4) 1(4,5) by auto
  ultimately show ?case using R(2) grown_trans [OF g2 R(5)] e by blast
qed

text \<open>The whole call, for a range that lies below one entry of the third level: a sequence of whole tables, or
  a part of a single one.\<close>

definition ctx_for :: "page_ctx \<Rightarrow> nat \<Rightarrow> nat \<Rightarrow> nat \<Rightarrow> nat \<Rightarrow> bool" where
  "ctx_for ctx N P r k \<longleftrightarrow> vaddr ctx = pg N \<and> paddr ctx = pg P \<and> l4_ent_count ctx = 1 \<and> l3_ent_count ctx = 1 \<and>
     l2_ent_count ctx = of_nat k \<and> l1_ent_count ctx = of_nat r"

definition fits_tables :: "nat \<Rightarrow> nat \<Rightarrow> nat \<Rightarrow> bool" where
  "fits_tables N r k \<longleftrightarrow> r \<le> 512 * k \<and> 512 * (k - 1) < r \<and> (N mod 512 = 0 \<or> N mod 512 + r \<le> 512) \<and>
     N div 512 mod 512 + k \<le> 512 \<and> N + r \<le> 2 ^ 52"

definition no_large :: "pgm \<Rightarrow> nat \<Rightarrow> nat \<Rightarrow> bool" where
  "no_large m N k \<longleftrightarrow> open_at m (ppath N 3) (pidx 3 N) \<and> open_at m (ppath N 2) (pidx 2 N) \<and>
     (\<forall>j<k. open_at m (ppath N 1) (pidx 1 (N + 512 * j)))"

text \<open>The outer loops, each with one iteration, lead to the loop over the second level.\<close>

lemma pt_map_norm_enters:
  assumes i: "pt_inv m U F" and cx: "ctx_for ctx N P r k" and N: "N < 2 ^ 52" "k \<le> 512" and nl: "no_large m N k"
    and F: "k + 2 \<le> card F"
  obtains m2 l2 F2 where "table_at m2 (ppath N 1) = Some l2" "pt_inv m2 U F2" "F2 \<subseteq> F" "card F \<le> card F2 + 2" "grown m m2"
    "same_walk {} m m2" "\<forall>j<k. open_at m2 (ppath N 1) (pidx 1 (N + 512 * j))"
    "pt_map_norm m (kpt_get_l4 m) ctx = map_option fst (norm_l2 k ctx m2 l2 (pg N) (pg P) (of_nat r))"
proof -
  have ix: "page_l4_idx (pg N) = pidx 3 N" "page_l3_idx (pg N) = pidx 2 N"
    using N(1) by (simp_all add: idx_simps idx_pageno pageno_pg0)
  have pc: "pidx 3 N # ppath N 3 = ppath N 2" "pidx 2 N # ppath N 2 = ppath N 1"
    using ppath_Cons [of 2 N] ppath_Cons [of 1 N] by (simp_all add: numeral_2_eq_2 [symmetric] numeral_3_eq_3 [symmetric])
  have t4: "table_at m (ppath N 3) = Some (kpt_get_l4 m)" by (simp add: ppath_simps)
  have F0: "F \<noteq> {}" using F by auto
  have o3: "open_at m (ppath N 3) (pidx 3 N)" using nl by (simp add: no_large_def)
  from return_pt_spec [OF i t4 _ o3 F0] obtain m1 l3 F1 where
    1: "return_pt_or_alloc m (kpt_get_l4 m) (pidx 3 N) = Some (m1, l3)" "table_at m1 (ppath N 2) = Some l3" "pt_inv m1 U F1"
    "F1 \<subseteq> F" "card F \<le> card F1 + 1" "grown m m1" "same_walk {} m m1" unfolding pc by (auto simp: ppath_simps)
  have F1: "F1 \<noteq> {}" using F 1(5) by auto
  have o2: "open_at m1 (ppath N 2) (pidx 2 N)" using nl 1(6) by (simp add: no_large_def grown_def ppath_simps)
  from return_pt_spec [OF 1(3,2) _ o2 F1] obtain m2 l2 F2 where
    2: "return_pt_or_alloc m1 l3 (pidx 2 N) = Some (m2, l2)" "table_at m2 (ppath N 1) = Some l2" "pt_inv m2 U F2"
    "F2 \<subseteq> F1" "card F1 \<le> card F2 + 1" "grown m1 m2" "same_walk {} m1 m2" unfolding pc by (auto simp: ppath_simps)
  have g: "grown m m2" by (rule grown_trans [OF 1(6) 2(6)])
  have sw: "same_walk {} m m2" by (rule same_walk_trans [OF 1(7) 2(7)]) simp_all
  have o1: "\<forall>j<k. open_at m2 (ppath N 1) (pidx 1 (N + 512 * j))"
    using nl g by (simp add: no_large_def grown_def ppath_simps)
  have ku: "unat (of_nat k :: u64) = k" using N(2) by (intro unat_of_nat64) simp
  then have kw: "(if of_nat k > (512 :: u64) then 512 else of_nat k) = (of_nat k :: u64)"
    using N(2) by (simp add: word_less_nat_alt)
  have run: "pt_map_norm m (kpt_get_l4 m) ctx = map_option fst (norm_l2 k ctx m2 l2 (pg N) (pg P) (of_nat r))"
    using cx 1(1) 2(1) by (cases "norm_l2 k ctx m2 l2 (pg N) (pg P) (of_nat r)") (auto simp: pt_map_norm_def ctx_for_def ix kw ku)
  have s: "F2 \<subseteq> F" "card F \<le> card F2 + 2" using 1(4,5) 2(4,5) by auto
  show ?thesis by (rule that [OF 2(2,3) s g sw o1 run])
qed

lemma pt_map_norm_spec:
  assumes i: "pt_inv m U F" and cx: "ctx_for ctx N P r k" and ft: "fits_tables N r k" and nl: "no_large m N k"
    and F: "k + 2 \<le> card F"
  shows "\<exists>m' F'. pt_map_norm m (kpt_get_l4 m) ctx = Some m' \<and> pt_inv m' U F' \<and> F' \<subseteq> F \<and> card F \<le> card F' + (k + 2) \<and>
    grown m m' \<and> entered (pte_flags ctx) m m' N P r"
proof -
  have N: "N < 2 ^ 52" "k \<le> 512" using ft by (auto simp: fits_tables_def)
  from pt_map_norm_enters [OF i cx N nl F] obtain m2 l2 F2 where
    2: "table_at m2 (ppath N 1) = Some l2" "pt_inv m2 U F2" "F2 \<subseteq> F" "card F \<le> card F2 + 2" "grown m m2"
    "same_walk {} m m2" "\<forall>j<k. open_at m2 (ppath N 1) (pidx 1 (N + 512 * j))"
    "pt_map_norm m (kpt_get_l4 m) ctx = map_option fst (norm_l2 k ctx m2 l2 (pg N) (pg P) (of_nat r))" .
  have pre: "0 < k \<longrightarrow> table_at m2 (ppath N 1) = Some l2" "r \<le> 512 * k" "512 * (k - 1) < r \<or> k = 0"
    "N mod 512 = 0 \<or> N mod 512 + r \<le> 512" "N div 512 mod 512 + k \<le> 512" "N + r \<le> 2 ^ 52"
    using ft 2(1) by (simp_all add: fits_tables_def)
  have kF: "k \<le> card F2" using F 2(4) by simp
  from norm_l2_spec [OF 2(2) pre 2(7) kF, of ctx P] obtain m3 F3 where
    3: "norm_l2 k ctx m2 l2 (pg N) (pg P) (of_nat r) = Some (m3, pg (N + r), pg (P + r), 0)" "pt_inv m3 U F3"
    "F3 \<subseteq> F2" "card F2 \<le> card F3 + k" "grown m2 m3" "entered (pte_flags ctx) m2 m3 N P r" by blast
  have "F3 \<subseteq> F" "card F \<le> card F3 + (k + 2)" using 2(3,4) 3(3,4) by auto
  then show ?thesis using 2(8) 3 grown_trans [OF 2(5) 3(5)] entered_pre [OF 2(6) 3(6)] by auto
qed

text \<open>A range that crosses the end of a last-level table, although it is short enough for one: the rest is
  entered 512 pages too low.\<close>

lemma pt_map_norm_straddle:
  assumes i: "pt_inv m U F" and cx: "ctx_for ctx N P r 1" and r: "r \<le> 512" "512 < N mod 512 + r" "N + r \<le> 2 ^ 52"
    and nl: "no_large m N 1" and F: "3 \<le> card F"
  shows "\<exists>m' F'. pt_map_norm m (kpt_get_l4 m) ctx = Some m' \<and> pt_inv m' U F' \<and>
    (\<forall>j<r. N mod 512 + j < 512 \<longrightarrow> pte_of m' (N + j) = Some (pg (P + j) OR pte_flags ctx)) \<and>
    (\<forall>j<r. 512 \<le> N mod 512 + j \<longrightarrow> pte_of m' (N + j - 512) = Some (pg (P + j) OR pte_flags ctx) \<and>
       kpt_get_phys m' (pg (N + j)) = kpt_get_phys m (pg (N + j)))"
proof -
  have N: "N < 2 ^ 52" "(1 :: nat) \<le> 512" "1 + 2 \<le> card F" using r F by auto
  from pt_map_norm_enters [OF i cx N(1,2) nl N(3)] obtain m2 l2 F2 where
    2: "table_at m2 (ppath N 1) = Some l2" "pt_inv m2 U F2" "F2 \<subseteq> F" "card F \<le> card F2 + 2" "grown m m2"
    "same_walk {} m m2" "\<forall>j<1. open_at m2 (ppath N 1) (pidx 1 (N + 512 * j))"
    "pt_map_norm m (kpt_get_l4 m) ctx = map_option fst (norm_l2 1 ctx m2 l2 (pg N) (pg P) (of_nat r))" .
  have p0: "pidx 1 N # ppath N 1 = ppath N 0" using ppath_Cons [of 0 N] by simp
  have ix: "page_l2_idx (pg N) = pidx 1 N" using N(1) by (simp add: idx_simps idx_pageno pageno_pg0)
  have ne: "F2 \<noteq> {}" using F 2(4) by auto
  have o1: "open_at m2 (ppath N 1) (pidx 1 N)" using 2(7) by simp
  from return_pt_spec [OF 2(2,1) _ o1 ne] obtain m3 l1 F3 where
    3: "return_pt_or_alloc m2 l2 (pidx 1 N) = Some (m3, l1)" "table_at m3 (ppath N 0) = Some l1" "pt_inv m3 U F3"
    "grown m2 m3" "same_walk {} m2 m3" unfolding p0 by (auto simp: ppath_simps)
  define B where "B = N - N mod 512"
  note tb = table_base [OF B_def]
  have b0: "table_at m3 (ppath B 0) = Some l1" using 3(2) tb by simp
  from norm_l1_wraps [OF 3(3) b0 _ r(1,3), of ctx P] tb obtain m4 where
    4: "norm_l1 r ctx m3 l1 (pg N) (pg P) = Some (m4, pg (N + r), pg (P + r))" "pt_inv m4 U F3"
    "same_walk (wrapped B N r) m3 m4" "\<forall>j<r. pte_of m4 (B + (N + j) mod 512) = Some (pg (P + j) OR pte_flags ctx)" by auto
  have ru: "unat (of_nat r :: u64) = r" using r(1) by (intro unat_of_nat64) simp
  then have rw: "(if of_nat r > (512 :: u64) then 512 else of_nat r) = (of_nat r :: u64)"
    using r(1) by (simp add: word_less_nat_alt)
  have run: "pt_map_norm m (kpt_get_l4 m) ctx = Some m4" unfolding 2(8) using 3(1) 4(1) by (simp add: ix rw ru)
  have lo: "B + (N + j) mod 512 = N + j - 512" if "j < r" "512 \<le> N mod 512 + j" for j
  proof -
    have "(N + j) mod 512 = (N mod 512 + j) mod 512" by (simp add: mod_add_left_eq)
    also have "\<dots> = N mod 512 + j - 512"
    proof -
      have "N mod 512 < 512" by simp
      then have "N mod 512 + j - 512 < 512" using that(1) r(1) by linarith
      then show ?thesis using that(2) by (simp add: le_mod_geq)
    qed
    finally show ?thesis using that(2) by (simp add: B_def)
  qed
  have keep: "kpt_get_phys m4 (pg (N + j)) = kpt_get_phys m (pg (N + j))" if j: "j < r" "512 \<le> N mod 512 + j" for j
  proof -
    have pn: "pageno (pg (N + j)) = N + j" using r(3) j(1) by (intro pageno_pg0) simp
    have "(N + j) mod 2 ^ 36 \<notin> wrapped B N r"
    proof
      assume "(N + j) mod 2 ^ 36 \<in> wrapped B N r"
      then obtain i where i: "i < r" "(N + j) mod 2 ^ 36 = (B + (N + i) mod 512) mod 2 ^ 36" by (auto simp: wrapped_def)
      have B: "B + N mod 512 = N" by (simp add: B_def)
      have "(N + i) mod 512 < 512" "N mod 512 < 512" by simp_all
      then have "B + (N + i) mod 512 < N + j" "N + j < B + 1024" using j r(1) B by linarith+
      then have "B + (N + i) mod 512 < N + j" "N + j < B + (N + i) mod 512 + 2 ^ 36" by simp_all
      then have "B + (N + i) mod 512 = N + j" by (intro mod_inject [OF i(2) [symmetric]]) simp_all
      with \<open>B + (N + i) mod 512 < N + j\<close> show False by simp
    qed
    then have "kpt_get_phys m4 (pg (N + j)) = kpt_get_phys m3 (pg (N + j))" using 4(3) pn by (simp add: same_walk_def)
    then show ?thesis using 3(5) 2(6) by (simp add: same_walk_def)
  qed
  show ?thesis using run 4(2,4) lo keep tb by (intro exI [of _ m4] exI [of _ F3] conjI) auto
qed

section \<open>What an entered page translates to\<close>

lemma and_fff:
  assumes "off < 4096"
  shows "(pg N + of_nat off) AND 0xFFF = of_nat off"
proof -
  have "w AND 0xFFF = take_bit 12 w" for w :: u64 by (simp add: take_bit_eq_mask mask_eq_exp_minus_1)
  then have "unat (w AND 0xFFF) = unat w mod 4096" for w :: u64
    by (simp add: unsigned_take_bit_eq take_bit_nat_def)
  then have "unat ((pg N + of_nat off) AND 0xFFF) = unat (pg N + of_nat off) mod 4096" .
  also have "unat (pg N + of_nat off) = (4096 * N + off) mod 2 ^ 64"
  proof -
    have "pg N + of_nat off = of_nat (4096 * N + off)" by (simp add: pg_def)
    then show ?thesis by (simp only: unsigned_of_nat) (simp add: take_bit_nat_def)
  qed
  also have "(4096 * N + off) mod 2 ^ 64 mod 4096 = off"
    using assms mod_mod_cancel [of 4096 "2 ^ 64" "4096 * N + off"] by simp
  finally have u: "unat ((pg N + of_nat off) AND 0xFFF) = off" .
  moreover have "unat (of_nat off :: u64) = off" using assms by (intro unat_of_nat64) simp
  ultimately show ?thesis by (metis word_unat_eq_iff)
qed

lemma leaf_phys:
  assumes lf: "pte_of m N = Some (pg P OR fl)" and b: "N < 2 ^ 52" "P < 2 ^ 40" "off < 4096" and fl: "high_low fl" "bit fl 0"
  shows "kpt_get_phys m (pg N + of_nat off) = Some (pg P + of_nat off)"
proof -
  from lf obtain t where t: "table_at m (ppath N 0) = Some t" "entry m t (pidx 0 N) = Some (pg P OR fl)"
    by (auto simp: pte_of_def split: bind_splits)
  have pn: "pageno (pg N + of_nat off) = N" by (rule pageno_pg [OF b(1,3)])
  have uP: "unat (pg P) = 4096 * P" using pageno_pg(2) [of P 0] b(2) by simp
  have P: "4096 dvd unat (pg P)" "unat (pg P) < 2 ^ 52" using b(2) by (simp_all add: uP)
  have uo: "unat (of_nat off :: u64) = off" using b(3) by (intro unat_of_nat64) simp
  have ob: "n < 12" if "bit (of_nat off :: u64) n" for n
  proof (rule ccontr)
    assume "\<not> n < 12"
    then have "(2 :: nat) ^ 12 \<le> 2 ^ n" by (intro power_increasing) auto
    then have "off div 2 ^ n = 0" using b(3) by simp
    then have "\<not> bit (unat (of_nat off :: u64)) n" by (simp add: uo bit_iff_odd)
    with that show False by (simp add: bit_unsigned_iff)
  qed
  have "pg P OR of_nat off = pg P + of_nat off"
    using page_bits [OF P] ob by (intro disjunctive_add [symmetric]) (meson not_le)
  moreover have "present (pg P OR fl)" using fl(2) by (simp add: present_def bit_simps)
  ultimately show ?thesis
    using leaf_hit [of m "pg N + of_nat off" t "pg P OR fl"] t rebase_or [OF P fl(1)] and_fff [OF b(3), of N]
    by (simp add: tpath_pageno idx_pageno pn)
qed

end
