(* ===== verification/PageSpecs.thy ===== *)
theory PageSpecs
  imports PageEnter VmaAlloc
begin

text \<open>
  What \<^verbatim>\<open>kpt_unmap_page\<close> does to a page that is mapped and to one that is not, how many tables a range
  of pages needs, and \<^verbatim>\<open>ioremap\<close> on areas and page tables together, over the one page allocator.
\<close>

section \<open>Unmapping a page\<close>

lemma kpt_get_l1_path:
  assumes "table_at m (ppath N 1) = Some pd" "N < 2 ^ 52" "entry m pd (pidx 1 N) = Some e"
  shows "kpt_get_l1 m (pg N) 0 = Some (if \<not> present e then KPT_NOT_PRESENT else if large e then 0 else table_ptr e)"
proof -
  have pp: "ppath N 1 = [pidx 2 N, pidx 3 N]"
    using ppath_Cons [of 1 N] ppath_Cons [of 2 N] ppath_simps(1) [of N] by (simp add: numeral_2_eq_2 [symmetric] numeral_3_eq_3 [symmetric])
  have ix: "idx k (pg N) = pidx k N" for k using assms(2) by (simp add: idx_pageno pageno_pg0)
  from assms(1) [unfolded pp] obtain e4 e3 where
    e: "entry m (kpt_get_l4 m) (pidx 3 N) = Some e4" "present e4" "entry m (table_ptr e4) (pidx 2 N) = Some e3"
    "present e3" "\<not> large e3" "pd = table_ptr e3"
    by (auto split: bind_splits if_splits)
  have "kpt_get_l3 m (pg N) 0 = Some (table_ptr e4)" using e(1) by (simp add: kpt_get_l3_def idx_simps ix table_ptr_def)
  then have "kpt_get_l2 m (pg N) 0 = Some pd" using e by (simp add: kpt_get_l2_def idx_simps ix flag_tests table_ptr_def)
  then show ?thesis using assms(3) by (simp add: kpt_get_l1_def idx_simps ix flag_tests table_ptr_def)
qed

lemma align_down_page:
  assumes "off < 4096"
  shows "PAGE_ALIGNDOWN (pg N + of_nat off) = pg N"
proof -
  let ?w = "pg N + of_nat off"
  have "?w = (?w AND 0xFFF) + (?w AND NOT 0xFFF)"
    by (subst disjunctive_add) (auto simp: bit_simps intro!: bit_word_eqI)
  then have "?w AND NOT 0xFFF = ?w - of_nat off" using and_fff [OF assms, of N] by (metis add_diff_cancel_left')
  then show ?thesis by (simp add: PAGE_ALIGNDOWN_def PAGESIZE_def)
qed

lemma clear_present:
  assumes "bit fl 0"
  shows "\<not> present (x AND NOT PT_FLAG_PRESENT)"
  by (simp add: present_def PT_FLAG_PRESENT_def bit_simps)

lemma leaf_absent:
  assumes "pte_of m N = Some e" "\<not> present e" "N < 2 ^ 52" "off < 4096"
  shows "kpt_get_phys m (pg N + of_nat off) = Some KPAGE_ERR"
proof -
  from assms(1) obtain t where t: "table_at m (ppath N 0) = Some t" "entry m t (pidx 0 N) = Some e"
    by (auto simp: pte_of_def split: bind_splits)
  have up: "ppath N 0 = [pidx 1 N, pidx 2 N, pidx 3 N]"
    using ppath_Cons [of 0 N] ppath_Cons [of 1 N] ppath_Cons [of 2 N] ppath_simps(1) [of N]
    by (simp add: numeral_2_eq_2 [symmetric] numeral_3_eq_3 [symmetric])
  from t(1) [unfolded up] obtain e4 e3 e2 where
    e: "entry m (kpt_get_l4 m) (pidx 3 N) = Some e4" "present e4" "entry m (table_ptr e4) (pidx 2 N) = Some e3"
    "present e3" "\<not> large e3" "entry m (table_ptr e3) (pidx 1 N) = Some e2" "present e2" "\<not> large e2" "t = table_ptr e2"
    by (auto split: bind_splits if_splits)
  have ix: "idx k (pg N + of_nat off) = pidx k N" for k using pageno_pg(1) [OF assms(3,4)] by (simp add: idx_pageno)
  show ?thesis using e t(2) assms(2) by (simp add: kpt_get_phys_def idx_simps ix flag_tests table_ptr_def)
qed

lemma kpt_unmap_spec:
  assumes i: "pt_inv m U F" and lf: "pte_of m N = Some e" and b: "N < 2 ^ 52" "off < 4096" "pg N + of_nat off \<noteq> 0"
  shows "\<exists>m'. kpt_unmap_page m (pg N + of_nat off) = Some m' \<and> pt_inv m' U F \<and> invlpg m' = pg N # invlpg m \<and>
    (\<forall>o' < 4096. kpt_get_phys m' (pg N + of_nat o') = Some KPAGE_ERR) \<and> same_walk {N mod 2 ^ 36} m m'"
proof -
  from lf obtain t where t: "table_at m (ppath N 0) = Some t" "entry m t (pidx 0 N) = Some e"
    by (auto simp: pte_of_def split: bind_splits)
  have "ppath N 0 = pidx 1 N # ppath N 1" using ppath_Cons [of 0 N] by simp
  with t(1) obtain pd x where pd: "table_at m (ppath N 1) = Some pd" "entry m pd (pidx 1 N) = Some x" "present x" "\<not> large x"
    "t = table_ptr x"
    by (auto split: bind_splits if_splits simp: ppath_simps(2) [of N 1, simplified] length_0_conv [symmetric] simp del: length_0_conv)
  have l1: "kpt_get_l1 m (pg N) 0 = Some t" using kpt_get_l1_path [OF pd(1) b(1) pd(2)] pd(3-5) by simp
  have ix: "page_l1_idx (pg N) = pidx 0 N" using b(1) by (simp add: idx_simps idx_pageno pageno_pg0)
  from leaf_step [OF i t(1), of "e AND NOT PT_FLAG_PRESENT"] obtain m1 where
    1: "set_entry m t (pidx 0 N) (e AND NOT PT_FLAG_PRESENT) = Some m1" "pt_inv m1 U F" "same_walk {N mod 2 ^ 36} m m1"
    "pte_of m1 N = Some (e AND NOT PT_FLAG_PRESENT)" "invlpg m1 = invlpg m" by blast
  define m' where "m' = tlb_invl_page m1 (pg N)"
  have run: "kpt_unmap_page m (pg N + of_nat off) = Some m'"
    using b(3) l1 t(2) 1(1) by (simp add: kpt_unmap_page_def align_down_page [OF b(2)] ix m'_def)
  have ent: "entry m' = entry m1" "kpt_get_l4 m' = kpt_get_l4 m1"
    by (simp_all add: m'_def tlb_invl_page_def entry_def kpt_get_l4_def fun_eq_iff)
  have tab: "table_at m' p = table_at m1 p" for p by (induction p) (simp_all add: ent)
  have wlk: "pwalk m' w k s = pwalk m1 w k s" for w k s
    by (induction k arbitrary: s) (simp_all add: ent cong: if_cong)
  have gp: "kpt_get_phys m' w = kpt_get_phys m1 w" for w by (simp add: kpt_get_phys_walk wlk ent)
  have lfe: "pte_of m' M = pte_of m1 M" for M by (simp add: pte_of_def tab ent)
  have "pt_inv m' U F" using 1(2) by (simp add: pt_inv_def tree_inj_def tab) (simp add: m'_def tlb_invl_page_def)
  moreover have "same_walk {N mod 2 ^ 36} m m'" using 1(3) by (simp add: same_walk_def gp lfe)
  moreover have "\<not> present (e AND NOT PT_FLAG_PRESENT)" by (simp add: present_def PT_FLAG_PRESENT_def bit_simps)
  then have "kpt_get_phys m' (pg N + of_nat o') = Some KPAGE_ERR" if "o' < 4096" for o'
    using leaf_absent [OF 1(4) _ b(1) that] by (simp add: gp)
  moreover have "invlpg m' = pg N # invlpg m" using 1(5) by (simp add: m'_def tlb_invl_page_def)
  ultimately show ?thesis using run by blast
qed

lemma kpt_unmap_fault:
  assumes t: "table_at m (ppath N 1) = Some pd" "entry m pd (pidx 1 N) = Some e" and n: "\<not> present e \<or> large e"
    and b: "N < 2 ^ 52" "off < 4096" "pg N + of_nat off \<noteq> 0" and e: "tables m KPT_NOT_PRESENT = None"
  shows "kpt_unmap_page m (pg N + of_nat off) = None"
proof -
  have "entry m KPT_NOT_PRESENT j = None" "entry m 0 j = None" for j using e by (simp_all add: entry_def)
  then show ?thesis using kpt_get_l1_path [OF t(1) b(1) t(2)] n b(3)
    by (auto simp: kpt_unmap_page_def align_down_page [OF b(2)])
qed

section \<open>How many tables a range needs\<close>

lemma ceil_tables:
  assumes "r \<le> 2 ^ 40" "s \<le> 39" "12 \<le> s"
  shows "((pg r + (push_bit s 1 - 1)) AND NOT (push_bit s 1 - 1)) div push_bit s 1 =
    (of_nat ((r + (2 ^ (s - 12) - 1)) div 2 ^ (s - 12)) :: u64)"
proof -
  define q where "q = (2 :: nat) ^ (s - 12) - 1"
  have q: "(2 :: nat) ^ (s - 12) = q + 1" by (simp add: q_def)
  have p12: "(2 :: nat) ^ s = 4096 * 2 ^ (s - 12)"
    using power_add [of "2 :: nat" 12 "s - 12"] assms(3) by simp
  have "4096 * r + (2 ^ s - 1) = 4096 * (r + q) + 4095" unfolding p12 q by simp
  then have "(4096 * r + (2 ^ s - 1)) div 2 ^ s = (4096 * (r + q) + 4095) div 4096 div 2 ^ (s - 12)"
    by (simp only: p12 div_mult2_eq)
  also have "\<dots> = (r + (2 ^ (s - 12) - 1)) div 2 ^ (s - 12)" by (simp add: q_def)
  finally show ?thesis using ceil_bytes [of "4096 * r" s] assms by (simp add: pg_def)
qed

lemma table_counts:
  assumes "0 < r" "r \<le> 512 * 512"
  shows "get_pagetbl_count_l1 (pg r) = of_nat ((r + 511) div 512)" "get_pagetbl_count_l2 (pg r) = 1" "get_pagetbl_count_l3 (pg r) = 1"
proof -
  have r: "r \<le> 2 ^ 40" using assms(2) by simp
  show "get_pagetbl_count_l1 (pg r) = of_nat ((r + 511) div 512)"
    using ceil_tables [OF r, of 21]
    by (simp add: get_pagetbl_count_l1_def PT_L2_ENTRYMASK_def PT_L2_ENTRYSZ_def PT_L1_ENTRYSZ_def PT_ENTRIES_def push_bit_eq_mult)
  have "(r + 262143) div 262144 = 1" "(r + 134217727) div 134217728 = 1" using assms by (auto intro: div_nat_eqI)
  then show "get_pagetbl_count_l2 (pg r) = 1" "get_pagetbl_count_l3 (pg r) = 1"
    using ceil_tables [OF r, of 30] ceil_tables [OF r, of 39]
    by (simp_all add: get_pagetbl_count_l2_def get_pagetbl_count_l3_def PT_L4_ENTRYMASK_def PT_L4_ENTRYSZ_def PT_L3_ENTRYMASK_def
        PT_L3_ENTRYSZ_def PT_L2_ENTRYSZ_def PT_L1_ENTRYSZ_def PT_ENTRIES_def push_bit_eq_mult)
qed

section \<open>Flags\<close>

lemma pte_flags_ok: "high_low (vma_to_pte_flags fl)" "bit (vma_to_pte_flags fl) 0"
proof -
  have hl: "high_low (a OR b)" if "high_low a" "high_low b" for a b using that by (auto simp: high_low_def bit_simps)
  have fb: "high_low (push_bit k 1)" if "k < 12 \<or> 52 \<le> k" for k using that by (auto simp: high_low_def bit_simps)
  have fs: "high_low PT_FLAG_PRESENT" "high_low PT_FLAG_WRITABLE" "high_low PT_FLAG_USER" "high_low PT_FLAG_WRITE_THROUGH"
    "high_low PT_FLAG_PAGECACHE_DISABLE" "high_low (push_bit 63 1)"
    unfolding PT_FLAG_PRESENT_def PT_FLAG_WRITABLE_def PT_FLAG_USER_def PT_FLAG_WRITE_THROUGH_def PT_FLAG_PAGECACHE_DISABLE_def
    by (rule fb; simp)+
  have hi: "high_low (if c then a else b)" if "high_low a" "high_low b" for c a b using that by simp
  show "high_low (vma_to_pte_flags fl)"
    unfolding vma_to_pte_flags_def Let_def by (intro hi hl fs)
  show "bit (vma_to_pte_flags fl) 0"
    unfolding vma_to_pte_flags_def Let_def by (simp add: bit_simps PT_FLAG_PRESENT_def)
qed

section \<open>Areas and page tables together\<close>

text \<open>Both invariants, over the one page allocator.\<close>

definition kvm_inv :: "kvm \<Rightarrow> kslab_cache \<Rightarrow> rbt \<Rightarrow> u64 set \<Rightarrow> u64 set \<Rightarrow> u64 set \<Rightarrow> u64 set \<Rightarrow> bool" where
  "kvm_inv kv d t U F Up Fp \<longleftrightarrow> vma_inv (areas_of kv) d t U F \<and>
     pt_inv ((pages_of kv)\<lparr>pt_buddy := buddy (kheap (areas_of kv))\<rparr>) Up Fp"

lemma slab_pool_buddy: "slab_pool cp d (h\<lparr>buddy := b\<rparr>) U F = slab_pool cp d h U F"
proof -
  have "get_cache (h\<lparr>buddy := b\<rparr>) = get_cache h" "get_slab (h\<lparr>buddy := b\<rparr>) = get_slab h"
    by (simp_all add: get_cache_def get_slab_def fun_eq_iff)
  then show ?thesis by (simp add: slab_pool_def slab_inv_def slab_ok_def)
qed

lemma vma_inv_buddy: "vma_inv (m\<lparr>kheap := (kheap m)\<lparr>buddy := b\<rparr>\<rparr>) d t U F = vma_inv m d t U F"
proof -
  let ?m = "m\<lparr>kheap := (kheap m)\<lparr>buddy := b\<rparr>\<rparr>"
  have g: "get_vma ?m = get_vma m" by (simp add: get_vma_def fun_eq_iff)
  then have "area ?m = area m" by (simp add: area_def fun_eq_iff)
  with g show ?thesis
    by (simp add: vma_inv_def vma_tree_ok_def areas_ok_def in_region_def region_end_def slab_pool_buddy)
qed

lemma bud_indep:
  "table_at (m\<lparr>pt_buddy := b\<rparr>) p = table_at m p" "entry (m\<lparr>pt_buddy := b\<rparr>) = entry m"
  by (induction p) (simp_all add: entry_def fun_eq_iff)

lemma bud_indep2:
  "kpt_get_phys (m\<lparr>pt_buddy := b\<rparr>) = kpt_get_phys m" "pte_of (m\<lparr>pt_buddy := b\<rparr>) = pte_of m"
  "no_large (m\<lparr>pt_buddy := b\<rparr>) = no_large m"
proof -
  have "pwalk (m\<lparr>pt_buddy := b\<rparr>) w k r = pwalk m w k r" for w k r
    by (induction k arbitrary: r) (simp_all add: bud_indep(2) cong: if_cong)
  then show "kpt_get_phys (m\<lparr>pt_buddy := b\<rparr>) = kpt_get_phys m" by (simp add: fun_eq_iff kpt_get_phys_walk)
  show "pte_of (m\<lparr>pt_buddy := b\<rparr>) = pte_of m" by (simp add: fun_eq_iff pte_of_def bud_indep)
  show "no_large (m\<lparr>pt_buddy := b\<rparr>) = no_large m" by (simp add: fun_eq_iff no_large_def open_at_def bud_indep)
qed

lemma aligned_1G: "IS_ALIGNED x SZ_1G \<Longrightarrow> IS_ALIGNED x SZ_2M"
proof -
  have m: "SZ_1G - 1 = mask 30" "SZ_2M - 1 = mask 21" by (simp_all add: SZ_1G_def SZ_2M_def mask_eq_exp_minus_1)
  have "x AND mask 21 = (x AND mask 30) AND mask 21" by (intro bit_word_eqI) (auto simp: bit_simps)
  then show "IS_ALIGNED x SZ_1G \<Longrightarrow> IS_ALIGNED x SZ_2M" unfolding IS_ALIGNED_def m by simp
qed

lemma page_count: "r < 2 ^ 52 \<Longrightarrow> drop_bit 12 (pg r) = of_nat r"
proof -
  assume r: "r < 2 ^ 52"
  have "unat (drop_bit 12 (pg r)) = r" using pageno_pg(2) [OF r, of 0] by (simp add: unat_drop)
  moreover have "of_nat (unat x) = x" for x :: u64 by simp
  ultimately show ?thesis by metis
qed

lemma ioremap_area:
  assumes i: "kvm_inv kv d t U F Up Fp" and F: "F \<noteq> {}" and r: "0 < r" "N + r < 2 ^ 52"
    and place: "vma_place (areas_of kv) (pg r) = Some (Some (pg N))" "pg r \<le> r_end (areas_of kv) - r_start (areas_of kv)"
  obtains vm t' p where "vma_alloc_area (areas_of kv) (pg r) fl = Some (vm, p)" "p \<in> F"
    "get_vma vm p = Some \<lparr>vm_start = pg N, vm_end = pg N + pg r, vm_pages = 0, vm_flags = fl\<rparr>"
    "vma_inv vm d t' U (F - {p})" "buddy (kheap vm) = buddy (kheap (areas_of kv))" "p \<noteq> VMA_INVALID_PTR"
proof -
  have vi: "vma_inv (areas_of kv) d t U F" using i by (simp add: kvm_inv_def)
  note ia = vma_inv_addrs [OF vi]
  from vma_place_spec [OF ia(2,1) place(2)] place(1) obtain l where
    gl: "(pg N, l) \<in> set (vma_gaps (areas_of kv) (addrs t))" "pg r \<le> l" by auto
  have NR: "4096 * (N + r) < 2 ^ 64" "0 < 4096 * (N + r)" using r by simp_all
  have "pg N + pg r = of_nat (4096 * (N + r))" by (simp add: pg_def)
  then have "unat (pg N + pg r) = 4096 * (N + r)" using NR(1) by (simp only: unat_of_nat64)
  then have g0: "pg N + pg r \<noteq> 0" using NR(2) by auto
  have up: "pg r = PAGE_ALIGNUP (pg r)"
    using align_down_page [of 4095 r] by (simp add: PAGE_ALIGNUP_def PAGE_ALIGNDOWN_def PAGESIZE_def)
  from vma_alloc_placed [OF vi F up place(2,1) gl g0, of fl] obtain vm t' p where
    v: "vma_alloc_area (areas_of kv) (pg r) fl = Some (vm, p)" "p \<in> F"
    "get_vma vm p = Some \<lparr>vm_start = pg N, vm_end = pg N + pg r, vm_pages = 0, vm_flags = fl\<rparr>"
    "vma_inv vm d t' U (F - {p})" "buddy (kheap vm) = buddy (kheap (areas_of kv))" by blast
  have sp: "slab_pool (vma_cache (areas_of kv)) d (kheap (areas_of kv)) U F" using vi by (simp add: vma_inv_def)
  have "p \<noteq> VMA_INVALID_PTR" using sp.pool_ok [OF sp] v(2) by (auto simp: VMA_INVALID_PTR_def KPAGE_ERR_def)
  with v show ?thesis by (rule that)
qed

lemma ioremap_spec:
  assumes i: "kvm_inv kv d t U F Up Fp" and F: "F \<noteq> {}"
    and phy: "phy = pg P + of_nat off" "off < 4096" "PAGE_ALIGNUP (len + of_nat off) = pg r" "0 < r"
    and place: "vma_place (areas_of kv) (pg r) = Some (Some (pg N))" "pg r \<le> r_end (areas_of kv) - r_start (areas_of kv)"
    and k: "k = (r + 511) div 512" and ft: "N mod 512 = 0 \<or> N mod 512 + r \<le> 512" "N div 512 mod 512 + k \<le> 512" "N + r < 2 ^ 52"
    and P: "P + r \<le> 2 ^ 40" and small: "\<not> (IS_ALIGNED (pg P) SZ_2M \<and> IS_ALIGNED (pg N) SZ_2M \<and> IS_ALIGNED (pg r) SZ_2M)"
    and nl: "no_large (pages_of kv) N k" and Fp: "k + 2 \<le> card Fp"
  shows "\<exists>kv' t' p Fp'. ioremap kv phy len fl = Some (kv', pg N + of_nat off) \<and> kvm_inv kv' d t' U (F - {p}) Up Fp' \<and> Fp' \<subseteq> Fp \<and>
    (\<forall>j<r. \<forall>o' < 4096. kpt_get_phys (pages_of kv') (pg (N + j) + of_nat o') = Some (pg (P + j) + of_nat o')) \<and>
    same_walk (pages_mod N r) (pages_of kv) (pages_of kv')"
proof -
  define b where "b = buddy (kheap (areas_of kv))"
  have pi: "pt_inv ((pages_of kv)\<lparr>pt_buddy := b\<rparr>) Up Fp" using i by (simp add: kvm_inv_def b_def)
  from ioremap_area [OF i F phy(4) ft(3) place, of fl] obtain vm t' p where
    v: "vma_alloc_area (areas_of kv) (pg r) fl = Some (vm, p)" "p \<in> F"
    "get_vma vm p = Some \<lparr>vm_start = pg N, vm_end = pg N + pg r, vm_pages = 0, vm_flags = fl\<rparr>"
    "vma_inv vm d t' U (F - {p})" "buddy (kheap vm) = b" and pn: "p \<noteq> VMA_INVALID_PTR" unfolding b_def .
  define ctx where "ctx = \<lparr>vaddr = pg N, paddr = pg P, align_sz = pg r, pte_flags = vma_to_pte_flags fl,
    l4_ent_count = get_pagetbl_count_l3 (pg r), l3_ent_count = get_pagetbl_count_l2 (pg r),
    l2_ent_count = get_pagetbl_count_l1 (pg r), l1_ent_count = drop_bit 12 (pg r)\<rparr>"
  have k5: "k \<le> 512" "512 * (k - 1) < r" "r \<le> 512 * k" using ft(2) phy(4) unfolding k by linarith+
  then have r5: "r \<le> 512 * 512" by simp
  have cx: "ctx_for ctx N P r k"
    using table_counts [OF phy(4) r5] page_count [of r] r5 by (simp add: ctx_for_def ctx_def k)
  have fits: "fits_tables N r k" using ft k5 by (simp add: fits_tables_def)
  have nl': "no_large ((pages_of kv)\<lparr>pt_buddy := b\<rparr>) N k" using nl by (simp add: bud_indep2)
  from pt_map_norm_spec [OF pi cx fits nl' Fp] obtain m' Fp' where
    m': "pt_map_norm ((pages_of kv)\<lparr>pt_buddy := b\<rparr>) (kpt_get_l4 (pages_of kv)) ctx = Some m'" "pt_inv m' Up Fp'" "Fp' \<subseteq> Fp"
    "entered (pte_flags ctx) ((pages_of kv)\<lparr>pt_buddy := b\<rparr>) m' N P r" by auto
  define kv' where "kv' = \<lparr>areas_of = vm\<lparr>kheap := (kheap vm)\<lparr>buddy := pt_buddy m'\<rparr>\<rparr>, pages_of = m'\<rparr>"
  have ad: "phy AND (PAGESIZE - 1) = of_nat off" "PAGE_ALIGNDOWN phy = pg P"
    using and_fff [OF phy(2)] align_down_page [OF phy(2)] by (simp_all add: phy(1) PAGESIZE_def)
  have nh: "\<not> (IS_ALIGNED (pg P) SZ_1G \<and> IS_ALIGNED (pg N) SZ_1G \<and> IS_ALIGNED (pg r) SZ_1G)" using small aligned_1G by blast
  have vc: "vaddr ctx = pg N" by (simp add: ctx_def)
  have "ioremap kv phy len fl = Some (kv', pg N + of_nat off)"
    unfolding ioremap_def Let_def ad phy(3) v(1) using pn v(3) small nh m'(1) v(5)
    by (auto simp: ctx_def [symmetric] vc with_pages_def kv'_def)
  moreover have "kvm_inv kv' d t' U (F - {p}) Up Fp'"
    using v(4) m'(2) by (simp add: kvm_inv_def kv'_def vma_inv_buddy)
  moreover have "kpt_get_phys m' (pg (N + j) + of_nat o') = Some (pg (P + j) + of_nat o')" if "j < r" "o' < 4096" for j o'
  proof (rule leaf_phys)
    show "pte_of m' (N + j) = Some (pg (P + j) OR vma_to_pte_flags fl)"
      using m'(4) that(1) by (simp add: entered_def ctx_def)
    show "N + j < 2 ^ 52" "P + j < 2 ^ 40" using ft(3) P that(1) by linarith+
  qed (use that(2) pte_flags_ok in simp_all)
  moreover have "same_walk (pages_mod N r) (pages_of kv) m'" using m'(4) by (simp add: entered_def same_walk_def bud_indep2)
  ultimately show ?thesis using m'(3)
    by (intro exI [of _ kv'] exI [of _ t'] exI [of _ p] exI [of _ Fp']) (simp add: kv'_def)
qed
end
