(* ===== verification/PageProps.thy ===== *)
theory PageProps
  imports PageSpecs VmaProps
begin

text \<open>
  The claims about page tables and device mappings (\<^verbatim>\<open>kernel/pagetbl.c\<close>, \<^verbatim>\<open>kernel/mm/vmalloc.c\<close>), with a
  concrete machine on which their hypotheses hold: the demonstration region of the page allocator, one page of
  which serves the slab cache of areas, and an empty fourth-level table below it.
\<close>

section \<open>Page tables on the demonstration memory\<close>

lemma demo1_pool:
  obtains Up Fp where "page_pool demo1 Up Fp" "card Fp = 4" "\<forall>x \<in> Up. 0x400000 \<le> unat (virt_to_phys_pm x)"
proof (rule demo1_inv)
  fix s assume s: "get_slave demo1 demo_sp = Some s" "region_inv demo1 s 2048 ((\<lambda>_. [])(2 := [0]))"
    "same_geom demo_slave s" "same_mem demo0 demo1"
  have r: "regions demo1 = demo_sp # KPAGE_ERR # replicate 126 0" "region_count demo1 = 1"
    using s(4) by (simp_all add: same_mem_def demo0_vals)
  have g: "geom s 2048" using s(2) by (rule region_invD)
  have tp: "unat (total_pages s) = 2047" and mb: "mbase s = 0x400000"
    using s(3) demo_slave_vals by (simp_all add: same_geom_def)
  have ff: "free_frames ((\<lambda>_. [])(2 := [0])) = {..<4}" by (auto simp: free_frames_def fr_def)
  have p: "page_pool demo1 (frames s UNIV) (frames s {..<4})"
    unfolding page_pool_def using s(1,2) r demo_sp(2)
    by (intro exI [of _ s] exI [of _ 2048] exI [of _ "(\<lambda>_. [])(2 := [0])"]) (simp add: ff)
  have "inj_on (faddr s) {..<4}" by (intro inj_onI) (auto simp: faddr_inj [OF g])
  moreover have "{..<4} \<inter> {..<unat (total_pages s)} = {..<(4 :: nat)}" by (auto simp: tp)
  ultimately have "card (frames s {..<4}) = 4" by (simp add: frames_def card_image)
  moreover have "\<forall>x \<in> frames s UNIV. 0x400000 \<le> unat (virt_to_phys_pm x)"
    using faddr_phys [OF g] by (auto simp: frames_def tp mb)
  ultimately show ?thesis using that p by blast
qed

text \<open>One page is taken for the slab; the fourth-level table is empty and lies below the region.\<close>

definition demo_pgm :: "kbuddy \<Rightarrow> pgm" where
  "demo_pgm b = \<lparr>pt_buddy = b, tables = [0xFFFF800000001000 \<mapsto> (\<lambda>_. 0)], cr3 = 0x1000, invlpg = [], pt_bytes = (\<lambda>_. 0)\<rparr>"

lemma demo_pgm_tables: "kpt_get_l4 (demo_pgm b) = 0xFFFF800000001000" "table_at (demo_pgm b) (i # p) = None"
proof -
  have "PT_REBASE 0x1000 = 0x1000" by (simp add: PT_REBASE_def page_phys_rebase_def BITRANGE_MASK_def)
  then show l4: "kpt_get_l4 (demo_pgm b) = 0xFFFF800000001000"
    by (simp add: kpt_get_l4_def demo_pgm_def phys_to_virt_pm_def get_kernel_phmap_def KERNEL_PHMMAP_def)
  show "table_at (demo_pgm b) (i # p) = None"
  proof (cases "table_at (demo_pgm b) p")
    case (Some t)
    have "entry (demo_pgm b) t i = None \<or> entry (demo_pgm b) t i = Some 0" by (simp add: entry_def demo_pgm_def)
    moreover have "\<not> present 0" by (simp add: present_def)
    ultimately show ?thesis using Some by (elim disjE) simp_all
  qed simp
qed

lemma demo_pgm_inv:
  assumes "kbud_alloc demo1 0 = Some (b, a)"
  obtains Up Fp where "pt_inv (demo_pgm b) Up Fp" "card Fp = 3" "no_large (demo_pgm b) N k"
proof (rule demo1_pool)
  fix Up F assume p: "page_pool demo1 Up F" "card F = 4" "\<forall>x \<in> Up. 0x400000 \<le> unat (virt_to_phys_pm x)"
  have "F \<noteq> {}" using p(2) by auto
  from pages.alloc_fresh [OF p(1) this] assms have a: "a \<in> F" "page_pool b Up (F - {a})" by auto
  have "finite F" "F \<subseteq> Up" using pages.pool_ok [OF p(1)] by auto
  then have c: "card (F - {a}) = 3" using p(2) a(1) by simp
  have l4: "0xFFFF800000001000 \<notin> Up" using p(3) by (auto simp: virt_to_phys_pm_def get_kernel_phmap_def KERNEL_PHMMAP_def)
  have t: "table_at (demo_pgm b) q = Some s \<longleftrightarrow> q = [] \<and> s = 0xFFFF800000001000" for q s
    using demo_pgm_tables by (cases q) (auto simp del: table_at.simps(2))
  have "tree_inj (demo_pgm b)" by (auto simp: tree_inj_def t)
  then have "pt_inv (demo_pgm b) Up (F - {a})"
    using a(2) l4 \<open>F \<subseteq> Up\<close> by (auto simp: pt_inv_def t) (simp_all add: demo_pgm_def)
  moreover have "\<not> present 0" by (simp add: present_def)
  then have "no_large (demo_pgm b) N k" by (auto simp: no_large_def open_at_def t) (auto simp: entry_def demo_pgm_def split: if_splits)
  ultimately show ?thesis using that c by blast
qed

definition demo_ctx :: "nat \<Rightarrow> nat \<Rightarrow> nat \<Rightarrow> page_ctx" where
  "demo_ctx N P r = \<lparr>vaddr = pg N, paddr = pg P, align_sz = pg r, pte_flags = 3, l4_ent_count = 1, l3_ent_count = 1,
     l2_ent_count = 1, l1_ent_count = of_nat r\<rparr>"

section \<open>Claims\<close>

text \<open>C19. \<^verbatim>\<open>ioremap\<close> in the case it is right: the cache has a free object and the areas a gap for the range; the
  physical base, the place and the size are not all multiples of 2 MiB; the place lies within one last-level table or
  starts at the beginning of one, and all of it below a single 1 GiB entry; no large page hangs where the tables are
  needed; the page allocator has a frame for each last-level table and two more; physical addresses stay below
  2^52. Then it returns the address of the new area with the offset into its page, every byte of the mapped pages
  translates to its physical address, all other translations stay, and the invariants of areas, slab cache, page
  tables and page allocator hold again. A place that runs over the end of a last-level table is excluded and is
  mapped wrongly: see \<^verbatim>\<open>pt_map_norm_straddles\<close>.\<close>

theorem ioremap_correct:
  assumes "kvm_inv kv d t U F Up Fp" "F \<noteq> {}"
    and "phy = pg P + of_nat off" "off < 4096" "PAGE_ALIGNUP (len + of_nat off) = pg r" "0 < r"
    and "vma_place (areas_of kv) (pg r) = Some (Some (pg N))" "pg r \<le> r_end (areas_of kv) - r_start (areas_of kv)"
    and "k = (r + 511) div 512" "N mod 512 = 0 \<or> N mod 512 + r \<le> 512" "N div 512 mod 512 + k \<le> 512" "N + r < 2 ^ 52"
    and "P + r \<le> 2 ^ 40" "\<not> (IS_ALIGNED (pg P) SZ_2M \<and> IS_ALIGNED (pg N) SZ_2M \<and> IS_ALIGNED (pg r) SZ_2M)"
    and "no_large (pages_of kv) N k" "k + 2 \<le> card Fp"
  shows "\<exists>kv' t' p Fp'. ioremap kv phy len fl = Some (kv', pg N + of_nat off) \<and> kvm_inv kv' d t' U (F - {p}) Up Fp' \<and> Fp' \<subseteq> Fp \<and>
    (\<forall>j<r. \<forall>o' < 4096. kpt_get_phys (pages_of kv') (pg (N + j) + of_nat o') = Some (pg (P + j) + of_nat o')) \<and>
    same_walk (pages_mod N r) (pages_of kv) (pages_of kv')"
  by (rule ioremap_spec [OF assms])

lemma ioremap_correct_witness:
  "\<exists>kv kv'. ioremap kv 0xFEC00010 0x1000 (VM_READ OR VM_WRITE OR VM_IO) = Some (kv', 0xFFFFC00000000010) \<and>
     kpt_get_phys (pages_of kv') 0xFFFFC00000001004 = Some 0xFEC01004"
proof (rule demo_region)
  fix m c a assume m: "vma_inv m c Leaf (objs_of c a) (objs_of c a)" "r_start m = KERNEL_VMMMAP"
    "r_end m = KERNEL_VMMMAP + KERNEL_VMMAP_LEN" "card (objs_of c a) = 63" "r_tree m = rb_inittree Map.empty"
    "kbud_alloc demo1 0 = Some (buddy (kheap m), a)"
  define N :: nat where "N = 0xFFFFC00000000"
  from demo_pgm_inv [OF m(6)] obtain Up Fp where p: "pt_inv (demo_pgm (buddy (kheap m))) Up Fp" "card Fp = 3"
    "no_large (demo_pgm (buddy (kheap m))) N 1" .
  define kv where "kv = \<lparr>areas_of = m, pages_of = demo_pgm (buddy (kheap m))\<rparr>"
  have ki: "kvm_inv kv c Leaf (objs_of c a) (objs_of c a) Up Fp" using m(1) p(1) by (simp add: kvm_inv_def kv_def demo_pgm_def)
  have ne: "objs_of c a \<noteq> {}" using m(4) by auto
  have al: "PAGE_ALIGNUP (0x1000 + of_nat 16) = pg 2" by (simp add: PAGE_ALIGNUP_def PAGESIZE_def pg_def)
  have ph: "0xFEC00010 = pg 0xFEC00 + of_nat 16" by (simp add: pg_def)
  have pl: "vma_place (areas_of kv) (pg 2) = Some (Some (pg N))"
    using m(2,5) by (simp add: vma_place_def kv_def rb_inittree_def pg_def N_def KERNEL_VMMMAP_def)
  have rg: "pg 2 \<le> r_end (areas_of kv) - r_start (areas_of kv)" using m(2,3) by (simp add: kv_def pg_def KERNEL_VMMAP_LEN_def)
  have na: "\<not> (IS_ALIGNED (pg 0xFEC00) SZ_2M \<and> IS_ALIGNED (pg N) SZ_2M \<and> IS_ALIGNED (pg 2) SZ_2M)"
    by (simp add: IS_ALIGNED_def pg_def SZ_2M_def)
  have nl: "no_large (pages_of kv) N 1" using p(3) by (simp add: kv_def)
  from ioremap_correct [OF ki ne ph _ al _ pl rg _ _ _ _ _ na nl, of "VM_READ OR VM_WRITE OR VM_IO"] p(2) obtain kv' where
    "ioremap kv 0xFEC00010 0x1000 (VM_READ OR VM_WRITE OR VM_IO) = Some (kv', pg N + of_nat 16)"
    "\<forall>j<2. \<forall>o' < 4096. kpt_get_phys (pages_of kv') (pg (N + j) + of_nat o') = Some (pg (0xFEC00 + j) + of_nat o')"
    by (auto simp: N_def)
  moreover from this(2) have "kpt_get_phys (pages_of kv') (pg (N + 1) + of_nat 4) = Some (pg (0xFEC00 + 1) + of_nat 4)"
    by (elim allE [where x = 1]) (auto dest: spec [of _ 4])
  ultimately show ?thesis by (intro exI [of _ kv] exI [of _ kv']) (simp add: pg_def N_def)
qed

text \<open>C24. \<^verbatim>\<open>pt_map_norm\<close> of a range that fits one last-level table in length but runs over the end of one: the pages
  behind the end are entered at the beginning of the same table, 512 pages too low, over whatever is mapped
  there, and keep their old translation themselves.\<close>

theorem pt_map_norm_straddles:
  assumes "pt_inv m U F" "ctx_for ctx N P r 1" "r \<le> 512" "512 < N mod 512 + r" "N + r \<le> 2 ^ 52"
    and "no_large m N 1" "3 \<le> card F"
  shows "\<exists>m' F'. pt_map_norm m (kpt_get_l4 m) ctx = Some m' \<and> pt_inv m' U F' \<and>
    (\<forall>j<r. N mod 512 + j < 512 \<longrightarrow> pte_of m' (N + j) = Some (pg (P + j) OR pte_flags ctx)) \<and>
    (\<forall>j<r. 512 \<le> N mod 512 + j \<longrightarrow> pte_of m' (N + j - 512) = Some (pg (P + j) OR pte_flags ctx) \<and>
       kpt_get_phys m' (pg (N + j)) = kpt_get_phys m (pg (N + j)))"
  by (rule pt_map_norm_straddle [OF assms])

lemma pt_map_norm_straddles_witness:
  "\<exists>b m'. pt_map_norm (demo_pgm b) (kpt_get_l4 (demo_pgm b)) (demo_ctx 511 0x100 2) = Some m' \<and>
     pte_of m' 511 = Some (pg 0x100 OR 3) \<and> pte_of m' 0 = Some (pg 0x101 OR 3) \<and>
     kpt_get_phys m' 0x200000 = Some KPAGE_ERR"
proof (rule demo_page)
  fix b a assume b: "kbud_alloc demo1 0 = Some (b, a)"
  from demo_pgm_inv [OF b] obtain Up Fp where p: "pt_inv (demo_pgm b) Up Fp" "card Fp = 3" "no_large (demo_pgm b) 511 1" .
  have "ctx_for (demo_ctx 511 0x100 2) 511 0x100 2 1" by (simp add: ctx_for_def demo_ctx_def)
  from pt_map_norm_straddles [OF p(1) this _ _ _ p(3)] p(2) obtain m' where
    r: "pt_map_norm (demo_pgm b) (kpt_get_l4 (demo_pgm b)) (demo_ctx 511 0x100 2) = Some m'"
    "\<forall>j<2. 511 mod 512 + j < 512 \<longrightarrow> pte_of m' (511 + j) = Some (pg (0x100 + j) OR 3)"
    "\<forall>j<2. 512 \<le> 511 mod 512 + j \<longrightarrow> pte_of m' (511 + j - 512) = Some (pg (0x100 + j) OR 3) \<and>
       kpt_get_phys m' (pg (511 + j)) = kpt_get_phys (demo_pgm b) (pg (511 + j))"
    by (auto simp: demo_ctx_def)
  have "kpt_get_phys (demo_pgm b) w = Some KPAGE_ERR" for w
    by (simp add: kpt_get_phys_def demo_pgm_tables) (simp add: entry_def demo_pgm_def)
  then show ?thesis using r(1) r(2) [rule_format, of 0] r(3) [rule_format, of 1]
    by (intro exI [of _ b] exI [of _ m']) (simp add: pg_def)
qed

text \<open>C23. \<^verbatim>\<open>kpt_unmap_page\<close> of any address in a mapped 4 KiB page takes exactly that page out of the translation
  and invalidates its entry in the TLB; of an address whose second-level entry is not present or large it
  dereferences \<^verbatim>\<open>KPT_NOT_PRESENT\<close> or null.\<close>

theorem kpt_unmap_page_correct:
  assumes "pt_inv m U F" "N < 2 ^ 52" "off < 4096" "pg N + of_nat off \<noteq> 0"
  shows "(\<forall>e. pte_of m N = Some e \<longrightarrow> (\<exists>m'. kpt_unmap_page m (pg N + of_nat off) = Some m' \<and> pt_inv m' U F \<and>
      invlpg m' = pg N # invlpg m \<and> (\<forall>o' < 4096. kpt_get_phys m' (pg N + of_nat o') = Some KPAGE_ERR) \<and>
      same_walk {N mod 2 ^ 36} m m')) \<and>
    (\<forall>pd e. table_at m (ppath N 1) = Some pd \<and> entry m pd (pidx 1 N) = Some e \<and> (\<not> present e \<or> large e) \<and>
      tables m KPT_NOT_PRESENT = None \<longrightarrow> kpt_unmap_page m (pg N + of_nat off) = None)"
  using kpt_unmap_spec [OF assms(1) _ assms(2-4)] kpt_unmap_fault [OF _ _ _ assms(2-4)] by blast

lemma kpt_unmap_page_correct_witness:
  "\<exists>m m'. pte_of m 5 = Some 0x100003 \<and> kpt_unmap_page m 0x5008 = Some m' \<and> kpt_get_phys m' 0x5000 = Some KPAGE_ERR"
proof (rule demo_page)
  fix b a assume b: "kbud_alloc demo1 0 = Some (b, a)"
  from demo_pgm_inv [OF b] obtain Up Fp where p: "pt_inv (demo_pgm b) Up Fp" "card Fp = 3" "no_large (demo_pgm b) 5 1" .
  have "ctx_for (demo_ctx 5 0x100 1) 5 0x100 1 1" "fits_tables 5 1 1" by (simp_all add: ctx_for_def demo_ctx_def fits_tables_def)
  from pt_map_norm_spec [OF p(1) this p(3)] p(2) obtain m F where
    m: "pt_inv m Up F" "entered 3 (demo_pgm b) m 5 0x100 1" by (auto simp: demo_ctx_def)
  have l: "pte_of m 5 = Some 0x100003" using m(2) by (simp add: entered_def pg_def)
  have "pg 5 + of_nat 8 \<noteq> (0 :: u64)" by (simp add: pg_def)
  from kpt_unmap_page_correct [OF m(1) _ _ this] l obtain m' where
    "kpt_unmap_page m (pg 5 + of_nat 8) = Some m'" "\<forall>o' < 4096. kpt_get_phys m' (pg 5 + of_nat o') = Some KPAGE_ERR"
    by auto
  then show ?thesis using l by (intro exI [of _ m] exI [of _ m']) (auto simp: pg_def dest: spec [of _ 0])
qed

end
