(* ===== verification/Kstring.thy ===== *)
theory Kstring
  imports Prelude
begin

text \<open>
  The string and memory routines of \<^verbatim>\<open>kernel/kstring.c\<close>, the x86 string instructions of
  \<^verbatim>\<open>kernel/include/str_io.h\<close> they are built on, and the character classes of
  \<^verbatim>\<open>kernel/kctype.h\<close>. Memory is a total map from addresses to bytes; the direction flag is part of
  the state, because the string instructions walk downwards while it is set. Scanning for a
  terminator is a \<open>partial_function\<close>: without one it never stops.
\<close>

section \<open>The string instructions\<close>

record cpu =
  ram :: "u64 \<Rightarrow> u8"
  df :: bool

definition dir :: "bool \<Rightarrow> u64" where
  "dir d = (if d then -1 else 1)"

primrec movsb_n :: "nat \<Rightarrow> cpu \<Rightarrow> u64 \<Rightarrow> u64 \<Rightarrow> cpu \<times> u64" where
  "movsb_n 0 st d s = (st, d)"
| "movsb_n (Suc n) st d s =
     movsb_n n (st\<lparr>ram := (ram st)(d := ram st s)\<rparr>) (d + dir (df st)) (s + dir (df st))"

definition rep_movsb :: "cpu \<Rightarrow> u64 \<Rightarrow> u64 \<Rightarrow> u64 \<Rightarrow> cpu \<times> u64" where
  "rep_movsb st d s n = movsb_n (unat n) st d s"

primrec stosb_n :: "nat \<Rightarrow> cpu \<Rightarrow> u64 \<Rightarrow> u8 \<Rightarrow> cpu \<times> u64" where
  "stosb_n 0 st d c = (st, d)"
| "stosb_n (Suc n) st d c = stosb_n n (st\<lparr>ram := (ram st)(d := c)\<rparr>) (d + dir (df st)) c"

definition rep_stosb :: "cpu \<Rightarrow> u64 \<Rightarrow> u8 \<Rightarrow> u64 \<Rightarrow> cpu \<times> u64" where
  "rep_stosb st d c n = stosb_n (unat n) st d c"

text \<open>\<open>repne scasb\<close> returns the address after the last byte compared and the count left.\<close>

primrec scasb_n :: "nat \<Rightarrow> cpu \<Rightarrow> u64 \<Rightarrow> u8 \<Rightarrow> u64 \<times> nat" where
  "scasb_n 0 st p v = (p, 0)"
| "scasb_n (Suc n) st p v =
     (if ram st p = v then (p + dir (df st), n) else scasb_n n st (p + dir (df st)) v)"

definition repne_scasb :: "cpu \<Rightarrow> u64 \<Rightarrow> u8 \<Rightarrow> u64 \<Rightarrow> u64 \<times> u64" where
  "repne_scasb st p v n = (case scasb_n (unat n) st p v of (q, r) \<Rightarrow> (q, of_nat r))"

definition x86_cld :: "cpu \<Rightarrow> cpu" where "x86_cld st = st\<lparr>df := False\<rparr>"
definition x86_std :: "cpu \<Rightarrow> cpu" where "x86_std st = st\<lparr>df := True\<rparr>"

section \<open>kstring.c\<close>

partial_function (option) strlen_loop :: "cpu \<Rightarrow> u64 \<Rightarrow> u64 \<Rightarrow> u64 option" where
  "strlen_loop st str len =
     (if ram st str \<noteq> 0 then strlen_loop st (str + 1) (len + 1) else Some len)"

definition strlen :: "cpu \<Rightarrow> u64 \<Rightarrow> u64 option" where
  "strlen st str = strlen_loop st str 0"

function strnlen_loop :: "cpu \<Rightarrow> u64 \<Rightarrow> u64 \<Rightarrow> u64 \<Rightarrow> u64" where
  "strnlen_loop st str maxlen i =
     (if i < maxlen \<and> ram st (str + i) \<noteq> 0 then strnlen_loop st str maxlen (i + 1) else i)"
  by pat_completeness auto
termination
proof (relation "measure (\<lambda>(st, str, maxlen, i). unat maxlen - unat i)")
  fix st :: cpu and str maxlen i :: u64
  assume "i < maxlen \<and> ram st (str + i) \<noteq> 0"
  then have lt: "i < maxlen" by simp
  from unat_inc [OF lt] lt show "((st, str, maxlen, i + 1), (st, str, maxlen, i))
      \<in> measure (\<lambda>(st, str, maxlen, i). unat maxlen - unat i)"
    by (simp add: word_less_nat_alt)
qed simp

definition strnlen :: "cpu \<Rightarrow> u64 \<Rightarrow> u64 \<Rightarrow> u64" where
  "strnlen st str maxlen = strnlen_loop st str maxlen 0"

definition memcpy :: "cpu \<Rightarrow> u64 \<Rightarrow> u64 \<Rightarrow> u64 \<Rightarrow> cpu \<times> u64" where
  "memcpy st dest src n = (let st = x86_cld st; (st, _) = rep_movsb st dest src n in (st, dest))"

definition mempcpy :: "cpu \<Rightarrow> u64 \<Rightarrow> u64 \<Rightarrow> u64 \<Rightarrow> cpu \<times> u64" where
  "mempcpy st dest src n = (let (st, _) = rep_movsb st dest src n in (st, dest))"

primrec memccpy_loop :: "nat \<Rightarrow> cpu \<Rightarrow> u64 \<Rightarrow> u64 \<Rightarrow> u8 \<Rightarrow> cpu \<times> u64" where
  "memccpy_loop 0 st d s c = (st, 0)"
| "memccpy_loop (Suc n) st d s c =
     (let v = ram st s; st = st\<lparr>ram := (ram st)(d := v)\<rparr> in
      if ram st s = c then (st, d + 1) else memccpy_loop n st (d + 1) (s + 1) c)"

definition memccpy :: "cpu \<Rightarrow> u64 \<Rightarrow> u64 \<Rightarrow> u32 \<Rightarrow> u64 \<Rightarrow> cpu \<times> u64" where
  "memccpy st dest src c n = memccpy_loop (unat n) st dest src (ucast c)"

definition memset :: "cpu \<Rightarrow> u64 \<Rightarrow> u32 \<Rightarrow> u64 \<Rightarrow> cpu \<times> u64" where
  "memset st s c n = (let st = x86_cld st; (st, _) = rep_stosb st s (ucast c) n in (st, s))"

text \<open>\<open>destination[i] = source[i]\<close> for \<open>i\<close> from \<open>i0\<close> upwards, and for \<open>i\<close> downwards to 0.\<close>

primrec move_up :: "nat \<Rightarrow> (u64 \<Rightarrow> u8) \<Rightarrow> u64 \<Rightarrow> u64 \<Rightarrow> u64 \<Rightarrow> (u64 \<Rightarrow> u8)" where
  "move_up 0 m d s i = m"
| "move_up (Suc n) m d s i = move_up n (m(d + i := m (s + i))) d s (i + 1)"

primrec move_down :: "nat \<Rightarrow> (u64 \<Rightarrow> u8) \<Rightarrow> u64 \<Rightarrow> u64 \<Rightarrow> (u64 \<Rightarrow> u8)" where
  "move_down 0 m d s = m"
| "move_down (Suc i) m d s = move_down i (m(d + of_nat i := m (s + of_nat i))) d s"

definition memmove :: "cpu \<Rightarrow> u64 \<Rightarrow> u64 \<Rightarrow> u64 \<Rightarrow> cpu \<times> u64" where
  "memmove st dest src n =
     (if dest = src \<or> n = 0 then (st, dest)
      else if dest < src then (st\<lparr>ram := move_up (unat n) (ram st) dest src 0\<rparr>, dest)
      else (st\<lparr>ram := move_down (unat n) (ram st) dest src\<rparr>, dest))"

definition stpcpy :: "cpu \<Rightarrow> u64 \<Rightarrow> u64 \<Rightarrow> (cpu \<times> u64) option" where
  "stpcpy st dest src = do {
     n \<leftarrow> strlen st src;
     let (st, s) = mempcpy st dest src n;
     let st = st\<lparr>ram := (ram st)(s := 0)\<rparr>;
     Some (st, s) }"

definition strcat :: "cpu \<Rightarrow> u64 \<Rightarrow> u64 \<Rightarrow> (cpu \<times> u64) option" where
  "strcat st dest src = do {
     n \<leftarrow> strlen st dest;
     (st, _) \<leftarrow> stpcpy st (dest + n) src;
     Some (st, dest) }"

definition strcpy :: "cpu \<Rightarrow> u64 \<Rightarrow> u64 \<Rightarrow> (cpu \<times> u64) option" where
  "strcpy st dest src = do {
     (st, _) \<leftarrow> stpcpy st dest src;
     Some (st, dest) }"

text \<open>\<open>lit\<close> is the address of the literal \<^verbatim>\<open>""\<close>.\<close>

definition strncat :: "u64 \<Rightarrow> cpu \<Rightarrow> u64 \<Rightarrow> u64 \<Rightarrow> u64 \<Rightarrow> (cpu \<times> u64) option" where
  "strncat lit st dst src ssize = do {
     n \<leftarrow> strlen st dst;
     let (st, p) = memcpy st (dst + n) src (strnlen st src ssize);
     (st, _) \<leftarrow> stpcpy st p lit;
     Some (st, dst) }"

definition stpncpy :: "cpu \<Rightarrow> u64 \<Rightarrow> u64 \<Rightarrow> u64 \<Rightarrow> cpu \<times> u64" where
  "stpncpy st dest src dsize =
     (let len = strnlen st src dsize;
          (st, p) = mempcpy st dest src len
      in memset st p 0 (dsize - len))"

definition strncpy :: "cpu \<Rightarrow> u64 \<Rightarrow> u64 \<Rightarrow> u64 \<Rightarrow> cpu \<times> u64" where
  "strncpy st dest src dsize = (let (st, _) = stpncpy st dest src dsize in (st, dest))"

definition strchr :: "cpu \<Rightarrow> u64 \<Rightarrow> u32 \<Rightarrow> (cpu \<times> u64) option" where
  "strchr st s c = do {
     let st = x86_cld st;
     n \<leftarrow> strlen st s;
     let (end, remaining) = repne_scasb st s (ucast c) (n + 1);
     Some (st, if remaining \<noteq> 0 then end - 1 else 0) }"

definition strrchr :: "cpu \<Rightarrow> u64 \<Rightarrow> u32 \<Rightarrow> (cpu \<times> u64) option" where
  "strrchr st s c = do {
     strsz \<leftarrow> strlen st s;
     let st = x86_std st;
     let (end, remaining) = repne_scasb st (s + strsz) (ucast c) (strsz + 1);
     let st = x86_cld st;
     Some (st, if remaining \<noteq> 0 then end + 1 else 0) }"

definition strchrnul :: "cpu \<Rightarrow> u64 \<Rightarrow> u32 \<Rightarrow> (cpu \<times> u64) option" where
  "strchrnul st s c = do {
     let st = x86_cld st;
     n \<leftarrow> strlen st s;
     let (end, remaining) = repne_scasb st s (ucast c) (n + 1);
     Some (st, end - 1) }"

declare strlen_loop.simps [code]

section \<open>kctype.h\<close>

definition isupper :: "u8 \<Rightarrow> bool" where "isupper c = (c \<ge> 0x41 \<and> c \<le> 0x5A)"
definition islower :: "u8 \<Rightarrow> bool" where "islower c = (c \<ge> 0x61 \<and> c \<le> 0x7A)"
definition isdigit :: "u8 \<Rightarrow> bool" where "isdigit c = (c \<ge> 0x30 \<and> c \<le> 0x39)"
definition isblank :: "u8 \<Rightarrow> bool" where "isblank c = (c = 0x20 \<or> c = 0x09)"
definition isspace :: "u8 \<Rightarrow> bool" where "isspace c = (c = 0x20 \<or> (c \<ge> 0x09 \<and> c \<le> 0x0D))"
definition iscntrl :: "u8 \<Rightarrow> bool" where "iscntrl c = (c < 0x20 \<or> c = 0x7f)"

definition ispunct :: "u8 \<Rightarrow> bool" where
  "ispunct c = ((c \<ge> 0x21 \<and> c \<le> 0x2F) \<or> (c \<ge> 0x3A \<and> c \<le> 0x40) \<or>
     (c \<ge> 0x5B \<and> c \<le> 0x60) \<or> (c \<ge> 0x7B \<and> c \<le> 0x7E))"

definition isalpha :: "u8 \<Rightarrow> bool" where "isalpha c = (islower c \<or> isupper c)"
definition isalnum :: "u8 \<Rightarrow> bool" where "isalnum c = (isalpha c \<or> isdigit c)"
definition isgraph :: "u8 \<Rightarrow> bool" where "isgraph c = (isalnum c \<or> ispunct c)"
definition isprint :: "u8 \<Rightarrow> bool" where "isprint c = (isgraph c \<or> c = 0x20)"

definition isxdigit :: "u8 \<Rightarrow> bool" where
  "isxdigit c = (isdigit c \<or> (c \<ge> 0x61 \<and> c \<le> 0x66) \<or> (c \<ge> 0x41 \<and> c \<le> 0x46))"

section \<open>Terminated strings and searches\<close>

fun cstr :: "(u64 \<Rightarrow> u8) \<Rightarrow> u64 \<Rightarrow> u8 list \<Rightarrow> bool" where
  "cstr m p [] \<longleftrightarrow> m p = 0"
| "cstr m p (x # xs) \<longleftrightarrow> m p = x \<and> x \<noteq> 0 \<and> cstr m (p + 1) xs"

lemma cstr_nth: "cstr m p xs \<Longrightarrow> i \<le> length xs \<Longrightarrow> m (p + of_nat i) = (xs @ [0]) ! i"
proof (induction xs arbitrary: p i)
  case Nil
  then show ?case by simp
next
  case (Cons x xs)
  then show ?case using Cons.IH [of "p + 1" "i - 1"] by (cases i) (simp_all add: add.assoc)
qed

lemma cstr_nonzero: "cstr m p xs \<Longrightarrow> 0 \<notin> set xs"
  by (induction xs arbitrary: p) auto

lemma cstr_frame:
  "cstr m p xs \<Longrightarrow> (\<And>i. i \<le> length xs \<Longrightarrow> m' (p + of_nat i) = m (p + of_nat i)) \<Longrightarrow> cstr m' p xs"
proof (induction xs arbitrary: p)
  case Nil
  from Nil.prems(2) [of 0] Nil.prems(1) show ?case by simp
next
  case (Cons x xs)
  have "m' (p + 1 + of_nat i) = m (p + 1 + of_nat i)" if "i \<le> length xs" for i
    using Cons.prems(2) [of "Suc i"] that by (simp add: add.assoc)
  with Cons.IH [of "p + 1"] Cons.prems(1) Cons.prems(2) [of 0] show ?case by simp
qed

lemma strlen_loop_cstr: "cstr (ram st) p xs \<Longrightarrow> strlen_loop st p len = Some (len + of_nat (length xs))"
proof (induction xs arbitrary: p len)
  case Nil
  then show ?case by (subst strlen_loop.simps) simp
next
  case (Cons x xs)
  then show ?case by (subst strlen_loop.simps) (simp add: add.assoc)
qed

lemma strlen_cstr: "cstr (ram st) p xs \<Longrightarrow> strlen st p = Some (of_nat (length xs))"
  by (simp add: strlen_def strlen_loop_cstr)

abbreviation idx :: "u8 \<Rightarrow> u8 list \<Rightarrow> nat" where
  "idx v xs \<equiv> length (takeWhile (\<lambda>x. x \<noteq> v) xs)"

lemma idx_le: "idx v xs \<le> length xs"
  by (rule length_takeWhile_le)

lemma idx_less: "idx v xs < length xs \<longleftrightarrow> v \<in> set xs"
  by (induction xs) auto

lemma scasb_up:
  "\<not> df st \<Longrightarrow> cstr (ram st) p xs \<Longrightarrow>
   scasb_n (Suc (length xs)) st p v = (p + of_nat (idx v xs) + 1, length xs - idx v xs)"
proof (induction xs arbitrary: p)
  case Nil
  then show ?case by (simp add: dir_def)
next
  case (Cons x xs)
  from Cons.IH [of "p + 1"] Cons.prems show ?case by (auto simp: dir_def add.assoc)
qed

lemma scasb_down:
  "df st \<Longrightarrow> (\<And>i. i < length ys \<Longrightarrow> ram st (p + of_nat i) = ys ! i) \<Longrightarrow>
   scasb_n (length ys) st (p + of_nat (length ys) - 1) v =
     (p + of_nat (length ys - 1 - idx v (rev ys)) - (if v \<in> set ys then 1 else 1),
      length ys - 1 - idx v (rev ys))"
proof (induction ys rule: rev_induct)
  case Nil
  then show ?case by simp
next
  case (snoc y ys)
  have "ram st (p + of_nat (length ys)) = y" using snoc.prems(2) [of "length ys"] by simp
  moreover have "scasb_n (length ys) st (p + of_nat (length ys) - 1) v =
     (p + of_nat (length ys - 1 - idx v (rev ys)) - (if v \<in> set ys then 1 else 1),
      length ys - 1 - idx v (rev ys))"
    using snoc.prems by (intro snoc.IH) (auto simp: nth_append dest: less_SucI)
  ultimately show ?case using snoc.prems(1) by (auto simp: dir_def)
qed

lemma unat_len: "length xs + 1 < 2 ^ 64 \<Longrightarrow> unat (of_nat (length xs) + 1 :: u64) = Suc (length xs)"
  using unat_plus_of_nat [of 1 "length xs"] by (simp add: add.commute)

lemma cld_simps [simp]: "\<not> df (x86_cld st)" "ram (x86_cld st) = ram st" "df (x86_std st)" "ram (x86_std st) = ram st"
  "x86_cld (x86_std st) = x86_cld st"
  by (simp_all add: x86_cld_def x86_std_def)

lemma strchr_cstr:
  assumes s: "cstr (ram st) s xs" and n: "length xs + 1 < 2 ^ 64"
  shows "strchr st s c = Some (x86_cld st, if ucast c \<in> set xs then s + of_nat (idx (ucast c) xs) else 0)"
proof -
  have "length xs - idx (ucast c) xs < 2 ^ 64" using n by simp
  from of_nat_zero [OF this] have "of_nat (length xs - idx (ucast c) xs) = (0 :: u64) \<longleftrightarrow> ucast c \<notin> set xs"
    using idx_less [of "ucast c" xs] by auto
  with s unat_len [OF n] scasb_up [of "x86_cld st" s xs "ucast c"] show ?thesis
    by (simp add: strchr_def strlen_cstr repne_scasb_def)
qed

lemma strchrnul_cstr:
  assumes s: "cstr (ram st) s xs" and n: "length xs + 1 < 2 ^ 64"
  shows "strchrnul st s c = Some (x86_cld st, s + of_nat (idx (ucast c) xs))"
  using s unat_len [OF n] scasb_up [of "x86_cld st" s xs "ucast c"]
  by (simp add: strchrnul_def strlen_cstr repne_scasb_def)

lemma strrchr_cstr:
  assumes s: "cstr (ram st) s xs" and n: "length xs + 1 < 2 ^ 64"
  shows "strrchr st s c = Some (x86_cld st,
    let j = length xs - idx (ucast c) (0 # rev xs) in if j \<noteq> 0 then s + of_nat j else 0)"
proof -
  define ys where "ys = xs @ [0]"
  define j where "j = length xs - idx (ucast c) (0 # rev xs)"
  have j: "j = length ys - 1 - idx (ucast c) (rev ys)" by (simp add: j_def ys_def)
  have "ram (x86_std st) (s + of_nat i) = ys ! i" if "i < length ys" for i
    using cstr_nth [OF s, of i] that by (simp add: ys_def)
  then have "scasb_n (length ys) (x86_std st) (s + of_nat (length ys) - 1) (ucast c) =
      (s + of_nat j - (if ucast c \<in> set ys then 1 else 1), j)"
    unfolding j by (intro scasb_down) simp
  then have "repne_scasb (x86_std st) (s + of_nat (length xs)) (ucast c) (of_nat (length xs) + 1) =
      (s + of_nat j - 1, of_nat j)"
    by (simp add: repne_scasb_def unat_len [OF n] ys_def del: scasb_n.simps)
  moreover have "of_nat j = (0 :: u64) \<longleftrightarrow> j = 0" using n by (intro of_nat_zero) (simp add: j_def)
  ultimately show ?thesis
    unfolding j_def [symmetric] by (simp add: strrchr_def strlen_cstr [OF s])
qed

section \<open>Copies\<close>

lemma move_up_spec:
  assumes "\<And>j k. j < k \<Longrightarrow> k < n \<Longrightarrow> s + i + of_nat k \<noteq> d + i + of_nat j" "n \<le> 2 ^ 64"
  shows "move_up n m d s i a =
    (if \<exists>j<n. a = d + i + of_nat j then m (s + (a - d)) else m a)"
  using assms
proof (induction n arbitrary: m i)
  case 0
  then show ?case by simp
next
  case (Suc n)
  let ?m = "m(d + i := m (s + i))"
  have "s + (i + 1) + of_nat k \<noteq> d + (i + 1) + of_nat j" if "j < k" "k < n" for j k
    using Suc.prems(1) [of "Suc j" "Suc k"] that by (simp add: add_ac)
  then have ih: "move_up (Suc n) m d s i a =
    (if \<exists>j<n. a = d + (i + 1) + of_nat j then ?m (s + (a - d)) else ?m a)"
    unfolding move_up.simps by (rule Suc.IH) (use Suc.prems(2) in simp_all)
  show ?case
  proof (cases "\<exists>j<n. a = d + (i + 1) + of_nat j")
    case True
    then obtain j where j: "j < n" "a = d + i + of_nat (Suc j)" by (auto simp: add_ac)
    then have "s + (a - d) = s + i + of_nat (Suc j)" by (simp add: add_ac)
    with Suc.prems(1) [of 0 "Suc j"] j(1) have "?m (s + (a - d)) = m (s + (a - d))" by simp
    with ih True j show ?thesis by (metis Suc_mono)
  next
    case False
    then have "(\<exists>j<Suc n. a = d + i + of_nat j) \<longleftrightarrow> a = d + i"
      by (auto simp: less_Suc_eq_0_disj add_ac)
    with ih False show ?thesis by (auto simp: fun_upd_def)
  qed
qed

lemma move_down_spec:
  assumes "\<And>j k. j < k \<Longrightarrow> k < n \<Longrightarrow> s + of_nat j \<noteq> d + of_nat k" "n \<le> 2 ^ 64"
  shows "move_down n m d s a = (if \<exists>j<n. a = d + of_nat j then m (s + (a - d)) else m a)"
  using assms
proof (induction n arbitrary: m)
  case 0
  then show ?case by simp
next
  case (Suc n)
  let ?m = "m(d + of_nat n := m (s + of_nat n))"
  have ih: "move_down (Suc n) m d s a =
    (if \<exists>j<n. a = d + of_nat j then ?m (s + (a - d)) else ?m a)"
    unfolding move_down.simps by (rule Suc.IH) (use Suc.prems in simp_all)
  show ?case
  proof (cases "\<exists>j<n. a = d + of_nat j")
    case True
    then obtain j where j: "j < n" "a = d + of_nat j" by auto
    with Suc.prems(1) [of j n] have "?m (s + (a - d)) = m (s + (a - d))" by simp
    with ih True j show ?thesis by (metis less_SucI)
  next
    case False
    then have "(\<exists>j<Suc n. a = d + of_nat j) \<longleftrightarrow> a = d + of_nat n" by (auto simp: less_Suc_eq)
    with ih False show ?thesis by (auto simp: fun_upd_def)
  qed
qed

lemma no_alias:
  fixes d s :: u64
  assumes "d < s" "unat s + n \<le> 2 ^ 64" "j < k" "k < n"
  shows "s + of_nat k \<noteq> d + of_nat j"
proof
  assume e: "s + of_nat k = d + of_nat j"
  have "unat d < unat s" using assms(1) by (simp add: word_less_nat_alt)
  then have "unat (s + of_nat k) = unat s + k" "unat (d + of_nat j) = unat d + j"
    using assms(2-4) by (auto intro!: unat_plus_of_nat)
  with e \<open>unat d < unat s\<close> \<open>j < k\<close> show False by simp
qed

lemma memmove_spec:
  assumes "unat d + unat n \<le> 2 ^ 64" "unat s + unat n \<le> 2 ^ 64"
  shows "\<exists>st'. memmove st d s n = (st', d) \<and> df st' = df st \<and>
    (\<forall>a. ram st' a = (if \<exists>j<unat n. a = d + of_nat j then ram st (s + (a - d)) else ram st a))"
proof -
  have n: "unat n \<le> 2 ^ 64" using assms(1) by simp
  consider "d = s \<or> n = 0" | "d \<noteq> s" "n \<noteq> 0" "d < s" | "d \<noteq> s" "n \<noteq> 0" "s < d" by fastforce
  then show ?thesis
  proof cases
    case 1
    then show ?thesis by (auto simp: memmove_def)
  next
    case 2
    then show ?thesis
      using no_alias [of d s "unat n"] assms(2) n by (auto simp: memmove_def move_up_spec)
  next
    case 3
    have "s + of_nat j \<noteq> d + of_nat k" if "j < k" "k < unat n" for j k
      using no_alias [OF 3(3) assms(1) that] by metis
    with 3 n show ?thesis by (auto simp: memmove_def move_down_spec)
  qed
qed

lemma movsb_frame:
  "\<not> df st \<Longrightarrow> (\<And>j. j < n \<Longrightarrow> a \<noteq> d + of_nat j) \<Longrightarrow> ram (fst (movsb_n n st d s)) a = ram st a"
proof (induction n arbitrary: st d s)
  case 0
  then show ?case by simp
next
  case (Suc n)
  have "a \<noteq> d + 1 + of_nat j" if "j < n" for j
    using Suc.prems(2) [of "Suc j"] that by (simp add: add_ac)
  moreover have "a \<noteq> d" using Suc.prems(2) [of 0] by simp
  ultimately show ?case using Suc.IH [of _ "d + 1" "s + 1"] Suc.prems(1) by (simp add: dir_def)
qed

lemma stpcpy_at_dest:
  assumes "cstr (ram st) s xs"
  shows "stpcpy st d s = Some (let st' = fst (movsb_n (unat (of_nat (length xs) :: u64)) st d s) in
    st'\<lparr>ram := (ram st')(d := 0)\<rparr>, d)"
  using strlen_cstr [OF assms]
  by (simp add: stpcpy_def mempcpy_def rep_movsb_def Let_def split: prod.split)

lemma strcpy_empty_aux:
  assumes "cstr (ram st) s xs"
  shows "\<exists>st'. strcpy st d s = Some (st', d) \<and> cstr (ram st') d []"
  using stpcpy_at_dest [OF assms, of d] by (simp add: strcpy_def Let_def)

lemma strcat_keeps:
  assumes d: "cstr (ram st) d xs" and s: "cstr (ram st) s ys" and df: "\<not> df st"
    and n: "length xs + length ys < 2 ^ 64"
  shows "\<exists>st'. strcat st d s = Some (st', d) \<and> cstr (ram st') d xs"
proof -
  define e where "e = d + of_nat (length xs)"
  define st1 where "st1 = fst (movsb_n (unat (of_nat (length ys) :: u64)) st e s)"
  have "ram st1 (d + of_nat i) = ram st (d + of_nat i)" if i: "i < length xs" for i
    unfolding st1_def
  proof (rule movsb_frame [OF df])
    fix j assume "j < unat (of_nat (length ys) :: u64)"
    then have "j < length ys" using n by (simp add: unat_of_nat)
    then have "(of_nat i :: u64) \<noteq> of_nat (length xs + j)"
      using n i of_nat_eq [of i "length xs + j"] by simp
    then show "d + of_nat i \<noteq> e + of_nat j" by (simp add: e_def add.assoc)
  qed
  moreover have "d + of_nat i \<noteq> e" if "i < length xs" for i
    using of_nat_eq [of i "length xs"] that n by (simp add: e_def)
  ultimately have "cstr ((ram st1)(e := 0)) d xs"
    using cstr_nth [OF d, of "length xs"]
    by (intro cstr_frame [OF d]) (auto simp: e_def le_less)
  with stpcpy_at_dest [OF s, of e] strlen_cstr [OF d] show ?thesis
    by (simp add: strcat_def st1_def e_def Let_def)
qed

section \<open>Properties\<close>

text \<open>On a terminated string, \<^verbatim>\<open>strlen\<close> returns its length and \<^verbatim>\<open>strchrnul\<close> the first
  occurrence of the character or the terminator; \<^verbatim>\<open>strchr\<close> returns the first occurrence of a
  character of the string, and null for one that does not occur, the terminator included.\<close>

theorem strchr_finds_first:
  assumes "cstr (ram st) s xs" "length xs + 1 < 2 ^ 64"
  shows "strlen st s = Some (of_nat (length xs)) \<and>
    strchrnul st s c = Some (x86_cld st, s + of_nat (idx (ucast c) xs)) \<and>
    strchr st s c = Some (x86_cld st, if ucast c \<in> set xs then s + of_nat (idx (ucast c) xs) else 0)"
  using assms by (simp add: strlen_cstr strchr_cstr strchrnul_cstr)

definition demo_cpu :: cpu where
  "demo_cpu = \<lparr>ram = (\<lambda>_. 0)(100 := 0x61, 101 := 0x62, 102 := 0x61), df = False\<rparr>"

lemma strchr_finds_first_witness:
  "strlen demo_cpu 100 = Some 3 \<and> strchr demo_cpu 100 0x62 = Some (x86_cld demo_cpu, 101) \<and>
   strchr demo_cpu 100 0 = Some (x86_cld demo_cpu, 0)"
  using strchr_finds_first [of demo_cpu 100 "[0x61, 0x62, 0x61]" "0x62"]
    strchr_finds_first [of demo_cpu 100 "[0x61, 0x62, 0x61]" 0]
  by (simp add: demo_cpu_def)

text \<open>\<^verbatim>\<open>strrchr\<close> returns the last occurrence of the character except when that is the first
  byte of the string: the backward scan then leaves the count at 0, which it takes for a miss, and
  it returns null.\<close>

theorem strrchr_misses_first_byte:
  assumes "cstr (ram st) s xs" "length xs + 1 < 2 ^ 64"
  shows "strrchr st s c = Some (x86_cld st,
    let j = length xs - idx (ucast c) (0 # rev xs) in if j \<noteq> 0 then s + of_nat j else 0)"
  using assms by (rule strrchr_cstr)

lemma strrchr_misses_first_byte_witness:
  "strrchr demo_cpu 100 0x61 = Some (x86_cld demo_cpu, 102) \<and>
   strrchr (demo_cpu\<lparr>ram := (ram demo_cpu)(102 := 0x63)\<rparr>) 100 0x61 = Some (x86_cld (demo_cpu\<lparr>ram := (ram demo_cpu)(102 := 0x63)\<rparr>), 0)"
  using strrchr_misses_first_byte [of demo_cpu 100 "[0x61, 0x62, 0x61]" "0x61"]
    strrchr_misses_first_byte [of "demo_cpu\<lparr>ram := (ram demo_cpu)(102 := 0x63)\<rparr>" 100 "[0x61, 0x62, 0x63]" "0x61"]
  by (simp add: demo_cpu_def)

text \<open>C5. \<^verbatim>\<open>memmove\<close> copies the \<open>n\<close> source bytes as they were before the call, whatever the
  overlap of the two areas, and changes no other byte.\<close>

theorem memmove_correct:
  assumes "unat d + unat n \<le> 2 ^ 64" "unat s + unat n \<le> 2 ^ 64"
  shows "\<exists>st'. memmove st d s n = (st', d) \<and> df st' = df st \<and>
    (\<forall>a. ram st' a = (if \<exists>j<unat n. a = d + of_nat j then ram st (s + (a - d)) else ram st a))"
  using assms by (rule memmove_spec)

lemma memmove_correct_witness:
  "ram (fst (memmove demo_cpu 101 100 3)) 103 = 0x61"
proof -
  have "\<exists>j<unat (3 :: u64). (103 :: u64) = 101 + of_nat j" by (rule exI [of _ 2]) simp
  with memmove_correct [of 101 3 100 demo_cpu] show ?thesis by (auto simp: demo_cpu_def)
qed

text \<open>\<^verbatim>\<open>mempcpy\<close> returns its destination instead of the end of the copy, so \<^verbatim>\<open>strcpy\<close> leaves
  an empty string at the destination for every source, and \<^verbatim>\<open>strcat\<close> leaves the destination string
  as it was.\<close>

theorem strcpy_strcat_copy_nothing:
  assumes "cstr (ram st) d xs" "cstr (ram st) s ys" "\<not> df st" "length xs + length ys < 2 ^ 64"
  shows "(\<exists>st'. strcpy st d s = Some (st', d) \<and> cstr (ram st') d []) \<and>
    (\<exists>st'. strcat st d s = Some (st', d) \<and> cstr (ram st') d xs)"
  using strcpy_empty_aux [OF assms(2)] strcat_keeps [OF assms] by blast

lemma strcpy_strcat_copy_nothing_witness:
  "\<exists>st'. strcat demo_cpu 102 100 = Some (st', 102) \<and> cstr (ram st') 102 [0x61]"
  using strcpy_strcat_copy_nothing [of demo_cpu 102 "[0x61]" 100 "[0x61, 0x62, 0x61]"]
  by (simp add: demo_cpu_def)

end
