(* ===== verification/Stdio.thy ===== *)
theory Stdio
  imports Kstring
begin

text \<open>
  Formatted output, \<^verbatim>\<open>kernel/stdio.c\<close> and \<^verbatim>\<open>kernel/printk.c\<close>. The format string and the strings
  it prints live in byte memory; the produced text is a list of bytes (the buffer it is written to
  is assumed large enough and disjoint from the format and its arguments). The variable arguments
  are the list of their 64-bit slots: \<^verbatim>\<open>va_arg\<close> of a narrower type reads the low bits of the next
  slot, and reading more arguments than were passed is \<open>None\<close>. \<open>i64\<close> counters are integers within the
  range of \<open>i64\<close>; where they can leave it (\<^verbatim>\<open>atoi_bit\<close> on many digits, a width counted down without
  end) the signed overflow is undefined in C and the result is \<open>None\<close>.
\<close>

section \<open>Digits\<close>

definition printf_digits :: "u8 list" where
  "printf_digits = [0x30, 0x31, 0x32, 0x33, 0x34, 0x35, 0x36, 0x37, 0x38, 0x39,
     0x41, 0x42, 0x43, 0x44, 0x45, 0x46]"

definition STR_SIGN :: u32 where "STR_SIGN = push_bit 1 1"
definition STR_PLUS :: u32 where "STR_PLUS = push_bit 2 1"
definition STR_LEFT :: u32 where "STR_LEFT = push_bit 3 1"
definition STR_ZERO_PAD :: u32 where "STR_ZERO_PAD = push_bit 4 1"
definition STR_LOWER :: u32 where "STR_LOWER = push_bit 5 1"
definition STR_SPACE :: u32 where "STR_SPACE = push_bit 6 1"
definition STR_SPEC :: u32 where "STR_SPEC = push_bit 7 1"

lemmas str_flags = STR_SIGN_def STR_PLUS_def STR_LEFT_def STR_ZERO_PAD_def STR_LOWER_def
  STR_SPACE_def STR_SPEC_def

definition flag :: "u32 \<Rightarrow> u32 \<Rightarrow> bool" where
  "flag flags f \<longleftrightarrow> flags AND f \<noteq> 0"

datatype printf_bases = PRINTF_BASE_OCT | PRINTF_BASE_DEC | PRINTF_BASE_HEX

fun base_val :: "printf_bases \<Rightarrow> u64" where
  "base_val PRINTF_BASE_OCT = 8"
| "base_val PRINTF_BASE_DEC = 10"
| "base_val PRINTF_BASE_HEX = 16"

datatype printf_exts = PRINTF_EXT_64 | PRINTF_EXT_32 | PRINTF_EXT_16

text \<open>\<open>while (isdigit(**str)) i = i * 10 + ( *(*str)++ - '0')\<close>; returns the pointer after the digits. The
  accumulator is an \<open>i64\<close>: its overflow is undefined.\<close>

definition i64_ok :: "int \<Rightarrow> bool" where
  "i64_ok i \<longleftrightarrow> - (2 ^ 63) \<le> i \<and> i < 2 ^ 63"

partial_function (option) atoi_bit :: "cpu \<Rightarrow> u64 \<Rightarrow> int \<Rightarrow> (u64 \<times> int) option" where
  "atoi_bit st str i =
     (if isdigit (ram st str) then
        (let i = i * 10 + (uint (ram st str) - 0x30) in
         if i64_ok i then atoi_bit st (str + 1) i else None)
      else Some (str, i))"

text \<open>\<open>do { tmp[i++] = reta(&magnitude, base) | lower; } while (magnitude);\<close>\<close>

function digit_loop :: "u64 \<Rightarrow> printf_bases \<Rightarrow> u8 \<Rightarrow> u8 list" where
  "digit_loop n base lower =
     (let d = printf_digits ! unat (n mod base_val base); n = n div base_val base in
      (d OR lower) # (if n \<noteq> 0 then digit_loop n base lower else []))"
  by pat_completeness auto
termination
proof (relation "measure (\<lambda>(n, base, lower). unat n)", simp)
  fix n m :: u64 and base and lower :: u8 and d
  assume "m = n div base_val base" "m \<noteq> 0"
  then have "unat m = unat n div unat (base_val base)" by (simp add: unat_div)
  moreover have "unat m \<noteq> 0" using \<open>m \<noteq> 0\<close> by (metis unat_eq_zero)
  moreover have "unat (base_val base) > 1" by (cases base) simp_all
  ultimately have "unat m < unat n" by (metis div_0 div_less_dividend gr0I)
  then show "((m, base, lower), n, base, lower) \<in> measure (\<lambda>(n, base, lower). unat n)"
    by simp
qed

declare digit_loop.simps [simp del]

section \<open>Numbers\<close>

definition spaces :: "int \<Rightarrow> u8 list" where
  "spaces w = replicate (nat w) 0x20"

text \<open>
  \<open>while (width-- > 0) *str++ = c\<close> emits \<open>width\<close> characters (none for a width that is not
  positive) and leaves -1, or one less than a width that was not positive.
\<close>

definition pad_loop :: "u8 list \<Rightarrow> u8 \<Rightarrow> int \<Rightarrow> u8 list \<times> int" where
  "pad_loop out c w = (out @ replicate (nat w) c, if w > 0 then -1 else w - 1)"

definition str_num ::
  "u8 list \<Rightarrow> u64 \<Rightarrow> bool \<Rightarrow> printf_bases \<Rightarrow> int \<Rightarrow> int \<Rightarrow> u32 \<Rightarrow> u8 list" where
  "str_num str magnitude negative base width precision flags =
     (let lower = ucast (flags AND STR_LOWER) :: u8;
          pad = (if flag flags STR_ZERO_PAD then 0x30 else 0x20);
          flags = (if flag flags STR_LEFT then flags AND NOT STR_ZERO_PAD else flags);
          (sign, magnitude, width) =
            (if flag flags STR_SIGN then
               (if negative then (0x2D, - magnitude, width - 1)
                else if flag flags STR_PLUS then (0x2B, magnitude, width - 1)
                else if flag flags STR_SPACE then (0x20, magnitude, width - 1)
                else (0, magnitude, width))
             else (0, magnitude, width));
          width = (if flag flags STR_SPEC then
                     (if base = PRINTF_BASE_HEX then width - 2
                      else if base = PRINTF_BASE_OCT then width - 1 else width)
                   else width);
          tmp = (if \<not> (magnitude = 0 \<and> precision = 0) then digit_loop magnitude base lower else []);
          i = int (length tmp);
          precision = (if i > precision then i else precision);
          width = width - precision;
          (str, width) = (if \<not> flag flags (STR_ZERO_PAD + STR_LEFT) then pad_loop str 0x20 width
                          else (str, width));
          str = (if sign \<noteq> 0 then str @ [sign] else str);
          str = (if flag flags STR_SPEC then
                   (if base = PRINTF_BASE_OCT then str @ [0x30]
                    else if base = PRINTF_BASE_HEX then str @ [0x30, 0x58 OR lower] else str)
                 else str);
          (str, width) = (if \<not> flag flags STR_LEFT then pad_loop str pad width else (str, width));
          str = str @ replicate (nat (precision - i)) 0x30;
          str = str @ rev tmp;
          (str, width) = pad_loop str 0x20 width
      in str)"

section \<open>Conversion specifications\<close>

partial_function (option) fmt_setflags :: "cpu \<Rightarrow> u64 \<Rightarrow> u32 \<Rightarrow> (u64 \<times> u32) option" where
  "fmt_setflags st fmt flags =
     (let c = ram st fmt in
      if c = 0x2B then fmt_setflags st (fmt + 1) (flags OR STR_PLUS)
      else if c = 0x2D then fmt_setflags st (fmt + 1) (flags OR STR_LEFT)
      else if c = 0x20 then fmt_setflags st (fmt + 1) (flags OR STR_SPACE)
      else if c = 0x23 then fmt_setflags st (fmt + 1) (flags OR STR_SPEC)
      else if c = 0x30 then fmt_setflags st (fmt + 1) (flags OR STR_ZERO_PAD)
      else Some (fmt, flags))"

definition fmt_setext :: "cpu \<Rightarrow> u64 \<Rightarrow> u64 \<times> printf_exts" where
  "fmt_setext st fmt =
     (if ram st fmt = 0x68 then (fmt + 1, PRINTF_EXT_16)
      else if ram st fmt = 0x6C then (fmt + 1, PRINTF_EXT_64)
      else (fmt, PRINTF_EXT_32))"

fun va_arg :: "u64 list \<Rightarrow> (u64 \<times> u64 list) option" where
  "va_arg [] = None"
| "va_arg (a # args) = Some (a, args)"

definition as_i32 :: "u64 \<Rightarrow> int" where
  "as_i32 a = sint (ucast a :: u32)"

text \<open>
  The digits of a width or precision are read through a local copy of the format pointer; only the
  \<open>'*'\<close> of a width advances the caller's.
\<close>

definition fmt_setwidth ::
  "cpu \<Rightarrow> u64 \<Rightarrow> u32 \<Rightarrow> u64 list \<Rightarrow> (u64 \<times> u32 \<times> u64 list \<times> int) option" where
  "fmt_setwidth st fmt flags args =
     (if isdigit (ram st fmt) then do {
        (_, width) \<leftarrow> atoi_bit st fmt 0;
        Some (fmt, flags, args, width) }
      else if ram st fmt = 0x2A then do {
        (a, args) \<leftarrow> va_arg args;
        let width = as_i32 a;
        Some (if width < 0 then (fmt + 1, flags OR STR_LEFT, args, - width)
              else (fmt + 1, flags, args, width)) }
      else Some (fmt, flags, args, 0))"

definition fmt_setprec :: "cpu \<Rightarrow> u64 \<Rightarrow> u64 list \<Rightarrow> (u64 list \<times> int) option" where
  "fmt_setprec st fmt args =
     (if ram st fmt = 0x2E then do {
        (args, precision) \<leftarrow>
          (if isdigit (ram st (fmt + 1)) then do {
             (_, p) \<leftarrow> atoi_bit st (fmt + 1) 0;
             Some (args, p) }
           else if ram st (fmt + 1) = 0x2A then do {
             (a, args) \<leftarrow> va_arg args;
             Some (args, as_i32 a) }
           else Some (args, -1));
        Some (args, if precision < 0 then 0 else precision) }
      else Some (args, -1))"

definition fmt_setnum :: "printf_exts \<Rightarrow> u32 \<Rightarrow> u64 list \<Rightarrow> (u64 \<times> bool \<times> u64 list) option" where
  "fmt_setnum ext flags args = do {
     (a, args) \<leftarrow> va_arg args;
     Some (case ext of
         PRINTF_EXT_64 \<Rightarrow> (a, flag flags STR_SIGN \<and> sint a < 0, args)
       | PRINTF_EXT_16 \<Rightarrow>
           (let t = ucast (ucast a :: u16) :: u64 in
            if flag flags STR_SIGN then (scast (ucast t :: u16), sint t < 0, args) else (t, False, args))
       | PRINTF_EXT_32 \<Rightarrow>
           (if flag flags STR_SIGN then (scast (ucast a :: u32), as_i32 a < 0, args)
            else (ucast (ucast a :: u32), False, args))) }"

section \<open>The formatter\<close>

text \<open>\<open>while (--width) *str++ = ' '\<close>: stops only when the counter hits 0 exactly; counting down from 0 ends in
  the overflow of the \<open>i64\<close>.\<close>

partial_function (option) space_until_zero :: "u8 list \<Rightarrow> int \<Rightarrow> (u8 list \<times> int) option" where
  "space_until_zero out width =
     (let width = width - 1 in
      if \<not> i64_ok width then None
      else if width \<noteq> 0 then space_until_zero (out @ [0x20]) width else Some (out, width))"

text \<open>\<open>while (len < width--) *str++ = ' '\<close>.\<close>

definition pad_to :: "u8 list \<Rightarrow> int \<Rightarrow> int \<Rightarrow> u8 list \<times> int" where
  "pad_to out len width =
     (out @ replicate (nat (width - len)) 0x20, if len < width then len - 1 else width - 1)"

primrec read_bytes :: "cpu \<Rightarrow> u64 \<Rightarrow> nat \<Rightarrow> u8 list" where
  "read_bytes st p 0 = []"
| "read_bytes st p (Suc n) = ram st p # read_bytes st (p + 1) n"

text \<open>A little-endian store of \<open>n\<close> bytes, for \<open>%n\<close>.\<close>

primrec store_le :: "nat \<Rightarrow> cpu \<Rightarrow> u64 \<Rightarrow> u64 \<Rightarrow> cpu" where
  "store_le 0 st p v = st"
| "store_le (Suc n) st p v = store_le n (st\<lparr>ram := (ram st)(p := ucast v)\<rparr>) (p + 1) (drop_bit 8 v)"

text \<open>
  One iteration of the loop of \<^verbatim>\<open>vsprintf\<close> at a \<open>'%'\<close>. It returns the format pointer where the
  \<open>fmt++\<close> of the loop finds it.
\<close>

definition num_conv ::
  "cpu \<Rightarrow> u64 \<Rightarrow> u8 list \<Rightarrow> u64 list \<Rightarrow> printf_exts \<Rightarrow> u32 \<Rightarrow> int \<Rightarrow> int \<Rightarrow> printf_bases \<Rightarrow>
   (cpu \<times> u64 \<times> u8 list \<times> u64 list) option" where
  "num_conv st fmt str args ext flags width precision base = do {
     (n, negative, args) \<leftarrow> fmt_setnum ext flags args;
     Some (st, fmt, str_num str n negative base width precision flags, args) }"

definition conv_spec ::
  "cpu \<Rightarrow> u64 \<Rightarrow> u8 list \<Rightarrow> u64 list \<Rightarrow> (cpu \<times> u64 \<times> u8 list \<times> u64 list) option" where
  "conv_spec st fmt str args = do {
     (fmt, flags) \<leftarrow> fmt_setflags st (fmt + 1) 0;
     (fmt, flags, args, width) \<leftarrow> fmt_setwidth st fmt flags args;
     (args, precision) \<leftarrow> fmt_setprec st fmt args;
     let (fmt, ext) = fmt_setext st fmt;
     let c = ram st fmt;
     if c = 0x63 then do {
       (str, width) \<leftarrow> (if \<not> flag flags STR_LEFT then space_until_zero str width else Some (str, width));
       (a, args) \<leftarrow> va_arg args;
       let str = str @ [ucast a];
       (str, width) \<leftarrow> (if \<not> flag flags STR_LEFT then space_until_zero str width else Some (str, width));
       Some (st, fmt, str, args) }
     else if c = 0x73 then do {
       (strarg, args) \<leftarrow> va_arg args;
       let len = unat (strnlen st strarg (word_of_int precision));
       let (str, width) = (if \<not> flag flags STR_LEFT then pad_to str (int len) width else (str, width));
       let str = str @ read_bytes st strarg len;
       let (str, width) = (if \<not> flag flags STR_LEFT then pad_to str (int len) width else (str, width));
       num_conv st fmt str args ext flags width precision PRINTF_BASE_DEC }
     else if c = 0x64 \<or> c = 0x69 then
       num_conv st fmt str args ext (flags OR STR_SIGN) width precision PRINTF_BASE_DEC
     else if c = 0x75 then num_conv st fmt str args ext flags width precision PRINTF_BASE_DEC
     else if c = 0x6F then num_conv st fmt str args ext flags width precision PRINTF_BASE_OCT
     else if c = 0x6E then do {
       (p, args) \<leftarrow> va_arg args;
       let n = of_nat (length str);
       Some (store_le (if ext = PRINTF_EXT_64 then 8 else 4) st p n, fmt, str, args) }
     else if c = 0x78 then
       num_conv st fmt str args ext (flags OR STR_LOWER) width precision PRINTF_BASE_HEX
     else if c = 0x58 then num_conv st fmt str args ext flags width precision PRINTF_BASE_HEX
     else if c = 0x70 then do {
       let (width, flags) = (if width = -1 then (16, flags OR STR_ZERO_PAD) else (width, flags));
       (a, args) \<leftarrow> va_arg args;
       Some (st, fmt, str_num str a False PRINTF_BASE_HEX width precision flags, args) }
     else if c = 0x25 then Some (st, fmt, str @ [0x25], args)
     else if c \<noteq> 0 then Some (st, fmt, str @ [0x25, c], args)
     else Some (st, fmt + 1, str @ [0x25], args) }"

partial_function (option) vsprintf_loop ::
  "cpu \<Rightarrow> u64 \<Rightarrow> u8 list \<Rightarrow> u64 list \<Rightarrow> (cpu \<times> u8 list) option" where
  "vsprintf_loop st fmt str args =
     (let c = ram st fmt in
      if c = 0 then Some (st, str)
      else if c \<noteq> 0x25 then vsprintf_loop st (fmt + 1) (str @ [c]) args
      else do {
        (st, fmt, str, args) \<leftarrow> conv_spec st fmt str args;
        vsprintf_loop st (fmt + 1) str args })"

text \<open>The text written to the buffer (without its terminator) and the returned length.\<close>

definition vsprintf :: "cpu \<Rightarrow> u64 \<Rightarrow> u64 list \<Rightarrow> (cpu \<times> u8 list \<times> int) option" where
  "vsprintf st fmt args = do {
     (st, str) \<leftarrow> vsprintf_loop st fmt [] args;
     Some (st, str, int (length str)) }"

definition sprintf :: "cpu \<Rightarrow> u64 \<Rightarrow> u64 list \<Rightarrow> (cpu \<times> u8 list \<times> int) option" where
  "sprintf st fmt args = vsprintf st fmt args"

section \<open>printk\<close>

text \<open>
  The local buffer of \<^verbatim>\<open>vprintk\<close> holds 1024 bytes and \<^verbatim>\<open>vsprintf\<close> does not know its size: a text
  that does not fit with its terminator is written past it. \<open>kern_log_level\<close> and \<open>lvl\<close> are the
  numeric levels; the result is what is handed to \<^verbatim>\<open>kcon_write\<close>, if anything.
\<close>

definition vprintk ::
  "cpu \<Rightarrow> int \<Rightarrow> int \<Rightarrow> u64 \<Rightarrow> u64 list \<Rightarrow> (cpu \<times> u8 list option \<times> int) option" where
  "vprintk st kern_log_level lvl fmt args = do {
     (st, buf, ret) \<leftarrow> vsprintf st fmt args;
     if ret + 1 > 1024 then None
     else Some (st, if ret > 0 \<and> lvl \<le> kern_log_level
                    then Some (take (nat (if ret < 1024 - 1 then ret else 1024 - 1)) buf) else None, ret) }"

definition printk ::
  "cpu \<Rightarrow> int \<Rightarrow> int \<Rightarrow> u64 \<Rightarrow> u64 list \<Rightarrow> (cpu \<times> u8 list option \<times> int) option" where
  "printk st kern_log_level lvl fmt args = vprintk st kern_log_level lvl fmt args"

declare atoi_bit.simps [code] fmt_setflags.simps [code] space_until_zero.simps [code]
  vsprintf_loop.simps [code]

section \<open>Decimal text\<close>

fun dec :: "nat \<Rightarrow> u8 list" where
  "dec n = (if n < 10 then [of_nat (0x30 + n)] else dec (n div 10) @ [of_nat (0x30 + n mod 10)])"

declare dec.simps [simp del]

definition decint :: "int \<Rightarrow> u8 list" where
  "decint i = (if i < 0 then 0x2D # dec (nat (- i)) else dec (nat i))"

lemma digit_char: "d < 10 \<Longrightarrow> printf_digits ! d = of_nat (0x30 + d)"
proof -
  assume "d < 10"
  then have "d \<in> {0, 1, 2, 3, 4, 5, 6, 7, 8, 9}" by auto
  then show ?thesis by (auto simp: printf_digits_def)
qed

lemma digit_loop_dec: "rev (digit_loop n PRINTF_BASE_DEC 0) = dec (unat n)"
proof (induction n PRINTF_BASE_DEC "0 :: u8" rule: digit_loop.induct)
  case (1 n)
  let ?d = "printf_digits ! unat (n mod 10)"
  have u: "unat (n mod 10) = unat n mod 10" "unat (n div 10) = unat n div 10"
    by (simp_all add: unat_mod unat_div)
  have d: "?d OR 0 = of_nat (0x30 + unat n mod 10)" using digit_char [of "unat n mod 10"] by (simp add: u)
  show ?case
  proof (cases "n div 10 = 0")
    case True
    then have "unat n div 10 = 0" using u(2) by simp
    then have "unat n < 10" by simp
    with True d show ?thesis by (subst digit_loop.simps, subst dec.simps) (simp add: Let_def u)
  next
    case False
    then have "unat n div 10 \<noteq> 0" using u(2) by (metis unat_eq_zero)
    then have "\<not> unat n < 10" by simp
    moreover from 1 False have "rev (digit_loop (n div 10) PRINTF_BASE_DEC 0) = dec (unat n div 10)"
      by (simp add: u)
    ultimately show ?thesis using False d
      by (subst digit_loop.simps, subst dec.simps) (simp add: Let_def u)
  qed
qed

lemma digit_loop_ne: "digit_loop n b l \<noteq> []"
  by (subst digit_loop.simps) (simp add: Let_def)

lemma dec_ne: "dec n \<noteq> []"
  by (subst dec.simps) simp

lemma flag_consts [simp]:
  "\<not> flag 0 f" "flag STR_SIGN STR_SIGN" "\<not> flag STR_SIGN STR_PLUS" "\<not> flag STR_SIGN STR_SPACE"
  "\<not> flag STR_SIGN STR_SPEC" "\<not> flag STR_SIGN STR_LEFT" "\<not> flag STR_SIGN STR_ZERO_PAD"
  "\<not> flag STR_SIGN (STR_ZERO_PAD + STR_LEFT)" "STR_SIGN AND STR_LOWER = 0"
  by (simp_all add: flag_def str_flags)

lemma pad_none: "w \<le> 0 \<Longrightarrow> pad_loop out c w = (out, w - 1)"
  by (simp add: pad_loop_def)

text \<open>With no flags, no width and no precision, a number is its digits.\<close>

lemma str_num_plain: "str_num str n neg PRINTF_BASE_DEC 0 (-1) 0 = str @ dec (unat n)"
  using digit_loop_ne [of n PRINTF_BASE_DEC 0]
  by (simp add: str_num_def Let_def pad_none digit_loop_dec)

lemma str_num_signed:
  "str_num str n neg PRINTF_BASE_DEC 0 (-1) STR_SIGN =
     str @ (if neg then 0x2D # dec (unat (- n)) else dec (unat n))"
  using digit_loop_ne [of n PRINTF_BASE_DEC 0] digit_loop_ne [of "- n" PRINTF_BASE_DEC 0]
  by (simp add: str_num_def Let_def pad_none digit_loop_dec)

lemma unat_word_of_int64: "0 \<le> i \<Longrightarrow> i < 2 ^ 64 \<Longrightarrow> unat (word_of_int i :: u64) = nat i"
  by (simp add: unat_eq_nat_uint uint_word_of_int)

lemma scast_i32:
  fixes x :: u32
  shows "sint x < 0 \<Longrightarrow> unat (- (scast x :: u64)) = nat (- sint x)"
    "\<not> sint x < 0 \<Longrightarrow> unat (scast x :: u64) = nat (sint x)"
  subgoal
    unfolding scast_eq [of x] wi_hom_neg [symmetric]
    using unat_word_of_int64 [of "- sint x"] sint_ge [of x] by simp
  subgoal
    unfolding scast_eq [of x] using unat_word_of_int64 [of "sint x"] sint_lt [of x] by simp
  done

lemma setflags_none:
  "ram st p \<notin> {0x2B, 0x2D, 0x20, 0x23, 0x30} \<Longrightarrow> fmt_setflags st p f = Some (p, f)"
  by (subst fmt_setflags.simps) (simp add: Let_def)

lemma conv_d:
  assumes "ram st (p + 1) = 0x64"
  shows "conv_spec st p str (a # args) = Some (st, p + 1, str @ decint (as_i32 a), args)"
  using assms scast_i32 [of "ucast a :: u32"]
  by (simp add: conv_spec_def setflags_none fmt_setwidth_def isdigit_def fmt_setprec_def fmt_setext_def
      num_conv_def fmt_setnum_def Let_def decint_def as_i32_def str_num_signed)

lemma vsprintf_d:
  assumes "cstr (ram st) fmt [0x25, 0x64]"
  shows "vsprintf st fmt (a # args) = Some (st, decint (as_i32 a), int (length (decint (as_i32 a))))"
proof -
  have "vsprintf_loop st (fmt + 2) str args = Some (st, str)" for str args
    using assms by (subst vsprintf_loop.simps) (simp add: add.assoc)
  moreover have "ram st fmt = 0x25" "ram st (fmt + 1) = 0x64" using assms by simp_all
  ultimately have "vsprintf_loop st fmt [] (a # args) = Some (st, decint (as_i32 a))"
    using conv_d [of st fmt "[]" a args]
    by (subst vsprintf_loop.simps) (simp add: add.assoc)
  then show ?thesis by (simp add: vsprintf_def)
qed

section \<open>Reading decimal text back\<close>

lemma digit_ge: "isdigit x \<Longrightarrow> 0 \<le> uint x - 0x30"
  by (auto simp: isdigit_def word_le_def)

lemma fold_digits_ge:
  "list_all isdigit xs \<Longrightarrow> 0 \<le> v \<Longrightarrow> v \<le> foldl (\<lambda>v x. v * 10 + (uint x - 0x30)) v xs"
proof (induction xs arbitrary: v)
  case Nil
  then show ?case by simp
next
  case (Cons x xs)
  have "0 \<le> uint x - 0x30" using Cons.prems(1) digit_ge by simp
  then have "v \<le> v * 10 + (uint x - 0x30)" "0 \<le> v * 10 + (uint x - 0x30)" using Cons.prems(2) by linarith+
  moreover from this have "v * 10 + (uint x - 0x30) \<le> foldl (\<lambda>v x. v * 10 + (uint x - 0x30)) v (x # xs)"
    using Cons.IH [of "v * 10 + (uint x - 0x30)"] Cons.prems(1) by simp
  ultimately show ?case by linarith
qed

lemma atoi_snoc_digits:
  "list_all isdigit xs \<Longrightarrow> (\<And>i. i < length xs \<Longrightarrow> ram st (p + of_nat i) = xs ! i) \<Longrightarrow> 0 \<le> v \<Longrightarrow>
   foldl (\<lambda>v x. v * 10 + (uint x - 0x30)) v xs < 2 ^ 63 \<Longrightarrow>
   atoi_bit st p v = atoi_bit st (p + of_nat (length xs)) (foldl (\<lambda>v x. v * 10 + (uint x - 0x30)) v xs)"
proof (induction xs arbitrary: p v)
  case Nil
  then show ?case by simp
next
  case (Cons x xs)
  let ?v = "v * 10 + (uint x - 0x30)"
  have "ram st p = x" using Cons.prems(2) [of 0] by simp
  moreover have "ram st (p + 1 + of_nat i) = xs ! i" if "i < length xs" for i
    using Cons.prems(2) [of "Suc i"] that by (simp add: add.assoc)
  moreover have v: "0 \<le> ?v" using Cons.prems(1,3) digit_ge by simp
  moreover have "?v \<le> foldl (\<lambda>v x. v * 10 + (uint x - 0x30)) ?v xs" using Cons.prems(1) v by (intro fold_digits_ge) simp_all
  ultimately show ?case using Cons.IH [of "p + 1" ?v] Cons.prems(1,4)
    by (subst atoi_bit.simps) (simp add: add.assoc i64_ok_def Let_def)
qed

lemma dec_digits: "list_all isdigit (dec n)"
proof (induction n rule: dec.induct)
  case (1 n)
  have "isdigit (of_nat (0x30 + d))" if "d < 10" for d
  proof -
    from that have "d \<in> {0, 1, 2, 3, 4, 5, 6, 7, 8, 9}" by auto
    then show ?thesis by (auto simp: isdigit_def)
  qed
  then show ?case using 1 by (subst dec.simps) auto
qed

lemma digit_value: "d < 10 \<Longrightarrow> uint (of_nat (0x30 + d) :: u8) - 0x30 = int d"
proof -
  assume "d < 10"
  then have "d \<in> {0, 1, 2, 3, 4, 5, 6, 7, 8, 9}" by auto
  then show ?thesis by auto
qed

lemma dec_value: "foldl (\<lambda>v x. v * 10 + (uint x - 0x30)) 0 (dec n) = int n"
proof (induction n rule: dec.induct)
  case (1 n)
  have "int (n div 10) * 10 + int (n mod 10) = int n" by presburger
  then show ?case using 1 digit_value by (subst dec.simps) auto
qed

text \<open>A numeral of at most 20 digits: read back below \<open>2 ^ 63\<close>, an overflow at its last digit from there on.\<close>

lemma atoi_dec:
  assumes s: "cstr (ram st) p (dec n)" and n: "n < 2 ^ 64"
  shows "atoi_bit st p 0 = (if n < 2 ^ 63 then Some (p + of_nat (length (dec n)), int n) else None)"
proof -
  have nth: "ram st (p + of_nat i) = dec n ! i" if "i < length (dec n)" for i
    using cstr_nth [OF s, of i] that by (simp add: nth_append)
  show ?thesis
  proof (cases "n < 2 ^ 63")
    case True
    have "ram st (p + of_nat (length (dec n))) = 0" using cstr_nth [OF s, of "length (dec n)"] by simp
    then have "atoi_bit st (p + of_nat (length (dec n))) v = Some (p + of_nat (length (dec n)), v)" for v
      by (subst atoi_bit.simps) (simp add: isdigit_def)
    with atoi_snoc_digits [OF dec_digits nth, where v = 0] dec_value True show ?thesis by simp
  next
    case False
    let ?q = "n div 10" and ?d = "of_nat (0x30 + n mod 10) :: u8"
    have dn: "dec n = dec ?q @ [?d]" using False by (subst dec.simps) simp
    have dq: "ram st (p + of_nat i) = dec ?q ! i" if "i < length (dec ?q)" for i
      using nth [of i] that by (simp add: dn nth_append)
    have dl: "ram st (p + of_nat (length (dec ?q))) = ?d" using nth [of "length (dec ?q)"] by (simp add: dn)
    have u: "uint ?d - 0x30 = int (n mod 10)" by (rule digit_value) simp
    have "isdigit ?d" using dec_digits [of n] by (simp add: dn)
    moreover have "int ?q * 10 + int (n mod 10) = int n" by presburger
    ultimately have "atoi_bit st (p + of_nat (length (dec ?q))) (int ?q) = None"
      using False dl u by (subst atoi_bit.simps) (simp add: i64_ok_def Let_def)
    moreover have "?q < 2 ^ 63" by (rule less_mult_imp_div_less) (use n in simp)
    ultimately show ?thesis using False atoi_snoc_digits [OF dec_digits dq, where v = 0] dec_value [of ?q] by simp
  qed
qed

lemma decimal_reads_back:
  assumes "cstr (ram st) p (str_num [] n False PRINTF_BASE_DEC 0 (-1) 0)"
  shows "atoi_bit st p 0 = (if n < 2 ^ 63
    then Some (p + of_nat (length (str_num [] n False PRINTF_BASE_DEC 0 (-1) 0)), uint n) else None)"
proof -
  have "unat n < 2 ^ 64" using unsigned_less [of n] by simp
  moreover have "n < 2 ^ 63 \<longleftrightarrow> unat n < 2 ^ 63" by (simp add: word_less_nat_alt)
  ultimately show ?thesis using assms atoi_dec [of st p "unat n"] by (simp add: str_num_plain)
qed

section \<open>Loops that do not stop\<close>

lemma space_until_zero_returns:
  assumes "space_until_zero out w = Some r"
  shows "w \<ge> 1 \<and> snd r = 0"
  by (rule space_until_zero.raw_induct [where P = "\<lambda>out w r. w \<ge> 1 \<and> snd r = 0", OF _ assms])
     (fastforce simp: Let_def split: if_splits)


lemma space_until_zero_diverges: "w \<le> 0 \<Longrightarrow> space_until_zero out w = None"
  using space_until_zero_returns [of out w] by (cases "space_until_zero out w") auto

lemma conv_c:
  assumes "ram st (p + 1) = 0x63"
  shows "conv_spec st p str args = None"
  using assms
  by (simp add: conv_spec_def setflags_none fmt_setwidth_def isdigit_def fmt_setprec_def fmt_setext_def
      Let_def space_until_zero_diverges)

lemma strnlen_cstr:
  assumes s: "cstr (ram st) p xs" and n: "length xs < 2 ^ 64 - 1"
  shows "strnlen st p (- 1) = of_nat (length xs)"
proof -
  have "strnlen_loop st p (- 1) (of_nat i) = of_nat (length xs)" if "i \<le> length xs" for i
    using that
  proof (induction "length xs - i" arbitrary: i)
    case 0
    then have "i = length xs" by simp
    then have "ram st (p + of_nat i) = 0" using cstr_nth [OF s, of i] by simp
    with \<open>i = length xs\<close> show ?case by (subst strnlen_loop.simps) simp
  next
    case (Suc k)
    then have i: "i < length xs" by simp
    then have "ram st (p + of_nat i) = xs ! i" using cstr_nth [OF s, of i] by (simp add: nth_append)
    moreover have "xs ! i \<noteq> 0" using s i
      by (metis cstr_nonzero nth_mem)
    moreover have "(of_nat i :: u64) < - 1" using i n
      by (simp add: word_less_nat_alt unat_of_nat64 unat_minus_1)
    moreover have "strnlen_loop st p (- 1) (of_nat (Suc i)) = of_nat (length xs)"
      using Suc by (intro Suc.hyps(1)) auto
    ultimately show ?case by (subst strnlen_loop.simps) (simp add: add.commute)
  qed
  from this [of 0] show ?thesis by (simp add: strnlen_def)
qed

lemma read_bytes_cstr: "cstr (ram st) p xs \<Longrightarrow> read_bytes st p (length xs) = xs"
  by (induction xs arbitrary: p) auto

lemma conv_s:
  assumes c: "ram st (p + 1) = 0x73" and s: "cstr (ram st) a xs" and n: "length xs < 2 ^ 64 - 1"
  shows "conv_spec st p str (a # args) =
    num_conv st (p + 1) (str @ xs) args PRINTF_EXT_32 0 (- 2) (- 1) PRINTF_BASE_DEC"
proof -
  have l: "unat (strnlen st a (- 1)) = length xs"
    using strnlen_cstr [OF s n] n by (simp add: unat_of_nat64)
  have "pad_to str (int (length xs)) 0 = (str, - 1)" "pad_to str' (int (length xs)) (- 1) = (str', - 2)" for str'
    by (auto simp: pad_to_def)
  with c l read_bytes_cstr [OF s] show ?thesis
    by (simp add: conv_spec_def setflags_none fmt_setwidth_def isdigit_def fmt_setprec_def fmt_setext_def
        Let_def)
qed

section \<open>Properties\<close>

text \<open>C25. Formatting \<open>%d\<close> prints the signed decimal numeral of the 32-bit argument, for every
  argument, and returns its length.\<close>

theorem printf_decimal:
  assumes "cstr (ram st) fmt [0x25, 0x64]"
  shows "vsprintf st fmt (a # args) = Some (st, decint (as_i32 a), int (length (decint (as_i32 a))))"
  using vsprintf_d [OF assms] .

definition fmt_cpu :: "u8 \<Rightarrow> cpu" where
  "fmt_cpu c = \<lparr>ram = (\<lambda>_. 0)(100 := 0x25, 101 := c, 200 := 0x31, 201 := 0x37), df = False\<rparr>"

lemma printf_decimal_witness:
  "vsprintf (fmt_cpu 0x64) 100 [0xFFFFFFFF] = Some (fmt_cpu 0x64, [0x2D, 0x31], 2)"
  using printf_decimal [of "fmt_cpu 0x64" 100 "0xFFFFFFFF" "[]"]
  by (simp add: fmt_cpu_def as_i32_def decint_def dec.simps)

text \<open>C26. The plain decimal text that \<^verbatim>\<open>str_num\<close> prints for a 64-bit number below \<open>2 ^ 63\<close> is read back to the number
  by \<^verbatim>\<open>atoi_bit\<close>, with the pointer behind its digits; from \<open>2 ^ 63\<close> on the \<open>i64\<close> accumulator overflows, which is
  undefined.\<close>

theorem decimal_roundtrip:
  assumes "cstr (ram st) p (str_num [] n False PRINTF_BASE_DEC 0 (-1) 0)"
  shows "atoi_bit st p 0 = (if n < 2 ^ 63
    then Some (p + of_nat (length (str_num [] n False PRINTF_BASE_DEC 0 (-1) 0)), uint n) else None)"
  by (rule decimal_reads_back [OF assms])

lemma decimal_roundtrip_witness: "atoi_bit (fmt_cpu 0) 200 0 = Some (202, 17)"
  using decimal_roundtrip [of "fmt_cpu 0" 200 17]
  by (simp add: fmt_cpu_def str_num_plain dec.simps)

text \<open>C27. \<open>%c\<close> without a minus flag never returns: the padding loop \<^verbatim>\<open>while (--width)\<close> starts at
  width 0 and runs away, whatever the arguments.\<close>

theorem printf_char_runs_away:
  assumes "cstr (ram st) fmt [0x25, 0x63]"
  shows "vsprintf st fmt args = None"
proof -
  have "vsprintf_loop st fmt [] args = None"
    using assms conv_c [of st fmt "[]" args] by (subst vsprintf_loop.simps) simp
  then show ?thesis by (simp add: vsprintf_def)
qed

lemma printf_char_runs_away_witness: "vsprintf (fmt_cpu 0x63) 100 [0x41] = None"
  using printf_char_runs_away [of "fmt_cpu 0x63" 100 "[0x41]"] by (simp add: fmt_cpu_def)

text \<open>\<open>%s\<close> prints its string and then, because its case leaves the switch instead of going on
  with the format, an unsigned decimal number read from the next argument; with no further argument
  it reads one that was not passed.\<close>

theorem printf_string_prints_number:
  assumes "cstr (ram st) fmt [0x25, 0x73]" "cstr (ram st) a xs" "length xs < 2 ^ 64 - 1"
  shows "vsprintf st fmt [a] = None \<and>
    map_option (fst \<circ> snd) (vsprintf st fmt (a # b # args)) =
      Some (str_num xs (ucast (ucast b :: u32)) False PRINTF_BASE_DEC (-2) (-1) 0)"
proof -
  have step: "vsprintf_loop st fmt [] (a # args') =
    do { (st, fmt, str, args) \<leftarrow> num_conv st (fmt + 1) xs args' PRINTF_EXT_32 0 (- 2) (- 1) PRINTF_BASE_DEC;
         vsprintf_loop st (fmt + 1) str args }" for args'
    using assms(1) conv_s [OF _ assms(2,3), of fmt "[]" args']
    by (subst vsprintf_loop.simps) simp
  moreover have "vsprintf_loop st (fmt + 2) str args = Some (st, str)" for str
    using assms(1) by (subst vsprintf_loop.simps) (simp add: add.assoc)
  ultimately show ?thesis
    by (simp add: vsprintf_def num_conv_def fmt_setnum_def add.assoc)
qed

lemma printf_string_prints_number_witness:
  "map_option (fst \<circ> snd) (vsprintf (fmt_cpu 0x73) 100 [200, 5]) = Some [0x31, 0x37, 0x35]"
  using printf_string_prints_number [of "fmt_cpu 0x73" 100 200 "[0x31, 0x37]" 5 "[]"]
    digit_loop.simps [of 5 PRINTF_BASE_DEC 0]
  by (simp add: fmt_cpu_def str_num_def Let_def pad_none printf_digits_def)

end
