(* ===== verification/PortIo.thy ===== *)
theory PortIo
  imports Kstring
begin

unbundle bit_operations_syntax

text \<open>
  The port accesses of \<^verbatim>\<open>kernel/include/io.h\<close>, the debug console of \<^verbatim>\<open>kernel/boot.c\<close>, and the string instruction
  \<^verbatim>\<open>rep_scasb\<close> of \<^verbatim>\<open>kernel/include/str_io.h\<close>, which has no caller. The devices behind the ports are not part of the
  kernel: a \<open>bus\<close> says what a read or write of 1, 2 or 4 bytes does to their state.
\<close>

section \<open>Single accesses\<close>

record 'd bus =
  bus_in :: "nat \<Rightarrow> u16 \<Rightarrow> 'd \<Rightarrow> u32 \<times> 'd"
  bus_out :: "nat \<Rightarrow> u16 \<Rightarrow> u32 \<Rightarrow> 'd \<Rightarrow> 'd"

definition outb :: "'d bus \<Rightarrow> u16 \<Rightarrow> u8 \<Rightarrow> 'd \<Rightarrow> 'd" where
  "outb b port val d = bus_out b 1 port (ucast val) d"

definition inb :: "'d bus \<Rightarrow> u16 \<Rightarrow> 'd \<Rightarrow> u8 \<times> 'd" where
  "inb b port d = (let (ret, d) = bus_in b 1 port d in (ucast ret, d))"

definition outw :: "'d bus \<Rightarrow> u16 \<Rightarrow> u16 \<Rightarrow> 'd \<Rightarrow> 'd" where
  "outw b port val d = bus_out b 2 port (ucast val) d"

definition inw :: "'d bus \<Rightarrow> u16 \<Rightarrow> 'd \<Rightarrow> u16 \<times> 'd" where
  "inw b port d = (let (ret, d) = bus_in b 2 port d in (ucast ret, d))"

definition outl :: "'d bus \<Rightarrow> u16 \<Rightarrow> u32 \<Rightarrow> 'd \<Rightarrow> 'd" where
  "outl b port val d = bus_out b 4 port val d"

definition inl :: "'d bus \<Rightarrow> u16 \<Rightarrow> 'd \<Rightarrow> u32 \<times> 'd" where
  "inl b port d = bus_in b 4 port d"

section \<open>String accesses\<close>

text \<open>Items of \<open>w\<close> bytes in memory, the low byte first.\<close>

primrec put_item :: "nat \<Rightarrow> u64 \<Rightarrow> u32 \<Rightarrow> (u64 \<Rightarrow> u8) \<Rightarrow> (u64 \<Rightarrow> u8)" where
  "put_item 0 p v m = m"
| "put_item (Suc w) p v m = put_item w (p + 1) (drop_bit 8 v) (m(p := ucast v))"

primrec get_item :: "nat \<Rightarrow> u64 \<Rightarrow> (u64 \<Rightarrow> u8) \<Rightarrow> u32" where
  "get_item 0 p m = 0"
| "get_item (Suc w) p m = ucast (m p) OR push_bit 8 (get_item w (p + 1) m)"

text \<open>\<open>rep ins\<close> stores at the address in \<open>RDI\<close>, \<open>rep outs\<close> loads from the one in \<open>RSI\<close>.\<close>

primrec rep_ins :: "nat \<Rightarrow> nat \<Rightarrow> 'd bus \<Rightarrow> u16 \<Rightarrow> u64 \<Rightarrow> cpu \<Rightarrow> 'd \<Rightarrow> cpu \<times> 'd" where
  "rep_ins 0 w b port rdi st d = (st, d)"
| "rep_ins (Suc n) w b port rdi st d =
     (let (v, d) = bus_in b w port d
      in rep_ins n w b port (rdi + of_nat w * dir (df st)) (st\<lparr>ram := put_item w rdi v (ram st)\<rparr>) d)"

primrec rep_outs :: "nat \<Rightarrow> nat \<Rightarrow> 'd bus \<Rightarrow> u16 \<Rightarrow> u64 \<Rightarrow> cpu \<Rightarrow> 'd \<Rightarrow> 'd" where
  "rep_outs 0 w b port rsi st d = d"
| "rep_outs (Suc n) w b port rsi st d =
     rep_outs n w b port (rsi + of_nat w * dir (df st)) st (bus_out b w port (get_item w rsi (ram st)) d)"

definition insb :: "'d bus \<Rightarrow> u16 \<Rightarrow> u64 \<Rightarrow> u64 \<Rightarrow> cpu \<Rightarrow> 'd \<Rightarrow> cpu \<times> 'd" where
  "insb b port addr cnt st d = rep_ins (unat cnt) 1 b port addr (x86_cld st) d"

definition insw :: "'d bus \<Rightarrow> u16 \<Rightarrow> u64 \<Rightarrow> u64 \<Rightarrow> cpu \<Rightarrow> 'd \<Rightarrow> cpu \<times> 'd" where
  "insw b port addr cnt st d = rep_ins (unat cnt) 2 b port addr (x86_cld st) d"

definition insl :: "'d bus \<Rightarrow> u16 \<Rightarrow> u64 \<Rightarrow> u64 \<Rightarrow> cpu \<Rightarrow> 'd \<Rightarrow> cpu \<times> 'd" where
  "insl b port addr cnt st d = rep_ins (unat cnt) 4 b port addr (x86_cld st) d"

text \<open>
  \<^verbatim>\<open>outsb\<close> and \<^verbatim>\<open>outsw\<close> put the address in \<open>RSI\<close> but execute \<^verbatim>\<open>rep insb\<close> and \<^verbatim>\<open>rep insw\<close>, which store at
  whatever address \<open>rdi\<close> the register \<open>RDI\<close> holds.
\<close>

definition outsb :: "'d bus \<Rightarrow> u64 \<Rightarrow> u16 \<Rightarrow> u64 \<Rightarrow> u64 \<Rightarrow> cpu \<Rightarrow> 'd \<Rightarrow> cpu \<times> 'd" where
  "outsb b rdi port addr cnt st d = rep_ins (unat cnt) 1 b port rdi (x86_cld st) d"

definition outsw :: "'d bus \<Rightarrow> u64 \<Rightarrow> u16 \<Rightarrow> u64 \<Rightarrow> u64 \<Rightarrow> cpu \<Rightarrow> 'd \<Rightarrow> cpu \<times> 'd" where
  "outsw b rdi port addr cnt st d = rep_ins (unat cnt) 2 b port rdi (x86_cld st) d"

definition outsl :: "'d bus \<Rightarrow> u16 \<Rightarrow> u64 \<Rightarrow> u64 \<Rightarrow> cpu \<Rightarrow> 'd \<Rightarrow> cpu \<times> 'd" where
  "outsl b port addr cnt st d = (let st = x86_cld st in (st, rep_outs (unat cnt) 4 b port addr st d))"

section \<open>The debug console\<close>

definition ISA_DEBUGCON_PORT :: u16 where "ISA_DEBUGCON_PORT = 0xE9"

partial_function (option) debugcon_loop :: "'d bus \<Rightarrow> cpu \<Rightarrow> u64 \<Rightarrow> 'd \<Rightarrow> 'd option" where
  "debugcon_loop b st str d =
     (if ram st str \<noteq> 0 then debugcon_loop b st (str + 1) (outb b ISA_DEBUGCON_PORT (ram st str) d) else Some d)"

text \<open>\<open>debug\<close> is whether the kernel was built with \<^verbatim>\<open>DEBUG\<close>.\<close>

definition isa_debugcon_print :: "bool \<Rightarrow> 'd bus \<Rightarrow> cpu \<Rightarrow> u64 \<Rightarrow> 'd \<Rightarrow> 'd option" where
  "isa_debugcon_print debug b st str d =
     (if debug then map_option (outb b ISA_DEBUGCON_PORT 0x0A) (debugcon_loop b st str d) else Some d)"

section \<open>Scanning while equal\<close>

primrec scasb_e :: "nat \<Rightarrow> cpu \<Rightarrow> u64 \<Rightarrow> u8 \<Rightarrow> u64 \<times> nat" where
  "scasb_e 0 st p v = (p, 0)"
| "scasb_e (Suc n) st p v =
     (if ram st p \<noteq> v then (p + dir (df st), n) else scasb_e n st (p + dir (df st)) v)"

definition rep_scasb :: "cpu \<Rightarrow> u64 \<Rightarrow> u8 \<Rightarrow> u64 \<Rightarrow> u64 \<times> u64" where
  "rep_scasb st p v n = (case scasb_e (unat n) st p v of (q, r) \<Rightarrow> (q, of_nat r))"

section \<open>Lemmas\<close>

text \<open>What a device delivers on \<open>n\<close> reads.\<close>

primrec reads :: "nat \<Rightarrow> nat \<Rightarrow> 'd bus \<Rightarrow> u16 \<Rightarrow> 'd \<Rightarrow> u32 list \<times> 'd" where
  "reads 0 w b port d = ([], d)"
| "reads (Suc n) w b port d = (let (v, d) = bus_in b w port d; (vs, d) = reads n w b port d in (v # vs, d))"

lemma reads_length: "length (fst (reads n w b port d)) = n"
  by (induction n arbitrary: d) (auto split: prod.split simp: prod.case_eq_if)

lemma put_item_other: "unat (a - p) \<ge> w \<Longrightarrow> put_item w p v m a = m a"
proof (induction w arbitrary: p v m)
  case (Suc w)
  have ne: "a \<noteq> p" using Suc.prems by auto
  then have "unat (a - p) \<noteq> 0" by (simp add: unat_eq_zero)
  then have "unat (a - (p + 1)) = unat (a - p) - 1"
    using unat_minus_one [of "a - p"] by (simp add: unat_eq_zero algebra_simps)
  then show ?case using Suc.IH [of "p + 1" "drop_bit 8 v"] Suc.prems ne by simp
qed simp

text \<open>\<open>rep insb\<close> with the direction flag clear stores what the device delivers, in order, and nothing else.\<close>

lemma rep_insb_spec:
  "\<not> df st \<Longrightarrow> n < 2 ^ 64 \<Longrightarrow> rep_ins n 1 b port p st d = (st', d') \<Longrightarrow>
    d' = snd (reads n 1 b port d) \<and> df st' = df st \<and>
    (\<forall>a. ram st' a = (if unat (a - p) < n then ucast (fst (reads n 1 b port d) ! unat (a - p)) else ram st a))"
proof (induction n arbitrary: p st d)
  case (Suc n)
  obtain v d1 where v: "bus_in b 1 port d = (v, d1)" "bus_in b (Suc 0) port d = (v, d1)" by (cases "bus_in b 1 port d") simp
  let ?st = "st\<lparr>ram := (ram st)(p := ucast v)\<rparr>"
  have "rep_ins n 1 b port (p + 1) ?st d1 = (st', d')" using Suc.prems v by (simp add: dir_def)
  from Suc.IH [OF _ _ this] Suc.prems have ih: "d' = snd (reads n 1 b port d1)" "df st' = df st"
    "\<And>a. ram st' a = (if unat (a - (p + 1)) < n then ucast (fst (reads n 1 b port d1) ! unat (a - (p + 1))) else ram ?st a)"
    by simp_all
  have "ram st' a = (if unat (a - p) < Suc n then ucast (fst (reads (Suc n) 1 b port d) ! unat (a - p)) else ram st a)" for a
  proof (cases "a = p")
    case True
    have "unat (-1 :: u64) = 2 ^ 64 - 1" by (simp add: unsigned_minus_1_eq_mask mask_eq_exp_minus_1)
    then show ?thesis using Suc.prems(2) ih(3) [of p] True by (simp add: v split: prod.split)
  next
    case False
    then have "unat (a - p) \<noteq> 0" by (simp add: unat_eq_zero)
    moreover from False have "unat (a - (p + 1)) = unat (a - p) - 1"
      using unat_minus_one [of "a - p"] by (simp add: algebra_simps)
    ultimately have "unat (a - p) = Suc (unat (a - (p + 1)))" by linarith
    then show ?thesis using ih(3) [of a] False by (simp add: v split: prod.split)
  qed
  then show ?case using ih(1,2) by (auto simp: v split: prod.split)
qed simp

lemma insb_spec:
  assumes "insb b port addr cnt st d = (st', d')"
  shows "d' = snd (reads (unat cnt) 1 b port d) \<and>
    (\<forall>a. ram st' a = (if unat (a - addr) < unat cnt then ucast (fst (reads (unat cnt) 1 b port d) ! unat (a - addr)) else ram st a))"
proof -
  have "unat cnt < 2 ^ LENGTH(64)" by (rule unsigned_less)
  then have "unat cnt < 2 ^ 64" by simp
  from rep_insb_spec [OF _ this assms [unfolded insb_def]] show ?thesis by (simp add: x86_cld_def)
qed

text \<open>The wider accesses stay within the bytes they are given.\<close>

lemma unat_diff_of_nat: "w \<le> unat (x :: u64) \<Longrightarrow> unat (x - of_nat w) = unat x - w"
proof -
  assume w: "w \<le> unat x"
  then have "unat (of_nat w :: u64) = w" proof (intro unat_of_nat64)
    have "unat x < 2 ^ LENGTH(64)" by (rule unsigned_less)
    then show "w < 2 ^ 64" using w by simp
  qed
  then show ?thesis using w by (simp add: unat_sub word_le_nat_alt)
qed

lemma rep_ins_outside:
  "\<not> df st \<Longrightarrow> w * n \<le> unat (a - p) \<Longrightarrow> ram (fst (rep_ins n w b port p st d)) a = ram st a"
proof (induction n arbitrary: p st d)
  case (Suc n)
  obtain v d1 where v: "bus_in b w port d = (v, d1)" by (cases "bus_in b w port d")
  have w: "w \<le> unat (a - p)" using Suc.prems(2) by simp
  have e: "a - (p + of_nat w) = (a - p) - of_nat w" by (simp add: algebra_simps)
  have "w * n \<le> unat (a - (p + of_nat w))" unfolding e unat_diff_of_nat [OF w] using Suc.prems(2) by simp
  then show ?case using Suc.IH [of "st\<lparr>ram := put_item w p v (ram st)\<rparr>" "p + of_nat w" d1] Suc.prems(1) w v
    by (simp add: dir_def put_item_other)
qed simp

text \<open>A device for which reading is not writing receives nothing from \<^verbatim>\<open>outsb\<close> and \<^verbatim>\<open>outsw\<close>.\<close>

lemma rep_ins_sends_nothing:
  assumes "\<And>w p d. sent (snd (bus_in b w p d)) = sent d"
  shows "sent (snd (rep_ins n w b port rdi st d)) = sent d"
  using assms by (induction n arbitrary: rdi st d) (auto simp: prod.case_eq_if)

lemma outs_sends_nothing:
  assumes "\<And>w p d. sent (snd (bus_in b w p d)) = sent d"
  shows "sent (snd (outsb b rdi port addr cnt st d)) = sent d \<and> sent (snd (outsw b rdi port addr cnt st d)) = sent d"
  using assms by (simp add: outsb_def outsw_def rep_ins_sends_nothing)

text \<open>It is memory at \<open>rdi\<close> that changes.\<close>

lemma outsb_is_insb: "outsb b rdi port addr cnt st d = insb b port rdi cnt st d"
  by (simp add: outsb_def insb_def)

lemma rep_outs_spec:
  "\<not> df st \<Longrightarrow> rep_outs n w b port p st d = fold (\<lambda>i. bus_out b w port (get_item w (p + of_nat (w * i)) (ram st))) [0..<n] d"
proof (induction n arbitrary: p d)
  case (Suc n)
  have "[0..<Suc n] = 0 # map Suc [0..<n]" by (simp only: map_Suc_upt upt_conv_Cons zero_less_Suc)
  then show ?case using Suc.IH [OF Suc.prems, of "p + of_nat w"] Suc.prems
    by (simp add: dir_def fold_map comp_def algebra_simps del: upt_Suc)
qed simp

lemma outsl_sends:
  "outsl b port addr cnt st d =
    (x86_cld st, fold (\<lambda>i. outl b port (get_item 4 (addr + of_nat (4 * i)) (ram st))) [0..<unat cnt] d)"
  using rep_outs_spec [of "x86_cld st" "unat cnt" 4 b port addr d] by (simp add: outsl_def outl_def [abs_def] x86_cld_def)

lemma debugcon_loop_cstr:
  "cstr (ram st) p xs \<Longrightarrow> debugcon_loop b st p d = Some (fold (outb b ISA_DEBUGCON_PORT) xs d)"
proof (induction xs arbitrary: p d)
  case Nil
  then show ?case by (subst debugcon_loop.simps) simp
next
  case (Cons x xs)
  then show ?case by (subst debugcon_loop.simps) simp
qed

lemma debugcon_prints:
  assumes "cstr (ram st) p xs"
  shows "isa_debugcon_print True b st p d = Some (fold (outb b ISA_DEBUGCON_PORT) (xs @ [0x0A]) d)"
  unfolding isa_debugcon_print_def by (simp add: debugcon_loop_cstr [OF assms])

text \<open>A run of \<open>n\<close> bytes \<open>v\<close> is skipped, with the byte that ends it.\<close>

lemma rep_scasb_skips:
  assumes "\<not> df st" "n < unat m" "\<forall>i<n. ram st (p + of_nat i) = v" "ram st (p + of_nat n) \<noteq> v"
  shows "rep_scasb st p v m = (p + of_nat n + 1, m - of_nat (Suc n))"
proof -
  have "scasb_e (Suc (n + r)) st p v = (p + of_nat n + 1, r)" if "\<forall>i<n. ram st (p + of_nat i) = v" "ram st (p + of_nat n) \<noteq> v" for r p n
    using that
  proof (induction n arbitrary: p)
    case (Suc n)
    have "ram st p = v" using Suc.prems(1) [rule_format, of 0] by simp
    moreover have "\<forall>i<n. ram st (p + 1 + of_nat i) = v" using Suc.prems(1) [rule_format, of "Suc i" for i] by (simp add: algebra_simps)
    ultimately show ?case using Suc.IH [of "p + 1"] Suc.prems(2) assms(1) by (simp add: dir_def algebra_simps)
  qed (use assms(1) in \<open>simp add: dir_def\<close>)
  from this [OF assms(3,4), of "unat m - Suc n"] have "scasb_e (unat m) st p v = (p + of_nat n + 1, unat m - Suc n)"
    using assms(2) by simp
  moreover have "of_nat (unat m - Suc n) = m - of_nat (Suc n)" using assms(2) by (simp add: of_nat_diff del: of_nat_Suc)
  ultimately show ?thesis by (simp add: rep_scasb_def)
qed

end
