(* ===== verification/VgaText.thy ===== *)
theory VgaText
  imports Kstring
begin

text \<open>
  The text-mode VGA terminal of \<^verbatim>\<open>kernel/drivers/video/vga/vga_text.c\<close>: a grid of 80 x 25 cells
  mapped at \<open>VGA_OUT\<close> and a cursor. The grid is the list of its cells, in the order of memory; it
  is empty before \<^verbatim>\<open>vga_text_init\<close> has mapped it. A write outside the grid faults. Strings are
  given by their bytes.
\<close>

section \<open>State\<close>

record vga_cell =
  ch :: u8
  cell_color :: u8

record kvga =
  cy :: int
  cx :: int
  vga_color :: u32
  vga_out :: "vga_cell list"

definition VGA_TABSTOP :: int where "VGA_TABSTOP = 8"
definition VGA_WIDTH :: int where "VGA_WIDTH = 80"
definition VGA_HEIGHT :: int where "VGA_HEIGHT = 25"
definition VGA_CELLS :: int where "VGA_CELLS = VGA_WIDTH * VGA_HEIGHT"
definition VGA_MAX_STRING_SIZE :: int where "VGA_MAX_STRING_SIZE = VGA_CELLS"
definition VGA_INIT_COLOR :: u8 where "VGA_INIT_COLOR = 11 OR (push_bit 4 0)"

lemmas vga_consts = VGA_TABSTOP_def VGA_WIDTH_def VGA_HEIGHT_def VGA_CELLS_def
  VGA_MAX_STRING_SIZE_def

definition vga_out_set :: "kvga \<Rightarrow> int \<Rightarrow> vga_cell \<Rightarrow> kvga option" where
  "vga_out_set k i c =
     (if 0 \<le> i \<and> i < int (length (vga_out k))
      then Some (k\<lparr>vga_out := (vga_out k)[nat i := c]\<rparr>) else None)"

section \<open>Operations\<close>

definition vga_set_cell_color :: "u8 \<Rightarrow> u8 \<Rightarrow> u8" where
  "vga_set_cell_color fg bg = fg OR (push_bit 4 bg)"

definition vga_write_cell_at :: "kvga \<Rightarrow> vga_cell \<Rightarrow> int \<Rightarrow> int \<Rightarrow> kvga option" where
  "vga_write_cell_at k cell x y = vga_out_set k (y * VGA_WIDTH + x) cell"

text \<open>\<open>if (++kvga.cy >= VGA_HEIGHT) kvga.cy = 0; kvga.cx = 0;\<close>\<close>

definition vga_next_line :: "kvga \<Rightarrow> kvga" where
  "vga_next_line k =
     (let k = k\<lparr>cy := cy k + 1\<rparr>;
          k = (if cy k \<ge> VGA_HEIGHT then k\<lparr>cy := 0\<rparr> else k)
      in k\<lparr>cx := 0\<rparr>)"

primrec vga_tab_loop :: "nat \<Rightarrow> kvga \<Rightarrow> vga_cell \<Rightarrow> kvga option" where
  "vga_tab_loop 0 k cell = Some k"
| "vga_tab_loop (Suc n) k cell = do {
     let x = cx k;
     k \<leftarrow> vga_write_cell_at (k\<lparr>cx := x + 1\<rparr>) cell x (cy k);
     vga_tab_loop n (if cx k \<ge> VGA_WIDTH then vga_next_line k else k) cell }"

definition vga_write_cell :: "kvga \<Rightarrow> vga_cell \<Rightarrow> kvga option" where
  "vga_write_cell k cell =
     (if isprint (ch cell) then do {
        k \<leftarrow> vga_write_cell_at k cell (cx k) (cy k);
        let k = k\<lparr>cx := cx k + 1\<rparr>;
        Some (if cx k \<ge> VGA_WIDTH then vga_next_line k else k) }
      else if ch cell = 0x0D then Some (k\<lparr>cx := 0\<rparr>)
      else if ch cell = 0x0A then Some (vga_next_line k)
      else if ch cell = 0x09 then
        vga_tab_loop (nat (VGA_TABSTOP - cx k mod VGA_TABSTOP)) k (cell\<lparr>ch := 0x20\<rparr>)
      else Some k)"

text \<open>\<open>for (i ...) VGA_OUT[i] = ch\<close> from index \<open>i\<close>, \<open>n\<close> cells.\<close>

primrec vga_fill :: "nat \<Rightarrow> int \<Rightarrow> kvga \<Rightarrow> vga_cell \<Rightarrow> kvga option" where
  "vga_fill 0 i k c = Some k"
| "vga_fill (Suc n) i k c = do { k \<leftarrow> vga_out_set k i c; vga_fill n (i + 1) k c }"

text \<open>\<open>mapped\<close> is what \<^verbatim>\<open>ioremap\<close> of the text buffer returns: its cells.\<close>

definition vga_text_init :: "vga_cell list \<Rightarrow> kvga \<Rightarrow> kvga option" where
  "vga_text_init mapped k = do {
     let k = k\<lparr>vga_out := mapped\<rparr>;
     k \<leftarrow> vga_fill (nat VGA_CELLS) 0 k \<lparr>ch = 0x20, cell_color = VGA_INIT_COLOR\<rparr>;
     Some (k\<lparr>vga_color := ucast VGA_INIT_COLOR\<rparr>) }"

definition vga_text_setcolor :: "kvga \<Rightarrow> u8 \<Rightarrow> u8 \<Rightarrow> kvga" where
  "vga_text_setcolor k fg bg = k\<lparr>vga_color := ucast (vga_set_cell_color fg bg)\<rparr>"

text \<open>
  \<open>while (len--)\<close> over the bytes at \<open>s\<close>. A negative \<open>len\<close>, or one beyond the bytes of \<open>s\<close>, reads
  outside the string.
\<close>

primrec vga_write_loop :: "nat \<Rightarrow> u8 list \<Rightarrow> kvga \<Rightarrow> u8 \<Rightarrow> kvga option" where
  "vga_write_loop 0 s k col = Some k"
| "vga_write_loop (Suc n) s k col = (case s of [] \<Rightarrow> None | c # s \<Rightarrow> do {
     k \<leftarrow> vga_write_cell k \<lparr>ch = c, cell_color = col\<rparr>;
     vga_write_loop n s k col })"

definition vga_text_write :: "kvga \<Rightarrow> u8 list \<Rightarrow> int \<Rightarrow> kvga option" where
  "vga_text_write k s len =
     (if len = 0 then Some k
      else if len < 0 then None
      else vga_write_loop (nat len) s k (ucast (vga_color k)))"

definition vga_text_putchar :: "kvga \<Rightarrow> u8 \<Rightarrow> kvga option" where
  "vga_text_putchar k c = vga_write_cell k \<lparr>ch = c, cell_color = ucast (vga_color k)\<rparr>"

definition vga_text_puts :: "kvga \<Rightarrow> u8 list \<Rightarrow> kvga option" where
  "vga_text_puts k str =
     (let len = sint (of_nat (length str) :: u32);
          len = (if len \<ge> VGA_MAX_STRING_SIZE then VGA_MAX_STRING_SIZE - 1 else len)
      in vga_text_write k str len)"

definition vga_text_clear :: "kvga \<Rightarrow> kvga option" where
  "vga_text_clear k = do {
     k \<leftarrow> vga_fill (nat VGA_CELLS) 0 k \<lparr>ch = 0x20, cell_color = ucast (vga_color k)\<rparr>;
     let k = k\<lparr>cx := 0\<rparr>;
     Some (k\<lparr>cy := 0\<rparr>) }"

definition vga_text_clear_line :: "kvga \<Rightarrow> kvga option" where
  "vga_text_clear_line k =
     (let vga_idx = cy k * VGA_WIDTH + cx k;
          distance = VGA_WIDTH - cx k
      in if distance < 0 then None
         else vga_fill (nat distance) vga_idx k \<lparr>ch = 0x20, cell_color = ucast (vga_color k)\<rparr>)"

definition vga_text_get_color :: "kvga \<Rightarrow> u8" where
  "vga_text_get_color k = ucast (vga_color k)"

section \<open>The cursor invariant\<close>

definition vga_ok :: "kvga \<Rightarrow> bool" where
  "vga_ok k \<longleftrightarrow> 0 \<le> cx k \<and> cx k < 80 \<and> 0 \<le> cy k \<and> cy k < 25 \<and> length (vga_out k) = 2000"

lemma vga_ok_next_line: "vga_ok (k\<lparr>cx := 0\<rparr>) \<Longrightarrow> vga_ok (vga_next_line k)"
  by (auto simp: vga_ok_def vga_next_line_def vga_consts Let_def)

definition cursor :: "kvga \<Rightarrow> int" where
  "cursor k = cy k * 80 + cx k"

lemma cursor_range: "vga_ok k \<Longrightarrow> 0 \<le> cursor k \<and> cursor k < 2000"
  by (auto simp: vga_ok_def cursor_def)

lemma vga_write_at_cursor:
  "vga_ok k \<Longrightarrow> vga_write_cell_at k c (cx k) (cy k) = Some (k\<lparr>vga_out := (vga_out k)[nat (cursor k) := c]\<rparr>)"
  using cursor_range [of k]
  by (simp add: vga_write_cell_at_def vga_out_set_def vga_consts cursor_def vga_ok_def)

text \<open>Advancing the cursor by one cell, with the wrap at the end of the line and of the screen.\<close>

definition advance :: "kvga \<Rightarrow> kvga" where
  "advance k = (let k = k\<lparr>cx := cx k + 1\<rparr> in if cx k \<ge> VGA_WIDTH then vga_next_line k else k)"

lemma advance_ok: "vga_ok k \<Longrightarrow> vga_ok (advance k)"
  by (auto simp: advance_def vga_next_line_def vga_ok_def vga_consts Let_def)

lemma advance_cursor: "vga_ok k \<Longrightarrow> cursor (advance k) = (cursor k + 1) mod 2000"
proof -
  assume ok: "vga_ok k"
  have "cursor (advance k) = (if cursor k + 1 = 2000 then 0 else cursor k + 1)"
    using ok by (auto simp: advance_def vga_next_line_def vga_ok_def vga_consts cursor_def Let_def)
  with cursor_range [OF ok] show ?thesis by auto
qed

lemma advance_keeps [simp]:
  "vga_out (advance k) = vga_out k" "vga_color (advance k) = vga_color k"
  by (simp_all add: advance_def vga_next_line_def Let_def)

lemma vga_write_printable:
  "vga_ok k \<Longrightarrow> isprint (ch c) \<Longrightarrow>
   vga_write_cell k c = Some (advance (k\<lparr>vga_out := (vga_out k)[nat (cursor k) := c]\<rparr>))"
  by (simp add: vga_write_cell_def vga_write_at_cursor advance_def Let_def)

lemma vga_tab_ok: "vga_ok k \<Longrightarrow> \<exists>k'. vga_tab_loop n k c = Some k' \<and> vga_ok k'"
proof (induction n arbitrary: k)
  case 0
  then show ?case by simp
next
  case (Suc n)
  let ?k = "k\<lparr>vga_out := (vga_out k)[nat (cursor k) := c]\<rparr>"
  have "vga_write_cell_at (k\<lparr>cx := cx k + 1\<rparr>) c (cx k) (cy k) = Some (?k\<lparr>cx := cx k + 1\<rparr>)"
    using vga_write_at_cursor [OF Suc.prems, of c]
    by (cases k) (auto simp: vga_write_cell_at_def vga_out_set_def cursor_def split: if_splits)
  then have "vga_tab_loop (Suc n) k c = vga_tab_loop n (advance ?k) c"
    by (simp add: advance_def Let_def)
  moreover have "vga_ok (advance ?k)" using Suc.prems by (intro advance_ok) (simp add: vga_ok_def)
  ultimately show ?case using Suc.IH by simp
qed

lemma vga_write_cell_ok: "vga_ok k \<Longrightarrow> \<exists>k'. vga_write_cell k c = Some k' \<and> vga_ok k'"
proof (cases "isprint (ch c)")
  case True
  assume ok: "vga_ok k"
  then have "vga_ok (advance (k\<lparr>vga_out := (vga_out k)[nat (cursor k) := c]\<rparr>))"
    by (intro advance_ok) (simp add: vga_ok_def)
  with vga_write_printable [OF ok True] show ?thesis by simp
next
  case False
  assume ok: "vga_ok k"
  then have "vga_ok (k\<lparr>cx := 0\<rparr>)" by (simp add: vga_ok_def)
  with vga_ok_next_line [of k] vga_tab_ok [OF ok] ok False show ?thesis
    by (simp add: vga_write_cell_def)
qed

lemma vga_write_loop_ok:
  "vga_ok k \<Longrightarrow> n \<le> length s \<Longrightarrow> \<exists>k'. vga_write_loop n s k col = Some k' \<and> vga_ok k'"
proof (induction n arbitrary: k s)
  case 0
  then show ?case by simp
next
  case (Suc n)
  then obtain c t where s: "s = c # t" by (cases s) auto
  from vga_write_cell_ok [OF Suc.prems(1)] obtain k1 where
    "vga_write_cell k \<lparr>ch = c, cell_color = col\<rparr> = Some k1" "vga_ok k1" by blast
  with Suc s show ?case by simp
qed

lemma vga_fill_spec:
  "0 \<le> i \<Longrightarrow> i + int n \<le> int (length (vga_out k)) \<Longrightarrow>
   vga_fill n i k c = Some (k\<lparr>vga_out := take (nat i) (vga_out k) @ replicate n c @ drop (nat i + n) (vga_out k)\<rparr>)"
proof (induction n arbitrary: i k)
  case 0
  then show ?case by simp
next
  case (Suc n)
  let ?k = "k\<lparr>vga_out := (vga_out k)[nat i := c]\<rparr>"
  have "vga_fill n (i + 1) ?k c = Some (?k\<lparr>vga_out := take (nat (i + 1)) (vga_out ?k) @ replicate n c
      @ drop (nat (i + 1) + n) (vga_out ?k)\<rparr>)"
    using Suc.prems by (intro Suc.IH) auto
  moreover have "take (nat (i + 1)) ((vga_out k)[nat i := c]) = take (nat i) (vga_out k) @ [c]"
    using Suc.prems by (simp add: nat_add_distrib take_Suc_conv_app_nth)
  moreover have "drop (nat (i + 1) + n) ((vga_out k)[nat i := c]) = drop (nat i + Suc n) (vga_out k)"
    using Suc.prems by (simp add: nat_add_distrib)
  ultimately show ?case using Suc.prems by (simp add: vga_out_set_def)
qed

lemma vga_clear_line_spec:
  assumes "vga_ok k"
  shows "vga_text_clear_line k = Some (k\<lparr>vga_out := take (nat (cursor k)) (vga_out k) @
    replicate (nat (80 - cx k)) \<lparr>ch = 0x20, cell_color = ucast (vga_color k)\<rparr> @
    drop (nat (80 * (cy k + 1))) (vga_out k)\<rparr>)"
proof -
  have "nat (cursor k) + nat (80 - cx k) = nat (80 * (cy k + 1))"
    using assms by (simp add: vga_ok_def cursor_def nat_add_distrib [symmetric])
  moreover have "cursor k + int (nat (80 - cx k)) \<le> int (length (vga_out k))" "0 \<le> cursor k"
    using assms by (auto simp: vga_ok_def cursor_def)
  ultimately show ?thesis
    using assms vga_fill_spec [of "cursor k" "nat (80 - cx k)" k]
    by (simp add: vga_text_clear_line_def cursor_def vga_consts vga_ok_def Let_def)
qed

lemma vga_clear_spec:
  assumes "vga_ok k"
  shows "vga_text_clear k = Some (k\<lparr>cx := 0, cy := 0,
    vga_out := replicate 2000 \<lparr>ch = 0x20, cell_color = ucast (vga_color k)\<rparr>\<rparr>)"
  using assms vga_fill_spec [of 0 2000 k]
  by (cases k) (simp add: vga_text_clear_def vga_consts vga_ok_def Let_def)

lemma vga_puts_ok:
  assumes "vga_ok k" "length s < 2 ^ 31"
  shows "\<exists>k'. vga_text_puts k s = Some k' \<and> vga_ok k'"
proof -
  from sint_of_nat32 [OF assms(2)] have "sint (of_nat (length s) :: u32) = int (length s)" .
  define n where "n = (if 2000 \<le> length s then 1999 else length s)"
  have "n \<le> length s" by (simp add: n_def)
  moreover have "vga_text_puts k s = vga_text_write k s (int n)"
    using \<open>sint _ = _\<close> by (simp add: n_def vga_text_puts_def Let_def vga_consts)
  ultimately show ?thesis using vga_write_loop_ok [OF assms(1), of n s] assms(1)
    by (auto simp: vga_text_write_def)
qed

section \<open>Properties\<close>

text \<open>C28. Every operation of the text terminal, from a cursor inside the screen and the grid mapped,
  returns (no cell outside the grid is written) and leaves the cursor inside the screen: writing a
  string of any bytes, a character or a line, clearing the screen or the rest of a line.\<close>

theorem vga_stays_on_screen:
  assumes "vga_ok k" "n \<le> length s" "length s < 2 ^ 31"
  shows "(\<exists>k'. vga_text_write k s (int n) = Some k' \<and> vga_ok k') \<and>
    (\<exists>k'. vga_text_puts k s = Some k' \<and> vga_ok k') \<and>
    (\<exists>k'. vga_text_putchar k c = Some k' \<and> vga_ok k') \<and>
    (\<exists>k'. vga_text_clear k = Some k' \<and> vga_ok k') \<and>
    (\<exists>k'. vga_text_clear_line k = Some k' \<and> vga_ok k')"
proof (intro conjI)
  show "\<exists>k'. vga_text_write k s (int n) = Some k' \<and> vga_ok k'"
    using vga_write_loop_ok [OF assms(1,2)] assms(1) by (auto simp: vga_text_write_def)
  show "\<exists>k'. vga_text_puts k s = Some k' \<and> vga_ok k'" by (rule vga_puts_ok [OF assms(1,3)])
  show "\<exists>k'. vga_text_putchar k c = Some k' \<and> vga_ok k'"
    using vga_write_cell_ok [OF assms(1)] by (simp add: vga_text_putchar_def)
  show "\<exists>k'. vga_text_clear k = Some k' \<and> vga_ok k'"
    using vga_clear_spec [OF assms(1)] by (simp add: vga_ok_def)
  show "\<exists>k'. vga_text_clear_line k = Some k' \<and> vga_ok k'"
    using vga_clear_line_spec [OF assms(1)] assms(1) by (auto simp: vga_ok_def cursor_def)
qed

definition vga_demo :: kvga where
  "vga_demo = \<lparr>cy = 24, cx = 79, vga_color = 15, vga_out = replicate 2000 \<lparr>ch = 0, cell_color = 0\<rparr>\<rparr>"

lemma vga_demo_ok: "vga_ok vga_demo"
  by (simp add: vga_ok_def vga_demo_def)

lemma vga_stays_on_screen_witness:
  "\<exists>k'. vga_text_puts vga_demo [0x41, 0x0A, 0x09] = Some k' \<and> vga_ok k'"
  using vga_stays_on_screen [OF vga_demo_ok, of 0 "[0x41, 0x0A, 0x09]"] by simp

lemma vga_write_text:
  "vga_ok k \<Longrightarrow> list_all isprint s \<Longrightarrow> length s \<le> 2000 \<Longrightarrow>
   \<exists>k'. vga_write_loop (length s) s k col = Some k' \<and> vga_ok k' \<and>
     cursor k' = (cursor k + int (length s)) mod 2000 \<and>
     (\<forall>j. 0 \<le> j \<and> j < 2000 \<longrightarrow> vga_out k' ! nat j =
       (let i = nat ((j - cursor k) mod 2000) in
        if i < length s then \<lparr>ch = s ! i, cell_color = col\<rparr> else vga_out k ! nat j))"
proof (induction s arbitrary: k)
  case Nil
  with cursor_range [OF Nil(1)] show ?case by simp
next
  case (Cons c s)
  note ok = Cons.prems(1)
  let ?cell = "\<lparr>ch = c, cell_color = col\<rparr>"
  define k1 where "k1 = advance (k\<lparr>vga_out := (vga_out k)[nat (cursor k) := ?cell]\<rparr>)"
  have ok1: "vga_ok k1" unfolding k1_def using ok by (intro advance_ok) (simp add: vga_ok_def)
  have cu: "cursor k1 = (cursor k + 1) mod 2000"
    using ok advance_cursor [of "k\<lparr>vga_out := (vga_out k)[nat (cursor k) := ?cell]\<rparr>"]
    by (simp add: k1_def vga_ok_def cursor_def)
  from Cons.IH [OF ok1] Cons.prems obtain k' where k': "vga_write_loop (length s) s k1 col = Some k'"
    "vga_ok k'" "cursor k' = (cursor k1 + int (length s)) mod 2000"
    and out: "\<And>j. 0 \<le> j \<Longrightarrow> j < 2000 \<Longrightarrow> vga_out k' ! nat j =
       (let i = nat ((j - cursor k1) mod 2000) in
        if i < length s then \<lparr>ch = s ! i, cell_color = col\<rparr> else vga_out k1 ! nat j)" by auto
  have "vga_write_loop (length (c # s)) (c # s) k col = Some k'"
    using Cons.prems(2) vga_write_printable [OF ok, of ?cell] k'(1) by (simp add: k1_def)
  moreover have "cursor k' = (cursor k + int (length (c # s))) mod 2000"
    using k'(3) by (simp add: cu mod_simps add_ac)
  moreover have "vga_out k' ! nat j = (let i = nat ((j - cursor k) mod 2000) in
      if i < length (c # s) then \<lparr>ch = (c # s) ! i, cell_color = col\<rparr> else vga_out k ! nat j)"
    if j: "0 \<le> j" "j < 2000" for j
  proof -
    have m: "(j - cursor k1) mod 2000 = ((j - cursor k) - 1) mod 2000"
      by (simp add: cu mod_simps diff_diff_eq)
    show ?thesis
    proof (cases "j = cursor k")
      case True
      then have "nat ((j - cursor k1) mod 2000) = 1999" using m by simp
      then show ?thesis using out [OF j] True Cons.prems(3) ok
        using cursor_range [OF ok]
        by (simp add: k1_def vga_ok_def Let_def nat_less_iff)
    next
      case False
      then have "(j - cursor k) mod 2000 \<noteq> 0"
        using cursor_range [OF ok] j by (smt (verit) mod_pos_pos_trivial mod_add_self2)
      then have p: "0 < (j - cursor k) mod 2000" by (metis order_le_less pos_mod_sign zero_less_numeral)
      then have "((j - cursor k) - 1) mod 2000 = (j - cursor k) mod 2000 - 1"
        by (smt (verit) mod_diff_left_eq mod_pos_pos_trivial pos_mod_bound)
      with m p have "nat ((j - cursor k) mod 2000) = Suc (nat ((j - cursor k1) mod 2000))" by simp
      moreover have "vga_out k1 ! nat j = vga_out k ! nat j"
        using False cursor_range [OF ok] j by (simp add: k1_def nat_eq_iff)
      ultimately show ?thesis using out [OF j] by (simp add: Let_def)
    qed
  qed
  ultimately show ?case using k'(2) by blast
qed

text \<open>Writing a printable string puts its characters, in the current colour, into consecutive
  cells from the cursor, wrapping from the last cell of the screen to the first; every other cell
  keeps its content, and the cursor ends behind the string.\<close>

theorem vga_write_prints:
  assumes "vga_ok k" "list_all isprint s" "length s \<le> 2000"
  shows "\<exists>k'. vga_text_write k s (int (length s)) = Some k' \<and>
     cursor k' = (cursor k + int (length s)) mod 2000 \<and>
     (\<forall>j. 0 \<le> j \<and> j < 2000 \<longrightarrow> vga_out k' ! nat j =
       (let i = nat ((j - cursor k) mod 2000) in
        if i < length s then \<lparr>ch = s ! i, cell_color = ucast (vga_color k)\<rparr> else vga_out k ! nat j))"
  using vga_write_text [OF assms, of "ucast (vga_color k)"] cursor_range [OF assms(1)]
  by (auto simp: vga_text_write_def)

lemma vga_write_prints_witness:
  "\<exists>k'. vga_text_write vga_demo [0x41, 0x42] 2 = Some k' \<and> cursor k' = 1 \<and>
     vga_out k' ! nat 0 = \<lparr>ch = 0x42, cell_color = 15\<rparr>"
proof -
  have "list_all isprint [0x41, 0x42]" by code_simp
  from vga_write_prints [OF vga_demo_ok this] obtain k' where
    k': "vga_text_write vga_demo [0x41, 0x42] 2 = Some k'" "cursor k' = (cursor vga_demo + 2) mod 2000"
    and o: "\<forall>j. 0 \<le> j \<and> j < 2000 \<longrightarrow> vga_out k' ! nat j =
       (let i = nat ((j - cursor vga_demo) mod 2000) in
        if i < 2 then \<lparr>ch = [0x41, 0x42] ! i, cell_color = ucast (vga_color vga_demo)\<rparr> else vga_out vga_demo ! nat j)"
    by (auto simp: numeral_2_eq_2)
  have "vga_out k' ! nat 0 = \<lparr>ch = 0x42, cell_color = 15\<rparr>"
    using o [rule_format, of 0] by (simp add: cursor_def vga_demo_def)
  with k' show ?thesis by (simp add: cursor_def vga_demo_def)
qed

end
