(* ===== verification/Bootparams.thy ===== *)
theory Bootparams
  imports Prelude
begin

text \<open>
  The boot information of \<^verbatim>\<open>kernel/bootparams.h\<close> that \<^verbatim>\<open>boot.c\<close> fills and the kernel reads: the framebuffer, the
  memory map and where the kernel was loaded.
\<close>

datatype kern_boot_type = KERN_BOOT_TYPE_BIOS | KERN_BOOT_TYPE_EFI32 | KERN_BOOT_TYPE_EFI64

text \<open>The enumeration is ordered by its values.\<close>

primrec boot_type_value :: "kern_boot_type \<Rightarrow> u8" where
  "boot_type_value KERN_BOOT_TYPE_BIOS = 0"
| "boot_type_value KERN_BOOT_TYPE_EFI32 = 1"
| "boot_type_value KERN_BOOT_TYPE_EFI64 = 2"

instantiation kern_boot_type :: linorder
begin

definition less_eq_kern_boot_type :: "kern_boot_type \<Rightarrow> kern_boot_type \<Rightarrow> bool" where
  "a \<le> b \<longleftrightarrow> boot_type_value a \<le> boot_type_value b"

definition less_kern_boot_type :: "kern_boot_type \<Rightarrow> kern_boot_type \<Rightarrow> bool" where
  "a < b \<longleftrightarrow> boot_type_value a < boot_type_value b"

instance
proof
  fix a b :: kern_boot_type
  assume "a \<le> b" "b \<le> a"
  then show "a = b" by (cases a; cases b) (simp_all add: less_eq_kern_boot_type_def word_le_nat_alt)
qed (auto simp: less_eq_kern_boot_type_def less_kern_boot_type_def)

end

lemma efi_iff [simp]: "KERN_BOOT_TYPE_BIOS < b \<longleftrightarrow> b \<noteq> KERN_BOOT_TYPE_BIOS"
  by (cases b) (simp_all add: less_kern_boot_type_def word_less_nat_alt)

record bootparam_framebuf_info =
  fbi_phys :: u64
  fbi_virt :: u64
  fbi_width :: u32
  fbi_height :: u32
  fbi_pitch :: u32
  fbi_bpp :: u8

record bootparam_map_entry =
  me_base :: u64
  me_len :: u64

record bootparam_map_info =
  mi_entries :: "bootparam_map_entry list"
  mi_reclaimable :: "bootparam_map_entry list"
  mi_ram_max :: u64
  mi_ram_usable :: u64
  mi_count :: u8
  mi_count_reclaimable :: u8

record kboot_info =
  bi_cmdline :: "u8 list"
  bi_fb :: bootparam_framebuf_info
  bi_maps :: bootparam_map_info
  bi_load_addr :: u64
  bi_acpi_rsdp_addr :: u64
  bi_bootenv :: kern_boot_type

text \<open>\<^verbatim>\<open>KERN_BOOT_INFO\<close> before booting, and a cleared \<^verbatim>\<open>kboot_info_t\<close>: every byte zero.\<close>

definition kboot_info_zero :: kboot_info where
  "kboot_info_zero =
     \<lparr>bi_cmdline = replicate 256 0,
      bi_fb = \<lparr>fbi_phys = 0, fbi_virt = 0, fbi_width = 0, fbi_height = 0, fbi_pitch = 0, fbi_bpp = 0\<rparr>,
      bi_maps = \<lparr>mi_entries = replicate 64 \<lparr>me_base = 0, me_len = 0\<rparr>,
        mi_reclaimable = replicate 8 \<lparr>me_base = 0, me_len = 0\<rparr>,
        mi_ram_max = 0, mi_ram_usable = 0, mi_count = 0, mi_count_reclaimable = 0\<rparr>,
      bi_load_addr = 0, bi_acpi_rsdp_addr = 0, bi_bootenv = KERN_BOOT_TYPE_BIOS\<rparr>"

end
