(* ===== verification/VgaDriver.thy ===== *)
theory VgaDriver
  imports VgaText Bootparams
begin

text \<open>
  The driver switch of \<^verbatim>\<open>kernel/drivers/video/vga/vga.c\<close>: \<^verbatim>\<open>vga_init\<close> fills eight function
  pointers from the boot environment, and every other operation calls through its pointer. The
  graphics back end (\<^verbatim>\<open>vga_graphics.c\<close>) is a set of empty functions. The pointers are set
  together, so the model keeps which back end is installed; none is before \<^verbatim>\<open>vga_init\<close>, and a call
  then jumps through a null pointer.
\<close>

datatype vga_mode = VGA_MODE_TEXT | VGA_MODE_GRAPHICS

record vga_driver =
  vga_ops :: "vga_mode option"
  vga_term :: kvga

section \<open>The graphics back end\<close>

definition vga_graphics_init :: "kvga \<Rightarrow> kvga" where "vga_graphics_init k = k"
definition vga_graphics_setcolor :: "kvga \<Rightarrow> u8 \<Rightarrow> u8 \<Rightarrow> kvga" where "vga_graphics_setcolor k fg bg = k"
definition vga_graphics_write :: "kvga \<Rightarrow> u8 list \<Rightarrow> int \<Rightarrow> kvga" where "vga_graphics_write k s len = k"
definition vga_graphics_putchar :: "kvga \<Rightarrow> u8 \<Rightarrow> kvga" where "vga_graphics_putchar k c = k"
definition vga_graphics_puts :: "kvga \<Rightarrow> u8 list \<Rightarrow> kvga" where "vga_graphics_puts k s = k"
definition vga_graphics_clear :: "kvga \<Rightarrow> kvga" where "vga_graphics_clear k = k"
definition vga_graphics_clear_line :: "kvga \<Rightarrow> kvga" where "vga_graphics_clear_line k = k"
definition vga_graphics_get_color :: "kvga \<Rightarrow> u8" where "vga_graphics_get_color k = 0"

section \<open>Calls through the pointers\<close>

definition with_ops ::
  "vga_driver \<Rightarrow> (kvga \<Rightarrow> kvga option) \<Rightarrow> (kvga \<Rightarrow> kvga) \<Rightarrow> vga_driver option" where
  "with_ops d text graphics = (case vga_ops d of
       None \<Rightarrow> None
     | Some VGA_MODE_TEXT \<Rightarrow> map_option (\<lambda>k. d\<lparr>vga_term := k\<rparr>) (text (vga_term d))
     | Some VGA_MODE_GRAPHICS \<Rightarrow> Some (d\<lparr>vga_term := graphics (vga_term d)\<rparr>))"

definition vga_setcolor :: "vga_driver \<Rightarrow> u8 \<Rightarrow> u8 \<Rightarrow> vga_driver option" where
  "vga_setcolor d fg bg =
     with_ops d (\<lambda>k. Some (vga_text_setcolor k fg bg)) (\<lambda>k. vga_graphics_setcolor k fg bg)"

definition vga_write :: "vga_driver \<Rightarrow> u8 list \<Rightarrow> int \<Rightarrow> vga_driver option" where
  "vga_write d s len = with_ops d (\<lambda>k. vga_text_write k s len) (\<lambda>k. vga_graphics_write k s len)"

definition vga_putchar :: "vga_driver \<Rightarrow> u8 \<Rightarrow> vga_driver option" where
  "vga_putchar d c = with_ops d (\<lambda>k. vga_text_putchar k c) (\<lambda>k. vga_graphics_putchar k c)"

definition vga_puts :: "vga_driver \<Rightarrow> u8 list \<Rightarrow> vga_driver option" where
  "vga_puts d s = with_ops d (\<lambda>k. vga_text_puts k s) (\<lambda>k. vga_graphics_puts k s)"

definition vga_clear :: "vga_driver \<Rightarrow> vga_driver option" where
  "vga_clear d = with_ops d vga_text_clear vga_graphics_clear"

definition vga_clear_line :: "vga_driver \<Rightarrow> vga_driver option" where
  "vga_clear_line d = with_ops d vga_text_clear_line vga_graphics_clear_line"

definition vga_get_color :: "vga_driver \<Rightarrow> u8 option" where
  "vga_get_color d = (case vga_ops d of
       None \<Rightarrow> None
     | Some VGA_MODE_TEXT \<Rightarrow> Some (vga_text_get_color (vga_term d))
     | Some VGA_MODE_GRAPHICS \<Rightarrow> Some (vga_graphics_get_color (vga_term d)))"

definition vga_init :: "kern_boot_type \<Rightarrow> vga_cell list \<Rightarrow> vga_driver \<Rightarrow> vga_driver option" where
  "vga_init bootenv mapped d = do {
     let d = d\<lparr>vga_ops := Some (if bootenv = KERN_BOOT_TYPE_BIOS then VGA_MODE_TEXT else VGA_MODE_GRAPHICS)\<rparr>;
     d \<leftarrow> with_ops d (vga_text_init mapped) vga_graphics_init;
     vga_setcolor d 15 0 }"

end
