(* ===== verification/CpuFeats.thy ===== *)
theory CpuFeats
  imports Prelude
begin

text \<open>
  CPU feature detection, \<^verbatim>\<open>kernel/cpu_feats.c\<close> and \<^verbatim>\<open>kernel/cpu_feats.h\<close>. The \<^verbatim>\<open>cpuid\<close>
  instruction is the parameter \<open>cpuid leaf subleaf = (eax, ebx, ecx, edx)\<close>.
\<close>

section \<open>Recorded leaves\<close>

record cpu_leaf_limits =
  max_std_leaf :: u32
  max_ext_leaf :: u32

record cpu_leaf =
  eax :: u32
  ebx :: u32
  ecx :: u32
  edx :: u32
  supported :: bool

record cpu_info =
  limits :: cpu_leaf_limits
  leaf_1 :: cpu_leaf
  leaf_7 :: cpu_leaf
  leaf_ext :: cpu_leaf

definition boot_cpu_init :: cpu_info where
  "boot_cpu_init =
     (let l = \<lparr>eax = 0, ebx = 0, ecx = 0, edx = 0, supported = False\<rparr>
      in \<lparr>limits = \<lparr>max_std_leaf = 0, max_ext_leaf = 0\<rparr>, leaf_1 = l, leaf_7 = l, leaf_ext = l\<rparr>)"

definition CPUID_EXT_LEAF :: u32 where "CPUID_EXT_LEAF = 0x80000001"

type_synonym cpuid_fn = "u32 \<Rightarrow> u32 \<Rightarrow> u32 \<times> u32 \<times> u32 \<times> u32"

definition leaf_of :: "u32 \<times> u32 \<times> u32 \<times> u32 \<Rightarrow> cpu_leaf" where
  "leaf_of r = (case r of (a, b, c, d) \<Rightarrow> \<lparr>eax = a, ebx = b, ecx = c, edx = d, supported = True\<rparr>)"

definition cpu_get_capabilities :: "cpuid_fn \<Rightarrow> cpu_info \<Rightarrow> cpu_info" where
  "cpu_get_capabilities cpuid info =
     (let info = info\<lparr>limits := (limits info)\<lparr>max_std_leaf := fst (cpuid 0 0)\<rparr>\<rparr>;
          info = info\<lparr>limits := (limits info)\<lparr>max_ext_leaf := fst (cpuid 0x80000000 0)\<rparr>\<rparr>;
          info = (if max_std_leaf (limits info) \<ge> 1 then info\<lparr>leaf_1 := leaf_of (cpuid 1 0)\<rparr> else info);
          info = (if max_std_leaf (limits info) \<ge> 7 then info\<lparr>leaf_7 := leaf_of (cpuid 7 0)\<rparr> else info);
          info = (if max_ext_leaf (limits info) \<ge> CPUID_EXT_LEAF
                  then info\<lparr>leaf_ext := leaf_of (cpuid CPUID_EXT_LEAF 0)\<rparr> else info)
      in info)"

section \<open>Feature tests\<close>

definition CPUID_REG_EBX :: u16 where "CPUID_REG_EBX = 0"
definition CPUID_REG_ECX :: u16 where "CPUID_REG_ECX = 1"
definition CPUID_REG_EDX :: u16 where "CPUID_REG_EDX = 2"

definition cpu_assign_from_leaf :: "cpu_leaf \<Rightarrow> u32 \<Rightarrow> u16 \<Rightarrow> u32" where
  "cpu_assign_from_leaf l val reg =
     (if reg = CPUID_REG_EBX then ebx l
      else if reg = CPUID_REG_ECX then ecx l
      else if reg = CPUID_REG_EDX then edx l
      else val)"

definition cpu_has_feat :: "cpu_info \<Rightarrow> u16 \<Rightarrow> bool" where
  "cpu_has_feat boot_cpu feat =
     (let reg = (drop_bit 5 feat) AND 7;
          leaf = (drop_bit 8 feat) AND 0xFF;
          b = feat AND 0x1F;
          test = (\<lambda>l. supported l \<and>
             (cpu_assign_from_leaf l 0 reg AND push_bit (unat b) 1) \<noteq> 0)
      in if leaf = 1 then test (leaf_1 boot_cpu)
         else if leaf = 7 then test (leaf_7 boot_cpu)
         else if leaf = 2 then test (leaf_ext boot_cpu)
         else False)"

definition CPUID_FEAT_GROUP :: "u32 \<Rightarrow> u16 \<Rightarrow> u32 \<Rightarrow> u16" where
  "CPUID_FEAT_GROUP leaf reg b = ucast (push_bit 7 leaf OR (push_bit 5 (ucast reg) OR b))"

datatype cpuid_feats = CPUID_FEAT_TSC | CPUID_FEAT_PAE | CPUID_FEAT_APIC
  | CPUID_FEAT_PCID | CPUID_FEAT_X2APIC | CPUID_FEAT_TSC_DEADLINE
  | CPUID_FEAT_FSGSBASE | CPUID_FEAT_AVX2 | CPUID_FEAT_SMAP
  | CPUID_FEAT_SYSCALL | CPUID_FEAT_NX | CPUID_FEAT_PDPT1G | CPUID_FEAT_LM

fun feat_leaf_reg_bit :: "cpuid_feats \<Rightarrow> u32 \<times> u16 \<times> u32" where
  "feat_leaf_reg_bit CPUID_FEAT_TSC = (1, CPUID_REG_EDX, 4)"
| "feat_leaf_reg_bit CPUID_FEAT_PAE = (1, CPUID_REG_EDX, 6)"
| "feat_leaf_reg_bit CPUID_FEAT_APIC = (1, CPUID_REG_EDX, 9)"
| "feat_leaf_reg_bit CPUID_FEAT_PCID = (1, CPUID_REG_ECX, 17)"
| "feat_leaf_reg_bit CPUID_FEAT_X2APIC = (1, CPUID_REG_ECX, 21)"
| "feat_leaf_reg_bit CPUID_FEAT_TSC_DEADLINE = (1, CPUID_REG_ECX, 24)"
| "feat_leaf_reg_bit CPUID_FEAT_FSGSBASE = (7, CPUID_REG_EBX, 0)"
| "feat_leaf_reg_bit CPUID_FEAT_AVX2 = (7, CPUID_REG_EBX, 5)"
| "feat_leaf_reg_bit CPUID_FEAT_SMAP = (7, CPUID_REG_EBX, 20)"
| "feat_leaf_reg_bit CPUID_FEAT_SYSCALL = (2, CPUID_REG_EDX, 11)"
| "feat_leaf_reg_bit CPUID_FEAT_NX = (2, CPUID_REG_EDX, 20)"
| "feat_leaf_reg_bit CPUID_FEAT_PDPT1G = (2, CPUID_REG_EDX, 26)"
| "feat_leaf_reg_bit CPUID_FEAT_LM = (2, CPUID_REG_EDX, 29)"

definition feat_val :: "cpuid_feats \<Rightarrow> u16" where
  "feat_val f = (case feat_leaf_reg_bit f of (leaf, reg, b) \<Rightarrow> CPUID_FEAT_GROUP leaf reg b)"

section \<open>What the tests read\<close>

text \<open>The layout the header documents: bits 0 to 4 the bit, 5 to 7 the register, 8 to 15 the leaf.\<close>

definition documented_feat :: "u16 \<Rightarrow> u16 \<Rightarrow> u16 \<Rightarrow> u16" where
  "documented_feat leaf reg b = push_bit 8 leaf OR push_bit 5 reg OR b"

lemma low_bits:
  fixes b :: u16
  assumes "b < 32"
  shows "drop_bit 5 b = 0" "drop_bit 8 b = 0" "b AND 31 = b"
proof -
  have "b div 32 = 0" "b mod 32 = b" using assms by (simp_all add: div_word_less mod_word_less)
  then show 5: "drop_bit 5 b = 0" and "b AND 31 = b"
    using take_bit_eq_mod [of 5 b] take_bit_eq_mask [of 5 b]
    by (simp_all add: drop_bit_eq_div mask_eq_exp_minus_1)
  have "drop_bit 8 b = drop_bit 3 (drop_bit 5 b)" by simp
  then show "drop_bit 8 b = 0" by (simp add: 5)
qed

lemma documented_field:
  assumes "leaf \<in> {1, 2, 7}" "reg \<in> {0, 1, 2}" "b < 32"
  shows "drop_bit 5 (documented_feat leaf reg b) AND 7 = reg"
    "drop_bit 8 (documented_feat leaf reg b) AND 0xFF = leaf"
    "documented_feat leaf reg b AND 0x1F = b"
  using assms(1,2) low_bits [OF assms(3)]
  by (auto simp: documented_feat_def bit.conj_disj_distrib2)

fun leaf_record :: "cpu_info \<Rightarrow> u16 \<Rightarrow> cpu_leaf" where
  "leaf_record info leaf = (if leaf = 1 then leaf_1 info else if leaf = 7 then leaf_7 info else leaf_ext info)"

fun leaf_reg :: "cpu_leaf \<Rightarrow> u16 \<Rightarrow> u32" where
  "leaf_reg l reg = (if reg = 0 then ebx l else if reg = 1 then ecx l else edx l)"

section \<open>Properties\<close>

text \<open>For a feature number in the documented layout, \<^verbatim>\<open>cpu_has_feat\<close> answers whether the leaf
  was recorded and the bit of the register is set.\<close>

theorem cpu_has_feat_decodes:
  assumes "leaf \<in> {1, 2, 7}" "reg \<in> {0, 1, 2}" "b < 32"
  shows "cpu_has_feat info (documented_feat leaf reg b) \<longleftrightarrow>
    supported (leaf_record info leaf) \<and>
    leaf_reg (leaf_record info leaf) reg AND push_bit (unat b) 1 \<noteq> 0"
  using assms(1,2) documented_field [OF assms]
  by (auto simp: cpu_has_feat_def cpu_assign_from_leaf_def CPUID_REG_EBX_def CPUID_REG_ECX_def
      CPUID_REG_EDX_def Let_def)

definition demo_info :: cpu_info where
  "demo_info = cpu_get_capabilities (\<lambda>l s. if l = 7 then (0, 32, 0, 0) else (7, 0, 0, 0x800)) boot_cpu_init"

lemma cpu_has_feat_decodes_witness: "cpu_has_feat demo_info (documented_feat 7 0 5)"
  using cpu_has_feat_decodes [of 7 0 5 demo_info]
  by (simp add: demo_info_def cpu_get_capabilities_def boot_cpu_init_def leaf_of_def Let_def)

text \<open>The numbers that the header builds with \<^verbatim>\<open>CPUID_FEAT_GROUP\<close> put the leaf one bit too low
  for that layout. Every feature of leaf 1 and leaf 7 is therefore reported absent whatever
  \<^verbatim>\<open>cpuid\<close> returned, and the four extended features are read from \<^verbatim>\<open>edx\<close> of leaf 1.\<close>

theorem cpu_feats_misread:
  "cpu_has_feat info (feat_val f) \<longleftrightarrow>
     fst (feat_leaf_reg_bit f) = 2 \<and> supported (leaf_1 info) \<and>
     edx (leaf_1 info) AND push_bit (unat (snd (snd (feat_leaf_reg_bit f)))) 1 \<noteq> 0"
  by (cases f)
     (simp_all add: cpu_has_feat_def feat_val_def CPUID_FEAT_GROUP_def cpu_assign_from_leaf_def
       CPUID_REG_EBX_def CPUID_REG_ECX_def CPUID_REG_EDX_def Let_def)

end
