(* ===== verification/CpuMasks.thy ===== *)
theory CpuMasks
  imports CpuFeats
begin

text \<open>
  The bit masks of the \<^verbatim>\<open>cpuid\<close> registers in \<^verbatim>\<open>kernel/cpu_feats.h\<close> and \<^verbatim>\<open>cpu_get_model\<close>. The enumeration
  is a list per register, of the names without their prefix (\<^verbatim>\<open>CPUID_L1_ECX_SSE3\<close> is \<open>''SSE3''\<close>) and the bits.
\<close>

section \<open>The masks\<close>

definition CPUID_L1_ECX :: "(string \<times> nat) list" where
  "CPUID_L1_ECX =
    [(''SSE3'', 0), (''PCLMUL'', 1), (''DTES64'', 2), (''MONITOR'', 3), (''DS_CPL'', 4), (''VMX'', 5),
     (''SMX'', 6), (''EST'', 7), (''TM2'', 8), (''SSSE3'', 9), (''CID'', 10), (''SDBG'', 11), (''FMA'', 12),
     (''CX16'', 13), (''XTPR'', 14), (''PDCM'', 15), (''PCID'', 17), (''DCA'', 18), (''SSE4_1'', 19),
     (''SSE4_2'', 20), (''X2APIC'', 21), (''MOVBE'', 22), (''POPCNT'', 23), (''TSC_DEADLINE'', 24), (''AES'', 25),
     (''XSAVE'', 26), (''OSXSAVE'', 27), (''AVX'', 28), (''F16C'', 29), (''RDRAND'', 30), (''HYPERVISOR'', 31)]"

definition CPUID_L1_EDX :: "(string \<times> nat) list" where
  "CPUID_L1_EDX =
    [(''FPU'', 0), (''VME'', 1), (''DE'', 2), (''PSE'', 3), (''TSC'', 4), (''MSR'', 5), (''PAE'', 6),
     (''MCE'', 7), (''CX8'', 8), (''APIC'', 9), (''SEP'', 11), (''MTRR'', 12), (''PGE'', 13), (''MCA'', 14),
     (''CMOV'', 15), (''PAT'', 16), (''PSE36'', 17), (''PSN'', 18), (''CLFLUSH'', 19), (''DS'', 21),
     (''ACPI'', 22), (''MMX'', 23), (''FXSR'', 24), (''SSE'', 25), (''SSE2'', 26), (''SS'', 27), (''HTT'', 28),
     (''TM'', 29), (''IA64'', 30), (''PBE'', 31)]"

definition CPUID_L7_EBX :: "(string \<times> nat) list" where
  "CPUID_L7_EBX =
    [(''FSGSBASE'', 0), (''BMI1'', 3), (''AVX2'', 5), (''BMI2'', 8), (''ERMS'', 9), (''INVPCID'', 10),
     (''AVX512F'', 16), (''RDSEED'', 18), (''ADX'', 19), (''SMAP'', 20)]"

definition CPUID_L7_ECX :: "(string \<times> nat) list" where
  "CPUID_L7_ECX =
    [(''AVX512_VBMI'', 1), (''UMIP'', 2), (''PKU'', 3), (''OSPKE'', 4)]"

definition CPUID_L7_EDX :: "(string \<times> nat) list" where
  "CPUID_L7_EDX =
    [(''MD_CLEAR'', 8), (''IBPB'', 26), (''STIBP'', 27), (''L1D_FLUSH'', 28), (''IA32_ARCH_CAPABILITIES'', 29),
     (''SSBD'', 31)]"

definition CPUID_EXT_ECX :: "(string \<times> nat) list" where
  "CPUID_EXT_ECX =
    [(''LAHF_LM'', 20), (''CMPXCHG16B'', 20)]"

definition CPUID_EXT_EDX :: "(string \<times> nat) list" where
  "CPUID_EXT_EDX =
    [(''SYSCALL'', 11), (''NX'', 20), (''PDPE1G'', 26), (''RDTSCP'', 27), (''LM'', 29)]"

definition cpuid_mask :: "(string \<times> nat) list \<Rightarrow> string \<Rightarrow> u32 option" where
  "cpuid_mask register name = map_option (\<lambda>b. push_bit b 1) (map_of register name)"

text \<open>The value of \<^verbatim>\<open>ebx\<close> of leaf 0, which is the first third of the name of the vendor.\<close>

definition cpu_get_model :: "cpuid_fn \<Rightarrow> u32" where
  "cpu_get_model cpuid = (case cpuid 0 0 of (_, b, _, _) \<Rightarrow> b)"

section \<open>Lemmas\<close>

text \<open>Different names of a register are different bits of 32, but for the two of the extended \<^verbatim>\<open>ecx\<close>.\<close>

definition masks_ok :: "(string \<times> nat) list \<Rightarrow> bool" where
  "masks_ok register \<longleftrightarrow> distinct (map fst register) \<and> distinct (map snd register) \<and> list_all (\<lambda>b. b < 32) (map snd register)"

lemmas mask_lists = CPUID_L1_ECX_def CPUID_L1_EDX_def CPUID_L7_EBX_def CPUID_L7_ECX_def CPUID_L7_EDX_def CPUID_EXT_EDX_def

lemma masks_distinct:
  "list_all masks_ok [CPUID_L1_ECX, CPUID_L1_EDX, CPUID_L7_EBX, CPUID_L7_ECX, CPUID_L7_EDX, CPUID_EXT_EDX]"
  by (simp add: masks_ok_def mask_lists)

lemma ext_ecx_clash: "cpuid_mask CPUID_EXT_ECX ''LAHF_LM'' = cpuid_mask CPUID_EXT_ECX ''CMPXCHG16B''"
  by (simp add: cpuid_mask_def CPUID_EXT_ECX_def)

lemma mask_tests_bit:
  assumes "map_of register name = Some b"
  shows "\<exists>m. cpuid_mask register name = Some m \<and> (r AND m \<noteq> 0 \<longleftrightarrow> bit r b)"
proof -
  have "r AND push_bit b 1 \<noteq> 0 \<longleftrightarrow> bit r b" by (simp add: push_bit_eq_mult and_exp_eq_0_iff_not_bit)
  then show ?thesis using assms by (simp add: cpuid_mask_def)
qed

text \<open>A feature of the enumeration \<^verbatim>\<open>cpuid_feats\<close> with the register and the name of its mask.\<close>

fun feat_mask :: "cpuid_feats \<Rightarrow> u32 option" where
  "feat_mask CPUID_FEAT_TSC = cpuid_mask CPUID_L1_EDX ''TSC''"
| "feat_mask CPUID_FEAT_PAE = cpuid_mask CPUID_L1_EDX ''PAE''"
| "feat_mask CPUID_FEAT_APIC = cpuid_mask CPUID_L1_EDX ''APIC''"
| "feat_mask CPUID_FEAT_PCID = cpuid_mask CPUID_L1_ECX ''PCID''"
| "feat_mask CPUID_FEAT_X2APIC = cpuid_mask CPUID_L1_ECX ''X2APIC''"
| "feat_mask CPUID_FEAT_TSC_DEADLINE = cpuid_mask CPUID_L1_ECX ''TSC_DEADLINE''"
| "feat_mask CPUID_FEAT_FSGSBASE = cpuid_mask CPUID_L7_EBX ''FSGSBASE''"
| "feat_mask CPUID_FEAT_AVX2 = cpuid_mask CPUID_L7_EBX ''AVX2''"
| "feat_mask CPUID_FEAT_SMAP = cpuid_mask CPUID_L7_EBX ''SMAP''"
| "feat_mask CPUID_FEAT_SYSCALL = cpuid_mask CPUID_EXT_EDX ''SYSCALL''"
| "feat_mask CPUID_FEAT_NX = cpuid_mask CPUID_EXT_EDX ''NX''"
| "feat_mask CPUID_FEAT_PDPT1G = cpuid_mask CPUID_EXT_EDX ''PDPE1G''"
| "feat_mask CPUID_FEAT_LM = cpuid_mask CPUID_EXT_EDX ''LM''"

text \<open>Both enumerations agree on the bit of a feature.\<close>

lemma feat_mask_agrees: "feat_mask f = Some (push_bit (unat (snd (snd (feat_leaf_reg_bit f)))) 1)"
  by (cases f) (simp_all add: cpuid_mask_def mask_lists)

end
