(* ===== verification/Interrupts.thy ===== *)
theory Interrupts
  imports Prelude
begin

text \<open>
  Descriptor tables and interrupt dispatch: \<^verbatim>\<open>kernel/gdt.c\<close>, \<^verbatim>\<open>kernel/gdt.h\<close>,
  \<^verbatim>\<open>kernel/idt.c\<close>, \<^verbatim>\<open>kernel/idt.h\<close>, \<^verbatim>\<open>kernel/isr.c\<close> and \<^verbatim>\<open>kernel/isr.h\<close>. The tables
  are lists; an index outside them faults. The assembly stubs (\<^verbatim>\<open>isr_table\<close>) and the address of
  the variable \<^verbatim>\<open>CODE_SEGMENT64\<close> are parameters; the loads of the descriptor registers are in \<open>KernelMain\<close>.
\<close>

section \<open>The global descriptor table\<close>

record GDTEntry =
  lim_lo :: u16
  gdt_zero :: u16
  gdt_zero1 :: u8
  ppt :: u8
  hi_lim_flags :: u8
  gdt_zero2 :: u8

record GDT64 =
  gdt_null :: u64
  gdt_cs :: GDTEntry

definition GDT_PRESENT :: u8 where "GDT_PRESENT = push_bit 7 1"
definition GDT_DPL_RING0 :: u8 where "GDT_DPL_RING0 = 0"
definition GDT_BIT_DESC_S :: u8 where "GDT_BIT_DESC_S = push_bit 4 1"
definition GDT_ACCESSED :: u8 where "GDT_ACCESSED = push_bit 0 1"
definition GDT_BIT_CS_EXECUTABLE :: u8 where "GDT_BIT_CS_EXECUTABLE = push_bit 3 1"
definition GDT_BIT_CS_READABLE :: u8 where "GDT_BIT_CS_READABLE = push_bit 1 1"
definition GDT_BIT_DS_WRITABLE :: u8 where "GDT_BIT_DS_WRITABLE = push_bit 1 1"
definition GDT_BIT_FLAG_LONG_MODE :: u8 where "GDT_BIT_FLAG_LONG_MODE = push_bit 1 1"

definition KERNEL_PPT :: u8 where "KERNEL_PPT = GDT_PRESENT OR GDT_DPL_RING0 OR GDT_BIT_DESC_S"

definition KERNEL_CS_PPT :: u8 where
  "KERNEL_CS_PPT = KERNEL_PPT OR GDT_BIT_CS_EXECUTABLE OR GDT_BIT_CS_READABLE OR GDT_ACCESSED"

definition KERNEL_DS_PPT :: u8 where
  "KERNEL_DS_PPT = KERNEL_PPT OR GDT_BIT_DS_WRITABLE OR GDT_ACCESSED"

definition KERNEL_CS_FLAGS :: u8 where "KERNEL_CS_FLAGS = push_bit 4 GDT_BIT_FLAG_LONG_MODE"

definition KERN_GDT :: GDT64 where
  "KERN_GDT = \<lparr>gdt_null = 0, gdt_cs = \<lparr>lim_lo = 0, gdt_zero = 0, gdt_zero1 = 0,
     ppt = KERNEL_CS_PPT, hi_lim_flags = KERNEL_CS_FLAGS, gdt_zero2 = 0\<rparr>\<rparr>"

text \<open>\<open>sizeof(struct GDT64) - 1\<close> (two packed 8-byte entries) and \<open>offsetof(struct GDT64, cs)\<close>.\<close>

definition KERN_GDTR_limit :: u16 where "KERN_GDTR_limit = 16 - 1"
definition CODE_SEGMENT64 :: u64 where "CODE_SEGMENT64 = 8"

section \<open>The interrupt descriptor table\<close>

record idt64_entry =
  offs_lo :: u16
  segment_selector :: u16
  ist :: u8
  idt_flags :: u8
  offs_mid :: u16
  offs_hi :: u32
  idt_reserved :: u32

definition EXTRACT_LOW_16 :: "u64 \<Rightarrow> u16" where "EXTRACT_LOW_16 x = ucast (x AND 0xFFFF)"
definition EXTRACT_MID_16 :: "u64 \<Rightarrow> u16" where "EXTRACT_MID_16 x = ucast (drop_bit 16 x AND 0xFFFF)"
definition EXTRACT_HI_32 :: "u64 \<Rightarrow> u32" where "EXTRACT_HI_32 x = ucast (drop_bit 32 x)"

definition F_IDT_GATE_IRQ :: u8 where "F_IDT_GATE_IRQ = 0xE"
definition F_IDT_RING_0 :: u8 where "F_IDT_RING_0 = push_bit 5 0"
definition F_IDT_PRESENT :: u8 where "F_IDT_PRESENT = 0x80"

definition idt64_setgate ::
  "idt64_entry list \<Rightarrow> int \<Rightarrow> u64 \<Rightarrow> u16 \<Rightarrow> u8 \<Rightarrow> idt64_entry list option" where
  "idt64_setgate idt interrupt base seg_desc flags =
     (if 0 \<le> interrupt \<and> interrupt < int (length idt)
      then Some (idt[nat interrupt := \<lparr>offs_lo = EXTRACT_LOW_16 base, segment_selector = seg_desc,
             ist = 0, idt_flags = flags, offs_mid = EXTRACT_MID_16 base, offs_hi = EXTRACT_HI_32 base,
             idt_reserved = 0\<rparr>])
      else None)"

definition idt64_enablegate :: "idt64_entry list \<Rightarrow> int \<Rightarrow> idt64_entry list option" where
  "idt64_enablegate idt interrupt =
     (if 0 \<le> interrupt \<and> interrupt < int (length idt)
      then (let e = idt ! nat interrupt
            in Some (idt[nat interrupt := e\<lparr>idt_flags := idt_flags e OR F_IDT_PRESENT\<rparr>]))
      else None)"

definition idt64_disablegate :: "idt64_entry list \<Rightarrow> int \<Rightarrow> idt64_entry list option" where
  "idt64_disablegate idt interrupt =
     (if 0 \<le> interrupt \<and> interrupt < int (length idt)
      then (let e = idt ! nat interrupt
            in Some (idt[nat interrupt := e\<lparr>idt_flags := idt_flags e AND NOT F_IDT_PRESENT\<rparr>]))
      else None)"

section \<open>Interrupt service routines\<close>

definition vector_switch_idtflags :: "u8 \<Rightarrow> u8" where
  "vector_switch_idtflags interrupt = F_IDT_RING_0 OR F_IDT_GATE_IRQ"

text \<open>The loop over \<open>i\<close>, \<open>n\<close> entries left; \<open>addr\<close> is \<open>&CODE_SEGMENT64\<close>.\<close>

primrec isr_init_loop ::
  "nat \<Rightarrow> nat \<Rightarrow> u64 list \<Rightarrow> u64 \<Rightarrow> idt64_entry list \<Rightarrow> idt64_entry list option" where
  "isr_init_loop 0 i isr_table addr idt = Some idt"
| "isr_init_loop (Suc n) i isr_table addr idt =
     (if i < length isr_table then do {
        idt \<leftarrow> idt64_setgate idt (int i) (isr_table ! i) (ucast addr) (vector_switch_idtflags (of_nat i));
        idt \<leftarrow> idt64_enablegate idt (int i);
        isr_init_loop n (Suc i) isr_table addr idt }
      else None)"

definition isr_init :: "u64 list \<Rightarrow> u64 \<Rightarrow> idt64_entry list \<Rightarrow> idt64_entry list option" where
  "isr_init isr_table addr idt = isr_init_loop 256 0 isr_table addr idt"

datatype x86_isr_error = X86_ISR_DIV | X86_ISR_DEBUG | X86_ISR_NMI | X86_ISR_BRKP | X86_ISR_OVRFLW
  | X86_ISR_BOUND | X86_ISR_INV_OP | X86_ISR_DEV_NA | X86_ISR_DFAULT | X86_ISR_OVERRUN
  | X86_ISR_INV_TSS | X86_ISR_NO_SEG | X86_ISR_STACK | X86_ISR_GP | X86_ISR_PAGE_FAULT
  | X86_ISR_INTEL | X86_ISR_FPUERR | X86_ISR_ALIGNCHK | X86_ISR_MACHINECHK | X86_ISR_AVX_FPE
  | X86_ISR_VIRT | X86_ISR_CPE | X86_ISR_HYPER_INJECT | X86_ISR_VM_COMM | X86_ISR_SECURITY

fun isr_vector :: "x86_isr_error \<Rightarrow> nat" where
  "isr_vector X86_ISR_DIV = 0" | "isr_vector X86_ISR_DEBUG = 1" | "isr_vector X86_ISR_NMI = 2"
| "isr_vector X86_ISR_BRKP = 3" | "isr_vector X86_ISR_OVRFLW = 4" | "isr_vector X86_ISR_BOUND = 5"
| "isr_vector X86_ISR_INV_OP = 6" | "isr_vector X86_ISR_DEV_NA = 7" | "isr_vector X86_ISR_DFAULT = 8"
| "isr_vector X86_ISR_OVERRUN = 9" | "isr_vector X86_ISR_INV_TSS = 10" | "isr_vector X86_ISR_NO_SEG = 11"
| "isr_vector X86_ISR_STACK = 12" | "isr_vector X86_ISR_GP = 13" | "isr_vector X86_ISR_PAGE_FAULT = 14"
| "isr_vector X86_ISR_INTEL = 15" | "isr_vector X86_ISR_FPUERR = 16" | "isr_vector X86_ISR_ALIGNCHK = 17"
| "isr_vector X86_ISR_MACHINECHK = 18" | "isr_vector X86_ISR_AVX_FPE = 19" | "isr_vector X86_ISR_VIRT = 20"
| "isr_vector X86_ISR_CPE = 21" | "isr_vector X86_ISR_HYPER_INJECT = 28" | "isr_vector X86_ISR_VM_COMM = 29"
| "isr_vector X86_ISR_SECURITY = 30"

text \<open>
  Each handler panics with its own message and never returns, so a handler is its message. The
  initialiser of \<open>table\<close> names 25 handlers; the other 231 entries are null.
\<close>

definition NL :: string where "NL = [CHR 0x0A]"

fun handler_msg :: "x86_isr_error \<Rightarrow> string" where
  "handler_msg X86_ISR_DIV = ''division by zero error!'' @ NL"
| "handler_msg X86_ISR_DEBUG = ''debug interrupt'' @ NL"
| "handler_msg X86_ISR_NMI = ''received NMI'' @ NL"
| "handler_msg X86_ISR_BRKP = ''debug breakpoint'' @ NL"
| "handler_msg X86_ISR_OVRFLW = ''overflow error!'' @ NL"
| "handler_msg X86_ISR_BOUND = ''bound range error!'' @ NL"
| "handler_msg X86_ISR_INV_OP = ''invalid opcode error!'' @ NL"
| "handler_msg X86_ISR_DEV_NA = ''device not available!'' @ NL"
| "handler_msg X86_ISR_DFAULT = ''double fault!!!'' @ NL"
| "handler_msg X86_ISR_OVERRUN = ''coprocessor overrun error!'' @ NL"
| "handler_msg X86_ISR_INV_TSS = ''invalid TSS error!'' @ NL"
| "handler_msg X86_ISR_NO_SEG = ''no segment error!'' @ NL"
| "handler_msg X86_ISR_STACK = ''stack error!'' @ NL"
| "handler_msg X86_ISR_GP = ''general purpose fault error!'' @ NL"
| "handler_msg X86_ISR_PAGE_FAULT = ''page fault error!'' @ NL"
| "handler_msg X86_ISR_INTEL = ''mfw intel'' @ NL"
| "handler_msg X86_ISR_FPUERR = ''floating point error!'' @ NL"
| "handler_msg X86_ISR_ALIGNCHK = ''alignment check error!'' @ NL"
| "handler_msg X86_ISR_MACHINECHK = ''machine check!'' @ NL"
| "handler_msg X86_ISR_AVX_FPE = ''SSE/AVX floating point exception!'' @ NL"
| "handler_msg X86_ISR_VIRT = ''virtualization exception!'' @ NL"
| "handler_msg X86_ISR_CPE = ''control protection exception!'' @ NL"
| "handler_msg X86_ISR_HYPER_INJECT = ''hypervsior injection'' @ NL"
| "handler_msg X86_ISR_VM_COMM = ''VM comm error!'' @ NL"
| "handler_msg X86_ISR_SECURITY = ''security exception!'' @ NL"

definition isr_handler_table :: "x86_isr_error option list" where
  "isr_handler_table = map Some [X86_ISR_DIV, X86_ISR_DEBUG, X86_ISR_NMI, X86_ISR_BRKP,
     X86_ISR_OVRFLW, X86_ISR_BOUND, X86_ISR_INV_OP, X86_ISR_DEV_NA, X86_ISR_DFAULT, X86_ISR_OVERRUN,
     X86_ISR_INV_TSS, X86_ISR_NO_SEG, X86_ISR_STACK, X86_ISR_GP, X86_ISR_PAGE_FAULT, X86_ISR_INTEL,
     X86_ISR_FPUERR, X86_ISR_ALIGNCHK, X86_ISR_MACHINECHK, X86_ISR_AVX_FPE, X86_ISR_VIRT,
     X86_ISR_CPE, X86_ISR_HYPER_INJECT, X86_ISR_VM_COMM, X86_ISR_SECURITY] @ replicate 231 None"

text \<open>The panic message that the dispatch of a vector ends in; a vector beyond the table faults.\<close>

definition x64_isr_handler :: "u64 \<Rightarrow> string option" where
  "x64_isr_handler interrupt =
     (if unat interrupt < length isr_handler_table
      then (case isr_handler_table ! unat interrupt of
              Some h \<Rightarrow> Some (handler_msg h)
            | None \<Rightarrow> Some ''temporary'')
      else None)"

section \<open>Gates carry their target\<close>

definition gate_base :: "idt64_entry \<Rightarrow> u64" where
  "gate_base e = ucast (offs_lo e) OR push_bit 16 (ucast (offs_mid e)) OR push_bit 32 (ucast (offs_hi e))"

lemma extract_roundtrip:
  "ucast (EXTRACT_LOW_16 x) OR push_bit 16 (ucast (EXTRACT_MID_16 x)) OR push_bit 32 (ucast (EXTRACT_HI_32 x)) = x"
proof -
  have m: "(0xFFFF :: u64) = mask 16" by (simp add: mask_eq_exp_minus_1)
  show ?thesis
    unfolding EXTRACT_LOW_16_def EXTRACT_MID_16_def EXTRACT_HI_32_def m
  proof (rule bit_word_eqI)
    fix n assume "n < LENGTH(64)"
    then consider "n < 16" | "16 \<le> n" "n < 32" | "32 \<le> n" "n < 64" by fastforce
    then show "bit ((ucast (ucast (x AND mask 16) :: u16) :: u64) OR
        push_bit 16 (ucast (ucast (drop_bit 16 x AND mask 16) :: u16)) OR
        push_bit 32 (ucast (ucast (drop_bit 32 x) :: u32))) n = bit x n"
      by cases (auto simp: bit_simps)
  qed
qed

definition irq_gate :: "u64 \<Rightarrow> u64 \<Rightarrow> idt64_entry" where
  "irq_gate base addr = \<lparr>offs_lo = EXTRACT_LOW_16 base, segment_selector = ucast addr, ist = 0,
     idt_flags = 0x8E, offs_mid = EXTRACT_MID_16 base, offs_hi = EXTRACT_HI_32 base, idt_reserved = 0\<rparr>"

lemma gate_base_irq: "gate_base (irq_gate base addr) = base"
  by (simp add: gate_base_def irq_gate_def extract_roundtrip)

lemma isr_init_loop_spec:
  "i + n \<le> length idt \<Longrightarrow> i + n \<le> length tab \<Longrightarrow>
   \<exists>idt'. isr_init_loop n i tab addr idt = Some idt' \<and> length idt' = length idt \<and>
     (\<forall>j < length idt. idt' ! j = (if i \<le> j \<and> j < i + n then irq_gate (tab ! j) addr else idt ! j))"
proof (induction n arbitrary: i idt)
  case 0
  then show ?case by auto
next
  case (Suc n)
  let ?idt = "idt[i := irq_gate (tab ! i) addr]"
  from Suc.IH [of "Suc i" ?idt] Suc.prems obtain idt' where
    r: "isr_init_loop n (Suc i) tab addr ?idt = Some idt'" and l: "length idt' = length idt" and
    e: "\<forall>j < length idt. idt' ! j = (if Suc i \<le> j \<and> j < Suc i + n then irq_gate (tab ! j) addr else ?idt ! j)"
    by auto
  have "isr_init_loop (Suc n) i tab addr idt = Some idt'"
    using Suc.prems r by (simp add: idt64_setgate_def idt64_enablegate_def irq_gate_def
        vector_switch_idtflags_def F_IDT_RING_0_def F_IDT_GATE_IRQ_def F_IDT_PRESENT_def)
  moreover have "idt' ! j = (if i \<le> j \<and> j < i + Suc n then irq_gate (tab ! j) addr else idt ! j)"
    if "j < length idt" for j
    using e that by (cases "j = i") auto
  ultimately show ?case using l by blast
qed

section \<open>Properties\<close>

text \<open>C35. \<^verbatim>\<open>isr_init\<close> fills all 256 gates: gate \<open>i\<close> is a present ring-0 interrupt gate whose split
  offset reassembles to the address of stub \<open>i\<close>. Its selector is the low half-word of the address
  of the variable \<^verbatim>\<open>CODE_SEGMENT64\<close>, and not the selector 8 that the variable holds.\<close>

theorem isr_init_gates:
  assumes "length idt = 256" "length isr_table = 256"
  shows "\<exists>idt'. isr_init isr_table addr idt = Some idt' \<and> length idt' = 256 \<and>
    (\<forall>i < 256. gate_base (idt' ! i) = isr_table ! i \<and> idt_flags (idt' ! i) = 0x8E \<and>
       segment_selector (idt' ! i) = ucast addr)"
proof -
  from isr_init_loop_spec [of 0 256 idt isr_table addr] assms obtain idt' where
    "isr_init_loop 256 0 isr_table addr idt = Some idt'" "length idt' = 256"
    "\<forall>j < 256. idt' ! j = irq_gate (isr_table ! j) addr" by auto
  then show ?thesis by (auto simp: isr_init_def gate_base_irq) (simp_all add: irq_gate_def)
qed

lemma isr_init_gates_witness:
  "\<exists>idt'. isr_init (replicate 256 0xFFFFFFFF80101234) 0xFFFFFFFF8010A010
      (replicate 256 (irq_gate 0 0)) = Some idt' \<and> gate_base (idt' ! 14) = 0xFFFFFFFF80101234 \<and>
      segment_selector (idt' ! 14) = 0xA010"
  using isr_init_gates [of "replicate 256 (irq_gate 0 0)" "replicate 256 0xFFFFFFFF80101234"
      "0xFFFFFFFF8010A010"] by fastforce

text \<open>Dispatch runs the handler of an exception exactly for the vectors 0 to 21. The table is
  filled without designated indices, so the handlers of hypervisor injection, VMM communication and
  security exception (vectors 28 to 30 of \<^verbatim>\<open>enum x86_isr_error\<close>) sit at 22 to 24.\<close>

theorem isr_dispatch:
  "x64_isr_handler (of_nat (isr_vector e)) =
     Some (if e \<in> {X86_ISR_HYPER_INJECT, X86_ISR_VM_COMM, X86_ISR_SECURITY} then ''temporary''
           else handler_msg e)"
  by (cases e) (simp_all add: x64_isr_handler_def isr_handler_table_def nth_append)

end
