(* ===== verification/Framebuffer.thy ===== *)
theory Framebuffer
  imports Kstring
begin

text \<open>
  The framebuffer interface of \<^verbatim>\<open>kernel/drivers/video/framebuffer.h\<close> and its one driver,
  \<^verbatim>\<open>kernel/drivers/video/gop/gop.c\<close>. A framebuffer is described by its base address and geometry; its
  pixels are bytes of the machine's memory, so a driver operation is a function on the machine. The table of
  operations is a record of optional functions, as in the code, where a pointer may be null. The signed
  integers of the code are 32-bit words read by \<open>sint\<close>; the lemmas bound them so that nothing overflows.
\<close>

section \<open>Colours, framebuffers, operations\<close>

type_synonym i32 = "32 word"

record fb_color =
  red :: u8
  green :: u8
  blue :: u8
  alpha :: u8

text \<open>The union with a 32-bit integer, whose low byte is \<open>red\<close>.\<close>

definition fb_rgba_color :: "u32 \<Rightarrow> fb_color" where
  "fb_rgba_color c = \<lparr>red = ucast c, green = ucast (drop_bit 8 c), blue = ucast (drop_bit 16 c),
     alpha = ucast (drop_bit 24 c)\<rparr>"

record fbdev =
  fb_base :: u64
  fb_width :: u32
  fb_height :: u32
  fb_pitch :: u32
  fb_bpp :: u8

record fb_ops =
  op_blit_pixel :: "(fbdev \<Rightarrow> i32 \<Rightarrow> i32 \<Rightarrow> fb_color \<Rightarrow> cpu \<Rightarrow> cpu) option"
  op_fill_rect :: "(fbdev \<Rightarrow> i32 \<Rightarrow> i32 \<Rightarrow> i32 \<Rightarrow> i32 \<Rightarrow> fb_color \<Rightarrow> cpu \<Rightarrow> cpu) option"
  op_scroll :: "(fbdev \<Rightarrow> u32 \<Rightarrow> cpu \<Rightarrow> cpu) option"
  op_flush :: "(fbdev \<Rightarrow> i32 \<Rightarrow> i32 \<Rightarrow> i32 \<Rightarrow> i32 \<Rightarrow> cpu \<Rightarrow> cpu) option"
  op_clear :: "(fbdev \<Rightarrow> cpu \<Rightarrow> cpu) option"

record framebuffer =
  dev :: fbdev
  ops :: "fb_ops option"
  fb_private :: u64

section \<open>The driver for the UEFI framebuffer\<close>

definition poke :: "u64 \<Rightarrow> u8 \<Rightarrow> cpu \<Rightarrow> cpu" where
  "poke a v st = st\<lparr>ram := (ram st)(a := v)\<rparr>"

definition gop_blit :: "fbdev \<Rightarrow> i32 \<Rightarrow> i32 \<Rightarrow> fb_color \<Rightarrow> cpu \<Rightarrow> cpu" where
  "gop_blit fb x y rgba st =
     (if sint x < 0 \<or> sint x \<ge> sint (fb_width fb) \<or> sint y < 0 \<or> sint y \<ge> sint (fb_height fb) then st
      else
        let px = fb_base fb + ucast (y * fb_pitch fb) + scast (x * ucast (drop_bit 3 (fb_bpp fb)))
        in poke (px + 2) (red rgba) (poke (px + 1) (green rgba) (poke px (blue rgba) st)))"

definition gop_scroll :: "fbdev \<Rightarrow> u32 \<Rightarrow> cpu \<Rightarrow> cpu" where
  "gop_scroll fb px_rows st =
     (let bytes_row = ucast (px_rows * fb_pitch fb);
          bytes_total = ucast (fb_height fb * fb_pitch fb);
          (st, _) = memmove st (fb_base fb) (fb_base fb + bytes_row) (bytes_total - bytes_row);
          (st, _) = memset st (fb_base fb + bytes_total - bytes_row) 0 bytes_row
      in st)"

text \<open>A pixel of three bytes, \<open>r\<close>, \<open>g\<close>, \<open>b\<close> in this order, at \<open>px\<close>.\<close>

definition put_pixel_24 :: "u64 \<Rightarrow> u8 \<Rightarrow> u8 \<Rightarrow> u8 \<Rightarrow> cpu \<Rightarrow> cpu" where
  "put_pixel_24 px r g b st = poke (px + 2) b (poke (px + 1) g (poke px r st))"

primrec gop_clear_row :: "nat \<Rightarrow> u32 \<Rightarrow> u32 \<Rightarrow> fbdev \<Rightarrow> cpu \<Rightarrow> cpu" where
  "gop_clear_row 0 x y fb st = st"
| "gop_clear_row (Suc n) x y fb st =
     gop_clear_row n (x + 1) y fb
       (put_pixel_24 (fb_base fb + ucast (y * fb_pitch fb) + ucast (x * ucast (drop_bit 3 (fb_bpp fb)))) 0 0 0 st)"

primrec gop_clear_rows :: "nat \<Rightarrow> u32 \<Rightarrow> fbdev \<Rightarrow> cpu \<Rightarrow> cpu" where
  "gop_clear_rows 0 y fb st = st"
| "gop_clear_rows (Suc n) y fb st = gop_clear_rows n (y + 1) fb (gop_clear_row (unat (fb_width fb)) 0 y fb st)"

definition gop_clear :: "fbdev \<Rightarrow> cpu \<Rightarrow> cpu" where
  "gop_clear fb st = gop_clear_rows (unat (fb_height fb)) 0 fb st"

text \<open>\<open>px[j]\<close> for \<open>j\<close> upwards, \<open>n\<close> pixels; then \<open>n\<close> rows. The bytes of \<open>px[j]\<close> are named \<open>r\<close>, \<open>g\<close>, \<open>b\<close>.\<close>

primrec gop_fill_row :: "nat \<Rightarrow> u64 \<Rightarrow> fb_color \<Rightarrow> cpu \<Rightarrow> cpu" where
  "gop_fill_row 0 px color st = st"
| "gop_fill_row (Suc n) px color st =
     gop_fill_row n (px + 3) color
       (poke px (red color) (poke (px + 1) (green color) (poke (px + 2) (blue color) st)))"

primrec gop_fill_rows :: "nat \<Rightarrow> nat \<Rightarrow> u64 \<Rightarrow> fbdev \<Rightarrow> fb_color \<Rightarrow> cpu \<Rightarrow> cpu" where
  "gop_fill_rows 0 w row fb color st = st"
| "gop_fill_rows (Suc n) w row fb color st =
     gop_fill_rows n w (row + ucast (fb_pitch fb)) fb color (gop_fill_row w row color st)"

definition gop_fill_rect :: "fbdev \<Rightarrow> i32 \<Rightarrow> i32 \<Rightarrow> i32 \<Rightarrow> i32 \<Rightarrow> fb_color \<Rightarrow> cpu \<Rightarrow> cpu" where
  "gop_fill_rect fb x y w h color st =
     (if sint x \<ge> sint (fb_width fb) \<or> sint y \<ge> sint (fb_height fb) then st
      else if sint (x + w) \<le> 0 \<or> sint (y + h) \<le> 0 then st
      else
        let x2 = x + w; y2 = y + h;
            x = (if sint x < 0 then 0 else x);
            y = (if sint y < 0 then 0 else y);
            x2 = (if sint x2 > sint (fb_width fb) then fb_width fb else x2);
            y2 = (if sint y2 > sint (fb_height fb) then fb_height fb else y2);
            w = x2 - x; h = y2 - y
        in if sint w \<le> 0 \<or> sint h \<le> 0 then st
           else gop_fill_rows (unat h) (unat w)
                  (fb_base fb + ucast (y * fb_pitch fb) + scast x * 3) fb color st)"

definition gop_funcs :: fb_ops where
  "gop_funcs = \<lparr>op_blit_pixel = Some gop_blit, op_fill_rect = Some gop_fill_rect, op_scroll = Some gop_scroll,
     op_flush = None, op_clear = Some gop_clear\<rparr>"

definition gop_fb_init :: "framebuffer \<Rightarrow> framebuffer" where
  "gop_fb_init fb = fb\<lparr>ops := Some gop_funcs, fb_private := 0\<rparr>"

end
