(* ===== verification/Font.thy ===== *)
theory Font
  imports Prelude
begin

text \<open>
  The bitmap fonts of \<^verbatim>\<open>kernel/drivers/video/font.h\<close> and \<^verbatim>\<open>kernel/drivers/video/font.c\<close>: a table of glyphs for the
  printable characters, and the bits of all glyphs one after another. The tables are those of the code, line
  by line; \<open>i8\<close> offsets are words read by \<open>sint\<close>, written here as their two's complement.
\<close>

section \<open>Fonts\<close>

record font_glyph =
  bitmap_offset :: u16
  g_width :: u8
  g_height :: u8
  x_advance :: u8
  x_offset :: u8
  y_offset :: u8

record kfont =
  font_bitmap :: "u8 list"
  font_glyphs :: "font_glyph list"
  baseline :: "32 word"
  pixel_h :: u8
  pixel_w :: u8

definition glyph :: "u16 \<times> u8 \<times> u8 \<times> u8 \<times> u8 \<times> u8 \<Rightarrow> font_glyph" where
  "glyph = (\<lambda>(off, w, h, adv, xo, yo). \<lparr>bitmap_offset = off, g_width = w, g_height = h, x_advance = adv,
     x_offset = xo, y_offset = yo\<rparr>)"

section \<open>IBM 3270\<close>

definition ibm3270_regular_16px_1b_bitmaps :: "u8 list" where
  "ibm3270_regular_16px_1b_bitmaps = [
     0xFE, 0x40, 0x99, 0x90, 0x4B, 0xF4, 0x92, 0xFD, 0x20, 0x10, 0x21, 0xFC,
     0x89, 0x0F, 0x84, 0x89, 0xFC, 0x20, 0x40, 0xC1, 0x43, 0x08, 0x20, 0x82,
     0x08, 0x20, 0x8C, 0x14, 0x30, 0x62, 0x49, 0x24, 0xE2, 0x89, 0x66, 0x7C,
     0xE0, 0x2A, 0x49, 0x22, 0x20, 0x88, 0x92, 0x4A, 0x80, 0x12, 0x45, 0x5A,
     0x56, 0x41, 0x00, 0x10, 0x23, 0xF8, 0x81, 0x02, 0x00, 0x33, 0x6C, 0xF8,
     0xF0, 0x02, 0x08, 0x20, 0x82, 0x08, 0x20, 0x00, 0x38, 0x8A, 0x0C, 0x99,
     0x32, 0x60, 0xC3, 0x4C, 0x70, 0x2E, 0x92, 0x49, 0x24, 0x3C, 0x8E, 0x08,
     0x30, 0x41, 0x04, 0x10, 0x41, 0xFC, 0x7E, 0x0C, 0x10, 0x41, 0x80, 0x81,
     0x83, 0x84, 0xF0, 0x0C, 0x69, 0x96, 0x28, 0x5F, 0xC1, 0x02, 0x04, 0x08,
     0xFF, 0x02, 0x07, 0xC0, 0x40, 0xC0, 0x83, 0x05, 0xF0, 0x20, 0x82, 0x04,
     0x0B, 0x98, 0xA1, 0xC3, 0x4C, 0x70, 0xFE, 0x0C, 0x30, 0x41, 0x04, 0x08,
     0x10, 0x20, 0x40, 0x38, 0x89, 0x12, 0x27, 0x88, 0xA1, 0xC1, 0x44, 0x70,
     0x3C, 0x8E, 0x1C, 0x38, 0xAE, 0x40, 0x81, 0x02, 0x08, 0xF0, 0xF0, 0x33,
     0x00, 0x33, 0x6C, 0x11, 0x99, 0x88, 0x20, 0x82, 0x18, 0xFE, 0x00, 0x07,
     0xF0, 0x82, 0x08, 0x20, 0x88, 0x88, 0xC0, 0x7A, 0x38, 0xC6, 0x30, 0x82,
     0x00, 0x00, 0x80, 0x7D, 0x0E, 0x0C, 0xDA, 0xF7, 0xA0, 0x40, 0x80, 0xFC,
     0x10, 0x71, 0x34, 0x38, 0x3F, 0xE0, 0xC1, 0x82, 0xF9, 0x34, 0x51, 0x79,
     0x34, 0x53, 0xF8, 0x1C, 0x84, 0x20, 0x82, 0x04, 0x08, 0x1C, 0xF8, 0x99,
     0x1A, 0x14, 0x28, 0x51, 0xA6, 0xF8, 0xFF, 0x02, 0x04, 0x0F, 0x90, 0x20,
     0x40, 0xFE, 0xFF, 0x02, 0x04, 0x0F, 0xD0, 0x20, 0x40, 0x80, 0x38, 0x8A,
     0x04, 0x08, 0x13, 0xE1, 0x22, 0x3C, 0x83, 0x06, 0x0C, 0x1F, 0xF0, 0x60,
     0xC1, 0x82, 0xE9, 0x24, 0x92, 0xE0, 0x1C, 0x20, 0x82, 0x08, 0x28, 0xA2,
     0x70, 0x87, 0x0A, 0x24, 0x8A, 0x1A, 0x22, 0x42, 0x86, 0x81, 0x02, 0x04,
     0x08, 0x10, 0x20, 0x40, 0xFE, 0x87, 0x8E, 0xEC, 0x99, 0x30, 0x60, 0xC1,
     0x82, 0x83, 0x86, 0x8C, 0x98, 0xF0, 0xE0, 0xC1, 0x82, 0x7D, 0x0E, 0x0C,
     0x18, 0x30, 0x60, 0xC3, 0x7C, 0xF9, 0x0A, 0x1C, 0x38, 0x5F, 0x20, 0x40,
     0x80, 0x38, 0x8A, 0x1C, 0x18, 0x30, 0x65, 0xAE, 0x38, 0x08, 0x10, 0xFD,
     0x0E, 0x0C, 0x3F, 0xD2, 0x22, 0x46, 0x86, 0x7D, 0x0E, 0x03, 0x03, 0x01,
     0x81, 0xC3, 0x7C, 0xFE, 0x20, 0x40, 0x81, 0x02, 0x04, 0x08, 0x10, 0x83,
     0x06, 0x0C, 0x18, 0x30, 0x60, 0xC3, 0x7C, 0x83, 0x06, 0x12, 0x24, 0x85,
     0x0A, 0x18, 0x10, 0x83, 0x06, 0x0C, 0x19, 0x32, 0x64, 0xDF, 0x44, 0x83,
     0x0D, 0x11, 0xC3, 0x05, 0x13, 0x43, 0x82, 0x86, 0x88, 0xA0, 0x81, 0x02,
     0x04, 0x08, 0x10, 0xFE, 0x0C, 0x10, 0x41, 0x04, 0x10, 0x40, 0xFE, 0xF2,
     0x49, 0x24, 0x93, 0x80, 0x80, 0x80, 0x80, 0x80, 0x80, 0x80, 0x80, 0xE4,
     0x92, 0x49, 0x27, 0x80, 0x22, 0xA2, 0xFE, 0x88, 0x80, 0x78, 0x08, 0x13,
     0xE8, 0x50, 0x9F, 0x80, 0x82, 0x08, 0x3C, 0x8A, 0x18, 0x61, 0x8B, 0xC0,
     0x3D, 0x08, 0x20, 0x81, 0x03, 0xC0, 0x04, 0x10, 0x4F, 0x46, 0x18, 0x61,
     0x44, 0xF0, 0x7A, 0x18, 0x7F, 0x82, 0x07, 0xC0, 0x1C, 0x82, 0x3E, 0x20,
     0x82, 0x08, 0x20, 0x80, 0x39, 0x18, 0x61, 0x4C, 0xD0, 0x51, 0x3C, 0x82,
     0x08, 0x2E, 0xC6, 0x18, 0x61, 0x86, 0x10, 0x9F, 0xC0, 0x08, 0x00, 0x10,
     0x84, 0x21, 0x08, 0x62, 0xE0, 0x84, 0x21, 0x08, 0xCB, 0x92, 0x8C, 0x00,
     0xAA, 0xAA, 0xB0, 0xFD, 0x26, 0x4C, 0x99, 0x32, 0x64, 0x80, 0xF9, 0x14,
     0x51, 0x45, 0x14, 0x40, 0x7A, 0x18, 0x61, 0x86, 0x17, 0x80, 0xF2, 0x28,
     0x61, 0x86, 0x2F, 0x20, 0x82, 0x00, 0x3C, 0x8A, 0x14, 0x28, 0x48, 0x8F,
     0x02, 0x04, 0x0C, 0xB9, 0x94, 0x10, 0x41, 0x04, 0x00, 0x7A, 0x34, 0x0C,
     0x1A, 0x37, 0x80, 0x21, 0x09, 0xF2, 0x10, 0x84, 0x21, 0x80, 0x85, 0x0A,
     0x14, 0x28, 0x50, 0x9F, 0x80, 0x83, 0x07, 0x12, 0x62, 0x86, 0x04, 0x00,
     0x83, 0x06, 0x0C, 0x99, 0x37, 0xD1, 0x00, 0x82, 0x88, 0xA1, 0x82, 0x88,
     0xA0, 0x80, 0x86, 0x18, 0x61, 0x44, 0xA3, 0x08, 0x42, 0x00, 0xFC, 0x10,
     0x20, 0x82, 0x08, 0x3F, 0x80, 0x34, 0x44, 0x48, 0xC4, 0x44, 0x30, 0xFF,
     0xFC, 0xC2, 0x22, 0x23, 0x22, 0x22, 0xC0, 0xC1, 0x06]"

definition ibm3270_regular_16px_1b_glyphs :: "font_glyph list" where
  "ibm3270_regular_16px_1b_glyphs = map glyph [
     (0, 0, 0, 9, 0, 0), (0, 1, 10, 9, 4, -11), (2, 4, 3, 9, 2, -11), (4, 6, 6, 9, 1, -10),
     (9, 7, 11, 9, 1, -11), (19, 7, 11, 9, 1, -11), (29, 6, 9, 9, 1, -10), (36, 1, 3, 9, 4, -11),
     (37, 3, 9, 9, 3, -10), (41, 3, 9, 9, 3, -10), (45, 6, 7, 9, 1, -10), (51, 7, 6, 9, 1, -8),
     (57, 4, 4, 9, 2, -3), (59, 5, 1, 9, 2, -6), (60, 2, 2, 9, 3, -3), (61, 7, 7, 9, 1, -9),
     (68, 7, 10, 9, 1, -11), (77, 3, 10, 9, 2, -11), (81, 7, 10, 9, 1, -11), (90, 7, 10, 9, 1, -11),
     (99, 7, 10, 9, 1, -11), (108, 7, 10, 9, 1, -11), (117, 7, 10, 9, 1, -11), (126, 7, 10, 9, 1, -11),
     (135, 7, 10, 9, 1, -11), (144, 7, 10, 9, 1, -11), (153, 2, 6, 9, 3, -7), (155, 4, 8, 9, 2, -7),
     (159, 5, 9, 9, 2, -10), (165, 7, 4, 9, 1, -8), (169, 5, 9, 9, 2, -10), (175, 6, 10, 9, 2, -11),
     (183, 7, 10, 9, 1, -11), (192, 7, 9, 9, 1, -10), (200, 6, 9, 9, 1, -10), (207, 6, 9, 9, 1, -10),
     (214, 7, 9, 9, 1, -10), (222, 7, 9, 9, 1, -10), (230, 7, 9, 9, 1, -10), (238, 7, 9, 9, 1, -10),
     (246, 7, 9, 9, 1, -10), (254, 3, 9, 9, 3, -10), (258, 6, 9, 9, 1, -10), (265, 7, 9, 9, 1, -10),
     (273, 7, 9, 9, 1, -10), (281, 7, 9, 9, 1, -10), (289, 7, 9, 9, 1, -10), (297, 7, 9, 9, 1, -10),
     (305, 7, 9, 9, 1, -10), (313, 7, 11, 9, 1, -10), (323, 7, 9, 9, 1, -10), (331, 7, 9, 9, 1, -10),
     (339, 7, 9, 9, 1, -10), (347, 7, 9, 9, 1, -10), (355, 7, 9, 9, 1, -10), (363, 7, 9, 9, 1, -10),
     (371, 7, 9, 9, 1, -10), (379, 7, 9, 9, 1, -10), (387, 7, 9, 9, 1, -10), (395, 3, 11, 9, 3, -11),
     (400, 7, 7, 9, 1, -9), (407, 3, 11, 9, 3, -11), (412, 5, 3, 9, 2, -11), (414, 7, 1, 9, 1, -1),
     (415, 3, 3, 9, 3, -11), (417, 7, 7, 9, 1, -8), (424, 6, 10, 9, 1, -11), (432, 6, 7, 9, 1, -8),
     (438, 6, 10, 9, 1, -11), (446, 6, 7, 9, 1, -8), (452, 6, 10, 9, 1, -11), (460, 6, 9, 9, 1, -8),
     (467, 6, 10, 9, 1, -11), (475, 1, 10, 9, 4, -11), (477, 5, 12, 9, 2, -11), (485, 5, 10, 9, 1, -11),
     (492, 2, 10, 9, 4, -11), (495, 7, 7, 9, 1, -8), (502, 6, 7, 9, 1, -8), (508, 6, 7, 9, 1, -8),
     (514, 6, 10, 9, 1, -8), (522, 7, 10, 9, 1, -8), (531, 6, 7, 9, 1, -8), (537, 6, 7, 9, 1, -8),
     (543, 5, 10, 9, 2, -11), (550, 7, 7, 9, 1, -8), (557, 7, 7, 9, 1, -8), (564, 7, 7, 9, 1, -8),
     (571, 7, 7, 9, 1, -8), (578, 6, 10, 9, 1, -8), (586, 7, 7, 9, 1, -8), (593, 4, 11, 9, 2, -11),
     (599, 1, 14, 9, 4, -12), (601, 4, 11, 9, 2, -11), (607, 5, 3, 9, 2, -11)]"

definition FONT_IBM_3270_16PX :: kfont where
  "FONT_IBM_3270_16PX = \<lparr>font_bitmap = ibm3270_regular_16px_1b_bitmaps, font_glyphs = ibm3270_regular_16px_1b_glyphs, baseline = 12,
     pixel_h = 16, pixel_w = 8\<rparr>"

section \<open>IBM VGA 8x16\<close>

definition px437_ibm_vga_8x16_16px_1b_bitmaps :: "u8 list" where
  "px437_ibm_vga_8x16_16px_1b_bitmaps = [
     0x6F, 0xFF, 0x66, 0x60, 0x66, 0xCF, 0x3C, 0xD2, 0x6C, 0xDB, 0xFB, 0x66,
     0xCD, 0xBF, 0xB6, 0x6C, 0x18, 0x31, 0xF6, 0x3C, 0x38, 0x1F, 0x03, 0x07,
     0x0F, 0x1B, 0xE1, 0x83, 0x00, 0xC3, 0x8C, 0x30, 0xC3, 0x0C, 0x31, 0xC3,
     0x38, 0xD9, 0xB1, 0xC7, 0x7B, 0xB3, 0x66, 0xCC, 0xEC, 0x6D, 0xE0, 0x36,
     0xCC, 0xCC, 0xCC, 0x63, 0xC6, 0x33, 0x33, 0x33, 0x6C, 0x66, 0x3C, 0xFF,
     0x3C, 0x66, 0x30, 0xCF, 0xCC, 0x30, 0x6D, 0xE0, 0xFE, 0xF0, 0x02, 0x0C,
     0x30, 0xC3, 0x0C, 0x30, 0x40, 0x38, 0xDB, 0x1E, 0x3D, 0x7A, 0xF1, 0xE3,
     0x6C, 0x70, 0x31, 0xCF, 0x0C, 0x30, 0xC3, 0x0C, 0x33, 0xF0, 0x7D, 0x8C,
     0x18, 0x61, 0x86, 0x18, 0x60, 0xC7, 0xFC, 0x7D, 0x8C, 0x18, 0x33, 0xC0,
     0xC1, 0x83, 0xC6, 0xF8, 0x0C, 0x38, 0xF3, 0x6C, 0xDF, 0xC3, 0x06, 0x0C,
     0x3C, 0xFF, 0x83, 0x06, 0x0F, 0xC0, 0xC1, 0x83, 0xC6, 0xF8, 0x38, 0xC3,
     0x06, 0x0F, 0xD8, 0xF1, 0xE3, 0xC6, 0xF8, 0xFF, 0x8C, 0x18, 0x30, 0xC3,
     0x0C, 0x18, 0x30, 0x60, 0x7D, 0x8F, 0x1E, 0x37, 0xD8, 0xF1, 0xE3, 0xC6,
     0xF8, 0x7D, 0x8F, 0x1E, 0x37, 0xE0, 0xC1, 0x83, 0x0C, 0xF0, 0xF0, 0x3C,
     0x6C, 0x00, 0xDE, 0x0C, 0x63, 0x18, 0xC1, 0x83, 0x06, 0x0C, 0xFC, 0x00,
     0x3F, 0xC1, 0x83, 0x06, 0x0C, 0x63, 0x18, 0xC0, 0x7D, 0x8F, 0x18, 0x61,
     0x83, 0x06, 0x00, 0x18, 0x30, 0x7D, 0x8F, 0x1E, 0xFD, 0xFB, 0xF7, 0x60,
     0x7C, 0x10, 0x71, 0xB6, 0x3C, 0x7F, 0xF1, 0xE3, 0xC7, 0x8C, 0xFC, 0xCD,
     0x9B, 0x37, 0xCC, 0xD9, 0xB3, 0x67, 0xF8, 0x3C, 0xCF, 0x0E, 0x0C, 0x18,
     0x30, 0x61, 0x66, 0x78, 0xF8, 0xD9, 0x9B, 0x36, 0x6C, 0xD9, 0xB3, 0x6D,
     0xF0, 0xFE, 0xCD, 0x8B, 0x47, 0x8D, 0x18, 0x31, 0x67, 0xFC, 0xFE, 0xCD,
     0x8B, 0x47, 0x8D, 0x18, 0x30, 0x61, 0xE0, 0x3C, 0xCF, 0x0E, 0x0C, 0x1B,
     0xF1, 0xE3, 0x66, 0x74, 0xC7, 0x8F, 0x1E, 0x3F, 0xF8, 0xF1, 0xE3, 0xC7,
     0x8C, 0xF6, 0x66, 0x66, 0x66, 0x6F, 0x1E, 0x18, 0x30, 0x60, 0xC1, 0xB3,
     0x66, 0xCC, 0xF0, 0xE6, 0xCD, 0x9B, 0x67, 0x8F, 0x1B, 0x33, 0x67, 0xCC,
     0xF0, 0xC1, 0x83, 0x06, 0x0C, 0x18, 0x31, 0x67, 0xFC, 0xC7, 0xDF, 0xFF,
     0xFD, 0x78, 0xF1, 0xE3, 0xC7, 0x8C, 0xC7, 0xCF, 0xDF, 0xFD, 0xF9, 0xF1,
     0xE3, 0xC7, 0x8C, 0x7D, 0x8F, 0x1E, 0x3C, 0x78, 0xF1, 0xE3, 0xC6, 0xF8,
     0xFC, 0xCD, 0x9B, 0x37, 0xCC, 0x18, 0x30, 0x61, 0xE0, 0x7D, 0x8F, 0x1E,
     0x3C, 0x78, 0xF1, 0xEB, 0xDE, 0xF8, 0x30, 0x70, 0xFC, 0xCD, 0x9B, 0x37,
     0xCD, 0x99, 0xB3, 0x67, 0xCC, 0x7D, 0x8F, 0x1B, 0x03, 0x81, 0x81, 0xE3,
     0xC6, 0xF8, 0xFF, 0xFB, 0x4C, 0x30, 0xC3, 0x0C, 0x31, 0xE0, 0xC7, 0x8F,
     0x1E, 0x3C, 0x78, 0xF1, 0xE3, 0xC6, 0xF8, 0xC7, 0x8F, 0x1E, 0x3C, 0x78,
     0xF1, 0xB6, 0x38, 0x20, 0xC7, 0x8F, 0x1E, 0x3D, 0x7A, 0xF5, 0xFF, 0xEE,
     0xD8, 0xC7, 0x8D, 0xB3, 0xE3, 0x87, 0x1F, 0x36, 0xC7, 0x8C, 0xCF, 0x3C,
     0xF3, 0x78, 0xC3, 0x0C, 0x31, 0xE0, 0xFF, 0x8E, 0x18, 0x61, 0x86, 0x18,
     0x61, 0xC7, 0xFC, 0xFC, 0xCC, 0xCC, 0xCC, 0xCF, 0x81, 0x83, 0x83, 0x83,
     0x83, 0x83, 0x83, 0x02, 0xF3, 0x33, 0x33, 0x33, 0x3F, 0x10, 0x71, 0xB6,
     0x30, 0xFF, 0xD9, 0x80, 0x78, 0x19, 0xF6, 0x6C, 0xD9, 0x9D, 0x80, 0xE0,
     0xC1, 0x83, 0xC6, 0xCC, 0xD9, 0xB3, 0x66, 0xF8, 0x7D, 0x8F, 0x06, 0x0C,
     0x18, 0xDF, 0x00, 0x1C, 0x18, 0x31, 0xE6, 0xD9, 0xB3, 0x66, 0xCC, 0xEC,
     0x7D, 0x8F, 0xFE, 0x0C, 0x18, 0xDF, 0x00, 0x39, 0xB6, 0x58, 0xF1, 0x86,
     0x18, 0x63, 0xC0, 0x77, 0x9B, 0x36, 0x6C, 0xD9, 0x9F, 0x06, 0xCC, 0xF0,
     0xE0, 0xC1, 0x83, 0x67, 0x6C, 0xD9, 0xB3, 0x67, 0xCC, 0x66, 0x0E, 0x66,
     0x66, 0x6F, 0x0C, 0x30, 0x07, 0x0C, 0x30, 0xC3, 0x0C, 0x3C, 0xF3, 0x78,
     0xE0, 0xC1, 0x83, 0x36, 0xCF, 0x1E, 0x36, 0x67, 0xCC, 0xE6, 0x66, 0x66,
     0x66, 0x6F, 0xED, 0xFF, 0x5E, 0xBD, 0x7A, 0xF1, 0x80, 0xDC, 0xCD, 0x9B,
     0x36, 0x6C, 0xD9, 0x80, 0x7D, 0x8F, 0x1E, 0x3C, 0x78, 0xDF, 0x00, 0xDC,
     0xCD, 0x9B, 0x36, 0x6C, 0xDF, 0x30, 0x61, 0xE0, 0x77, 0x9B, 0x36, 0x6C,
     0xD9, 0x9F, 0x06, 0x0C, 0x3C, 0xDC, 0xED, 0x9B, 0x06, 0x0C, 0x3C, 0x00,
     0x7D, 0x8D, 0x81, 0xC0, 0xD8, 0xDF, 0x00, 0x10, 0x60, 0xC7, 0xE3, 0x06,
     0x0C, 0x18, 0x36, 0x38, 0xCD, 0x9B, 0x36, 0x6C, 0xD9, 0x9D, 0x80, 0xCF,
     0x3C, 0xF3, 0xCD, 0xE3, 0x00, 0xC7, 0x8F, 0x5E, 0xBD, 0x7F, 0xDB, 0x00,
     0xC6, 0xD8, 0xE1, 0xC3, 0x8D, 0xB1, 0x80, 0xC7, 0x8F, 0x1E, 0x3C, 0x78,
     0xDF, 0x83, 0x0D, 0xF0, 0xFF, 0x98, 0x61, 0x86, 0x18, 0xFF, 0x80, 0x1C,
     0xC3, 0x0C, 0xE0, 0xC3, 0x0C, 0x30, 0x70, 0xFF, 0x3F, 0xF0, 0xE0, 0xC3,
     0x0C, 0x1C, 0xC3, 0x0C, 0x33, 0x80, 0x77, 0xB8]"

definition px437_ibm_vga_8x16_16px_1b_glyphs :: "font_glyph list" where
  "px437_ibm_vga_8x16_16px_1b_glyphs = map glyph [
     (0, 0, 0, 8, 0, 0), (0, 4, 10, 8, 2, -10), (5, 6, 4, 8, 1, -11), (8, 7, 9, 8, 0, -9),
     (16, 7, 14, 8, 0, -12), (29, 7, 8, 8, 0, -8), (36, 7, 10, 8, 0, -10), (45, 3, 4, 8, 1, -11),
     (47, 4, 10, 8, 2, -10), (52, 4, 10, 8, 2, -10), (57, 8, 5, 8, 0, -7), (62, 6, 5, 8, 1, -7),
     (66, 3, 4, 8, 2, -3), (68, 7, 1, 8, 0, -5), (69, 2, 2, 8, 3, -2), (70, 7, 8, 8, 0, -8),
     (77, 7, 10, 8, 0, -10), (86, 6, 10, 8, 1, -10), (94, 7, 10, 8, 0, -10), (103, 7, 10, 8, 0, -10),
     (112, 7, 10, 8, 0, -10), (121, 7, 10, 8, 0, -10), (130, 7, 10, 8, 0, -10), (139, 7, 10, 8, 0, -10),
     (148, 7, 10, 8, 0, -10), (157, 7, 10, 8, 0, -10), (166, 2, 7, 8, 3, -8), (168, 3, 8, 8, 2, -8),
     (171, 6, 9, 8, 1, -9), (178, 6, 4, 8, 1, -7), (181, 6, 9, 8, 1, -9), (188, 7, 10, 8, 0, -10),
     (197, 7, 9, 8, 0, -9), (205, 7, 10, 8, 0, -10), (214, 7, 10, 8, 0, -10), (223, 7, 10, 8, 0, -10),
     (232, 7, 10, 8, 0, -10), (241, 7, 10, 8, 0, -10), (250, 7, 10, 8, 0, -10), (259, 7, 10, 8, 0, -10),
     (268, 7, 10, 8, 0, -10), (277, 4, 10, 8, 2, -10), (282, 7, 10, 8, 0, -10), (291, 7, 10, 8, 0, -10),
     (300, 7, 10, 8, 0, -10), (309, 7, 10, 8, 0, -10), (318, 7, 10, 8, 0, -10), (327, 7, 10, 8, 0, -10),
     (336, 7, 10, 8, 0, -10), (345, 7, 12, 8, 0, -10), (356, 7, 10, 8, 0, -10), (365, 7, 10, 8, 0, -10),
     (374, 6, 10, 8, 1, -10), (382, 7, 10, 8, 0, -10), (391, 7, 10, 8, 0, -10), (400, 7, 10, 8, 0, -10),
     (409, 7, 10, 8, 0, -10), (418, 6, 10, 8, 1, -10), (426, 7, 10, 8, 0, -10), (435, 4, 10, 8, 2, -10),
     (440, 7, 9, 8, 0, -9), (448, 4, 10, 8, 2, -10), (453, 7, 4, 8, 0, -12), (457, 8, 1, 8, 0, 1),
     (458, 3, 3, 8, 2, -12), (460, 7, 7, 8, 0, -7), (467, 7, 10, 8, 0, -10), (476, 7, 7, 8, 0, -7),
     (483, 7, 10, 8, 0, -10), (492, 7, 7, 8, 0, -7), (499, 6, 10, 8, 0, -10), (507, 7, 10, 8, 0, -7),
     (516, 7, 10, 8, 0, -10), (525, 4, 10, 8, 2, -10), (530, 6, 13, 8, 1, -10), (540, 7, 10, 8, 0, -10),
     (549, 4, 10, 8, 2, -10), (554, 7, 7, 8, 0, -7), (561, 7, 7, 8, 0, -7), (568, 7, 7, 8, 0, -7),
     (575, 7, 10, 8, 0, -7), (584, 7, 10, 8, 0, -7), (593, 7, 7, 8, 0, -7), (600, 7, 7, 8, 0, -7),
     (607, 7, 10, 8, 0, -10), (616, 7, 7, 8, 0, -7), (623, 6, 7, 8, 1, -7), (629, 7, 7, 8, 0, -7),
     (636, 7, 7, 8, 0, -7), (643, 7, 10, 8, 0, -7), (652, 7, 7, 8, 0, -7), (659, 6, 10, 8, 1, -10),
     (667, 2, 10, 8, 3, -10), (670, 6, 10, 8, 1, -10), (678, 7, 2, 8, 0, -10)]"

definition FONT_PX437_IBM_8X16 :: kfont where
  "FONT_PX437_IBM_8X16 = \<lparr>font_bitmap = px437_ibm_vga_8x16_16px_1b_bitmaps, font_glyphs = px437_ibm_vga_8x16_16px_1b_glyphs, baseline = 12,
     pixel_h = 16, pixel_w = 8\<rparr>"

end
