(* ===== verification/Console.thy ===== *)
theory Console
  imports Framebuffer Font Stdio
begin

text \<open>
  The kernel console, \<^verbatim>\<open>kernel/io/console.c\<close>: text drawn with a bitmap font on the framebuffer. The state holds the
  framebuffer and the font, which may be null, the colours, the cursor in pixels, the cell and screen sizes and
  the machine with the framebuffer's memory. A read outside the bitmap or the glyph table, and a null
  framebuffer, operation table or font that is dereferenced, is \<open>None\<close>; so is the panic of \<^verbatim>\<open>con_fill_glyph\<close>.
  Strings given with their length are the lists of their bytes, null is \<open>None\<close>.
\<close>

section \<open>State\<close>

definition RGBA :: "u32 \<Rightarrow> u32 \<Rightarrow> u32 \<Rightarrow> u32 \<Rightarrow> u32" where
  "RGBA r g b a = push_bit 24 a OR push_bit 16 b OR push_bit 8 g OR r"

definition KCONSOLE_TABSTOP :: u32 where "KCONSOLE_TABSTOP = 8"
definition KCONSOLE_INIT_COLOR_FG :: u32 where "KCONSOLE_INIT_COLOR_FG = RGBA 0 255 255 255"
definition KCONSOLE_INIT_COLOR_BG :: u32 where "KCONSOLE_INIT_COLOR_BG = RGBA 0 0 0 255"

record kernel_console =
  con_fb :: "framebuffer option"
  con_font :: "kfont option"
  color_fg :: fb_color
  color_bg :: fb_color
  con_cx :: u32
  con_cy :: u32
  cell_w :: i32
  cell_h :: i32
  fb_w :: u32
  fb_h :: u32
  machine :: cpu

definition kconsole_init :: "cpu \<Rightarrow> kernel_console" where
  "kconsole_init st = \<lparr>con_fb = None, con_font = None, color_fg = fb_rgba_color KCONSOLE_INIT_COLOR_FG,
     color_bg = fb_rgba_color KCONSOLE_INIT_COLOR_BG, con_cx = 0, con_cy = 0, cell_w = 0, cell_h = 0,
     fb_w = 0, fb_h = 0, machine = st\<rparr>"

section \<open>Drawing\<close>

definition con_scroll_by :: "kernel_console \<Rightarrow> u32 \<Rightarrow> kernel_console option" where
  "con_scroll_by k pixels = do {
     fb \<leftarrow> con_fb k;
     o' \<leftarrow> ops fb;
     let k = (case op_scroll o' of Some scroll \<Rightarrow> k\<lparr>machine := scroll (dev fb) pixels (machine k)\<rparr> | None \<Rightarrow> k);
     Some (k\<lparr>con_cy := con_cy k - pixels\<rparr>) }"

definition con_scroll :: "kernel_console \<Rightarrow> kernel_console option" where
  "con_scroll k = con_scroll_by k (cell_h k)"

definition con_fill_glyph :: "kernel_console \<Rightarrow> font_glyph option \<Rightarrow> u32 \<Rightarrow> u32 \<Rightarrow> kernel_console option" where
  "con_fill_glyph k g x y = do {
     fb \<leftarrow> con_fb k;
     o' \<leftarrow> ops fb;
     if op_blit_pixel o' = None then Some k
     else do {
       fill \<leftarrow> op_fill_rect o';
       if sint x < 0 \<or> sint y < 0 then Some k
       else
         let (g_w, g_h) = (case g of None \<Rightarrow> (cell_w k, cell_h k) | Some g \<Rightarrow> (ucast (g_width g), ucast (g_height g)))
         in Some (k\<lparr>machine := fill (dev fb) x y g_w g_h (color_bg k) (machine k)\<rparr>) } }"

text \<open>The loops of \<^verbatim>\<open>con_draw_glyph\<close>, over the pixels of a row and over the rows.\<close>

primrec draw_row :: "nat \<Rightarrow> u32 \<Rightarrow> u8 list \<Rightarrow> u32 \<Rightarrow> i32 \<Rightarrow> i32 \<Rightarrow> (i32 \<Rightarrow> i32 \<Rightarrow> cpu \<Rightarrow> cpu) \<Rightarrow> cpu \<Rightarrow> cpu option" where
  "draw_row 0 w bitmap row_bit dx_base dy blit st = Some st"
| "draw_row (Suc n) w bitmap row_bit dx_base dy blit st = do {
     let globl_bit = row_bit + w;
     let byte_idx = drop_bit 3 globl_bit;
     let bit_pos = 7 - globl_bit mod 8;
     byte \<leftarrow> nth_opt bitmap (unat byte_idx);
     let st = (if drop_bit (unat bit_pos) byte AND 1 \<noteq> 0 then blit (dx_base + w) dy st else st);
     draw_row n (w + 1) bitmap row_bit dx_base dy blit st }"

primrec draw_rows :: "nat \<Rightarrow> i32 \<Rightarrow> u8 list \<Rightarrow> font_glyph \<Rightarrow> u32 \<Rightarrow> i32 \<Rightarrow> i32 \<Rightarrow> (i32 \<Rightarrow> i32 \<Rightarrow> cpu \<Rightarrow> cpu) \<Rightarrow> cpu \<Rightarrow> cpu option" where
  "draw_rows 0 h bitmap g base_bit dx_base by' blit st = Some st"
| "draw_rows (Suc n) h bitmap g base_bit dx_base by' blit st = do {
     let dy = by' + scast (y_offset g) + h;
     let bit_offs = h * ucast (g_width g);
     st \<leftarrow> draw_row (unat (g_width g)) 0 bitmap (base_bit + bit_offs) dx_base dy blit st;
     draw_rows n (h + 1) bitmap g base_bit dx_base by' blit st }"

definition con_draw_glyph :: "kernel_console \<Rightarrow> font_glyph \<Rightarrow> u32 \<Rightarrow> u32 \<Rightarrow> kernel_console option" where
  "con_draw_glyph k g x y = do {
     fb \<leftarrow> con_fb k;
     o' \<leftarrow> ops fb;
     case op_blit_pixel o' of None \<Rightarrow> Some k
     | Some fn_blit \<Rightarrow> do {
         font \<leftarrow> con_font k;
         let by' = y + baseline font;
         let base_bit = push_bit 3 (ucast (bitmap_offset g));
         let dx_base = x + scast (x_offset g);
         st \<leftarrow> draw_rows (unat (g_height g)) 0 (font_bitmap font) g base_bit dx_base by'
                (\<lambda>dx dy. fn_blit (dev fb) dx dy (color_fg k)) (machine k);
         Some (k\<lparr>machine := st\<rparr>) } }"

section \<open>Control characters\<close>

definition con_ctrl_carriage_ret :: "kernel_console \<Rightarrow> kernel_console" where
  "con_ctrl_carriage_ret k = k\<lparr>con_cx := 0\<rparr>"

definition con_ctrl_newl :: "kernel_console \<Rightarrow> kernel_console option" where
  "con_ctrl_newl k = do {
     let k = con_ctrl_carriage_ret k;
     k \<leftarrow> (if con_cy k + cell_h k \<ge> fb_h k then con_scroll k else Some (k\<lparr>con_cy := con_cy k + cell_h k\<rparr>));
     Some (k\<lparr>con_cx := 0\<rparr>) }"

definition blank_width :: "kernel_console \<Rightarrow> font_glyph \<Rightarrow> u32" where
  "blank_width k g =
     (let gly_w = (if g_width g \<noteq> 0 then ucast (g_width g) else ucast (x_advance g))
      in if gly_w = 0 then cell_w k else gly_w)"

definition con_ctrl_tab :: "kernel_console \<Rightarrow> kernel_console option" where
  "con_ctrl_tab k = do {
     font \<leftarrow> con_font k;
     g \<leftarrow> nth_opt (font_glyphs font) 0;
     let gly_w = blank_width k g;
     let tab_w = gly_w * KCONSOLE_TABSTOP;
     if tab_w = 0 then Some k
     else do {
       let dist = tab_w - con_cx k mod tab_w;
       let k = k\<lparr>con_cx := con_cx k + dist\<rparr>;
       if con_cx k \<ge> fb_w k then con_ctrl_newl k else Some k } }"

definition con_ctrl_backspace :: "kernel_console \<Rightarrow> kernel_console option" where
  "con_ctrl_backspace k = do {
     font \<leftarrow> con_font k;
     g \<leftarrow> nth_opt (font_glyphs font) 0;
     let gly_w = blank_width k g;
     if con_cx k \<ge> gly_w then
       (let k = k\<lparr>con_cx := con_cx k - gly_w\<rparr> in con_fill_glyph k (Some g) (con_cx k) (con_cy k))
     else if con_cy k \<ge> cell_h k then
       (let k = k\<lparr>con_cy := con_cy k - cell_h k, con_cx := fb_w k - gly_w\<rparr>
        in con_fill_glyph k (Some g) (con_cx k) (con_cy k))
     else Some k }"

definition con_ctrl_clear :: "kernel_console \<Rightarrow> kernel_console option" where
  "con_ctrl_clear k = do {
     fb \<leftarrow> con_fb k;
     o' \<leftarrow> ops fb;
     case op_clear o' of None \<Rightarrow> Some k
     | Some clear \<Rightarrow> Some (k\<lparr>machine := clear (dev fb) (machine k), con_cx := 0, con_cy := 0\<rparr>) }"

definition con_ascii_ctrl :: "kernel_console \<Rightarrow> u8 \<Rightarrow> (kernel_console \<times> bool) option" where
  "con_ascii_ctrl k c =
     (if c = 0x0D then Some (con_ctrl_carriage_ret k, True)
      else if c = 0x0A then do { k \<leftarrow> con_ctrl_newl k; Some (k, True) }
      else if c = 0x09 then do { k \<leftarrow> con_ctrl_tab k; Some (k, True) }
      else if c = 0x08 then do { k \<leftarrow> con_ctrl_backspace k; Some (k, True) }
      else Some (k, False))"

section \<open>Writing\<close>

fun kcon_write_loop :: "kfont option \<Rightarrow> u8 list \<Rightarrow> kernel_console \<Rightarrow> int \<Rightarrow> (kernel_console \<times> int) option" where
  "kcon_write_loop font [] k consumed = Some (k, consumed)"
| "kcon_write_loop font (c # cs) k consumed = do {
     k \<leftarrow> (if con_cy k \<ge> fb_h k - cell_h k then con_ctrl_newl k else Some k);
     if c < 0x20 \<or> c > 0x7E then do {
       (k, b) \<leftarrow> con_ascii_ctrl k c;
       kcon_write_loop font cs k (consumed + of_bool b) }
     else do {
       f \<leftarrow> font;
       g \<leftarrow> nth_opt (font_glyphs f) (unat (c - 0x20));
       k \<leftarrow> con_draw_glyph k g (con_cx k) (con_cy k);
       let k = k\<lparr>con_cx := con_cx k + ucast (x_advance g)\<rparr>;
       k \<leftarrow> (if con_cx k \<ge> fb_w k then con_ctrl_newl k else Some k);
       kcon_write_loop font cs k (consumed + 1) } }"

definition kcon_write :: "kernel_console \<Rightarrow> u8 list option \<Rightarrow> (kernel_console \<times> int) option" where
  "kcon_write k buf = (case buf of None \<Rightarrow> Some (k, -1) | Some cs \<Rightarrow> kcon_write_loop (con_font k) cs k 0)"

section \<open>Settings and the remaining interface\<close>

definition kcon_setframebuffer :: "kernel_console \<Rightarrow> framebuffer option \<Rightarrow> kernel_console" where
  "kcon_setframebuffer k fb = (case fb of None \<Rightarrow> k
     | Some f \<Rightarrow> k\<lparr>con_fb := fb, fb_w := fb_width (dev f), fb_h := fb_height (dev f)\<rparr>)"

definition kcon_setfont :: "kernel_console \<Rightarrow> kfont option \<Rightarrow> kernel_console" where
  "kcon_setfont k font = (case font of None \<Rightarrow> k
     | Some f \<Rightarrow> k\<lparr>con_font := font, cell_w := ucast (pixel_w f), cell_h := ucast (pixel_h f)\<rparr>)"

definition kcon_setcolor :: "kernel_console \<Rightarrow> fb_color \<Rightarrow> fb_color \<Rightarrow> kernel_console" where
  "kcon_setcolor k fg bg = k\<lparr>color_fg := fg, color_bg := bg\<rparr>"

definition kcon_putchar :: "kernel_console \<Rightarrow> u8 \<Rightarrow> kernel_console option" where
  "kcon_putchar k c = map_option fst (kcon_write k (Some [c]))"

definition kcon_puts :: "kernel_console \<Rightarrow> u64 \<Rightarrow> kernel_console option" where
  "kcon_puts k s = do {
     len \<leftarrow> strlen (machine k) s;
     map_option fst (kcon_write k (Some (read_bytes (machine k) s (unat len)))) }"

definition kcon_clear :: "kernel_console \<Rightarrow> kernel_console option" where
  "kcon_clear k = con_ctrl_clear k"

end
