(* ===== verification/FbDriver.thy ===== *)
theory FbDriver
  imports Framebuffer
begin

text \<open>
  What the operations of the framebuffer driver do to memory: a blit paints one pixel and \<^verbatim>\<open>gop_clear\<close> all of them,
  \<^verbatim>\<open>gop_fill_rect\<close> writes the bytes of \<open>rect_bytes\<close> and \<^verbatim>\<open>gop_scroll\<close> moves the rows up and clears the last ones. The
  locale \<open>fb_driver\<close> is what the console relies on; it is interpreted on the driver.
\<close>

section \<open>Pixels as addresses\<close>

definition px_size :: "fbdev \<Rightarrow> nat" where "px_size d = unat (drop_bit 3 (fb_bpp d))"

definition screen_len :: "fbdev \<Rightarrow> nat" where "screen_len d = unat (fb_height d) * unat (fb_pitch d)"

definition on_fb :: "fbdev \<Rightarrow> u64 \<Rightarrow> bool" where "on_fb d a \<longleftrightarrow> unat (a - fb_base d) < screen_len d"

text \<open>What the driver needs of a geometry: at least 24 bits a pixel, rows no longer than the pitch, and a
  framebuffer that neither wraps nor overflows the \<open>i32\<close> offsets.\<close>

definition fb_fits :: "fbdev \<Rightarrow> bool" where
  "fb_fits d \<longleftrightarrow> 3 \<le> px_size d \<and> 0 < unat (fb_width d) \<and> 0 < unat (fb_height d) \<and>
     unat (fb_width d) * px_size d \<le> unat (fb_pitch d) \<and> screen_len d < 2 ^ 31 \<and>
     unat (fb_base d) + screen_len d \<le> 2 ^ 64"

definition chan :: "fb_color \<Rightarrow> nat \<Rightarrow> u8" where
  "chan c i = (if i = 0 then blue c else if i = 1 then green c else red c)"

text \<open>Memory with the on-screen pixels of \<open>P\<close> in colour \<open>c\<close>.\<close>

definition painted :: "fbdev \<Rightarrow> (int \<times> int) set \<Rightarrow> fb_color \<Rightarrow> (u64 \<Rightarrow> u8) \<Rightarrow> u64 \<Rightarrow> u8" where
  "painted d P c m a =
     (let n = unat (a - fb_base d); y = n div unat (fb_pitch d); q = n mod unat (fb_pitch d);
          x = q div px_size d; i = q mod px_size d
      in if n < screen_len d \<and> x < unat (fb_width d) \<and> i < 3 \<and> (int x, int y) \<in> P then chan c i else m a)"

lemma paint_union: "painted d P c (painted d Q c m) = painted d (P \<union> Q) c m"
  by (rule ext) (auto simp: painted_def Let_def)

lemma paint_empty: "painted d {} c m = m"
  by (rule ext) (simp add: painted_def)

lemma paint_frame: "\<not> on_fb d a \<Longrightarrow> painted d P c m a = m a"
  by (simp add: painted_def on_fb_def Let_def)

lemma paint_cong:
  "(\<And>x y. 0 \<le> x \<Longrightarrow> x < int (unat (fb_width d)) \<Longrightarrow> 0 \<le> y \<Longrightarrow> y < int (unat (fb_height d)) \<Longrightarrow> (x, y) \<in> P \<longleftrightarrow> (x, y) \<in> Q) \<Longrightarrow>
   painted d P c m = painted d Q c m"
proof (rule ext)
  fix a assume eq: "\<And>x y. 0 \<le> x \<Longrightarrow> x < int (unat (fb_width d)) \<Longrightarrow> 0 \<le> y \<Longrightarrow> y < int (unat (fb_height d)) \<Longrightarrow> (x, y) \<in> P \<longleftrightarrow> (x, y) \<in> Q"
  define n where "n = unat (a - fb_base d)"
  define y where "y = n div unat (fb_pitch d)"
  define x where "x = n mod unat (fb_pitch d) div px_size d"
  have "y < unat (fb_height d)" if "n < screen_len d"
    using that by (auto simp: y_def screen_len_def intro: less_mult_imp_div_less)
  then have "n < screen_len d \<Longrightarrow> x < unat (fb_width d) \<Longrightarrow> (int x, int y) \<in> P \<longleftrightarrow> (int x, int y) \<in> Q"
    by (intro eq) (simp_all only: of_nat_0_le_iff of_nat_less_iff)
  then show "painted d P c m a = painted d Q c m a"
    unfolding painted_def Let_def n_def [symmetric] y_def [symmetric] x_def [symmetric] by auto
qed

lemma ram_poke [simp]: "ram (poke a v st) = (ram st)(a := v)"
  by (simp add: poke_def)

lemma fits_bounds:
  assumes "fb_fits d"
  shows "unat (fb_pitch d) < 2 ^ 31" "unat (fb_height d) < 2 ^ 31" "unat (fb_width d) < 2 ^ 31" "px_size d < 32"
proof -
  have h: "1 \<le> unat (fb_height d)" and w: "1 \<le> unat (fb_width d)" and s: "unat (fb_height d) * unat (fb_pitch d) < 2 ^ 31"
    and p: "unat (fb_width d) * px_size d \<le> unat (fb_pitch d)" and b: "3 \<le> px_size d"
    using assms by (auto simp: fb_fits_def screen_len_def)
  have "1 * unat (fb_pitch d) \<le> unat (fb_height d) * unat (fb_pitch d)" using h by (rule mult_le_mono1)
  then show lp: "unat (fb_pitch d) < 2 ^ 31" using s by linarith
  have "unat (fb_width d) * 1 \<le> unat (fb_width d) * px_size d" using b by (intro mult_le_mono2) simp
  then show lw: "unat (fb_width d) < 2 ^ 31" using p lp by linarith
  have "1 * 1 \<le> unat (fb_width d) * px_size d" using w b by (intro mult_le_mono) auto
  then have "1 \<le> unat (fb_pitch d)" using p by linarith
  then have "unat (fb_height d) * 1 \<le> unat (fb_height d) * unat (fb_pitch d)" by (intro mult_le_mono2)
  then show "unat (fb_height d) < 2 ^ 31" using s by linarith
  have "int (unat (fb_bpp d)) < 256" using uint_lt2p [of "fb_bpp d"] by simp
  then have "unat (fb_bpp d) < 32 * 8" by linarith
  then have "unat (fb_bpp d) div 8 < 32" by (rule less_mult_imp_div_less)
  then show "px_size d < 32" by (simp add: px_size_def unat_drop)
qed

lemma sint_unat: "unat (w :: 32 word) < 2 ^ 31 \<Longrightarrow> sint w = int (unat w)"
  using sint_of_nat32 [of "unat w"] by simp

lemma sint_nonneg_unat:
  assumes "0 \<le> sint (w :: 32 word)"
  shows "unat w < 2 ^ 31"
proof (rule ccontr)
  assume "\<not> unat w < 2 ^ 31"
  then have "2147483648 \<le> unat w" by simp
  then have "2147483648 \<le> int (unat w)" by linarith
  then have "2 ^ 31 \<le> uint w" by simp
  moreover have u: "uint w < 2 ^ 32" using uint_lt2p [of w] by simp
  ultimately have "(uint w - 2 ^ 31 + 2 ^ 32) mod 2 ^ 32 = uint w - 2 ^ 31"
    unfolding mod_add_self2 by (intro mod_pos_pos_trivial) (simp, simp)
  moreover have "uint w - 2 ^ 31 + 2 ^ 32 = uint w + 2 ^ 31" by simp
  moreover have "sint w = (uint w + 2 ^ 31) mod 2 ^ 32 - 2 ^ 31" using int_word_sint [where 'a = 32, of "uint w"] by simp
  ultimately have "sint w = uint w - 2 ^ 31 - 2 ^ 31" by (simp only:)
  then have "sint w < 0" using u by simp
  then show False using assms by simp
qed

lemma ucast_of_unat: "ucast (w :: 32 word) = (of_nat (unat w) :: u64)"
  by (simp add: unsigned_ucast_eq word_unat_eq_iff)

text \<open>The address of a pixel, and its decoding.\<close>

lemma row_bytes:
  assumes "fb_fits d" "x < unat (fb_width d)" "i < 3"
  shows "x * px_size d + i < unat (fb_pitch d)" "x * px_size d + i < Suc x * px_size d"
proof -
  have "Suc x * px_size d \<le> unat (fb_width d) * px_size d" using assms(2) by (intro mult_le_mono1) simp
  moreover have "3 \<le> px_size d" "unat (fb_width d) * px_size d \<le> unat (fb_pitch d)" using assms(1) by (auto simp: fb_fits_def)
  ultimately show "x * px_size d + i < unat (fb_pitch d)" "x * px_size d + i < Suc x * px_size d"
    using assms(3) by auto
qed

lemma row_offset:
  assumes "y < unat (fb_height d)" "q < unat (fb_pitch d)"
  shows "y * unat (fb_pitch d) + q < screen_len d"
proof -
  have "Suc y * unat (fb_pitch d) \<le> screen_len d" unfolding screen_len_def using assms(1) by (intro mult_le_mono1) simp
  then show ?thesis using assms(2) by simp
qed

lemma decode_pixel:
  assumes "fb_fits d" "x < unat (fb_width d)" "y < unat (fb_height d)" "i < 3"
  defines "n \<equiv> y * unat (fb_pitch d) + x * px_size d + i"
  shows "n < screen_len d" "n div unat (fb_pitch d) = y" "n mod unat (fb_pitch d) div px_size d = x"
    "n mod unat (fb_pitch d) mod px_size d = i"
proof -
  note r = row_bytes [OF assms(1,2,4)]
  show "n < screen_len d" using row_offset [OF assms(3) r(1)] by (simp add: n_def)
  have b: "i < px_size d" using assms(1,4) by (auto simp: fb_fits_def)
  have n: "n = (x * px_size d + i) + y * unat (fb_pitch d)" by (simp add: n_def)
  have "n div unat (fb_pitch d) = y + (x * px_size d + i) div unat (fb_pitch d)" unfolding n by (rule div_mult_self1) (use r in auto)
  then show "n div unat (fb_pitch d) = y" using r(1) by simp
  have m: "n mod unat (fb_pitch d) = i + x * px_size d" unfolding n mod_mult_self1 using r(1) by simp
  have "(i + x * px_size d) div px_size d = x + i div px_size d" by (rule div_mult_self1) (use b in auto)
  then show "n mod unat (fb_pitch d) div px_size d = x" unfolding m using b by simp
  show "n mod unat (fb_pitch d) mod px_size d = i" unfolding m mod_mult_self1 using b by simp
qed

lemma encode_pixel:
  assumes "n div unat (fb_pitch d) = y" "n mod unat (fb_pitch d) div px_size d = x" "n mod unat (fb_pitch d) mod px_size d = i"
  shows "n = y * unat (fb_pitch d) + x * px_size d + i"
proof -
  have "n mod unat (fb_pitch d) = x * px_size d + i" using assms(2,3) div_mult_mod_eq [of "n mod unat (fb_pitch d)" "px_size d"] by simp
  then show ?thesis using assms(1) div_mult_mod_eq [of n "unat (fb_pitch d)"] by simp
qed

lemma px_address:
  assumes "fb_fits d" "unat x < unat (fb_width d)" "unat y < unat (fb_height d)"
  shows "fb_base d + ucast (y * fb_pitch d) + scast (x * ucast (drop_bit 3 (fb_bpp d)) :: u32) =
    fb_base d + of_nat (unat y * unat (fb_pitch d) + unat x * px_size d)"
    "fb_base d + ucast (y * fb_pitch d) + ucast (x * ucast (drop_bit 3 (fb_bpp d)) :: u32) =
    fb_base d + of_nat (unat y * unat (fb_pitch d) + unat x * px_size d)"
proof -
  have "unat x * px_size d + 0 < unat (fb_pitch d)" using row_bytes(1) [OF assms(1,2), of 0] by simp
  then have xb: "unat x * px_size d < 2 ^ 31" using fits_bounds(1) [OF assms(1)] by simp
  have "unat y * unat (fb_pitch d) \<le> screen_len d" unfolding screen_len_def using assms(3) by (intro mult_le_mono1) simp
  then have yb: "unat y * unat (fb_pitch d) < 2 ^ 31" using assms(1) by (simp add: fb_fits_def)
  have y: "ucast (y * fb_pitch d) = (of_nat (unat y * unat (fb_pitch d)) :: u64)"
  proof -
    have "unat (y * fb_pitch d) = unat y * unat (fb_pitch d)" using yb by (simp add: unat_word_ariths)
    then show ?thesis by (simp only: ucast_of_unat)
  qed
  have "unat (x * ucast (drop_bit 3 (fb_bpp d)) :: u32) = unat x * px_size d"
    using xb by (simp add: unat_word_ariths px_size_def unat_ucast_8_32)
  then have u: "unat (x * ucast (drop_bit 3 (fb_bpp d)) :: u32) < 2 ^ 31"
    and e: "ucast (x * ucast (drop_bit 3 (fb_bpp d)) :: u32) = (of_nat (unat x * px_size d) :: u64)"
    using xb by (simp_all only: ucast_of_unat)
  have "scast (x * ucast (drop_bit 3 (fb_bpp d)) :: u32) = (ucast (x * ucast (drop_bit 3 (fb_bpp d)) :: u32) :: u64)"
    unfolding scast_eq sint_unat [OF u] ucast_of_unat by (rule of_int_of_nat_eq)
  then show "fb_base d + ucast (y * fb_pitch d) + scast (x * ucast (drop_bit 3 (fb_bpp d)) :: u32) =
    fb_base d + of_nat (unat y * unat (fb_pitch d) + unat x * px_size d)"
    "fb_base d + ucast (y * fb_pitch d) + ucast (x * ucast (drop_bit 3 (fb_bpp d)) :: u32) =
    fb_base d + of_nat (unat y * unat (fb_pitch d) + unat x * px_size d)"
    using e y by (simp_all add: add.assoc)
qed

text \<open>An address is \<open>base + n\<close> exactly for its offset \<open>n\<close>.\<close>

lemma offset_eq:
  fixes a b :: u64
  assumes "n < 2 ^ 64"
  shows "a = b + of_nat n \<longleftrightarrow> unat (a - b) = n"
proof
  assume "unat (a - b) = n"
  then have "of_nat n = a - b" by auto
  then show "a = b + of_nat n" by simp
qed (use assms in \<open>simp add: unat_of_nat\<close>)

section \<open>Blitting\<close>

lemma paint_pixel:
  assumes "fb_fits d" "x < unat (fb_width d)" "y < unat (fb_height d)"
  defines "px \<equiv> fb_base d + of_nat (y * unat (fb_pitch d) + x * px_size d)"
  shows "painted d {(int x, int y)} c m = m(px := chan c 0, px + 1 := chan c 1, px + 2 := chan c 2)"
proof (rule ext)
  fix a
  define k where "k = y * unat (fb_pitch d) + x * px_size d"
  define n where "n = unat (a - fb_base d)"
  have lt: "k + i < 2 ^ 64" if "i < 3" for i
    using decode_pixel(1) [OF assms(1-3) that] assms(1) by (simp add: k_def fb_fits_def)
  have off: "a = px + of_nat i \<longleftrightarrow> n = k + i" if "i < 3" for i
    using offset_eq [OF lt [OF that], of a "fb_base d"] by (simp add: px_def k_def n_def add_ac)
  have at: "a = px \<longleftrightarrow> n = k" "a = px + 1 \<longleftrightarrow> n = k + 1" "a = px + 2 \<longleftrightarrow> n = k + 2"
    using off [of 0] off [of 1] off [of 2] by simp_all
  show "painted d {(int x, int y)} c m a = (m(px := chan c 0, px + 1 := chan c 1, px + 2 := chan c 2)) a"
  proof (cases "\<exists>i<3. n = k + i")
    case True
    then obtain i where i: "i < 3" "n = k + i" by blast
    note dec = decode_pixel [OF assms(1-3) i(1), folded k_def, folded i(2)]
    have "painted d {(int x, int y)} c m a = chan c i"
      unfolding painted_def Let_def n_def [symmetric] dec using dec(1) assms(2) i(1) by simp
    moreover have "i = 0 \<or> i = 1 \<or> i = 2" using i(1) by linarith
    ultimately show ?thesis using at i(2) by auto
  next
    case False
    then have "a \<noteq> px" "a \<noteq> px + 1" "a \<noteq> px + 2" using at by (auto dest: spec [of _ 0] spec [of _ 1] spec [of _ 2])
    moreover have "painted d {(int x, int y)} c m a = m a"
      unfolding painted_def Let_def n_def [symmetric]
      using False encode_pixel [of n d y x] by (auto simp: k_def)
    ultimately show ?thesis by simp
  qed
qed

lemma gop_blit_paint:
  assumes "fb_fits d"
  shows "ram (gop_blit d x y c st) = painted d {(sint x, sint y)} c (ram st)"
proof -
  note b = fits_bounds [OF assms]
  have wh: "sint (fb_width d) = int (unat (fb_width d))" "sint (fb_height d) = int (unat (fb_height d))"
    using b by (simp_all only: sint_unat)
  show ?thesis
  proof (cases "sint x < 0 \<or> sint x \<ge> sint (fb_width d) \<or> sint y < 0 \<or> sint y \<ge> sint (fb_height d)")
    case True
    then have "painted d {(sint x, sint y)} c (ram st) = painted d {} c (ram st)"
      unfolding wh by (intro paint_cong) auto
    then show ?thesis using True by (simp add: gop_blit_def paint_empty)
  next
    case False
    then have x: "0 \<le> sint x" "sint x < int (unat (fb_width d))" and y: "0 \<le> sint y" "sint y < int (unat (fb_height d))"
      unfolding wh by auto
    have sx: "sint x = int (unat x)" "sint y = int (unat y)" using x(1) y(1) by (simp_all only: sint_unat sint_nonneg_unat)
    have lt: "unat x < unat (fb_width d)" "unat y < unat (fb_height d)" using x(2) y(2) unfolding sx of_nat_less_iff .
    show ?thesis
      unfolding gop_blit_def Let_def if_not_P [OF False] px_address [OF assms lt] unfolding sx paint_pixel [OF assms lt]
      by (simp add: chan_def)
  qed
qed

section \<open>Clearing\<close>

definition black :: fb_color where "black = fb_rgba_color 0"

lemma chan_black: "chan black i = 0" by (simp add: black_def chan_def fb_rgba_color_def)

lemma clear_row_paint:
  assumes "fb_fits d" "unat y < unat (fb_height d)" "unat x + n \<le> unat (fb_width d)"
  shows "ram (gop_clear_row n x y d st) = painted d ({int (unat x)..<int (unat x + n)} \<times> {int (unat y)}) black (ram st)"
  using assms(3)
proof (induction n arbitrary: x st)
  case 0
  then show ?case by (simp add: paint_empty)
next
  case (Suc n)
  have lt: "unat x < unat (fb_width d)" using Suc.prems by simp
  have "unat x < 2 ^ 31" using lt fits_bounds(3) [OF assms(1)] by linarith
  then have x1: "unat (x + 1) = unat x + 1" by (simp add: unat_word_ariths)
  have px: "ram (put_pixel_24 (fb_base d + ucast (y * fb_pitch d) + ucast (x * ucast (drop_bit 3 (fb_bpp d)) :: u32)) 0 0 0 st) =
      painted d {(int (unat x), int (unat y))} black (ram st)"
    unfolding px_address(2) [OF assms(1) lt assms(2)] paint_pixel [OF assms(1) lt assms(2)] chan_black
    by (simp add: put_pixel_24_def)
  have "{int (unat x + 1)..<int (unat x + 1 + n)} \<times> {int (unat y)} \<union> {(int (unat x), int (unat y))} =
      {int (unat x)..<int (unat x + Suc n)} \<times> {int (unat y)}" by auto
  with Suc.IH [of "x + 1"] Suc.prems show ?case by (simp only: gop_clear_row.simps x1 px paint_union)
qed

lemma clear_rows_paint:
  assumes "fb_fits d" "unat y + n \<le> unat (fb_height d)"
  shows "ram (gop_clear_rows n y d st) = painted d ({0..<int (unat (fb_width d))} \<times> {int (unat y)..<int (unat y + n)}) black (ram st)"
  using assms(2)
proof (induction n arbitrary: y st)
  case 0
  then show ?case by (simp add: paint_empty)
next
  case (Suc n)
  have lt: "unat y < unat (fb_height d)" using Suc.prems by simp
  have "unat y < 2 ^ 31" using lt fits_bounds(2) [OF assms(1)] by linarith
  then have y1: "unat (y + 1) = unat y + 1" by (simp add: unat_word_ariths)
  have row: "ram (gop_clear_row (unat (fb_width d)) 0 y d st) = painted d ({0..<int (unat (fb_width d))} \<times> {int (unat y)}) black (ram st)"
    using clear_row_paint [OF assms(1) lt, of 0 "unat (fb_width d)"] by simp
  have "{0..<int (unat (fb_width d))} \<times> {int (unat y + 1)..<int (unat y + 1 + n)} \<union> {0..<int (unat (fb_width d))} \<times> {int (unat y)} =
      {0..<int (unat (fb_width d))} \<times> {int (unat y)..<int (unat y + Suc n)}" by auto
  with Suc.IH [of "y + 1"] Suc.prems show ?case by (simp only: gop_clear_rows.simps y1 row paint_union)
qed

lemma gop_clear_paint:
  assumes "fb_fits d"
  shows "ram (gop_clear d st) = painted d UNIV black (ram st)"
proof -
  have "painted d UNIV black (ram st) =
      painted d ({0..<int (unat (fb_width d))} \<times> {0..<int (unat (fb_height d))}) black (ram st)"
    by (intro paint_cong) simp
  then show ?thesis using clear_rows_paint [OF assms, of 0 "unat (fb_height d)"] by (simp add: gop_clear_def)
qed

section \<open>Filling a rectangle\<close>

definition rgb :: "fb_color \<Rightarrow> nat \<Rightarrow> u8" where
  "rgb c i = (if i = 0 then red c else if i = 1 then green c else blue c)"

text \<open>The bytes \<open>fill_rect\<close> writes: three for each point of the rectangle, at three bytes a pixel whatever the depth,
  with red first.\<close>

definition rect_bytes :: "fbdev \<Rightarrow> int \<Rightarrow> int \<Rightarrow> int \<Rightarrow> int \<Rightarrow> fb_color \<Rightarrow> (u64 \<Rightarrow> u8) \<Rightarrow> u64 \<Rightarrow> u8" where
  "rect_bytes d x0 x1 y0 y1 c m a =
     (let n = unat (a - fb_base d); y = n div unat (fb_pitch d); q = n mod unat (fb_pitch d)
      in if n < screen_len d \<and> int y \<in> {y0..<y1} \<and> int (q div 3) \<in> {x0..<x1} then rgb c (q mod 3) else m a)"

lemma word_diff_small:
  fixes t :: u64
  assumes "k + l \<le> 2 ^ 64" "l \<le> 2 ^ 63"
  shows "unat (t - of_nat k) < l \<longleftrightarrow> k \<le> unat t \<and> unat t < k + l"
    and "k \<le> unat t \<Longrightarrow> unat (t - of_nat k) = unat t - k"
proof -
  have sum: "unat t = unat (t - of_nat k) + k" if "unat (t - of_nat k) < l"
    using unat_plus_of_nat [of "t - of_nat k" k] that assms(1) by simp
  show sub: "unat (t - of_nat k) = unat t - k" if "k \<le> unat t"
  proof -
    have "unat t < 2 ^ LENGTH(64)" by (rule unsigned_less)
    then have k: "unat (of_nat k :: u64) = k" using that by (intro unat_of_nat64) simp
    then show ?thesis using that unat_sub [of "of_nat k" t] by (simp add: word_le_nat_alt)
  qed
  show "unat (t - of_nat k) < l \<longleftrightarrow> k \<le> unat t \<and> unat t < k + l"
    using sum sub by fastforce
qed

lemma fill_row_bytes:
  assumes "3 * n < 2 ^ 63"
  shows "ram (gop_fill_row n px c st) a = (if unat (a - px) < 3 * n then rgb c (unat (a - px) mod 3) else ram st a)"
  using assms
proof (induction n arbitrary: px st)
  case 0
  then show ?case by simp
next
  case (Suc n)
  have t: "a - (px + 3) = (a - px) - of_nat 3" by simp
  define j where "j = unat (a - px)"
  have "a = px \<longleftrightarrow> j = 0" "a = px + 1 \<longleftrightarrow> j = 1" "a = px + 2 \<longleftrightarrow> j = 2"
    using offset_eq [of 0 a px] offset_eq [of 1 a px] offset_eq [of 2 a px] by (simp_all add: j_def)
  then have first: "ram (poke px (red c) (poke (px + 1) (green c) (poke (px + 2) (blue c) st))) a = (if j < 3 then rgb c j else ram st a)"
    by (auto simp: rgb_def)
  have "unat (a - (px + 3)) < 3 * n \<longleftrightarrow> 3 \<le> j \<and> j < 3 + 3 * n"
    unfolding t j_def by (rule word_diff_small) (use Suc.prems in simp_all)
  moreover have "3 \<le> j \<Longrightarrow> unat (a - (px + 3)) mod 3 = j mod 3"
    unfolding t j_def using word_diff_small(2) [of 3 0 "a - px"] by (simp add: le_mod_geq)
  ultimately show ?case using Suc.IH [of "px + 3"] Suc.prems first by (simp add: j_def [symmetric])
qed

lemma fill_rows_bytes:
  assumes "fb_fits d" "x0 + w \<le> unat (fb_width d)" "y + n \<le> unat (fb_height d)"
  shows "ram (gop_fill_rows n w (fb_base d + of_nat (y * unat (fb_pitch d) + 3 * x0)) d c st) =
    rect_bytes d (int x0) (int (x0 + w)) (int y) (int (y + n)) c (ram st)"
  using assms(3)
proof (induction n arbitrary: y st)
  case 0
  then show ?case by (simp add: rect_bytes_def fun_eq_iff)
next
  case (Suc n)
  define p where "p = unat (fb_pitch d)"
  define k where "k = y * p + 3 * x0"
  have "(x0 + w) * 3 \<le> unat (fb_width d) * px_size d" using assms(1,2) by (intro mult_le_mono) (auto simp: fb_fits_def)
  then have r: "3 * (x0 + w) \<le> p" using assms(1) by (simp add: fb_fits_def p_def)
  have "Suc y * p \<le> screen_len d" unfolding screen_len_def p_def using Suc.prems by (intro mult_le_mono1) simp
  moreover have s: "screen_len d < 2 ^ 31" using assms(1) by (simp add: fb_fits_def)
  ultimately have yp: "y * p + p \<le> screen_len d" "p < 2 ^ 31" "y * p + p < 2 ^ 31" by simp_all
  have w: "3 * w < 2 ^ 31" and k: "k + 3 * w \<le> 2 ^ 31" using r yp by (auto simp: k_def)
  have row: "ram (gop_fill_row w (fb_base d + of_nat k) c st) = rect_bytes d (int x0) (int (x0 + w)) (int y) (int (Suc y)) c (ram st)"
  proof (rule ext)
    fix a
    define t where "t = unat (a - fb_base d)"
    have e: "a - (fb_base d + of_nat k) = (a - fb_base d) - of_nat k" by simp
    have in_row: "t div p = y \<and> t mod p div 3 \<in> {x0..<x0 + w} \<longleftrightarrow> k \<le> t \<and> t < k + 3 * w"
    proof
      assume "t div p = y \<and> t mod p div 3 \<in> {x0..<x0 + w}"
      then have "t div p = y" "x0 * 3 \<le> t mod p" "t mod p < (x0 + w) * 3"
        by (auto simp: less_eq_div_iff_mult_less_eq div_less_iff_less_mult)
      then show "k \<le> t \<and> t < k + 3 * w" using div_mult_mod_eq [of t p] by (simp add: k_def)
    next
      assume t: "k \<le> t \<and> t < k + 3 * w"
      define q where "q = t - y * p"
      have q: "t = q + y * p" "3 * x0 \<le> q" "q < 3 * (x0 + w)" using t by (auto simp: q_def k_def)
      then have "q < p" using r by simp
      then have "t div p = y" "t mod p = q" unfolding q(1) by (simp_all add: div_mult_self1 mod_mult_self1)
      moreover have "x0 \<le> q div 3" using q(2) by linarith
      moreover have "q < (x0 + w) * 3" using q(3) by linarith
      then have "q div 3 < x0 + w" by (rule less_mult_imp_div_less)
      ultimately show "t div p = y \<and> t mod p div 3 \<in> {x0..<x0 + w}" by simp
    qed
    have md: "(t - k) mod 3 = t mod p mod 3" if "t div p = y" "k \<le> t" for t
    proof -
      have "t - k = t mod p - 3 * x0" "3 * x0 \<le> t mod p" using that div_mult_mod_eq [of t p] by (auto simp: k_def)
      then show ?thesis by (metis mod_mult_self4 le_add_diff_inverse)
    qed
    have lt: "k \<le> t \<and> t < k + 3 * w \<Longrightarrow> t < screen_len d" using r yp by (auto simp: k_def)
    have "ram (gop_fill_row w (fb_base d + of_nat k) c st) a =
        (if k \<le> t \<and> t < k + 3 * w then rgb c ((t - k) mod 3) else ram st a)"
      using fill_row_bytes [of w "fb_base d + of_nat k" c st a] w k word_diff_small [of k "3 * w" "a - fb_base d"]
      by (auto simp: e t_def)
    also have "\<dots> = rect_bytes d (int x0) (int (x0 + w)) (int y) (int (Suc y)) c (ram st) a"
      unfolding rect_bytes_def Let_def t_def [symmetric] p_def [symmetric]
      using in_row lt md [of t] by auto
    finally show "ram (gop_fill_row w (fb_base d + of_nat k) c st) a = \<dots>" .
  qed
  have nx: "fb_base d + of_nat k + ucast (fb_pitch d) = fb_base d + of_nat (Suc y * p + 3 * x0)"
    unfolding ucast_of_unat k_def p_def by simp
  have un: "rect_bytes d (int x0) (int (x0 + w)) (int (Suc y)) (int (Suc y + n)) c
        (rect_bytes d (int x0) (int (x0 + w)) (int y) (int (Suc y)) c m) =
      rect_bytes d (int x0) (int (x0 + w)) (int y) (int (y + Suc n)) c m" for m
    by (rule ext) (auto simp: rect_bytes_def Let_def)
  have "ram (gop_fill_rows (Suc n) w (fb_base d + of_nat k) d c st) =
      ram (gop_fill_rows n w (fb_base d + of_nat (Suc y * p + 3 * x0)) d c (gop_fill_row w (fb_base d + of_nat k) c st))"
    by (simp only: gop_fill_rows.simps nx)
  also have "\<dots> = rect_bytes d (int x0) (int (x0 + w)) (int (Suc y)) (int (Suc y + n)) c
      (ram (gop_fill_row w (fb_base d + of_nat k) c st))"
    unfolding p_def by (rule Suc.IH) (use Suc.prems in simp)
  also have "\<dots> = rect_bytes d (int x0) (int (x0 + w)) (int y) (int (y + Suc n)) c (ram st)" unfolding row un ..
  finally show ?case unfolding k_def p_def .
qed

lemma rect_bytes_none: "x1 \<le> x0 \<or> y1 \<le> y0 \<Longrightarrow> rect_bytes d x0 x1 y0 y1 c m = m"
  by (rule ext) (auto simp: rect_bytes_def Let_def)

lemma sint_diff:
  fixes a b :: "32 word"
  assumes "unat a < 2 ^ 31" "unat b < 2 ^ 31"
  shows "sint (a - b) = int (unat a) - int (unat b)"
proof (cases "b \<le> a")
  case True
  then have "unat (a - b) = unat a - unat b" by (rule unat_sub)
  moreover from this have "sint (a - b) = int (unat (a - b))" using assms(1) by (intro sint_unat) simp
  ultimately show ?thesis using True by (simp add: word_le_nat_alt of_nat_diff)
next
  case False
  have "unat a < 2147483648" "unat b < 2147483648" using assms by simp_all
  then have "(int (unat a) - int (unat b) + 2147483648) mod 4294967296 = int (unat a) - int (unat b) + 2147483648"
    by (intro mod_pos_pos_trivial) linarith+
  moreover have "sint (a - b) = (sint a - sint b + 2147483648) mod 4294967296 - 2147483648"
    using int_word_sint [where 'a = 32, of "sint a - sint b"] by simp
  ultimately have "sint (a - b) = sint a - sint b"
    unfolding sint_unat [OF assms(1)] sint_unat [OF assms(2)] by linarith
  then show ?thesis unfolding sint_unat [OF assms(1)] sint_unat [OF assms(2)] .
qed

lemma gop_fill_rect_bytes:
  assumes "fb_fits d"
  shows "ram (gop_fill_rect d x y w h c st) =
    rect_bytes d (max 0 (sint x)) (min (int (unat (fb_width d))) (sint (x + w)))
      (max 0 (sint y)) (min (int (unat (fb_height d))) (sint (y + h))) c (ram st)"
    (is "_ = rect_bytes d ?x0 ?x1 ?y0 ?y1 c _")
proof -
  note b = fits_bounds [OF assms]
  have sz: "sint (fb_width d) = int (unat (fb_width d))" "sint (fb_height d) = int (unat (fb_height d))"
    using b by (simp_all only: sint_unat)
  show ?thesis
  proof (cases "(sint x \<ge> sint (fb_width d) \<or> sint y \<ge> sint (fb_height d)) \<or> sint (x + w) \<le> 0 \<or> sint (y + h) \<le> 0")
    case True
    then have "gop_fill_rect d x y w h c st = st" by (auto simp: gop_fill_rect_def)
    moreover have "?x1 \<le> ?x0 \<or> ?y1 \<le> ?y0" using True unfolding sz by linarith
    ultimately show ?thesis by (simp add: rect_bytes_none)
  next
    case False
    then have go: "\<not> (sint x \<ge> sint (fb_width d) \<or> sint y \<ge> sint (fb_height d))" "\<not> (sint (x + w) \<le> 0 \<or> sint (y + h) \<le> 0)"
      by auto
    define x' where "x' = (if sint x < 0 then 0 else x)"
    define y' where "y' = (if sint y < 0 then 0 else y)"
    define x2 where "x2 = (if sint (x + w) > sint (fb_width d) then fb_width d else x + w)"
    define y2 where "y2 = (if sint (y + h) > sint (fb_height d) then fb_height d else y + h)"
    have small: "0 \<le> sint v \<Longrightarrow> int (unat v) = sint v \<and> unat v < 2 ^ 31" for v :: "32 word"
      using sint_unat [OF sint_nonneg_unat, of v] sint_nonneg_unat [of v] by simp
    have lo: "int (unat x') = ?x0" "int (unat y') = ?y0" "unat x' < 2 ^ 31" "unat y' < 2 ^ 31"
      using small [of x] small [of y] by (cases "sint x < 0"; cases "sint y < 0"; simp add: x'_def y'_def)+
    have hi: "int (unat x2) = ?x1" "int (unat y2) = ?y1" "unat x2 < 2 ^ 31" "unat y2 < 2 ^ 31"
      using go(2) b sz small [of "x + w"] small [of "y + h"]
      by (cases "sint (x + w) > sint (fb_width d)"; cases "sint (y + h) > sint (fb_height d)"; simp add: x2_def y2_def min_def)+
    have f: "gop_fill_rect d x y w h c st =
        (if sint (x2 - x') \<le> 0 \<or> sint (y2 - y') \<le> 0 then st
         else gop_fill_rows (unat (y2 - y')) (unat (x2 - x')) (fb_base d + ucast (y' * fb_pitch d) + scast x' * 3) d c st)"
      unfolding gop_fill_rect_def if_not_P [OF go(1)] if_not_P [OF go(2)] Let_def x'_def y'_def x2_def y2_def ..
    have df: "sint (x2 - x') = ?x1 - ?x0" "sint (y2 - y') = ?y1 - ?y0"
      unfolding lo(1,2) [symmetric] hi(1,2) [symmetric] using lo hi by (simp_all only: sint_diff)
    show ?thesis
    proof (cases "?x1 \<le> ?x0 \<or> ?y1 \<le> ?y0")
      case True
      then show ?thesis using f df by (simp add: rect_bytes_none)
    next
      case no: False
      have un: "int (unat (x2 - x')) = ?x1 - ?x0" "int (unat (y2 - y')) = ?y1 - ?y0"
        using no small [of "x2 - x'"] small [of "y2 - y'"] unfolding df by linarith+
      have xe: "int (unat x' + unat (x2 - x')) = ?x1" "int (unat y' + unat (y2 - y')) = ?y1" using un lo by simp_all
      have le: "unat x' + unat (x2 - x') \<le> unat (fb_width d)" "unat y' + unat (y2 - y') \<le> unat (fb_height d)"
        using xe by linarith+
      have "unat y' * unat (fb_pitch d) \<le> screen_len d" unfolding screen_len_def using le by (intro mult_le_mono1) simp
      then have "unat (y' * fb_pitch d) = unat y' * unat (fb_pitch d)" using assms by (simp add: unat_word_ariths fb_fits_def)
      moreover have "scast x' = (of_nat (unat x') :: u64)" unfolding scast_eq sint_unat [OF lo(3)] by (rule of_int_of_nat_eq)
      ultimately have at: "fb_base d + ucast (y' * fb_pitch d) + scast x' * 3 = fb_base d + of_nat (unat y' * unat (fb_pitch d) + 3 * unat x')"
        unfolding ucast_of_unat by simp
      have "gop_fill_rect d x y w h c st = gop_fill_rows (unat (y2 - y')) (unat (x2 - x'))
          (fb_base d + of_nat (unat y' * unat (fb_pitch d) + 3 * unat x')) d c st"
        unfolding f at df using no by (intro if_not_P) linarith
      then show ?thesis unfolding fill_rows_bytes [OF assms le, of c st, symmetric, unfolded xe lo(1,2)] by (rule arg_cong)
    qed
  qed
qed

lemma rect_bytes_24:
  assumes "px_size d = 3" "x1 \<le> int (unat (fb_width d))"
  shows "rect_bytes d x0 x1 y0 y1 c m = painted d ({x0..<x1} \<times> {y0..<y1}) (c\<lparr>red := blue c, blue := red c\<rparr>) m"
proof -
  have "int k < x1 \<Longrightarrow> k < unat (fb_width d)" for k using assms(2) by linarith
  then show ?thesis
    by (intro ext) (simp add: rect_bytes_def painted_def Let_def assms(1) rgb_def chan_def conj_ac cong: conj_cong)
qed

lemma rect_bytes_frame: "\<not> on_fb d a \<Longrightarrow> rect_bytes d x0 x1 y0 y1 c m a = m a"
  by (simp add: rect_bytes_def on_fb_def Let_def)

section \<open>Scrolling\<close>

lemma stosb_bytes:
  assumes "\<not> df st" "n < 2 ^ 63"
  shows "ram (fst (stosb_n n st s c)) a = (if unat (a - s) < n then c else ram st a)"
  using assms
proof (induction n arbitrary: s st)
  case 0
  then show ?case by simp
next
  case (Suc n)
  have t: "a - (s + 1) = (a - s) - of_nat 1" by simp
  have "unat (a - (s + 1)) < n \<longleftrightarrow> 1 \<le> unat (a - s) \<and> unat (a - s) < 1 + n"
    unfolding t by (rule word_diff_small) (use Suc.prems in simp_all)
  moreover have "a = s \<longleftrightarrow> unat (a - s) = 0" using offset_eq [of 0 a s] by simp
  ultimately show ?case using Suc.IH [of "st\<lparr>ram := (ram st)(s := c)\<rparr>" "s + 1"] Suc.prems by (auto simp: dir_def)
qed

lemma memset_bytes:
  assumes "unat n < 2 ^ 63"
  shows "ram (fst (memset st s c n)) a = (if unat (a - s) < unat n then ucast c else ram st a)"
  using stosb_bytes [of "x86_cld st" "unat n" s "ucast c" a] assms
  by (cases "stosb_n (unat n) (x86_cld st) s (ucast c)") (simp add: memset_def rep_stosb_def x86_cld_def)

definition scrolled :: "fbdev \<Rightarrow> nat \<Rightarrow> (u64 \<Rightarrow> u8) \<Rightarrow> u64 \<Rightarrow> u8" where
  "scrolled d rows m a =
     (let n = unat (a - fb_base d); k = rows * unat (fb_pitch d)
      in if n + k < screen_len d then m (a + of_nat k) else if n < screen_len d then 0 else m a)"

lemma gop_scroll_bytes:
  assumes "fb_fits d" "unat rows \<le> unat (fb_height d)"
  shows "ram (gop_scroll d rows st) = scrolled d (unat rows) (ram st)"
proof (rule ext)
  fix a
  define k where "k = unat rows * unat (fb_pitch d)"
  define l where "l = screen_len d"
  define n where "n = unat (a - fb_base d)"
  have l: "l < 2 ^ 31" "unat (fb_base d) + l \<le> 2 ^ 64" using assms(1) by (simp_all add: fb_fits_def l_def)
  have k: "k \<le> l" unfolding k_def l_def screen_len_def using assms(2) by (rule mult_le_mono1)
  have "k < 2 ^ LENGTH(32)" "l < 2 ^ LENGTH(32)" using k l(1) by simp_all
  then have "unat (rows * fb_pitch d) = k" "unat (fb_height d * fb_pitch d) = l"
    unfolding unat_word_ariths k_def l_def screen_len_def by (simp_all only: mod_less)
  then have w: "ucast (rows * fb_pitch d) = (of_nat k :: u64)" "ucast (fb_height d * fb_pitch d) = (of_nat l :: u64)"
    by (simp_all only: ucast_of_unat)
  have uk: "unat (of_nat k :: u64) = k" and ul: "(of_nat l - of_nat k :: u64) = of_nat (l - k)"
    using k l(1) by (simp_all add: unat_of_nat64 of_nat_diff)
  have ulk: "unat (of_nat (l - k) :: u64) = l - k" by (rule unat_of_nat64) (use l in simp)
  have ub: "unat (fb_base d + of_nat k) = unat (fb_base d) + k" if "k < l"
    using that l by (intro unat_plus_of_nat) simp
  have "\<exists>st'. memmove st (fb_base d) (fb_base d + of_nat k) (of_nat (l - k)) = (st', fb_base d) \<and>
      (\<forall>a. ram st' a = (if \<exists>j<l - k. a = fb_base d + of_nat j then ram st (a + of_nat k) else ram st a))"
  proof (cases "k = l")
    case True
    then show ?thesis by (simp add: memmove_def)
  next
    case False
    then have "unat (fb_base d + of_nat k) + (l - k) \<le> 2 ^ 64" using ub k l by simp
    moreover have "unat (fb_base d) + (l - k) \<le> 2 ^ 64" using l by simp
    ultimately show ?thesis
      using memmove_spec [of "fb_base d" "of_nat (l - k)" "fb_base d + of_nat k" st] unfolding ulk
      by (auto simp: algebra_simps)
  qed
  then obtain st' where mv: "memmove st (fb_base d) (fb_base d + of_nat k) (of_nat (l - k)) = (st', fb_base d)"
    and m': "ram st' b = (if \<exists>j<l - k. b = fb_base d + of_nat j then ram st (b + of_nat k) else ram st b)" for b by blast
  have "(\<exists>j<l - k. a = fb_base d + of_nat j) \<longleftrightarrow> n < l - k"
  proof -
    have "j < l - k \<Longrightarrow> a = fb_base d + of_nat j \<longleftrightarrow> n = j" for j
      unfolding n_def using l(1) by (intro offset_eq) simp
    then show ?thesis by blast
  qed
  then have moved: "ram st' a = (if n + k < l then ram st (a + of_nat k) else ram st a)" using m' [of a] by (auto simp: less_diff_conv)
  define s where "s = fb_base d + of_nat l - of_nat k"
  have s: "s = fb_base d + of_nat (l - k)" using k by (simp add: s_def of_nat_diff)
  have "unat (a - s) < k \<longleftrightarrow> l - k \<le> n \<and> n < l"
    using word_diff_small(1) [of "l - k" k "a - fb_base d"] k l by (simp add: s n_def diff_diff_eq)
  moreover have "gop_scroll d rows st = fst (memset st' s 0 (of_nat k))"
    unfolding gop_scroll_def Let_def w ul mv by (simp add: s_def split: prod.split)
  ultimately have "ram (gop_scroll d rows st) a = (if l - k \<le> n \<and> n < l then 0 else ram st' a)"
    using memset_bytes [of "of_nat k" st' s 0 a] k l(1) by (simp add: uk)
  also have "\<dots> = scrolled d (unat rows) (ram st) a"
    unfolding scrolled_def Let_def k_def [symmetric] l_def [symmetric] n_def [symmetric] moved using k by auto
  finally show "ram (gop_scroll d rows st) a = scrolled d (unat rows) (ram st) a" .
qed

lemma scrolled_frame: "\<not> on_fb d a \<Longrightarrow> scrolled d rows m a = m a"
  by (simp add: scrolled_def on_fb_def Let_def)

section \<open>The interface the console relies on\<close>

text \<open>
  A driver: blitting paints one pixel, clearing paints all of them in one colour, and filling and scrolling
  by at most the height touch nothing but the framebuffer.
\<close>

locale fb_driver =
  fixes fits :: "fbdev \<Rightarrow> bool"
    and paints :: "fbdev \<Rightarrow> (int \<times> int) set \<Rightarrow> fb_color \<Rightarrow> (u64 \<Rightarrow> u8) \<Rightarrow> u64 \<Rightarrow> u8"
    and blit :: "fbdev \<Rightarrow> i32 \<Rightarrow> i32 \<Rightarrow> fb_color \<Rightarrow> cpu \<Rightarrow> cpu"
    and fill :: "fbdev \<Rightarrow> i32 \<Rightarrow> i32 \<Rightarrow> i32 \<Rightarrow> i32 \<Rightarrow> fb_color \<Rightarrow> cpu \<Rightarrow> cpu"
    and scrl :: "fbdev \<Rightarrow> u32 \<Rightarrow> cpu \<Rightarrow> cpu"
  assumes union: "paints d P c (paints d Q c m) = paints d (P \<union> Q) c m"
    and empty: "paints d {} c m = m"
    and outside: "\<not> on_fb d a \<Longrightarrow> paints d P c m a = m a"
    and blits: "fits d \<Longrightarrow> ram (blit d x y c st) = paints d {(sint x, sint y)} c (ram st)"
    and fills: "fits d \<Longrightarrow> \<not> on_fb d a \<Longrightarrow> ram (fill d x y w h c st) a = ram st a"
    and scrolls: "fits d \<Longrightarrow> unat n \<le> unat (fb_height d) \<Longrightarrow> \<not> on_fb d a \<Longrightarrow> ram (scrl d n st) a = ram st a"

interpretation gop: fb_driver fb_fits painted gop_blit gop_fill_rect gop_scroll
  by unfold_locales
    (simp_all add: paint_union paint_empty paint_frame gop_blit_paint gop_fill_rect_bytes rect_bytes_frame
      gop_scroll_bytes scrolled_frame)

end
