(* ===== verification/ConsoleSpec.thy ===== *)
theory ConsoleSpec
  imports Console FbDriver
begin

text \<open>
  The pixels of a glyph, the conditions on a font, and the drawing of a glyph, proved in the locale \<open>fb_driver\<close> for
  any framebuffer driver: it paints exactly the pixels of the glyph's set bits and touches nothing else.
\<close>

section \<open>Glyphs as sets of pixels\<close>

definition font_bit :: "u8 list \<Rightarrow> nat \<Rightarrow> bool" where
  "font_bit bs n = bit (bs ! (n div 8)) (7 - n mod 8)"

definition first_bit :: "font_glyph \<Rightarrow> nat" where "first_bit g = 8 * unat (bitmap_offset g)"

definition glyph_pixels :: "kfont \<Rightarrow> font_glyph \<Rightarrow> int \<Rightarrow> int \<Rightarrow> (int \<times> int) set" where
  "glyph_pixels f g x y =
     {(x + sint (x_offset g) + int w, y + sint (baseline f) + sint (y_offset g) + int h) | w h.
        w < unat (g_width g) \<and> h < unat (g_height g) \<and>
        font_bit (font_bitmap f) (first_bit g + h * unat (g_width g) + w)}"

text \<open>A glyph lies inside the bitmap, and between the top and the bottom of the cell.\<close>

definition glyph_ok :: "kfont \<Rightarrow> font_glyph \<Rightarrow> bool" where
  "glyph_ok f g \<longleftrightarrow> first_bit g + unat (g_height g) * unat (g_width g) \<le> 8 * length (font_bitmap f) \<and>
     0 \<le> sint (baseline f) + sint (y_offset g) \<and>
     sint (baseline f) + sint (y_offset g) + int (unat (g_height g)) \<le> int (unat (pixel_h f))"

definition font_ok :: "kfont \<Rightarrow> bool" where
  "font_ok f \<longleftrightarrow> length (font_glyphs f) = 95 \<and> (\<forall>g \<in> set (font_glyphs f). glyph_ok f g) \<and>
     0 < unat (pixel_h f) \<and> g_width (font_glyphs f ! 0) = 0 \<and> 0 < unat (x_advance (font_glyphs f ! 0)) \<and>
     - 256 \<le> sint (baseline f) \<and> sint (baseline f) < 256 \<and> length (font_bitmap f) < 2 ^ 20"

lemma sint_add_nat:
  fixes a :: "32 word"
  assumes "- (2 ^ 30) \<le> sint a" "sint a + int k < 2 ^ 31" 
  shows "sint (a + of_nat k) = sint a + int k"
proof -
  have "sint (a + of_nat k) = (sint a + int k + 2147483648) mod 4294967296 - 2147483648"
    using int_word_sint [where 'a = 32, of "sint a + int k"] by simp
  moreover have "(sint a + int k + 2147483648) mod 4294967296 = sint a + int k + 2147483648"
    using assms by (intro mod_pos_pos_trivial) simp_all
  ultimately show ?thesis by simp
qed

lemma sint_add_small:
  fixes a b :: "32 word"
  assumes "- (2 ^ 29) \<le> sint a" "sint a < 2 ^ 29" "- (2 ^ 29) \<le> sint b" "sint b < 2 ^ 29"
  shows "sint (a + b) = sint a + sint b"
proof -
  have "sint (a + b) = (sint a + sint b + 2147483648) mod 4294967296 - 2147483648"
    using int_word_sint [where 'a = 32, of "sint a + sint b"] by simp
  moreover have "(sint a + sint b + 2147483648) mod 4294967296 = sint a + sint b + 2147483648"
    using assms by (intro mod_pos_pos_trivial) simp_all
  ultimately show ?thesis by simp
qed

lemma sint_u8: "- 128 \<le> sint (w :: u8)" "sint (w :: u8) < 128"
proof -
  have s: "sint w = (sint w + 128) mod 256 - 128" using int_word_sint [where 'a = 8, of "sint w"] by simp
  have "0 \<le> (sint w + 128) mod 256" "(sint w + 128) mod 256 < 256" by simp_all
  then show "- 128 \<le> sint w" "sint w < 128" using s by linarith+
qed

lemma sint_scast8: "sint (scast (w :: u8) :: 32 word) = sint w"
proof -
  have "(sint w + 2147483648) mod 4294967296 = sint w + 2147483648"
    using sint_u8 [of w] by (intro mod_pos_pos_trivial) simp_all
  then show ?thesis unfolding scast_eq int_word_sint by simp
qed

lemma bit_test: "drop_bit k b AND 1 \<noteq> 0 \<longleftrightarrow> bit b k" for b :: u8
  unfolding bit_iff_odd_drop_bit and_one_eq mod_2_eq_odd by simp

context fb_driver
begin

lemma draw_row_paints:
  assumes "fits d" "unat row_bit + m \<le> 8 * length bm" "length bm < 2 ^ 20" "- (2 ^ 30) \<le> sint dx" "sint dx + int m < 2 ^ 31"
    and "w + n = m"
  shows "\<exists>st'. draw_row n (of_nat w) bm row_bit dx dy (\<lambda>x y. blit d x y c) st = Some st' \<and>
    ram st' = paints d {(sint dx + int j, sint dy) | j. w \<le> j \<and> j < m \<and> font_bit bm (unat row_bit + j)} c (ram st)"
  using assms(6)
proof (induction n arbitrary: w st)
  case 0
  have e: "{(sint dx + int j, sint dy) | j. m \<le> j \<and> j < m \<and> font_bit bm (unat row_bit + j)} = {}" by auto
  from 0 have "w = m" by simp
  then show ?case by (simp only: e empty) simp
next
  case (Suc n)
  have wm: "w < m" using Suc.prems by simp
  have lt: "unat row_bit + w < 8 * length bm" using assms(2) wm by simp
  then have b23: "unat row_bit + w < 2 ^ 23" using assms(3) by simp
  have g: "unat (row_bit + of_nat w) = unat row_bit + w"
    using b23 unat_of_nat32 [of w] by (simp add: unat_word_ariths)
  define i where "i = unat row_bit + w"
  have by': "unat (drop_bit 3 (row_bit + of_nat w)) = i div 8" by (simp add: unat_drop g i_def)
  have bp: "unat (7 - (row_bit + of_nat w) mod 8) = 7 - i mod 8"
  proof -
    have m8: "unat ((row_bit + of_nat w) mod 8) = i mod 8" by (simp add: unat_mod_distrib g i_def)
    have "(row_bit + of_nat w) mod 8 \<le> 7" unfolding word_le_nat_alt m8 by simp
    then show ?thesis using m8 by (simp add: unat_sub)
  qed
  have idx: "i div 8 < length bm" using lt by (simp add: i_def div_less_iff_less_mult mult.commute)
  have dx: "sint (dx + of_nat w) = sint dx + int w" by (rule sint_add_nat) (use assms(4,5) wm in simp_all)
  define st1 where "st1 = (if font_bit bm i then blit d (dx + of_nat w) dy c st else st)"
  have step: "draw_row (Suc n) (of_nat w) bm row_bit dx dy (\<lambda>x y. blit d x y c) st =
      draw_row n (of_nat (Suc w)) bm row_bit dx dy (\<lambda>x y. blit d x y c) st1"
    using idx by (simp add: Let_def by' bp bit_test font_bit_def st1_def add.commute)
  have "Suc w + n = m" using Suc.prems by simp
  from Suc.IH [OF this, of st1] obtain st' where
    r: "draw_row n (of_nat (Suc w)) bm row_bit dx dy (\<lambda>x y. blit d x y c) st1 = Some st'"
    "ram st' = paints d {(sint dx + int j, sint dy) | j. Suc w \<le> j \<and> j < m \<and> font_bit bm (unat row_bit + j)} c (ram st1)" by auto
  have "ram st1 = paints d {(sint dx + int j, sint dy) | j. j = w \<and> font_bit bm (unat row_bit + j)} c (ram st)"
    using blits [OF assms(1), of "dx + of_nat w" dy c st] by (auto simp: st1_def i_def dx empty)
  moreover have "{(sint dx + int j, sint dy) | j. Suc w \<le> j \<and> j < m \<and> font_bit bm (unat row_bit + j)} \<union>
      {(sint dx + int j, sint dy) | j. j = w \<and> font_bit bm (unat row_bit + j)} =
      {(sint dx + int j, sint dy) | j. w \<le> j \<and> j < m \<and> font_bit bm (unat row_bit + j)}"
    using wm by (auto simp: Suc_le_eq le_less)
  ultimately show ?case using r(1) step by (intro exI [of _ st']) (simp only: r(2) union simp_thms)
qed

lemma draw_rows_paint:
  assumes "fits d" "unat base_bit + m * unat (g_width g) \<le> 8 * length bm" "length bm < 2 ^ 20"
    and "- (2 ^ 28) \<le> sint dx" "sint dx < 2 ^ 30" "- (2 ^ 28) \<le> sint y0" "sint y0 < 2 ^ 28" "m < 256"
    and "h + n = m"
  shows "\<exists>st'. draw_rows n (of_nat h) bm g base_bit dx y0 (\<lambda>x y. blit d x y c) st = Some st' \<and>
    ram st' = paints d {(sint dx + int j, sint y0 + sint (y_offset g) + int i) | i j. h \<le> i \<and> i < m \<and> j < unat (g_width g) \<and>
      font_bit bm (unat base_bit + i * unat (g_width g) + j)} c (ram st)"
  using assms(9)
proof (induction n arbitrary: h st)
  case 0
  have e: "{(sint dx + int j, sint y0 + sint (y_offset g) + int i) | i j. m \<le> i \<and> i < m \<and> j < unat (g_width g) \<and>
      font_bit bm (unat base_bit + i * unat (g_width g) + j)} = {}" by auto
  from 0 have "h = m" by simp
  then show ?case by (simp only: e empty) simp
next
  case (Suc n)
  define W where "W = unat (g_width g)"
  have hm: "h < m" using Suc.prems by simp
  have W: "W < 2 ^ 8" using unsigned_less [of "g_width g"] by (simp add: W_def)
  have "Suc h * W \<le> m * W" using hm by (intro mult_le_mono1) simp
  then have b: "unat base_bit + h * W + W \<le> 8 * length bm" using assms(2) by (simp add: W_def)
  have b23: "unat base_bit + h * W < 2 ^ 23" using b assms(3) by simp
  have hw: "unat (of_nat h * ucast (g_width g) :: u32) = h * W"
    using b23 hm assms(8) by (simp add: unat_word_ariths unat_of_nat32 unat_ucast_8_32 W_def)
  have rb: "unat (base_bit + of_nat h * ucast (g_width g)) = unat base_bit + h * W"
  proof -
    have "unat (base_bit + of_nat h * ucast (g_width g)) = (unat base_bit + h * W) mod 2 ^ 32"
      using hw by (simp add: unat_word_ariths)
    then show ?thesis using b23 by simp
  qed
  define dy where "dy = y0 + scast (y_offset g) + of_nat h"
  have "sint (y0 + scast (y_offset g)) = sint y0 + sint (y_offset g)"
    using assms(6,7) sint_u8 [of "y_offset g"] by (subst sint_add_small) (simp_all add: sint_scast8)
  then have dy: "sint dy = sint y0 + sint (y_offset g) + int h"
    unfolding dy_def using assms(6-8) sint_u8 [of "y_offset g"] hm by (subst sint_add_nat) simp_all
  have "- (2 ^ 30) \<le> sint dx" "sint dx + int W < 2 ^ 31" using assms(4,5) W by simp_all
  with draw_row_paints [OF assms(1), of "base_bit + of_nat h * ucast (g_width g)" W bm dx 0 W dy c st] b assms(3) rb
  obtain st1 where r1: "draw_row W 0 bm (base_bit + of_nat h * ucast (g_width g)) dx dy (\<lambda>x y. blit d x y c) st = Some st1"
    "ram st1 = paints d {(sint dx + int j, sint dy) | j. j < W \<and> font_bit bm (unat base_bit + h * W + j)} c (ram st)"
    by auto
  have "Suc h + n = m" using Suc.prems by simp
  from Suc.IH [OF this, of st1] obtain st' where
    r: "draw_rows n (of_nat (Suc h)) bm g base_bit dx y0 (\<lambda>x y. blit d x y c) st1 = Some st'"
    "ram st' = paints d {(sint dx + int j, sint y0 + sint (y_offset g) + int i) | i j. Suc h \<le> i \<and> i < m \<and> j < W \<and>
      font_bit bm (unat base_bit + i * W + j)} c (ram st1)" unfolding W_def by blast
  have "draw_rows (Suc n) (of_nat h) bm g base_bit dx y0 (\<lambda>x y. blit d x y c) st = Some st'"
    using r1(1) r(1) by (simp add: Let_def dy_def W_def add.commute)
  moreover have "{(sint dx + int j, sint y0 + sint (y_offset g) + int i) | i j. Suc h \<le> i \<and> i < m \<and> j < W \<and>
        font_bit bm (unat base_bit + i * W + j)} \<union> {(sint dx + int j, sint dy) | j. j < W \<and> font_bit bm (unat base_bit + h * W + j)} =
      {(sint dx + int j, sint y0 + sint (y_offset g) + int i) | i j. h \<le> i \<and> i < m \<and> j < W \<and>
        font_bit bm (unat base_bit + i * W + j)}"
    using hm by (auto simp: dy Suc_le_eq le_less)
  ultimately show ?case unfolding W_def [symmetric] by (intro exI [of _ st']) (simp only: r(2) r1(2) union simp_thms)
qed

lemma con_draw_glyph_spec:
  assumes "fits d" "con_fb k = Some fb" "dev fb = d" "ops fb = Some o'" "op_blit_pixel o' = Some blit" "con_font k = Some f"
    and "font_ok f" "g \<in> set (font_glyphs f)" "unat x < 2 ^ 27" "unat y < 2 ^ 27"
  shows "\<exists>st. con_draw_glyph k g x y = Some (k\<lparr>machine := st\<rparr>) \<and>
    ram st = paints d (glyph_pixels f g (int (unat x)) (int (unat y))) (color_fg k) (ram (machine k))"
proof -
  have f: "glyph_ok f g" "- 256 \<le> sint (baseline f)" "sint (baseline f) < 256" "length (font_bitmap f) < 2 ^ 20"
    using assms(7,8) by (auto simp: font_ok_def)
  have sx: "sint x = int (unat x)" "sint y = int (unat y)" by (rule sint_unat, use assms(9,10) in simp)+
  have "int (unat x) < int (2 ^ 27)" "int (unat y) < int (2 ^ 27)" using assms(9,10) by (simp_all only: of_nat_less_iff)
  then have xb: "0 \<le> sint x" "sint x < 2 ^ 27" "0 \<le> sint y" "sint y < 2 ^ 27" using sx by simp_all
  have dx: "sint (x + scast (x_offset g)) = sint x + sint (x_offset g)"
    using xb sint_u8 [of "x_offset g"] by (subst sint_add_small) (simp_all add: sint_scast8)
  have y0: "sint (y + baseline f) = sint y + sint (baseline f)"
    using xb f by (subst sint_add_small) simp_all
  define base_bit :: u32 where "base_bit = push_bit 3 (ucast (bitmap_offset g))"
  have bb: "unat base_bit = first_bit g"
  proof -
    have lt: "unat (bitmap_offset g) < 2 ^ LENGTH(16)" by (rule unsigned_less)
    then have "unat (ucast (bitmap_offset g) :: u32) = unat (bitmap_offset g)" by (simp add: unsigned_ucast_eq take_bit_nat_eq_self)
    with lt show ?thesis
      unfolding base_bit_def first_bit_def push_bit_eq_mult unat_word_ariths by simp
  qed
  define m where "m = unat (g_height g)"
  have m: "m < 256" using unsigned_less [of "g_height g"] by (simp add: m_def)
  obtain st where st: "draw_rows m 0 (font_bitmap f) g base_bit (x + scast (x_offset g)) (y + baseline f)
      (\<lambda>x y. blit d x y (color_fg k)) (machine k) = Some st"
    "ram st = paints d {(sint (x + scast (x_offset g)) + int j, sint (y + baseline f) + sint (y_offset g) + int i) | i j. i < m \<and>
      j < unat (g_width g) \<and> font_bit (font_bitmap f) (unat base_bit + i * unat (g_width g) + j)} (color_fg k) (ram (machine k))"
    using draw_rows_paint [OF assms(1), of base_bit m g "font_bitmap f" "x + scast (x_offset g)" "y + baseline f" 0 m
        "color_fg k" "machine k"] f xb sint_u8 [of "x_offset g"] m
    by (auto simp: glyph_ok_def bb m_def dx y0)
  have "{(sint (x + scast (x_offset g)) + int j, sint (y + baseline f) + sint (y_offset g) + int i) | i j. i < m \<and>
      j < unat (g_width g) \<and> font_bit (font_bitmap f) (unat base_bit + i * unat (g_width g) + j)} =
    glyph_pixels f g (int (unat x)) (int (unat y))"
    by (auto simp: glyph_pixels_def bb m_def dx y0 sx)
  then show ?thesis using st assms by (auto simp: con_draw_glyph_def Let_def base_bit_def m_def)
qed

end

end
