(* ===== verification/ConsoleInv.thy ===== *)
theory ConsoleInv
  imports ConsoleSpec
begin

text \<open>
  The invariant of the console and the operations that move the cursor, scroll and write, again for any driver:
  every write returns, keeps the cursor on the screen and leaves the memory outside the framebuffer alone.
\<close>

section \<open>The invariant\<close>

text \<open>
  \<open>con_inv o' fits d f k\<close>: the console shows a framebuffer \<open>d\<close> with operations \<open>o'\<close> and has font \<open>f\<close>; the screen holds
  two lines and a blank, and the cursor is on it.
\<close>

definition con_inv :: "fb_ops \<Rightarrow> (fbdev \<Rightarrow> bool) \<Rightarrow> fbdev \<Rightarrow> kfont \<Rightarrow> kernel_console \<Rightarrow> bool" where
  "con_inv o' fits d f k \<longleftrightarrow> (\<exists>p. con_fb k = Some \<lparr>dev = d, ops = Some o', fb_private = p\<rparr>) \<and> fits d \<and>
     con_font k = Some f \<and> font_ok f \<and> cell_h k = ucast (pixel_h f) \<and> fb_w k = fb_width d \<and> fb_h k = fb_height d \<and>
     unat (fb_width d) < 2 ^ 27 \<and> unat (fb_height d) < 2 ^ 27 \<and> 2 * unat (pixel_h f) \<le> unat (fb_height d) \<and>
     unat (x_advance (font_glyphs f ! 0)) \<le> unat (fb_width d) \<and> con_cx k < fb_w k \<and> con_cy k < fb_h k"

definition accepted :: "u8 \<Rightarrow> bool" where
  "accepted c \<longleftrightarrow> 0x20 \<le> c \<and> c \<le> 0x7E \<or> c \<in> {0x0D, 0x0A, 0x09, 0x08}"

definition glyph_of :: "kfont \<Rightarrow> u8 \<Rightarrow> font_glyph" where
  "glyph_of f c = font_glyphs f ! unat (c - 0x20)"

definition advance :: "kfont \<Rightarrow> u8 \<Rightarrow> nat" where "advance f c = unat (x_advance (glyph_of f c))"

text \<open>The pixels of a text whose first glyph starts at \<open>(x, y)\<close>.\<close>

primrec text_pixels :: "kfont \<Rightarrow> u8 list \<Rightarrow> nat \<Rightarrow> nat \<Rightarrow> (int \<times> int) set" where
  "text_pixels f [] x y = {}"
| "text_pixels f (c # cs) x y = text_pixels f cs (x + advance f c) y \<union> glyph_pixels f (glyph_of f c) (int x) (int y)"

lemma glyph_index:
  assumes "font_ok f" "\<not> (c < 0x20 \<or> c > 0x7E)"
  shows "nth_opt (font_glyphs f) (unat (c - 0x20)) = Some (glyph_of f c)" "glyph_of f c \<in> set (font_glyphs f)"
proof -
  have "unat (c - 0x20) = unat c - unat (0x20 :: u8)" using assms(2) by (intro unat_sub) (simp add: not_less)
  moreover have "unat c \<le> 126" using assms(2) by (simp add: word_less_nat_alt)
  ultimately have "unat (c - 0x20) < 95" by simp
  then show "nth_opt (font_glyphs f) (unat (c - 0x20)) = Some (glyph_of f c)" "glyph_of f c \<in> set (font_glyphs f)"
    using assms(1) by (simp_all add: glyph_of_def font_ok_def)
qed

lemma unat_add_small:
  fixes a b :: "32 word"
  assumes "unat a + unat b < 2 ^ 32"
  shows "unat (a + b) = unat a + unat b"
  using assms by (simp add: unat_word_ariths)

lemma blank_width_ok: "font_ok f \<Longrightarrow> unat (blank_width k (font_glyphs f ! 0)) = unat (x_advance (font_glyphs f ! 0)) \<and>
    blank_width k (font_glyphs f ! 0) \<noteq> 0"
  by (auto simp: blank_width_def font_ok_def Let_def unat_ucast_8_32 simp flip: unat_eq_zero)

text \<open>Two consoles with the same settings, whose memory differs on the screen only.\<close>

definition same_screen :: "fbdev \<Rightarrow> kernel_console \<Rightarrow> kernel_console \<Rightarrow> bool" where
  "same_screen d k k' \<longleftrightarrow> con_fb k' = con_fb k \<and> con_font k' = con_font k \<and> color_fg k' = color_fg k \<and> color_bg k' = color_bg k \<and>
     cell_w k' = cell_w k \<and> cell_h k' = cell_h k \<and> fb_w k' = fb_w k \<and> fb_h k' = fb_h k \<and>
     (\<forall>a. \<not> on_fb d a \<longrightarrow> ram (machine k') a = ram (machine k) a)"

lemma same_screen_refl [simp]: "same_screen d k k" by (simp add: same_screen_def)

lemma same_screen_trans: "same_screen d k k' \<Longrightarrow> same_screen d k' k'' \<Longrightarrow> same_screen d k k''"
  by (auto simp: same_screen_def)

lemma same_screen_cursor [simp]: "same_screen d k (k\<lparr>con_cx := x\<rparr>)" "same_screen d k (k\<lparr>con_cy := y\<rparr>)"
  by (simp_all add: same_screen_def)

lemma con_inv_same:
  assumes "con_inv o' fits d f k" "same_screen d k k'" "con_cx k' < fb_w k'" "con_cy k' < fb_h k'"
  shows "con_inv o' fits d f k'"
  using assms by (simp add: con_inv_def same_screen_def)

lemma con_invD:
  assumes "con_inv o' fits d f k"
  shows "\<exists>p. con_fb k = Some \<lparr>dev = d, ops = Some o', fb_private = p\<rparr>" "fits d" "con_font k = Some f" "font_ok f"
    "cell_h k = ucast (pixel_h f)" "fb_w k = fb_width d" "fb_h k = fb_height d" "con_cx k < fb_w k" "con_cy k < fb_h k"
    "unat (fb_width d) < 2 ^ 27" "unat (fb_height d) < 2 ^ 27" "2 * unat (pixel_h f) \<le> unat (fb_height d)"
    "unat (x_advance (font_glyphs f ! 0)) \<le> unat (fb_w k)"
  using assms unfolding con_inv_def by (blast, blast, blast, blast, blast, blast, blast, blast, blast, blast, blast, blast, metis)

context fb_driver
begin

abbreviation driver_ops :: "fb_ops \<Rightarrow> bool" where
  "driver_ops o' \<equiv> op_blit_pixel o' = Some blit \<and> op_fill_rect o' = Some fill \<and> op_scroll o' = Some scrl"

lemma con_ctrl_newl_ok:
  assumes "driver_ops o'" "con_inv o' fits d f k0" "same_screen d k0 k" "con_cy k < fb_h k"
  shows "\<exists>k'. con_ctrl_newl k = Some k' \<and> con_inv o' fits d f k' \<and> same_screen d k k' \<and> con_cx k' = 0 \<and>
    (unat (con_cy k) + unat (pixel_h f) < unat (fb_h k) \<longrightarrow> unat (con_cy k') = unat (con_cy k) + unat (pixel_h f) \<and> machine k' = machine k) \<and>
    (unat (fb_h k) \<le> unat (con_cy k) + unat (pixel_h f) \<longrightarrow> unat (con_cy k') + unat (pixel_h f) = unat (con_cy k))"
proof -
  obtain p where i: "con_fb k = Some \<lparr>dev = d, ops = Some o', fb_private = p\<rparr>" "fits d" "cell_h k = ucast (pixel_h f)"
    "fb_w k = fb_width d" "fb_h k = fb_height d" "unat (fb_height d) < 2 ^ 27" "2 * unat (pixel_h f) \<le> unat (fb_height d)"
    "con_cx k0 < fb_w k0" "fb_w k = fb_w k0"
    using assms(2,3) by (auto simp: con_inv_def same_screen_def)
  have cw: "0 < fb_w k" using i(8,9) by (auto simp: word_less_nat_alt)
  have cy: "unat (con_cy k) < unat (fb_height d)" using assms(4) i(5) by (simp add: word_less_nat_alt)
  have ch: "unat (cell_h k) = unat (pixel_h f)" using i(3) by (simp add: unat_ucast_8_32)
  have ph: "unat (pixel_h f) < 256" using unsigned_less [of "pixel_h f"] by simp
  have add: "unat (con_cy k + cell_h k) = unat (con_cy k) + unat (pixel_h f)"
    using cy ch ph i(6) by (subst unat_add_small) simp_all
  show ?thesis
  proof (cases "unat (con_cy k) + unat (pixel_h f) < unat (fb_h k)")
    case True
    then have "\<not> con_cy k + cell_h k \<ge> fb_h k" by (simp add: word_le_nat_alt add)
    then have n: "con_ctrl_newl k = Some (k\<lparr>con_cx := 0, con_cy := con_cy k + cell_h k\<rparr>)"
      by (simp add: con_ctrl_newl_def con_ctrl_carriage_ret_def)
    have s: "same_screen d k (k\<lparr>con_cx := 0, con_cy := con_cy k + cell_h k\<rparr>)" by (simp add: same_screen_def)
    have "con_inv o' fits d f (k\<lparr>con_cx := 0, con_cy := con_cy k + cell_h k\<rparr>)"
      by (rule con_inv_same [OF assms(2) same_screen_trans [OF assms(3) s]]) (use cw True add in \<open>simp_all add: word_less_nat_alt\<close>)
    then show ?thesis using n s True add by (intro exI [of _ "k\<lparr>con_cx := 0, con_cy := con_cy k + cell_h k\<rparr>"]) simp
  next
    case False
    define k' where "k' = k\<lparr>con_cx := 0, machine := scrl d (cell_h k) (machine k), con_cy := con_cy k - cell_h k\<rparr>"
    have ge: "con_cy k + cell_h k \<ge> fb_h k" using False by (simp add: word_le_nat_alt add)
    then have n: "con_ctrl_newl k = Some k'"
      using assms(1) i(1) by (simp add: con_ctrl_newl_def con_ctrl_carriage_ret_def con_scroll_def con_scroll_by_def k'_def)
    have le: "unat (cell_h k) \<le> unat (con_cy k)" using False i(7) ch unfolding i(5) by linarith
    then have sub: "unat (con_cy k - cell_h k) = unat (con_cy k) - unat (pixel_h f)"
      using unat_sub [of "cell_h k" "con_cy k"] by (simp add: word_le_nat_alt ch)
    have "unat (cell_h k) \<le> unat (fb_height d)" using ch i(7) by simp
    then have s: "same_screen d k k'" using scrolls [OF i(2)] by (simp add: same_screen_def k'_def)
    have "con_inv o' fits d f k'"
      by (rule con_inv_same [OF assms(2) same_screen_trans [OF assms(3) s]]) (use cw cy i(5) sub in \<open>simp_all add: word_less_nat_alt k'_def\<close>)
    then show ?thesis using n s False sub le ch by (intro exI [of _ k']) (simp add: k'_def)
  qed
qed

lemma con_ctrl_tab_ok:
  assumes "driver_ops o'" "con_inv o' fits d f k"
  shows "\<exists>k'. con_ctrl_tab k = Some k' \<and> con_inv o' fits d f k' \<and> same_screen d k k'"
proof -
  note f = con_invD(3,4,10,6,8,9) [OF assms(2)]
  have g: "nth_opt (font_glyphs f) 0 = Some (font_glyphs f ! 0)" using f(2) by (simp add: font_ok_def)
  define t where "t = blank_width k (font_glyphs f ! 0) * KCONSOLE_TABSTOP"
  show ?thesis
  proof (cases "t = 0")
    case True
    then show ?thesis using f(1) g assms(2) by (simp add: con_ctrl_tab_def t_def Let_def)
  next
    case False
    define k1 where "k1 = k\<lparr>con_cx := con_cx k + (t - con_cx k mod t)\<rparr>"
    have s: "same_screen d k k1" by (simp add: k1_def)
    have e: "con_ctrl_tab k = (if con_cx k1 \<ge> fb_w k1 then con_ctrl_newl k1 else Some k1)"
      using f(1) g False by (simp add: con_ctrl_tab_def t_def Let_def k1_def)
    show ?thesis
    proof (cases "con_cx k1 \<ge> fb_w k1")
      case True
      have "con_cy k1 < fb_h k1" using f(6) by (simp add: k1_def)
      from con_ctrl_newl_ok [OF assms s this] obtain k' where
        "con_ctrl_newl k1 = Some k'" "con_inv o' fits d f k'" "same_screen d k1 k'" by blast
      then show ?thesis using e True same_screen_trans [OF s] by auto
    next
      case False
      then have "con_inv o' fits d f k1" using f(6) by (intro con_inv_same [OF assms(2) s]) (simp_all add: k1_def)
      then show ?thesis using e False s by auto
    qed
  qed
qed

lemma con_fill_glyph_ok:
  assumes "driver_ops o'" "con_inv o' fits d f k0" "same_screen d k0 k"
  shows "\<exists>st. con_fill_glyph k g x y = Some (k\<lparr>machine := st\<rparr>) \<and> same_screen d k (k\<lparr>machine := st\<rparr>)"
proof -
  obtain p where i: "con_fb k = Some \<lparr>dev = d, ops = Some o', fb_private = p\<rparr>" "fits d"
    using assms(2,3) by (auto simp: con_inv_def same_screen_def)
  define a where "a = (case g of None \<Rightarrow> (cell_w k, cell_h k) | Some g \<Rightarrow> (ucast (g_width g), ucast (g_height g)))"
  define st where "st = (if sint x < 0 \<or> sint y < 0 then machine k else fill d x y (fst a) (snd a) (color_bg k) (machine k))"
  have "con_fill_glyph k g x y = Some (k\<lparr>machine := st\<rparr>)"
    using assms(1) i(1) by (simp add: con_fill_glyph_def st_def a_def [symmetric] Let_def case_prod_beta)
  moreover have "same_screen d k (k\<lparr>machine := st\<rparr>)" using fills [OF i(2)] by (simp add: same_screen_def st_def)
  ultimately show ?thesis by blast
qed

lemma con_ctrl_backspace_ok:
  assumes "driver_ops o'" "con_inv o' fits d f k"
  shows "\<exists>k'. con_ctrl_backspace k = Some k' \<and> con_inv o' fits d f k' \<and> same_screen d k k'"
proof -
  note f = con_invD(3,4,8,9,13) [OF assms(2)]
  have g: "nth_opt (font_glyphs f) 0 = Some (font_glyphs f ! 0)" using f(2) by (simp add: font_ok_def)
  define b where "b = blank_width k (font_glyphs f ! 0)"
  have b: "unat b \<le> unat (fb_w k)" "b \<noteq> 0" using blank_width_ok [OF f(2), of k] f(5) by (simp_all add: b_def)
  have put: "\<exists>k'. con_fill_glyph k1 (Some (font_glyphs f ! 0)) (con_cx k1) (con_cy k1) = Some k' \<and> con_inv o' fits d f k' \<and> same_screen d k k'"
    if "same_screen d k k1" "con_cx k1 < fb_w k1" "con_cy k1 < fb_h k1" for k1
  proof -
    from con_fill_glyph_ok [OF assms that(1)] obtain st where
      st: "con_fill_glyph k1 (Some (font_glyphs f ! 0)) (con_cx k1) (con_cy k1) = Some (k1\<lparr>machine := st\<rparr>)"
      "same_screen d k1 (k1\<lparr>machine := st\<rparr>)" by blast
    have s: "same_screen d k (k1\<lparr>machine := st\<rparr>)" by (rule same_screen_trans [OF that(1) st(2)])
    have "con_inv o' fits d f (k1\<lparr>machine := st\<rparr>)" by (rule con_inv_same [OF assms(2) s]) (use that in simp_all)
    then show ?thesis using st(1) s by auto
  qed
  consider (left) "con_cx k \<ge> b" | (up) "\<not> con_cx k \<ge> b" "con_cy k \<ge> cell_h k" | (home) "\<not> con_cx k \<ge> b" "\<not> con_cy k \<ge> cell_h k"
    by blast
  then show ?thesis
  proof cases
    case left
    have "con_cx k - b \<le> con_cx k" using left by (simp add: word_le_nat_alt unat_sub)
    then have "con_cx k - b < fb_w k" using f(3) by (rule order.strict_trans1)
    then show ?thesis
      using put [of "k\<lparr>con_cx := con_cx k - b\<rparr>"] f(1,4) g left by (simp add: con_ctrl_backspace_def b_def Let_def)
  next
    case up
    have "con_cy k - cell_h k \<le> con_cy k" using up(2) by (simp add: word_le_nat_alt unat_sub)
    then have "con_cy k - cell_h k < fb_h k" using f(4) by (rule order.strict_trans1)
    moreover have "fb_w k - b < fb_w k"
      using b by (simp add: word_less_nat_alt word_le_nat_alt unat_sub) (simp flip: unat_gt_0)
    ultimately show ?thesis
      using put [of "k\<lparr>con_cy := con_cy k - cell_h k, con_cx := fb_w k - b\<rparr>"] f(1) g up
      by (simp add: con_ctrl_backspace_def b_def Let_def same_screen_def)
  next
    case home
    then show ?thesis using f(1) g assms(2) by (simp add: con_ctrl_backspace_def b_def Let_def)
  qed
qed

text \<open>A printable character: its glyph is painted at the cursor, which then moves on.\<close>

lemma con_draw_ok:
  assumes "driver_ops o'" "con_inv o' fits d f k" "g \<in> set (font_glyphs f)"
  shows "\<exists>st. con_draw_glyph k g (con_cx k) (con_cy k) = Some (k\<lparr>machine := st\<rparr>) \<and>
    ram st = paints d (glyph_pixels f g (int (unat (con_cx k))) (int (unat (con_cy k)))) (color_fg k) (ram (machine k)) \<and>
    same_screen d k (k\<lparr>machine := st\<rparr>)"
proof -
  note i = con_invD [OF assms(2)]
  obtain p where p: "con_fb k = Some \<lparr>dev = d, ops = Some o', fb_private = p\<rparr>" using i(1) by blast
  have c: "unat (con_cx k) < 2 ^ 27" "unat (con_cy k) < 2 ^ 27"
    using i(6-11) by (simp_all add: word_less_nat_alt)
  have o': "op_blit_pixel o' = Some blit" using assms(1) by blast
  obtain st where st: "con_draw_glyph k g (con_cx k) (con_cy k) = Some (k\<lparr>machine := st\<rparr>)"
    "ram st = paints d (glyph_pixels f g (int (unat (con_cx k))) (int (unat (con_cy k)))) (color_fg k) (ram (machine k))"
    using con_draw_glyph_spec [OF i(2) p _ _ o' i(3,4) assms(3) c] by auto
  then have "same_screen d k (k\<lparr>machine := st\<rparr>)" using outside by (simp add: same_screen_def)
  then show ?thesis using st by blast
qed

lemma kcon_write_loop_ok:
  assumes "driver_ops o'" "con_inv o' fits d f k"
  shows "\<exists>k'. kcon_write_loop (Some f) cs k n = Some (k', n + int (length [c \<leftarrow> cs. accepted c])) \<and>
    con_inv o' fits d f k' \<and> same_screen d k k'"
  using assms(2)
proof (induction cs arbitrary: k n)
  case Nil
  then show ?case by simp
next
  case (Cons c cs)
  have line: "\<exists>k1. (if con_cy k \<ge> fb_h k - cell_h k then con_ctrl_newl k else Some k) = Some k1 \<and>
      con_inv o' fits d f k1 \<and> same_screen d k k1"
    using con_ctrl_newl_ok [OF assms(1) Cons.prems same_screen_refl con_invD(9) [OF Cons.prems]] Cons.prems by auto
  then obtain k1 where k1: "(if con_cy k \<ge> fb_h k - cell_h k then con_ctrl_newl k else Some k) = Some k1"
    "con_inv o' fits d f k1" "same_screen d k k1" by blast
  show ?case
  proof (cases "c < 0x20 \<or> c > 0x7E")
    case True
    have "\<exists>k2. con_ascii_ctrl k1 c = Some (k2, accepted c) \<and> con_inv o' fits d f k2 \<and> same_screen d k1 k2"
    proof -
      have cr: "con_inv o' fits d f (con_ctrl_carriage_ret k1)" "same_screen d k1 (con_ctrl_carriage_ret k1)"
      proof -
        show s: "same_screen d k1 (con_ctrl_carriage_ret k1)" by (simp add: con_ctrl_carriage_ret_def)
        have "0 < fb_w k1" using con_invD(8) [OF k1(2)] by (auto simp: word_less_nat_alt)
        then show "con_inv o' fits d f (con_ctrl_carriage_ret k1)"
          using con_invD(9) [OF k1(2)] by (intro con_inv_same [OF k1(2) s]) (simp_all add: con_ctrl_carriage_ret_def)
      qed
      have acc: "accepted c \<longleftrightarrow> c \<in> {0x0D, 0x0A, 0x09, 0x08}" using True by (auto simp: accepted_def)
      consider "c = 0x0D" | "c = 0x0A" | "c = 0x09" | "c = 0x08" | "c \<notin> {0x0D, 0x0A, 0x09, 0x08}" by blast
      then show ?thesis
      proof cases
        case 1 then show ?thesis using cr acc by (simp add: con_ascii_ctrl_def)
      next
        case 2 then show ?thesis
          using con_ctrl_newl_ok [OF assms(1) k1(2) same_screen_refl con_invD(9) [OF k1(2)]] acc by (auto simp: con_ascii_ctrl_def)
      next
        case 3 then show ?thesis using con_ctrl_tab_ok [OF assms(1) k1(2)] acc by (auto simp: con_ascii_ctrl_def)
      next
        case 4 then show ?thesis using con_ctrl_backspace_ok [OF assms(1) k1(2)] acc by (auto simp: con_ascii_ctrl_def)
      next
        case 5 then show ?thesis using k1(2) acc by (simp add: con_ascii_ctrl_def)
      qed
    qed
    then obtain k2 where k2: "con_ascii_ctrl k1 c = Some (k2, accepted c)" "con_inv o' fits d f k2" "same_screen d k1 k2" by blast
    from Cons.IH [OF k2(2), of "n + of_bool (accepted c)"] obtain k' where
      k': "kcon_write_loop (Some f) cs k2 (n + of_bool (accepted c)) = Some (k', n + of_bool (accepted c) + int (length [c \<leftarrow> cs. accepted c]))"
      "con_inv o' fits d f k'" "same_screen d k2 k'" by blast
    have "kcon_write_loop (Some f) (c # cs) k n = Some (k', n + int (length [c \<leftarrow> c # cs. accepted c]))"
      using True k1(1) k2(1) k'(1) by simp
    then show ?thesis using k'(2) same_screen_trans [OF k1(3) same_screen_trans [OF k2(3) k'(3)]] by blast
  next
    case False
    have acc: "accepted c" using False by (simp add: accepted_def not_less)
    note g = glyph_index [OF con_invD(4) [OF k1(2)] False]
    from con_draw_ok [OF assms(1) k1(2) g(2)] obtain st where
      st: "con_draw_glyph k1 (glyph_of f c) (con_cx k1) (con_cy k1) = Some (k1\<lparr>machine := st\<rparr>)"
      "same_screen d k1 (k1\<lparr>machine := st\<rparr>)" by blast
    define k2 where "k2 = k1\<lparr>machine := st, con_cx := con_cx k1 + ucast (x_advance (glyph_of f c))\<rparr>"
    have s2: "same_screen d k1 k2" using st(2) by (simp add: same_screen_def k2_def)
    have cy: "con_cy k2 < fb_h k2" using con_invD(9) [OF k1(2)] by (simp add: k2_def)
    have "\<exists>k3. (if con_cx k2 \<ge> fb_w k2 then con_ctrl_newl k2 else Some k2) = Some k3 \<and> con_inv o' fits d f k3 \<and> same_screen d k2 k3"
    proof (cases "con_cx k2 \<ge> fb_w k2")
      case True
      then show ?thesis using con_ctrl_newl_ok [OF assms(1) k1(2) s2 cy] by auto
    next
      case False
      then show ?thesis using con_inv_same [OF k1(2) s2 _ cy] by simp
    qed
    then obtain k3 where k3: "(if con_cx k2 \<ge> fb_w k2 then con_ctrl_newl k2 else Some k2) = Some k3"
      "con_inv o' fits d f k3" "same_screen d k2 k3" by blast
    from Cons.IH [OF k3(2), of "n + 1"] obtain k' where
      k': "kcon_write_loop (Some f) cs k3 (n + 1) = Some (k', n + 1 + int (length [c \<leftarrow> cs. accepted c]))"
      "con_inv o' fits d f k'" "same_screen d k3 k'" by blast
    have e: "con_cx k2 = con_cx k1 + ucast (x_advance (glyph_of f c))" "fb_w k2 = fb_w k1" by (simp_all add: k2_def)
    have "kcon_write_loop (Some f) (c # cs) k n = Some (k', n + int (length [c \<leftarrow> c # cs. accepted c]))"
      using False k1(1) g(1) st(1) k3(1) [unfolded e] k'(1) acc by (simp add: k2_def [symmetric])
    then show ?thesis
      using k'(2) same_screen_trans [OF k1(3) same_screen_trans [OF s2 same_screen_trans [OF k3(3) k'(3)]]] by blast
  qed
qed

text \<open>A text that fits behind the cursor, on a line with another below it.\<close>

lemma kcon_write_text:
  assumes "driver_ops o'" "con_inv o' fits d f k" "\<forall>c \<in> set cs. 0x20 \<le> c \<and> c \<le> 0x7E"
    and "unat (con_cx k) + sum_list (map (advance f) cs) < unat (fb_w k)" "unat (con_cy k) + unat (pixel_h f) < unat (fb_h k)"
  shows "\<exists>st. kcon_write_loop (Some f) cs k n =
      Some (k\<lparr>con_cx := con_cx k + of_nat (sum_list (map (advance f) cs)), machine := st\<rparr>, n + int (length cs)) \<and>
    ram st = paints d (text_pixels f cs (unat (con_cx k)) (unat (con_cy k))) (color_fg k) (ram (machine k))"
  using assms(2-)
proof (induction cs arbitrary: k n)
  case Nil
  then show ?case by (intro exI [of _ "machine k"]) (simp add: empty)
next
  case (Cons c cs)
  note i = con_invD [OF Cons.prems(1)]
  have pr: "\<not> (c < 0x20 \<or> c > 0x7E)" using Cons.prems(2) by (simp add: not_less)
  note g = glyph_index [OF i(4) pr]
  have ch: "unat (cell_h k) = unat (pixel_h f)" using i(5) by (simp add: unat_ucast_8_32)
  have "unat (fb_h k - cell_h k) = unat (fb_h k) - unat (pixel_h f)"
    using i(7,12) ch by (subst unat_sub) (simp_all add: word_le_nat_alt)
  then have line: "\<not> con_cy k \<ge> fb_h k - cell_h k" using Cons.prems(4) by (simp add: word_le_nat_alt)
  from con_draw_ok [OF assms(1) Cons.prems(1) g(2)] obtain st where
    st: "con_draw_glyph k (glyph_of f c) (con_cx k) (con_cy k) = Some (k\<lparr>machine := st\<rparr>)"
    "ram st = paints d (glyph_pixels f (glyph_of f c) (int (unat (con_cx k))) (int (unat (con_cy k)))) (color_fg k) (ram (machine k))"
    "same_screen d k (k\<lparr>machine := st\<rparr>)" by blast
  define k2 where "k2 = k\<lparr>machine := st, con_cx := con_cx k + ucast (x_advance (glyph_of f c))\<rparr>"
  have adv: "unat (ucast (x_advance (glyph_of f c)) :: u32) = advance f c" by (simp add: advance_def unat_ucast_8_32)
  have sm: "unat (con_cx k) + advance f c + sum_list (map (advance f) cs) < unat (fb_w k)" using Cons.prems(3) by simp
  have fw: "unat (fb_w k) < 2 ^ 27" using i(6,10) by simp
  have cx: "unat (con_cx k2) = unat (con_cx k) + advance f c"
    unfolding k2_def using sm fw adv by (simp add: unat_add_small)
  have in_line: "con_cx k2 < fb_w k2" using sm cx by (simp add: word_less_nat_alt k2_def)
  have s2: "same_screen d k k2" using st(3) by (simp add: same_screen_def k2_def)
  have inv2: "con_inv o' fits d f k2" using in_line i(9) by (intro con_inv_same [OF Cons.prems(1) s2]) (simp_all add: k2_def)
  have "\<forall>c \<in> set cs. 0x20 \<le> c \<and> c \<le> 0x7E" "unat (con_cx k2) + sum_list (map (advance f) cs) < unat (fb_w k2)"
    "unat (con_cy k2) + unat (pixel_h f) < unat (fb_h k2)"
    using Cons.prems(2,4) sm cx by (simp_all add: k2_def)
  from Cons.IH [OF inv2 this, of "n + 1"] obtain st' where
    r: "kcon_write_loop (Some f) cs k2 (n + 1) =
      Some (k2\<lparr>con_cx := con_cx k2 + of_nat (sum_list (map (advance f) cs)), machine := st'\<rparr>, n + 1 + int (length cs))"
    "ram st' = paints d (text_pixels f cs (unat (con_cx k2)) (unat (con_cy k2))) (color_fg k2) (ram (machine k2))" by blast
  have uc: "ucast (x_advance (glyph_of f c)) = (of_nat (advance f c) :: u32)" unfolding adv [symmetric] by simp
  have "\<not> fb_w k \<le> con_cx k + ucast (x_advance (glyph_of f c))" using in_line by (simp add: k2_def not_le)
  then have "kcon_write_loop (Some f) (c # cs) k n = kcon_write_loop (Some f) cs k2 (n + 1)"
    using pr line g(1) st(1) by (simp add: k2_def)
  then have "kcon_write_loop (Some f) (c # cs) k n =
      Some (k\<lparr>con_cx := con_cx k + of_nat (sum_list (map (advance f) (c # cs))), machine := st'\<rparr>, n + int (length (c # cs)))"
    unfolding r(1) by (simp add: k2_def uc add_ac)
  moreover have "ram st' = paints d (text_pixels f (c # cs) (unat (con_cx k)) (unat (con_cy k))) (color_fg k) (ram (machine k))"
    unfolding r(2) cx by (simp add: k2_def st(2) union)
  ultimately show ?case by blast
qed

end

end
