(* ===== verification/FbCon.thy ===== *)
theory FbCon
  imports Console Bootparams Vmalloc
begin

text \<open>
  Bringing up the console: \<^verbatim>\<open>fbcon_display_init\<close> of \<^verbatim>\<open>kernel/drivers/video/framebuffer.c\<close> maps the framebuffer and
  chooses its driver, \<^verbatim>\<open>kcon_init\<close> of \<^verbatim>\<open>kernel/io/console.c\<close> installs it with a font and prints, and \<^verbatim>\<open>vprintk\<close>
  writes to the console. A panic is \<open>Inl\<close> of its message.
\<close>

definition VM_FG_RW :: u32 where "VM_FG_RW = VM_READ OR VM_WRITE"
definition VM_FG_CODE :: u32 where "VM_FG_CODE = VM_READ OR VM_EXEC"
definition VM_FG_HEAP :: u32 where "VM_FG_HEAP = VM_READ OR VM_WRITE OR VM_ANON"
definition VM_FG_STACK :: u32 where "VM_FG_STACK = VM_READ OR VM_WRITE OR VM_ANON OR VM_GROWSDOWN"
definition VM_FG_MMIO_FLAGS :: u32 where "VM_FG_MMIO_FLAGS = VM_FG_RW OR VM_IO"

definition kernel_framebuffer_init :: framebuffer where
  "kernel_framebuffer_init =
     \<lparr>dev = \<lparr>fb_base = 0, fb_width = 0, fb_height = 0, fb_pitch = 0, fb_bpp = 0\<rparr>, ops = None, fb_private = 0\<rparr>"

definition fbcon_display_init ::
  "kvm \<Rightarrow> kboot_info \<Rightarrow> framebuffer \<Rightarrow> (string + kvm \<times> kboot_info \<times> framebuffer) option" where
  "fbcon_display_init kv boot_info kfb = do {
     let info = bi_fb boot_info;
     let flags = VM_FG_MMIO_FLAGS OR VM_WRITE_THROUGH OR VM_NOCACHE;
     let efi = (bi_bootenv boot_info > KERN_BOOT_TYPE_BIOS);
     let flags = (if efi then flags AND NOT VM_NOCACHE else flags);
     let fn_fb_init = (if efi then Some gop_fb_init else None);
     let d = (dev kfb)\<lparr>fb_height := fbi_height info, fb_width := fbi_width info, fb_bpp := fbi_bpp info,
       fb_pitch := fbi_pitch info\<rparr>;
     (kv, addr) \<leftarrow> ioremap kv (fbi_phys info) (ucast (fbi_height info * fbi_pitch info)) flags;
     if addr = 0 then Some (Inl ''ioremap fbcon failure!'')
     else
       let kfb = kfb\<lparr>dev := d\<lparr>fb_base := addr\<rparr>\<rparr>;
           boot_info = boot_info\<lparr>bi_fb := info\<lparr>fbi_virt := addr\<rparr>\<rparr>;
           kfb = (case fn_fb_init of Some init \<Rightarrow> init kfb | None \<Rightarrow> kfb)
       in Some (Inr (kv, boot_info, kfb)) }"

text \<open>\<^verbatim>\<open>vprintk\<close> and \<^verbatim>\<open>printk\<close> with the console they write to.\<close>

definition con_printk :: "kernel_console \<Rightarrow> int \<Rightarrow> int \<Rightarrow> u64 \<Rightarrow> u64 list \<Rightarrow> (kernel_console \<times> int) option" where
  "con_printk k kern_log_level lvl fmt args = do {
     (st, buf, ret) \<leftarrow> vprintk (machine k) kern_log_level lvl fmt args;
     let k = k\<lparr>machine := st\<rparr>;
     k \<leftarrow> (case buf of None \<Rightarrow> Some k | Some cs \<Rightarrow> map_option fst (kcon_write k (Some cs)));
     Some (k, ret) }"

text \<open>\<open>lit\<close> is the address of the message.\<close>

definition kcon_init ::
  "int \<Rightarrow> u64 \<Rightarrow> kvm \<Rightarrow> kboot_info \<Rightarrow> framebuffer \<Rightarrow> kernel_console \<Rightarrow>
    (string + kvm \<times> kboot_info \<times> framebuffer \<times> kernel_console) option" where
  "kcon_init kern_log_level lit kv boot_info kfb k = do {
     r \<leftarrow> fbcon_display_init kv boot_info kfb;
     case r of Inl msg \<Rightarrow> Some (Inl msg)
     | Inr (kv, boot_info, fb) \<Rightarrow> do {
         let k = kcon_setframebuffer k (Some fb);
         let k = kcon_setfont k (Some FONT_IBM_3270_16PX);
         (k, _) \<leftarrow> con_printk k kern_log_level 2 lit [];
         Some (Inr (kv, boot_info, fb, k)) } }"

end
