(* ===== verification/ConsoleProps.thy ===== *)
theory ConsoleProps
  imports ConsoleInv FbCon PageProps
begin

text \<open>
  The claims about framebuffer and console, on the driver of \<^verbatim>\<open>gop.c\<close> and the fonts of \<^verbatim>\<open>font.c\<close>.
\<close>

section \<open>The fonts of the kernel\<close>

definition fits16 :: "nat \<Rightarrow> u16 \<times> u8 \<times> u8 \<times> u8 \<times> u8 \<times> u8 \<Rightarrow> bool" where
  "fits16 n = (\<lambda>(off, w, h, adv, xo, yo).
     8 * unat off + unat h * unat w \<le> 8 * n \<and> 0 \<le> 12 + sint yo \<and> 12 + sint yo + int (unat h) \<le> 16)"

lemma font_ok_16:
  assumes "baseline f = 12" "pixel_h f = 16" "length (font_bitmap f) = n" "n < 2 ^ 20" "font_glyphs f = map glyph (t # ts)"
    and "length ts = 94" "list_all (fits16 n) (t # ts)" "g_width (glyph t) = 0" "0 < unat (x_advance (glyph t))"
  shows "font_ok f"
proof -
  have e: "glyph_ok f (glyph t) \<longleftrightarrow> fits16 n t" for t
    by (cases t) (simp add: glyph_ok_def fits16_def glyph_def first_bit_def assms(1-3))
  show ?thesis using assms(4,7) unfolding font_ok_def assms(1-3,5) list_all_iff
    by (simp add: e assms(1,2,3,4,6,8,9))
qed

lemma font_3270_ok: "font_ok FONT_IBM_3270_16PX"
proof -
  have "font_glyphs FONT_IBM_3270_16PX = ibm3270_regular_16px_1b_glyphs" by (simp add: FONT_IBM_3270_16PX_def)
  from font_ok_16 [OF _ _ _ _ trans [OF this ibm3270_regular_16px_1b_glyphs_def], of 609] show ?thesis
    by (simp add: FONT_IBM_3270_16PX_def ibm3270_regular_16px_1b_bitmaps_def fits16_def glyph_def)
qed

lemma font_px437_ok: "font_ok FONT_PX437_IBM_8X16"
proof -
  have "font_glyphs FONT_PX437_IBM_8X16 = px437_ibm_vga_8x16_16px_1b_glyphs" by (simp add: FONT_PX437_IBM_8X16_def)
  from font_ok_16 [OF _ _ _ _ trans [OF this px437_ibm_vga_8x16_16px_1b_glyphs_def], of 680] show ?thesis
    by (simp add: FONT_PX437_IBM_8X16_def px437_ibm_vga_8x16_16px_1b_bitmaps_def fits16_def glyph_def)
qed

section \<open>A concrete console\<close>

lemma gop_driver: "op_blit_pixel gop_funcs = Some gop_blit \<and> op_fill_rect gop_funcs = Some gop_fill_rect \<and> op_scroll gop_funcs = Some gop_scroll"
  by (simp add: gop_funcs_def)

definition demo_dev :: fbdev where
  "demo_dev = \<lparr>fb_base = 0xFFFFC00000000000, fb_width = 640, fb_height = 400, fb_pitch = 2560, fb_bpp = 32\<rparr>"

definition demo_con :: kernel_console where
  "demo_con = kcon_setfont (kcon_setframebuffer (kconsole_init \<lparr>ram = (\<lambda>_. 0), df = False\<rparr>)
     (Some (gop_fb_init (kernel_framebuffer_init\<lparr>dev := demo_dev\<rparr>)))) (Some FONT_IBM_3270_16PX)"

lemma demo_fits: "fb_fits demo_dev" by (simp add: fb_fits_def demo_dev_def px_size_def screen_len_def)

lemma con_inv_installed:
  assumes "ops fb = Some gop_funcs" "fb_fits (dev fb)" "9 \<le> fb_width (dev fb)" "32 \<le> fb_height (dev fb)"
    and "unat (fb_width (dev fb)) < 2 ^ 27" "unat (fb_height (dev fb)) < 2 ^ 27"
  shows "con_inv gop_funcs fb_fits (dev fb) FONT_IBM_3270_16PX
    (kcon_setfont (kcon_setframebuffer (kconsole_init st) (Some fb)) (Some FONT_IBM_3270_16PX))"
proof -
  have "x_advance (font_glyphs FONT_IBM_3270_16PX ! 0) = 9" "pixel_h FONT_IBM_3270_16PX = 16"
    by (simp_all add: FONT_IBM_3270_16PX_def ibm3270_regular_16px_1b_glyphs_def glyph_def)
  moreover have "0 < fb_width (dev fb)" "0 < fb_height (dev fb)" using assms(3,4) by (auto simp: word_less_nat_alt word_le_nat_alt)
  moreover have "fb = \<lparr>dev = dev fb, ops = Some gop_funcs, fb_private = fb_private fb\<rparr>" using assms(1) by simp
  ultimately show ?thesis using assms(2-6) font_3270_ok
    by (auto simp: con_inv_def kconsole_init_def kcon_setfont_def kcon_setframebuffer_def word_le_nat_alt)
qed

lemma demo_con_inv: "con_inv gop_funcs fb_fits demo_dev FONT_IBM_3270_16PX demo_con"
  using con_inv_installed [of "gop_fb_init (kernel_framebuffer_init\<lparr>dev := demo_dev\<rparr>)"] demo_fits
  by (simp add: demo_con_def gop_fb_init_def demo_dev_def)

section \<open>A backspace erases nothing\<close>

lemma backspace_erases_nothing:
  assumes "con_inv gop_funcs fb_fits d f k" "g_height (font_glyphs f ! 0) = 0" "con_ctrl_backspace k = Some k'"
  shows "ram (machine k') = ram (machine k)"
proof -
  note i = con_invD [OF assms(1)]
  obtain p where p: "con_fb k = Some \<lparr>dev = d, ops = Some gop_funcs, fb_private = p\<rparr>" using i(1) by blast
  have g: "nth_opt (font_glyphs f) 0 = Some (font_glyphs f ! 0)" and w: "g_width (font_glyphs f ! 0) = 0"
    using i(4) by (simp_all add: font_ok_def)
  have none: "ram (gop_fill_rect d x y 0 0 c st) = ram st" for x y c st
    unfolding gop_fill_rect_bytes [OF i(2)] by (rule rect_bytes_none) (simp add: min_le_iff_disj le_max_iff_disj)
  have fill: "con_fill_glyph k1 (Some (font_glyphs f ! 0)) x y = Some k2 \<Longrightarrow> ram (machine k2) = ram (machine k1)"
    if "con_fb k1 = con_fb k" for k1 k2 x y
    using that p by (auto simp: con_fill_glyph_def gop_funcs_def w assms(2) none split: if_splits)
  show ?thesis
    using assms(3) i(3) g by (auto simp: con_ctrl_backspace_def Let_def split: if_splits dest!: fill [rotated])
qed

section \<open>Before the console is set up\<close>

lemma kcon_write_uninitialised: "kcon_write (kconsole_init st) (Some (c # cs)) = None"
  by (simp add: kcon_write_def kconsole_init_def con_ctrl_newl_def con_ctrl_carriage_ret_def con_scroll_def con_scroll_by_def)

section \<open>Mapping the framebuffer\<close>

lemma align_up_pages:
  assumes "n < 2 ^ 52"
  shows "PAGE_ALIGNUP (of_nat n) = pg ((n + 4095) div 4096)"
proof -
  have "of_nat n + 4095 = (of_nat (n + 4095) :: u64)" by simp
  also have "n + 4095 = 4096 * ((n + 4095) div 4096) + (n + 4095) mod 4096" by simp
  also have "of_nat \<dots> = pg ((n + 4095) div 4096) + of_nat ((n + 4095) mod 4096)" unfolding pg_def of_nat_add ..
  finally have "PAGE_ALIGNUP (of_nat n) = PAGE_ALIGNDOWN (pg ((n + 4095) div 4096) + of_nat ((n + 4095) mod 4096))"
    by (simp add: PAGE_ALIGNUP_def PAGE_ALIGNDOWN_def PAGESIZE_def)
  then show ?thesis using align_down_page [of "(n + 4095) mod 4096"] by simp
qed

lemma page_offset_split:
  "pg N + of_nat off + of_nat i = pg (N + (off + i) div 4096) + of_nat ((off + i) mod 4096)"
proof -
  have "of_nat (off + i) = (of_nat (4096 * ((off + i) div 4096) + (off + i) mod 4096) :: u64)" by simp
  then have "of_nat off + of_nat i = (of_nat (4096 * ((off + i) div 4096)) + of_nat ((off + i) mod 4096) :: u64)"
    unfolding of_nat_add .
  then show ?thesis by (simp add: pg_def algebra_simps)
qed

definition fbdev_at :: "bootparam_framebuf_info \<Rightarrow> u64 \<Rightarrow> fbdev" where
  "fbdev_at info a = \<lparr>fb_base = a, fb_width = fbi_width info, fb_height = fbi_height info, fb_pitch = fbi_pitch info,
     fb_bpp = fbi_bpp info\<rparr>"

lemma fbcon_display_spec:
  assumes i: "kvm_inv kv d t U F Up Fp" "F \<noteq> {}" and efi: "bi_bootenv bi \<noteq> KERN_BOOT_TYPE_BIOS"
    and phy: "fbi_phys (bi_fb bi) = pg P + of_nat off" "off < 4096"
    and len: "len = unat (fbi_height (bi_fb bi)) * unat (fbi_pitch (bi_fb bi))" "0 < len" "len < 2 ^ 32"
    and r: "r = (len + off + 4095) div 4096"
    and place: "vma_place (areas_of kv) (pg r) = Some (Some (pg N))" "pg r \<le> r_end (areas_of kv) - r_start (areas_of kv)"
    and k: "k = (r + 511) div 512" and ft: "N mod 512 = 0 \<or> N mod 512 + r \<le> 512" "N div 512 mod 512 + k \<le> 512" "0 < N" "N + r < 2 ^ 52"
    and P: "P + r \<le> 2 ^ 40" and small: "\<not> (IS_ALIGNED (pg P) SZ_2M \<and> IS_ALIGNED (pg N) SZ_2M \<and> IS_ALIGNED (pg r) SZ_2M)"
    and nl: "no_large (pages_of kv) N k" and Fp: "k + 2 \<le> card Fp"
  shows "\<exists>kv' bi' fb. fbcon_display_init kv bi fb0 = Some (Inr (kv', bi', fb)) \<and> ops fb = Some gop_funcs \<and>
    dev fb = fbdev_at (bi_fb bi) (pg N + of_nat off) \<and>
    (\<forall>n<len. kpt_get_phys (pages_of kv') (fb_base (dev fb) + of_nat n) = Some (fbi_phys (bi_fb bi) + of_nat n))"
proof -
  have "unat (fbi_height (bi_fb bi) * fbi_pitch (bi_fb bi)) = len" using len by (simp add: unat_word_ariths)
  then have l: "ucast (fbi_height (bi_fb bi) * fbi_pitch (bi_fb bi)) = (of_nat len :: u64)" by (simp only: ucast_of_unat)
  have al: "PAGE_ALIGNUP (of_nat len + of_nat off) = pg r"
    using align_up_pages [of "len + off"] len(3) phy(2) by (simp add: r)
  have r0: "0 < r" using len(2) by (simp add: r)
  define fl where "fl = (VM_FG_MMIO_FLAGS OR VM_WRITE_THROUGH OR VM_NOCACHE) AND NOT VM_NOCACHE"
  from ioremap_spec [OF i phy al r0 place k ft(1,2,4) P small nl Fp, of fl] obtain kv' where
    m: "ioremap kv (fbi_phys (bi_fb bi)) (of_nat len) fl = Some (kv', pg N + of_nat off)"
    "\<forall>j<r. \<forall>o' < 4096. kpt_get_phys (pages_of kv') (pg (N + j) + of_nat o') = Some (pg (P + j) + of_nat o')" by blast
  have "unat (pg N + of_nat off) = 4096 * N + off" using pageno_pg(2) [of N off] phy(2) ft(4) by simp
  then have nz: "pg N + of_nat off \<noteq> 0" using ft(3) by auto
  have "kpt_get_phys (pages_of kv') (pg N + of_nat off + of_nat n) = Some (pg P + of_nat off + of_nat n)" if "n < len" for n
  proof -
    have "off + n < r * 4096" using that r by (simp add: dividend_less_times_div)
    then have "(off + n) div 4096 < r" by (rule less_mult_imp_div_less)
    then show ?thesis unfolding page_offset_split using m(2) by simp
  qed
  then show ?thesis
    using m(1) nz efi by (simp add: fbcon_display_init_def l fl_def Let_def gop_fb_init_def fbdev_at_def phy(1))
qed

section \<open>Claims\<close>

text \<open>C33. \<^verbatim>\<open>gop_fill_rect\<close> clips the rectangle to the screen and writes three bytes for each of its points, red first and
  at three bytes a pixel: with 24 bits a pixel it paints exactly the clipped rectangle, red and blue exchanged.\<close>

theorem gop_fill_rect_correct:
  assumes "fb_fits d"
  shows "let x0 = max 0 (sint x); x1 = min (int (unat (fb_width d))) (sint (x + w));
             y0 = max 0 (sint y); y1 = min (int (unat (fb_height d))) (sint (y + h));
             m' = ram (gop_fill_rect d x y w h c st)
         in m' = rect_bytes d x0 x1 y0 y1 c (ram st) \<and>
            (px_size d = 3 \<longrightarrow> m' = painted d ({x0..<x1} \<times> {y0..<y1}) (c\<lparr>red := blue c, blue := red c\<rparr>) (ram st))"
  unfolding Let_def gop_fill_rect_bytes [OF assms] by (simp add: rect_bytes_24)

lemma gop_fill_rect_correct_witness:
  "ram (gop_fill_rect demo_dev 630 (- 2) 20 5 \<lparr>red = 1, green = 2, blue = 3, alpha = 0\<rparr> \<lparr>ram = (\<lambda>_. 0), df = False\<rparr>)
     0xFFFFC00000000762 = 1"
  using gop_fill_rect_correct [OF demo_fits, of 630 20 "- 2" 5 "\<lparr>red = 1, green = 2, blue = 3, alpha = 0\<rparr>" "\<lparr>ram = (\<lambda>_. 0), df = False\<rparr>",
    unfolded Let_def, THEN conjunct1]
  by (simp add: rect_bytes_def demo_dev_def screen_len_def rgb_def)

text \<open>C32. \<^verbatim>\<open>gop_scroll\<close> by at most the height moves every row up, clears the rows that become free at the bottom, and
  changes no byte outside the framebuffer.\<close>

theorem gop_scroll_correct:
  assumes "fb_fits d" "unat rows \<le> unat (fb_height d)"
  shows "let k = unat rows * unat (fb_pitch d); m' = ram (gop_scroll d rows st)
         in (\<forall>n < screen_len d. m' (fb_base d + of_nat n) =
              (if n + k < screen_len d then ram st (fb_base d + of_nat (n + k)) else 0)) \<and>
            (\<forall>a. \<not> on_fb d a \<longrightarrow> m' a = ram st a)"
proof -
  have "unat (of_nat n :: u64) = n" if "n < screen_len d" for n
    using that assms(1) by (intro unat_of_nat64) (simp add: fb_fits_def)
  then show ?thesis
    unfolding gop_scroll_bytes [OF assms] Let_def by (simp add: scrolled_def on_fb_def Let_def add.assoc)
qed

lemma gop_scroll_correct_witness:
  "ram (gop_scroll demo_dev 16 \<lparr>ram = (\<lambda>a. ucast (drop_bit 8 a)), df = False\<rparr>) 0xFFFFC00000000000 = 0xA0"
  using gop_scroll_correct [OF demo_fits, of 16 "\<lparr>ram = (\<lambda>a. ucast (drop_bit 8 a)), df = False\<rparr>", unfolded Let_def, THEN conjunct1, rule_format, of 0]
  by (simp add: demo_dev_def screen_len_def)

text \<open>C29. Writing a printable text that fits behind the cursor, on a line with room for another line below it, returns its length,
  moves the cursor behind it and paints exactly the pixels of its glyphs, side by side, in the foreground colour.\<close>

theorem kcon_write_prints:
  assumes "con_inv gop_funcs fb_fits d f k" "\<forall>c \<in> set cs. 0x20 \<le> c \<and> c \<le> 0x7E"
    and "unat (con_cx k) + sum_list (map (advance f) cs) < unat (fb_w k)" "unat (con_cy k) + unat (pixel_h f) < unat (fb_h k)"
  shows "\<exists>st. kcon_write k (Some cs) =
      Some (k\<lparr>con_cx := con_cx k + of_nat (sum_list (map (advance f) cs)), machine := st\<rparr>, int (length cs)) \<and>
    ram st = painted d (text_pixels f cs (unat (con_cx k)) (unat (con_cy k))) (color_fg k) (ram (machine k))"
  using gop.kcon_write_text [OF gop_driver assms, of 0] con_invD(3) [OF assms(1)] by (simp add: kcon_write_def)

text \<open>C30. Writing any bytes returns the number of those that are printable or one of the four control characters; the
  cursor stays on the screen, the settings stay, and no byte outside the framebuffer changes.\<close>

theorem kcon_write_safe:
  assumes "con_inv gop_funcs fb_fits d f k"
  shows "\<exists>k'. kcon_write k (Some cs) = Some (k', int (length [c \<leftarrow> cs. accepted c])) \<and> con_inv gop_funcs fb_fits d f k' \<and>
    same_screen d k k'"
  using gop.kcon_write_loop_ok [OF gop_driver assms, of cs 0] con_invD(3) [OF assms] by (simp add: kcon_write_def)

lemma kcon_write_safe_witness:
  "\<exists>k'. kcon_write demo_con (Some [0x48, 0x69, 0x0A, 0x07]) = Some (k', 3) \<and> con_cx k' < 640 \<and> con_cy k' < 400"
proof -
  from kcon_write_safe [OF demo_con_inv, of "[0x48, 0x69, 0x0A, 0x07]"] obtain k' where
    k': "kcon_write demo_con (Some [0x48, 0x69, 0x0A, 0x07]) = Some (k', int (length [c \<leftarrow> [0x48, 0x69, 0x0A, 0x07]. accepted c]))"
    "con_inv gop_funcs fb_fits demo_dev FONT_IBM_3270_16PX k'" by blast
  have "con_cx k' < fb_w k'" "con_cy k' < fb_h k'" "fb_w k' = 640" "fb_h k' = 400"
    using con_invD(6-9) [OF k'(2)] by (simp_all add: demo_dev_def)
  then show ?thesis using k'(1) by (intro exI [of _ k']) (simp add: accepted_def)
qed

lemma kcon_write_prints_witness:
  "\<exists>k'. kcon_write demo_con (Some [0x48, 0x69]) = Some (k', 2) \<and> con_cx k' = 18 \<and> ram (machine k') 0xFFFFC00000001404 = 255"
proof -
  let ?f = FONT_IBM_3270_16PX
  have g: "glyph_of ?f 0x48 = glyph (246, 7, 9, 9, 1, -10)" "glyph_of ?f 0x69 = glyph (475, 1, 10, 9, 4, -11)"
    "pixel_h ?f = 16" "baseline ?f = 12" "font_bitmap ?f = ibm3270_regular_16px_1b_bitmaps"
    by (simp_all add: glyph_of_def FONT_IBM_3270_16PX_def ibm3270_regular_16px_1b_glyphs_def)
  have c: "con_cx demo_con = 0" "con_cy demo_con = 0" "fb_w demo_con = 640" "fb_h demo_con = 400"
    "machine demo_con = \<lparr>ram = (\<lambda>_. 0), df = False\<rparr>" "color_fg demo_con = fb_rgba_color KCONSOLE_INIT_COLOR_FG"
    by (simp_all add: demo_con_def kconsole_init_def kcon_setfont_def kcon_setframebuffer_def gop_fb_init_def demo_dev_def)
  have a: "sum_list (map (advance ?f) [0x48, 0x69]) = 18" by (simp add: advance_def g glyph_def)
  have "\<exists>st. kcon_write demo_con (Some [0x48, 0x69]) =
        Some (demo_con\<lparr>con_cx := 0 + of_nat 18, machine := st\<rparr>, int (length [0x48 :: u8, 0x69])) \<and>
      ram st = painted demo_dev (text_pixels ?f [0x48, 0x69] (unat (0 :: u32)) (unat (0 :: u32))) (color_fg demo_con)
        (ram \<lparr>ram = (\<lambda>_. 0), df = False\<rparr>)"
    by (rule kcon_write_prints [OF demo_con_inv, of "[0x48, 0x69]", unfolded a c(1-5) g(3)]) simp_all
  then obtain st where
    w: "kcon_write demo_con (Some [0x48, 0x69]) = Some (demo_con\<lparr>con_cx := 0 + of_nat 18, machine := st\<rparr>, int (length [0x48 :: u8, 0x69]))"
    "ram st = painted demo_dev (text_pixels ?f [0x48, 0x69] (unat (0 :: u32)) (unat (0 :: u32))) (color_fg demo_con)
        (ram \<lparr>ram = (\<lambda>_. 0), df = False\<rparr>)" by blast
  have "ibm3270_regular_16px_1b_bitmaps ! 246 = 0x83" by (simp add: ibm3270_regular_16px_1b_bitmaps_def)
  then have "(1, 2) \<in> glyph_pixels ?f (glyph_of ?f 0x48) 0 0"
    unfolding glyph_pixels_def by (intro CollectI exI [of _ 0]) (simp add: g glyph_def font_bit_def first_bit_def)
  then have "(1, 2) \<in> text_pixels ?f [0x48, 0x69] (unat (0 :: u32)) (unat (0 :: u32))" by simp
  then have "ram st 0xFFFFC00000001404 = 255"
    unfolding w(2) c(6) by (simp add: painted_def demo_dev_def px_size_def screen_len_def chan_def fb_rgba_color_def
      KCONSOLE_INIT_COLOR_FG_def RGBA_def del: text_pixels.simps)
  then show ?thesis using w(1) by (intro exI [of _ "demo_con\<lparr>con_cx := 0 + of_nat 18, machine := st\<rparr>"]) simp
qed

text \<open>C31. On a UEFI system, and where the mapping is one that \<^verbatim>\<open>ioremap\<close> does right (a free object and a gap for the
  pages; physical base, place and size not all multiples of 2 MiB; the place within one last-level table or at the
  start of one, below a single 1 GiB entry and free of large pages; enough frames for the tables), \<^verbatim>\<open>fbcon_display_init\<close>
  maps the framebuffer the boot information describes: every byte of it translates to its physical address. If the
  screen has at least 24 bits a pixel, rows no longer than the pitch, less than 2^31 bytes and is 9 by 32 pixels or
  larger, the console with this framebuffer and the kernel's font satisfies the console's invariant, so that whatever
  is written afterwards stays within these bytes. A BIOS boot is excluded: it leaves the operations table null.\<close>

theorem fbcon_maps_framebuffer:
  assumes "kvm_inv kv d t U F Up Fp" "F \<noteq> {}" "bi_bootenv bi \<noteq> KERN_BOOT_TYPE_BIOS"
    and "fbi_phys (bi_fb bi) = pg P + of_nat off" "off < 4096"
    and "len = unat (fbi_height (bi_fb bi)) * unat (fbi_pitch (bi_fb bi))" "0 < len" "len < 2 ^ 32"
    and "r = (len + off + 4095) div 4096"
    and "vma_place (areas_of kv) (pg r) = Some (Some (pg N))" "pg r \<le> r_end (areas_of kv) - r_start (areas_of kv)"
    and "k = (r + 511) div 512" "N mod 512 = 0 \<or> N mod 512 + r \<le> 512" "N div 512 mod 512 + k \<le> 512" "0 < N" "N + r < 2 ^ 52"
    and "P + r \<le> 2 ^ 40" "\<not> (IS_ALIGNED (pg P) SZ_2M \<and> IS_ALIGNED (pg N) SZ_2M \<and> IS_ALIGNED (pg r) SZ_2M)"
    and "no_large (pages_of kv) N k" "k + 2 \<le> card Fp"
    and "fb_fits (fbdev_at (bi_fb bi) (pg N + of_nat off))" "9 \<le> fbi_width (bi_fb bi)" "32 \<le> fbi_height (bi_fb bi)"
    and "unat (fbi_width (bi_fb bi)) < 2 ^ 27" "unat (fbi_height (bi_fb bi)) < 2 ^ 27"
  shows "\<exists>kv' bi' fb. fbcon_display_init kv bi fb0 = Some (Inr (kv', bi', fb)) \<and>
    dev fb = fbdev_at (bi_fb bi) (pg N + of_nat off) \<and>
    (\<forall>a. on_fb (dev fb) a \<longrightarrow> kpt_get_phys (pages_of kv') a = Some (fbi_phys (bi_fb bi) + (a - fb_base (dev fb)))) \<and>
    con_inv gop_funcs fb_fits (dev fb) FONT_IBM_3270_16PX
      (kcon_setfont (kcon_setframebuffer (kconsole_init st) (Some fb)) (Some FONT_IBM_3270_16PX))"
proof -
  from fbcon_display_spec [OF assms(1-20), of fb0] obtain kv' bi' fb where
    f: "fbcon_display_init kv bi fb0 = Some (Inr (kv', bi', fb))" "ops fb = Some gop_funcs"
    "dev fb = fbdev_at (bi_fb bi) (pg N + of_nat off)"
    "\<forall>n<len. kpt_get_phys (pages_of kv') (fb_base (dev fb) + of_nat n) = Some (fbi_phys (bi_fb bi) + of_nat n)" by blast
  have "kpt_get_phys (pages_of kv') a = Some (fbi_phys (bi_fb bi) + (a - fb_base (dev fb)))" if "on_fb (dev fb) a" for a
  proof -
    have "unat (a - fb_base (dev fb)) < len" using that assms(6) by (simp add: on_fb_def screen_len_def f(3) fbdev_at_def)
    then show ?thesis using f(4) [rule_format, of "unat (a - fb_base (dev fb))"] by simp
  qed
  moreover have "con_inv gop_funcs fb_fits (dev fb) FONT_IBM_3270_16PX
      (kcon_setfont (kcon_setframebuffer (kconsole_init st) (Some fb)) (Some FONT_IBM_3270_16PX))"
    using con_inv_installed [OF f(2), of st] assms(21-25) by (simp add: f(3) fbdev_at_def)
  ultimately show ?thesis using f(1,3) by blast
qed

lemma fbcon_maps_framebuffer_witness:
  "\<exists>kv bi kv' bi' fb. fbcon_display_init kv bi kernel_framebuffer_init = Some (Inr (kv', bi', fb)) \<and>
     kpt_get_phys (pages_of kv') 0xFFFFC00000001404 = Some 0xC0001404"
proof (rule demo_region)
  fix m c a assume m: "vma_inv m c Leaf (objs_of c a) (objs_of c a)" "r_start m = KERNEL_VMMMAP"
    "r_end m = KERNEL_VMMMAP + KERNEL_VMMAP_LEN" "card (objs_of c a) = 63" "r_tree m = rb_inittree Map.empty"
    "kbud_alloc demo1 0 = Some (buddy (kheap m), a)"
  define N :: nat where "N = 0xFFFFC00000000"
  define bi where "bi = kboot_info_zero\<lparr>bi_bootenv := KERN_BOOT_TYPE_EFI64, bi_fb := \<lparr>fbi_phys = 0xC0000000, fbi_virt = 0,
    fbi_width = 640, fbi_height = 400, fbi_pitch = 2560, fbi_bpp = 32\<rparr>\<rparr>"
  from demo_pgm_inv [OF m(6)] obtain Up Fp where p: "pt_inv (demo_pgm (buddy (kheap m))) Up Fp" "card Fp = 3"
    "no_large (demo_pgm (buddy (kheap m))) N 1" .
  define kv where "kv = \<lparr>areas_of = m, pages_of = demo_pgm (buddy (kheap m))\<rparr>"
  have ki: "kvm_inv kv c Leaf (objs_of c a) (objs_of c a) Up Fp" using m(1) p(1) by (simp add: kvm_inv_def kv_def demo_pgm_def)
  have ne: "objs_of c a \<noteq> {}" using m(4) by auto
  have ph: "fbi_phys (bi_fb bi) = pg 0xC0000 + of_nat 0" by (simp add: pg_def bi_def)
  have pl: "vma_place (areas_of kv) (pg 250) = Some (Some (pg N))"
    using m(2,5) by (simp add: vma_place_def kv_def rb_inittree_def pg_def N_def KERNEL_VMMMAP_def)
  have rg: "pg 250 \<le> r_end (areas_of kv) - r_start (areas_of kv)" using m(2,3) by (simp add: kv_def pg_def KERNEL_VMMAP_LEN_def)
  have na: "\<not> (IS_ALIGNED (pg 0xC0000) SZ_2M \<and> IS_ALIGNED (pg N) SZ_2M \<and> IS_ALIGNED (pg 250) SZ_2M)"
    by (simp add: IS_ALIGNED_def pg_def SZ_2M_def)
  have nl: "no_large (pages_of kv) N 1" using p(3) by (simp add: kv_def)
  have dv: "fbdev_at (bi_fb bi) (pg N + of_nat 0) = demo_dev" by (simp add: fbdev_at_def bi_def demo_dev_def pg_def N_def)
  have fits: "fb_fits (fbdev_at (bi_fb bi) (pg N + of_nat 0))" unfolding dv by (rule demo_fits)
  have sz: "(1024000 :: nat) = unat (fbi_height (bi_fb bi)) * unat (fbi_pitch (bi_fb bi))" by (simp add: bi_def)
  have b: "bi_bootenv bi \<noteq> KERN_BOOT_TYPE_BIOS" "fbi_width (bi_fb bi) = 640" "fbi_height (bi_fb bi) = 400" by (simp_all add: bi_def)
  have "\<exists>kv' bi' fb. fbcon_display_init kv bi kernel_framebuffer_init = Some (Inr (kv', bi', fb)) \<and>
    dev fb = fbdev_at (bi_fb bi) (pg N + of_nat 0) \<and>
    (\<forall>a. on_fb (dev fb) a \<longrightarrow> kpt_get_phys (pages_of kv') a = Some (fbi_phys (bi_fb bi) + (a - fb_base (dev fb)))) \<and>
    con_inv gop_funcs fb_fits (dev fb) FONT_IBM_3270_16PX
      (kcon_setfont (kcon_setframebuffer (kconsole_init \<lparr>ram = (\<lambda>_. 0), df = False\<rparr>) (Some fb)) (Some FONT_IBM_3270_16PX))"
    by (rule fbcon_maps_framebuffer [OF ki ne b(1) ph _ sz _ _ _ pl rg _ _ _ _ _ _ na nl _ fits]) (use p(2) b in \<open>simp_all add: N_def\<close>)
  then obtain kv' bi' fb where f: "fbcon_display_init kv bi kernel_framebuffer_init = Some (Inr (kv', bi', fb))"
    "dev fb = demo_dev" "\<forall>a. on_fb (dev fb) a \<longrightarrow> kpt_get_phys (pages_of kv') a = Some (fbi_phys (bi_fb bi) + (a - fb_base (dev fb)))" unfolding dv by blast
  from f(2) have "kpt_get_phys (pages_of kv') 0xFFFFC00000001404 = Some 0xC0001404"
    using f(3) [rule_format, of "0xFFFFC00000001404"] by (simp add: on_fb_def demo_dev_def screen_len_def bi_def)
  then show ?thesis using f(1) by blast
qed

end
