(* ===== verification/KernelMain.thy ===== *)
theory KernelMain
  imports ConsoleProps CpuFeats Interrupts
begin

text \<open>
  The kernel after booting: \<^verbatim>\<open>kernel_main\<close> of \<^verbatim>\<open>kernel/main.c\<close> calls the initialisation of each part in order and
  then idles, \<^verbatim>\<open>panic\<close> of \<^verbatim>\<open>kernel/panic.c\<close> prints and halts. Neither returns: the result is the state in which
  the processor is halted for good.
\<close>

section \<open>State\<close>

record kernel =
  kn_cpu :: cpu_info
  kn_gdtr :: "GDT64 option"
  kn_vm :: kvm
  kn_info :: kboot_info
  kn_fb :: framebuffer
  kn_con :: kernel_console
  kn_idt :: "idt64_entry list"
  idt_loaded :: bool
  kern_log_level :: int

datatype halted = Idle kernel | Panicked kernel

definition KLOG_ERR :: int where "KLOG_ERR = 0"
definition KLOG_INFO :: int where "KLOG_INFO = 2"
definition KLOG_DEBUG :: int where "KLOG_DEBUG = 3"

text \<open>The loads of the descriptor table registers; that of the interrupt table holds the address of \<^verbatim>\<open>IDT_arr\<close>.\<close>

definition gdt_init :: "kernel \<Rightarrow> kernel" where "gdt_init k = k\<lparr>kn_gdtr := Some KERN_GDT\<rparr>"
definition idt_init :: "kernel \<Rightarrow> kernel" where "idt_init k = k\<lparr>idt_loaded := True\<rparr>"

text \<open>A log message of the kernel; \<open>lit\<close> gives the address of a string literal.\<close>

definition klog :: "(string \<Rightarrow> u64) \<Rightarrow> kernel \<Rightarrow> int \<Rightarrow> string \<Rightarrow> u64 list \<Rightarrow> kernel option" where
  "klog lit k lvl msg args = do {
     (c, _) \<leftarrow> con_printk (kn_con k) (kern_log_level k) lvl (lit msg) args;
     Some (k\<lparr>kn_con := c\<rparr>) }"

definition panic :: "(string \<Rightarrow> u64) \<Rightarrow> kernel \<Rightarrow> string \<Rightarrow> halted option" where
  "panic lit k panicmsg = do {
     k \<leftarrow> klog lit k KLOG_ERR panicmsg [];
     k \<leftarrow> klog lit k KLOG_ERR ''\<newline>'' [];
     k \<leftarrow> klog lit k KLOG_ERR ''\<newline>----- KERNEL PANIC -----\<newline>'' [];
     Some (Panicked k) }"

text \<open>
  \<open>cpuid\<close>, the symbols of the linker \<open>im\<close>, the values \<open>bm\<close> that the boot code left, the address \<open>ident\<close> of the
  name of the slab cache, the stubs of \<^verbatim>\<open>isr.S\<close> and the address of \<^verbatim>\<open>CODE_SEGMENT64\<close> are parameters.
\<close>

definition kernel_main ::
  "(string \<Rightarrow> u64) \<Rightarrow> cpuid_fn \<Rightarrow> kimage \<Rightarrow> bootmem \<Rightarrow> u64 \<Rightarrow> u64 list \<Rightarrow> u64 \<Rightarrow> kernel \<Rightarrow> halted option" where
  "kernel_main lit cpuid im bm ident isr_table code_seg_addr k = do {
     let k = k\<lparr>kn_cpu := cpu_get_capabilities cpuid (kn_cpu k)\<rparr>;
     let k = gdt_init k;
     r \<leftarrow> mm_init im bm ident (kn_vm k);
     case r of Inl msg \<Rightarrow> panic lit k msg
     | Inr vm \<Rightarrow> do {
         let k = k\<lparr>kn_vm := vm\<rparr>;
         r \<leftarrow> kcon_init (kern_log_level k) (lit ''SYOS virtualized kernel booting...\<newline>'') (kn_vm k) (kn_info k) (kn_fb k) (kn_con k);
         case r of Inl msg \<Rightarrow> panic lit k msg
         | Inr (vm, info, fb, con) \<Rightarrow> do {
             let k = k\<lparr>kn_vm := vm, kn_info := info, kn_fb := fb, kn_con := con\<rparr>;
             idt \<leftarrow> isr_init isr_table code_seg_addr (kn_idt k);
             let k = idt_init (k\<lparr>kn_idt := idt\<rparr>);
             k \<leftarrow> klog lit k KLOG_DEBUG ''SYOS kernel v%d.%d --- Booted, Idle Reached\<newline>'' [0, 1];
             Some (Idle k) } } }"

section \<open>Order of the initialisation\<close>

text \<open>Before \<^verbatim>\<open>kcon_init\<close> the console has no framebuffer: a message that is printed faults, so that an early \<open>panic\<close> never halts.\<close>

lemma klog_early:
  assumes "vprintk st (kern_log_level k) lvl (lit msg) args = Some (st', Some (c # cs), r)"
    "kn_con k = kconsole_init st"
  shows "klog lit k lvl msg args = None"
proof -
  have "(kconsole_init st)\<lparr>machine := st'\<rparr> = kconsole_init st'" "machine (kconsole_init st) = st" by (simp_all add: kconsole_init_def)
  then show ?thesis using assms by (simp add: klog_def con_printk_def kcon_write_uninitialised)
qed

corollary panic_early:
  assumes "vprintk st (kern_log_level k) KLOG_ERR (lit msg) [] = Some (st', Some (c # cs), r)"
    "kn_con k = kconsole_init st"
  shows "panic lit k msg = None"
  using klog_early [where lit = lit and msg = msg, OF assms] by (simp add: panic_def)

lemma klog_keeps:
  assumes "klog lit k lvl msg args = Some k'"
  shows "\<exists>c. k' = k\<lparr>kn_con := c\<rparr>"
  using assms by (auto simp: klog_def split: bind_splits)

text \<open>The kernel idles only after both descriptor tables have been loaded and every vector has its gate.\<close>

lemma kernel_main_idle:
  assumes "kernel_main lit cpuid im bm ident isr_table code_seg_addr k = Some (Idle k')"
  shows "kn_gdtr k' = Some KERN_GDT \<and> idt_loaded k' \<and> isr_init isr_table code_seg_addr (kn_idt k) = Some (kn_idt k')"
proof -
  from assms obtain vm kv info fb con idt where
    "isr_init isr_table code_seg_addr (kn_idt k) = Some idt"
    "klog lit (idt_init (gdt_init (k\<lparr>kn_cpu := cpu_get_capabilities cpuid (kn_cpu k)\<rparr>)\<lparr>kn_vm := vm, kn_info := info,
      kn_fb := fb, kn_con := con, kn_idt := idt\<rparr>)) KLOG_DEBUG ''SYOS kernel v%d.%d --- Booted, Idle Reached\<newline>'' [0, 1] = Some k'"
    by (auto simp: kernel_main_def panic_def Let_def gdt_init_def idt_init_def split: bind_splits sum.splits)
  then show ?thesis using klog_keeps [of lit] by (fastforce simp: gdt_init_def idt_init_def)
qed

end
