(* ===== verification/BootParse.thy ===== *)
theory BootParse
  imports Bootparams
begin

text \<open>
  The parsing of the multiboot2 information by \<^verbatim>\<open>kernel/boot.c\<close>: finding a tag, collecting the memory map and
  sorting it. The information is read from byte memory; a loop that makes no progress (a tag or an entry of
  size 0) does not return, and an index outside an array faults. \<open>die\<close> prints its text on the debug console
  and halts, so it does not return either.
\<close>

section \<open>Reading the multiboot information\<close>

text \<open>A little-endian number of \<open>n\<close> bytes.\<close>

primrec load_le :: "nat \<Rightarrow> (u64 \<Rightarrow> u8) \<Rightarrow> u64 \<Rightarrow> u64" where
  "load_le 0 m p = 0"
| "load_le (Suc n) m p = ucast (m p) OR push_bit 8 (load_le n m (p + 1))"

definition load32 :: "(u64 \<Rightarrow> u8) \<Rightarrow> u64 \<Rightarrow> u32" where "load32 m p = ucast (load_le 4 m p)"
definition load64le :: "(u64 \<Rightarrow> u8) \<Rightarrow> u64 \<Rightarrow> u64" where "load64le m p = load_le 8 m p"

definition MB2_TAG_ERR :: u64 where "MB2_TAG_ERR = - 1"

definition MULTIBOOT_TAG_TYPE_END :: u32 where "MULTIBOOT_TAG_TYPE_END = 0"
definition MULTIBOOT_TAG_TYPE_MMAP :: u32 where "MULTIBOOT_TAG_TYPE_MMAP = 6"
definition MULTIBOOT_TAG_TYPE_FRAMEBUFFER :: u32 where "MULTIBOOT_TAG_TYPE_FRAMEBUFFER = 8"
definition MULTIBOOT_TAG_TYPE_EFI32 :: u32 where "MULTIBOOT_TAG_TYPE_EFI32 = 11"
definition MULTIBOOT_TAG_TYPE_EFI64 :: u32 where "MULTIBOOT_TAG_TYPE_EFI64 = 12"
definition MULTIBOOT_TAG_TYPE_ACPI_NEW :: u32 where "MULTIBOOT_TAG_TYPE_ACPI_NEW = 15"
definition MULTIBOOT_TAG_TYPE_LOAD_BASE_ADDR :: u32 where "MULTIBOOT_TAG_TYPE_LOAD_BASE_ADDR = 21"
definition MULTIBOOT_MEMORY_AVAILABLE :: u32 where "MULTIBOOT_MEMORY_AVAILABLE = 1"
definition MULTIBOOT_MEMORY_ACPI_RECLAIMABLE :: u32 where "MULTIBOOT_MEMORY_ACPI_RECLAIMABLE = 3"

definition die :: "string \<Rightarrow> 'a option" where "die errstr = None"

section \<open>Finding a tag\<close>

partial_function (option) find_mbt_loop :: "(u64 \<Rightarrow> u8) \<Rightarrow> u32 \<Rightarrow> u64 \<Rightarrow> u64 \<Rightarrow> u64 option" where
  "find_mbt_loop m ty e p =
     (if p < e then
        if load32 m p = ty then Some p
        else if load32 m p = MULTIBOOT_TAG_TYPE_END then Some MB2_TAG_ERR
        else find_mbt_loop m ty e (p + ucast ((load32 m (p + 4) + 7) AND NOT 7))
      else Some MB2_TAG_ERR)"

definition find_mbt :: "(u64 \<Rightarrow> u8) \<Rightarrow> u64 \<Rightarrow> u32 \<Rightarrow> u64 option" where
  "find_mbt m mbh ty = find_mbt_loop m ty (mbh + ucast (load32 m mbh)) (mbh + 8)"

section \<open>Sorting the memory map\<close>

text \<open>The entry \<open>k\<close> moves down from index \<open>j\<close> past every entry with a larger base.\<close>

primrec sort_shift :: "nat \<Rightarrow> bootparam_map_entry list \<Rightarrow> bootparam_map_entry \<Rightarrow> bootparam_map_entry list option" where
  "sort_shift 0 maps k = upd_opt maps 0 k"
| "sort_shift (Suc j) maps k = do {
     a \<leftarrow> nth_opt maps j;
     if me_base a > me_base k then do { maps \<leftarrow> upd_opt maps (Suc j) a; sort_shift j maps k }
     else upd_opt maps (Suc j) k }"

primrec sort_from :: "nat \<Rightarrow> nat \<Rightarrow> bootparam_map_entry list \<Rightarrow> bootparam_map_entry list option" where
  "sort_from 0 i maps = Some maps"
| "sort_from (Suc n) i maps = do {
     k \<leftarrow> nth_opt maps i;
     maps \<leftarrow> sort_shift i maps k;
     sort_from n (i + 1) maps }"

definition pi_sort_boot_mapentries :: "bootparam_map_entry list \<Rightarrow> nat \<Rightarrow> bootparam_map_entry list option" where
  "pi_sort_boot_mapentries maps up_to = sort_from (up_to - 1) 1 maps"

section \<open>Collecting the memory map\<close>

text \<open>The address, length and type of the entry at \<open>p\<close>.\<close>

definition mmap_entry :: "(u64 \<Rightarrow> u8) \<Rightarrow> u64 \<Rightarrow> u64 \<times> u64 \<times> u32" where
  "mmap_entry m p = (load64le m p, load64le m (p + 8), load32 m (p + 16))"

definition add_mapentry :: "u64 \<times> u64 \<times> u32 \<Rightarrow> bootparam_map_info \<Rightarrow> bootparam_map_info option" where
  "add_mapentry ent mi = (case ent of (addr, len, ty) \<Rightarrow>
     if ty = MULTIBOOT_MEMORY_ACPI_RECLAIMABLE then do {
       es \<leftarrow> upd_opt (mi_reclaimable mi) (unat (mi_count_reclaimable mi)) \<lparr>me_base = addr, me_len = len\<rparr>;
       Some (mi\<lparr>mi_reclaimable := es, mi_ram_max := mi_ram_max mi + len, mi_count_reclaimable := mi_count_reclaimable mi + 1\<rparr>) }
     else if ty \<noteq> MULTIBOOT_MEMORY_AVAILABLE then Some mi
     else do {
       es \<leftarrow> upd_opt (mi_entries mi) (unat (mi_count mi)) \<lparr>me_base = addr, me_len = len\<rparr>;
       Some (mi\<lparr>mi_entries := es, mi_ram_max := mi_ram_max mi + len, mi_ram_usable := mi_ram_usable mi + len,
         mi_count := mi_count mi + 1\<rparr>) })"

partial_function (option) mapentries_loop ::
  "(u64 \<Rightarrow> u8) \<Rightarrow> u64 \<Rightarrow> u64 \<Rightarrow> u64 \<Rightarrow> bootparam_map_info \<Rightarrow> bootparam_map_info option" where
  "mapentries_loop m entry_size e p mi =
     (if p < e then do {
        mi \<leftarrow> add_mapentry (mmap_entry m p) mi;
        mapentries_loop m entry_size e (p + entry_size) mi }
      else Some mi)"

definition pi_loop_mb2_mapentries :: "(u64 \<Rightarrow> u8) \<Rightarrow> u64 \<Rightarrow> bootparam_map_info \<Rightarrow> bootparam_map_info option" where
  "pi_loop_mb2_mapentries m mmap mi = do {
     mi \<leftarrow> mapentries_loop m (ucast (load32 m (mmap + 8))) (mmap + ucast (load32 m (mmap + 4))) (mmap + 16) mi;
     es \<leftarrow> pi_sort_boot_mapentries (mi_entries mi) (unat (mi_count mi));
     rs \<leftarrow> pi_sort_boot_mapentries (mi_reclaimable mi) (unat (mi_count_reclaimable mi));
     Some (mi\<lparr>mi_entries := es, mi_reclaimable := rs\<rparr>) }"

declare find_mbt_loop.simps [code] mapentries_loop.simps [code]

section \<open>The boot information\<close>

definition pi_parse_mb2 :: "(u64 \<Rightarrow> u8) \<Rightarrow> u64 \<Rightarrow> kboot_info \<Rightarrow> kboot_info option" where
  "pi_parse_mb2 m mbh info = do {
     mmap \<leftarrow> find_mbt m mbh MULTIBOOT_TAG_TYPE_MMAP;
     fb \<leftarrow> find_mbt m mbh MULTIBOOT_TAG_TYPE_FRAMEBUFFER;
     acpi \<leftarrow> find_mbt m mbh MULTIBOOT_TAG_TYPE_ACPI_NEW;
     efi64 \<leftarrow> find_mbt m mbh MULTIBOOT_TAG_TYPE_EFI64;
     efi32 \<leftarrow> find_mbt m mbh MULTIBOOT_TAG_TYPE_EFI32;
     entry \<leftarrow> find_mbt m mbh MULTIBOOT_TAG_TYPE_LOAD_BASE_ADDR;
     if mmap = MB2_TAG_ERR \<or> fb = MB2_TAG_ERR \<or> acpi = MB2_TAG_ERR \<or> entry = MB2_TAG_ERR
     then die ''multiboot2 tag could not be found!''
     else do {
       mi \<leftarrow> pi_loop_mb2_mapentries m mmap (bi_maps info);
       Some (info\<lparr>bi_maps := mi,
         bi_load_addr := ucast (load32 m (entry + 8)),
         bi_bootenv := (if efi64 \<noteq> MB2_TAG_ERR then KERN_BOOT_TYPE_EFI64
                        else if efi32 \<noteq> MB2_TAG_ERR then KERN_BOOT_TYPE_EFI32 else KERN_BOOT_TYPE_BIOS),
         bi_fb := \<lparr>fbi_phys = load64le m (fb + 8), fbi_virt = 0, fbi_width = load32 m (fb + 20),
           fbi_height = load32 m (fb + 24), fbi_pitch = load32 m (fb + 16), fbi_bpp = m (fb + 28)\<rparr>\<rparr>) } }"

end
