(* ===== verification/BootMem.thy ===== *)
theory BootMem
  imports BootParse PageTables
begin

text \<open>
  The early memory of \<^verbatim>\<open>kernel/boot.c\<close>: the page allocator that works before the kernel has its own, the page
  tables the kernel is entered with, and the hand-over of the remaining memory to the page allocator of
  \<^verbatim>\<open>kernel/mm/buddy.c\<close>.

  All of this runs on physical addresses through the identity map of the first GiB, which \<^verbatim>\<open>entry.S\<close> sets up and
  \<^verbatim>\<open>pt_init_temp_identmap\<close> repeats: an access to memory above it faults. A page table at a physical address is
  kept under its address in the direct map, as in the model of \<^verbatim>\<open>kernel/pagetbl.c\<close>. A header of a region is kept
  by its physical address; clearing memory clears the bytes of the headers in it.
\<close>

section \<open>State\<close>

record preinit_region =
  pr_top :: u64
  pr_base :: u64
  cur_frames :: u64
  max_frames :: u64

record preinit =
  pm :: pgm
  pfa_region :: "u64 list"
  pfa_count :: u64
  headers :: "u64 \<rightharpoonup> preinit_region"
  total_ram :: u64
  usable_ram :: u64
  KERN_BOOT_INFO :: kboot_info

definition low_mapped :: "u64 \<Rightarrow> nat \<Rightarrow> bool" where
  "low_mapped p n \<longleftrightarrow> unat p + n \<le> 2 ^ 30"

text \<open>The bytes of a word at \<open>a\<close> that lie in \<open>[lo, lo + n)\<close> are cleared.\<close>

definition clear_word :: "u64 \<Rightarrow> u64 \<Rightarrow> u64 \<Rightarrow> u64 \<Rightarrow> u64" where
  "clear_word lo n a w =
     fold (\<lambda>i w. if (a + of_nat i) - lo < n then w AND NOT (push_bit (8 * i) 0xFF) else w) [0..<8] w"

definition clear_header :: "u64 \<Rightarrow> u64 \<Rightarrow> u64 \<Rightarrow> preinit_region \<Rightarrow> preinit_region" where
  "clear_header lo n a h =
     \<lparr>pr_top = clear_word lo n a (pr_top h), pr_base = clear_word lo n (a + 8) (pr_base h),
      cur_frames = clear_word lo n (a + 16) (cur_frames h), max_frames = clear_word lo n (a + 24) (max_frames h)\<rparr>"

definition clear_headers :: "u64 \<Rightarrow> u64 \<Rightarrow> preinit \<Rightarrow> preinit" where
  "clear_headers lo n st = st\<lparr>headers := (\<lambda>a. map_option (clear_header lo n a) (headers st a))\<rparr>"

section \<open>The early page allocator\<close>

definition pf_init_region :: "kimage \<Rightarrow> u64 \<Rightarrow> bootparam_map_entry \<Rightarrow> preinit \<Rightarrow> preinit option" where
  "pf_init_region im region ent st = do {
     let entry_start = me_base ent;
     let entry_end = me_base ent + me_len ent;
     let kernel_sz = kphys_end im;
     let (addr, len) =
       (if entry_start \<le> kphys_start im \<and> entry_end \<ge> kphys_end im
        then (me_base ent + kernel_sz, me_len ent - kernel_sz) else (me_base ent, me_len ent));
     rs \<leftarrow> upd_opt (pfa_region st) (unat region) addr;
     if \<not> low_mapped addr 32 then None
     else do {
       let frames = PAGE_ALIGNDOWN len div 4096;
       Some (st\<lparr>pfa_region := rs,
         headers := (headers st)(addr \<mapsto>
           \<lparr>pr_top = addr + len - PAGESIZE, pr_base = addr, cur_frames = frames - 1, max_frames = frames\<rparr>),
         pfa_count := pfa_count st + 1\<rparr>) } }"

primrec alloc_init_loop ::
  "nat \<Rightarrow> u8 \<Rightarrow> u8 \<Rightarrow> kimage \<Rightarrow> bootparam_map_info \<Rightarrow> preinit \<Rightarrow> preinit option" where
  "alloc_init_loop 0 i region_num im maps st = Some st"
| "alloc_init_loop (Suc n) i region_num im maps st = do {
     ent \<leftarrow> nth_opt (mi_entries maps) (unat i);
     st \<leftarrow> pf_init_region im (ucast region_num) ent st;
     let region_num = region_num + 1;
     if region_num > 64 then die ''preinit memory regions exceeded capacity''
     else alloc_init_loop n (i + 1) region_num im maps st }"

definition alloc_init :: "kimage \<Rightarrow> bootparam_map_info \<Rightarrow> preinit \<Rightarrow> preinit option" where
  "alloc_init im maps st =
     alloc_init_loop (unat (mi_count maps)) 0 0 im maps (st\<lparr>pfa_region := replicate PFRAME_MAX_REGIONS KPAGE_ERR\<rparr>)"

text \<open>
  Clearing memory, as bytes: the counter has 32 bits, so that a length of 4 GiB or more never ends, which is \<open>None\<close>.
\<close>

primrec pi_memset_loop :: "nat \<Rightarrow> u32 \<Rightarrow> (u64 \<Rightarrow> u8) \<Rightarrow> u64 \<Rightarrow> u8 \<Rightarrow> (u64 \<Rightarrow> u8)" where
  "pi_memset_loop 0 i m dest c = m"
| "pi_memset_loop (Suc n) i m dest c = pi_memset_loop n (i + 1) (m(dest + ucast i := c)) dest c"

definition pi_memset :: "(u64 \<Rightarrow> u8) \<Rightarrow> u64 \<Rightarrow> u8 \<Rightarrow> u64 \<Rightarrow> (u64 \<Rightarrow> u8) option" where
  "pi_memset m dst c n = (if n \<le> 0xFFFFFFFF then Some (pi_memset_loop (unat n) 0 m dst c) else None)"

lemma pi_memset_loop_bytes:
  "unat i + n < 2 ^ 32 \<Longrightarrow> pi_memset_loop n i m dest c a =
     (if unat i \<le> unat (a - dest) \<and> unat (a - dest) < unat i + n then c else m a)"
proof (induction n arbitrary: i m)
  case (Suc n)
  have i: "unat (i + 1) = unat i + 1" using Suc.prems by (simp add: unat_word_ariths)
  have "unat i < 2 ^ 64" using Suc.prems by simp
  then have uc: "unat (ucast i :: u64) = unat i" by (simp add: unsigned_ucast_eq take_bit_nat_eq_self)
  have at: "a = dest + ucast i \<longleftrightarrow> unat (a - dest) = unat i"
  proof
    assume "unat (a - dest) = unat i"
    then have "a - dest = ucast i" unfolding word_unat_eq_iff by (simp add: uc)
    then show "a = dest + ucast i" by (simp add: algebra_simps)
  qed (simp add: uc)
  show ?case using Suc.prems by (simp add: Suc.IH i at)
qed auto

lemma pi_memset_bytes:
  assumes "n \<le> 0xFFFFFFFF"
  shows "pi_memset m dst c n = Some (\<lambda>a. if a - dst < n then c else m a)"
proof -
  have "unat n < 2 ^ 32" using assms by (simp add: word_le_nat_alt)
  then show ?thesis using assms by (auto simp: pi_memset_def pi_memset_loop_bytes word_less_nat_alt)
qed

text \<open>A frame is cleared: what was a page table or a header there is zero.\<close>

definition zero_frame :: "u64 \<Rightarrow> preinit \<Rightarrow> preinit option" where
  "zero_frame frame st =
     (if low_mapped frame 4096 then
        Some (clear_headers frame PAGESIZE
          (st\<lparr>pm := (pm st)\<lparr>tables := (tables (pm st))(phys_to_virt_pm frame \<mapsto> (\<lambda>_. 0))\<rparr>\<rparr>))
      else None)"

text \<open>The loop over the regions, from region \<open>i\<close>; the array has \<open>n\<close> more of them.\<close>

primrec alloc_frame_loop :: "nat \<Rightarrow> nat \<Rightarrow> u64 \<Rightarrow> preinit \<Rightarrow> (preinit \<times> u64) option" where
  "alloc_frame_loop 0 i pr_addr_end st = None"
| "alloc_frame_loop (Suc n) i pr_addr_end st = do {
     pr \<leftarrow> nth_opt (pfa_region st) i;
     if pr = KPAGE_ERR then Some (st, KPAGE_ERR)
     else do {
       r \<leftarrow> headers st pr;
       if cur_frames r = 0 then alloc_frame_loop n (i + 1) pr_addr_end st
       else do {
         let frame = pr_top r;
         if frame \<ge> pr_addr_end then die ''alloc_frame_struct out of bounds''
         else do {
           let st = st\<lparr>headers := (headers st)(pr \<mapsto> r\<lparr>pr_top := pr_top r - PAGESIZE, cur_frames := cur_frames r - 1\<rparr>)\<rparr>;
           st \<leftarrow> zero_frame frame st;
           Some (st, frame) } } } }"

definition alloc_frame :: "preinit \<Rightarrow> (preinit \<times> u64) option" where
  "alloc_frame st = do {
     pr \<leftarrow> nth_opt (pfa_region st) 0;
     r \<leftarrow> headers st pr;
     let pr_addr_end = pr_base r + push_bit 12 (max_frames r);
     alloc_frame_loop PFRAME_MAX_REGIONS 0 pr_addr_end st }"

section \<open>The page tables of the kernel\<close>

definition PT_FLAGS_RW :: u64 where "PT_FLAGS_RW = PT_FLAG_PRESENT OR PT_FLAG_WRITABLE"

text \<open>An entry of the table at the physical address \<open>t\<close> is written.\<close>

definition set_pte :: "preinit \<Rightarrow> u64 \<Rightarrow> u64 \<Rightarrow> u64 \<Rightarrow> preinit option" where
  "set_pte st t i e = do { m \<leftarrow> set_entry (pm st) (phys_to_virt_pm t) i e; Some (st\<lparr>pm := m\<rparr>) }"

definition chk_pt_alloc :: "preinit \<Rightarrow> u64 \<Rightarrow> u64 \<Rightarrow> (preinit \<times> u64) option" where
  "chk_pt_alloc st t i = do {
     pte \<leftarrow> entry (pm st) (phys_to_virt_pm t) i;
     if pte AND PT_FLAG_PRESENT = 0 then do {
       (st, pagetbl) \<leftarrow> alloc_frame st;
       st \<leftarrow> set_pte st t i (pagetbl OR PT_FLAGS_RW);
       Some (st, pagetbl) }
     else Some (st, PT_REBASE pte) }"

text \<open>The direct map; the inner loop is that of \<^verbatim>\<open>remap_bootmem_dmap_pages\<close>.\<close>

primrec dram_map_l4 :: "nat \<Rightarrow> preinit \<Rightarrow> u64 \<Rightarrow> u64 \<Rightarrow> u64 \<Rightarrow> u64 \<Rightarrow> preinit option" where
  "dram_map_l4 0 st pt_l4 rem physbase dram_map_offs = Some st"
| "dram_map_l4 (Suc n) st pt_l4 rem physbase dram_map_offs = do {
     (st, pt_l3) \<leftarrow> chk_pt_alloc st pt_l4 (page_l4_idx dram_map_offs);
     let cnt = (if rem > 512 then 512 else rem);
     (m, physbase, dram_map_offs) \<leftarrow> dmap_l3 (unat cnt) (pm st) (phys_to_virt_pm pt_l3) physbase dram_map_offs;
     dram_map_l4 n (st\<lparr>pm := m\<rparr>) pt_l4 (rem - cnt) physbase dram_map_offs }"

definition pt_init_dram_map :: "preinit \<Rightarrow> u64 \<Rightarrow> bootparam_map_info \<Rightarrow> preinit option" where
  "pt_init_dram_map st pt_l4 info = do {
     let dram_map_offs = get_kernel_phmap;
     let ramsz = mi_ram_max info;
     let pt_l3_count = ((ramsz + PT_L4_ENTRYMASK) AND NOT PT_L4_ENTRYMASK) div PT_L4_ENTRYSZ;
     let pt_l2_count = ((ramsz + PT_L3_ENTRYMASK) AND NOT PT_L3_ENTRYMASK) div PT_L3_ENTRYSZ;
     dram_map_l4 (unat pt_l3_count) st pt_l4 pt_l2_count 0 dram_map_offs }"

text \<open>The kernel image; the loop over the entries of a table is that of \<^verbatim>\<open>remap_bootmem_kcode_pages\<close>.\<close>

primrec init_kcode_l1 :: "nat \<Rightarrow> u64 \<Rightarrow> kimage \<Rightarrow> preinit \<Rightarrow> u64 \<Rightarrow> u64 \<Rightarrow> u64 \<Rightarrow> (preinit \<times> u64) option" where
  "init_kcode_l1 0 j im st pd koffs phy = Some (st, phy)"
| "init_kcode_l1 (Suc n) j im st pd koffs phy = do {
     (st, pt) \<leftarrow> chk_pt_alloc st pd (page_l2_idx (koffs + j * PT_L2_ENTRYSZ));
     (m, phy) \<leftarrow> kcode_pages (unat PT_ENTRIES) 0 im (pm st) (phys_to_virt_pm pt) phy;
     init_kcode_l1 n (j + 1) im (st\<lparr>pm := m\<rparr>) pd koffs phy }"

primrec init_kcode_l2 :: "nat \<Rightarrow> u64 \<Rightarrow> u64 \<Rightarrow> kimage \<Rightarrow> preinit \<Rightarrow> u64 \<Rightarrow> u64 \<Rightarrow> u64 \<Rightarrow> (preinit \<times> u64) option" where
  "init_kcode_l2 0 i l1_count im st l3 koffs phy = Some (st, phy)"
| "init_kcode_l2 (Suc n) i l1_count im st l3 koffs phy = do {
     (st, pd) \<leftarrow> chk_pt_alloc st l3 (page_l3_idx (koffs + i * PT_L3_ENTRYSZ));
     (st, phy) \<leftarrow> init_kcode_l1 (unat l1_count) 0 im st pd koffs phy;
     init_kcode_l2 n (i + 1) l1_count im st l3 koffs phy }"

definition pt_init_kcode :: "kimage \<Rightarrow> preinit \<Rightarrow> u64 \<Rightarrow> kboot_info \<Rightarrow> preinit option" where
  "pt_init_kcode im st pt_l4 info = do {
     let koffs = KERNEL_OFFSET;
     let kernsz = (kphys_end im - kphys_start im) + bi_load_addr info;
     let l1_count = ((kernsz + PT_L2_ENTRYMASK) AND NOT PT_L2_ENTRYMASK) div PT_L2_ENTRYSZ;
     let l2_count = ((kernsz + PT_L3_ENTRYMASK) AND NOT PT_L3_ENTRYMASK) div PT_L3_ENTRYSZ;
     (st, l3) \<leftarrow> chk_pt_alloc st pt_l4 (page_l4_idx koffs);
     (st, _) \<leftarrow> init_kcode_l2 (unat l2_count) 0 l1_count im st l3 koffs 0;
     Some st }"

definition pt_init_temp_identmap :: "preinit \<Rightarrow> u64 \<Rightarrow> preinit option" where
  "pt_init_temp_identmap st pt_l4 = do {
     (st, pt_l3) \<leftarrow> chk_pt_alloc st pt_l4 0;
     if pt_l3 = KPAGE_ERR then die ''pt_l3 is an invalid ptr!!''
     else do {
       st \<leftarrow> set_pte st pt_l4 0 (pt_l3 OR PT_FLAGS_RW);
       set_pte st pt_l3 0 (0 OR PT_FLAGS_RW OR PT_FLAG_PAGESIZE) } }"

definition pi_set_pagetable :: "preinit \<Rightarrow> u64 \<Rightarrow> preinit" where
  "pi_set_pagetable st pml4 = st\<lparr>pm := (pm st)\<lparr>cr3 := pml4\<rparr>\<rparr>"

definition init_higher_half :: "kimage \<Rightarrow> preinit \<Rightarrow> kboot_info \<Rightarrow> preinit option" where
  "init_higher_half im st info = do {
     (st, pt_l4) \<leftarrow> alloc_frame st;
     st \<leftarrow> pt_init_temp_identmap st pt_l4;
     let st = pi_set_pagetable st pt_l4;
     st \<leftarrow> pt_init_kcode im st pt_l4 info;
     pt_init_dram_map st pt_l4 (bi_maps info) }"

section \<open>The hand-over to the page allocator\<close>

text \<open>
  The header of the page allocator replaces that of the region; a write to a page the new tables do not map
  faults.
\<close>

primrec handoff_loop :: "nat \<Rightarrow> nat \<Rightarrow> preinit \<Rightarrow> preinit option" where
  "handoff_loop 0 i st = Some st"
| "handoff_loop (Suc n) i st = do {
     pr \<leftarrow> nth_opt (pfa_region st) i;
     r \<leftarrow> headers st pr;
     let newbase = phys_to_virt_pm (pr_base r);
     let len = push_bit 12 (cur_frames r);
     phys \<leftarrow> kpt_get_phys (pm st) newbase;
     if phys = KPAGE_ERR then None
     else do {
       let st = clear_headers phys SLAVE_SIZE st;
       b \<leftarrow> kbud_free_range (put_slave (pt_buddy (pm st)) newbase zero_slave) newbase len;
       handoff_loop n (i + 1) (st\<lparr>pm := (pm st)\<lparr>pt_buddy := b\<rparr>\<rparr>) } }"

definition buddy_handoff :: "preinit \<Rightarrow> bootparam_map_info \<Rightarrow> preinit option" where
  "buddy_handoff st info =
     handoff_loop (unat (pfa_count st) - 1) 1 (st\<lparr>total_ram := mi_ram_max info, usable_ram := mi_ram_usable info\<rparr>)"

text \<open>\<^verbatim>\<open>start_kernel\<close>: the state in which \<^verbatim>\<open>kernel_main\<close> is entered.\<close>

definition start_kernel :: "kimage \<Rightarrow> (u64 \<Rightarrow> u8) \<Rightarrow> u64 \<Rightarrow> preinit \<Rightarrow> preinit option" where
  "start_kernel im mem mbh st = do {
     info \<leftarrow> pi_parse_mb2 mem mbh kboot_info_zero;
     st \<leftarrow> alloc_init im (bi_maps info) st;
     st \<leftarrow> init_higher_half im st info;
     st \<leftarrow> buddy_handoff st (bi_maps info);
     Some (st\<lparr>KERN_BOOT_INFO := info\<rparr>) }"

end
