(* ===== verification/BootPool.thy ===== *)
theory BootPool
  imports BootMem PageEnter
begin

text \<open>
  The early page allocator: the frames of the first region are handed out from its top down to the header, each
  cleared; tables that are linked with them grow the tree behind \<^verbatim>\<open>cr3\<close> as the page allocator of the kernel
  does later.
\<close>

section \<open>The first region\<close>

text \<open>\<open>c\<close> of the \<open>M\<close> frames of the region at \<open>B\<close> are left; every table lies above them in the region.\<close>

definition early_pool :: "preinit \<Rightarrow> nat \<Rightarrow> nat \<Rightarrow> nat \<Rightarrow> bool" where
  "early_pool st B M c \<longleftrightarrow>
     pfa_region st \<noteq> [] \<and> pfa_region st ! 0 = of_nat B \<and>
     headers st (of_nat B) =
       Some \<lparr>pr_top = of_nat (B + 4096 * c), pr_base = of_nat B, cur_frames = of_nat c, max_frames = of_nat M\<rparr> \<and>
     4096 dvd B \<and> c < M \<and> B + 4096 * M \<le> 2 ^ 30 \<and>
     (\<forall>t. tables (pm st) t \<noteq> None \<longrightarrow> B + 4096 * c < unat (virt_to_phys_pm t) \<and> unat (virt_to_phys_pm t) < B + 4096 * M)"

lemma unat_low: "n \<le> 2 ^ 30 \<Longrightarrow> unat (of_nat n :: u64) = n"
  by (rule unat_of_nat64) simp

lemma of_nat_low_eq: "a \<le> 2 ^ 30 \<Longrightarrow> b \<le> 2 ^ 30 \<Longrightarrow> (of_nat a :: u64) = of_nat b \<longleftrightarrow> a = b"
  using unat_low by metis

lemma fold_id: "\<forall>i\<in>set is. \<not> P i \<Longrightarrow> fold (\<lambda>i w. if P i then g i w else w) is w = w"
  by (induction "is") auto

lemma clear_word_keeps:
  assumes "unat a + 8 \<le> unat lo" "unat n \<le> 4096" "unat lo \<le> 2 ^ 30"
  shows "clear_word lo n a w = w"
  unfolding clear_word_def
proof (rule fold_id, rule ballI)
  fix i :: nat assume "i \<in> set [0..<8]"
  then have u: "unat (a + of_nat i) = unat a + i" "i < 8" using assms by (auto intro: unat_plus_of_nat)
  then have "unat (a + of_nat i - lo) = unat a + i + 2 ^ 64 - unat lo"
    using assms(1) unat_sub_if' [of "a + of_nat i" lo] by simp
  then have "unat n \<le> unat (a + of_nat i - lo)" using assms(2,3) by simp
  then show "\<not> a + of_nat i - lo < n" by (simp add: word_less_nat_alt)
qed

lemma clear_header_keeps:
  assumes "unat a + 32 \<le> unat lo" "unat n \<le> 4096" "unat lo \<le> 2 ^ 30"
  shows "clear_header lo n a h = h"
proof -
  have "unat (a + of_nat 8) = unat a + 8" "unat (a + of_nat 16) = unat a + 16" "unat (a + of_nat 24) = unat a + 24"
    using assms by (intro unat_plus_of_nat; simp)+
  then show ?thesis using assms by (simp add: clear_header_def clear_word_keeps)
qed

lemma clear_header_keeps_above:
  assumes "unat lo + 4096 \<le> unat a" "unat a + 32 \<le> 2 ^ 64"
  shows "clear_header lo PAGESIZE a h = h"
proof -
  have w: "clear_word lo PAGESIZE b w = w" if "unat lo + 4096 \<le> unat b" "unat b + 8 \<le> 2 ^ 64" for b w
    unfolding clear_word_def
  proof (rule fold_id, rule ballI)
    fix i :: nat assume "i \<in> set [0..<8]"
    then have "unat (b + of_nat i) = unat b + i" using that by (intro unat_plus_of_nat) auto
    then have "unat (b + of_nat i - lo) = unat b + i - unat lo" using that by (simp add: unat_sub word_le_nat_alt)
    then show "\<not> b + of_nat i - lo < PAGESIZE" using that by (simp add: word_less_nat_alt PAGESIZE_def)
  qed
  have "unat (a + of_nat 8) = unat a + 8" "unat (a + of_nat 16) = unat a + 16" "unat (a + of_nat 24) = unat a + 24"
    using assms by (intro unat_plus_of_nat; simp)+
  then show ?thesis using assms by (simp add: clear_header_def w)
qed

text \<open>What the early allocator and the tables leave alone: the array of regions, the headers above \<open>E\<close> and the page allocator.\<close>

definition others :: "nat \<Rightarrow> preinit \<Rightarrow> u64 list \<times> u64 \<times> kbuddy \<times> (u64 \<Rightarrow> preinit_region option)" where
  "others E st = (pfa_region st, pfa_count st, pt_buddy (pm st),
     \<lambda>a. if E \<le> unat a \<and> unat a + 32 \<le> 2 ^ 64 then headers st a else None)"

lemma others_pm: "pt_buddy m = pt_buddy (pm st) \<Longrightarrow> others E (st\<lparr>pm := m\<rparr>) = others E st"
  by (simp add: others_def cong: if_cong)

lemma alloc_frame_spec:
  assumes p: "early_pool st B M (Suc c)"
  obtains st' where "alloc_frame st = Some (st', of_nat (B + 4096 * Suc c))" "early_pool st' B M c"
    "pm st' = (pm st)\<lparr>tables := (tables (pm st))(phys_to_virt_pm (of_nat (B + 4096 * Suc c)) \<mapsto> (\<lambda>_. 0))\<rparr>"
    "others (B + 4096 * M) st' = others (B + 4096 * M) st"
proof -
  define T where "T = B + 4096 * Suc c"
  define h where "h = \<lparr>pr_top = of_nat T, pr_base = of_nat B, cur_frames = of_nat (Suc c), max_frames = of_nat M\<rparr>"
  have e: "pfa_region st \<noteq> []" "pfa_region st ! 0 = of_nat B" "headers st (of_nat B) = Some h"
    "4096 dvd B" "Suc c < M" "B + 4096 * M \<le> 2 ^ 30"
    and tb: "\<And>t. tables (pm st) t \<noteq> None \<Longrightarrow> T < unat (virt_to_phys_pm t) \<and> unat (virt_to_phys_pm t) < B + 4096 * M"
    using p by (simp_all add: early_pool_def h_def T_def)
  have T: "T + 4096 \<le> B + 4096 * M" using e(5) by (simp add: T_def)
  have uT: "unat (of_nat T :: u64) = T" using T e(6) by (intro unat_low) simp
  have pe: "(of_nat B + push_bit 12 (of_nat M) :: u64) = of_nat (B + 4096 * M)"
    by (simp add: push_bit_of_nat) (simp add: push_bit_eq_mult)
  have lt: "\<not> (of_nat T :: u64) \<ge> of_nat (B + 4096 * M)"
    using T e(6) uT unat_low [OF e(6)] by (simp only: word_le_nat_alt)
  have nz: "(of_nat (Suc c) :: u64) \<noteq> 0"
    using of_nat_low_eq [of "Suc c" 0] e(5,6) by simp
  have uB: "unat (of_nat B :: u64) = B" using e(6) by (intro unat_low) simp
  have ne: "(of_nat B :: u64) \<noteq> KPAGE_ERR"
  proof
    assume "(of_nat B :: u64) = KPAGE_ERR"
    then have "B = unat KPAGE_ERR" using uB by simp
    then show False using e(6) by (simp add: KPAGE_ERR_def unsigned_minus_1_eq_mask mask_eq_exp_minus_1)
  qed
  define st1 where "st1 = st\<lparr>headers := (headers st)(of_nat B \<mapsto> h\<lparr>pr_top := of_nat T - PAGESIZE, cur_frames := of_nat (Suc c) - 1\<rparr>)\<rparr>"
  define st' where "st' = clear_headers (of_nat T) PAGESIZE
    (st1\<lparr>pm := (pm st)\<lparr>tables := (tables (pm st))(phys_to_virt_pm (of_nat T) \<mapsto> (\<lambda>_. 0))\<rparr>\<rparr>)"
  have z: "zero_frame (of_nat T) st1 = Some st'"
    using T e(6) by (simp add: zero_frame_def low_mapped_def uT st'_def st1_def)
  obtain k where k: "PFRAME_MAX_REGIONS = Suc k" by (simp add: PFRAME_MAX_REGIONS_def)
  have run: "alloc_frame st = Some (st', of_nat T)"
    using e(1-3) pe lt nz ne z
    unfolding alloc_frame_def k by (simp add: h_def Let_def st1_def)
  have keep: "clear_header (of_nat T) PAGESIZE (of_nat B) x = x" for x
  proof (rule clear_header_keeps)
    show "unat (of_nat B :: u64) + 32 \<le> unat (of_nat T :: u64)" unfolding uB uT by (simp add: T_def)
    show "unat (of_nat T :: u64) \<le> 2 ^ 30" using T e(6) unfolding uT by simp
  qed (simp add: PAGESIZE_def)
  have "of_nat T - PAGESIZE = (of_nat (B + 4096 * c) :: u64)" by (simp add: T_def PAGESIZE_def)
  moreover have "of_nat (Suc c) - 1 = (of_nat c :: u64)" by simp
  ultimately have hd: "headers st' (of_nat B) =
      Some \<lparr>pr_top = of_nat (B + 4096 * c), pr_base = of_nat B, cur_frames = of_nat c, max_frames = of_nat M\<rparr>"
    by (simp add: st'_def clear_headers_def st1_def keep h_def)
  have pm: "pm st' = (pm st)\<lparr>tables := (tables (pm st))(phys_to_virt_pm (of_nat T) \<mapsto> (\<lambda>_. 0))\<rparr>"
    by (simp add: st'_def clear_headers_def st1_def)
  have "virt_to_phys_pm (phys_to_virt_pm (of_nat T)) = of_nat T"
    by (simp add: virt_to_phys_pm_def phys_to_virt_pm_def)
  then have "B + 4096 * c < unat (virt_to_phys_pm t) \<and> unat (virt_to_phys_pm t) < B + 4096 * M" if "tables (pm st') t \<noteq> None" for t
    using that tb [of t] uT T by (auto simp: pm T_def split: if_splits)
  moreover have rg: "pfa_region st' = pfa_region st" "pfa_count st' = pfa_count st"
    by (simp_all add: st'_def clear_headers_def st1_def)
  ultimately have "early_pool st' B M c" using e hd by (simp add: early_pool_def)
  moreover have "headers st' a = headers st a" if "B + 4096 * M \<le> unat a" "unat a + 32 \<le> 2 ^ 64" for a
  proof -
    have "a \<noteq> of_nat B" using that T uB by (auto simp: T_def)
    moreover have "clear_header (of_nat T) PAGESIZE a x = x" for x
      using that T uT by (intro clear_header_keeps_above) simp_all
    ultimately show ?thesis by (cases "headers st a") (simp_all add: st'_def clear_headers_def st1_def)
  qed
  then have "others (B + 4096 * M) st' = others (B + 4096 * M) st" using rg by (auto simp: others_def pm)
  ultimately show ?thesis using run pm unfolding T_def by (intro that [of st'])
qed

text \<open>Writing entries does not touch the page allocator.\<close>

lemma set_entry_buddy: "set_entry m p i e = Some m' \<Longrightarrow> pt_buddy m' = pt_buddy m"
  by (auto simp: set_entry_def split: bind_splits option.splits if_splits)

lemma kcode_pages_buddy: "kcode_pages n k im m pt phy = Some (m', phy') \<Longrightarrow> pt_buddy m' = pt_buddy m"
  by (induction n arbitrary: k m phy) (fastforce simp: Let_def dest: set_entry_buddy split: bind_splits)+

lemma dmap_l3_buddy: "dmap_l3 n m t phy dmap = Some (m', r) \<Longrightarrow> pt_buddy m' = pt_buddy m"
  by (induction n arbitrary: m phy dmap) (fastforce simp: Let_def dest: set_entry_buddy split: bind_splits)+

section \<open>A table behind an entry\<close>

lemma phys_virt [simp]: "virt_to_phys_pm (phys_to_virt_pm p) = p" "phys_to_virt_pm (virt_to_phys_pm v) = v"
  by (simp_all add: virt_to_phys_pm_def phys_to_virt_pm_def)

lemma early_page:
  assumes "4096 dvd B" "B + 4096 * n \<le> 2 ^ 30"
  shows "page_ok (phys_to_virt_pm (of_nat (B + 4096 * n)))" "phys_to_virt_pm (of_nat (B + 4096 * n)) \<noteq> 0"
proof -
  let ?p = "of_nat (B + 4096 * n) :: u64"
  have u: "unat ?p = B + 4096 * n" using assms(2) by (rule unat_low)
  show "page_ok (phys_to_virt_pm ?p)" using assms unfolding page_ok_def phys_virt u by simp
  show "phys_to_virt_pm ?p \<noteq> 0"
  proof
    assume "phys_to_virt_pm ?p = 0"
    then have "?p = virt_to_phys_pm 0" by (metis phys_virt(1))
    then have "B + 4096 * n = unat (virt_to_phys_pm 0)" by (metis u)
    then show False using assms(2) by (simp add: virt_to_phys_pm_def get_kernel_phmap_def KERNEL_PHMMAP_def)
  qed
qed

lemma early_pool_tables:
  assumes "early_pool st B M c" "dom (tables m) = dom (tables (pm st))"
  shows "early_pool (st\<lparr>pm := m\<rparr>) B M c"
proof -
  have "tables m t \<noteq> None \<longleftrightarrow> tables (pm st) t \<noteq> None" for t using assms(2) by blast
  then show ?thesis using assms(1) by (simp add: early_pool_def)
qed

text \<open>Everything about the tables but the path that is followed stays.\<close>

definition table_added :: "pgm \<Rightarrow> pgm \<Rightarrow> u64 list \<Rightarrow> bool" where
  "table_added m m' p \<longleftrightarrow> pt_tree m' \<and> grown m m' \<and> same_walk {} m m' \<and>
     (\<forall>r. length r \<le> 3 \<and> r \<noteq> p \<longrightarrow> table_at m' r = table_at m r)"

lemma chk_pt_spec:
  assumes p: "early_pool st B M (Suc c)" and tr: "pt_tree (pm st)"
    and s: "table_at (pm st) p = Some (phys_to_virt_pm t)" "length p \<le> 2" and o: "open_at (pm st) p i"
  obtains st' t' c' where "chk_pt_alloc st t i = Some (st', t')" "table_at (pm st') (i # p) = Some (phys_to_virt_pm t')"
    "early_pool st' B M c'" "c \<le> c'" "c' \<le> Suc c" "table_added (pm st) (pm st') (i # p)" "others (B + 4096 * M) st' = others (B + 4096 * M) st"
proof -
  let ?s = "phys_to_virt_pm t"
  have "length p \<le> 3" using s(2) by simp
  from pt_treeD [OF tr this s(1)] obtain f where f: "tables (pm st) ?s = Some f" "?s \<noteq> 0" by auto
  then have en: "entry (pm st) ?s i = Some (f i)" by (simp add: entry_def)
  show ?thesis
  proof (cases "present (f i)")
    case True
    then obtain q where q: "table_at (pm st) (i # p) = Some q" using o s(1) en unfolding open_at_def by blast
    then have "q = phys_to_virt_pm (PT_REBASE (f i))" using s(1) en by (simp add: table_ptr_def split: if_splits)
    moreover have "chk_pt_alloc st t i = Some (st, PT_REBASE (f i))"
      using en True by (simp add: chk_pt_alloc_def flag_tests)
    ultimately show ?thesis using q p tr by (intro that [of st "PT_REBASE (f i)" "Suc c"]) (simp_all add: table_added_def)
  next
    case False
    let ?a = "of_nat (B + 4096 * Suc c) :: u64"
    define q where "q = phys_to_virt_pm ?a"
    obtain st1 where al: "alloc_frame st = Some (st1, ?a)" and ep: "early_pool st1 B M c"
      and pm1: "pm st1 = (pm st)\<lparr>tables := (tables (pm st))(q \<mapsto> (\<lambda>_. 0))\<rparr>"
      and rg: "others (B + 4096 * M) st1 = others (B + 4096 * M) st"
      using alloc_frame_spec [OF p] unfolding q_def by blast
    have room: "4096 dvd B" "B + 4096 * Suc c \<le> 2 ^ 30" using p by (simp_all add: early_pool_def)
    note pg = early_page [OF room, folded q_def]
    have "\<not> B + 4096 * Suc c < unat (virt_to_phys_pm q)" unfolding q_def phys_virt using unat_low [OF room(2)] by simp
    then have un: "tables (pm st) q = None" using p unfolding early_pool_def by blast
    then have nq: "\<forall>p'. length p' \<le> 3 \<longrightarrow> table_at (pm st) p' \<noteq> Some q" using pt_treeD [OF tr] by blast
    have qs: "q \<noteq> ?s" using f un by auto
    define e where "e = virt_to_phys_pm q OR PT_FLAG_PRESENT OR PT_FLAG_WRITABLE"
    have ee: "e = ?a OR PT_FLAGS_RW" by (simp add: e_def q_def PT_FLAGS_RW_def or.assoc)
    note ef = link_entry_facts [OF pg(1), folded e_def]
    define m' where "m' = (link_table (pm st) q ?s i e f)\<lparr>pt_buddy := pt_buddy (pm st)\<rparr>"
    note g = link_grows [OF tr s f pg(2) nq False ef m'_def]
    have "set_pte st1 t i e = Some (st1\<lparr>pm := m'\<rparr>)"
      using f qs by (simp add: set_pte_def set_entry_def pm1 m'_def link_table_def)
    then have run: "chk_pt_alloc st t i = Some (st1\<lparr>pm := m'\<rparr>, ?a)"
      using en False al ee by (simp add: chk_pt_alloc_def flag_tests)
    have "dom (tables m') = dom (tables (pm st1))" using f qs by (auto simp: m'_def link_table_def pm1)
    then have ep': "early_pool (st1\<lparr>pm := m'\<rparr>) B M c" by (rule early_pool_tables [OF ep])
    have "table_added (pm st) m' (i # p)" unfolding table_added_def using g by auto
    then show ?thesis using run ep' g(1) [of "i # p"] s(2) rg
      by (intro that [of "st1\<lparr>pm := m'\<rparr>" ?a c]) (simp_all add: q_def others_pm m'_def pm1)
  qed
qed

end
