(* ===== verification/BootCode.thy ===== *)
theory BootCode
  imports BootPool
begin

text \<open>
  The mapping of the kernel image that \<^verbatim>\<open>boot.c\<close> builds: every page of the image at its offset from
  \<^verbatim>\<open>KERNEL_OFFSET\<close>, read-only between \<^verbatim>\<open>_begin\<close> and \<^verbatim>\<open>_after_ro\<close>.
\<close>

section \<open>The pages of one table\<close>

definition KOFF :: nat where "KOFF = 0xFFFFFFFF80000"

lemma pg_KOFF: "KERNEL_OFFSET = pg KOFF"
  by (simp add: KERNEL_OFFSET_def pg_def KOFF_def)

definition code_entry :: "kimage \<Rightarrow> nat \<Rightarrow> u64" where
  "code_entry im n = pg n OR
     (if phys_to_virt_of (pg n) < begin_sym im \<or> phys_to_virt_of (pg n) \<ge> after_ro im
      then PT_FLAG_PRESENT OR PT_FLAG_WRITABLE else PT_FLAG_PRESENT)"

text \<open>The first \<open>r\<close> pages of the image are entered from page \<open>P\<close> on, and nothing else is changed.\<close>

definition code_mapped :: "kimage \<Rightarrow> pgm \<Rightarrow> nat \<Rightarrow> nat \<Rightarrow> bool" where
  "code_mapped im m P r \<longleftrightarrow> (\<forall>j<r. pte_of m (KOFF + P + j) = Some (code_entry im (P + j)))"

definition kept :: "pgm \<Rightarrow> pgm \<Rightarrow> nat \<Rightarrow> nat \<Rightarrow> bool" where
  "kept m m' P r \<longleftrightarrow> pt_tree m' \<and> grown m m' \<and> same_walk (pages_mod (KOFF + P) r) m m'"

lemma kept_refl [simp]: "pt_tree m \<Longrightarrow> kept m m P 0"
  by (simp add: kept_def pages_mod_def)

lemma kept_trans: "kept m m1 P a \<Longrightarrow> kept m1 m2 (P + a) b \<Longrightarrow> kept m m2 P (a + b)"
  unfolding kept_def using pages_mod_append [of "KOFF + P" a b]
  by (auto intro: grown_trans same_walk_trans simp: add.assoc)

lemma code_mapped_later:
  assumes "code_mapped im m P a" "kept m m' (P + a) b" "a + b \<le> 2 ^ 36"
  shows "code_mapped im m' P a"
  unfolding code_mapped_def
proof (intro allI impI)
  fix j assume j: "j < a"
  then have "(KOFF + P + j) mod 2 ^ 36 \<notin> pages_mod (KOFF + P + a) b"
    using assms(3) by (intro page_mod_later) auto
  then show "pte_of m' (KOFF + P + j) = Some (code_entry im (P + j))"
    using assms(1,2) j unfolding code_mapped_def kept_def same_walk_def by (simp add: add.assoc)
qed

lemma code_mapped_append:
  assumes "code_mapped im m P a" "code_mapped im m (P + a) b"
  shows "code_mapped im m P (a + b)"
  unfolding code_mapped_def
proof (intro allI impI)
  fix j assume j: "j < a + b"
  show "pte_of m (KOFF + P + j) = Some (code_entry im (P + j))"
  proof (cases "j < a")
    case False
    then have "j - a < b" using j by simp
    then have "pte_of m (KOFF + (P + a) + (j - a)) = Some (code_entry im (P + a + (j - a)))"
      using assms(2) unfolding code_mapped_def by blast
    then show ?thesis using False by (simp add: add.assoc)
  qed (use assms(1) in \<open>simp add: code_mapped_def\<close>)
qed

lemma KOFF_index:
  assumes "k < 512"
  shows "pidx 0 (KOFF + 512 * j + k) = of_nat k" "ppath (KOFF + 512 * j + k) 0 = ppath (KOFF + 512 * j) 0"
proof -
  have K: "KOFF = 512 * 0x7FFFFFFFC00" by (simp add: KOFF_def)
  have e: "KOFF + 512 * j + k = k + 512 * (0x7FFFFFFFC00 + j)" "KOFF + 512 * j = 512 * (0x7FFFFFFFC00 + j)"
    unfolding K by simp_all
  have "(KOFF + 512 * j + k) mod 512 = k" unfolding e(1) using assms by (simp only: mod_mult_self2 mod_less)
  then show "pidx 0 (KOFF + 512 * j + k) = of_nat k" by (simp add: pidx_def)
  have "(KOFF + 512 * j + k) div 512 = (KOFF + 512 * j) div 512" unfolding e using assms by simp
  then show "ppath (KOFF + 512 * j + k) 0 = ppath (KOFF + 512 * j) 0" by (intro ppath_same) simp
qed

lemma kcode_pages_spec:
  assumes "pt_tree m" "table_at m (ppath (KOFF + 512 * j) 0) = Some t" "k + n \<le> 512"
  shows "\<exists>m'. kcode_pages n (of_nat k) im m t (pg (512 * j + k)) = Some (m', pg (512 * j + k + n)) \<and>
    kept m m' (512 * j + k) n \<and> code_mapped im m' (512 * j + k) n \<and> dom (tables m') = dom (tables m) \<and>
    (\<forall>p. length p \<le> 3 \<longrightarrow> table_at m' p = table_at m p)"
  using assms
proof (induction n arbitrary: m k)
  case 0
  then show ?case by (simp add: code_mapped_def)
next
  case (Suc n)
  have k: "k < 512" using Suc.prems(3) by simp
  let ?N = "KOFF + 512 * j + k"
  have t: "table_at m (ppath ?N 0) = Some t" using Suc.prems(2) KOFF_index(2) [OF k] by simp
  obtain m1 where m1: "set_entry m t (pidx 0 ?N) (code_entry im (512 * j + k)) = Some m1" "pt_tree m1" "grown m m1"
    "same_walk {?N mod 2 ^ 36} m m1" "pte_of m1 ?N = Some (code_entry im (512 * j + k))"
    "\<forall>p. length p \<le> 3 \<longrightarrow> table_at m1 p = table_at m p" "dom (tables m1) = dom (tables m)"
    using leaf_writes [OF Suc.prems(1) t, of "code_entry im (512 * j + k)"] by metis
  have t1: "table_at m1 (ppath (KOFF + 512 * j) 0) = Some t" using m1(6) Suc.prems(2) by (simp add: ppath_simps)
  have "Suc k + n \<le> 512" using Suc.prems(3) by simp
  from Suc.IH [OF m1(2) t1 this] obtain m2 where
    m2: "kcode_pages n (of_nat (Suc k)) im m1 t (pg (512 * j + Suc k)) = Some (m2, pg (512 * j + Suc k + n))"
    "kept m1 m2 (512 * j + k + 1) n" "code_mapped im m2 (512 * j + k + 1) n" "dom (tables m2) = dom (tables m1)"
    "\<forall>p. length p \<le> 3 \<longrightarrow> table_at m2 p = table_at m1 p" by auto
  have s: "pg (512 * j + k) + PT_L1_ENTRYSZ = pg (512 * j + Suc k)"
    using pg_step [of "512 * j + k"] by (simp add: PT_L1_ENTRYSZ_def PAGESIZE_def)
  have "kcode_pages (Suc n) (of_nat k) im m t (pg (512 * j + k)) = Some (m2, pg (512 * j + k + Suc n))"
    using m1(1) m2(1) KOFF_index(1) [OF k, of j] s by (auto simp: code_entry_def Let_def add.commute)
  moreover have k1: "kept m m1 (512 * j + k) 1"
    using m1(2-4) by (simp add: kept_def pages_mod_def add.assoc lessThan_Suc)
  moreover have "code_mapped im m1 (512 * j + k) 1" using m1(5) by (simp add: code_mapped_def add.assoc)
  ultimately show ?case
    using kept_trans [OF k1 m2(2)] code_mapped_append [OF code_mapped_later [OF _ m2(2)] m2(3)] m1(6,7) m2(4,5) Suc.prems(3)
    by (intro exI [of _ m2]) auto
qed

section \<open>The tables of the image\<close>

lemma KOFF_tables:
  assumes "j < 512"
  shows "page_l2_idx (KERNEL_OFFSET + of_nat j * PT_L2_ENTRYSZ) # ppath KOFF 1 = ppath (KOFF + 512 * j) 0"
proof -
  have b: "512 * j < 262144" using assms by simp
  have "(KOFF + 512 * j) div 262144 = 0x3FFFFFFFE" using b by (intro div_nat_eqI) (simp_all add: KOFF_def)
  then have d: "(KOFF + 512 * j) div 262144 = KOFF div 262144" by (simp add: KOFF_def)
  have "KERNEL_OFFSET + of_nat j * PT_L2_ENTRYSZ = pg (KOFF + 512 * j)"
    by (simp add: pg_KOFF pg_def PT_L2_ENTRYSZ_def PT_L1_ENTRYSZ_def PT_ENTRIES_def)
  moreover have "KOFF + 512 * j < 2 ^ 52" using b by (simp add: KOFF_def)
  ultimately have "page_l2_idx (KERNEL_OFFSET + of_nat j * PT_L2_ENTRYSZ) = pidx 1 (KOFF + 512 * j)"
    by (simp only: idx_simps idx_pageno pageno_pg0)
  moreover have "ppath (KOFF + 512 * j) 1 = ppath KOFF 1" using d by (intro ppath_same) simp
  ultimately show ?thesis using ppath_Cons [of 0 "KOFF + 512 * j"] by simp
qed

lemma table_added_kept: "table_added m m' p \<Longrightarrow> kept m m' P 0"
  by (simp add: table_added_def kept_def pages_mod_def)

lemma pt_entries: "unat PT_ENTRIES = 512"
  by (simp add: PT_ENTRIES_def)

lemma init_kcode_l1_spec:
  assumes "early_pool st B M (c + n)" "pt_tree (pm st)"
    and "table_at (pm st) (ppath KOFF 1) = Some (phys_to_virt_pm pd)" "\<forall>i. open_at (pm st) (ppath KOFF 1) i"
    and "j + n \<le> 512"
  shows "\<exists>st' c'. init_kcode_l1 n (of_nat j) im st pd KERNEL_OFFSET (pg (512 * j)) = Some (st', pg (512 * (j + n))) \<and>
    early_pool st' B M c' \<and> c \<le> c' \<and> kept (pm st) (pm st') (512 * j) (512 * n) \<and>
    code_mapped im (pm st') (512 * j) (512 * n) \<and> others (B + 4096 * M) st' = others (B + 4096 * M) st \<and>
    (\<forall>r. length r \<le> 1 \<longrightarrow> table_at (pm st') r = table_at (pm st) r)"
  using assms
proof (induction n arbitrary: st j c)
  case 0
  then show ?case by (auto simp: code_mapped_def)
next
  case (Suc n)
  define i where "i = page_l2_idx (KERNEL_OFFSET + of_nat j * PT_L2_ENTRYSZ)"
  have j: "j < 512" using Suc.prems(5) by simp
  have path: "i # ppath KOFF 1 = ppath (KOFF + 512 * j) 0" using KOFF_tables [OF j] by (simp add: i_def)
  have ep: "early_pool st B M (Suc (c + n))" using Suc.prems(1) by simp
  have l: "length (ppath KOFF 1) \<le> 2" by (simp add: ppath_simps)
  obtain st1 pt c1 where s1: "chk_pt_alloc st pd i = Some (st1, pt)"
    "table_at (pm st1) (i # ppath KOFF 1) = Some (phys_to_virt_pm pt)" "early_pool st1 B M c1" "c + n \<le> c1"
    "table_added (pm st) (pm st1) (i # ppath KOFF 1)" "others (B + 4096 * M) st1 = others (B + 4096 * M) st"
    using chk_pt_spec [OF ep Suc.prems(2,3) l] Suc.prems(4) by metis
  have tr1: "pt_tree (pm st1)" and g1: "grown (pm st) (pm st1)" using s1(5) by (simp_all add: table_added_def)
  have "0 + 512 \<le> (512 :: nat)" by simp
  from kcode_pages_spec [OF tr1 s1(2) [unfolded path] this, of im] obtain m where
    m: "kcode_pages 512 0 im (pm st1) (phys_to_virt_pm pt) (pg (512 * j)) = Some (m, pg (512 * j + 512))"
    "kept (pm st1) m (512 * j) 512" "code_mapped im m (512 * j) 512" "dom (tables m) = dom (tables (pm st1))"
    "\<forall>p. length p \<le> 3 \<longrightarrow> table_at m p = table_at (pm st1) p" by auto
  define st2 where "st2 = st1\<lparr>pm := m\<rparr>"
  have ep2: "early_pool st2 B M ((c1 - n) + n)"
    using early_pool_tables [OF s1(3) m(4)] s1(4) by (simp add: st2_def)
  have tr2: "pt_tree (pm st2)" using m(2) by (simp add: kept_def st2_def)
  have gr: "grown (pm st) (pm st2)" using g1 m(2) grown_trans by (auto simp: kept_def st2_def)
  have t2: "table_at (pm st2) (ppath KOFF 1) = Some (phys_to_virt_pm pd)"
    using gr Suc.prems(3) unfolding grown_def by (simp add: ppath_simps)
  have o2: "\<forall>i. open_at (pm st2) (ppath KOFF 1) i" using gr Suc.prems(4) l unfolding grown_def by blast
  have j2: "Suc j + n \<le> 512" using Suc.prems(5) by simp
  from Suc.IH [OF ep2 tr2 t2 o2 j2] obtain st' c' where
    r: "init_kcode_l1 n (of_nat (Suc j)) im st2 pd KERNEL_OFFSET (pg (512 * Suc j)) = Some (st', pg (512 * (Suc j + n)))"
    "early_pool st' B M c'" "c1 - n \<le> c'" "kept (pm st2) (pm st') (512 * j + 512) (512 * n)"
    "code_mapped im (pm st') (512 * j + 512) (512 * n)" "others (B + 4096 * M) st' = others (B + 4096 * M) st2"
    "\<forall>r. length r \<le> 1 \<longrightarrow> table_at (pm st') r = table_at (pm st2) r" by (auto simp: add.commute)
  have o2: "others (B + 4096 * M) st2 = others (B + 4096 * M) st1"
    unfolding st2_def using m(1) by (intro others_pm kcode_pages_buddy)
  have e: "512 * Suc j = 512 * j + 512" "512 * Suc n = 512 + 512 * n" "512 * (Suc j + n) = 512 * (j + Suc n)" by simp_all
  have k1: "kept (pm st) (pm st2) (512 * j) 512"
    using kept_trans [OF table_added_kept [OF s1(5)], of m "512 * j" 512] m(2) by (simp add: st2_def)
  have cm: "code_mapped im (pm st') (512 * j) (512 + 512 * n)"
    using code_mapped_append [OF code_mapped_later [OF _ r(4)] r(5)] m(3) j2 by (simp add: st2_def)
  have run: "init_kcode_l1 (Suc n) (of_nat j) im st pd KERNEL_OFFSET (pg (512 * j)) = Some (st', pg (512 * (j + Suc n)))"
    using s1(1) m(1) r(1) by (simp add: i_def [symmetric] pt_entries st2_def e add.commute)
  have tb: "table_at (pm st') q = table_at (pm st) q" if "length q \<le> 1" for q
  proof -
    have "q \<noteq> i # ppath KOFF 1" using that by (auto simp: ppath_simps)
    then show ?thesis using r(7) m(5) s1(5) that by (simp add: table_added_def st2_def)
  qed
  show ?case unfolding e(2)
    using run r(2,3,6) kept_trans [OF k1 r(4)] cm tb s1(4,6) o2 by (intro exI [of _ st'] exI [of _ c']) simp
qed

section \<open>The image\<close>

text \<open>The tables for the \<open>b\<close> bytes of an image that is at most 1 GiB long.\<close>

lemma image_tables:
  assumes "0 < b" "b \<le> 2 ^ 30"
  shows "((of_nat b + PT_L2_ENTRYMASK) AND NOT PT_L2_ENTRYMASK) div PT_L2_ENTRYSZ = of_nat ((b + 0x1FFFFF) div 0x200000)"
    "((of_nat b + PT_L3_ENTRYMASK) AND NOT PT_L3_ENTRYMASK) div PT_L3_ENTRYSZ = 1"
    "(b + 0x1FFFFF) div 0x200000 \<le> 512"
proof -
  show "((of_nat b + PT_L2_ENTRYMASK) AND NOT PT_L2_ENTRYMASK) div PT_L2_ENTRYSZ = of_nat ((b + 0x1FFFFF) div 0x200000)"
    using ceil_bytes [of b 21] assms
    by (simp add: PT_L2_ENTRYMASK_def PT_L2_ENTRYSZ_def PT_L1_ENTRYSZ_def PT_ENTRIES_def push_bit_eq_mult)
  have "(b + 1073741823) div 1073741824 = 1" using assms by (intro div_nat_eqI) auto
  then show "((of_nat b + PT_L3_ENTRYMASK) AND NOT PT_L3_ENTRYMASK) div PT_L3_ENTRYSZ = 1"
    using ceil_bytes [of b 30] assms
    by (simp add: PT_L3_ENTRYMASK_def PT_L3_ENTRYSZ_def PT_L2_ENTRYSZ_def PT_L1_ENTRYSZ_def PT_ENTRIES_def push_bit_eq_mult)
  show "(b + 0x1FFFFF) div 0x200000 \<le> 512" using assms(2) by simp
qed

lemma pt_init_kcode_spec:
  assumes ep: "early_pool st B M (c + 2 + n)" and tr: "pt_tree (pm st)"
    and l4: "kpt_get_l4 (pm st) = phys_to_virt_pm pt_l4" and fresh: "table_at (pm st) [pidx 3 KOFF] = None"
    and sz: "(kphys_end im - kphys_start im) + bi_load_addr info = of_nat b" "0 < b" "b \<le> 2 ^ 30"
    and n: "n = (b + 0x1FFFFF) div 0x200000"
  shows "\<exists>st' c'. pt_init_kcode im st pt_l4 info = Some st' \<and> early_pool st' B M c' \<and> c \<le> c' \<and>
    kept (pm st) (pm st') 0 (512 * n) \<and> code_mapped im (pm st') 0 (512 * n) \<and> others (B + 4096 * M) st' = others (B + 4096 * M) st \<and>
    (\<forall>i. i \<noteq> pidx 3 KOFF \<longrightarrow> table_at (pm st') [i] = table_at (pm st) [i])"
proof -
  have path: "ppath KOFF 1 = [pidx 2 KOFF, pidx 3 KOFF]"
    using ppath_Cons [of 1 KOFF] ppath_Cons [of 2 KOFF] ppath_simps(1) [of KOFF]
    by (simp add: numeral_2_eq_2 [symmetric] numeral_3_eq_3 [symmetric])
  have pK: "pageno KERNEL_OFFSET = KOFF" unfolding pg_KOFF by (rule pageno_pg0) (simp add: KOFF_def)
  have i3: "page_l4_idx KERNEL_OFFSET = pidx 3 KOFF" by (simp add: idx_simps idx_pageno pK)
  have i2: "page_l3_idx (KERNEL_OFFSET + 0 * PT_L3_ENTRYSZ) = pidx 2 KOFF" by (simp add: idx_simps idx_pageno pK)
  have ep1: "early_pool st B M (Suc (c + 1 + n))" using ep by simp
  have root: "table_at (pm st) [] = Some (phys_to_virt_pm pt_l4)" using l4 by simp
  have o: "open_at (pm st) [] (pidx 3 KOFF)" by (simp add: open_at_def)
  have l0: "length ([] :: u64 list) \<le> 2" "length [pidx 3 KOFF] \<le> 2" by simp_all
  obtain st1 l3 c1 where s1: "chk_pt_alloc st pt_l4 (pidx 3 KOFF) = Some (st1, l3)"
    "table_at (pm st1) [pidx 3 KOFF] = Some (phys_to_virt_pm l3)" "early_pool st1 B M c1" "c + 1 + n \<le> c1"
    "c1 \<le> Suc (c + 1 + n)" "table_added (pm st) (pm st1) [pidx 3 KOFF]" "others (B + 4096 * M) st1 = others (B + 4096 * M) st"
    by (rule chk_pt_spec [OF ep1 tr root l0(1) o])
  have tr1: "pt_tree (pm st1)" and g1: "grown (pm st) (pm st1)" using s1(6) by (simp_all add: table_added_def)
  have op: "open_at (pm st1) q j" if "length q \<le> 2" "table_at (pm st) q = None" for q j
  proof -
    have "open_at (pm st) q j" using that(2) by (simp add: open_at_def)
    then show ?thesis using g1 that(1) unfolding grown_def by blast
  qed
  have "early_pool st1 B M (Suc (c1 - 1))" using s1(3,4) by simp
  note ep1' = this
  have o1: "open_at (pm st1) [pidx 3 KOFF] (pidx 2 KOFF)" using fresh by (intro op) simp_all
  obtain st2 pd c2 where
    s2: "chk_pt_alloc st1 l3 (pidx 2 KOFF) = Some (st2, pd)"
    "table_at (pm st2) [pidx 2 KOFF, pidx 3 KOFF] = Some (phys_to_virt_pm pd)" "early_pool st2 B M c2" "c1 - 1 \<le> c2"
    "c2 \<le> Suc (c1 - 1)" "table_added (pm st1) (pm st2) [pidx 2 KOFF, pidx 3 KOFF]" "others (B + 4096 * M) st2 = others (B + 4096 * M) st1"
    by (rule chk_pt_spec [OF ep1' tr1 s1(2) l0(2) o1])
  have tr2: "pt_tree (pm st2)" and g2: "grown (pm st1) (pm st2)" using s2(6) by (simp_all add: table_added_def)
  have "table_at (pm st) [pidx 2 KOFF, pidx 3 KOFF] = None" using fresh by simp
  then have "open_at (pm st1) [pidx 2 KOFF, pidx 3 KOFF] j" for j by (intro op) simp_all
  then have o2: "\<forall>i. open_at (pm st2) (ppath KOFF 1) i" using g2 unfolding grown_def path by simp
  have ep2: "early_pool st2 B M ((c2 - n) + n)" using s2(3,4) s1(4) by simp
  have n512: "0 + n \<le> 512" using image_tables(3) [OF sz(2,3)] n by simp
  from init_kcode_l1_spec [OF ep2 tr2 s2(2) [folded path] o2 n512, of im] obtain st3 c3 where
    s3: "init_kcode_l1 n 0 im st2 pd KERNEL_OFFSET 0 = Some (st3, pg (512 * n))" "early_pool st3 B M c3" "c2 - n \<le> c3"
    "kept (pm st2) (pm st3) 0 (512 * n)" "code_mapped im (pm st3) 0 (512 * n)" "others (B + 4096 * M) st3 = others (B + 4096 * M) st2"
    "\<forall>r. length r \<le> 1 \<longrightarrow> table_at (pm st3) r = table_at (pm st2) r" by (auto simp: pg_def)
  have "unat (of_nat n :: u64) = n" using n512 by (intro unat_low) simp
  then have run: "pt_init_kcode im st pt_l4 info = Some st3"
    using s1(1) s2(1) s3(1) image_tables(1,2) [OF sz(2,3)] i2
    by (simp add: pt_init_kcode_def sz(1) i3 n [symmetric])
  have "kept (pm st) (pm st2) 0 (0 + 0)"
    using kept_trans [OF table_added_kept [OF s1(6)] table_added_kept [OF s2(6)], of 0] .
  from kept_trans [OF this] s3(4) have kp: "kept (pm st) (pm st3) 0 (512 * n)" by simp
  have "table_at (pm st3) [i] = table_at (pm st) [i]" if "i \<noteq> pidx 3 KOFF" for i
  proof -
    have "table_at (pm st3) [i] = table_at (pm st2) [i]" using s3(7) by (simp del: table_at.simps)
    also have "\<dots> = table_at (pm st1) [i]" using s2(6) by (simp add: table_added_def del: table_at.simps)
    also have "\<dots> = table_at (pm st) [i]" using s1(6) that by (simp add: table_added_def del: table_at.simps)
    finally show ?thesis .
  qed
  then show ?thesis using run s3 kp s1(4,7) s2(4,7) by (intro exI [of _ st3] exI [of _ c3]) auto
qed

end
