(* ===== verification/BootDram.thy ===== *)
theory BootDram
  imports BootCode
begin

text \<open>
  The direct map that \<^verbatim>\<open>boot.c\<close> builds: every GiB of memory behind \<^verbatim>\<open>KERNEL_PHMMAP\<close>, by large entries of
  third-level tables.
\<close>

section \<open>Addresses of the direct map\<close>

definition dm :: "nat \<Rightarrow> u64" where "dm x = get_kernel_phmap + of_nat x"

text \<open>The GiB of an address, among the \<open>2 ^ 18\<close> the tables tell apart.\<close>

definition gib :: "u64 \<Rightarrow> nat" where "gib w = unat w div 2 ^ 30 mod 2 ^ 18"

lemma unat_dm: "x < 2 ^ 46 \<Longrightarrow> unat (dm x) = 0xFFFF800000000000 + x"
  unfolding dm_def get_kernel_phmap_def KERNEL_PHMMAP_def by (subst unat_plus_of_nat) simp_all

lemma gib_dm:
  assumes "x < 2 ^ 46"
  shows "gib (dm x) = 0x20000 + x div 2 ^ 30"
proof -
  define q where "q = x div 2 ^ 30"
  have q: "q < 2 ^ 16" unfolding q_def using assms by (intro less_mult_imp_div_less) simp
  have "(0xFFFF800000000000 + x) div 2 ^ 30 = (x + 0x3FFFE0000 * 2 ^ 30) div 2 ^ 30" by (simp add: add.commute)
  also have "\<dots> = 0x3FFFE0000 + q" unfolding q_def by (rule div_mult_self1) simp
  also have "\<dots> = (0x20000 + q) + 0xFFFF * 2 ^ 18" by simp
  finally have "gib (dm x) = ((0x20000 + q) + 0xFFFF * 2 ^ 18) mod 2 ^ 18" by (simp only: gib_def unat_dm [OF assms])
  also have "\<dots> = (0x20000 + q) mod 2 ^ 18" by (rule mod_mult_self1)
  also have "\<dots> = 0x20000 + q" using q by (intro mod_less) simp
  finally show ?thesis by (simp only: q_def)
qed

lemma gib_index:
  "idx 3 w = of_nat (gib w div 512)" "idx 2 w = of_nat (gib w mod 512)"
proof -
  define n where "n = pageno w div 2 ^ 18"
  have g: "gib w = n mod (512 * 512)" by (simp add: gib_def n_def pageno_def div_mult2_eq [symmetric])
  have e: "gib w = 512 * (n div 512 mod 512) + n mod 512" unfolding g by (rule mod_mult2_eq)
  have d: "gib w div 512 = n div 512 mod 512" "gib w mod 512 = n mod 512"
    unfolding e by (simp_all only: div_mult_self4 mod_mult_self4 mod_mod_trivial div_less mod_less_divisor)
  have "n div 512 = pageno w div 2 ^ 27" by (simp add: n_def div_mult2_eq [symmetric])
  then show "idx 3 w = of_nat (gib w div 512)" "idx 2 w = of_nat (gib w mod 512)"
    unfolding d by (simp_all add: idx_pageno pidx_def n_def)
qed

lemma tpath_2: "tpath w 2 = [idx 3 w]"
  by (simp add: tpath_def upt_rec)

lemma small_inject: "a < 512 \<Longrightarrow> b < 512 \<Longrightarrow> (of_nat a :: u64) = of_nat b \<Longrightarrow> a = b"
  using of_nat_low_eq [of a b] by simp

lemma gib_distinct:
  assumes "tpath w 2 = [of_nat (g div 512)]" "idx 2 w = of_nat (g mod 512)" "g < 2 ^ 18"
  shows "gib w = g"
proof -
  have "gib w < 512 * 512" by (simp add: gib_def)
  then have b: "gib w div 512 < 512" "g div 512 < 512" using assms(3) by (auto intro: less_mult_imp_div_less)
  have "gib w div 512 = g div 512" using assms(1) by (intro small_inject b) (simp add: tpath_2 gib_index)
  moreover have "gib w mod 512 = g mod 512" using assms(2) by (intro small_inject) (simp_all add: gib_index)
  ultimately show ?thesis by (metis div_mult_mod_eq)
qed

section \<open>Large entries\<close>

definition dm_entry :: "nat \<Rightarrow> u64" where
  "dm_entry g = of_nat (g * 2 ^ 30) OR (PT_FLAG_PRESENT OR PT_FLAG_WRITABLE OR PT_FLAG_PAGESIZE)"

lemma dm_entry_flags: "present (dm_entry g)" "large (dm_entry g)"
  by (simp_all add: dm_entry_def present_def large_def bit_simps PT_FLAG_PRESENT_def PT_FLAG_WRITABLE_def PT_FLAG_PAGESIZE_def)

lemma word_split: "push_bit 30 (drop_bit 30 x) OR take_bit 30 x = (x :: u64)"
  by (intro bit_word_eqI) (auto simp: bit_simps)

lemma dm_entry_phys:
  assumes "x < 2 ^ 46" and w: "unat w mod 2 ^ 30 = x mod 2 ^ 30"
  shows "page_phys_rebase (dm_entry (x div 2 ^ 30)) 30 (BITRANGE_MASK 51 30) OR (w AND mask 30) = of_nat x"
proof -
  let ?X = "of_nat x :: u64" and ?g = "x div 2 ^ 30"
  have ux: "unat ?X = x" using assms by (intro unat_of_nat64) simp
  have g: "?g < 2 ^ 16" using assms by (simp add: less_mult_imp_div_less)
  have ug: "unat (of_nat ?g :: u64) = ?g" using g by (intro unat_of_nat64) simp
  have d: "drop_bit 30 ?X = of_nat ?g"
    unfolding word_unat_eq_iff unat_drop ux ug ..
  have t: "take_bit 22 (of_nat ?g :: u64) = of_nat ?g"
    unfolding word_unat_eq_iff unsigned_take_bit_eq ug using g by (simp add: take_bit_nat_eq_self)
  have g34: "n < 34" if "bit (of_nat ?g :: u64) n" for n
    using that bit_take_bit_iff [of 22 "of_nat ?g :: u64" n] unfolding t by simp
  have p: "of_nat (?g * 2 ^ 30) = (push_bit 30 (of_nat ?g) :: u64)" by (simp add: push_bit_eq_mult)
  have "drop_bit 30 (dm_entry ?g) = of_nat ?g"
    unfolding dm_entry_def p
    using g34 by (intro bit_word_eqI) (auto simp: bit_simps PT_FLAG_PRESENT_def PT_FLAG_WRITABLE_def PT_FLAG_PAGESIZE_def)
  moreover have "BITRANGE_MASK 51 30 = mask 22" by (simp add: BITRANGE_MASK_def mask_eq_exp_minus_1)
  ultimately have "page_phys_rebase (dm_entry ?g) 30 (BITRANGE_MASK 51 30) = push_bit 30 (drop_bit 30 ?X)"
    using t d by (simp add: page_phys_rebase_def take_bit_eq_mask)
  moreover have "w AND mask 30 = take_bit 30 ?X"
    unfolding word_unat_eq_iff take_bit_eq_mask [symmetric] unsigned_take_bit_eq ux using w by (simp add: take_bit_eq_mod)
  ultimately show ?thesis by (simp only: word_split)
qed

lemma large_hit:
  assumes "table_at m [idx 3 w] = Some t" "entry m t (idx 2 w) = Some e" "present e" "large e"
  shows "kpt_get_phys m w = Some (page_phys_rebase e 30 (BITRANGE_MASK 51 30) OR (w AND mask 30))"
proof -
  from assms(1) obtain x where x: "entry m (kpt_get_l4 m) (idx 3 w) = Some x" "present x" "t = table_ptr x"
    by (auto split: bind_splits if_splits)
  have s: "Suc 2 = (3 :: nat)" "Suc 1 = (2 :: nat)" by simp_all
  have "pwalk m w 3 (kpt_get_l4 m) = pwalk m w 2 t"
    using x pwalk.simps(2) [of m w 2 "kpt_get_l4 m", unfolded s] by simp
  also have "\<dots> = Some (page_phys_rebase e 30 (BITRANGE_MASK 51 30) OR (w AND mask 30))"
    using assms(2-4) pwalk.simps(2) [of m w 1 t, unfolded s] by simp
  finally show ?thesis by (simp only: kpt_get_phys_walk)
qed

section \<open>The loops\<close>

text \<open>The tables are intact, and only addresses in the GiBs \<open>A\<close> are served differently.\<close>

definition kept_gibs :: "nat set \<Rightarrow> pgm \<Rightarrow> pgm \<Rightarrow> bool" where
  "kept_gibs A m m' \<longleftrightarrow> pt_tree m' \<and> cr3 m' = cr3 m \<and> (\<forall>w. gib w \<notin> A \<longrightarrow> kpt_get_phys m' w = kpt_get_phys m w) \<and>
     (\<forall>N e. pte_of m N = Some e \<longrightarrow> pte_of m' N = Some e)"

definition dram_mapped :: "pgm \<Rightarrow> nat \<Rightarrow> nat \<Rightarrow> bool" where
  "dram_mapped m a b \<longleftrightarrow> (\<forall>x. a * 2 ^ 30 \<le> x \<and> x < b * 2 ^ 30 \<longrightarrow> kpt_get_phys m (dm x) = Some (of_nat x))"

definition gibs :: "nat \<Rightarrow> nat \<Rightarrow> nat set" where "gibs a b = {0x20000 + a..<0x20000 + b}"

lemma kept_gibs_trans: "kept_gibs A m m1 \<Longrightarrow> kept_gibs B m1 m2 \<Longrightarrow> A \<subseteq> C \<Longrightarrow> B \<subseteq> C \<Longrightarrow> kept_gibs C m m2"
  unfolding kept_gibs_def by (metis subsetD)

lemma gibs_parts: "a \<le> b \<Longrightarrow> b \<le> c \<Longrightarrow> gibs a b \<subseteq> gibs a c" "a \<le> b \<Longrightarrow> b \<le> c \<Longrightarrow> gibs b c \<subseteq> gibs a c"
  by (auto simp: gibs_def)

lemma dram_mapped_join:
  assumes "dram_mapped m a b" "kept_gibs (gibs b c) m m'" "dram_mapped m' b c" "c \<le> 2 ^ 16"
  shows "dram_mapped m' a c"
  unfolding dram_mapped_def
proof (intro allI impI)
  fix x assume x: "a * 2 ^ 30 \<le> x \<and> x < c * 2 ^ 30"
  show "kpt_get_phys m' (dm x) = Some (of_nat x)"
  proof (cases "x < b * 2 ^ 30")
    case True
    have "x < 2 ^ 46" using x assms(4) by simp
    then have "gib (dm x) = 0x20000 + x div 2 ^ 30" by (rule gib_dm)
    moreover have "x div 2 ^ 30 < b" using True by (intro less_mult_imp_div_less) simp
    ultimately have "gib (dm x) \<notin> gibs b c" by (simp add: gibs_def)
    then show ?thesis using assms(1,2) x True unfolding dram_mapped_def kept_gibs_def by auto
  next
    case False
    then show ?thesis using assms(3) x unfolding dram_mapped_def by auto
  qed
qed

lemma dram_step:
  assumes tr: "pt_tree m" and g: "g < 2 ^ 16" and t: "table_at m [of_nat (256 + g div 512)] = Some t"
    and nl: "table_at m [of_nat (g mod 512), of_nat (256 + g div 512)] = None"
  obtains m' where "set_entry m t (page_l3_idx (dm (g * 2 ^ 30))) (dm_entry g) = Some m'"
    "kept_gibs (gibs g (g + 1)) m m'" "dram_mapped m' g (g + 1)" "dom (tables m') = dom (tables m)"
    "\<forall>p. length p \<le> 3 \<longrightarrow> table_at m' p = table_at m p"
proof -
  let ?i = "of_nat (256 + g div 512) :: u64" and ?j = "of_nat (g mod 512) :: u64"
  have gd: "gib (dm x) = 0x20000 + g" if "g * 2 ^ 30 \<le> x" "x < (g + 1) * 2 ^ 30" for x
  proof -
    have "x div 2 ^ 30 = g" using that by (intro div_nat_eqI) (simp_all add: mult.commute)
    then show ?thesis using that g by (simp add: gib_dm)
  qed
  have dv: "(0x20000 + g) div 512 = 256 + g div 512" "(0x20000 + g) mod 512 = g mod 512"
    using div_mult_self4 [of 512 256 g] mod_mult_self4 [of 512 256 g] by simp_all
  have ix: "idx 3 (dm x) = ?i" "idx 2 (dm x) = ?j" if "g * 2 ^ 30 \<le> x" "x < (g + 1) * 2 ^ 30" for x
    by (simp_all only: gib_index gd [OF that] dv)
  have l: "length [?i] \<le> 3" by simp
  have nl': "length [?i] < 3 \<Longrightarrow> table_at m [?j, ?i] = None \<and> \<not> (present (dm_entry g) \<and> ([?i] \<noteq> [] \<longrightarrow> \<not> large (dm_entry g)))"
    using nl dm_entry_flags by blast
  obtain m' where m': "set_entry m t ?j (dm_entry g) = Some m'" "pt_tree m'"
    and tb: "\<forall>p. length p \<le> 3 \<longrightarrow> table_at m' p = table_at m p"
    and en: "\<forall>s j. entry m' s j = (if s = t \<and> j = ?j then Some (dm_entry g) else entry m s j)"
    and wk: "\<forall>w. \<not> (tpath w (3 - length [?i]) = [?i] \<and> idx (3 - length [?i]) w = ?j) \<longrightarrow> kpt_get_phys m' w = kpt_get_phys m w"
    and rc: "m' = m\<lparr>tables := tables m'\<rparr>" "dom (tables m') = dom (tables m)"
    by (rule entry_writes [OF tr t l nl'])
  have "kpt_get_phys m' w = kpt_get_phys m w" if "gib w \<notin> gibs g (g + 1)" for w
  proof (rule wk [rule_format])
    have "gib w \<noteq> 0x20000 + g" using that by (auto simp: gibs_def)
    then show "\<not> (tpath w (3 - length [?i]) = [?i] \<and> idx (3 - length [?i]) w = ?j)"
      using gib_distinct [of w "0x20000 + g"] g dv by auto
  qed
  moreover have "pte_of m' N = Some e" if "pte_of m N = Some e" for N e
  proof -
    from that obtain s where s: "table_at m (ppath N 0) = Some s" "entry m s (pidx 0 N) = Some e"
      by (auto simp: pte_of_def split: bind_splits)
    have "length (ppath N 0) \<noteq> length [?i]" by (simp add: ppath_simps)
    then have "ppath N 0 \<noteq> [?i]" by metis
    then have "s \<noteq> t" using tree_injD [of m _ s "[?i]"] tr s(1) t by (auto simp: pt_tree_def ppath_simps)
    then show ?thesis using s tb en by (simp add: pte_of_def ppath_simps)
  qed
  moreover have "cr3 m' = cr3 m" by (subst rc(1)) simp
  ultimately have kg: "kept_gibs (gibs g (g + 1)) m m'" using m'(2) unfolding kept_gibs_def by blast
  have "dram_mapped m' g (g + 1)"
    unfolding dram_mapped_def
  proof (intro allI impI, elim conjE)
    fix x assume x: "g * 2 ^ 30 \<le> x" "x < (g + 1) * 2 ^ 30"
    have x46: "x < 2 ^ 46" and xg: "x div 2 ^ 30 = g"
      using x g by (simp, intro div_nat_eqI, simp_all add: mult.commute)
    have "unat (dm x) = x + 0x3FFFE0000 * 2 ^ 30" by (simp add: unat_dm [OF x46])
    then have w: "unat (dm x) mod 2 ^ 30 = x mod 2 ^ 30" by (simp only: mod_mult_self1)
    have t': "table_at m' [idx 3 (dm x)] = Some t" using tb [rule_format, OF l] t by (simp only: ix [OF x])
    have e: "entry m' t (idx 2 (dm x)) = Some (dm_entry g)" unfolding ix [OF x] en [rule_format] by simp
    have "kpt_get_phys m' (dm x) = Some (page_phys_rebase (dm_entry g) 30 (BITRANGE_MASK 51 30) OR (dm x AND mask 30))"
      by (rule large_hit [OF t' e dm_entry_flags])
    also have "\<dots> = Some (of_nat x)" using dm_entry_phys [OF x46 w] unfolding xg by simp
    finally show "kpt_get_phys m' (dm x) = Some (of_nat x)" .
  qed
  moreover have "page_l3_idx (dm (g * 2 ^ 30)) = ?j" using ix(2) [of "g * 2 ^ 30"] by (simp add: idx_simps)
  ultimately show ?thesis using m'(1) kg rc(2) tb by (intro that) auto
qed

lemma dm_step: "of_nat (g * 2 ^ 30) + PT_L3_ENTRYSZ = (of_nat ((g + 1) * 2 ^ 30) :: u64)"
    "dm (g * 2 ^ 30) + PT_L3_ENTRYSZ = dm ((g + 1) * 2 ^ 30)"
  by (simp_all add: dm_def PT_L3_ENTRYSZ_def PT_L2_ENTRYSZ_def PT_L1_ENTRYSZ_def PT_ENTRIES_def algebra_simps)

lemma dmap_l3_spec:
  assumes "pt_tree m" "table_at m [of_nat (256 + g div 512)] = Some t" "g mod 512 + n \<le> 512" "g + n \<le> 2 ^ 16"
    and "\<forall>j. table_at m [j, of_nat (256 + g div 512)] = None"
  shows "\<exists>m'. dmap_l3 n m t (of_nat (g * 2 ^ 30)) (dm (g * 2 ^ 30)) = Some (m', of_nat ((g + n) * 2 ^ 30), dm ((g + n) * 2 ^ 30)) \<and>
    kept_gibs (gibs g (g + n)) m m' \<and> dram_mapped m' g (g + n) \<and> dom (tables m') = dom (tables m) \<and>
    (\<forall>p. length p \<le> 3 \<longrightarrow> table_at m' p = table_at m p)"
  using assms
proof (induction n arbitrary: m g)
  case 0
  then show ?case by (auto simp: kept_gibs_def dram_mapped_def)
next
  case (Suc n)
  let ?i = "of_nat (256 + g div 512) :: u64"
  have g: "g < 2 ^ 16" using Suc.prems(4) by simp
  obtain m1 where m1: "set_entry m t (page_l3_idx (dm (g * 2 ^ 30))) (dm_entry g) = Some m1"
    "kept_gibs (gibs g (g + 1)) m m1" "dram_mapped m1 g (g + 1)" "dom (tables m1) = dom (tables m)"
    "\<forall>p. length p \<le> 3 \<longrightarrow> table_at m1 p = table_at m p"
    by (rule dram_step [OF Suc.prems(1) g Suc.prems(2) spec [OF Suc.prems(5)]])
  have run: "dmap_l3 (Suc n) m t (of_nat (g * 2 ^ 30)) (dm (g * 2 ^ 30)) =
      dmap_l3 n m1 t (of_nat ((g + 1) * 2 ^ 30)) (dm ((g + 1) * 2 ^ 30))"
    unfolding dmap_l3.simps dm_step dm_entry_def [symmetric] m1(1) by simp
  show ?case
  proof (cases n)
    case 0
    then show ?thesis unfolding run using m1(2-5) by (intro exI [of _ m1]) simp
  next
    case (Suc n')
    then have lt: "g mod 512 + 1 < 512" using Suc.prems(3) by simp
    then have d: "(g + 1) div 512 = g div 512" "(g + 1) mod 512 = g mod 512 + 1" by (simp_all add: div_Suc mod_Suc)
    have tr1: "pt_tree m1" using m1(2) by (simp add: kept_gibs_def)
    have t1: "table_at m1 [of_nat (256 + (g + 1) div 512)] = Some t"
      using m1(5) [rule_format, of "[?i]"] Suc.prems(2) by (simp only: d) simp
    have n1: "\<forall>j. table_at m1 [j, of_nat (256 + (g + 1) div 512)] = None"
      using m1(5) [rule_format, of "[_, ?i]"] Suc.prems(5) by (simp only: d) simp
    have b: "(g + 1) mod 512 + n \<le> 512" "(g + 1) + n \<le> 2 ^ 16" using Suc.prems(3,4) d(2) by simp_all
    from Suc.IH [OF tr1 t1 b n1] obtain m2 where
      m2: "dmap_l3 n m1 t (of_nat ((g + 1) * 2 ^ 30)) (dm ((g + 1) * 2 ^ 30)) =
        Some (m2, of_nat ((g + 1 + n) * 2 ^ 30), dm ((g + 1 + n) * 2 ^ 30))"
      "kept_gibs (gibs (g + 1) (g + 1 + n)) m1 m2" "dram_mapped m2 (g + 1) (g + 1 + n)" "dom (tables m2) = dom (tables m1)"
      "\<forall>p. length p \<le> 3 \<longrightarrow> table_at m2 p = table_at m1 p" by blast
    have e: "g + 1 + n = g + Suc n" by simp
    have "kept_gibs (gibs g (g + Suc n)) m m2"
      by (rule kept_gibs_trans [OF m1(2) m2(2)]) (rule gibs_parts, simp_all)+
    moreover have "dram_mapped m2 g (g + Suc n)"
      using dram_mapped_join [OF m1(3) m2(2,3)] Suc.prems(4) by simp
    moreover have "dmap_l3 (Suc n) m t (of_nat (g * 2 ^ 30)) (dm (g * 2 ^ 30)) =
        Some (m2, of_nat ((g + Suc n) * 2 ^ 30), dm ((g + Suc n) * 2 ^ 30))"
      unfolding run m2(1) e ..
    ultimately show ?thesis using m1(4,5) m2(4,5) by (intro exI [of _ m2]) simp
  qed
qed

lemma table_added_gibs:
  assumes "table_added m m' p"
  shows "kept_gibs A m m'"
  using assms by (simp add: table_added_def kept_gibs_def grown_def same_walk_def)

lemma word_cnt:
  assumes "R \<le> 2 ^ 16"
  shows "(if (of_nat R :: u64) > 512 then 512 else of_nat R) = (of_nat (min 512 R) :: u64)"
    and "of_nat R - of_nat (min 512 R) = (of_nat (R - min 512 R) :: u64)" "unat (of_nat (min 512 R) :: u64) = min 512 R"
proof -
  have "unat (of_nat R :: u64) = R" using assms by (intro unat_low) simp
  then show "(if (of_nat R :: u64) > 512 then 512 else of_nat R) = (of_nat (min 512 R) :: u64)"
    by (simp add: word_less_nat_alt min_def)
  show "of_nat R - of_nat (min 512 R) = (of_nat (R - min 512 R) :: u64)" by (simp add: of_nat_diff)
  show "unat (of_nat (min 512 R) :: u64) = min 512 R" by (intro unat_low) simp
qed

lemma dram_map_l4_spec:
  assumes "n = (R + 511) div 512" "512 * k + R \<le> 2 ^ 16"
    and "early_pool st B M (c + n)" "pt_tree (pm st)" "kpt_get_l4 (pm st) = phys_to_virt_pm pt_l4"
    and "\<forall>i<n. table_at (pm st) [of_nat (256 + k + i)] = None"
  shows "\<exists>st' c'. dram_map_l4 n st pt_l4 (of_nat R) (of_nat (512 * k * 2 ^ 30)) (dm (512 * k * 2 ^ 30)) = Some st' \<and>
    early_pool st' B M c' \<and> c \<le> c' \<and> kept_gibs (gibs (512 * k) (512 * k + R)) (pm st) (pm st') \<and>
    dram_mapped (pm st') (512 * k) (512 * k + R) \<and> others (B + 4096 * M) st' = others (B + 4096 * M) st"
  using assms
proof (induction n arbitrary: st R k c)
  case 0
  then have "R = 0" by simp
  then show ?case using 0 by (auto simp: kept_gibs_def dram_mapped_def)
next
  case (Suc n)
  define a where "a = min 512 R"
  let ?i = "of_nat (256 + k) :: u64"
  have R: "R \<le> 2 ^ 16" "a \<le> 512" "R - a = R - min 512 R" using Suc.prems(2) by (simp_all add: a_def)
  have "512 * Suc n \<le> R + 511" unfolding Suc.prems(1) by (rule times_div_less_eq_dividend)
  then have k: "512 * k < 2 ^ 16" "k + n < 128" using Suc.prems(2) by auto
  have gi: "gib (dm (512 * k * 2 ^ 30)) = 0x20000 + 512 * k"
    using gib_dm [of "512 * k * 2 ^ 30"] k(1) by simp
  have "(0x20000 + 512 * k) div 512 = 256 + k" by simp
  then have ix: "page_l4_idx (dm (512 * k * 2 ^ 30)) = ?i" by (simp only: idx_simps gib_index gi)
  have ep: "early_pool st B M (Suc (c + n))" using Suc.prems(3) by simp
  have root: "table_at (pm st) [] = Some (phys_to_virt_pm pt_l4)" using Suc.prems(5) by simp
  have o: "open_at (pm st) [] ?i" by (simp add: open_at_def)
  have l0: "length ([] :: u64 list) \<le> 2" by simp
  obtain st1 l3 c1 where s1: "chk_pt_alloc st pt_l4 ?i = Some (st1, l3)" "table_at (pm st1) [?i] = Some (phys_to_virt_pm l3)"
    "early_pool st1 B M c1" "c + n \<le> c1" "c1 \<le> Suc (c + n)" "table_added (pm st) (pm st1) [?i]" "others (B + 4096 * M) st1 = others (B + 4096 * M) st"
    by (rule chk_pt_spec [OF ep Suc.prems(4) root l0 o])
  have tr1: "pt_tree (pm st1)" using s1(6) by (simp add: table_added_def)
  have d: "512 * k div 512 = k" "512 * k mod 512 = 0" by simp_all
  have t1: "table_at (pm st1) [of_nat (256 + 512 * k div 512)] = Some (phys_to_virt_pm l3)" using s1(2) unfolding d .
  have i0: "table_at (pm st) [?i] = None" using Suc.prems(6) by (auto dest: spec [of _ 0])
  have "table_at (pm st1) [j, ?i] = None" for j
  proof -
    have "table_at (pm st1) [j, ?i] = table_at (pm st) [j, ?i]"
      using s1(6) by (simp add: table_added_def del: table_at.simps)
    also have "\<dots> = None" unfolding table_at.simps(2) [of _ j "[?i]"] i0 by simp
    finally show ?thesis .
  qed
  then have nl: "\<forall>j. table_at (pm st1) [j, of_nat (256 + 512 * k div 512)] = None" unfolding d by blast
  have b: "512 * k mod 512 + a \<le> 512" "512 * k + a \<le> 2 ^ 16" using R(2) Suc.prems(2) by (simp_all add: a_def)
  obtain m where m: "dmap_l3 a (pm st1) (phys_to_virt_pm l3) (of_nat (512 * k * 2 ^ 30)) (dm (512 * k * 2 ^ 30)) =
      Some (m, of_nat ((512 * k + a) * 2 ^ 30), dm ((512 * k + a) * 2 ^ 30))"
    "kept_gibs (gibs (512 * k) (512 * k + a)) (pm st1) m" "dram_mapped m (512 * k) (512 * k + a)"
    "dom (tables m) = dom (tables (pm st1))" "\<forall>p. length p \<le> 3 \<longrightarrow> table_at m p = table_at (pm st1) p"
    using dmap_l3_spec [OF tr1 t1 b nl] by blast
  define st2 where "st2 = st1\<lparr>pm := m\<rparr>"
  have kg: "kept_gibs (gibs (512 * k) (512 * k + a)) (pm st) (pm st2)"
    using kept_gibs_trans [OF table_added_gibs [OF s1(6), of "{}"] m(2)] by (simp add: st2_def)
  have ep2: "early_pool st2 B M ((c1 - n) + n)" using early_pool_tables [OF s1(3) m(4)] s1(4) by (simp add: st2_def)
  have o2: "others (B + 4096 * M) st2 = others (B + 4096 * M) st1"
    unfolding st2_def using m(1) by (intro others_pm dmap_l3_buddy)
  have run: "dram_map_l4 (Suc n) st pt_l4 (of_nat R) (of_nat (512 * k * 2 ^ 30)) (dm (512 * k * 2 ^ 30)) =
      dram_map_l4 n st2 pt_l4 (of_nat (R - a)) (of_nat ((512 * k + a) * 2 ^ 30)) (dm ((512 * k + a) * 2 ^ 30))"
    unfolding dram_map_l4.simps ix s1(1) using m(1) word_cnt [OF R(1)]
    by (simp only: bind.simps prod.case Let_def st2_def a_def)
  show ?case
  proof (cases "n = 0")
    case True
    then have "a = R" using Suc.prems(1) by (auto simp: a_def)
    then show ?thesis unfolding run using True ep2 kg m(3) s1(4,7) o2 by (intro exI [of _ st2] exI [of _ c1]) (simp add: st2_def)
  next
    case False
    then have a: "a = 512" using Suc.prems(1) by (auto simp: a_def)
    have k1: "512 * k + a = 512 * (k + 1)" by (simp add: a)
    have n': "n = (R - a + 511) div 512" "512 * (k + 1) + (R - a) \<le> 2 ^ 16"
      using Suc.prems(1,2) False by (auto simp: a)
    have tr2: "pt_tree (pm st2)" using kg by (simp add: kept_gibs_def)
    have l4: "kpt_get_l4 (pm st2) = phys_to_virt_pm pt_l4"
      using kg Suc.prems(5) by (simp add: kept_gibs_def kpt_get_l4_def)
    have fr: "\<forall>i<n. table_at (pm st2) [of_nat (256 + (k + 1) + i)] = None"
    proof (intro allI impI)
      fix i assume i: "i < n"
      let ?i' = "of_nat (256 + (k + 1) + i) :: u64"
      have "?i' \<noteq> ?i" using small_inject [of "256 + (k + 1) + i" "256 + k"] k(2) i by auto
      then have "table_at (pm st2) [?i'] = table_at (pm st) [?i']"
        using m(5) s1(6) by (simp add: st2_def table_added_def del: table_at.simps of_nat_add)
      moreover have e: "256 + (k + 1) + i = 256 + k + Suc i" by simp
      have "table_at (pm st) [?i'] = None" unfolding e using Suc.prems(6) i by blast
      ultimately show "table_at (pm st2) [?i'] = None" by (rule trans)
    qed
    from Suc.IH [OF n' ep2 tr2 l4 fr] obtain st' c' where
      r: "dram_map_l4 n st2 pt_l4 (of_nat (R - a)) (of_nat (512 * (k + 1) * 2 ^ 30)) (dm (512 * (k + 1) * 2 ^ 30)) = Some st'"
      "early_pool st' B M c'" "c1 - n \<le> c'" "kept_gibs (gibs (512 * k + a) (512 * k + a + (R - a))) (pm st2) (pm st')"
      "dram_mapped (pm st') (512 * k + a) (512 * k + a + (R - a))" "others (B + 4096 * M) st' = others (B + 4096 * M) st2"
      unfolding k1 [symmetric] by blast
    have e: "512 * k + a + (R - a) = 512 * k + R" using False Suc.prems(1) by (auto simp: a)
    have "kept_gibs (gibs (512 * k) (512 * k + R)) (pm st) (pm st')"
      by (rule kept_gibs_trans [OF kg r(4)]) (rule gibs_parts, simp_all add: a_def)+
    moreover have "dram_mapped (pm st') (512 * k) (512 * k + R)"
      using dram_mapped_join [OF m(3) _ r(5)] r(4) Suc.prems(2) by (simp add: st2_def e)
    ultimately show ?thesis unfolding run k1 using r s1(4,7) o2
      by (intro exI [of _ st'] exI [of _ c']) simp
  qed
qed

end
