(* ===== verification/BootMaps.thy ===== *)
theory BootMaps
  imports BootDram
begin

text \<open>
  The address space in which \<^verbatim>\<open>boot.c\<close> enters the kernel: the identity map of the first GiB, the kernel image
  and the direct map of memory, from the regions that \<^verbatim>\<open>alloc_init\<close> sets up.
\<close>

section \<open>The direct map\<close>

definition gib_count :: "nat \<Rightarrow> nat" where "gib_count b = (b + (2 ^ 30 - 1)) div 2 ^ 30"
definition l3_tables :: "nat \<Rightarrow> nat" where "l3_tables b = (gib_count b + 511) div 512"
definition l1_tables :: "nat \<Rightarrow> nat" where "l1_tables b = (b + 0x1FFFFF) div 0x200000"

lemma ram_tables:
  assumes "b \<le> 2 ^ 46"
  shows "((of_nat b + PT_L4_ENTRYMASK) AND NOT PT_L4_ENTRYMASK) div PT_L4_ENTRYSZ = of_nat (l3_tables b)"
    "((of_nat b + PT_L3_ENTRYMASK) AND NOT PT_L3_ENTRYMASK) div PT_L3_ENTRYSZ = of_nat (gib_count b)"
    "gib_count b \<le> 2 ^ 16"
proof -
  have "(b + (2 ^ 39 - 1)) div 2 ^ 39 = (b + (2 ^ 30 - 1) + 511 * 2 ^ 30) div (2 ^ 30 * 512)" by simp
  also have "\<dots> = (b + (2 ^ 30 - 1) + 511 * 2 ^ 30) div 2 ^ 30 div 512" by (rule div_mult2_eq)
  also have "(b + (2 ^ 30 - 1) + 511 * 2 ^ 30) div 2 ^ 30 = 511 + gib_count b" unfolding gib_count_def by (rule div_mult_self1) simp
  finally have e: "(b + (2 ^ 39 - 1)) div 2 ^ 39 = l3_tables b" by (simp only: l3_tables_def add.commute)
  show "((of_nat b + PT_L4_ENTRYMASK) AND NOT PT_L4_ENTRYMASK) div PT_L4_ENTRYSZ = of_nat (l3_tables b)"
    using ceil_bytes [of b 39] assms unfolding e
    by (simp add: PT_L4_ENTRYMASK_def PT_L4_ENTRYSZ_def PT_L3_ENTRYSZ_def PT_L2_ENTRYSZ_def PT_L1_ENTRYSZ_def PT_ENTRIES_def push_bit_eq_mult)
  show "((of_nat b + PT_L3_ENTRYMASK) AND NOT PT_L3_ENTRYMASK) div PT_L3_ENTRYSZ = of_nat (gib_count b)"
    using ceil_bytes [of b 30] assms unfolding gib_count_def
    by (simp add: PT_L3_ENTRYMASK_def PT_L3_ENTRYSZ_def PT_L2_ENTRYSZ_def PT_L1_ENTRYSZ_def PT_ENTRIES_def push_bit_eq_mult)
  have "(b + (2 ^ 30 - 1)) div 2 ^ 30 \<le> (2 ^ 46 + (2 ^ 30 - 1)) div 2 ^ 30" using assms by (intro div_le_mono) simp
  then show "gib_count b \<le> 2 ^ 16" by (simp add: gib_count_def)
qed

lemma pt_init_dram_map_spec:
  assumes "early_pool st B M (c + l3_tables b)" "pt_tree (pm st)" "kpt_get_l4 (pm st) = phys_to_virt_pm pt_l4"
    and fresh: "\<forall>i<128. table_at (pm st) [of_nat (256 + i)] = None" and b: "mi_ram_max info = of_nat b" "b \<le> 2 ^ 46"
  shows "\<exists>st' c'. pt_init_dram_map st pt_l4 info = Some st' \<and> early_pool st' B M c' \<and> c \<le> c' \<and>
    kept_gibs (gibs 0 (gib_count b)) (pm st) (pm st') \<and> dram_mapped (pm st') 0 (gib_count b) \<and> others (B + 4096 * M) st' = others (B + 4096 * M) st"
proof -
  note rt = ram_tables [OF b(2)]
  have l128: "l3_tables b \<le> 128" using rt(3) by (simp add: l3_tables_def)
  have "(256 + 0 + i :: nat) = 256 + i" for i by simp
  then have fr: "\<forall>i<l3_tables b. table_at (pm st) [of_nat (256 + 0 + i)] = None" using fresh l128 by (simp only:) force
  have "512 * 0 + gib_count b \<le> 2 ^ 16" using rt(3) by simp
  from dram_map_l4_spec [OF l3_tables_def this assms(1-3) fr] obtain st' c' where
    r: "dram_map_l4 (l3_tables b) st pt_l4 (of_nat (gib_count b)) 0 get_kernel_phmap = Some st'" "early_pool st' B M c'" "c \<le> c'"
    "kept_gibs (gibs 0 (gib_count b)) (pm st) (pm st')" "dram_mapped (pm st') 0 (gib_count b)" "others (B + 4096 * M) st' = others (B + 4096 * M) st"
    by (auto simp: dm_def)
  have "unat (of_nat (l3_tables b) :: u64) = l3_tables b" using l128 by (intro unat_low) simp
  then have "pt_init_dram_map st pt_l4 info = Some st'"
    using r(1) by (simp add: pt_init_dram_map_def b(1) rt Let_def)
  then show ?thesis using r by blast
qed

section \<open>The identity map\<close>

text \<open>A state with two tables: the fourth-level one at \<open>q0\<close>, behind its first entry a third-level one at \<open>q1\<close>.\<close>

definition two_tables :: "pgm \<Rightarrow> u64 \<Rightarrow> u64 \<Rightarrow> u64 \<Rightarrow> bool" where
  "two_tables m q0 q1 e \<longleftrightarrow> kpt_get_l4 m = q0 \<and> q0 \<noteq> 0 \<and> q1 \<noteq> 0 \<and> q0 \<noteq> q1 \<and> present e \<and> table_ptr e = q1 \<and>
     tables m q0 = Some ((\<lambda>_. 0)(0 := e)) \<and> tables m q1 = Some ((\<lambda>_. 0)(0 := dm_entry 0))"

lemma two_tables_at:
  assumes "two_tables m q0 q1 e"
  shows "table_at m p = (if p = [] then Some q0 else if p = [0] then Some q1 else None)"
proof (induction p)
  case Nil
  then show ?case using assms by (simp add: two_tables_def)
next
  case (Cons i p)
  have z: "\<not> present 0" by (simp add: present_def)
  have "entry m q0 i = Some (if i = 0 then e else 0)" "entry m q1 i = Some (if i = 0 then dm_entry 0 else 0)"
    using assms by (auto simp: entry_def two_tables_def)
  then show ?case using Cons assms z dm_entry_flags [of 0] by (auto simp: two_tables_def split: if_splits)
qed

lemma two_tables_tree: "two_tables m q0 q1 e \<Longrightarrow> pt_tree m"
  using two_tables_at [of m q0 q1 e] unfolding pt_tree_def tree_inj_def
  by (auto simp: two_tables_def split: if_splits)

lemma two_tables_phys:
  assumes "two_tables m q0 q1 e" "unat w < 2 ^ 30"
  shows "kpt_get_phys m w = Some w"
proof -
  have "gib w = 0" using assms(2) by (simp add: gib_def)
  then have ix: "idx 3 w = 0" "idx 2 w = 0" by (simp_all add: gib_index)
  have t: "table_at m [idx 3 w] = Some q1" using two_tables_at [OF assms(1)] ix by (simp del: table_at.simps)
  have e: "entry m q1 (idx 2 w) = Some (dm_entry 0)" using assms(1) ix by (simp add: entry_def two_tables_def)
  have "unat w div 2 ^ 30 = 0" using assms(2) by simp
  then have "page_phys_rebase (dm_entry 0) 30 (BITRANGE_MASK 51 30) OR (w AND mask 30) = of_nat (unat w)"
    using dm_entry_phys [of "unat w" w] assms(2) by simp
  then show ?thesis using large_hit [OF t e dm_entry_flags] by simp
qed

lemma identmap_spec:
  assumes p: "early_pool st B M (c + 2)"
  shows "\<exists>st1 st2 l4 q1 e. alloc_frame st = Some (st1, l4) \<and> pt_init_temp_identmap st1 l4 = Some st2 \<and>
    early_pool (pi_set_pagetable st2 l4) B M c \<and> two_tables (pm (pi_set_pagetable st2 l4)) (phys_to_virt_pm l4) q1 e \<and>
    others (B + 4096 * M) st2 = others (B + 4096 * M) st"
proof -
  have p2: "early_pool st B M (Suc (Suc c))" using p by simp
  define f0 where "f0 = (of_nat (B + 4096 * Suc (Suc c)) :: u64)"
  define f1 where "f1 = (of_nat (B + 4096 * Suc c) :: u64)"
  have room: "4096 dvd B" "B + 4096 * Suc (Suc c) \<le> 2 ^ 30" "B + 4096 * Suc c \<le> 2 ^ 30" using p2 by (auto simp: early_pool_def)
  define q0 where "q0 = phys_to_virt_pm f0"
  define q1 where "q1 = phys_to_virt_pm f1"
  note pg0 = early_page [OF room(1,2), folded f0_def q0_def] and pg1 = early_page [OF room(1,3), folded f1_def q1_def]
  have ne: "q0 \<noteq> q1"
  proof
    assume "q0 = q1"
    then have "f0 = f1" unfolding q0_def q1_def by (metis phys_virt(1))
    then show False using of_nat_low_eq [OF room(2,3)] unfolding f0_def f1_def by simp
  qed
  obtain st1 where s1: "alloc_frame st = Some (st1, f0)" "early_pool st1 B M (Suc c)"
    "pm st1 = (pm st)\<lparr>tables := (tables (pm st))(q0 \<mapsto> (\<lambda>_. 0))\<rparr>" "others (B + 4096 * M) st1 = others (B + 4096 * M) st"
    unfolding q0_def f0_def using alloc_frame_spec [OF p2] by metis
  obtain st2 where s2: "alloc_frame st1 = Some (st2, f1)" "early_pool st2 B M c"
    "pm st2 = (pm st1)\<lparr>tables := (tables (pm st1))(q1 \<mapsto> (\<lambda>_. 0))\<rparr>" "others (B + 4096 * M) st2 = others (B + 4096 * M) st1"
    unfolding q1_def f1_def using alloc_frame_spec [OF s1(2)] by metis
  define e where "e = f1 OR PT_FLAGS_RW"
  have e: "e = virt_to_phys_pm q1 OR PT_FLAG_PRESENT OR PT_FLAG_WRITABLE" by (simp add: e_def q1_def PT_FLAGS_RW_def or.assoc)
  note ef = link_entry_facts [OF pg1(1), folded e]
  define m where "m = (pm st2)\<lparr>tables := (tables (pm st2))(q0 \<mapsto> (\<lambda>_. 0)(0 := e), q1 \<mapsto> (\<lambda>_. 0)(0 := dm_entry 0))\<rparr>"
  have en: "entry (pm st1) q0 0 = Some 0" using pg0(2) by (simp add: entry_def s1(3))
  have k: "f1 \<noteq> KPAGE_ERR"
  proof
    assume "f1 = KPAGE_ERR"
    then have "B + 4096 * Suc c = unat KPAGE_ERR" by (metis f1_def unat_low [OF room(3)])
    then show False using room(3) by (simp add: KPAGE_ERR_def unsigned_minus_1_eq_mask mask_eq_exp_minus_1)
  qed
  have dme: "PT_FLAGS_RW OR PT_FLAG_PAGESIZE = dm_entry 0" by (simp add: dm_entry_def PT_FLAGS_RW_def or.assoc)
  have run: "pt_init_temp_identmap st1 f0 = Some (st2\<lparr>pm := m\<rparr>)"
    using en s2(1) k pg0(2) pg1(2) ne
    by (simp add: pt_init_temp_identmap_def chk_pt_alloc_def set_pte_def set_entry_def q0_def [symmetric] q1_def [symmetric]
        e_def [symmetric] s2(3) s1(3) m_def dme fun_upd_twist)
  have "dom (tables (m\<lparr>cr3 := f0\<rparr>)) = dom (tables (pm st2))" by (auto simp: m_def s2(3) s1(3))
  then have "early_pool (st2\<lparr>pm := m\<lparr>cr3 := f0\<rparr>\<rparr>) B M c" by (rule early_pool_tables [OF s2(2)])
  moreover have "PT_REBASE f0 = f0"
    using rebase_or [of f0 0] pg0(1) by (simp add: page_ok_def q0_def high_low_def)
  then have "two_tables (m\<lparr>cr3 := f0\<rparr>) q0 q1 e"
    using pg0(2) pg1(2) ne ef by (simp add: two_tables_def kpt_get_l4_def q0_def [symmetric] m_def)
  moreover have "others (B + 4096 * M) (st2\<lparr>pm := m\<rparr>) = others (B + 4096 * M) st"
    using s1(4) s2(4) by (subst others_pm) (simp_all add: m_def)
  ultimately show ?thesis using s1(1) run unfolding pi_set_pagetable_def
    by (intro exI [of _ st1] exI [of _ "st2\<lparr>pm := m\<rparr>"] exI [of _ f0] exI [of _ q1] exI [of _ e]) (simp add: q0_def)
qed

section \<open>The address space of the kernel\<close>

lemma KOFF_apart:
  assumes "j < 2 ^ 18"
  shows "(KOFF + j) mod 2 ^ 36 = 0xFFFF80000 + j"
proof -
  have "KOFF + j = (0xFFFF80000 + j) + 0xFFFF * 2 ^ 36" by (simp add: KOFF_def)
  then have "(KOFF + j) mod 2 ^ 36 = (0xFFFF80000 + j) mod 2 ^ 36" by (metis mod_mult_self1)
  then show ?thesis using assms by simp
qed

lemma kept_low:
  assumes "kept m m' 0 r" "r \<le> 2 ^ 18" "unat w < 2 ^ 30"
  shows "kpt_get_phys m' w = kpt_get_phys m w"
proof -
  have "pageno w < 2 ^ 18" unfolding pageno_def using assms(3) by (intro less_mult_imp_div_less) simp
  moreover have "0xFFFF80000 \<le> (KOFF + j) mod 2 ^ 36" if "j < r" for j using that assms(2) by (subst KOFF_apart) auto
  ultimately have "pageno w mod 2 ^ 36 \<notin> pages_mod (KOFF + 0) r" by (fastforce simp: pages_mod_def)
  then show ?thesis using assms(1) unfolding kept_def same_walk_def by blast
qed

lemma code_flags:
  "high_low PT_FLAG_PRESENT" "bit PT_FLAG_PRESENT 0"
  "high_low (PT_FLAG_PRESENT OR PT_FLAG_WRITABLE)" "bit (PT_FLAG_PRESENT OR PT_FLAG_WRITABLE) 0"
  unfolding high_low_def PT_FLAG_PRESENT_def PT_FLAG_WRITABLE_def bit_or_iff bit_push_bit_iff bit_1_iff by auto

lemma code_phys:
  assumes "code_mapped im m 0 r" "r \<le> 2 ^ 18" "x < 4096 * r"
  shows "kpt_get_phys m (phys_to_virt_of (of_nat x)) = Some (of_nat x)"
proof -
  define n where "n = x div 4096"
  define off where "off = x mod 4096"
  have x: "x = 4096 * n + off" "off < 4096" "n < r" using assms(3) by (simp_all add: n_def off_def less_mult_imp_div_less mult.commute)
  obtain fl where fl: "code_entry im n = pg n OR fl" "high_low fl" "bit fl 0"
    by (rule that [OF code_entry_def]) (simp_all add: code_flags)
  have "pte_of m (KOFF + n) = Some (pg n OR fl)" using assms(1) x(3) fl(1) unfolding code_mapped_def by simp
  moreover have "KOFF + n < 2 ^ 52" "n < 2 ^ 40" using x(3) assms(2) by (simp_all add: KOFF_def)
  ultimately have "kpt_get_phys m (pg (KOFF + n) + of_nat off) = Some (pg n + of_nat off)"
    using leaf_phys [OF _ _ _ x(2) fl(2,3)] by blast
  moreover have "phys_to_virt_of (of_nat x) = pg (KOFF + n) + of_nat off"
    using pg_KOFF by (simp add: phys_to_virt_of_def get_kernel_offs_def pg_def x(1))
  ultimately show ?thesis by (simp add: pg_def x(1))
qed

text \<open>The three parts of the address space: \<open>k\<close> bytes of kernel image, \<open>b\<close> bytes of memory.\<close>

definition boot_space :: "pgm \<Rightarrow> nat \<Rightarrow> nat \<Rightarrow> bool" where
  "boot_space m k b \<longleftrightarrow>
     (\<forall>w. unat w < 2 ^ 30 \<longrightarrow> kpt_get_phys m w = Some w) \<and>
     (\<forall>x < 0x200000 * l1_tables k. kpt_get_phys m (phys_to_virt_of (of_nat x)) = Some (of_nat x)) \<and>
     (\<forall>x < 2 ^ 30 * gib_count b. kpt_get_phys m (phys_to_virt_pm (of_nat x)) = Some (of_nat x))"

lemma init_higher_half_spec:
  assumes ep: "early_pool st B M (c + l3_tables b + l1_tables k + 4)"
    and k: "(kphys_end im - kphys_start im) + bi_load_addr info = of_nat k" "0 < k" "k \<le> 2 ^ 30"
    and b: "mi_ram_max (bi_maps info) = of_nat b" "b \<le> 2 ^ 46"
  shows "\<exists>st' c'. init_higher_half im st info = Some st' \<and> early_pool st' B M c' \<and> c \<le> c' \<and>
    boot_space (pm st') k b \<and> code_mapped im (pm st') 0 (512 * l1_tables k) \<and> pt_tree (pm st') \<and> others (B + 4096 * M) st' = others (B + 4096 * M) st"
proof -
  have "early_pool st B M ((c + l3_tables b + l1_tables k + 2) + 2)" using ep by (simp only: add.assoc) simp
  from identmap_spec [OF this] obtain st1 st2 l4 q1 e where
    s: "alloc_frame st = Some (st1, l4)" "pt_init_temp_identmap st1 l4 = Some st2"
    and ep3: "early_pool (pi_set_pagetable st2 l4) B M (c + l3_tables b + l1_tables k + 2)"
    and two: "two_tables (pm (pi_set_pagetable st2 l4)) (phys_to_virt_pm l4) q1 e" and ct: "others (B + 4096 * M) st2 = others (B + 4096 * M) st" by blast
  define st3 where "st3 = pi_set_pagetable st2 l4"
  note two' = two [folded st3_def]
  have l4: "kpt_get_l4 (pm st3) = phys_to_virt_pm l4" using two' by (simp add: two_tables_def)
  have fresh: "table_at (pm st3) [i] = None" if "i \<noteq> 0" for i using two_tables_at [OF two'] that by (simp del: table_at.simps)
  have K0: "pidx 3 KOFF = of_nat 511" by (simp add: pidx_def KOFF_def)
  have nz: "of_nat n \<noteq> (0 :: u64)" if "0 < n" "n < 512" for n using small_inject [of n 0] that by auto
  have fK: "table_at (pm st3) [pidx 3 KOFF] = None" using fresh [of "pidx 3 KOFF"] nz [of 511] unfolding K0 by simp
  have ep3': "early_pool st3 B M ((c + l3_tables b) + 2 + l1_tables k)" using ep3 by (simp add: st3_def algebra_simps)
  obtain st4 c4 where s4: "pt_init_kcode im st3 l4 info = Some st4" "early_pool st4 B M c4" "c + l3_tables b \<le> c4"
    "kept (pm st3) (pm st4) 0 (512 * l1_tables k)" "code_mapped im (pm st4) 0 (512 * l1_tables k)" "others (B + 4096 * M) st4 = others (B + 4096 * M) st3"
    "\<forall>i. i \<noteq> pidx 3 KOFF \<longrightarrow> table_at (pm st4) [i] = table_at (pm st3) [i]"
    using pt_init_kcode_spec [OF ep3' two_tables_tree [OF two'] l4 fK k l1_tables_def] by blast
  have ep4: "early_pool st4 B M ((c4 - l3_tables b) + l3_tables b)" using s4(2,3) by simp
  have tr4: "pt_tree (pm st4)" and l44: "kpt_get_l4 (pm st4) = phys_to_virt_pm l4"
    using s4(4) l4 by (simp_all add: kept_def grown_def kpt_get_l4_def)
  have fr4: "\<forall>i<128. table_at (pm st4) [of_nat (256 + i)] = None"
  proof (intro allI impI)
    fix i :: nat assume i: "i < 128"
    have "of_nat (256 + i) \<noteq> pidx 3 KOFF" unfolding K0 using small_inject [of "256 + i" 511] i by auto
    then show "table_at (pm st4) [of_nat (256 + i)] = None"
      using s4(7) fresh [OF nz, of "256 + i"] i by (simp del: table_at.simps of_nat_add)
  qed
  from pt_init_dram_map_spec [OF ep4 tr4 l44 fr4 b] obtain st5 c5 where
    s5: "pt_init_dram_map st4 l4 (bi_maps info) = Some st5" "early_pool st5 B M c5" "c4 - l3_tables b \<le> c5"
    "kept_gibs (gibs 0 (gib_count b)) (pm st4) (pm st5)" "dram_mapped (pm st5) 0 (gib_count b)" "others (B + 4096 * M) st5 = others (B + 4096 * M) st4"
    by blast
  have r18: "512 * l1_tables k \<le> 2 ^ 18" using image_tables(3) [OF k(2,3)] by (simp add: l1_tables_def)
  have cm: "code_mapped im (pm st5) 0 (512 * l1_tables k)"
    using s4(5) s5(4) unfolding code_mapped_def kept_gibs_def by blast
  have id: "kpt_get_phys (pm st5) w = Some w" if w: "unat w < 2 ^ 30" for w
  proof -
    have "gib w = 0" using w by (simp add: gib_def)
    then have "gib w \<notin> gibs 0 (gib_count b)" by (simp add: gibs_def)
    then have "kpt_get_phys (pm st5) w = kpt_get_phys (pm st4) w" using s5(4) unfolding kept_gibs_def by blast
    then show ?thesis using kept_low [OF s4(4) r18 w] two_tables_phys [OF two' w] by simp
  qed
  have "boot_space (pm st5) k b"
    unfolding boot_space_def
  proof (intro conjI allI impI)
    show "kpt_get_phys (pm st5) w = Some w" if "unat w < 2 ^ 30" for w by (rule id [OF that])
    show "kpt_get_phys (pm st5) (phys_to_virt_of (of_nat x)) = Some (of_nat x)" if "x < 0x200000 * l1_tables k" for x
      using code_phys [OF cm r18, of x] that by simp
    show "kpt_get_phys (pm st5) (phys_to_virt_pm (of_nat x)) = Some (of_nat x)" if "x < 2 ^ 30 * gib_count b" for x
      using s5(5) that unfolding dram_mapped_def by (simp add: dm_def phys_to_virt_pm_def add.commute mult.commute)
  qed
  moreover have "init_higher_half im st info = Some st5"
    using s s4(1) s5(1) by (simp add: init_higher_half_def st3_def Let_def)
  moreover have "others (B + 4096 * M) st3 = others (B + 4096 * M) st" using ct by (simp add: st3_def pi_set_pagetable_def others_pm)
  moreover have "pt_tree (pm st5)" using s5(4) by (simp add: kept_gibs_def)
  ultimately show ?thesis using s5(2,3,6) s4(3,6) cm by (intro exI [of _ st5] exI [of _ c5]) simp
qed

end
