(* ===== verification/BootInfo.thy ===== *)
theory BootInfo
  imports BootParse "HOL-Library.Multiset"
begin

text \<open>
  The parsing of the boot information against the format it is written in: the insertion sort is the library's
  stable sort, and a tag written by the boot loader is found.
\<close>

section \<open>The insertion sort\<close>

text \<open>Insertion into a list with the largest key first, before the entries that are not larger.\<close>

primrec ins_desc :: "('a \<Rightarrow> 'k::linorder) \<Rightarrow> 'a \<Rightarrow> 'a list \<Rightarrow> 'a list" where
  "ins_desc f k [] = [k]"
| "ins_desc f k (a # zs) = (if f k < f a then a # ins_desc f k zs else k # a # zs)"

lemma mset_ins_desc [simp]: "mset (ins_desc f k zs) = add_mset k (mset zs)"
  by (induction zs) auto

lemma set_ins_desc [simp]: "set (ins_desc f k zs) = insert k (set zs)"
  by (induction zs) auto

lemma filter_ins_desc: "filter (\<lambda>x. c = f x) (ins_desc f k zs) = filter (\<lambda>x. c = f x) (k # zs)"
  by (induction zs) auto

lemma filter_sort_key: "filter (\<lambda>x. c = f x) (sort_key f xs) = filter (\<lambda>x. c = f x) xs"
  using sort_key_stable [of f c xs] by (simp add: eq_commute)

lemma sorted_ins_desc:
  assumes "sorted (map f (rev zs))"
  shows "sorted (map f (rev (ins_desc f k zs)))"
  using assms by (induction zs) (auto simp: sorted_append)

lemma ins_desc_sort_key:
  "rev (ins_desc f k (rev (sort_key f xs))) = sort_key f (xs @ [k])"
proof (rule sym, rule properties_for_sort_key)
  show "mset (rev (ins_desc f k (rev (sort_key f xs)))) = mset (xs @ [k])" by simp
  show "filter (\<lambda>x. f c = f x) (rev (ins_desc f k (rev (sort_key f xs)))) = filter (\<lambda>x. f c = f x) (xs @ [k])" for c
    by (simp add: filter_ins_desc filter_sort_key flip: rev_filter)
  show "sorted (map f (rev (ins_desc f k (rev (sort_key f xs)))))"
    by (rule sorted_ins_desc) simp
qed

lemma sort_shift_inserts:
  "sort_shift (length pre) (pre @ x # post) k = Some (rev (ins_desc me_base k (rev pre)) @ post)"
proof (induction pre arbitrary: x post rule: rev_induct)
  case Nil
  then show ?case by (simp add: upd_opt_def)
next
  case (snoc a pre)
  show ?case
    using snoc.IH [of a "a # post"]
    by (simp add: nth_opt_def upd_opt_def nth_append list_update_append)
qed

lemma sort_from_sorts:
  assumes "i + n \<le> length maps"
  shows "sort_from n i (sort_key me_base (take i maps) @ drop i maps) =
    Some (sort_key me_base (take (i + n) maps) @ drop (i + n) maps)"
  using assms
proof (induction n arbitrary: i)
  case 0
  then show ?case by simp
next
  case (Suc n)
  then have i: "i < length maps" by simp
  let ?pre = "sort_key me_base (take i maps)"
  have d: "drop i maps = maps ! i # drop (Suc i) maps"
    using i by (simp add: Cons_nth_drop_Suc)
  have l: "length ?pre = i" using i by simp
  have k: "nth_opt (?pre @ drop i maps) i = Some (maps ! i)"
    using i unfolding d by (simp add: nth_opt_def nth_append)
  have "sort_shift i (?pre @ drop i maps) (maps ! i) =
      Some (rev (ins_desc me_base (maps ! i) (rev ?pre)) @ drop (Suc i) maps)"
    using sort_shift_inserts [of ?pre "maps ! i" "drop (Suc i) maps" "maps ! i"] unfolding l d .
  then have s: "sort_shift i (?pre @ drop i maps) (maps ! i) =
      Some (sort_key me_base (take (Suc i) maps) @ drop (Suc i) maps)"
    unfolding ins_desc_sort_key by (simp add: take_Suc_conv_app_nth i)
  have "Suc i + n \<le> length maps" using Suc.prems by simp
  from Suc.IH [OF this] show ?case
    using k s by simp
qed

lemma pi_sort_boot_mapentries_eq:
  assumes "n \<le> length maps"
  shows "pi_sort_boot_mapentries maps n = Some (sort_key me_base (take n maps) @ drop n maps)"
proof (cases n)
  case 0
  then show ?thesis by (simp add: pi_sort_boot_mapentries_def)
next
  case (Suc k)
  then obtain a ms where "maps = a # ms" using assms by (cases maps) auto
  then show ?thesis
    using sort_from_sorts [of 1 k maps] assms Suc by (simp add: pi_sort_boot_mapentries_def)
qed

section \<open>The format of the boot information\<close>

text \<open>The bytes of a little-endian number, and memory that holds a sequence of bytes.\<close>

primrec le_bytes :: "nat \<Rightarrow> u64 \<Rightarrow> u8 list" where
  "le_bytes 0 w = []"
| "le_bytes (Suc n) w = ucast w # le_bytes n (drop_bit 8 w)"

primrec bytes_at :: "(u64 \<Rightarrow> u8) \<Rightarrow> u64 \<Rightarrow> u8 list \<Rightarrow> bool" where
  "bytes_at m p [] \<longleftrightarrow> True"
| "bytes_at m p (b # bs) \<longleftrightarrow> m p = b \<and> bytes_at m (p + 1) bs"

lemma length_le_bytes [simp]: "length (le_bytes n w) = n"
  by (induction n arbitrary: w) auto

lemma bytes_at_append [simp]:
  "bytes_at m p (xs @ ys) \<longleftrightarrow> bytes_at m p xs \<and> bytes_at m (p + of_nat (length xs)) ys"
  by (induction xs arbitrary: p) (auto simp: ac_simps)

lemma split_low_byte: "(ucast (ucast w :: u8) :: u64) OR push_bit 8 (take_bit n (drop_bit 8 w)) = take_bit (8 + n) w"
  by (rule bit_word_eqI) (auto simp: bit_simps)

lemma load_le_bytes_at: "bytes_at m p (le_bytes n w) \<Longrightarrow> load_le n m p = take_bit (8 * n) w"
proof (induction n arbitrary: p w)
  case 0
  then show ?case by simp
next
  case (Suc n)
  have "load_le n m (p + 1) = take_bit (8 * n) (drop_bit 8 w)" using Suc by simp
  then show ?case using Suc.prems split_low_byte [of w "8 * n"] by simp
qed

lemma load32_bytes_at: "bytes_at m p (le_bytes 4 (ucast w)) \<Longrightarrow> load32 m p = w"
  unfolding load32_def
  by (frule load_le_bytes_at, simp) (rule bit_word_eqI, auto simp: bit_simps)

lemma load64_bytes_at: "bytes_at m p (le_bytes 8 w) \<Longrightarrow> load64le m p = w"
  unfolding load64le_def by (frule load_le_bytes_at, simp) (rule bit_word_eqI, auto simp: bit_simps)

text \<open>A tag is its type, its size and its contents, filled up to a multiple of 8 bytes.\<close>

type_synonym mb2_tag = "u32 \<times> u8 list"

definition tag_size :: "mb2_tag \<Rightarrow> nat" where "tag_size t = 8 + length (snd t)"
definition pad8 :: "nat \<Rightarrow> nat" where "pad8 n = (n + 7) div 8 * 8"

definition enc_tag :: "mb2_tag \<Rightarrow> u8 list" where
  "enc_tag t = le_bytes 4 (ucast (fst t)) @ le_bytes 4 (ucast (of_nat (tag_size t) :: u32)) @ snd t @
     replicate (pad8 (tag_size t) - tag_size t) 0"

definition enc_tags :: "mb2_tag list \<Rightarrow> u8 list" where "enc_tags ts = concat (map enc_tag ts)"

definition enc_info :: "mb2_tag list \<Rightarrow> u8 list" where
  "enc_info ts = le_bytes 4 (ucast (of_nat (8 + length (enc_tags ts)) :: u32)) @ le_bytes 4 0 @ enc_tags ts"

lemma enc_tags_simps [simp]:
  "enc_tags [] = []" "enc_tags (t # ts) = enc_tag t @ enc_tags ts" "enc_tags (ts @ us) = enc_tags ts @ enc_tags us"
  by (simp_all add: enc_tags_def)

lemma le_pad8: "n \<le> pad8 n" unfolding pad8_def by presburger

lemma length_enc_tag [simp]: "length (enc_tag t) = pad8 (tag_size t)"
  using le_pad8 [of "tag_size t"] by (simp add: enc_tag_def tag_size_def)

text \<open>The step of the code to the next tag is the length of the encoded tag.\<close>

lemma tag_step:
  assumes "tag_size t + 7 < 2 ^ 32"
  shows "(ucast ((of_nat (tag_size t) + 7 :: u32) AND NOT 7) :: u64) = of_nat (length (enc_tag t))"
proof -
  have p: "pad8 (tag_size t) < 2 ^ 32" using assms unfolding pad8_def by simp
  have "(of_nat (tag_size t) + 7 :: u32) AND NOT 7 = of_nat (tag_size t + 7) AND NOT (mask 3)"
    by (simp add: flip: seven_mask)
  also have "\<dots> = of_nat (pad8 (tag_size t))"
    using and_not_mask_of_nat [of "tag_size t + 7" 3, where 'a = 32] assms by (simp add: pad8_def)
  finally show ?thesis using p by (simp add: unsigned_of_nat take_bit_nat_eq_self)
qed

section \<open>Finding a tag\<close>

lemma tag_fields:
  assumes "bytes_at m p (enc_tag t)"
  shows "load32 m p = fst t"
    and "load32 m (p + 4) = of_nat (tag_size t)"
    and "bytes_at m (p + 8) (snd t)"
  using assms load32_bytes_at [of m p "fst t"] load32_bytes_at [of m "p + 4" "of_nat (tag_size t)"]
  by (simp_all add: enc_tag_def add.commute)

text \<open>The tags that stop the walk: the one looked for and the end tag.\<close>

definition tags_before :: "u32 \<Rightarrow> mb2_tag list \<Rightarrow> mb2_tag list" where
  "tags_before ty ts = takeWhile (\<lambda>t. fst t \<noteq> ty \<and> fst t \<noteq> MULTIBOOT_TAG_TYPE_END) ts"

definition first_tag :: "u32 \<Rightarrow> mb2_tag list \<Rightarrow> mb2_tag option" where
  "first_tag ty ts = (case dropWhile (\<lambda>t. fst t \<noteq> ty \<and> fst t \<noteq> MULTIBOOT_TAG_TYPE_END) ts of
     [] \<Rightarrow> None | t # _ \<Rightarrow> if fst t = ty then Some t else None)"

definition tag_place :: "u32 \<Rightarrow> u64 \<Rightarrow> mb2_tag list \<Rightarrow> u64" where
  "tag_place ty p ts = (if first_tag ty ts = None then MB2_TAG_ERR else p + of_nat (length (enc_tags (tags_before ty ts))))"

lemma tag_size_le_enc: "t \<in> set ts \<Longrightarrow> tag_size t \<le> length (enc_tags ts)"
  using le_pad8 [of "tag_size t"] by (induction ts) auto

lemma find_mbt_loop_eq:
  assumes "bytes_at m p (enc_tags ts)" "unat p + length (enc_tags ts) < 2 ^ 64" "length (enc_tags ts) + 7 < 2 ^ 32"
  shows "find_mbt_loop m ty (p + of_nat (length (enc_tags ts))) p = Some (tag_place ty p ts)"
  using assms
proof (induction ts arbitrary: p)
  case Nil
  then show ?case by (simp add: find_mbt_loop.simps tag_place_def first_tag_def)
next
  case (Cons t ts)
  note f = tag_fields [of m p t]
  have l: "0 < length (enc_tag t)" using le_pad8 [of "tag_size t"] by (simp add: tag_size_def)
  have less: "p < p + of_nat (length (enc_tags (t # ts)))"
    using l Cons.prems(2) unat_plus_of_nat [of p "length (enc_tags (t # ts))"] by (simp add: word_less_nat_alt)
  have step: "ucast ((load32 m (p + 4) + 7) AND NOT 7) = (of_nat (length (enc_tag t)) :: u64)"
    using f(2) Cons.prems tag_step [of t] tag_size_le_enc [of t "t # ts"] by simp
  have "unat (p + of_nat (length (enc_tag t))) = unat p + length (enc_tag t)"
    using Cons.prems(2) by (intro unat_plus_of_nat) simp
  then have "find_mbt_loop m ty (p + of_nat (length (enc_tag t)) + of_nat (length (enc_tags ts))) (p + of_nat (length (enc_tag t))) =
      Some (tag_place ty (p + of_nat (length (enc_tag t))) ts)"
    using Cons.prems by (intro Cons.IH) simp_all
  then show ?case
    using Cons.prems f(1) less step
    by (subst find_mbt_loop.simps)
       (auto simp: tag_place_def first_tag_def tags_before_def add.assoc)
qed

lemma find_mbt_eq:
  assumes "bytes_at m mbh (enc_info ts)" "unat mbh + length (enc_info ts) < 2 ^ 64" "length (enc_info ts) < 2 ^ 32"
  shows "find_mbt m mbh ty = Some (tag_place ty (mbh + 8) ts)"
proof -
  let ?n = "length (enc_tags ts)"
  have n: "?n + 8 < 2 ^ 32" "unat mbh + ?n + 8 < 2 ^ 64" using assms(2,3) by (simp_all add: enc_info_def)
  have "load32 m mbh = of_nat (8 + ?n)"
    using assms(1) unfolding enc_info_def bytes_at_append by (intro load32_bytes_at) blast
  then have e: "ucast (load32 m mbh) = (of_nat (8 + ?n) :: u64)"
    using n(1) by (simp add: unsigned_of_nat take_bit_nat_eq_self del: of_nat_add)
  have b: "bytes_at m (mbh + 8) (enc_tags ts)"
    using assms(1) by (simp add: enc_info_def add.assoc)
  have "unat (mbh + of_nat 8) = unat mbh + 8" using n(2) by (intro unat_plus_of_nat) simp
  then have u: "unat (mbh + 8) + ?n < 2 ^ 64" using n(2) by simp
  have "find_mbt_loop m ty (mbh + 8 + of_nat ?n) (mbh + 8) = Some (tag_place ty (mbh + 8) ts)"
    by (rule find_mbt_loop_eq [OF b u]) (use n(1) in simp)
  then show ?thesis unfolding find_mbt_def e by (simp add: add.assoc)
qed

text \<open>What is at the place of a tag.\<close>

lemma tag_place_found:
  assumes "bytes_at m p (enc_tags ts)" "first_tag ty ts = Some t"
  shows "bytes_at m (tag_place ty p ts) (enc_tag t)" "fst t = ty" "t \<in> set ts"
proof -
  let ?P = "\<lambda>t. fst t \<noteq> ty \<and> fst t \<noteq> MULTIBOOT_TAG_TYPE_END"
  obtain us where d: "dropWhile ?P ts = t # us" and ty: "fst t = ty"
    using assms(2) by (auto simp: first_tag_def split: list.splits if_splits)
  define pre where "pre = tags_before ty ts"
  have ts: "ts = pre @ t # us"
    unfolding pre_def tags_before_def d [symmetric] by (rule takeWhile_dropWhile_id [symmetric])
  have "bytes_at m p (enc_tags (pre @ t # us))" using assms(1) by (simp only: ts)
  then show "bytes_at m (tag_place ty p ts) (enc_tag t)" using assms(2) by (simp add: tag_place_def flip: pre_def)
  show "fst t = ty" by (rule ty)
  show "t \<in> set ts" by (simp add: ts)
qed

lemma tag_place_end:
  assumes "first_tag ty ts = Some t" "unat p + length (enc_tags ts) < 2 ^ 64 - 1"
  shows "unat (tag_place ty p ts) + tag_size t \<le> unat p + length (enc_tags ts)"
proof -
  let ?P = "\<lambda>t. fst t \<noteq> ty \<and> fst t \<noteq> MULTIBOOT_TAG_TYPE_END"
  obtain us where d: "dropWhile ?P ts = t # us"
    using assms(1) by (auto simp: first_tag_def split: list.splits if_splits)
  have "length (enc_tags ts) = length (enc_tags (takeWhile ?P ts @ dropWhile ?P ts))"
    by (simp only: takeWhile_dropWhile_id)
  then have "length (enc_tags (tags_before ty ts)) + tag_size t \<le> length (enc_tags ts)"
    using le_pad8 [of "tag_size t"] by (simp add: d tags_before_def)
  then show ?thesis
    using assms unat_plus_of_nat [of p "length (enc_tags (tags_before ty ts))"] by (simp add: tag_place_def)
qed

lemma tag_place_not_err:
  assumes "first_tag ty ts = Some t" "unat p + length (enc_tags ts) < 2 ^ 64 - 1"
  shows "tag_place ty p ts \<noteq> MB2_TAG_ERR"
proof -
  have "length (enc_tags (tags_before ty ts)) \<le> length (enc_tags ts)"
    unfolding tags_before_def by (induction ts) auto
  then have "unat (p + of_nat (length (enc_tags (tags_before ty ts)))) < 2 ^ 64 - 1"
    using assms(2) unat_plus_of_nat [of p "length (enc_tags (tags_before ty ts))"] by simp
  moreover have "unat MB2_TAG_ERR = 2 ^ 64 - 1"
    by (simp add: MB2_TAG_ERR_def unsigned_minus_1_eq_mask mask_eq_exp_minus_1)
  ultimately show ?thesis using assms(1) by (auto simp: tag_place_def)
qed

section \<open>The memory map\<close>

type_synonym mb2_entry = "u64 \<times> u64 \<times> u32"

definition enc_entry :: "mb2_entry \<Rightarrow> u8 list" where
  "enc_entry ent = (case ent of (addr, len, ty) \<Rightarrow> le_bytes 8 addr @ le_bytes 8 len @ le_bytes 4 (ucast ty) @ le_bytes 4 0)"

definition enc_entries :: "mb2_entry list \<Rightarrow> u8 list" where "enc_entries es = concat (map enc_entry es)"

text \<open>The contents of a memory map tag: the size of an entry, the version, the entries.\<close>

definition enc_mmap :: "mb2_entry list \<Rightarrow> u8 list" where
  "enc_mmap es = le_bytes 4 24 @ le_bytes 4 0 @ enc_entries es"

lemma enc_entries_simps [simp]: "enc_entries [] = []" "enc_entries (e # es) = enc_entry e @ enc_entries es"
  by (simp_all add: enc_entries_def)

lemma length_enc_entry [simp]: "length (enc_entry e) = 24"
  by (simp add: enc_entry_def split: prod.splits)

lemma length_enc_entries [simp]: "length (enc_entries es) = 24 * length es"
  by (induction es) auto

lemma mmap_entry_enc: "bytes_at m p (enc_entry e) \<Longrightarrow> mmap_entry m p = e"
  by (cases e)
     (auto simp: enc_entry_def mmap_entry_def add.assoc intro!: load64_bytes_at load32_bytes_at)

text \<open>The entries of one type, in the order of the map.\<close>

definition of_type :: "u32 \<Rightarrow> mb2_entry list \<Rightarrow> bootparam_map_entry list" where
  "of_type ty es = map (\<lambda>(addr, len, _). \<lparr>me_base = addr, me_len = len\<rparr>) (filter (\<lambda>(_, _, t). t = ty) es)"

abbreviation "available \<equiv> of_type MULTIBOOT_MEMORY_AVAILABLE"
abbreviation "reclaimable \<equiv> of_type MULTIBOOT_MEMORY_ACPI_RECLAIMABLE"

lemma of_type_simps [simp]:
  "of_type ty [] = []" "of_type ty (xs @ ys) = of_type ty xs @ of_type ty ys"
  "of_type ty [(a, l, t)] = (if t = ty then [\<lparr>me_base = a, me_len = l\<rparr>] else [])"
  by (simp_all add: of_type_def)

definition total_len :: "bootparam_map_entry list \<Rightarrow> u64" where "total_len es = sum_list (map me_len es)"

text \<open>The memory map the kernel keeps of the entries \<open>es\<close>, the arrays being \<open>as\<close> and \<open>rs\<close>.\<close>

definition map_info_of :: "bootparam_map_entry list \<Rightarrow> bootparam_map_entry list \<Rightarrow> bootparam_map_info" where
  "map_info_of as rs =
     \<lparr>mi_entries = as @ replicate (64 - length as) \<lparr>me_base = 0, me_len = 0\<rparr>,
      mi_reclaimable = rs @ replicate (8 - length rs) \<lparr>me_base = 0, me_len = 0\<rparr>,
      mi_ram_max = total_len as + total_len rs, mi_ram_usable = total_len as,
      mi_count = of_nat (length as), mi_count_reclaimable = of_nat (length rs)\<rparr>"

lemma upd_end:
  assumes "length xs < n"
  shows "upd_opt (xs @ replicate (n - length xs) z) (length xs) v = Some ((xs @ [v]) @ replicate (n - length (xs @ [v])) z)"
proof -
  have "n - length xs = Suc (n - Suc (length xs))" using assms by simp
  then show ?thesis using assms by (simp add: list_update_append)
qed

lemma unat_of_nat8: "n < 256 \<Longrightarrow> unat (of_nat n :: u8) = n"
  by (simp add: unat_of_nat)

lemma add_mapentry_step:
  assumes "length (available (es @ [e])) \<le> 64" "length (reclaimable (es @ [e])) \<le> 8"
  shows "add_mapentry e (map_info_of (available es) (reclaimable es)) =
    Some (map_info_of (available (es @ [e])) (reclaimable (es @ [e])))"
proof -
  obtain a l ty where e: "e = (a, l, ty)" by (cases e) auto
  show ?thesis
    using assms upd_end [of "available es" 64 "\<lparr>me_base = 0, me_len = 0\<rparr>" "\<lparr>me_base = a, me_len = l\<rparr>"]
      upd_end [of "reclaimable es" 8 "\<lparr>me_base = 0, me_len = 0\<rparr>" "\<lparr>me_base = a, me_len = l\<rparr>"]
    by (auto simp: e add_mapentry_def map_info_of_def unat_of_nat8 total_len_def MULTIBOOT_MEMORY_AVAILABLE_def
        MULTIBOOT_MEMORY_ACPI_RECLAIMABLE_def algebra_simps)
qed

lemma mapentries_loop_eq:
  assumes "bytes_at m p (enc_entries es)" "unat p + 24 * length es < 2 ^ 64"
    and "length (available (ds @ es)) \<le> 64" "length (reclaimable (ds @ es)) \<le> 8"
  shows "mapentries_loop m 24 (p + of_nat (24 * length es)) p (map_info_of (available ds) (reclaimable ds)) =
    Some (map_info_of (available (ds @ es)) (reclaimable (ds @ es)))"
  using assms
proof (induction es arbitrary: p ds)
  case Nil
  then show ?case by (simp add: mapentries_loop.simps)
next
  case (Cons e es)
  have less: "p < p + of_nat (24 * length (e # es))"
    using Cons.prems(2) unat_plus_of_nat [of p "24 * length (e # es)"] by (simp add: word_less_nat_alt)
  have ent: "mmap_entry m p = e" using Cons.prems(1) by (intro mmap_entry_enc) simp
  have step: "add_mapentry e (map_info_of (available ds) (reclaimable ds)) =
      Some (map_info_of (available (ds @ [e])) (reclaimable (ds @ [e])))"
    using Cons.prems(3,4) of_type_simps(2) [of _ "[e]" es] by (intro add_mapentry_step) simp_all
  have u: "unat (p + 24) = unat p + 24" using Cons.prems(2) unat_plus_of_nat [of p 24] by simp
  have "mapentries_loop m 24 (p + 24 + of_nat (24 * length es)) (p + 24)
      (map_info_of (available (ds @ [e])) (reclaimable (ds @ [e]))) =
      Some (map_info_of (available ((ds @ [e]) @ es)) (reclaimable ((ds @ [e]) @ es)))"
    using Cons.prems u by (intro Cons.IH) simp_all
  then show ?case
    using less by (subst mapentries_loop.simps) (simp add: ent step add.assoc)
qed

text \<open>The map the kernel keeps: each array in the order of the addresses.\<close>

definition boot_map :: "mb2_entry list \<Rightarrow> bootparam_map_info" where
  "boot_map es = map_info_of (sort_key me_base (available es)) (sort_key me_base (reclaimable es))"

lemma total_len_sort [simp]: "total_len (sort_key f xs) = total_len xs"
proof -
  have "sum_mset (mset (map me_len (sort_key f xs))) = sum_mset (mset (map me_len xs))" by simp
  then show ?thesis by (simp only: total_len_def sum_mset_sum_list)
qed

lemma sort_array:
  assumes "length xs < 256" "length xs \<le> n"
  shows "pi_sort_boot_mapentries (xs @ replicate (n - length xs) z) (unat (of_nat (length xs) :: u8)) =
    Some (sort_key me_base xs @ replicate (n - length xs) z)"
  using pi_sort_boot_mapentries_eq [of "length xs" "xs @ replicate (n - length xs) z"] assms by (simp add: unat_of_nat8)

lemma pi_loop_mb2_mapentries_eq:
  assumes tag: "bytes_at m p (enc_tag (ty, enc_mmap es))"
    and room: "unat p + tag_size (ty, enc_mmap es) < 2 ^ 64" "tag_size (ty, enc_mmap es) < 2 ^ 32"
    and cap: "length (available es) \<le> 64" "length (reclaimable es) \<le> 8"
  shows "pi_loop_mb2_mapentries m p (map_info_of [] []) = Some (boot_map es)"
proof -
  let ?n = "24 * length es"
  have sz: "tag_size (ty, enc_mmap es) = 16 + ?n" by (simp add: tag_size_def enc_mmap_def)
  have b: "bytes_at m (p + 8) (enc_mmap es)" using tag_fields(3) [OF tag] by simp
  then have "load32 m (p + 8) = 24" by (intro load32_bytes_at) (simp add: enc_mmap_def)
  then have es: "ucast (load32 m (p + 8)) = (24 :: u64)" by simp
  have "ucast (load32 m (p + 4)) = (of_nat (16 + ?n) :: u64)"
    using room(2) by (simp add: tag_fields(2) [OF tag] sz unsigned_of_nat take_bit_nat_eq_self del: of_nat_add)
  then have e: "p + ucast (load32 m (p + 4)) = p + 16 + of_nat ?n" by (simp add: add.assoc)
  have be: "bytes_at m (p + 16) (enc_entries es)" using b by (simp add: enc_mmap_def add.assoc)
  have u: "unat (p + 16) = unat p + 16" using room(1) sz unat_plus_of_nat [of p 16] by simp
  have "mapentries_loop m 24 (p + 16 + of_nat ?n) (p + 16) (map_info_of (available []) (reclaimable [])) =
      Some (map_info_of (available ([] @ es)) (reclaimable ([] @ es)))"
    using room(1) cap be by (intro mapentries_loop_eq) (simp_all add: u sz)
  then have l: "mapentries_loop m 24 (p + 16 + of_nat ?n) (p + 16) (map_info_of [] []) =
      Some (map_info_of (available es) (reclaimable es))" by simp
  show ?thesis
    using sort_array [of "available es" 64 "\<lparr>me_base = 0, me_len = 0\<rparr>"]
      sort_array [of "reclaimable es" 8 "\<lparr>me_base = 0, me_len = 0\<rparr>"] cap
    unfolding pi_loop_mb2_mapentries_def es e l
    by (simp add: boot_map_def map_info_of_def)
qed

section \<open>The boot information\<close>

text \<open>The contents of a framebuffer tag: address, pitch, width, height and depth, then the kind.\<close>

definition enc_fb :: "u64 \<Rightarrow> u32 \<Rightarrow> u32 \<Rightarrow> u32 \<Rightarrow> u8 \<Rightarrow> u8 list \<Rightarrow> u8 list" where
  "enc_fb addr pitch w h bpp rest =
     le_bytes 8 addr @ le_bytes 4 (ucast pitch) @ le_bytes 4 (ucast w) @ le_bytes 4 (ucast h) @ [bpp] @ rest"

definition boot_env :: "mb2_tag list \<Rightarrow> kern_boot_type" where
  "boot_env ts =
     (if first_tag MULTIBOOT_TAG_TYPE_EFI64 ts \<noteq> None then KERN_BOOT_TYPE_EFI64
      else if first_tag MULTIBOOT_TAG_TYPE_EFI32 ts \<noteq> None then KERN_BOOT_TYPE_EFI32 else KERN_BOOT_TYPE_BIOS)"

lemma fb_fields:
  assumes "bytes_at m p (enc_tag (ty, enc_fb addr pitch w h bpp rest))"
  shows "load64le m (p + 8) = addr" "load32 m (p + 16) = pitch" "load32 m (p + 20) = w"
    "load32 m (p + 24) = h" "m (p + 28) = bpp"
proof -
  have "bytes_at m (p + 8) (enc_fb addr pitch w h bpp rest)" using tag_fields(3) [OF assms] by simp
  then show "load64le m (p + 8) = addr" "load32 m (p + 16) = pitch" "load32 m (p + 20) = w"
    "load32 m (p + 24) = h" "m (p + 28) = bpp"
    by (auto simp: enc_fb_def add.assoc intro!: load64_bytes_at load32_bytes_at)
qed

lemma pi_parse_mb2_eq:
  assumes info: "bytes_at m mbh (enc_info ts)"
    and room: "unat mbh + length (enc_info ts) < 2 ^ 64 - 1" "length (enc_info ts) < 2 ^ 32"
    and mm: "first_tag MULTIBOOT_TAG_TYPE_MMAP ts = Some (tm, enc_mmap es)"
    and fb: "first_tag MULTIBOOT_TAG_TYPE_FRAMEBUFFER ts = Some (tf, enc_fb addr pitch w h bpp rest)"
    and acpi: "first_tag MULTIBOOT_TAG_TYPE_ACPI_NEW ts = Some ta"
    and load: "first_tag MULTIBOOT_TAG_TYPE_LOAD_BASE_ADDR ts = Some (tb, le_bytes 4 (ucast (la :: u32)) @ rl)"
    and cap: "length (available es) \<le> 64" "length (reclaimable es) \<le> 8"
  shows "pi_parse_mb2 m mbh kboot_info_zero =
    Some (kboot_info_zero\<lparr>bi_maps := boot_map es, bi_load_addr := ucast la, bi_bootenv := boot_env ts,
      bi_fb := \<lparr>fbi_phys = addr, fbi_virt = 0, fbi_width = w, fbi_height = h, fbi_pitch = pitch, fbi_bpp = bpp\<rparr>\<rparr>)"
proof -
  let ?at = "\<lambda>ty. tag_place ty (mbh + 8) ts"
  have find: "find_mbt m mbh ty = Some (?at ty)" for ty
    using find_mbt_eq [OF info] room by simp
  have b: "bytes_at m (mbh + 8) (enc_tags ts)" using info by (simp add: enc_info_def add.assoc)
  have u: "unat (mbh + 8) + length (enc_tags ts) < 2 ^ 64 - 1"
    using room(1) unat_plus_of_nat [of mbh 8] by (simp add: enc_info_def)
  note place = tag_place_found [OF b] and ok = tag_place_not_err [OF _ u]
  have err: "?at ty = MB2_TAG_ERR \<longleftrightarrow> first_tag ty ts = None" for ty
    using ok [of ty] by (cases "first_tag ty ts") (auto simp: tag_place_def)
  have sz: "tag_size (tm, enc_mmap es) < 2 ^ 32"
    using tag_size_le_enc [OF place(3) [OF mm]] room(2) by (simp add: enc_info_def)
  have nowrap: "unat (?at MULTIBOOT_TAG_TYPE_MMAP) + tag_size (tm, enc_mmap es) < 2 ^ 64"
    using tag_place_end [OF mm u] u by linarith
  have maps: "pi_loop_mb2_mapentries m (?at MULTIBOOT_TAG_TYPE_MMAP) (bi_maps kboot_info_zero) = Some (boot_map es)"
    using pi_loop_mb2_mapentries_eq [OF place(1) [OF mm] nowrap sz cap]
    by (simp add: kboot_info_zero_def map_info_of_def total_len_def)
  have "bytes_at m (?at MULTIBOOT_TAG_TYPE_LOAD_BASE_ADDR + 8) (le_bytes 4 (ucast la))"
    using tag_fields(3) [OF place(1) [OF load]] by simp
  then have "load32 m (?at MULTIBOOT_TAG_TYPE_LOAD_BASE_ADDR + 8) = la" by (rule load32_bytes_at)
  then show ?thesis
    unfolding pi_parse_mb2_def
    by (simp add: find err maps mm fb acpi load boot_env_def fb_fields [OF place(1) [OF fb]])
qed

end
