(* ===== verification/BootProps.thy ===== *)
theory BootProps
  imports BootMaps BootInfo PageSpecs
begin

text \<open>
  The claims about \<^verbatim>\<open>kernel/boot.c\<close>: the boot information is read as it was written, the early allocator hands
  out distinct frames, and the kernel is entered with its image and the first \<^verbatim>\<open>ram_max\<close> bytes of memory mapped.
\<close>

section \<open>Setting up the regions\<close>

definition region_addr :: "kimage \<Rightarrow> bootparam_map_entry \<Rightarrow> u64" where
  "region_addr im ent =
     (if me_base ent \<le> kphys_start im \<and> me_base ent + me_len ent \<ge> kphys_end im
      then me_base ent + kphys_end im else me_base ent)"

definition region_len :: "kimage \<Rightarrow> bootparam_map_entry \<Rightarrow> u64" where
  "region_len im ent =
     (if me_base ent \<le> kphys_start im \<and> me_base ent + me_len ent \<ge> kphys_end im
      then me_len ent - kphys_end im else me_len ent)"

definition region_header :: "u64 \<Rightarrow> u64 \<Rightarrow> preinit_region" where
  "region_header addr len =
     \<lparr>pr_top = addr + len - PAGESIZE, pr_base = addr, cur_frames = PAGE_ALIGNDOWN len div 4096 - 1,
      max_frames = PAGE_ALIGNDOWN len div 4096\<rparr>"

lemma pf_init_region_eq:
  assumes "r < length (pfa_region st)" "r < 256"
  shows "pf_init_region im (ucast (of_nat r :: u8)) ent st =
    (if low_mapped (region_addr im ent) 32
     then Some (st\<lparr>pfa_region := (pfa_region st)[r := region_addr im ent],
       headers := (headers st)(region_addr im ent \<mapsto> region_header (region_addr im ent) (region_len im ent)),
       pfa_count := pfa_count st + 1\<rparr>)
     else None)"
proof -
  have "unat (ucast (of_nat r :: u8) :: u64) = r" using assms(2) by (simp add: unsigned_ucast_eq unat_of_nat8 take_bit_nat_eq_self)
  then show ?thesis
    using assms(1) by (simp add: pf_init_region_def region_addr_def region_len_def region_header_def Let_def)
qed

text \<open>The regions after the first leave it alone.\<close>

lemma of_nat_u8_less: "n < 256 \<Longrightarrow> (64 :: u8) < of_nat n \<longleftrightarrow> 64 < n"
  by (simp add: word_less_nat_alt unat_of_nat8)

lemma alloc_init_rest:
  assumes "1 \<le> r" "r + n \<le> 64" "64 \<le> length (mi_entries maps)" "length (pfa_region st) = 128"
    and "\<forall>j. r \<le> j \<and> j < r + n \<longrightarrow> low_mapped (region_addr im (mi_entries maps ! j)) 32 \<and> region_addr im (mi_entries maps ! j) \<noteq> b"
  shows "\<exists>st'. alloc_init_loop n (of_nat r) (of_nat r) im maps st = Some st' \<and> pfa_region st' ! 0 = pfa_region st ! 0 \<and>
    length (pfa_region st') = 128 \<and> headers st' b = headers st b \<and> pm st' = pm st"
  using assms
proof (induction n arbitrary: r st)
  case 0
  then show ?case by simp
next
  case (Suc n)
  let ?e = "mi_entries maps ! r"
  define st1 where "st1 = st\<lparr>pfa_region := (pfa_region st)[r := region_addr im ?e],
    headers := (headers st)(region_addr im ?e \<mapsto> region_header (region_addr im ?e) (region_len im ?e)), pfa_count := pfa_count st + 1\<rparr>"
  have e: "low_mapped (region_addr im ?e) 32" "region_addr im ?e \<noteq> b" using Suc.prems(5) by auto
  have s1: "pf_init_region im (ucast (of_nat r :: u8)) ?e st = Some st1"
    using pf_init_region_eq [of r st im ?e] Suc.prems(2,4) e(1) by (simp add: st1_def)
  have ur: "unat (of_nat r :: u8) = r" using Suc.prems(2) by (intro unat_of_nat8) simp
  have r1: "of_nat r + 1 = (of_nat (Suc r) :: u8)" "\<not> (of_nat (Suc r) :: u8) > 64"
    using of_nat_u8_less [of "Suc r"] Suc.prems(2) by simp_all
  have "alloc_init_loop (Suc n) (of_nat r) (of_nat r) im maps st = alloc_init_loop n (of_nat (Suc r)) (of_nat (Suc r)) im maps st1"
    using Suc.prems(2,3) s1 r1(2) by (simp add: ur r1(1) Let_def del: of_nat_Suc)
  moreover have "\<exists>st'. alloc_init_loop n (of_nat (Suc r)) (of_nat (Suc r)) im maps st1 = Some st' \<and> pfa_region st' ! 0 = pfa_region st1 ! 0 \<and>
    length (pfa_region st') = 128 \<and> headers st' b = headers st1 b \<and> pm st' = pm st1"
    using Suc.prems by (intro Suc.IH) (auto simp: st1_def)
  ultimately show ?case using Suc.prems(1) e(2) by (auto simp: st1_def)
qed

text \<open>The first region of the map: page-aligned, below 1 GiB, without the kernel; the headers of the others apart from it.\<close>

definition boot_regions :: "kimage \<Rightarrow> bootparam_map_info \<Rightarrow> nat \<Rightarrow> nat \<Rightarrow> bool" where
  "boot_regions im maps B M \<longleftrightarrow>
     (\<exists>n. mi_count maps = of_nat (Suc n) \<and> n < 64 \<and> 64 \<le> length (mi_entries maps) \<and>
       (\<forall>j. 1 \<le> j \<and> j \<le> n \<longrightarrow> low_mapped (region_addr im (mi_entries maps ! j)) 32 \<and> region_addr im (mi_entries maps ! j) \<noteq> of_nat B)) \<and>
     mi_entries maps ! 0 = \<lparr>me_base = of_nat B, me_len = of_nat (4096 * M)\<rparr> \<and>
     4096 dvd B \<and> 0 < M \<and> B + 4096 * M \<le> 2 ^ 30 \<and> of_nat (B + 4096 * M) < kphys_end im"

lemma alloc_init_pool:
  assumes r: "boot_regions im maps B M" and z: "tables (pm st) = Map.empty"
  shows "\<exists>st'. alloc_init im maps st = Some st' \<and> early_pool st' B M (M - 1) \<and> pm st' = pm st"
proof -
  from r obtain n where n: "mi_count maps = of_nat (Suc n)" "n < 64" "64 \<le> length (mi_entries maps)"
    "\<forall>j. 1 \<le> j \<and> j \<le> n \<longrightarrow> low_mapped (region_addr im (mi_entries maps ! j)) 32 \<and> region_addr im (mi_entries maps ! j) \<noteq> of_nat B"
    unfolding boot_regions_def by blast
  let ?e = "mi_entries maps ! 0"
  have e: "?e = \<lparr>me_base = of_nat B, me_len = of_nat (4096 * M)\<rparr>" "4096 dvd B" "0 < M" "B + 4096 * M \<le> 2 ^ 30"
    "of_nat (B + 4096 * M) < kphys_end im" using r by (simp_all add: boot_regions_def)
  have ne: "\<not> kphys_end im \<le> of_nat B + 4096 * of_nat M" using e(5) by (simp add: not_le)
  have a: "region_addr im ?e = of_nat B" "region_len im ?e = of_nat (4096 * M)"
    using ne by (simp_all add: region_addr_def region_len_def e(1))
  have uB: "unat (of_nat B :: u64) = B" "unat (of_nat (4096 * M) :: u64) = 4096 * M" using e(4) by (intro unat_low; simp)+
  have low: "low_mapped (region_addr im ?e) 32" unfolding a low_mapped_def uB using e(3,4) by simp
  have al: "PAGE_ALIGNDOWN (of_nat (4096 * M)) div 4096 = of_nat M"
  proof -
    have ad: "PAGE_ALIGNDOWN (of_nat (4096 * M)) = of_nat (4096 * M)"
      using align_down_page [of 0 M] by (simp add: pg_def)
    have "unat (of_nat (4096 * M) div 4096 :: u64) = M" unfolding unat_div uB by simp
    moreover have "unat (of_nat M :: u64) = M" using e(4) by (intro unat_low) simp
    ultimately have "of_nat (4096 * M) div 4096 = (of_nat M :: u64)" by (simp only: word_unat_eq_iff)
    then show ?thesis by (simp only: ad)
  qed
  have hd: "region_header (of_nat B) (of_nat (4096 * M)) =
      \<lparr>pr_top = of_nat (B + 4096 * (M - 1)), pr_base = of_nat B, cur_frames = of_nat (M - 1), max_frames = of_nat M\<rparr>"
  proof -
    obtain m where m: "M = Suc m" using e(3) by (cases M) auto
    show ?thesis unfolding region_header_def al by (simp add: m PAGESIZE_def)
  qed
  define st0 where "st0 = st\<lparr>pfa_region := replicate PFRAME_MAX_REGIONS KPAGE_ERR\<rparr>"
  define st1 where "st1 = st0\<lparr>pfa_region := (pfa_region st0)[0 := of_nat B],
    headers := (headers st0)(of_nat B \<mapsto> region_header (of_nat B) (of_nat (4096 * M))), pfa_count := pfa_count st0 + 1\<rparr>"
  have "length (pfa_region st0) = 128" by (simp add: st0_def PFRAME_MAX_REGIONS_def)
  then have s1: "pf_init_region im (ucast (of_nat 0 :: u8)) ?e st0 = Some st1" "length (pfa_region st1) = 128"
    using pf_init_region_eq [of 0 st0 im ?e] low by (simp_all add: st1_def a)
  have "1 + n \<le> 64" using n(2) by simp
  from alloc_init_rest [of 1 n maps st1 im "of_nat B"] this s1(2) n(3,4) obtain st' where
    s': "alloc_init_loop n 1 1 im maps st1 = Some st'" "pfa_region st' ! 0 = pfa_region st1 ! 0" "length (pfa_region st') = 128"
    "headers st' (of_nat B) = headers st1 (of_nat B)" "pm st' = pm st1" by auto
  have "unat (of_nat (Suc n) :: u8) = Suc n" using n(2) by (intro unat_of_nat8) simp
  moreover have e0: "0 < length (mi_entries maps)" using n(3) by linarith
  ultimately have "alloc_init im maps st = Some st'"
    using e0 s1(1) s'(1) unfolding alloc_init_def st0_def [symmetric] n(1) by (simp del: of_nat_Suc)
  moreover have hs: "headers st' (of_nat B) =
      Some \<lparr>pr_top = of_nat (B + 4096 * (M - 1)), pr_base = of_nat B, cur_frames = of_nat (M - 1), max_frames = of_nat M\<rparr>"
    unfolding s'(4) hd [symmetric] by (simp add: st1_def)
  have "pfa_region st' \<noteq> []" "pfa_region st' ! 0 = of_nat B" "M - 1 < M" "tables (pm st') = Map.empty"
    using s'(2,3,5) s1(2) e(3) z by (auto simp: st1_def st0_def PFRAME_MAX_REGIONS_def)
  then have "early_pool st' B M (M - 1)" using hs e(2,4) by (simp add: early_pool_def)
  ultimately show ?thesis using s'(5) \<open>early_pool st' B M (M - 1)\<close> by (auto simp: st1_def st0_def)
qed

text \<open>A header above the identity map cannot be written.\<close>

lemma alloc_init_high:
  assumes "r + n \<le> 64" "64 \<le> length (mi_entries maps)" "length (pfa_region st) = 128"
    and "r \<le> j" "j < r + n" "\<not> low_mapped (region_addr im (mi_entries maps ! j)) 32"
  shows "alloc_init_loop n (of_nat r) (of_nat r) im maps st = None"
  using assms
proof (induction n arbitrary: r st)
  case 0
  then show ?case by simp
next
  case (Suc n)
  let ?e = "mi_entries maps ! r"
  have ur: "unat (of_nat r :: u8) = r" using Suc.prems(1) by (intro unat_of_nat8) simp
  have r1: "of_nat r + 1 = (of_nat (Suc r) :: u8)" by simp
  note eq = pf_init_region_eq [of r st im ?e]
  show ?case
  proof (cases "low_mapped (region_addr im ?e) 32")
    case True
    then have "j \<noteq> r" using Suc.prems(6) by auto
    then have "alloc_init_loop n (of_nat (Suc r)) (of_nat (Suc r)) im maps st1 = None"
      if "length (pfa_region st1) = 128" for st1 using Suc.prems that by (intro Suc.IH) auto
    then show ?thesis using eq Suc.prems(1-3) True
      by (simp add: ur r1 Let_def die_def del: of_nat_Suc)
  next
    case False
    then show ?thesis using eq Suc.prems(1-3) by (simp add: ur)
  qed
qed

section \<open>Handing out frames\<close>

primrec alloc_frames :: "nat \<Rightarrow> preinit \<Rightarrow> (preinit \<times> u64 list) option" where
  "alloc_frames 0 st = Some (st, [])"
| "alloc_frames (Suc n) st = do { (st, f) \<leftarrow> alloc_frame st; (st, fs) \<leftarrow> alloc_frames n st; Some (st, f # fs) }"

lemma alloc_frames_spec:
  assumes "early_pool st B M c" "n \<le> c"
  shows "\<exists>st'. alloc_frames n st = Some (st', map (\<lambda>j. of_nat (B + 4096 * (c - j))) [0..<n]) \<and> early_pool st' B M (c - n)"
  using assms
proof (induction n arbitrary: st c)
  case 0
  then show ?case by simp
next
  case (Suc n)
  then obtain d where d: "c = Suc d" by (cases c) auto
  obtain st1 where s1: "alloc_frame st = Some (st1, of_nat (B + 4096 * Suc d))" "early_pool st1 B M d"
    using alloc_frame_spec [OF Suc.prems(1) [unfolded d]] by metis
  from Suc.IH [OF s1(2)] Suc.prems(2) d obtain st2 where
    s2: "alloc_frames n st1 = Some (st2, map (\<lambda>j. of_nat (B + 4096 * (d - j))) [0..<n])" "early_pool st2 B M (d - n)" by auto
  have "[0..<Suc n] = 0 # map Suc [0..<n]" by (simp add: map_Suc_upt upt_conv_Cons del: upt_Suc)
  then show ?case using s1(1) s2 by (simp add: d del: upt_Suc)
qed

lemma alloc_frame_other_region_dies:
  assumes p: "early_pool st B M 0" and r: "1 < length (pfa_region st)" "pfa_region st ! 1 \<noteq> KPAGE_ERR"
    "headers st (pfa_region st ! 1) = Some h" "cur_frames h \<noteq> 0" "of_nat (B + 4096 * M) \<le> pr_top h"
  shows "alloc_frame st = None"
proof -
  have e: "pfa_region st \<noteq> []" "pfa_region st ! 0 = of_nat B" "B + 4096 * M \<le> 2 ^ 30"
    "headers st (of_nat B) = Some \<lparr>pr_top = of_nat B, pr_base = of_nat B, cur_frames = 0, max_frames = of_nat M\<rparr>"
    using p by (simp_all add: early_pool_def)
  have uB: "unat (of_nat B :: u64) = B" using e(3) by (intro unat_low) simp
  have ne: "(of_nat B :: u64) \<noteq> KPAGE_ERR"
  proof
    assume "(of_nat B :: u64) = KPAGE_ERR"
    then have "B = unat KPAGE_ERR" using uB by simp
    then show False using e(3) by (simp add: KPAGE_ERR_def unsigned_minus_1_eq_mask mask_eq_exp_minus_1)
  qed
  have pe: "(of_nat B + push_bit 12 (of_nat M) :: u64) = of_nat (B + 4096 * M)"
    by (simp add: push_bit_of_nat) (simp add: push_bit_eq_mult)
  have k: "PFRAME_MAX_REGIONS = Suc (Suc 126)" by (simp add: PFRAME_MAX_REGIONS_def)
  show ?thesis
    using e(1,2,4) ne r unfolding alloc_frame_def k alloc_frame_loop.simps
    by (simp add: pe Let_def die_def)
qed

section \<open>Memory that holds given bytes\<close>

definition mem_of :: "u64 \<Rightarrow> u8 list \<Rightarrow> u64 \<Rightarrow> u8" where
  "mem_of p bs a = (if unat (a - p) < length bs then bs ! unat (a - p) else 0)"

lemma bytes_at_mem_of:
  assumes "length bs < 2 ^ 64"
  shows "bytes_at (mem_of p bs) p bs"
proof -
  have "i \<le> length bs \<Longrightarrow> bytes_at (mem_of p bs) (p + of_nat (length bs - i)) (drop (length bs - i) bs)" for i
  proof (induction i)
    case (Suc i)
    let ?k = "length bs - Suc i"
    have d: "drop ?k bs = bs ! ?k # drop (Suc ?k) bs" "Suc ?k = length bs - i" using Suc.prems by (simp_all add: Cons_nth_drop_Suc)
    have k: "?k < length bs" using Suc.prems by simp
    then have "unat (of_nat ?k :: u64) = ?k" using assms by (intro unat_of_nat64) simp
    then have "unat (p + of_nat ?k - p) = ?k" by (simp only: add_diff_cancel_left')
    then have "mem_of p bs (p + of_nat ?k) = bs ! ?k" using k by (simp only: mem_of_def if_True)
    moreover have "p + of_nat ?k + 1 = p + of_nat (length bs - i)" unfolding d(2) [symmetric] by simp
    ultimately show ?case using Suc d by simp
  qed simp
  from this [of "length bs"] show ?thesis by simp
qed

section \<open>Claims\<close>

text \<open>C40. A search for a tag returns: the address of the first tag of the type before the end tag, and the bytes
  of that tag are there; without one, \<^verbatim>\<open>MB2_TAG_ERR\<close>.\<close>

theorem find_mbt_returns:
  assumes "bytes_at m mbh (enc_info ts)" "unat mbh + length (enc_info ts) < 2 ^ 64 - 1" "length (enc_info ts) < 2 ^ 32"
  shows "\<exists>p. find_mbt m mbh ty = Some p \<and>
    (case first_tag ty ts of None \<Rightarrow> p = MB2_TAG_ERR | Some t \<Rightarrow> p \<noteq> MB2_TAG_ERR \<and> fst t = ty \<and> bytes_at m p (enc_tag t))"
proof -
  have b: "bytes_at m (mbh + 8) (enc_tags ts)" using assms(1) by (simp add: enc_info_def add.assoc)
  have u: "unat (mbh + 8) + length (enc_tags ts) < 2 ^ 64 - 1"
    using assms(2) unat_plus_of_nat [of mbh 8] by (simp add: enc_info_def)
  have "find_mbt m mbh ty = Some (tag_place ty (mbh + 8) ts)" using find_mbt_eq [OF assms(1)] assms(2,3) by simp
  then show ?thesis
    using tag_place_found [OF b] tag_place_not_err [OF _ u] by (auto simp: tag_place_def split: option.splits)
qed

definition demo_tags :: "mb2_tag list" where
  "demo_tags =
     [(MULTIBOOT_TAG_TYPE_LOAD_BASE_ADDR, le_bytes 4 (ucast (0x100000 :: u32)) @ []),
      (MULTIBOOT_TAG_TYPE_MMAP, enc_mmap [(0x100000, 0x7F00000, 1), (0, 0x9F000, 1), (0x8000000, 0x1000, 3), (0xFEC00000, 0x1000, 2)]),
      (MULTIBOOT_TAG_TYPE_FRAMEBUFFER, enc_fb 0xFD000000 5120 1280 800 32 [1, 0, 0]),
      (MULTIBOOT_TAG_TYPE_ACPI_NEW, [0x52, 0x53, 0x44]),
      (MULTIBOOT_TAG_TYPE_EFI64, le_bytes 8 0x7E00000),
      (MULTIBOOT_TAG_TYPE_END, [])]"

lemmas tag_types = MULTIBOOT_TAG_TYPE_LOAD_BASE_ADDR_def MULTIBOOT_TAG_TYPE_MMAP_def MULTIBOOT_TAG_TYPE_FRAMEBUFFER_def
  MULTIBOOT_TAG_TYPE_ACPI_NEW_def MULTIBOOT_TAG_TYPE_EFI64_def MULTIBOOT_TAG_TYPE_EFI32_def MULTIBOOT_TAG_TYPE_END_def

lemma demo_length: "length (enc_info demo_tags) = 208"
  by (simp add: demo_tags_def enc_info_def tag_size_def pad8_def enc_mmap_def enc_fb_def)

lemma demo_mem: "bytes_at (mem_of 0x10000 (enc_info demo_tags)) 0x10000 (enc_info demo_tags)"
  by (rule bytes_at_mem_of) (simp add: demo_length)

lemma demo_first:
  "first_tag MULTIBOOT_TAG_TYPE_LOAD_BASE_ADDR demo_tags =
     Some (MULTIBOOT_TAG_TYPE_LOAD_BASE_ADDR, le_bytes 4 (ucast (0x100000 :: u32)) @ [])"
  "first_tag MULTIBOOT_TAG_TYPE_MMAP demo_tags = Some (MULTIBOOT_TAG_TYPE_MMAP,
     enc_mmap [(0x100000, 0x7F00000, 1), (0, 0x9F000, 1), (0x8000000, 0x1000, 3), (0xFEC00000, 0x1000, 2)])"
  "first_tag MULTIBOOT_TAG_TYPE_FRAMEBUFFER demo_tags =
     Some (MULTIBOOT_TAG_TYPE_FRAMEBUFFER, enc_fb 0xFD000000 5120 1280 800 32 [1, 0, 0])"
  "first_tag MULTIBOOT_TAG_TYPE_ACPI_NEW demo_tags = Some (MULTIBOOT_TAG_TYPE_ACPI_NEW, [0x52, 0x53, 0x44])"
  "first_tag MULTIBOOT_TAG_TYPE_EFI64 demo_tags = Some (MULTIBOOT_TAG_TYPE_EFI64, le_bytes 8 0x7E00000)"
  "first_tag MULTIBOOT_TAG_TYPE_EFI32 demo_tags = None"
  by (simp_all add: first_tag_def demo_tags_def tag_types)

theorem find_mbt_returns_witness:
  "\<exists>p. find_mbt (mem_of 0x10000 (enc_info demo_tags)) 0x10000 MULTIBOOT_TAG_TYPE_ACPI_NEW = Some p \<and> p \<noteq> MB2_TAG_ERR \<and>
    bytes_at (mem_of 0x10000 (enc_info demo_tags)) p (enc_tag (MULTIBOOT_TAG_TYPE_ACPI_NEW, [0x52, 0x53, 0x44]))"
  using find_mbt_returns [OF demo_mem, of MULTIBOOT_TAG_TYPE_ACPI_NEW] by (auto simp: demo_length demo_first)

text \<open>C38. \<^verbatim>\<open>pi_parse_mb2\<close> reads back what the boot loader wrote: the available and the reclaimable entries of the
  memory map in the order of their addresses with their totals, the framebuffer, the load address and the kind of
  firmware. The map has at most 64 available and 8 reclaimable entries, which is what the arrays hold: the code
  does not check this.\<close>

theorem pi_parse_mb2_correct:
  assumes "bytes_at m mbh (enc_info ts)" "unat mbh + length (enc_info ts) < 2 ^ 64 - 1" "length (enc_info ts) < 2 ^ 32"
    and "first_tag MULTIBOOT_TAG_TYPE_MMAP ts = Some (tm, enc_mmap es)"
    and "first_tag MULTIBOOT_TAG_TYPE_FRAMEBUFFER ts = Some (tf, enc_fb addr pitch w h bpp rest)"
    and "first_tag MULTIBOOT_TAG_TYPE_ACPI_NEW ts = Some ta"
    and "first_tag MULTIBOOT_TAG_TYPE_LOAD_BASE_ADDR ts = Some (tb, le_bytes 4 (ucast (la :: u32)) @ rl)"
    and "length (available es) \<le> 64" "length (reclaimable es) \<le> 8"
  shows "pi_parse_mb2 m mbh kboot_info_zero =
    Some (kboot_info_zero\<lparr>bi_maps := boot_map es, bi_load_addr := ucast la, bi_bootenv := boot_env ts,
      bi_fb := \<lparr>fbi_phys = addr, fbi_virt = 0, fbi_width = w, fbi_height = h, fbi_pitch = pitch, fbi_bpp = bpp\<rparr>\<rparr>)"
  by (rule pi_parse_mb2_eq [OF assms])

theorem pi_parse_mb2_correct_witness:
  "\<exists>i. pi_parse_mb2 (mem_of 0x10000 (enc_info demo_tags)) 0x10000 kboot_info_zero = Some i \<and>
    take 2 (mi_entries (bi_maps i)) = [\<lparr>me_base = 0, me_len = 0x9F000\<rparr>, \<lparr>me_base = 0x100000, me_len = 0x7F00000\<rparr>] \<and>
    mi_ram_max (bi_maps i) = 0x7FA0000 \<and> mi_ram_usable (bi_maps i) = 0x7F9F000 \<and> bi_load_addr i = 0x100000 \<and>
    bi_bootenv i = KERN_BOOT_TYPE_EFI64 \<and> fbi_pitch (bi_fb i) = 5120"
  using pi_parse_mb2_correct [OF demo_mem _ _ demo_first(2,3,4,1)]
  by (simp add: demo_length boot_env_def demo_first boot_map_def map_info_of_def of_type_def total_len_def
      MULTIBOOT_MEMORY_AVAILABLE_def MULTIBOOT_MEMORY_ACPI_RECLAIMABLE_def)

text \<open>C39. The early allocator hands out the frames of the first region from the top down, each once and never
  the first one, which holds the header.\<close>

theorem alloc_frames_distinct:
  assumes "early_pool st B M c" "n \<le> c"
  shows "\<exists>st'. alloc_frames n st = Some (st', map (\<lambda>j. of_nat (B + 4096 * (c - j))) [0..<n]) \<and> early_pool st' B M (c - n)"
  by (rule alloc_frames_spec [OF assms])

definition demo_image :: kimage where
  "demo_image = \<lparr>begin_sym = 0xFFFFFFFF80110000, after_ro = 0xFFFFFFFF80200000, kstack_guard = 0xFFFFFFFF80300000,
     kstack_top = 0xFFFFFFFF80501000, kphys_start = 0x100000, kphys_end = 0x502000, prebegin = 0x100000, preend = 0x110000\<rparr>"

definition demo_maps :: bootparam_map_info where
  "demo_maps = map_info_of [\<lparr>me_base = 0, me_len = 0x9F000\<rparr>, \<lparr>me_base = 0x100000, me_len = 0x7F00000\<rparr>] []"

definition demo_pre :: preinit where
  "demo_pre = \<lparr>pm = \<lparr>pt_buddy = kbuddy.make Map.empty Map.empty (replicate 128 0) 0,
     tables = Map.empty, cr3 = 0, invlpg = [], pt_bytes = (\<lambda>_. 0)\<rparr>, pfa_region = replicate 128 0, pfa_count = 0,
     headers = Map.empty, total_ram = 0, usable_ram = 0, KERN_BOOT_INFO = kboot_info_zero\<rparr>"

lemma demo_regions: "boot_regions demo_image demo_maps 0 159"
proof -
  have "low_mapped (region_addr demo_image (mi_entries demo_maps ! j)) 32 \<and> region_addr demo_image (mi_entries demo_maps ! j) \<noteq> of_nat 0"
    if "1 \<le> j \<and> j \<le> 1" for j
  proof -
    have "j = 1" using that by simp
    then show ?thesis by (simp add: demo_image_def demo_maps_def map_info_of_def region_addr_def low_mapped_def)
  qed
  then have "\<exists>n. mi_count demo_maps = of_nat (Suc n) \<and> n < 64 \<and> 64 \<le> length (mi_entries demo_maps) \<and>
       (\<forall>j. 1 \<le> j \<and> j \<le> n \<longrightarrow> low_mapped (region_addr demo_image (mi_entries demo_maps ! j)) 32 \<and>
         region_addr demo_image (mi_entries demo_maps ! j) \<noteq> of_nat 0)"
    by (intro exI [of _ 1]) (simp add: demo_maps_def map_info_of_def)
  then show ?thesis unfolding boot_regions_def by (simp add: demo_maps_def map_info_of_def demo_image_def)
qed

theorem alloc_frames_distinct_witness:
  "\<exists>st fs. (do { st \<leftarrow> alloc_init demo_image demo_maps demo_pre; alloc_frames 2 st }) = Some (st, fs) \<and> fs = [0x9E000, 0x9D000]"
proof -
  obtain st where st: "alloc_init demo_image demo_maps demo_pre = Some st" "early_pool st 0 159 158"
    using alloc_init_pool [OF demo_regions, of demo_pre] by (auto simp: demo_pre_def)
  have "[0..<2] = [0, 1 :: nat]" by (simp add: upt_rec)
  then show ?thesis using alloc_frames_distinct [OF st(2), of 2] st(1) by auto
qed

text \<open>C37. What \<^verbatim>\<open>alloc_init\<close> and \<^verbatim>\<open>init_higher_half\<close> map when the first region is page-aligned, ends below 1 GiB and below the
  end of the kernel and has a frame for each table, the headers of the other regions lie below 1 GiB, and neither the
  image is larger than 1 GiB nor \<^verbatim>\<open>ram_max\<close> than 2^46: the first GiB at its own address; the image, up to a whole 2 MiB, behind
  \<^verbatim>\<open>KERNEL_OFFSET\<close>, writable exactly outside text and constants; and behind \<^verbatim>\<open>KERNEL_PHMMAP\<close> the physical addresses from 0
  to \<^verbatim>\<open>ram_max\<close>, up to a whole GiB. \<^verbatim>\<open>ram_max\<close> is the sum of the lengths of the entries: where the map has holes,
  memory above this bound is not covered.\<close>

theorem boot_space_built:
  assumes "boot_regions im (bi_maps info) B M" "tables (pm st) = Map.empty"
    and "(kphys_end im - kphys_start im) + bi_load_addr info = of_nat k" "0 < k" "k \<le> 2 ^ 30"
    and "mi_ram_max (bi_maps info) = of_nat b" "b \<le> 2 ^ 46" "l3_tables b + l1_tables k + 4 < M"
  shows "\<exists>st'. (do { st \<leftarrow> alloc_init im (bi_maps info) st; init_higher_half im st info }) = Some st' \<and>
    boot_space (pm st') k b \<and> (\<forall>j < 512 * l1_tables k. pte_of (pm st') (KOFF + j) = Some (code_entry im j))"
proof -
  obtain st1 where s1: "alloc_init im (bi_maps info) st = Some st1" "early_pool st1 B M (M - 1)"
    using alloc_init_pool [OF assms(1,2)] by blast
  have "early_pool st1 B M ((M - 5 - l3_tables b - l1_tables k) + l3_tables b + l1_tables k + 4)"
    using s1(2) assms(8) by (simp add: algebra_simps)
  from init_higher_half_spec [OF this assms(3-7)] s1(1) show ?thesis by (auto simp: code_mapped_def)
qed

theorem boot_space_built_witness:
  "\<exists>st'. (do { st \<leftarrow> alloc_init demo_image demo_maps demo_pre;
      init_higher_half demo_image st (kboot_info_zero\<lparr>bi_maps := demo_maps, bi_load_addr := 0x100000\<rparr>) }) = Some st' \<and>
    kpt_get_phys (pm st') (phys_to_virt_pm 0x7000000) = Some 0x7000000 \<and>
    kpt_get_phys (pm st') (phys_to_virt_of 0x110000) = Some 0x110000"
proof -
  let ?i = "kboot_info_zero\<lparr>bi_maps := demo_maps, bi_load_addr := 0x100000\<rparr>"
  have h: "boot_regions demo_image (bi_maps ?i) 0 159" "tables (pm demo_pre) = Map.empty"
    "(kphys_end demo_image - kphys_start demo_image) + bi_load_addr ?i = of_nat 0x502000"
    "mi_ram_max (bi_maps ?i) = of_nat 0x7F9F000"
    using demo_regions by (simp_all add: demo_pre_def demo_image_def demo_maps_def map_info_of_def total_len_def)
  have t: "l3_tables 0x7F9F000 = 1" "l1_tables 0x502000 = 3" "gib_count 0x7F9F000 = 1"
    by (simp_all add: l3_tables_def gib_count_def l1_tables_def)
  from boot_space_built [OF h(1,2,3) _ _ h(4)] obtain st' where
    "(do { st \<leftarrow> alloc_init demo_image (bi_maps ?i) demo_pre; init_higher_half demo_image st ?i }) = Some st'"
    "boot_space (pm st') 0x502000 0x7F9F000" by (auto simp: t)
  moreover from this(2) have "\<forall>x < 0x200000 * 3. kpt_get_phys (pm st') (phys_to_virt_of (of_nat x)) = Some (of_nat x)"
    "\<forall>x < 2 ^ 30 * 1. kpt_get_phys (pm st') (phys_to_virt_pm (of_nat x)) = Some (of_nat x)"
    unfolding boot_space_def t by blast+
  note this(1) [rule_format, of "0x110000"] this(2) [rule_format, of "0x7000000"]
  ultimately show ?thesis by (intro exI [of _ st']) simp
qed

text \<open>Memory from 1 GiB on stops the boot: a header there lies outside the identity map, and writing it
  faults.\<close>

theorem alloc_init_high_faults:
  assumes "unat (mi_count maps) \<le> 64" "64 \<le> length (mi_entries maps)" "j < unat (mi_count maps)"
    and "\<not> low_mapped (region_addr im (mi_entries maps ! j)) 32"
  shows "alloc_init im maps st = None"
  using alloc_init_high [of 0 "unat (mi_count maps)" maps "st\<lparr>pfa_region := replicate PFRAME_MAX_REGIONS KPAGE_ERR\<rparr>" j] assms
  by (simp add: alloc_init_def PFRAME_MAX_REGIONS_def)

theorem alloc_init_high_faults_witness:
  "alloc_init demo_image (map_info_of [\<lparr>me_base = 0, me_len = 0x9F000\<rparr>, \<lparr>me_base = 0x100000000, me_len = 0x80000000\<rparr>] []) demo_pre = None"
  by (rule alloc_init_high_faults [of _ 1]) (simp_all add: map_info_of_def region_addr_def demo_image_def low_mapped_def)

end
