(* ===== verification/BuddyRelease.thy ===== *)
theory BuddyRelease
  imports BuddyProps
begin

text \<open>
  A new region of the page allocator: \<^verbatim>\<open>kbud_init_region\<close> lays header and bitmaps out and \<^verbatim>\<open>kbud_free_range\<close> cuts
  the pages behind them into blocks. The result satisfies the invariant of a region, with every page free.
\<close>

section \<open>Rounding\<close>

lemma align_down_nat: "n < 2 ^ 64 \<Longrightarrow> PAGE_ALIGNDOWN (of_nat n) = of_nat (n div 4096 * 4096)"
proof -
  assume "n < 2 ^ 64"
  then have "(of_nat n :: u64) AND NOT (mask 12) = of_nat (n div 2 ^ 12 * 2 ^ 12)" by (intro and_not_mask_of_nat) simp
  then show ?thesis by (simp add: PAGE_ALIGNDOWN_def PAGESIZE_def mask_eq_exp_minus_1)
qed

lemma align_up_nat: "n + 4095 < 2 ^ 64 \<Longrightarrow> PAGE_ALIGNUP (of_nat n) = of_nat ((n + 4095) div 4096 * 4096)"
proof -
  assume "n + 4095 < 2 ^ 64"
  then have "PAGE_ALIGNDOWN (of_nat (n + 4095)) = of_nat ((n + 4095) div 4096 * 4096)" by (rule align_down_nat)
  then show ?thesis by (simp add: PAGE_ALIGNUP_def PAGE_ALIGNDOWN_def PAGESIZE_def)
qed

lemma align_64_nat: "n + 63 < 2 ^ 64 \<Longrightarrow> SY_ALIGN_UP (of_nat n) BITMAP_ALIGN = of_nat ((n + 63) div 64 * 64)"
proof -
  assume "n + 63 < 2 ^ 64"
  then have "(of_nat (n + 63) :: u64) AND NOT (mask 6) = of_nat ((n + 63) div 2 ^ 6 * 2 ^ 6)" by (intro and_not_mask_of_nat) simp
  then show ?thesis by (simp add: SY_ALIGN_UP_def BITMAP_ALIGN_def mask_eq_exp_minus_1)
qed

section \<open>The bitmaps\<close>

text \<open>The size of the bitmap of order \<open>i\<close> in a region of \<open>R\<close> pages, and the place of header and bitmaps.\<close>

definition bitmap_size :: "nat \<Rightarrow> nat \<Rightarrow> nat" where
  "bitmap_size R i = ((R div 2 ^ (i + 1) + 7) div 8 + 63) div 64 * 64"

definition bitmaps_end :: "nat \<Rightarrow> nat" where
  "bitmaps_end R = 400 + (\<Sum>i<11. bitmap_size R i)"

definition header_pages :: "nat \<Rightarrow> nat" where
  "header_pages R = (bitmaps_end R + 4095) div 4096"

lemma init_bitmaps_step:
  assumes R: "R < 2 ^ 52" "2 ^ (i + 1) \<le> R"
  shows "init_bitmaps (Suc n) i (of_nat R) s c =
    init_bitmaps n (i + 1) (of_nat R) (s\<lparr>bitmap_arr := (bitmap_arr s)[i := replicate (bitmap_size R i) 0],
      maxbits := (maxbits s)[i := of_nat (R div 2 ^ (i + 1))], max_order := of_nat i\<rparr>) (c + of_nat (bitmap_size R i))"
proof -
  have u: "unat (of_nat R :: u64) = R" using R(1) by (intro unat_of_nat64) simp
  have le: "R div 2 ^ (i + 1) \<le> R" by (rule div_le_dividend)
  have R64: "R + 70 < 2 ^ 64" using R(1) by simp
  have d: "drop_bit (i + 1) (of_nat R :: u64) = of_nat (R div 2 ^ (i + 1))"
    unfolding word_unat_eq_iff unat_drop u using le R64 by (intro unat_of_nat64 [symmetric]) linarith
  have "R div 2 ^ (i + 1) \<noteq> 0" using R(2) by (simp add: div_eq_0_iff)
  then have nz: "(of_nat (R div 2 ^ (i + 1)) :: u64) \<noteq> 0" using le R64 by (subst of_nat_zero) linarith+
  have "of_nat (R div 2 ^ (i + 1)) + 7 = (of_nat (R div 2 ^ (i + 1) + 7) :: u64)" by simp
  also have "drop_bit 3 \<dots> = of_nat ((R div 2 ^ (i + 1) + 7) div 8)"
  proof -
    have "unat (of_nat (R div 2 ^ (i + 1) + 7) :: u64) = R div 2 ^ (i + 1) + 7" using le R64 by (intro unat_of_nat64) linarith
    moreover have "unat (of_nat ((R div 2 ^ (i + 1) + 7) div 8) :: u64) = (R div 2 ^ (i + 1) + 7) div 8"
      using le R64 div_le_dividend [of "R div 2 ^ (i + 1) + 7" 8] by (intro unat_of_nat64) linarith
    ultimately show ?thesis unfolding word_unat_eq_iff unat_drop by simp
  qed
  finally have b: "drop_bit 3 (of_nat (R div 2 ^ (i + 1)) + 7) = (of_nat ((R div 2 ^ (i + 1) + 7) div 8) :: u64)" .
  have "(R div 2 ^ (i + 1) + 7) div 8 + 63 < 2 ^ 64" using le R64 div_le_dividend [of "R div 2 ^ (i + 1) + 7" 8] by linarith
  then have a: "SY_ALIGN_UP (of_nat ((R div 2 ^ (i + 1) + 7) div 8)) BITMAP_ALIGN = of_nat (bitmap_size R i)"
    unfolding bitmap_size_def by (rule align_64_nat)
  have "bitmap_size R i \<le> (R div 2 ^ (i + 1) + 7) div 8 + 63" unfolding bitmap_size_def by (rule div_times_less_eq_dividend)
  then have "unat (of_nat (bitmap_size R i) :: u64) = bitmap_size R i"
    using le R64 div_le_dividend [of "R div 2 ^ (i + 1) + 7" 8] by (intro unat_of_nat64) linarith
  then show ?thesis unfolding init_bitmaps.simps(2) Let_def d b a using nz by simp
qed

text \<open>The first \<open>i\<close> bitmaps are laid out and clear, the others are not there yet.\<close>

definition bitmaps_ok :: "nat \<Rightarrow> nat \<Rightarrow> slave_buddy \<Rightarrow> bool" where
  "bitmaps_ok R i s \<longleftrightarrow> length (maxbits s) = 11 \<and> length (bitmap_arr s) = 11 \<and>
     (\<forall>k<i. maxbits s ! k = of_nat (R div 2 ^ (k + 1)) \<and> bitmap_arr s ! k = replicate (bitmap_size R k) 0)"

lemma init_bitmaps_loop:
  "n + i = 11 \<Longrightarrow> R < 2 ^ 52 \<Longrightarrow> 2 ^ 11 \<le> R \<Longrightarrow> bitmaps_ok R i s \<Longrightarrow> \<exists>s'. init_bitmaps n i (of_nat R) s c =
     (s', c + of_nat (\<Sum>k \<in> {i..<11}. bitmap_size R k)) \<and> bitmaps_ok R 11 s' \<and>
     s' = s\<lparr>bitmap_arr := bitmap_arr s', maxbits := maxbits s', max_order := (if n = 0 then max_order s else 10)\<rparr>"
proof (induction n arbitrary: i s c)
  case 0
  then show ?case by simp
next
  case (Suc n)
  let ?s = "s\<lparr>bitmap_arr := (bitmap_arr s)[i := replicate (bitmap_size R i) 0],
      maxbits := (maxbits s)[i := of_nat (R div 2 ^ (i + 1))], max_order := of_nat i\<rparr>"
  have "(2 :: nat) ^ (i + 1) \<le> 2 ^ 11" using Suc.prems(1) by (intro power_increasing) auto
  then have R: "2 ^ (i + 1) \<le> R" using Suc.prems(3) by linarith
  have "bitmaps_ok R (i + 1) ?s" using Suc.prems(1,4) by (auto simp: bitmaps_ok_def nth_list_update less_Suc_eq)
  from Suc.IH [OF _ Suc.prems(2,3) this, of "c + of_nat (bitmap_size R i)"] Suc.prems(1)
  obtain s' where s': "init_bitmaps n (i + 1) (of_nat R) ?s (c + of_nat (bitmap_size R i)) =
      (s', c + of_nat (bitmap_size R i) + of_nat (\<Sum>k \<in> {i + 1..<11}. bitmap_size R k))"
    "bitmaps_ok R 11 s'"
    "s' = ?s\<lparr>bitmap_arr := bitmap_arr s', maxbits := maxbits s', max_order := (if n = 0 then max_order ?s else 10)\<rparr>"
    by auto
  have "max_order ?s = 10" if "n = 0" using that Suc.prems(1) by simp
  then have "s' = ?s\<lparr>bitmap_arr := bitmap_arr s', maxbits := maxbits s', max_order := 10\<rparr>" using s'(3) by (cases "n = 0") simp_all
  then have f: "s' = s\<lparr>bitmap_arr := bitmap_arr s', maxbits := maxbits s', max_order := 10\<rparr>" by simp
  have "(\<Sum>k \<in> {i..<11}. bitmap_size R k) = bitmap_size R i + (\<Sum>k \<in> {i + 1..<11}. bitmap_size R k)"
    using Suc.prems(1) by (simp add: sum.atLeast_Suc_lessThan)
  then have "init_bitmaps (Suc n) i (of_nat R) s c = (s', c + of_nat (\<Sum>k \<in> {i..<11}. bitmap_size R k))"
    unfolding init_bitmaps_step [OF Suc.prems(2) R] s'(1) by (simp add: add.assoc)
  then show ?case using s'(2) f by (intro exI [of _ s']) simp
qed


section \<open>The header\<close>

text \<open>A region of \<open>R\<close> pages at \<open>B\<close> whose size is a multiple of the largest pair of blocks, and whose header and bitmaps end
  at a multiple of the largest block.\<close>

definition well_placed :: "nat \<Rightarrow> nat \<Rightarrow> nat \<Rightarrow> bool" where
  "well_placed B L R \<longleftrightarrow> 4096 dvd B \<and> L div 4096 = R \<and> 2 ^ 11 dvd R \<and> header_pages R < R \<and>
     2 ^ 22 dvd B + 4096 * header_pages R \<and> B + 4096 * (header_pages R + R) \<le> 2 ^ 46"

lemma init_region_spec:
  assumes w: "well_placed B L R"
  defines "s \<equiv> kbud_init_region zero_slave (of_nat B) (of_nat L)"
  shows "geom s R" "bits_ok s" "\<forall>k<11. \<forall>x \<in> set (bitmap_arr s ! k). x = 0" "sb_free s = replicate 11 0"
    "order_blk_cnt s = replicate 11 0" "mbase s = of_nat (B + 4096 * header_pages R)" "rbase s = of_nat B"
    "total_pages s = of_nat (R - header_pages R)"
proof -
  define H where "H = header_pages R"
  note w' = w [unfolded well_placed_def, folded H_def]
  have e: "bitmaps_end R + 4095 < 4096 * H + 4096" "4096 * H \<le> bitmaps_end R + 4095" unfolding H_def header_pages_def by linarith+
  have b: "B + 4096 * H + 4096 * R \<le> 2 ^ 46" "4096 * R \<le> L" "L < 4096 * R + 4096" "H < R"
    using w' by (auto simp: algebra_simps)
  have R: "R < 2 ^ 52" "2 ^ 11 \<le> R" using b(1,4) w' by (auto dest: dvd_imp_le)
  have L64: "L < 2 ^ 64" using b by simp
  have ad: "PAGE_ALIGNDOWN (of_nat L) = of_nat (R * 4096)" using align_down_nat [OF L64] w' by simp
  have uR: "unat (of_nat (R * 4096) :: u64) = R * 4096" "unat (of_nat R :: u64) = R"
    using b by (auto intro!: unat_of_nat64 simp del: of_nat_mult)
  have rp: "drop_bit 12 (PAGE_ALIGNDOWN (of_nat L)) = of_nat R"
    unfolding word_unat_eq_iff unat_drop ad uR by simp
  have vc: "((phys_to_virt_pm (of_nat B) + SLAVE_SIZE) + 7) AND NOT 7 = phys_to_virt_pm (of_nat B) + 400"
  proof -
    have n: "phys_to_virt_pm (of_nat B) + SLAVE_SIZE + 7 = of_nat (B + 0xFFFF800000000000 + 407)"
      by (simp add: phys_to_virt_pm_def get_kernel_phmap_def KERNEL_PHMMAP_def SLAVE_SIZE_def)
    have "B + 0xFFFF800000000000 + 407 < 2 ^ 64" using b(1) by simp
    then have "of_nat (B + 0xFFFF800000000000 + 407) AND NOT (mask 3) = (of_nat ((B + 0xFFFF800000000000 + 407) div 2 ^ 3 * 2 ^ 3) :: u64)"
      by (intro and_not_mask_of_nat) simp
    moreover have "(B + 0xFFFF800000000000 + 407) div 2 ^ 3 * 2 ^ 3 = B + 0xFFFF800000000000 + 400"
    proof -
      from w' obtain q where "B = 4096 * q" by (auto elim: dvdE)
      then have "B + 0xFFFF800000000000 + 407 = 8 * (512 * q + 0x1FFFF00000000032) + 7"
        "B + 0xFFFF800000000000 + 400 = 8 * (512 * q + 0x1FFFF00000000032)" by simp_all
      moreover have "(8 * a + 7) div 2 ^ 3 * 2 ^ 3 = 8 * a" for a :: nat by simp
      ultimately show ?thesis by (simp only:)
    qed
    ultimately have "of_nat (B + 0xFFFF800000000000 + 407) AND NOT (mask 3) = (of_nat (B + 0xFFFF800000000000 + 400) :: u64)"
      by (simp only:)
    then show ?thesis unfolding n
      by (simp add: seven_mask phys_to_virt_pm_def get_kernel_phmap_def KERNEL_PHMMAP_def)
  qed
  let ?s0 = "zero_slave\<lparr>total_pages := of_nat R, rbase := of_nat B\<rparr>"
  have "bitmaps_ok R 0 ?s0" by (simp add: bitmaps_ok_def zero_slave_def)
  from init_bitmaps_loop [OF _ R this, of 11 "phys_to_virt_pm (of_nat B) + 400"] obtain s1 where s1:
    "init_bitmaps 11 0 (of_nat R) ?s0 (phys_to_virt_pm (of_nat B) + 400) =
      (s1, phys_to_virt_pm (of_nat B) + 400 + of_nat (\<Sum>k \<in> {0..<11}. bitmap_size R k))" "bitmaps_ok R 11 s1"
    "s1 = ?s0\<lparr>bitmap_arr := bitmap_arr s1, maxbits := maxbits s1, max_order := 10\<rparr>" by auto
  have pc: "of_nat B + (phys_to_virt_pm (of_nat B) + 400 + of_nat (\<Sum>k \<in> {0..<11}. bitmap_size R k) - phys_to_virt_pm (of_nat B)) =
      (of_nat (B + bitmaps_end R) :: u64)"
    by (simp add: bitmaps_end_def lessThan_atLeast0)
  have up: "PAGE_ALIGNUP (of_nat (B + bitmaps_end R)) = of_nat (B + 4096 * H)"
  proof -
    have "B + bitmaps_end R + 4095 < 2 ^ 64" using e b by simp
    moreover have "(B + bitmaps_end R + 4095) div 4096 * 4096 = B + 4096 * H"
      using w' by (auto simp: H_def header_pages_def elim!: dvdE)
    ultimately show ?thesis using align_up_nat [of "B + bitmaps_end R"] by simp
  qed
  have u: "unat (of_nat (B + 4096 * H) :: u64) = B + 4096 * H" "unat (of_nat (B + L) :: u64) = B + L"
    using b by (auto intro!: unat_of_nat64 simp del: of_nat_add of_nat_mult)
  have lt: "\<not> (of_nat (B + 4096 * H) :: u64) \<ge> of_nat B + of_nat L"
    unfolding of_nat_add [symmetric] word_le_nat_alt u using b by simp
  have tp: "drop_bit 12 (of_nat B + of_nat L - of_nat (B + 4096 * H)) = (of_nat (R - H) :: u64)"
  proof -
    have d: "of_nat B + of_nat L - of_nat (B + 4096 * H) = (of_nat (L - 4096 * H) :: u64)"
      using b by (simp add: of_nat_diff)
    have "unat (of_nat (L - 4096 * H) :: u64) = L - 4096 * H" "unat (of_nat (R - H) :: u64) = R - H"
      using b by (auto intro!: unat_of_nat64 simp del: of_nat_diff)
    moreover have "(L - 4096 * H) div 4096 = R - H"
    proof -
      have "L = 4096 * R + L mod 4096" using w' by (metis mult_div_mod_eq)
      then have "L - 4096 * H = L mod 4096 + 4096 * (R - H)" using b(4) by (simp add: diff_mult_distrib2)
      then show ?thesis by simp
    qed
    ultimately show ?thesis unfolding d word_unat_eq_iff unat_drop by simp
  qed
  define mb :: u64 where "mb = of_nat (B + 4096 * H)"
  have s': "s = s1\<lparr>lut_base := of_nat B + SLAVE_SIZE, mbase := mb,
      bitmap_reserved := (if mb > of_nat B + PAGESIZE then drop_bit 12 (mb - (of_nat B + PAGESIZE)) else 0),
      total_pages := of_nat (R - H)\<rparr>"
    unfolding s_def kbud_init_region_def Let_def rp vc s1(1) prod.case pc up [folded mb_def]
    using lt [folded mb_def] by (simp add: tp [folded mb_def])
  note s = s' [unfolded mb_def]
  show "mbase s = of_nat (B + 4096 * header_pages R)" "total_pages s = of_nat (R - header_pages R)"
    by (simp_all add: s H_def)
  have f: "rbase s1 = of_nat B" "sb_free s1 = replicate 11 0" "order_blk_cnt s1 = replicate 11 0" "max_order s1 = 10"
    by (subst s1(3), simp add: zero_slave_def)+
  show "rbase s = of_nat B" "sb_free s = replicate 11 0" "order_blk_cnt s = replicate 11 0" using f by (simp_all add: s)
  have m: "maxbits s1 ! k = of_nat (R div 2 ^ (k + 1))" "bitmap_arr s1 ! k = replicate (bitmap_size R k) 0" if "k < 11" for k
    using s1(2) that by (auto simp: bitmaps_ok_def)
  have mu: "unat (maxbits s1 ! k) = R div 2 ^ (k + 1)" if "k < 11" for k
  proof -
    have "R div 2 ^ (k + 1) \<le> R" by (rule div_le_dividend)
    moreover have "R < 2 ^ 64" using R(1) by simp
    ultimately show ?thesis unfolding m(1) [OF that] by (intro unat_of_nat64) linarith
  qed
  show "\<forall>k<11. \<forall>x \<in> set (bitmap_arr s ! k). x = 0" using m by (simp add: s)
  have "unat (of_nat (R - H) :: u64) \<le> R" using b R by (subst unat_of_nat64) auto
  then show "geom s R" using f(4) mu s1(2) w' b u by (auto simp: geom_def s bitmaps_ok_def algebra_simps)
  have "R div 2 ^ (k + 1) \<le> 8 * bitmap_size R k" for k unfolding bitmap_size_def by linarith
  then show "bits_ok s" using f(4) m mu s1(2) by (auto simp: bits_ok_def s bitmaps_ok_def)
qed


section \<open>The order of the next block\<close>

lemma ctz_bounds:
  fixes x :: u64
  assumes "x \<noteq> 0" "2 ^ m dvd unat x"
  shows "m \<le> ctz_bits x \<and> ctz_bits x < 64"
proof -
  have "unat x \<noteq> 0" using assms(1) by (simp add: unat_eq_zero)
  then have "2 ^ m \<le> unat x" using assms(2) by (simp add: dvd_imp_le)
  also have "\<dots> < 2 ^ 64" using unsigned_less [of x] by simp
  finally have m: "m < 64" by (rule power_less_imp_less_exp [rotated]) simp
  have low: "\<not> bit x i" if "i < m" for i
  proof -
    from assms(2) obtain q where q: "unat x = 2 ^ m * q" ..
    have "(2 :: nat) ^ m = 2 ^ i * (2 * 2 ^ (m - i - 1))" using that
      by (simp flip: power_add power_Suc)
    then have "unat x div 2 ^ i = 2 * 2 ^ (m - i - 1) * q" unfolding q by simp
    then have "\<not> bit (unat x) i" by (simp add: bit_iff_odd)
    then show ?thesis using that m by (simp add: bit_unsigned_iff)
  qed
  have "[0..<64] = [0..<m] @ [m..<64]" using m by (metis le_add_diff_inverse less_imp_le upt_add_eq_append zero_le)
  then have "ctz_bits x = length (takeWhile Not (map (bit x) [0..<m] @ map (bit x) [m..<64]))" by (simp add: ctz_bits_def)
  also have "\<dots> = m + length (takeWhile Not (map (bit x) [m..<64]))" using low by (subst takeWhile_append2) auto
  finally have "m \<le> ctz_bits x" by simp
  moreover have "ctz_bits x < 64"
  proof -
    have "\<exists>i. bit x i" using assms(1) by (metis bit_eq_iff bit_0_eq bot_apply bot_bool_def)
    then obtain i where "bit x i" by blast
    moreover from this have "i < 64" using bit_imp_le_length [of x i] by simp
    ultimately have "\<exists>b \<in> set (map (bit x) [0..<64]). \<not> Not b" by auto
    then have "takeWhile Not (map (bit x) [0..<64]) \<noteq> map (bit x) [0..<64]" by (metis takeWhile_eq_all_conv)
    then have "length (takeWhile Not (map (bit x) [0..<64])) < length (map (bit x) [0..<64])"
      by (metis length_takeWhile_le takeWhile_eq_take take_all order_le_imp_less_or_eq order_refl)
    then show ?thesis by (simp add: ctz_bits_def)
  qed
  ultimately show ?thesis by simp
qed

lemma small_casts:
  "n < 256 \<Longrightarrow> ucast (of_nat n :: u64) = (of_nat n :: u8)" "n < 256 \<Longrightarrow> ucast (of_nat n :: u8) = (of_nat n :: u32)"
  "n < 256 \<Longrightarrow> ucast (of_nat n :: u32) = (of_nat n :: u8)" "n < 256 \<Longrightarrow> unat (of_nat n :: u8) = n"
  by (simp_all add: word_unat_eq_iff unsigned_ucast_eq unat_of_nat take_bit_nat_eq_self)

lemma min_small: "a < 256 \<Longrightarrow> b < 256 \<Longrightarrow> min_u32 (of_nat a) (of_nat b) = of_nat (min a b)"
  by (simp add: min_u32_def word_less_nat_alt unat_of_nat32 min_def)

lemma min_byte: "a < 256 \<Longrightarrow> b < 256 \<Longrightarrow> (if (of_nat a :: u8) < of_nat b then of_nat a else of_nat b) = (of_nat (min a b) :: u8)"
  by (simp add: word_less_nat_alt small_casts(4) min_def)

text \<open>One round of the loop in a region with all eleven orders: \<open>l\<close> is the order of the largest block that fits, \<open>p\<close> that
  of the largest block that starts here.\<close>

lemma free_range_round:
  assumes "c \<noteq> 0" "c < 2 ^ 40" "get_slave st sp = Some s" "max_order s = 10" "phys \<noteq> 0" "2 ^ (12 + d) dvd unat phys"
  shows "\<exists>l p. 2 ^ l \<le> c \<and> c < 2 ^ (l + 1) \<and> d \<le> p \<and> free_range_loop st sp phys (of_nat (4096 * c)) = do {
     (st, _) \<leftarrow> kbud_push st sp phys (of_nat (min (min l p) 10));
     free_range_loop st sp (phys + of_nat (4096 * 2 ^ min (min l p) 10)) (of_nat (4096 * c) - of_nat (4096 * 2 ^ min (min l p) 10)) }"
proof -
  have u: "unat (of_nat (4096 * c) :: u64) = 4096 * c" "unat (of_nat c :: u64) = c"
    using assms(2) by (auto intro!: unat_of_nat64 simp del: of_nat_mult)
  have "unat (of_nat (4096 * c) div PAGESIZE :: u64) = c" unfolding unat_div u PAGESIZE_def by simp
  then have dv: "of_nat (4096 * c) div PAGESIZE = (of_nat c :: u64)" unfolding word_unat_eq_iff u .
  have nz: "(of_nat (4096 * c) :: u64) \<noteq> 0" "(of_nat c :: u64) \<noteq> 0" using assms(1) u by (auto simp: word_unat_eq_iff simp del: of_nat_mult)
  define z where "z = clz_bits (of_nat c :: u64)"
  define l where "l = 63 - z"
  have z: "z < 64" "2 ^ l \<le> c" "c < 2 ^ (l + 1)" using clz_bounds [OF nz(2)] unfolding u z_def [symmetric] l_def
    by (auto simp flip: Suc_diff_le power_Suc)
  have wl: "(63 :: u64) - of_nat z = of_nat l" using z(1) by (simp add: l_def of_nat_diff)
  define t where "t = ctz_bits phys"
  have t: "12 + d \<le> t" "t < 64" using ctz_bounds [OF assms(5,6)] by (simp_all add: t_def)
  define p where "p = t - 12"
  have wp: "(of_nat t :: u64) - 12 = of_nat p" using t by (simp add: p_def of_nat_diff)
  have lp: "l < 64" "p < 64" "d \<le> p" using t by (auto simp: l_def p_def)
  define k where "k = min (min l p) 10"
  have k: "k \<le> 10" by (simp add: k_def)
  have o1: "(if (of_nat l :: u8) < of_nat p then of_nat l else of_nat p) = (of_nat (min l p) :: u8)" using lp by (intro min_byte) simp_all
  have o2: "ucast (min_u32 (PFRAME_MAX_ORDER - 1) (of_nat (min l p))) = (of_nat k :: u8)"
    using lp min_small [of 10 "min l p"] by (simp add: small_casts PFRAME_MAX_ORDER_def k_def min.commute)
  have o3: "ucast (min_u32 (max_order s) (of_nat k)) = (of_nat k :: u8)"
    using k min_small [of 10 k] by (simp add: small_casts assms(4))
  have bl: "push_bit k PAGESIZE = (of_nat (4096 * 2 ^ k) :: u64)" by (simp add: push_bit_eq_mult PAGESIZE_def)
  have "free_range_loop st sp phys (of_nat (4096 * c)) = do {
     (st, _) \<leftarrow> kbud_push st sp phys (of_nat k);
     free_range_loop st sp (phys + of_nat (4096 * 2 ^ k)) (of_nat (4096 * c) - of_nat (4096 * 2 ^ k)) }"
    apply (subst free_range_loop.simps)
    using nz assms(3) k lp
    by (simp add: dv count_leading_zeroes_64_def kbud_order_idx_def count_trailing_zeroes_64_def assms(5) z_def [symmetric] t_def [symmetric]
      wl wp small_casts o1 o2 o3 bl Let_def del: of_nat_mult of_nat_power cong: if_cong split del: if_split)
  then show ?thesis using z lp unfolding k_def by blast
qed


section \<open>Releasing the pages of a region\<close>

text \<open>
  The pages before \<open>n\<close> are free. As long as whole blocks of the largest order are left, \<open>d\<close> is 10; then the blocks are
  those of the binary digits of the number \<open>c\<close> of pages that are left, so that no order occurs twice.
\<close>

lemma free_range_loop_spec:
  assumes "get_slave st sp = Some s" "region_inv st s R F" "n + c = unat (total_pages s)" "free_frames F = {0..<n}"
    and "2 ^ d dvd n" "d \<le> 10" "d < 10 \<longrightarrow> c < 2 ^ d" "\<forall>k<d. F k = []" "mbase s \<noteq> 0"
  shows "\<exists>st' s' F'. free_range_loop st sp (mbase s + of_nat (4096 * n)) (of_nat (4096 * c)) = Some st' \<and>
    get_slave st' sp = Some s' \<and> region_inv st' s' R F' \<and> free_frames F' = {0..<n + c} \<and> same_geom s s' \<and> same_mem st st'"
  using assms
proof (induction c arbitrary: st s F n d rule: less_induct)
  case (less c)
  note P = less.prems
  note iv = region_invD [OF P(2)]
  have R: "n + c \<le> R" "R < 2 ^ 35" using iv(1) P(3) by (auto simp: geom_def)
  show ?case
  proof (cases "c = 0")
    case True
    with P show ?thesis by (intro exI [of _ st] exI [of _ s] exI [of _ F]) (simp add: free_range_loop.simps)
  next
    case False
    define phys where "phys = mbase s + of_nat (4096 * n)"
    have up: "unat phys = unat (mbase s) + 4096 * n" unfolding phys_def using R by (intro unat_frame [OF iv(1)]) simp
    have "(2 :: nat) ^ (12 + d) dvd 2 ^ 22" using P(6) by (intro le_imp_power_dvd) simp
    then have "2 ^ (12 + d) dvd unat (mbase s)" using iv(1) by (meson dvd_trans geom_def)
    moreover have "2 ^ (12 + d) dvd 4096 * n" using P(5) by (auto simp: power_add)
    ultimately have dv: "2 ^ (12 + d) dvd unat phys" unfolding up by (rule dvd_add)
    have nz: "phys \<noteq> 0" using P(9) up by (auto simp: word_unat_eq_iff)
    have mo: "max_order s = 10" using iv(1) by (simp add: geom_def)
    have "c < 2 ^ 40" using R by simp
    from free_range_round [OF False this P(1) mo nz dv] obtain l p where lp: "2 ^ l \<le> c" "c < 2 ^ (l + 1)" "d \<le> p"
      "free_range_loop st sp phys (of_nat (4096 * c)) = do {
         (st, _) \<leftarrow> kbud_push st sp phys (of_nat (min (min l p) 10));
         free_range_loop st sp (phys + of_nat (4096 * 2 ^ min (min l p) 10)) (of_nat (4096 * c) - of_nat (4096 * 2 ^ min (min l p) 10)) }"
      by blast
    define k where "k = min (min l p) 10"
    have "l < d" if "d < 10" proof -
      have "(2 :: nat) ^ l < 2 ^ d" using P(7) [rule_format, OF that] lp(1) by linarith
      then show ?thesis by (rule power_less_imp_less_exp [rotated]) simp
    qed
    then have k: "k \<le> 10" "k \<le> d" "2 ^ k \<le> c" "k < 10 \<longrightarrow> k = l \<and> F k = []"
      using P(6,8) lp(1,3) le_trans [OF power_increasing [of "k" l "2 :: nat"] lp(1)] by (cases "d < 10"; force simp: k_def)+
    have kn: "2 ^ k dvd n" using P(5) le_imp_power_dvd [OF k(2), of "2 :: nat"] by (rule dvd_trans [rotated])
    have h: "held s F k n" using k(1,3) kn P(3,4) by (auto simp: held_def fr_def)
    have nb: "k < 10 \<Longrightarrow> bud k n \<notin> set (F k)" using k(4) by (metis empty_iff list.set(1))
    from push_inv [OF P(1,2) h nb, of phys] obtain st1 s1 where s1: "kbud_push st sp phys (of_nat k) = Some (st1, True)"
      "get_slave st1 sp = Some s1" "region_inv st1 s1 R (F(k := n # F k))" "same_geom s s1" "same_mem st st1"
      by (auto simp: phys_def faddr_def)
    let ?F = "F(k := n # F k)"
    have m1: "mbase s1 = mbase s" "total_pages s1 = total_pages s" using s1(4) by (simp_all add: same_geom_def)
    have ff: "free_frames ?F = {0..<n + 2 ^ k}" using k(1) by (simp add: free_frames_add P(4)) (auto simp: fr_def)
    have c': "c - 2 ^ k < c" using False by simp
    have "\<exists>st' s' F'. free_range_loop st1 sp (mbase s1 + of_nat (4096 * (n + 2 ^ k))) (of_nat (4096 * (c - 2 ^ k))) = Some st' \<and>
      get_slave st' sp = Some s' \<and> region_inv st' s' R F' \<and> free_frames F' = {0..<n + 2 ^ k + (c - 2 ^ k)} \<and> same_geom s1 s' \<and> same_mem st1 st'"
    proof (rule less.IH [OF c' s1(2,3) _ ff])
      show "n + 2 ^ k + (c - 2 ^ k) = unat (total_pages s1)" using P(3) k(3) m1 by simp
      show "2 ^ k dvd n + 2 ^ k" using kn by simp
      show "k < 10 \<longrightarrow> c - 2 ^ k < 2 ^ k" using k(4) lp(2) by auto
      show "\<forall>j<k. ?F j = []" using P(8) k(2) by auto
    qed (use k P(9) m1 in simp_all)
    then obtain st' s' F' where r: "free_range_loop st1 sp (mbase s1 + of_nat (4096 * (n + 2 ^ k))) (of_nat (4096 * (c - 2 ^ k))) = Some st'"
      "get_slave st' sp = Some s'" "region_inv st' s' R F'" "free_frames F' = {0..<n + 2 ^ k + (c - 2 ^ k)}" "same_geom s1 s'" "same_mem st1 st'"
      by blast
    have e1: "phys + of_nat (4096 * 2 ^ k) = mbase s1 + of_nat (4096 * (n + 2 ^ k))" by (simp add: phys_def m1 algebra_simps)
    have e2: "of_nat (4096 * c) - of_nat (4096 * 2 ^ k) = (of_nat (4096 * (c - 2 ^ k)) :: u64)"
      using k(3) by (simp add: of_nat_diff right_diff_distrib)
    have "free_range_loop st sp phys (of_nat (4096 * c)) = Some st'"
      unfolding lp(4) k_def [symmetric] s1(1) e1 e2 using r(1) by simp
    then show ?thesis using r k(3) same_geom_trans [OF s1(4) r(5)] same_mem_trans [OF s1(5) r(6)] unfolding phys_def by auto
  qed
qed


section \<open>A new region\<close>

lemma add_region_slave:
  assumes "kbud_add_region st phy len = Some (st', sp)" "sp \<noteq> KPAGE_ERR" "sp \<noteq> 0"
  shows "get_slave st' sp = Some (kbud_init_region zero_slave phy len)"
  using assms by (auto simp: kbud_add_region_def Let_def get_put split: if_splits bind_splits)

text \<open>The frames behind the header of the region are ordinary memory.\<close>

definition region_mapped :: "kbuddy \<Rightarrow> nat \<Rightarrow> nat \<Rightarrow> bool" where
  "region_mapped st B R \<longleftrightarrow> (\<forall>n. header_pages R \<le> n \<and> n < R \<longrightarrow> get_frame st (phys_to_virt_pm (of_nat (B + 4096 * n))) \<noteq> None)"

lemma header_pages_pos: "0 < header_pages R"
  by (simp add: header_pages_def bitmaps_end_def)

lemma free_range_new:
  assumes w: "well_placed B L R" and r: "regions_sorted st" "unat (region_count st) < 127" and m: "region_mapped st B R"
    and v: "find_valid_slave st (of_nat B) = Some KPAGE_ERR" and sp: "sp = phys_to_virt_pm (of_nat B)"
  shows "\<exists>st' s F. kbud_free_range st sp (of_nat L) = Some st' \<and> get_slave st' sp = Some s \<and> region_inv st' s R F \<and>
    free_frames F = {0..<R - header_pages R} \<and> unat (total_pages s) = R - header_pages R \<and> mbase s = of_nat (B + 4096 * header_pages R) \<and> regions_sorted st' \<and>
    region_count st' = region_count st + 1 \<and> sp \<in> set (take (unat (region_count st')) (regions st')) \<and>
    (\<forall>p. get_frame st' p = None \<longleftrightarrow> get_frame st p = None)"
proof -
  let ?H = "header_pages R" and ?s = "kbud_init_region zero_slave (of_nat B) (of_nat L)"
  note w' = w [unfolded well_placed_def]
  note i = init_region_spec [OF w]
  have b: "B + 4096 * ?H + 4096 * R \<le> 2 ^ 46" "?H < R" "L < 4096 * R + 4096" "4096 * R \<le> L" using w' by (auto simp: algebra_simps)
  have B: "B < 2 ^ 46" using b(1,2) by simp
  have uB: "unat (of_nat B :: u64) = B" using B by (intro unat_of_nat64) simp
  have kp: "unat KERNEL_PHMMAP = 0xFFFF800000000000" by (simp add: KERNEL_PHMMAP_def)
  have "unat (KERNEL_PHMMAP + of_nat B) = 0xFFFF800000000000 + B"
    using B by (subst unat_plus_of_nat) (simp_all add: kp)
  then have usp: "unat sp = 0xFFFF800000000000 + B" by (simp add: sp phys_to_virt_pm_def get_kernel_phmap_def add.commute)
  have spo: "KERNEL_PHMMAP \<le> sp" "sp \<noteq> KPAGE_ERR" "sp \<noteq> 0"
  proof -
    have "unat KPAGE_ERR = 2 ^ 64 - 1" by (simp add: KPAGE_ERR_def unsigned_minus_1_eq_mask mask_eq_exp_minus_1)
    then show "sp \<noteq> KPAGE_ERR" using usp B by (auto simp: word_unat_eq_iff)
  qed (use usp kp in \<open>auto simp: word_le_nat_alt\<close>)
  from add_region_spec [OF r spo(1,2) [unfolded sp], of "of_nat L"] obtain st1 where st1:
    "kbud_add_region st (of_nat B) (of_nat L) = Some (st1, sp)" "regions_sorted st1" "region_count st1 = region_count st + 1"
    "mset (take (unat (region_count st1)) (regions st1)) = add_mset sp (mset (take (unat (region_count st)) (regions st)))"
    "frames st1 = frames st" unfolding sp by blast
  have g1: "get_slave st1 sp = Some ?s" by (rule add_region_slave [OF st1(1) spo(2,3)])
  have uT: "unat (total_pages ?s) = R - ?H" unfolding i(8) using b by (intro unat_of_nat64) simp
  have fm: "get_frame st1 p = get_frame st p" for p using st1(5) by (simp add: get_frame_def)
  have "get_frame st1 (faddr ?s n) \<noteq> None" if "n < unat (total_pages ?s)" for n
    using m [unfolded region_mapped_def, rule_format, of "?H + n"] that uT
    by (simp add: fm faddr_def i(6) algebra_simps)
  from fresh_inv [OF i(1-3,4,5) this] have inv: "region_inv st1 ?s R (\<lambda>_. [])" .
  have pg: "PAGE_ALIGNDOWN (virt_to_phys_pm sp) = of_nat B" "PAGE_ALIGNDOWN (of_nat L) = of_nat (4096 * R)"
    using align_down_nat [of B] align_down_nat [of L] B b w' by (auto simp: sp mult.commute elim!: dvdE)
  have offs: "((mbase ?s - rbase ?s) + (PAGESIZE - 1)) AND NOT (PAGESIZE - 1) = of_nat (4096 * ?H)"
  proof -
    have "PAGE_ALIGNUP (of_nat (4096 * ?H)) = of_nat ((4096 * ?H + 4095) div 4096 * 4096)"
      using b by (intro align_up_nat) simp
    then show ?thesis by (simp add: PAGE_ALIGNUP_def i(6,7) mult.commute)
  qed
  have mb: "mbase ?s = of_nat B + of_nat (4096 * ?H)" by (simp add: i(6))
  have sz: "of_nat (4096 * R) - of_nat (4096 * ?H) = (of_nat (4096 * (R - ?H)) :: u64)"
    using b(2) by (simp add: of_nat_diff right_diff_distrib)
  have "unat (mbase ?s) = B + 4096 * ?H" unfolding i(6) using b by (intro unat_of_nat64) simp
  then have nz: "mbase ?s \<noteq> 0" using header_pages_pos [of R] by auto
  have "\<exists>st' s' F'. free_range_loop st1 sp (mbase ?s + of_nat (4096 * 0)) (of_nat (4096 * (R - ?H))) = Some st' \<and>
    get_slave st' sp = Some s' \<and> region_inv st' s' R F' \<and> free_frames F' = {0..<0 + (R - ?H)} \<and> same_geom ?s s' \<and> same_mem st1 st'"
    by (rule free_range_loop_spec [OF g1 inv, where d = 10]) (use uT nz in \<open>auto simp: free_frames_def\<close>)
  then obtain st' s' F' where l: "free_range_loop st1 sp (mbase ?s) (of_nat (4096 * (R - ?H))) = Some st'" "get_slave st' sp = Some s'"
    "region_inv st' s' R F'" "free_frames F' = {0..<R - ?H}" "same_geom ?s s'" "same_mem st1 st'" by auto
  have "kbud_free_range st sp (of_nat L) = Some st'"
    unfolding kbud_free_range_def Let_def pg v bind.bind_lunit st1(1) prod.case g1 offs mb [symmetric]
    using spo(2) l(1) by (simp add: v st1(1) g1 offs sz mb [symmetric] del: of_nat_mult)
  moreover have "regions_sorted st'" "region_count st' = region_count st + 1" "regions st' = regions st1"
    using l(6) st1(2,3) by (simp_all add: same_mem_def regions_sorted_def)
  moreover have "sp \<in> set (take (unat (region_count st1)) (regions st1))" using st1(4) by (metis set_mset_mset union_single_eq_member)
  moreover have "\<forall>p. get_frame st' p = None \<longleftrightarrow> get_frame st p = None" using l(6) fm by (simp add: same_mem_def)
  moreover have "mbase s' = of_nat (B + 4096 * ?H)" "unat (total_pages s') = R - ?H" using l(5) i(6) uT by (simp_all add: same_geom_def)
  ultimately show ?thesis using l(2-4) st1(3) by (intro exI [of _ st'] exI [of _ s'] exI [of _ F']) simp
qed


section \<open>Claim\<close>

text \<open>C10. \<^verbatim>\<open>kbud_free_range\<close> of memory that no region holds adds a region: if the memory is well placed (a multiple of 8 MiB
  of pages, header and bitmaps ending on a 4 MiB boundary), the region satisfies the invariant of the allocator and
  every page behind the header is free.\<close>

theorem kbud_free_range_adds_region:
  assumes "well_placed B L R" "regions_sorted st" "unat (region_count st) < 127" "region_mapped st B R"
    and "find_valid_slave st (of_nat B) = Some KPAGE_ERR"
  shows "\<exists>st' s F. kbud_free_range st (phys_to_virt_pm (of_nat B)) (of_nat L) = Some st' \<and>
    get_slave st' (phys_to_virt_pm (of_nat B)) = Some s \<and> region_inv st' s R F \<and>
    free_frames F = {0..<R - header_pages R} \<and> mbase s = of_nat (B + 4096 * header_pages R) \<and> regions_sorted st' \<and>
    region_count st' = region_count st + 1"
  using free_range_new [OF assms refl] by blast

lemma demo_header: "header_pages 2048 = 1"
proof -
  have "{..<11 :: nat} = {0, 1, 2, 3, 4, 5, 6, 7, 8, 9, 10}" by (intro set_eqI) (simp only: upto_10 [symmetric] lessThan_iff, linarith)
  then show ?thesis by (simp add: header_pages_def bitmaps_end_def bitmap_size_def)
qed

lemma demo_placed: "well_placed 0x3FF000 0x800FFF 2048"
  by (simp add: well_placed_def demo_header)

lemma boot_mem_frames:
  assumes "B + 4096 * R \<le> 0x10000000"
  shows "region_mapped boot_mem B R"
  unfolding region_mapped_def
proof (intro allI impI)
  fix n assume "header_pages R \<le> n \<and> n < R"
  then have n: "B + 4096 * n < 0x10000000" using assms by linarith
  have u: "unat (of_nat (B + 4096 * n) :: u64) = B + 4096 * n" using n by (intro unat_of_nat64) simp
  have "phys_to_virt_pm (of_nat (B + 4096 * n)) \<noteq> 0"
  proof
    assume "phys_to_virt_pm (of_nat (B + 4096 * n)) = 0"
    then have "of_nat (B + 4096 * n) = virt_to_phys_pm 0" by (metis pm_inverse(1))
    then have "B + 4096 * n = unat (virt_to_phys_pm 0)" using u by metis
    then show False using n by (simp add: virt_to_phys_pm_def get_kernel_phmap_def KERNEL_PHMMAP_def)
  qed
  moreover have "(of_nat (B + 4096 * n) :: u64) < 0x10000000" unfolding word_less_nat_alt u using n by simp
  ultimately show "get_frame boot_mem (phys_to_virt_pm (of_nat (B + 4096 * n))) \<noteq> None"
    by (simp add: get_frame_def boot_mem_def del: of_nat_add of_nat_mult)
qed

theorem kbud_free_range_adds_region_witness:
  "\<exists>st' s F. kbud_free_range boot_mem (phys_to_virt_pm 0x3FF000) 0x800FFF = Some st' \<and>
    get_slave st' (phys_to_virt_pm 0x3FF000) = Some s \<and> region_inv st' s 2048 F \<and> free_frames F = {0..<2047} \<and> mbase s = 0x400000"
proof -
  have b: "regions_sorted boot_mem" "unat (region_count boot_mem) < 127" "find_valid_slave boot_mem (of_nat 0x3FF000) = Some KPAGE_ERR"
    by (simp_all add: regions_sorted_def boot_mem_def find_valid_slave_def find_buddy_slave_def)
  have "region_mapped boot_mem 0x3FF000 2048" by (rule boot_mem_frames) simp_all
  from kbud_free_range_adds_region [OF demo_placed b(1,2) this b(3)] show ?thesis by (auto simp: demo_header)
qed

end
