(* ===== verification/BootHandoff.thy ===== *)
theory BootHandoff
  imports BootProps BuddyRelease
begin

text \<open>
  Booting as a whole: \<^verbatim>\<open>start_kernel\<close> on a machine with two regions of memory. The first serves the early allocator, the
  second becomes the region of the page allocator; the kernel is entered with page tables and a page allocator
  that satisfy the invariant on which mapping and the slab allocator rest.
\<close>

section \<open>A new region as a pool of pages\<close>

lemma free_range_pool:
  assumes w: "well_placed B L R" and r: "length (regions st) = 128" "region_count st = 0" and m: "region_mapped st B R"
    and sp: "sp = phys_to_virt_pm (of_nat B)"
  shows "\<exists>b U. kbud_free_range st sp (of_nat L) = Some b \<and> page_pool b U U \<and> card U = R - header_pages R \<and>
    (\<forall>a \<in> U. B + 4096 * header_pages R \<le> unat (virt_to_phys_pm a) \<and> unat (virt_to_phys_pm a) < B + 4096 * R)"
proof -
  have s: "regions_sorted st" "unat (region_count st) < 127" "find_valid_slave st (of_nat B) = Some KPAGE_ERR"
    using r by (simp_all add: regions_sorted_def find_valid_slave_def find_buddy_slave_def)
  from free_range_new [OF w s(1,2) m s(3) sp] obtain b x F where
    b: "kbud_free_range st sp (of_nat L) = Some b" "get_slave b sp = Some x" "region_inv b x R F"
    "free_frames F = {0..<R - header_pages R}" "unat (total_pages x) = R - header_pages R"
    "mbase x = of_nat (B + 4096 * header_pages R)" "regions_sorted b" "region_count b = 1"
    "sp \<in> set (take (unat (region_count b)) (regions b))" using r(2) by auto
  have l: "length (regions b) = 128" using b(7) by (simp add: regions_sorted_def)
  then obtain r0 rs where rs: "regions b = r0 # rs" by (cases "regions b") auto
  then have r0: "regions b ! 0 = sp" "sp \<noteq> KPAGE_ERR" using b(7,8,9) by (auto simp: regions_sorted_def)
  have g: "geom x R" using b(3) by (rule region_invD)
  define U where "U = frames x UNIV"
  have "page_pool b U U"
    unfolding page_pool_def using b(2-5,8) r0 l
    by (intro exI [of _ x] exI [of _ R] exI [of _ F]) (auto simp: U_def frames_def)
  moreover have "card U = R - header_pages R"
  proof -
    have "inj_on (faddr x) {..<R - header_pages R}"
      using faddr_inj [OF g] by (auto simp: inj_on_def)
    then show ?thesis by (simp add: U_def frames_def b(5) card_image)
  qed
  moreover have "B + 4096 * header_pages R \<le> unat (virt_to_phys_pm a) \<and> unat (virt_to_phys_pm a) < B + 4096 * R" if "a \<in> U" for a
  proof -
    from that obtain n where n: "a = faddr x n" "n < R - header_pages R" by (auto simp: U_def frames_def b(5))
    have "B + 4096 * header_pages R < 2 ^ 64" using w by (auto simp: well_placed_def)
    then have "unat (mbase x) = B + 4096 * header_pages R" unfolding b(6) by (rule unat_of_nat64)
    then show ?thesis using faddr_phys [OF g, of n] n by simp
  qed
  ultimately show ?thesis using b(1) by blast
qed

section \<open>The two regions\<close>

text \<open>The state after \<^verbatim>\<open>alloc_init\<close> on a map of two entries.\<close>

lemma alloc_init_two:
  assumes c: "mi_count maps = 2" "64 \<le> length (mi_entries maps)"
    and l: "low_mapped (region_addr im (mi_entries maps ! 0)) 32" "low_mapped (region_addr im (mi_entries maps ! 1)) 32"
  shows "alloc_init im maps st = Some (st\<lparr>
    pfa_region := (replicate 128 KPAGE_ERR)[0 := region_addr im (mi_entries maps ! 0), 1 := region_addr im (mi_entries maps ! 1)],
    headers := (headers st)(region_addr im (mi_entries maps ! 0) \<mapsto> region_header (region_addr im (mi_entries maps ! 0)) (region_len im (mi_entries maps ! 0)),
      region_addr im (mi_entries maps ! 1) \<mapsto> region_header (region_addr im (mi_entries maps ! 1)) (region_len im (mi_entries maps ! 1))),
    pfa_count := pfa_count st + 2\<rparr>)"
proof -
  let ?e0 = "mi_entries maps ! 0" and ?e1 = "mi_entries maps ! 1"
  define s0 where "s0 = st\<lparr>pfa_region := replicate 128 KPAGE_ERR\<rparr>"
  define s1 where "s1 = s0\<lparr>pfa_region := (replicate 128 KPAGE_ERR)[0 := region_addr im ?e0],
    headers := (headers st)(region_addr im ?e0 \<mapsto> region_header (region_addr im ?e0) (region_len im ?e0)), pfa_count := pfa_count st + 1\<rparr>"
  have p0: "pf_init_region im 0 ?e0 s0 = Some s1"
    using pf_init_region_eq [of 0 s0 im ?e0] l(1) by (simp add: s0_def s1_def)
  have p1: "pf_init_region im 1 ?e1 s1 = Some (s1\<lparr>pfa_region := (pfa_region s1)[1 := region_addr im ?e1],
       headers := (headers s1)(region_addr im ?e1 \<mapsto> region_header (region_addr im ?e1) (region_len im ?e1)),
       pfa_count := pfa_count s1 + 1\<rparr>)"
    using pf_init_region_eq [of 1 s1 im ?e1] l(2) by (simp add: s1_def)
  have n: "0 < length (mi_entries maps)" "1 < length (mi_entries maps)" using c(2) by linarith+
  have u: "unat (2 :: u8) = Suc (Suc 0)" "unat (1 :: u8) = 1" "(1 :: u8) \<le> 64" "(1 + 1 :: u8) \<le> 64" "ucast (0 :: u8) = (0 :: u64)"
    "ucast (1 :: u8) = (1 :: u64)" by simp_all
  have i: "alloc_init im maps st = alloc_init_loop (Suc (Suc 0)) 0 0 im maps s0"
    unfolding alloc_init_def c(1) s0_def PFRAME_MAX_REGIONS_def u(1) by (rule refl)
  have "alloc_init_loop (Suc (Suc 0)) 0 0 im maps s0 = alloc_init_loop (Suc 0) 1 1 im maps s1"
    unfolding alloc_init_loop.simps(2) [of "Suc 0"] using n p0 u(3) by (simp add: Let_def del: alloc_init_loop.simps)
  also have "\<dots> = pf_init_region im 1 ?e1 s1"
    using n u p1 by (simp add: Let_def del: One_nat_def)
  finally show ?thesis unfolding i using p1 by (simp add: s1_def s0_def del: One_nat_def)
qed

section \<open>The hand-over\<close>

text \<open>A region of \<open>R + 1\<close> pages has \<open>R\<close> to hand over.\<close>

lemma frames_left:
  assumes "L div 4096 = Suc R" "R < 2 ^ 46"
  shows "push_bit 12 (cur_frames (region_header a (of_nat L))) = of_nat (4096 * R)"
proof -
  have L: "L < 2 ^ 64" using assms by simp
  have u: "unat (of_nat (Suc R * 4096) :: u64) = Suc R * 4096" "unat (of_nat (Suc R) :: u64) = Suc R"
    using assms(2) by (intro unat_of_nat64; simp)+
  have "unat (of_nat (Suc R * 4096) div 4096 :: u64) = Suc R" unfolding unat_div u(1) by simp
  then have "of_nat (Suc R * 4096) div 4096 = (of_nat (Suc R) :: u64)" using u(2) by (simp only: word_unat_eq_iff)
  then have "PAGE_ALIGNDOWN (of_nat L) div 4096 = of_nat (Suc R)" using align_down_nat [OF L] assms(1) by (simp only:)
  then show ?thesis by (simp add: region_header_def push_bit_eq_mult mult.commute)
qed

lemma handoff_one:
  assumes "1 < length (pfa_region st)" "pfa_region st ! 1 = of_nat B" "pfa_count st = 2"
    and h: "headers st (of_nat B) = Some h" "pr_base h = of_nat B" "push_bit 12 (cur_frames h) = of_nat L"
    and p: "kpt_get_phys (pm st) (phys_to_virt_pm (of_nat B)) = Some (of_nat B)" "(of_nat B :: u64) \<noteq> KPAGE_ERR"
    and b: "kbud_free_range (put_slave (pt_buddy (pm st)) (phys_to_virt_pm (of_nat B)) zero_slave) (phys_to_virt_pm (of_nat B)) (of_nat L) = Some b"
  shows "\<exists>st'. buddy_handoff st info = Some st' \<and> pm st' = (pm st)\<lparr>pt_buddy := b\<rparr> \<and>
    total_ram st' = mi_ram_max info \<and> usable_ram st' = mi_ram_usable info"
proof -
  have "nth_opt (pfa_region st) 1 = Some (of_nat B)" using assms(1,2) by simp
  then show ?thesis using h p b by (simp add: buddy_handoff_def assms(3) Let_def clear_headers_def)
qed

lemma page_pool_put:
  "regions (put_slave b p s) = regions b" "region_count (put_slave b p s) = region_count b"
  "region_mapped (put_slave b p s) B R = region_mapped b B R"
  by (simp_all add: put_slave_def region_mapped_def get_frame_def)

lemma start_kernel_spec:
  assumes parse: "pi_parse_mb2 mem mbh kboot_info_zero = Some info"
    and maps: "boot_regions im (bi_maps info) B M" "mi_count (bi_maps info) = 2"
    and second: "region_addr im (mi_entries (bi_maps info) ! 1) = of_nat B1" "region_len im (mi_entries (bi_maps info) ! 1) = of_nat L1"
      "L1 div 4096 = Suc R" "well_placed B1 (4096 * R) R" "B + 4096 * M \<le> B1"
    and image: "(kphys_end im - kphys_start im) + bi_load_addr info = of_nat k" "0 < k" "k \<le> 2 ^ 30"
    and ram: "mi_ram_max (bi_maps info) = of_nat b" "0 < b" "b \<le> 2 ^ 46" "l3_tables b + l1_tables k + 4 < M"
    and st: "tables (pm st) = Map.empty" "pfa_count st = 0" "length (regions (pt_buddy (pm st))) = 128"
      "region_count (pt_buddy (pm st)) = 0" "region_mapped (pt_buddy (pm st)) B1 R"
  shows "\<exists>st' U. start_kernel im mem mbh st = Some st' \<and> boot_space (pm st') k b \<and> pt_inv (pm st') U U \<and>
    card U = R - header_pages R \<and>
    (\<forall>a \<in> U. B1 + 4096 * header_pages R \<le> unat (virt_to_phys_pm a) \<and> unat (virt_to_phys_pm a) < B1 + 4096 * R) \<and>
    KERN_BOOT_INFO st' = info \<and> total_ram st' = mi_ram_max (bi_maps info)"
proof -
  let ?m = "bi_maps info" and ?E = "B + 4096 * M"
  from maps(1) obtain n where n: "mi_count ?m = of_nat (Suc n)" "n < 64" "64 \<le> length (mi_entries ?m)"
    "\<forall>j. 1 \<le> j \<and> j \<le> n \<longrightarrow> low_mapped (region_addr im (mi_entries ?m ! j)) 32 \<and> region_addr im (mi_entries ?m ! j) \<noteq> of_nat B"
    unfolding boot_regions_def by blast
  have "unat (of_nat (Suc n) :: u8) = Suc n" using n(2) by (intro unat_of_nat8) simp
  then have n1: "n = 1" using n(1) maps(2) by simp
  have B1: "low_mapped (of_nat B1) 32" "(of_nat B1 :: u64) \<noteq> of_nat B" using n(4) n1 second(1) by auto
  have "B1 < 2 ^ 46" using second(4) by (auto simp: well_placed_def)
  then have uB1: "unat (of_nat B1 :: u64) = B1" by (intro unat_of_nat64) simp
  then have lB1: "B1 + 32 \<le> 2 ^ 30" using B1(1) by (simp add: low_mapped_def)
  have e: "mi_entries ?m ! 0 = \<lparr>me_base = of_nat B, me_len = of_nat (4096 * M)\<rparr>" "0 < M" "?E \<le> 2 ^ 30"
    "of_nat ?E < kphys_end im" using maps(1) by (simp_all add: boot_regions_def)
  have ne: "\<not> kphys_end im \<le> of_nat B + 4096 * of_nat M" using e(4) by (simp add: not_le)
  have a0: "region_addr im (mi_entries ?m ! 0) = of_nat B" using ne by (simp add: region_addr_def e(1))
  have uB: "unat (of_nat B :: u64) = B" using e(3) by (intro unat_low) simp
  have low0: "low_mapped (of_nat B) 32" using e(2,3) uB by (simp add: low_mapped_def)
  obtain s1 where s1: "alloc_init im ?m st = Some s1" "early_pool s1 B M (M - 1)" "pm s1 = pm st"
    using alloc_init_pool [OF maps(1) st(1)] by blast
  have s1': "pfa_region s1 = (replicate 128 KPAGE_ERR)[0 := of_nat B, 1 := of_nat B1]" "pfa_count s1 = 2"
    "headers s1 (of_nat B1) = Some (region_header (of_nat B1) (of_nat L1))"
    using alloc_init_two [OF maps(2) n(3), of im st] s1(1) B1 low0 by (auto simp: a0 second(1,2) st(2) simp del: One_nat_def)
  have "early_pool s1 B M ((M - 5 - l3_tables b - l1_tables k) + l3_tables b + l1_tables k + 4)"
    using s1(2) ram(4) by (simp add: algebra_simps)
  from init_higher_half_spec [OF this image ram(1,3)] obtain s2 c where
    s2: "init_higher_half im s1 info = Some s2" "early_pool s2 B M c" "boot_space (pm s2) k b" "pt_tree (pm s2)"
    "others ?E s2 = others ?E s1" by blast
  have o: "pfa_region s2 = pfa_region s1" "pfa_count s2 = 2" "pt_buddy (pm s2) = pt_buddy (pm st)"
    using s2(5) s1(3) s1'(2) by (simp_all add: others_def)
  have "headers s2 (of_nat B1) = headers s1 (of_nat B1)"
  proof -
    have "unat (of_nat B1 :: u64) + 32 \<le> 2 ^ 64" "?E \<le> unat (of_nat B1 :: u64)" using uB1 lB1 second(5) by simp_all
    then show ?thesis using s2(5) unfolding others_def prod.inject by (metis (no_types, lifting))
  qed
  then have hd: "headers s2 (of_nat B1) = Some (region_header (of_nat B1) (of_nat L1))" using s1'(3) by simp
  have len: "push_bit 12 (cur_frames (region_header (of_nat B1) (of_nat L1))) = (of_nat (4096 * R) :: u64)"
    using frames_left [OF second(3)] second(4) by (auto simp: well_placed_def)
  have "0 < gib_count b" using ram(2) by (simp add: gib_count_def)
  then have "B1 < 2 ^ 30 * gib_count b" using lB1 by (cases "gib_count b") auto
  then have ph: "kpt_get_phys (pm s2) (phys_to_virt_pm (of_nat B1)) = Some (of_nat B1)" using s2(3) by (simp add: boot_space_def)
  have nk: "(of_nat B1 :: u64) \<noteq> KPAGE_ERR"
  proof
    assume "(of_nat B1 :: u64) = KPAGE_ERR"
    then have "B1 = unat KPAGE_ERR" using uB1 by simp
    then show False using lB1 by (simp add: KPAGE_ERR_def unsigned_minus_1_eq_mask mask_eq_exp_minus_1)
  qed
  let ?sp = "phys_to_virt_pm (of_nat B1)"
  let ?b0 = "put_slave (pt_buddy (pm s2)) ?sp zero_slave"
  have "length (regions ?b0) = 128" "region_count ?b0 = 0" "region_mapped ?b0 B1 R" using st(3-5) by (simp_all add: page_pool_put o(3))
  from free_range_pool [OF second(4) this refl] obtain b' U where
    b': "kbud_free_range ?b0 ?sp (of_nat (4096 * R)) = Some b'" "page_pool b' U U" "card U = R - header_pages R"
    "\<forall>a \<in> U. B1 + 4096 * header_pages R \<le> unat (virt_to_phys_pm a) \<and> unat (virt_to_phys_pm a) < B1 + 4096 * R" by blast
  have pr: "1 < length (pfa_region s2)" "pfa_region s2 ! 1 = of_nat B1" by (simp_all add: o(1) s1'(1))
  from handoff_one [OF pr o(2) hd _ len ph nk b'(1)] obtain s3 where
    s3: "buddy_handoff s2 ?m = Some s3" "pm s3 = (pm s2)\<lparr>pt_buddy := b'\<rparr>" "total_ram s3 = mi_ram_max ?m"
    by (auto simp: region_header_def)
  have "start_kernel im mem mbh st = Some (s3\<lparr>KERN_BOOT_INFO := info\<rparr>)"
    using parse s1(1) s2(1) s3(1) by (simp add: start_kernel_def)
  moreover have "boot_space (pm s3) k b" using s2(3) by (simp add: boot_space_def s3(2) bud_indep2)
  moreover have "pt_inv (pm s3) U U"
  proof -
    have "t \<notin> U" if "tables (pm s2) t \<noteq> None" for t
      using s2(2) b'(4) that second(5) unfolding early_pool_def by fastforce
    then show ?thesis using s2(4) b'(2)
      unfolding pt_inv_def pt_tree_def tree_inj_def s3(2) by (simp add: bud_indep)
  qed
  ultimately show ?thesis using b'(3,4) s3(3) by (intro exI [of _ "s3\<lparr>KERN_BOOT_INFO := info\<rparr>"] exI [of _ U]) simp
qed

section \<open>Claim\<close>


definition small_tags :: "mb2_tag list" where
  "small_tags =
     [(MULTIBOOT_TAG_TYPE_LOAD_BASE_ADDR, le_bytes 4 (ucast (0x100000 :: u32)) @ []),
      (MULTIBOOT_TAG_TYPE_MMAP, enc_mmap [(0, 0x9F000, 1), (0x100000, 0xB00000, 1)]),
      (MULTIBOOT_TAG_TYPE_FRAMEBUFFER, enc_fb 0xFD000000 5120 1280 800 32 [1, 0, 0]),
      (MULTIBOOT_TAG_TYPE_ACPI_NEW, [0x52, 0x53, 0x44]),
      (MULTIBOOT_TAG_TYPE_END, [])]"

lemma small_first:
  "first_tag MULTIBOOT_TAG_TYPE_LOAD_BASE_ADDR small_tags =
     Some (MULTIBOOT_TAG_TYPE_LOAD_BASE_ADDR, le_bytes 4 (ucast (0x100000 :: u32)) @ [])"
  "first_tag MULTIBOOT_TAG_TYPE_MMAP small_tags =
     Some (MULTIBOOT_TAG_TYPE_MMAP, enc_mmap [(0, 0x9F000, 1), (0x100000, 0xB00000, 1)])"
  "first_tag MULTIBOOT_TAG_TYPE_FRAMEBUFFER small_tags =
     Some (MULTIBOOT_TAG_TYPE_FRAMEBUFFER, enc_fb 0xFD000000 5120 1280 800 32 [1, 0, 0])"
  "first_tag MULTIBOOT_TAG_TYPE_ACPI_NEW small_tags = Some (MULTIBOOT_TAG_TYPE_ACPI_NEW, [0x52, 0x53, 0x44])"
  by (simp_all add: first_tag_def small_tags_def tag_types)

definition small_maps :: bootparam_map_info where
  "small_maps = map_info_of [\<lparr>me_base = 0, me_len = 0x9F000\<rparr>, \<lparr>me_base = 0x100000, me_len = 0xB00000\<rparr>] []"

definition small_image :: kimage where
  "small_image = demo_image\<lparr>kphys_end := 0x2FF000\<rparr>"

definition small_pre :: preinit where
  "small_pre = demo_pre\<lparr>pm := (pm demo_pre)\<lparr>pt_buddy := boot_mem\<rparr>\<rparr>"

lemma small_length: "length (enc_info small_tags) = 144"
  by (simp add: small_tags_def enc_info_def tag_size_def pad8_def enc_mmap_def enc_fb_def)

lemma small_parse:
  "\<exists>i. pi_parse_mb2 (mem_of 0x10000 (enc_info small_tags)) 0x10000 kboot_info_zero = Some i \<and> bi_maps i = small_maps \<and>
    bi_load_addr i = 0x100000"
proof -
  have "bytes_at (mem_of 0x10000 (enc_info small_tags)) 0x10000 (enc_info small_tags)"
    by (rule bytes_at_mem_of) (simp add: small_length)
  from pi_parse_mb2_eq [OF this _ _ small_first(2,3,4,1)] show ?thesis
    by (simp add: small_length small_maps_def boot_map_def of_type_def MULTIBOOT_MEMORY_AVAILABLE_def
        MULTIBOOT_MEMORY_ACPI_RECLAIMABLE_def)
qed

lemma small_regions: "boot_regions small_image small_maps 0 159"
proof -
  have "low_mapped (region_addr small_image (mi_entries small_maps ! j)) 32 \<and> region_addr small_image (mi_entries small_maps ! j) \<noteq> of_nat 0"
    if "1 \<le> j \<and> j \<le> 1" for j
  proof -
    have "j = 1" using that by simp
    then show ?thesis by (simp add: small_image_def demo_image_def small_maps_def map_info_of_def region_addr_def low_mapped_def)
  qed
  then have "\<exists>n. mi_count small_maps = of_nat (Suc n) \<and> n < 64 \<and> 64 \<le> length (mi_entries small_maps) \<and>
       (\<forall>j. 1 \<le> j \<and> j \<le> n \<longrightarrow> low_mapped (region_addr small_image (mi_entries small_maps ! j)) 32 \<and>
         region_addr small_image (mi_entries small_maps ! j) \<noteq> of_nat 0)"
    by (intro exI [of _ 1]) (simp add: small_maps_def map_info_of_def)
  then show ?thesis unfolding boot_regions_def by (simp add: small_maps_def map_info_of_def small_image_def demo_image_def)
qed


end
