(* ===== verification/MemInit.thy ===== *)
theory MemInit
  imports PageProps BootHandoff
begin

text \<open>
  The areas of the kernel after booting: on the page tables and the page allocator that \<^verbatim>\<open>start_kernel\<close> leaves,
  \<^verbatim>\<open>vma_subsystem_init\<close> creates the slab cache of areas and establishes the invariant under which areas are
  allocated and devices mapped.
\<close>

section \<open>One page for the slab cache\<close>

lemma page_aligned:
  assumes "page_ok a"
  shows "4096 dvd unat a" "unat a + 4096 \<le> 2 ^ 64"
proof -
  have "a = virt_to_phys_pm a + KERNEL_PHMMAP" by (simp add: virt_to_phys_pm_def get_kernel_phmap_def)
  moreover have "unat (virt_to_phys_pm a + KERNEL_PHMMAP) = (unat (virt_to_phys_pm a) + unat KERNEL_PHMMAP) mod 2 ^ LENGTH(64)"
    by (rule unat_word_ariths)
  ultimately have "unat a = (unat (virt_to_phys_pm a) + unat KERNEL_PHMMAP) mod 2 ^ LENGTH(64)" by metis
  moreover have "4096 dvd unat KERNEL_PHMMAP" by (simp add: KERNEL_PHMMAP_def)
  ultimately show d: "4096 dvd unat a" using assms by (simp add: page_ok_def dvd_mod)
  have "unat a < 2 ^ LENGTH(64)" by (rule unsigned_less)
  then show "unat a + 4096 \<le> 2 ^ 64" using d by (auto elim!: dvdE)
qed

text \<open>The page tables keep their invariant when a free page is taken.\<close>

lemma pt_inv_take:
  assumes "pt_inv m U F" "page_pool b U (F - {a})"
  shows "pt_inv (m\<lparr>pt_buddy := b\<rparr>) U (F - {a})"
  using assms unfolding pt_inv_def tree_inj_def by (simp add: bud_indep)

lemma empty_cache_ready:
  assumes p: "pt_inv m U F" "F \<noteq> {}" and k: "buddy (kheap v) = pt_buddy m" "rb_root (r_tree v) = 0"
    and c: "get_cache (kheap v) (vma_cache v) = Some c0" "sc_full c0 = 0" "sc_partial c0 = 0" "sc_empty c0 = 0"
  shows "\<exists>v' c a. vma_subsystem_init v ident = Some (v', 0) \<and> a \<in> F \<and> card (objs_of c a) = 63 \<and>
    kvm_inv \<lparr>areas_of = v', pages_of = m\<rparr> c Leaf (objs_of c a) (objs_of c a) U (F - {a}) \<and>
    r_start v' = KERNEL_VMMMAP \<and> r_end v' = KERNEL_VMMMAP + KERNEL_VMMAP_LEN \<and> r_tree v' = r_tree v"
proof -
  have pool: "page_pool (pt_buddy m) U F" using p(1) by (simp add: pt_inv_def)
  from page_pool_alloc [OF this p(2)] obtain b a where
    b: "kbud_alloc (pt_buddy m) 0 = Some (b, a)" "a \<in> F" "page_pool b U (F - {a})" by blast
  have a: "a \<in> U" "a \<noteq> 0" "a \<noteq> KPAGE_ERR" using page_pool_ok [OF pool] b(2) by auto
  note al = page_aligned [OF page_pool_pages [OF pool a(1)]]
  from create_spec [OF c, of 8 64 0 b a ident 0] b(1) k(1) a al demo_best obtain h c where
    h: "kslab_cache_create (kheap v) (vma_cache v) ident 64 8 0 = Some (h, 0)" "slab_inv h (vma_cache v) c (one_empty a) (\<lambda>_. all_objs c a)"
    "buddy h = b" "unat (sc_order c) = 0" "obj_size c = 64" "unat (slab_objs_per c) = 63" by (auto simp: hdr_room_def)
  have g: "cache_geom c" "slab_place c a" using h(2,4) a(2) al by (simp_all add: slab_inv_def slab_place_def slab_bytes_def)
  have "inj_on (obj_addr c a) {..<63}" using obj_addr_inj [OF g] h(6) by (auto simp: inj_on_def)
  then have n: "card (objs_of c a) = 63" by (simp add: objs_of_def h(6) card_image)
  from vma_init_inv [OF h(1,2) _ k(2)] h(5) obtain v' where
    v': "vma_subsystem_init v ident = Some (v', 0)" "vma_inv v' c Leaf (objs_of c a) (objs_of c a)"
    "r_start v' = KERNEL_VMMMAP" "r_end v' = KERNEL_VMMMAP + KERNEL_VMMAP_LEN" "r_tree v' = r_tree v" "kheap v' = h" by auto
  have "kvm_inv \<lparr>areas_of = v', pages_of = m\<rparr> c Leaf (objs_of c a) (objs_of c a) U (F - {a})"
    using v'(2) pt_inv_take [OF p(1) b(3)] by (simp add: kvm_inv_def v'(6) h(3))
  then show ?thesis using v'(1,3-5) b(2) n by blast
qed

text \<open>After \<^verbatim>\<open>start_kernel\<close>, with the page allocator handed to the slab caches.\<close>

corollary boot_areas_ready:
  assumes "pt_inv (pm st) U U" "card U = n" "0 < n"
    and "get_cache h cp = Some c0" "sc_full c0 = 0" "sc_partial c0 = 0" "sc_empty c0 = 0" "buddy h = pt_buddy (pm st)"
  shows "\<exists>v' c a. vma_subsystem_init \<lparr>kheap = h, vma_cache = cp, vmas = Map.empty, r_start = 0, r_end = 0, r_tree = rb_inittree Map.empty\<rparr> ident =
      Some (v', 0) \<and> card (objs_of c a) = 63 \<and>
    kvm_inv \<lparr>areas_of = v', pages_of = pm st\<rparr> c Leaf (objs_of c a) (objs_of c a) U (U - {a})"
proof -
  have "U \<noteq> {}" using assms(2,3) by auto
  from empty_cache_ready [OF assms(1) this, where v = "\<lparr>kheap = h, vma_cache = cp, vmas = Map.empty, r_start = 0, r_end = 0, r_tree = rb_inittree Map.empty\<rparr>"
      and ident = ident] assms(4-8)
  show ?thesis by (auto simp: rb_inittree_def)
qed

section \<open>Claim\<close>

text \<open>C17. \<^verbatim>\<open>vma_subsystem_init\<close> on an unused cache takes one free page for 63 area objects and establishes the joint
  invariant of areas, slab cache, page tables and page allocator, with no area in the region.\<close>

theorem vma_subsystem_init_ready:
  assumes "pt_inv m U F" "F \<noteq> {}" "buddy (kheap v) = pt_buddy m" "rb_root (r_tree v) = 0"
    and "get_cache (kheap v) (vma_cache v) = Some c0" "sc_full c0 = 0" "sc_partial c0 = 0" "sc_empty c0 = 0"
  shows "\<exists>v' c a. vma_subsystem_init v ident = Some (v', 0) \<and> a \<in> F \<and> card (objs_of c a) = 63 \<and>
    kvm_inv \<lparr>areas_of = v', pages_of = m\<rparr> c Leaf (objs_of c a) (objs_of c a) U (F - {a}) \<and>
    r_start v' = KERNEL_VMMMAP \<and> r_end v' = KERNEL_VMMMAP + KERNEL_VMMAP_LEN \<and> r_tree v' = r_tree v"
  by (rule empty_cache_ready [OF assms])

theorem vma_subsystem_init_ready_witness:
  "\<exists>b v v' c a U F. vma_subsystem_init v 0 = Some (v', 0) \<and> card F = 3 \<and> a \<in> F \<and>
    kvm_inv \<lparr>areas_of = v', pages_of = demo_pgm b\<rparr> c Leaf (objs_of c a) (objs_of c a) U (F - {a})"
proof (rule demo_page)
  fix b p assume b: "kbud_alloc demo1 0 = Some (b, p)"
  from demo_pgm_inv [OF b] obtain U F where p: "pt_inv (demo_pgm b) U F" "card F = 3" .
  have ne: "F \<noteq> {}" using p(2) by auto
  let ?v = "demo_vmm\<lparr>kheap := demo_heap b\<rparr>"
  have v: "buddy (kheap ?v) = pt_buddy (demo_pgm b)" "rb_root (r_tree ?v) = 0" "get_cache (kheap ?v) (vma_cache ?v) = Some demo_cache"
    "sc_full demo_cache = 0" "sc_partial demo_cache = 0" "sc_empty demo_cache = 0"
    by (simp_all add: demo_pgm_def demo_vmm_def demo_heap_def rb_inittree_def get_cache_def demo_cache_def)
  from vma_subsystem_init_ready [OF p(1) ne v, of 0] p(2) show ?thesis by blast
qed

end
