(* ===== verification/Remap.thy ===== *)
theory Remap
  imports BootHandoff PageProps
begin

text \<open>
  The switch to page tables of the kernel's own, \<^verbatim>\<open>reallocate_bootmem_pages\<close> of \<^verbatim>\<open>kernel/pagetbl.c\<close>: image and direct map are
  entered again, into tables from the page allocator.
\<close>

section \<open>A table from the page allocator\<close>

lemma pt_inv_tree: "pt_inv m U F \<Longrightarrow> pt_tree m"
  by (auto simp: pt_inv_def pt_tree_def)

text \<open>Writes that leave the tables in place keep the invariant.\<close>

lemma pt_inv_same_tables:
  assumes "pt_inv m U F" "pt_tree m'" "pt_buddy m' = pt_buddy m" "\<forall>p. length p \<le> 3 \<longrightarrow> table_at m' p = table_at m p"
  shows "pt_inv m' U F"
  using assms by (auto simp: pt_inv_def pt_tree_def)

lemma return_pt_added:
  assumes i: "pt_inv m U F" and s: "table_at m p = Some s" "length p \<le> 2" and o: "open_at m p i" and F: "F \<noteq> {}"
  shows "\<exists>m' t F'. return_pt_or_alloc m s i = Some (m', t) \<and> table_at m' (i # p) = Some t \<and> pt_inv m' U F' \<and>
    F' \<subseteq> F \<and> card F \<le> card F' + 1 \<and> table_added m m' (i # p)"
proof -
  have pp: "page_pool (pt_buddy m) U F" using i by (simp add: pt_inv_def)
  have tb: "t \<noteq> 0" "t \<notin> F" "tables m t \<noteq> None" if "length p \<le> 3" "table_at m p = Some t" for p t
    using i that by (auto simp: pt_inv_def)
  note tr = pt_inv_tree [OF i]
  obtain f where f: "tables m s = Some f" "s \<noteq> 0" using tb [of p s] s by auto
  then have en: "entry m s i = Some (f i)" by (simp add: entry_def)
  from return_pt_spec [OF i s o F] obtain m' t F' where
    r: "return_pt_or_alloc m s i = Some (m', t)" "table_at m' (i # p) = Some t" "pt_inv m' U F'" "F' \<subseteq> F"
    "card F \<le> card F' + 1" "grown m m'" "same_walk {} m m'" by blast
  have "table_at m' q = table_at m q" if q: "length q \<le> 3" "q \<noteq> i # p" for q
  proof (cases "present (f i)")
    case True
    then have "m' = m" using r(1) en by (simp add: return_pt_or_alloc_def flag_tests)
    then show ?thesis by simp
  next
    case False
    from pages.alloc_fresh [OF pp F] obtain b x where b: "kbud_alloc (pt_buddy m) 0 = Some (b, x)" "x \<in> F" "x \<noteq> 0"
      "x \<noteq> KPAGE_ERR" by blast
    define e where "e = virt_to_phys_pm x OR PT_FLAG_PRESENT OR PT_FLAG_WRITABLE"
    have "x \<in> U" using pages.pool_ok [OF pp] b(2) by auto
    note ef = link_entry_facts [OF page_pool_pages [OF pp this], folded e_def]
    have nx: "\<forall>p'. length p' \<le> 3 \<longrightarrow> table_at m p' \<noteq> Some x" using tb(2) [of _ x] b(2) by auto
    then have "x \<noteq> s" using s by (auto dest: spec [of _ p])
    then have "m' = (link_table m x s i e f)\<lparr>pt_buddy := b\<rparr>"
      using r(1) en False b(1,4) f by (auto simp: return_pt_or_alloc_def flag_tests set_entry_def link_table_def e_def)
    from link_grows(1) [OF tr s f b(3) nx False ef this q(1)] q(2) show ?thesis by simp
  qed
  then have "table_added m m' (i # p)" using pt_inv_tree [OF r(3)] r(6,7) by (simp add: table_added_def)
  with r(1-5) show ?thesis by blast
qed

section \<open>The image\<close>

lemma kcode_l1_spec:
  assumes "pt_inv m U F" "n \<le> card F" "table_at m (ppath KOFF 1) = Some pd" "\<forall>i. open_at m (ppath KOFF 1) i" "j + n \<le> 512"
  shows "\<exists>m' F'. kcode_l1 n (of_nat j) im m pd KERNEL_OFFSET (pg (512 * j)) = Some (m', pg (512 * (j + n))) \<and>
    pt_inv m' U F' \<and> F' \<subseteq> F \<and> card F \<le> card F' + n \<and> kept m m' (512 * j) (512 * n) \<and> code_mapped im m' (512 * j) (512 * n) \<and>
    (\<forall>r. length r \<le> 1 \<longrightarrow> table_at m' r = table_at m r)"
  using assms
proof (induction n arbitrary: m j F)
  case 0
  then show ?case using pt_inv_tree by (intro exI [of _ m] exI [of _ F]) (simp add: code_mapped_def)
next
  case (Suc n)
  define i where "i = page_l2_idx (KERNEL_OFFSET + of_nat j * PT_L2_ENTRYSZ)"
  have j: "j < 512" using Suc.prems(5) by simp
  have path: "i # ppath KOFF 1 = ppath (KOFF + 512 * j) 0" using KOFF_tables [OF j] by (simp add: i_def)
  have l: "length (ppath KOFF 1) \<le> 2" by (simp add: ppath_simps)
  have ne: "F \<noteq> {}" using Suc.prems(2) by auto
  obtain m1 pt F1 where s1: "return_pt_or_alloc m pd i = Some (m1, pt)" "table_at m1 (i # ppath KOFF 1) = Some pt"
    "pt_inv m1 U F1" "F1 \<subseteq> F" "card F \<le> card F1 + 1" "table_added m m1 (i # ppath KOFF 1)"
    using return_pt_added [OF Suc.prems(1,3) l spec [OF Suc.prems(4)] ne] by blast
  have tr1: "pt_tree m1" and g1: "grown m m1" using s1(6) by (simp_all add: table_added_def)
  have "0 + 512 \<le> (512 :: nat)" by simp
  from kcode_pages_spec [OF tr1 s1(2) [unfolded path] this, of im] obtain m2 where
    m2: "kcode_pages 512 0 im m1 pt (pg (512 * j)) = Some (m2, pg (512 * j + 512))"
    "kept m1 m2 (512 * j) 512" "code_mapped im m2 (512 * j) 512" "\<forall>p. length p \<le> 3 \<longrightarrow> table_at m2 p = table_at m1 p" by auto
  have iv2: "pt_inv m2 U F1"
    using pt_inv_same_tables [OF s1(3) _ kcode_pages_buddy [OF m2(1)] m2(4)] m2(2) by (simp add: kept_def)
  have gr: "grown m m2" using g1 m2(2) grown_trans by (auto simp: kept_def)
  have t2: "table_at m2 (ppath KOFF 1) = Some pd" using gr Suc.prems(3) unfolding grown_def by (simp add: ppath_simps)
  have o2: "\<forall>i. open_at m2 (ppath KOFF 1) i" using gr Suc.prems(4) l unfolding grown_def by blast
  have j2: "Suc j + n \<le> 512" "n \<le> card F1" using Suc.prems(2,5) s1(5) by simp_all
  from Suc.IH [OF iv2 j2(2) t2 o2 j2(1)] obtain m' F' where
    r: "kcode_l1 n (of_nat (Suc j)) im m2 pd KERNEL_OFFSET (pg (512 * Suc j)) = Some (m', pg (512 * (Suc j + n)))"
    "pt_inv m' U F'" "F' \<subseteq> F1" "card F1 \<le> card F' + n" "kept m2 m' (512 * j + 512) (512 * n)"
    "code_mapped im m' (512 * j + 512) (512 * n)" "\<forall>r. length r \<le> 1 \<longrightarrow> table_at m' r = table_at m2 r" by (auto simp: add.commute)
  have e: "512 * Suc j = 512 * j + 512" "512 * Suc n = 512 + 512 * n" "512 * (Suc j + n) = 512 * (j + Suc n)" by simp_all
  have k1: "kept m m2 (512 * j) 512" using kept_trans [OF table_added_kept [OF s1(6)], of m2 "512 * j" 512] m2(2) by simp
  have cm: "code_mapped im m' (512 * j) (512 + 512 * n)"
    using code_mapped_append [OF code_mapped_later [OF m2(3) r(5)] r(6)] j2 by simp
  have run: "kcode_l1 (Suc n) (of_nat j) im m pd KERNEL_OFFSET (pg (512 * j)) = Some (m', pg (512 * (j + Suc n)))"
    using s1(1) m2(1) r(1) by (simp add: i_def [symmetric] pt_entries e add.commute)
  have tb: "table_at m' q = table_at m q" if "length q \<le> 1" for q
  proof -
    have "q \<noteq> i # ppath KOFF 1" using that by (auto simp: ppath_simps)
    then show ?thesis using r(7) m2(4) s1(6) that by (simp add: table_added_def)
  qed
  show ?case unfolding e(2)
    using run r(2-4) kept_trans [OF k1 r(5)] cm tb s1(4,5) by (intro exI [of _ m'] exI [of _ F']) auto
qed

lemma remap_kcode_spec:
  assumes iv: "pt_inv m U F" and c: "n + 2 \<le> card F" and l4: "kpt_get_l4 m = l4" and fresh: "table_at m [pidx 3 KOFF] = None"
    and b: "0 < b" "b \<le> 2 ^ 30" and n: "n = (b + 0x1FFFFF) div 0x200000"
  shows "\<exists>m' F'. remap_bootmem_kcode_pages im m l4 KERNEL_OFFSET (of_nat b) = Some m' \<and> pt_inv m' U F' \<and> F' \<subseteq> F \<and>
    card F \<le> card F' + (n + 2) \<and> kept m m' 0 (512 * n) \<and> code_mapped im m' 0 (512 * n) \<and>
    (\<forall>i. i \<noteq> pidx 3 KOFF \<longrightarrow> table_at m' [i] = table_at m [i])"
proof -
  have path: "ppath KOFF 1 = [pidx 2 KOFF, pidx 3 KOFF]"
    using ppath_Cons [of 1 KOFF] ppath_Cons [of 2 KOFF] ppath_simps(1) [of KOFF]
    by (simp add: numeral_2_eq_2 [symmetric] numeral_3_eq_3 [symmetric])
  have pK: "pageno KERNEL_OFFSET = KOFF" unfolding pg_KOFF by (rule pageno_pg0) (simp add: KOFF_def)
  have i3: "page_l4_idx KERNEL_OFFSET = pidx 3 KOFF" by (simp add: idx_simps idx_pageno pK)
  have i2: "page_l3_idx (KERNEL_OFFSET + 0 * PT_L3_ENTRYSZ) = pidx 2 KOFF" by (simp add: idx_simps idx_pageno pK)
  have root: "table_at m [] = Some l4" using l4 by simp
  have o: "open_at m [] (pidx 3 KOFF)" by (simp add: open_at_def)
  have l0: "length ([] :: u64 list) \<le> 2" "length [pidx 3 KOFF] \<le> 2" by simp_all
  have ne: "F \<noteq> {}" using c by auto
  from return_pt_added [OF iv root l0(1) o ne] obtain m1 l3 F1 where s1: "return_pt_or_alloc m l4 (pidx 3 KOFF) = Some (m1, l3)"
    "table_at m1 [pidx 3 KOFF] = Some l3" "pt_inv m1 U F1" "F1 \<subseteq> F" "card F \<le> card F1 + 1" "table_added m m1 [pidx 3 KOFF]" by blast
  have g1: "grown m m1" using s1(6) by (simp add: table_added_def)
  have op: "open_at m1 q j" if "length q \<le> 2" "table_at m q = None" for q j
  proof -
    have "open_at m q j" using that(2) by (simp add: open_at_def)
    then show ?thesis using g1 that(1) unfolding grown_def by blast
  qed
  have o1: "open_at m1 [pidx 3 KOFF] (pidx 2 KOFF)" using fresh by (intro op) simp_all
  have ne1: "F1 \<noteq> {}" using c s1(5) by auto
  from return_pt_added [OF s1(3,2) l0(2) o1 ne1] obtain m2 pd F2 where s2: "return_pt_or_alloc m1 l3 (pidx 2 KOFF) = Some (m2, pd)"
    "table_at m2 [pidx 2 KOFF, pidx 3 KOFF] = Some pd" "pt_inv m2 U F2" "F2 \<subseteq> F1" "card F1 \<le> card F2 + 1"
    "table_added m1 m2 [pidx 2 KOFF, pidx 3 KOFF]" by blast
  have g2: "grown m1 m2" using s2(6) by (simp add: table_added_def)
  have "table_at m [pidx 2 KOFF, pidx 3 KOFF] = None" using fresh by simp
  then have "open_at m1 [pidx 2 KOFF, pidx 3 KOFF] j" for j by (intro op) simp_all
  then have o2: "\<forall>i. open_at m2 (ppath KOFF 1) i" using g2 unfolding grown_def path by simp
  have n512: "0 + n \<le> 512" "n \<le> card F2" using image_tables(3) [OF b] n c s1(5) s2(5) by simp_all
  from kcode_l1_spec [OF s2(3) n512(2) s2(2) [folded path] o2 n512(1), of im] obtain m3 F3 where
    s3: "kcode_l1 n 0 im m2 pd KERNEL_OFFSET 0 = Some (m3, pg (512 * n))" "pt_inv m3 U F3" "F3 \<subseteq> F2" "card F2 \<le> card F3 + n"
    "kept m2 m3 0 (512 * n)" "code_mapped im m3 0 (512 * n)" "\<forall>r. length r \<le> 1 \<longrightarrow> table_at m3 r = table_at m2 r" by (auto simp: pg_def)
  have un: "unat (of_nat n :: u64) = n" using n512(1) by (intro unat_low) simp
  have run: "remap_bootmem_kcode_pages im m l4 KERNEL_OFFSET (of_nat b) = Some m3"
    using s1(1) s2(1) s3(1) image_tables(1,2) [OF b] i2 un
    by (simp add: remap_bootmem_kcode_pages_def i3 n [symmetric])
  have "kept m m2 0 (0 + 0)" using kept_trans [OF table_added_kept [OF s1(6)] table_added_kept [OF s2(6)], of 0] .
  from kept_trans [OF this] s3(5) have kp: "kept m m3 0 (512 * n)" by simp
  have "table_at m3 [i] = table_at m [i]" if "i \<noteq> pidx 3 KOFF" for i
  proof -
    have "table_at m3 [i] = table_at m2 [i]" using s3(7) by (simp del: table_at.simps)
    also have "\<dots> = table_at m1 [i]" using s2(6) by (simp add: table_added_def del: table_at.simps)
    also have "\<dots> = table_at m [i]" using s1(6) that by (simp add: table_added_def del: table_at.simps)
    finally show ?thesis .
  qed
  then show ?thesis using run s3(2-4,6) kp s1(4,5) s2(4,5) by (intro exI [of _ m3] exI [of _ F3]) auto
qed

section \<open>The direct map\<close>

lemma dmap_l4_spec:
  assumes "n = (R + 511) div 512" "512 * k + R \<le> 2 ^ 16"
    and "pt_inv m U F" "n \<le> card F" "kpt_get_l4 m = l4" "\<forall>i<n. table_at m [of_nat (256 + k + i)] = None"
  shows "\<exists>m' F'. dmap_l4 n m l4 (of_nat R) (of_nat (512 * k * 2 ^ 30)) (dm (512 * k * 2 ^ 30)) = Some m' \<and>
    pt_inv m' U F' \<and> F' \<subseteq> F \<and> card F \<le> card F' + n \<and> kept_gibs (gibs (512 * k) (512 * k + R)) m m' \<and>
    dram_mapped m' (512 * k) (512 * k + R)"
  using assms
proof (induction n arbitrary: m R k F)
  case 0
  then have "R = 0" by simp
  then show ?case using 0 pt_inv_tree [OF 0(3)]
    by (intro exI [of _ m] exI [of _ F]) (auto simp: kept_gibs_def dram_mapped_def)
next
  case (Suc n)
  define a where "a = min 512 R"
  let ?i = "of_nat (256 + k) :: u64"
  have R: "R \<le> 2 ^ 16" "a \<le> 512" using Suc.prems(2) by (simp_all add: a_def)
  have "512 * Suc n \<le> R + 511" unfolding Suc.prems(1) by (rule times_div_less_eq_dividend)
  then have k: "512 * k < 2 ^ 16" "k + n < 128" using Suc.prems(2) by auto
  have gi: "gib (dm (512 * k * 2 ^ 30)) = 0x20000 + 512 * k" using gib_dm [of "512 * k * 2 ^ 30"] k(1) by simp
  have "(0x20000 + 512 * k) div 512 = 256 + k" by simp
  then have ix: "page_l4_idx (dm (512 * k * 2 ^ 30)) = ?i" by (simp only: idx_simps gib_index gi)
  have root: "table_at m [] = Some l4" using Suc.prems(5) by simp
  have o: "open_at m [] ?i" by (simp add: open_at_def)
  have l0: "length ([] :: u64 list) \<le> 2" by simp
  have ne: "F \<noteq> {}" using Suc.prems(4) by auto
  from return_pt_added [OF Suc.prems(3) root l0 o ne] obtain m1 l3 F1 where s1: "return_pt_or_alloc m l4 ?i = Some (m1, l3)"
    "table_at m1 [?i] = Some l3" "pt_inv m1 U F1" "F1 \<subseteq> F" "card F \<le> card F1 + 1" "table_added m m1 [?i]" by blast
  have d: "512 * k div 512 = k" "512 * k mod 512 = 0" by simp_all
  have t1: "table_at m1 [of_nat (256 + 512 * k div 512)] = Some l3" using s1(2) unfolding d .
  have i0: "table_at m [?i] = None" using Suc.prems(6) by (auto dest: spec [of _ 0])
  have "table_at m1 [j, ?i] = None" for j
  proof -
    have "table_at m1 [j, ?i] = table_at m [j, ?i]" using s1(6) by (simp add: table_added_def del: table_at.simps)
    also have "\<dots> = None" unfolding table_at.simps(2) [of _ j "[?i]"] i0 by simp
    finally show ?thesis .
  qed
  then have nl: "\<forall>j. table_at m1 [j, of_nat (256 + 512 * k div 512)] = None" unfolding d by blast
  have b: "512 * k mod 512 + a \<le> 512" "512 * k + a \<le> 2 ^ 16" using R(2) Suc.prems(2) by (simp_all add: a_def)
  obtain m2 where m2: "dmap_l3 a m1 l3 (of_nat (512 * k * 2 ^ 30)) (dm (512 * k * 2 ^ 30)) =
      Some (m2, of_nat ((512 * k + a) * 2 ^ 30), dm ((512 * k + a) * 2 ^ 30))"
    "kept_gibs (gibs (512 * k) (512 * k + a)) m1 m2" "dram_mapped m2 (512 * k) (512 * k + a)"
    "\<forall>p. length p \<le> 3 \<longrightarrow> table_at m2 p = table_at m1 p"
    using dmap_l3_spec [OF pt_inv_tree [OF s1(3)] t1 b nl] by blast
  have kg: "kept_gibs (gibs (512 * k) (512 * k + a)) m m2"
    using kept_gibs_trans [OF table_added_gibs [OF s1(6), of "{}"] m2(2)] by simp
  have iv2: "pt_inv m2 U F1"
    using pt_inv_same_tables [OF s1(3) _ dmap_l3_buddy [OF m2(1)] m2(4)] m2(2) by (simp add: kept_gibs_def)
  have run: "dmap_l4 (Suc n) m l4 (of_nat R) (of_nat (512 * k * 2 ^ 30)) (dm (512 * k * 2 ^ 30)) =
      dmap_l4 n m2 l4 (of_nat (R - a)) (of_nat ((512 * k + a) * 2 ^ 30)) (dm ((512 * k + a) * 2 ^ 30))"
    unfolding dmap_l4.simps ix s1(1) using m2(1) word_cnt [OF R(1)]
    by (simp only: bind.simps prod.case Let_def a_def)
  show ?case
  proof (cases "n = 0")
    case True
    then have "a = R" using Suc.prems(1) by (auto simp: a_def)
    then show ?thesis unfolding run using True iv2 kg m2(3) s1(4,5) by (intro exI [of _ m2] exI [of _ F1]) simp
  next
    case False
    then have a: "a = 512" using Suc.prems(1) by (auto simp: a_def)
    have k1: "512 * k + a = 512 * (k + 1)" by (simp add: a)
    have n': "n = (R - a + 511) div 512" "512 * (k + 1) + (R - a) \<le> 2 ^ 16" "n \<le> card F1"
      using Suc.prems(1,2,4) False s1(5) by (auto simp: a)
    have l4': "kpt_get_l4 m2 = l4" using kg Suc.prems(5) by (simp add: kept_gibs_def kpt_get_l4_def)
    have fr: "\<forall>i<n. table_at m2 [of_nat (256 + (k + 1) + i)] = None"
    proof (intro allI impI)
      fix i assume i: "i < n"
      let ?i' = "of_nat (256 + (k + 1) + i) :: u64"
      have "?i' \<noteq> ?i" using small_inject [of "256 + (k + 1) + i" "256 + k"] k(2) i by auto
      then have "table_at m2 [?i'] = table_at m [?i']"
        using m2(4) s1(6) by (simp add: table_added_def del: table_at.simps of_nat_add)
      moreover have e: "256 + (k + 1) + i = 256 + k + Suc i" by simp
      have "table_at m [?i'] = None" unfolding e using Suc.prems(6) i by blast
      ultimately show "table_at m2 [?i'] = None" by (rule trans)
    qed
    from Suc.IH [OF n'(1,2) iv2 n'(3) l4' fr] obtain m' F' where
      r: "dmap_l4 n m2 l4 (of_nat (R - a)) (of_nat (512 * (k + 1) * 2 ^ 30)) (dm (512 * (k + 1) * 2 ^ 30)) = Some m'"
      "pt_inv m' U F'" "F' \<subseteq> F1" "card F1 \<le> card F' + n" "kept_gibs (gibs (512 * k + a) (512 * k + a + (R - a))) m2 m'"
      "dram_mapped m' (512 * k + a) (512 * k + a + (R - a))"
      unfolding k1 [symmetric] by blast
    have e: "512 * k + a + (R - a) = 512 * k + R" using False Suc.prems(1) by (auto simp: a)
    have "kept_gibs (gibs (512 * k) (512 * k + R)) m m'"
      by (rule kept_gibs_trans [OF kg r(5)]) (rule gibs_parts, simp_all add: a_def)+
    moreover have "dram_mapped m' (512 * k) (512 * k + R)"
      using dram_mapped_join [OF m2(3) r(5,6)] Suc.prems(2) by (simp add: e)
    ultimately show ?thesis unfolding run k1 using r s1(4,5)
      by (intro exI [of _ m'] exI [of _ F']) auto
  qed
qed

lemma remap_dmap_spec:
  assumes "pt_inv m U F" "l3_tables b \<le> card F" "kpt_get_l4 m = l4" "\<forall>i<128. table_at m [of_nat (256 + i)] = None" "b \<le> 2 ^ 46"
  shows "\<exists>m' F'. remap_bootmem_dmap_pages m l4 get_kernel_phmap (of_nat b) = Some m' \<and> pt_inv m' U F' \<and> F' \<subseteq> F \<and>
    kept_gibs (gibs 0 (gib_count b)) m m' \<and> dram_mapped m' 0 (gib_count b)"
proof -
  note rt = ram_tables [OF assms(5)]
  have l128: "l3_tables b \<le> 128" using rt(3) by (simp add: l3_tables_def)
  have "(256 + 0 + i :: nat) = 256 + i" for i by simp
  then have fr: "\<forall>i<l3_tables b. table_at m [of_nat (256 + 0 + i)] = None" using assms(4) l128 by (simp only:) force
  have "512 * 0 + gib_count b \<le> 2 ^ 16" using rt(3) by simp
  from dmap_l4_spec [OF l3_tables_def this assms(1-3) fr] obtain m' F' where
    r: "dmap_l4 (l3_tables b) m l4 (of_nat (gib_count b)) 0 get_kernel_phmap = Some m'" "pt_inv m' U F'" "F' \<subseteq> F"
    "kept_gibs (gibs 0 (gib_count b)) m m'" "dram_mapped m' 0 (gib_count b)" by (auto simp: dm_def)
  have "unat (of_nat (l3_tables b) :: u64) = l3_tables b" using l128 by (intro unat_low) simp
  then have "remap_bootmem_dmap_pages m l4 get_kernel_phmap (of_nat b) = Some m'"
    using r(1) by (simp add: remap_bootmem_dmap_pages_def rt Let_def)
  then show ?thesis using r by blast
qed

section \<open>The tables are built while others are in use\<close>

text \<open>Building does not look at \<^verbatim>\<open>cr3\<close>.\<close>

abbreviation at_root :: "u64 \<Rightarrow> pgm \<Rightarrow> pgm" where "at_root c m \<equiv> m\<lparr>cr3 := c\<rparr>"

lemma set_entry_root: "set_entry m t i e = Some m' \<Longrightarrow> set_entry (at_root c m) t i e = Some (at_root c m')"
  by (auto simp: set_entry_def split: if_splits)

lemma return_pt_root:
  assumes "return_pt_or_alloc m t i = Some (m', p)"
  shows "return_pt_or_alloc (at_root c m) t i = Some (at_root c m', p)"
proof -
  obtain e where e: "entry m t i = Some e" using assms by (auto simp: return_pt_or_alloc_def split: bind_splits)
  have "entry (at_root c m) t i = entry m t i" by (simp add: entry_def)
  then have e': "entry (at_root c m) t i = Some e" using e by (rule trans)
  show ?thesis
  proof (cases "e AND PT_FLAG_PRESENT = 0")
    case True
    then obtain b q where b: "kbud_alloc (pt_buddy m) 0 = Some (b, q)"
      using assms e by (auto simp: return_pt_or_alloc_def split: bind_splits)
    then show ?thesis using assms e e' True
      by (cases "tables m t") (auto simp: return_pt_or_alloc_def set_entry_def Let_def split: if_splits)
  next
    case False
    then show ?thesis using assms e e' by (simp add: return_pt_or_alloc_def)
  qed
qed

lemma kcode_pages_root:
  "kcode_pages n k im m t phy = Some (m', r) \<Longrightarrow> kcode_pages n k im (at_root c m) t phy = Some (at_root c m', r)"
proof (induction n arbitrary: k m phy)
  case (Suc n)
  then obtain m1 where m1: "kcode_pages n (k + 1) im m1 t (phy + PT_L1_ENTRYSZ) = Some (m', r)"
    and s: "set_entry m t k (phy OR (if phys_to_virt_of phy < begin_sym im \<or> phys_to_virt_of phy \<ge> after_ro im
      then PT_FLAG_PRESENT OR PT_FLAG_WRITABLE else PT_FLAG_PRESENT)) = Some m1"
    by (auto simp: Let_def split: bind_splits if_splits)
  show ?case using Suc.IH [OF m1] set_entry_root [OF s, of c] by (simp add: Let_def)
qed simp

lemma kcode_l1_root:
  "kcode_l1 n j im m pd offs phy = Some (m', r) \<Longrightarrow> kcode_l1 n j im (at_root c m) pd offs phy = Some (at_root c m', r)"
proof (induction n arbitrary: j m phy)
  case (Suc n)
  then obtain m1 pt m2 p2 where "return_pt_or_alloc m pd (page_l2_idx (offs + j * PT_L2_ENTRYSZ)) = Some (m1, pt)"
    "kcode_pages (unat PT_ENTRIES) 0 im m1 pt phy = Some (m2, p2)" "kcode_l1 n (j + 1) im m2 pd offs p2 = Some (m', r)"
    by (auto split: bind_splits)
  then show ?case using Suc.IH return_pt_root kcode_pages_root by simp
qed simp

lemma kcode_l2_root:
  "kcode_l2 n i l im m l3 offs phy = Some (m', r) \<Longrightarrow> kcode_l2 n i l im (at_root c m) l3 offs phy = Some (at_root c m', r)"
proof (induction n arbitrary: i m phy)
  case (Suc n)
  then obtain m1 pd m2 p2 where "return_pt_or_alloc m l3 (page_l3_idx (offs + i * PT_L3_ENTRYSZ)) = Some (m1, pd)"
    "kcode_l1 (unat l) 0 im m1 pd offs phy = Some (m2, p2)" "kcode_l2 n (i + 1) l im m2 l3 offs p2 = Some (m', r)"
    by (auto split: bind_splits)
  then show ?case using Suc.IH return_pt_root kcode_l1_root by simp
qed simp

lemma remap_kcode_root:
  "remap_bootmem_kcode_pages im m l4 offs sz = Some m' \<Longrightarrow> remap_bootmem_kcode_pages im (at_root c m) l4 offs sz = Some (at_root c m')"
proof -
  assume "remap_bootmem_kcode_pages im m l4 offs sz = Some m'"
  then obtain m1 l3 r where "return_pt_or_alloc m l4 (page_l4_idx offs) = Some (m1, l3)"
    "kcode_l2 (unat (((sz + PT_L3_ENTRYMASK) AND NOT PT_L3_ENTRYMASK) div PT_L3_ENTRYSZ)) 0
      (((sz + PT_L2_ENTRYMASK) AND NOT PT_L2_ENTRYMASK) div PT_L2_ENTRYSZ) im m1 l3 offs 0 = Some (m', r)"
    by (auto simp: remap_bootmem_kcode_pages_def Let_def simp del: kcode_l2.simps split: bind_splits)
  from return_pt_root [OF this(1)] kcode_l2_root [OF this(2)]
  show ?thesis by (simp add: remap_bootmem_kcode_pages_def Let_def)
qed

lemma dmap_l3_root:
  "dmap_l3 n m t phys dmap = Some (m', r) \<Longrightarrow> dmap_l3 n (at_root c m) t phys dmap = Some (at_root c m', r)"
proof (induction n arbitrary: m phys dmap)
  case (Suc n)
  then obtain m1 where "set_entry m t (page_l3_idx dmap) (phys OR (PT_FLAG_PRESENT OR PT_FLAG_WRITABLE OR PT_FLAG_PAGESIZE)) = Some m1"
    "dmap_l3 n m1 t (phys + PT_L3_ENTRYSZ) (dmap + PT_L3_ENTRYSZ) = Some (m', r)" by (auto split: bind_splits)
  then show ?case using Suc.IH set_entry_root by simp
qed simp

lemma dmap_l4_root:
  "dmap_l4 n m l4 k phys dmap = Some m' \<Longrightarrow> dmap_l4 n (at_root c m) l4 k phys dmap = Some (at_root c m')"
proof (induction n arbitrary: m k phys dmap)
  case (Suc n)
  let ?k = "if k > 512 then 512 else k"
  from Suc.prems obtain m1 t m2 p2 d2 where "return_pt_or_alloc m l4 (page_l4_idx dmap) = Some (m1, t)"
    "dmap_l3 (unat ?k) m1 t phys dmap = Some (m2, p2, d2)" "dmap_l4 n m2 l4 (k - ?k) p2 d2 = Some m'"
    by (auto simp: Let_def split: bind_splits)
  then show ?case using Suc.IH return_pt_root dmap_l3_root by (simp add: Let_def)
qed simp

lemma remap_dmap_root:
  "remap_bootmem_dmap_pages m l4 dmap sz = Some m' \<Longrightarrow> remap_bootmem_dmap_pages (at_root c m) l4 dmap sz = Some (at_root c m')"
  by (simp add: remap_bootmem_dmap_pages_def Let_def dmap_l4_root)

section \<open>The switch\<close>

definition new_root :: "pgm \<Rightarrow> kbuddy \<Rightarrow> u64 \<Rightarrow> pgm" where
  "new_root m b q = m\<lparr>pt_buddy := b, tables := (tables m)(q \<mapsto> (\<lambda>_. 0))\<rparr>"

lemma fresh_root:
  fixes m :: pgm
  assumes p: "page_pool b U F" and q: "page_ok q" "q \<notin> F" "q \<noteq> 0"
  defines "n \<equiv> at_root (virt_to_phys_pm q) (new_root m b q)"
  shows "kpt_get_l4 n = q" "table_at n (i # p) = None" "pt_inv n U F" "kpt_get_phys n w = Some KPAGE_ERR"
proof -
  have "PT_REBASE (virt_to_phys_pm q) = virt_to_phys_pm q" using rebase_or [of "virt_to_phys_pm q" 0] q(1) by (simp add: page_ok_def high_low_def)
  then show l4: "kpt_get_l4 n = q" by (simp add: kpt_get_l4_def n_def)
  have en: "entry n q i = Some 0" for i using q(3) by (simp add: entry_def n_def new_root_def)
  have t: "table_at n p = (if p = [] then Some q else None)" for p
    by (induction p) (simp_all add: l4 en present_def)
  show "table_at n (i # p) = None" unfolding t by simp
  show "kpt_get_phys n w = Some KPAGE_ERR" by (simp add: kpt_get_phys_def l4 en)
  have "tree_inj n" by (auto simp: tree_inj_def t split: if_splits)
  then show "pt_inv n U F" using p q(2,3) unfolding pt_inv_def t by (auto simp: n_def new_root_def)
qed

lemma switch_spec:
  assumes iv: "pt_inv m U F" and k: "0 < k" "k \<le> 2 ^ 30" and b: "b \<le> 2 ^ 46" and c: "l3_tables b + l1_tables k + 3 \<le> card F"
  shows "\<exists>q b' n F'. kbud_alloc (pt_buddy m) 0 = Some (b', q) \<and> q \<noteq> KPAGE_ERR \<and>
    (do { m1 \<leftarrow> remap_bootmem_kcode_pages im (new_root m b' q) q get_kernel_offs (of_nat k);
          remap_bootmem_dmap_pages m1 q get_kernel_phmap (of_nat b) }) = Some (at_root (cr3 m) n) \<and>
    cr3 n = virt_to_phys_pm q \<and> pt_inv n U F' \<and> F' \<subseteq> F \<and> code_mapped im n 0 (512 * l1_tables k) \<and>
    dram_mapped n 0 (gib_count b) \<and> (\<forall>w. unat w < 2 ^ 47 \<longrightarrow> kpt_get_phys n w = Some KPAGE_ERR)"
proof -
  have pp: "page_pool (pt_buddy m) U F" using iv by (simp add: pt_inv_def)
  have ne: "F \<noteq> {}" using c by auto
  from page_pool_alloc [OF pp ne] obtain b' q where
    q: "kbud_alloc (pt_buddy m) 0 = Some (b', q)" "q \<in> F" "page_pool b' U (F - {q})" by blast
  have U: "q \<in> U" "q \<noteq> 0" "q \<noteq> KPAGE_ERR" "finite F" using page_pool_ok [OF pp] q(2) by auto
  have cF: "card (F - {q}) = card F - 1" using U(4) q(2) by simp
  define n0 where "n0 = at_root (virt_to_phys_pm q) (new_root m b' q)"
  note n0 = fresh_root [OF q(3) page_pool_pages [OF pp U(1)] _ U(2), of m, folded n0_def]
  have c1: "l1_tables k + 2 \<le> card (F - {q})" using c cF by simp
  have q': "q \<notin> F - {q}" by simp
  from remap_kcode_spec [OF n0(3) [OF q'] c1 n0(1) [OF q'] n0(2) [OF q'] k l1_tables_def, of im] obtain n1 F1 where
    n1: "remap_bootmem_kcode_pages im n0 q KERNEL_OFFSET (of_nat k) = Some n1" "pt_inv n1 U F1" "F1 \<subseteq> F - {q}"
    "card (F - {q}) \<le> card F1 + (l1_tables k + 2)" "kept n0 n1 0 (512 * l1_tables k)" "code_mapped im n1 0 (512 * l1_tables k)"
    "\<forall>i. i \<noteq> pidx 3 KOFF \<longrightarrow> table_at n1 [i] = table_at n0 [i]" by blast
  have c2: "l3_tables b \<le> card F1" using n1(4) c cF by simp
  have r1: "cr3 n1 = virt_to_phys_pm q" "kpt_get_l4 n1 = q"
    using n1(5) n0(1) [OF q'] by (simp_all add: kept_def grown_def kpt_get_l4_def n0_def)
  have K0: "pidx 3 KOFF = of_nat 511" by (simp add: pidx_def KOFF_def)
  have fr: "\<forall>i<128. table_at n1 [of_nat (256 + i)] = None"
  proof (intro allI impI)
    fix i :: nat assume i: "i < 128"
    have "of_nat (256 + i) \<noteq> pidx 3 KOFF" unfolding K0 using small_inject [of "256 + i" 511] i by auto
    then show "table_at n1 [of_nat (256 + i)] = None" using n1(7) n0(2) [OF q'] by (simp del: table_at.simps of_nat_add)
  qed
  from remap_dmap_spec [OF n1(2) c2 r1(2) fr b] obtain n F' where
    n: "remap_bootmem_dmap_pages n1 q get_kernel_phmap (of_nat b) = Some n" "pt_inv n U F'" "F' \<subseteq> F1"
    "kept_gibs (gibs 0 (gib_count b)) n1 n" "dram_mapped n 0 (gib_count b)" by blast
  have rt: "at_root (cr3 m) n0 = new_root m b' q" by (simp add: n0_def new_root_def)
  have run: "(do { m1 \<leftarrow> remap_bootmem_kcode_pages im (new_root m b' q) q get_kernel_offs (of_nat k);
      remap_bootmem_dmap_pages m1 q get_kernel_phmap (of_nat b) }) = Some (at_root (cr3 m) n)"
    using remap_kcode_root [OF n1(1), of "cr3 m"] remap_dmap_root [OF n(1), of "cr3 m"] by (simp add: rt get_kernel_offs_def)
  have r18: "512 * l1_tables k \<le> 2 ^ 18" using image_tables(3) [OF k] by (simp add: l1_tables_def)
  have low: "kpt_get_phys n w = Some KPAGE_ERR" if w: "unat w < 2 ^ 47" for w
  proof -
    have "unat w div 2 ^ 30 < 0x20000" using w by (intro less_mult_imp_div_less) simp
    then have "gib w \<notin> gibs 0 (gib_count b)" by (simp add: gib_def gibs_def)
    then have "kpt_get_phys n w = kpt_get_phys n1 w" using n(4) unfolding kept_gibs_def by blast
    also have "\<dots> = kpt_get_phys n0 w"
    proof -
      have "pageno w < 2 ^ 35" unfolding pageno_def using w by (intro less_mult_imp_div_less) simp
      moreover have "0xFFFF80000 \<le> (KOFF + j) mod 2 ^ 36" if "j < 512 * l1_tables k" for j using that r18 by (subst KOFF_apart) auto
      ultimately have "pageno w mod 2 ^ 36 \<notin> pages_mod (KOFF + 0) (512 * l1_tables k)" by (fastforce simp: pages_mod_def)
      then show ?thesis using n1(5) unfolding kept_def same_walk_def by blast
    qed
    finally show ?thesis using n0(4) [OF q'] by simp
  qed
  have "code_mapped im n 0 (512 * l1_tables k)" using n1(6) n(4) unfolding code_mapped_def kept_gibs_def by blast
  moreover have "cr3 n = virt_to_phys_pm q" using n(4) r1(1) by (simp add: kept_gibs_def)
  ultimately show ?thesis using q(1) U(3) run n(2,3,5) n1(3) low
    by (intro exI [of _ q] exI [of _ b'] exI [of _ n] exI [of _ F']) auto
qed

text \<open>The pages of the early code are released at an address from which \<^verbatim>\<open>kbud_free_range\<close> computes another physical one.\<close>

lemma preinit_elsewhere: "virt_to_phys_pm (phys_to_virt_of p) = p + 0x7FFF80000000"
  by (simp add: virt_to_phys_pm_def phys_to_virt_of_def get_kernel_phmap_def KERNEL_PHMMAP_def get_kernel_offs_def KERNEL_OFFSET_def)

section \<open>Claim\<close>

text \<open>What \<^verbatim>\<open>reallocate_bootmem_pages\<close> does after the switch: it frees the first region and the pages of the early code.\<close>

definition release_bootmem :: "kimage \<Rightarrow> bootmem \<Rightarrow> pgm \<Rightarrow> pgm option" where
  "release_bootmem im info m = do {
     b \<leftarrow> kbud_free_range (pt_buddy m) (phys_to_virt_pm (reg0_base info)) (push_bit 12 (reg0_frames info));
     let base = phys_to_virt_of (prebegin im);
     let n = preend im - prebegin im;
     let m = m\<lparr>pt_buddy := b, pt_bytes := fill_bytes (pt_bytes m) base (- 1) n\<rparr>;
     b \<leftarrow> kbud_free_range (pt_buddy m) base n;
     Some (m\<lparr>pt_buddy := b\<rparr>) }"

text \<open>C21. \<^verbatim>\<open>reallocate_bootmem_pages\<close>, given a free page for each table, switches to tables in which the whole image and
  all memory are where the tables of the boot code had them, with text and constants not writable, and no address of
  the lower half is mapped any more; the tables are pages of the allocator that are no longer free. Only then is
  the early memory released.\<close>

theorem reallocate_bootmem_pages_switches:
  assumes "pt_inv m U F" "l3_tables b + l1_tables k + 3 \<le> card F"
    and "(kphys_end im - kphys_start im) + load_addr info = of_nat k" "0 < k" "k \<le> 2 ^ 30"
    and "ram_max info = of_nat b" "b \<le> 2 ^ 46"
  shows "\<exists>n F'. reallocate_bootmem_pages im info m = release_bootmem im info n \<and> pt_inv n U F' \<and> F' \<subseteq> F \<and>
    (\<forall>x < 0x200000 * l1_tables k. kpt_get_phys n (phys_to_virt_of (of_nat x)) = Some (of_nat x)) \<and>
    (\<forall>x < 2 ^ 30 * gib_count b. kpt_get_phys n (phys_to_virt_pm (of_nat x)) = Some (of_nat x)) \<and>
    (\<forall>j < 512 * l1_tables k. pte_of n (KOFF + j) = Some (code_entry im j)) \<and>
    (\<forall>w. unat w < 2 ^ 47 \<longrightarrow> kpt_get_phys n w = Some KPAGE_ERR)"
proof -
  from switch_spec [OF assms(1,4,5,7,2)] obtain q b' n F' where
    n: "kbud_alloc (pt_buddy m) 0 = Some (b', q)" "q \<noteq> KPAGE_ERR"
    "(do { m1 \<leftarrow> remap_bootmem_kcode_pages im (new_root m b' q) q get_kernel_offs (of_nat k);
          remap_bootmem_dmap_pages m1 q get_kernel_phmap (of_nat b) }) = Some (at_root (cr3 m) n)"
    "cr3 n = virt_to_phys_pm q" "pt_inv n U F'" "F' \<subseteq> F" "code_mapped im n 0 (512 * l1_tables k)" "dram_mapped n 0 (gib_count b)"
    "\<forall>w. unat w < 2 ^ 47 \<longrightarrow> kpt_get_phys n w = Some KPAGE_ERR" by blast
  from n(3) obtain m1 where m1: "remap_bootmem_kcode_pages im (new_root m b' q) q get_kernel_offs (of_nat k) = Some m1"
    "remap_bootmem_dmap_pages m1 q get_kernel_phmap (of_nat b) = Some (at_root (cr3 m) n)" by (auto split: bind_splits)
  have rt: "at_root (virt_to_phys_pm q) n = n" using n(4) by (cases n) simp
  have "reallocate_bootmem_pages im info m = release_bootmem im info n"
    using n(1,2,4) m1 by (simp add: reallocate_bootmem_pages_def release_bootmem_def new_root_def Let_def assms(3,6) rt)
  moreover have r18: "512 * l1_tables k \<le> 2 ^ 18" using image_tables(3) [OF assms(4,5)] by (simp add: l1_tables_def)
  have "kpt_get_phys n (phys_to_virt_of (of_nat x)) = Some (of_nat x)" if "x < 0x200000 * l1_tables k" for x
    using code_phys [OF n(7) r18, of x] that by simp
  moreover have "kpt_get_phys n (phys_to_virt_pm (of_nat x)) = Some (of_nat x)" if "x < 2 ^ 30 * gib_count b" for x
    using n(8) that unfolding dram_mapped_def by (simp add: dm_def phys_to_virt_pm_def add.commute mult.commute)
  ultimately show ?thesis using n(5-7,9) unfolding code_mapped_def by (intro exI [of _ n] exI [of _ F']) simp
qed

definition small_bootmem :: bootmem where
  "small_bootmem = \<lparr>load_addr = 0x100000, ram_max = 0xB9F000, reg0_base = 0, reg0_frames = 159\<rparr>"

definition small_pgm :: "kbuddy \<Rightarrow> pgm" where
  "small_pgm b = at_root 0x1000 (new_root (pm small_pre) b (phys_to_virt_pm 0x1000))"

theorem reallocate_bootmem_pages_switches_witness:
  "\<exists>b n. kbud_free_range boot_mem (phys_to_virt_pm 0x3FF000) 0x800FFF = Some b \<and>
    reallocate_bootmem_pages small_image small_bootmem (small_pgm b) = release_bootmem small_image small_bootmem n \<and>
    kpt_get_phys n (phys_to_virt_of 0x110000) = Some 0x110000 \<and> kpt_get_phys n (phys_to_virt_pm 0xB00000) = Some 0xB00000 \<and>
    kpt_get_phys n 0x110000 = Some KPAGE_ERR"
proof -
  have r: "length (regions boot_mem) = 128" "region_count boot_mem = 0" by (simp_all add: boot_mem_def)
  have "region_mapped boot_mem 0x3FF000 2048" by (rule boot_mem_frames) simp_all
  from free_range_pool [OF demo_placed r this refl] obtain b U where
    b: "kbud_free_range boot_mem (phys_to_virt_pm (of_nat 0x3FF000)) (of_nat 0x800FFF) = Some b" "page_pool b U U"
    "card U = 2048 - header_pages 2048" "\<forall>a \<in> U. 0x3FF000 + 4096 * header_pages 2048 \<le> unat (virt_to_phys_pm a)" by blast
  let ?q = "phys_to_virt_pm 0x1000"
  have q: "page_ok ?q" "?q \<notin> U" "?q \<noteq> 0" using b(4)
    by (auto simp: page_ok_def) (simp add: phys_to_virt_pm_def get_kernel_phmap_def KERNEL_PHMMAP_def)
  have iv: "pt_inv (small_pgm b) U U" using fresh_root(3) [OF b(2) q, of "pm small_pre"] by (simp add: small_pgm_def)
  have t: "l3_tables 0xB9F000 = 1" "l1_tables 0x2FF000 = 2" "gib_count 0xB9F000 = 1"
    by (simp_all add: l3_tables_def gib_count_def l1_tables_def)
  have c: "l3_tables 0xB9F000 + l1_tables 0x2FF000 + 3 \<le> card U" by (simp add: b(3) t demo_header)
  have k: "(kphys_end small_image - kphys_start small_image) + load_addr small_bootmem = of_nat 0x2FF000"
    "ram_max small_bootmem = of_nat 0xB9F000" by (simp_all add: small_image_def demo_image_def small_bootmem_def)
  from reallocate_bootmem_pages_switches [OF iv c k(1) _ _ k(2)] obtain n where
    n: "reallocate_bootmem_pages small_image small_bootmem (small_pgm b) = release_bootmem small_image small_bootmem n"
    "\<forall>x < 0x200000 * 2. kpt_get_phys n (phys_to_virt_of (of_nat x)) = Some (of_nat x)"
    "\<forall>x < 2 ^ 30 * 1. kpt_get_phys n (phys_to_virt_pm (of_nat x)) = Some (of_nat x)"
    "\<forall>w. unat w < 2 ^ 47 \<longrightarrow> kpt_get_phys n w = Some KPAGE_ERR" by (auto simp: t)
  show ?thesis using b(1) n(1) n(2) [rule_format, of "0x110000"] n(3) [rule_format, of "0xB00000"] n(4) [rule_format, of "0x110000"]
    by (intro exI [of _ b] exI [of _ n]) simp
qed

end
