(* ===== verification/LargePages.thy ===== *)
theory LargePages
  imports Remap
begin

text \<open>
  Mapping by entries of 2 MiB: \<^verbatim>\<open>pt_map_large\<close> and the branch of \<^verbatim>\<open>ioremap\<close> that uses it, for ranges that lie below
  one entry of the third level. The sections: what a large entry translates to; that
  entering one changes the translations of its block only; the loops, by induction on the number of blocks;
  the call of \<^verbatim>\<open>ioremap\<close>.
\<close>

section \<open>What a large entry translates to\<close>

text \<open>Pages \<open>N\<close> to \<open>N + n - 1\<close> show the frames from \<open>P\<close> on.\<close>

definition shows_frames :: "pgm \<Rightarrow> nat \<Rightarrow> nat \<Rightarrow> nat \<Rightarrow> bool" where
  "shows_frames m N P n \<longleftrightarrow> (\<forall>j<n. \<forall>off<4096. kpt_get_phys m (pg (N + j) + of_nat off) = Some (pg (P + j) + of_nat off))"

lemma large_block_hit:
  assumes t: "table_at m (tpath w 1) = Some t" and e: "entry m t (idx 1 w) = Some e" "present e" "large e"
  shows "kpt_get_phys m w = Some (page_phys_rebase e 21 (BITRANGE_MASK 51 21) OR (w AND mask 21))"
proof -
  have p: "tpath w 1 = [idx 2 w, idx 3 w]" by (simp add: tpath_def upt_rec eval_nat_numeral)
  from t [unfolded p] obtain t2 x y where
    x: "entry m (kpt_get_l4 m) (idx 3 w) = Some x" "present x" "t2 = table_ptr x" and
    y: "entry m t2 (idx 2 w) = Some y" "present y" "\<not> large y" "t = table_ptr y"
    by (auto split: bind_splits if_splits)
  have s: "Suc 2 = (3 :: nat)" "Suc 1 = (2 :: nat)" "Suc 0 = (1 :: nat)" by simp_all
  have "pwalk m w 3 (kpt_get_l4 m) = pwalk m w 2 t2" using x pwalk.simps(2) [of m w 2 "kpt_get_l4 m", unfolded s] by simp
  also have "\<dots> = pwalk m w 1 t" using y pwalk.simps(2) [of m w 1 t2, unfolded s] by simp
  also have "\<dots> = Some (page_phys_rebase e 21 (BITRANGE_MASK 51 21) OR (w AND mask 21))"
    using e pwalk.simps(2) [of m w 0 t, unfolded s] by simp
  finally show ?thesis by (simp only: kpt_get_phys_walk)
qed

lemma word_split_21: "push_bit 21 (drop_bit 21 x) OR take_bit 21 x = (x :: u64)"
  by (intro bit_word_eqI) (auto simp: bit_simps)

lemma large_entry_phys:
  assumes al: "P mod 512 = 0" "N mod 512 = 0" and b: "P < 2 ^ 40" "N + j < 2 ^ 52" "j < 512" "off < 4096" and f: "high_low f"
  defines "w \<equiv> pg (N + j) + of_nat off"
  shows "page_phys_rebase (pg P OR f) 21 (BITRANGE_MASK 51 21) OR (w AND mask 21) = pg (P + j) + of_nat off"
proof -
  define S where "S = P div 512"
  have P: "P = 512 * S" using al(1) by (auto simp: S_def)
  obtain Q where Q: "N = 512 * Q" using al(2) by (auto simp: mod_eq_0_iff_dvd elim: dvdE)
  have S: "S < 2 ^ 31" using b(1) P by simp
  have uS: "unat (of_nat S :: u64) = S" using S by (intro unat_of_nat64) simp
  let ?X = "pg (P + j) + of_nat off"
  have PJ: "P + j < 2 ^ 52" using b(1,3) by simp
  have uX: "unat ?X = 2 ^ 21 * S + (4096 * j + off)" using pageno_pg(2) [OF PJ b(4)] by (simp add: P)
  have uw: "unat w = 2 ^ 21 * Q + (4096 * j + off)" using pageno_pg(2) [OF b(2,4)] by (simp add: w_def Q)
  have lo: "4096 * j + off < 2 ^ 21" using b(3,4) by simp
  have d: "drop_bit 21 ?X = of_nat S" unfolding word_unat_eq_iff unat_drop uX uS using lo by simp
  have s31: "n < 31" if "bit (of_nat S :: u64) n" for n
  proof (rule ccontr)
    assume "\<not> n < 31"
    then have "(2 :: nat) ^ 31 \<le> 2 ^ n" by (intro power_increasing) auto
    then have "S div 2 ^ n = 0" using S by simp
    then have "\<not> bit (unat (of_nat S :: u64)) n" by (simp add: uS bit_iff_odd)
    with that show False by (simp add: bit_unsigned_iff)
  qed
  have p: "pg P = push_bit 21 (of_nat S)" by (simp add: pg_def P push_bit_eq_mult)
  have m: "BITRANGE_MASK 51 21 = mask 31" by (simp add: BITRANGE_MASK_def mask_eq_exp_minus_1)
  have "drop_bit 21 (pg P OR f) AND mask 31 = of_nat S"
  proof (intro bit_word_eqI)
    fix n assume "n < LENGTH(64)"
    have "\<not> bit f (21 + n)" if "n < 31" using f that unfolding high_low_def by auto
    then show "bit (drop_bit 21 (pg P OR f) AND mask 31) n \<longleftrightarrow> bit (of_nat S :: u64) n"
      using s31 [of n] unfolding p by (auto simp: bit_simps)
  qed
  then have "page_phys_rebase (pg P OR f) 21 (BITRANGE_MASK 51 21) = push_bit 21 (drop_bit 21 ?X)"
    by (simp add: page_phys_rebase_def m d)
  moreover have "w AND mask 21 = take_bit 21 ?X"
    unfolding take_bit_eq_mask [symmetric] word_unat_eq_iff unsigned_take_bit_eq uX uw using lo by (simp add: take_bit_nat_def)
  ultimately show ?thesis by (simp only: word_split_21)
qed

section \<open>Writing one large entry\<close>

lemma block_index:
  assumes "N mod 512 = 0" "j < 512"
  shows "ppath (N + j) 1 = ppath N 1" "pidx 1 (N + j) = pidx 1 N"
proof -
  obtain Q where Q: "N = 512 * Q" using assms(1) by (auto simp: mod_eq_0_iff_dvd elim: dvdE)
  then have d: "(N + j) div 512 = N div 512" using assms(2) by simp
  then have "(N + j) div 512 div 512 = N div 512 div 512" by simp
  then have "(N + j) div 2 ^ (9 * Suc 1) = N div 2 ^ (9 * Suc 1)" by (simp add: div_mult2_eq [symmetric])
  then show "ppath (N + j) 1 = ppath N 1" by (rule ppath_same)
  show "pidx 1 (N + j) = pidx 1 N" using d by (simp add: pidx_def)
qed

text \<open>An address that is served by the entry lies in the block.\<close>

lemma block_served:
  assumes N: "N mod 512 = 0" and w: "tpath w 1 = ppath N 1" "idx 1 w = pidx 1 N"
  shows "pageno w mod 2 ^ 36 \<in> pages_mod N 512"
proof -
  define M where "M = pageno w"
  have up: "[Suc 1..<4] = [2, 3]" by (simp add: upt_rec)
  have "pidx k M = pidx k N" if "k \<in> {1, 2, 3}" for k
    using w that unfolding tpath_pageno idx_pageno M_def [symmetric] by (auto simp: ppath_def up)
  then have dg: "M div 2 ^ (9 * k) mod 512 = N div 2 ^ (9 * k) mod 512" if "k \<in> {1, 2, 3}" for k
    using that by (simp add: pidx_inject)
  define K where "K = N + M mod 512"
  have m: "M mod 512 < 512" by simp
  obtain Q where Q: "N = 512 * Q" using N by (auto simp: mod_eq_0_iff_dvd elim: dvdE)
  have K: "K mod 512 = M mod 512" "K div 512 = N div 512" using m by (simp_all add: K_def Q)
  have "K div 262144 = N div 262144" "K div 134217728 = N div 134217728"
    using K(2) div_mult2_eq [of K 512 512] div_mult2_eq [of N 512 512] div_mult2_eq [of K 512 262144] div_mult2_eq [of N 512 262144]
    by simp_all
  then have "M mod 2 ^ 36 = K mod 2 ^ 36"
    using dg [of 1] dg [of 2] dg [of 3] K by (intro digits_eq) simp_all
  then show ?thesis unfolding M_def [symmetric] pages_mod_def K_def using m by (intro image_eqI [of _ _ "M mod 512"]) simp_all
qed

lemma large_step:
  assumes iv: "pt_inv m U F" and t: "table_at m (ppath N 1) = Some t" and none: "table_at m (ppath N 0) = None"
    and N: "N mod 512 = 0" "N + 512 \<le> 2 ^ 52" and P: "P mod 512 = 0" "P < 2 ^ 40" and fl: "high_low fl" "bit fl 0"
  obtains m' where "set_entry m t (page_l2_idx (pg N)) (pg P OR fl OR PT_FLAG_PAGESIZE) = Some m'" "pt_inv m' U F"
    "same_walk (pages_mod N 512) m m'" "shows_frames m' N P 512" "\<forall>p. length p \<le> 3 \<longrightarrow> table_at m' p = table_at m p"
proof -
  define e where "e = pg P OR fl OR PT_FLAG_PAGESIZE"
  have e: "present e" "large e" using fl(2) by (simp_all add: e_def present_def large_def bit_simps PT_FLAG_PAGESIZE_def)
  have f: "high_low (fl OR PT_FLAG_PAGESIZE)"
    using fl(1) unfolding high_low_def PT_FLAG_PAGESIZE_def bit_or_iff bit_push_bit_iff bit_1_iff by auto
  have l: "length (ppath N 1) = 2" by (simp add: ppath_simps)
  have p0: "pidx 1 N # ppath N 1 = ppath N 0" using ppath_Cons [of 0 N] by simp
  have l3: "length (ppath N 1) \<le> 3" using l by simp
  have nl: "length (ppath N 1) < 3 \<Longrightarrow> table_at m (pidx 1 N # ppath N 1) = None \<and> \<not> (present e \<and> (ppath N 1 \<noteq> [] \<longrightarrow> \<not> large e))"
    using none e l unfolding p0 by auto
  obtain m' where m': "set_entry m t (pidx 1 N) e = Some m'" "pt_tree m'"
    and tb: "\<forall>p. length p \<le> 3 \<longrightarrow> table_at m' p = table_at m p"
    and en: "\<forall>s j. entry m' s j = (if s = t \<and> j = pidx 1 N then Some e else entry m s j)"
    and wk: "\<forall>w. \<not> (tpath w (3 - length (ppath N 1)) = ppath N 1 \<and> idx (3 - length (ppath N 1)) w = pidx 1 N) \<longrightarrow> kpt_get_phys m' w = kpt_get_phys m w"
    and rc: "m' = m\<lparr>tables := tables m'\<rparr>" "dom (tables m') = dom (tables m)"
    by (rule entry_writes [OF pt_inv_tree [OF iv] t l3 nl])
  have "pt_buddy m' = pt_buddy m" by (subst rc(1)) simp
  then have iv': "pt_inv m' U F" by (rule pt_inv_same_tables [OF iv m'(2) _ tb])
  have "kpt_get_phys m' w = kpt_get_phys m w" if "pageno w mod 2 ^ 36 \<notin> pages_mod N 512" for w
    using wk [unfolded l, simplified] block_served [OF N(1), of w] that by auto
  moreover have "pte_of m' M = Some x" if "pte_of m M = Some x" for M x
  proof -
    from that obtain s where s: "table_at m (ppath M 0) = Some s" "entry m s (pidx 0 M) = Some x"
      by (auto simp: pte_of_def split: bind_splits)
    have "length (ppath M 0) \<noteq> length (ppath N 1)" by (simp add: ppath_simps)
    then have "ppath M 0 \<noteq> ppath N 1" by metis
    then have "s \<noteq> t" using tree_injD [of m _ s "ppath N 1"] pt_inv_tree [OF iv] s(1) t by (auto simp: pt_tree_def ppath_simps)
    then show ?thesis using s tb en by (simp add: pte_of_def ppath_simps)
  qed
  ultimately have sw: "same_walk (pages_mod N 512) m m'" unfolding same_walk_def by blast
  have sh: "shows_frames m' N P 512"
    unfolding shows_frames_def
  proof (intro allI impI)
    fix j off :: nat assume j: "j < 512" "off < 4096"
    let ?w = "pg (N + j) + of_nat off"
    have NJ: "N + j < 2 ^ 52" using N(2) j(1) by simp
    have pw: "pageno ?w = N + j" by (rule pageno_pg [OF NJ j(2)])
    have t': "table_at m' (tpath ?w 1) = Some t" unfolding tpath_pageno pw block_index [OF N(1) j(1)] using tb t l3 by simp
    have e': "entry m' t (idx 1 ?w) = Some e" unfolding idx_pageno pw block_index [OF N(1) j(1)] using en by simp
    show "kpt_get_phys m' ?w = Some (pg (P + j) + of_nat off)"
      using large_block_hit [OF t' e' e] large_entry_phys [OF P(1) N(1) P(2) NJ j f] by (simp add: e_def or.assoc)
  qed
  have "page_l2_idx (pg N) = pidx 1 N" using N(2) by (simp add: idx_simps idx_pageno pageno_pg0)
  then show ?thesis using m'(1) iv' sw sh tb by (intro that) (simp_all add: e_def)
qed

section \<open>The loops\<close>

lemma shows_frames_append:
  assumes a: "shows_frames m N P a" and sw: "same_walk (pages_mod (N + a) b) m m'" and b: "shows_frames m' (N + a) (P + a) b"
    and l: "a + b \<le> 2 ^ 36" "N + a \<le> 2 ^ 52"
  shows "shows_frames m' N P (a + b)"
  unfolding shows_frames_def
proof (intro allI impI)
  fix j off :: nat assume j: "j < a + b" "off < 4096"
  show "kpt_get_phys m' (pg (N + j) + of_nat off) = Some (pg (P + j) + of_nat off)"
  proof (cases "j < a")
    case True
    have "pageno (pg (N + j) + of_nat off) = N + j" using l(2) True by (intro pageno_pg [OF _ j(2)]) simp
    then have "kpt_get_phys m' (pg (N + j) + of_nat off) = kpt_get_phys m (pg (N + j) + of_nat off)"
      using sw page_mod_later [OF True l(1), of N] by (simp add: same_walk_def)
    then show ?thesis using a True j(2) by (simp add: shows_frames_def)
  next
    case False
    then have i: "j - a < b" "N + a + (j - a) = N + j" "P + a + (j - a) = P + j" using j(1) by auto
    then show ?thesis using b [unfolded shows_frames_def, rule_format, OF i(1) j(2)] by simp
  qed
qed

lemma large_l2_spec:
  "pt_inv m U F \<Longrightarrow> table_at m (ppath N 1) = Some t \<Longrightarrow> N mod 512 = 0 \<Longrightarrow> N div 512 mod 512 + n \<le> 512 \<Longrightarrow>
   N + 512 * n \<le> 2 ^ 52 \<Longrightarrow> P mod 512 = 0 \<Longrightarrow> P + 512 * n \<le> 2 ^ 40 \<Longrightarrow> \<forall>j<n. table_at m (ppath (N + 512 * j) 0) = None \<Longrightarrow>
   high_low (pte_flags ctx) \<Longrightarrow> bit (pte_flags ctx) 0 \<Longrightarrow>
   \<exists>m'. large_l2 n ctx m t (pg N) (pg P) = Some (m', pg (N + 512 * n), pg (P + 512 * n)) \<and> pt_inv m' U F \<and>
     same_walk (pages_mod N (512 * n)) m m' \<and> shows_frames m' N P (512 * n)"
proof (induction n arbitrary: m N P)
  case 0
  then show ?case by (simp add: shows_frames_def)
next
  case (Suc n)
  have b: "N + 512 \<le> 2 ^ 52" "P < 2 ^ 40" "N + 512 * n + 512 \<le> 2 ^ 52" using Suc.prems(5,7) by simp_all
  have "table_at m (ppath N 0) = None" using Suc.prems(8) by (auto dest: spec [of _ 0])
  from large_step [OF Suc.prems(1,2) this Suc.prems(3) b(1) Suc.prems(6) b(2) Suc.prems(9,10)] obtain m1 where
    1: "set_entry m t (page_l2_idx (pg N)) (pg P OR pte_flags ctx OR PT_FLAG_PAGESIZE) = Some m1" "pt_inv m1 U F"
    "same_walk (pages_mod N 512) m m1" "shows_frames m1 N P 512" "\<forall>p. length p \<le> 3 \<longrightarrow> table_at m1 p = table_at m p" .
  have st: "pg M + PT_L2_ENTRYSZ = pg (M + 512)" for M by (simp add: pg_def PT_L2_ENTRYSZ_def PT_L1_ENTRYSZ_def PT_ENTRIES_def)
  have run: "large_l2 (Suc n) ctx m t (pg N) (pg P) = large_l2 n ctx m1 t (pg (N + 512)) (pg (P + 512))"
    using 1(1) by (simp add: st)
  show ?case
  proof (cases "n = 0")
    case True
    then show ?thesis unfolding run using 1(2-4) by (intro exI [of _ m1]) simp
  next
    case False
    have dv: "(N + 512) div 512 = N div 512 + 1" by simp
    have "N div 512 mod 512 \<noteq> 511" using Suc.prems(4) False by auto
    then have md: "(N div 512 + 1) mod 512 = N div 512 mod 512 + 1" "(N div 512 + 1) div 512 = N div 512 div 512"
      by (simp_all add: mod_Suc div_Suc)
    then have "(N + 512) div 2 ^ (9 * Suc 1) = N div 2 ^ (9 * Suc 1)"
      using dv by (simp add: div_mult2_eq [of _ 512 512, simplified])
    then have pp: "ppath (N + 512) 1 = ppath N 1" by (rule ppath_same)
    have t1: "table_at m1 (ppath (N + 512) 1) = Some t" unfolding pp using 1(5) Suc.prems(2) by (simp add: ppath_simps)
    have n1: "\<forall>j<n. table_at m1 (ppath (N + 512 + 512 * j) 0) = None"
    proof (intro allI impI)
      fix j assume "j < n"
      then have "table_at m (ppath (N + 512 * Suc j) 0) = None" using Suc.prems(8) by blast
      then show "table_at m1 (ppath (N + 512 + 512 * j) 0) = None" using 1(5) by (simp add: ppath_simps add.assoc)
    qed
    have a: "(N + 512) mod 512 = 0" "(P + 512) mod 512 = 0" "(N + 512) div 512 mod 512 + n \<le> 512"
      "N + 512 + 512 * n \<le> 2 ^ 52" "P + 512 + 512 * n \<le> 2 ^ 40"
      using Suc.prems(3-7) dv md(1) by simp_all
    from Suc.IH [OF 1(2) t1 a(1,3,4,2,5) n1 Suc.prems(9,10)] obtain m2 where
      2: "large_l2 n ctx m1 t (pg (N + 512)) (pg (P + 512)) = Some (m2, pg (N + 512 + 512 * n), pg (P + 512 + 512 * n))"
      "pt_inv m2 U F" "same_walk (pages_mod (N + 512) (512 * n)) m1 m2" "shows_frames m2 (N + 512) (P + 512) (512 * n)" by blast
    have e: "512 * Suc n = 512 + 512 * n" by simp
    have n36: "512 + 512 * n \<le> 2 ^ 36" using Suc.prems(4) by simp
    have "same_walk (pages_mod N (512 * Suc n)) m m2"
      unfolding e using same_walk_trans [OF 1(3) 2(3)] pages_mod_append [of N 512 "512 * n"] by blast
    moreover have "shows_frames m2 N P (512 * Suc n)"
      unfolding e by (rule shows_frames_append [OF 1(4) 2(3,4) n36 b(1)])
    ultimately show ?thesis unfolding run using 2(1,2) by (intro exI [of _ m2]) (simp add: add.assoc)
  qed
qed

definition no_table :: "pgm \<Rightarrow> nat \<Rightarrow> nat \<Rightarrow> bool" where
  "no_table m N n \<longleftrightarrow> (\<forall>j<n. table_at m (ppath (N + 512 * j) 0) = None)"

text \<open>The whole call; the outer loops have one iteration each.\<close>

lemma pt_map_large_spec:
  assumes iv: "pt_inv m U F" and cx: "ctx_for ctx N P (512 * n) n" and nl: "no_large m N 0" and nt: "no_table m N n" and F: "2 \<le> card F"
    and N: "N mod 512 = 0" "N div 512 mod 512 + n \<le> 512" "N + 512 * n \<le> 2 ^ 52" "0 < n" and P: "P mod 512 = 0" "P + 512 * n \<le> 2 ^ 40"
    and fl: "high_low (pte_flags ctx)" "bit (pte_flags ctx) 0"
  shows "\<exists>m' F'. pt_map_large m (kpt_get_l4 m) ctx = Some m' \<and> pt_inv m' U F' \<and> F' \<subseteq> F \<and>
    same_walk (pages_mod N (512 * n)) m m' \<and> shows_frames m' N P (512 * n)"
proof -
  have N52: "N < 2 ^ 52" using N(3,4) by simp
  have ix: "page_l4_idx (pg N) = pidx 3 N" "page_l3_idx (pg N) = pidx 2 N"
    using N52 by (simp_all add: idx_simps idx_pageno pageno_pg0)
  have pc: "pidx 3 N # ppath N 3 = ppath N 2" "pidx 2 N # ppath N 2 = ppath N 1"
    using ppath_Cons [of 2 N] ppath_Cons [of 1 N] by (simp_all add: numeral_2_eq_2 [symmetric] numeral_3_eq_3 [symmetric])
  have t4: "table_at m (ppath N 3) = Some (kpt_get_l4 m)" by (simp add: ppath_simps)
  have F0: "F \<noteq> {}" using F by auto
  have l: "length (ppath N 3) \<le> 2" "length (ppath N 2) \<le> 2" by (simp_all add: ppath_simps)
  have o3: "open_at m (ppath N 3) (pidx 3 N)" using nl by (simp add: no_large_def)
  from return_pt_added [OF iv t4 l(1) o3 F0] obtain m1 l3 F1 where
    1: "return_pt_or_alloc m (kpt_get_l4 m) (pidx 3 N) = Some (m1, l3)" "table_at m1 (ppath N 2) = Some l3" "pt_inv m1 U F1"
    "F1 \<subseteq> F" "card F \<le> card F1 + 1" "table_added m m1 (ppath N 2)" unfolding pc by blast
  have F1: "F1 \<noteq> {}" using F 1(5) by auto
  have o2: "open_at m1 (ppath N 2) (pidx 2 N)" using nl 1(6) by (simp add: no_large_def table_added_def grown_def ppath_simps)
  from return_pt_added [OF 1(3,2) l(2) o2 F1] obtain m2 l2 F2 where
    2: "return_pt_or_alloc m1 l3 (pidx 2 N) = Some (m2, l2)" "table_at m2 (ppath N 1) = Some l2" "pt_inv m2 U F2"
    "F2 \<subseteq> F1" "table_added m1 m2 (ppath N 1)" unfolding pc by blast
  have sw: "same_walk {} m m2" using same_walk_trans [of "{}" m m1 "{}" m2 "{}"] 1(6) 2(5) by (simp add: table_added_def)
  have nt2: "\<forall>j<n. table_at m2 (ppath (N + 512 * j) 0) = None"
  proof (intro allI impI)
    fix j assume j: "j < n"
    have ln: "length (ppath (N + 512 * j) 0) = 3" "length (ppath N 1) = 2" "length (ppath N 2) = 1" by (simp_all add: ppath_simps)
    have "ppath (N + 512 * j) 0 \<noteq> ppath N 1"
    proof
      assume "ppath (N + 512 * j) 0 = ppath N 1"
      then have "length (ppath (N + 512 * j) 0) = length (ppath N 1)" by (rule arg_cong)
      then show False using ln by linarith
    qed
    moreover have "ppath (N + 512 * j) 0 \<noteq> ppath N 2"
    proof
      assume "ppath (N + 512 * j) 0 = ppath N 2"
      then have "length (ppath (N + 512 * j) 0) = length (ppath N 2)" by (rule arg_cong)
      then show False using ln by linarith
    qed
    ultimately show "table_at m2 (ppath (N + 512 * j) 0) = None"
      using nt j 1(6) 2(5) ln(1) by (simp add: no_table_def table_added_def)
  qed
  from large_l2_spec [OF 2(3,2) N(1-3) P nt2 fl] obtain m3 where
    3: "large_l2 n ctx m2 l2 (pg N) (pg P) = Some (m3, pg (N + 512 * n), pg (P + 512 * n))" "pt_inv m3 U F2"
    "same_walk (pages_mod N (512 * n)) m2 m3" "shows_frames m3 N P (512 * n)" by blast
  have n5: "n \<le> 512" using N(2) by simp
  then have nu: "unat (of_nat n :: u64) = n" by (intro unat_of_nat64) simp
  then have nw: "(if of_nat n > (512 :: u64) then 512 else of_nat n) = (of_nat n :: u64)" using n5 by (simp add: word_less_nat_alt)
  have "pt_map_large m (kpt_get_l4 m) ctx = Some m3"
    using cx 1(1) 2(1) 3(1) by (simp add: pt_map_large_def ctx_for_def ix nw nu)
  moreover have "same_walk (pages_mod N (512 * n)) m m3" using same_walk_trans [OF sw 3(3)] by blast
  ultimately show ?thesis using 3(2,4) 1(4) 2(4) by (intro exI [of _ m3] exI [of _ F2]) auto
qed

section \<open>Device memory by large entries\<close>

lemma aligned_pg: "n < 2 ^ 52 \<Longrightarrow> IS_ALIGNED (pg n) SZ_2M \<longleftrightarrow> n mod 512 = 0" "n < 2 ^ 52 \<Longrightarrow> IS_ALIGNED (pg n) SZ_1G \<longleftrightarrow> n mod 2 ^ 18 = 0"
proof -
  have m: "SZ_1G - 1 = mask 30" "SZ_2M - 1 = mask 21" by (simp_all add: SZ_1G_def SZ_2M_def mask_eq_exp_minus_1)
  assume n: "n < 2 ^ 52"
  then have u: "unat (pg n) = 4096 * n" using pageno_pg(2) [OF n, of 0] by simp
  have a: "(2 :: nat) ^ 21 = 4096 * 512" "(2 :: nat) ^ 30 = 4096 * 2 ^ 18" by simp_all
  have "4096 * n mod 2 ^ 21 = 4096 * (n mod 512)" "4096 * n mod 2 ^ 30 = 4096 * (n mod 2 ^ 18)"
    unfolding a by (rule mult_mod_right [symmetric])+
  then show "IS_ALIGNED (pg n) SZ_2M \<longleftrightarrow> n mod 512 = 0" "IS_ALIGNED (pg n) SZ_1G \<longleftrightarrow> n mod 2 ^ 18 = 0"
    by (simp_all add: IS_ALIGNED_def m unat_eq_0 [symmetric] take_bit_eq_mask [symmetric] take_bit_eq_mod unat_mod u)
qed

lemma ioremap_large_spec:
  assumes i: "kvm_inv kv d t U F Up Fp" and F: "F \<noteq> {}"
    and phy: "phy = pg P + of_nat off" "off < 4096" "PAGE_ALIGNUP (len + of_nat off) = pg (512 * n)" "0 < n" "n < 512"
    and place: "vma_place (areas_of kv) (pg (512 * n)) = Some (Some (pg N))" "pg (512 * n) \<le> r_end (areas_of kv) - r_start (areas_of kv)"
    and N: "N mod 512 = 0" "N div 512 mod 512 + n \<le> 512" "N + 512 * n < 2 ^ 52" and P: "P mod 512 = 0" "P + 512 * n \<le> 2 ^ 40"
    and nl: "no_large (pages_of kv) N 0" and nt: "no_table (pages_of kv) N n" and Fp: "2 \<le> card Fp"
  shows "\<exists>kv' t' p Fp'. ioremap kv phy len fl = Some (kv', pg N + of_nat off) \<and> kvm_inv kv' d t' U (F - {p}) Up Fp' \<and> Fp' \<subseteq> Fp \<and>
    (\<forall>j<512 * n. \<forall>o' < 4096. kpt_get_phys (pages_of kv') (pg (N + j) + of_nat o') = Some (pg (P + j) + of_nat o')) \<and>
    same_walk (pages_mod N (512 * n)) (pages_of kv) (pages_of kv')"
proof -
  define r where "r = 512 * n"
  have r: "0 < r" "r \<le> 512 * 512" using phy(4,5) by (simp_all add: r_def)
  have Nr: "N + r < 2 ^ 52" using N(3) by (simp add: r_def)
  define b where "b = buddy (kheap (areas_of kv))"
  have pi: "pt_inv ((pages_of kv)\<lparr>pt_buddy := b\<rparr>) Up Fp" using i by (simp add: kvm_inv_def b_def)
  from ioremap_area [OF i F r(1) Nr place [folded r_def], of fl] obtain vm t' p where
    v: "vma_alloc_area (areas_of kv) (pg r) fl = Some (vm, p)" "p \<in> F"
    "get_vma vm p = Some \<lparr>vm_start = pg N, vm_end = pg N + pg r, vm_pages = 0, vm_flags = fl\<rparr>"
    "vma_inv vm d t' U (F - {p})" "buddy (kheap vm) = b" "p \<noteq> VMA_INVALID_PTR" unfolding b_def .
  define ctx where "ctx = \<lparr>vaddr = pg N, paddr = pg P, align_sz = pg r, pte_flags = vma_to_pte_flags fl,
    l4_ent_count = get_pagetbl_count_l3 (pg r), l3_ent_count = get_pagetbl_count_l2 (pg r),
    l2_ent_count = get_pagetbl_count_l1 (pg r), l1_ent_count = drop_bit 12 (pg r)\<rparr>"
  have cx: "ctx_for ctx N P (512 * n) n"
    using table_counts [OF r] page_count [of r] r(2) by (simp add: ctx_for_def ctx_def r_def)
  have nl': "no_large ((pages_of kv)\<lparr>pt_buddy := b\<rparr>) N 0" "no_table ((pages_of kv)\<lparr>pt_buddy := b\<rparr>) N n"
    using nl nt by (simp_all add: bud_indep2 no_table_def bud_indep)
  have N3: "N + 512 * n \<le> 2 ^ 52" using N(3) by simp
  have fl: "high_low (pte_flags ctx)" "bit (pte_flags ctx) 0" using pte_flags_ok by (simp_all add: ctx_def)
  from pt_map_large_spec [OF pi cx nl' Fp N(1,2) N3 phy(4) P fl] obtain m' Fp' where
    m': "pt_map_large ((pages_of kv)\<lparr>pt_buddy := b\<rparr>) (kpt_get_l4 (pages_of kv)) ctx = Some m'" "pt_inv m' Up Fp'" "Fp' \<subseteq> Fp"
    "same_walk (pages_mod N (512 * n)) ((pages_of kv)\<lparr>pt_buddy := b\<rparr>) m'" "shows_frames m' N P (512 * n)" by auto
  define kv' where "kv' = \<lparr>areas_of = vm\<lparr>kheap := (kheap vm)\<lparr>buddy := pt_buddy m'\<rparr>\<rparr>, pages_of = m'\<rparr>"
  have ad: "phy AND (PAGESIZE - 1) = of_nat off" "PAGE_ALIGNDOWN phy = pg P"
    using and_fff [OF phy(2)] align_down_page [OF phy(2)] by (simp_all add: phy(1) PAGESIZE_def)
  have al: "IS_ALIGNED (pg P) SZ_2M" "IS_ALIGNED (pg N) SZ_2M" "IS_ALIGNED (pg r) SZ_2M" "\<not> IS_ALIGNED (pg r) SZ_1G"
    using aligned_pg(1) [of P] aligned_pg(1) [of N] aligned_pg [of r] N P phy(4,5) by (simp_all add: r_def)
  have vc: "vaddr ctx = pg N" by (simp add: ctx_def)
  have "ioremap kv phy len fl = Some (kv', pg N + of_nat off)"
    unfolding ioremap_def Let_def ad phy(3) [folded r_def] v(1) using v(3,6) al m'(1) v(5)
    by (auto simp: ctx_def [symmetric] vc with_pages_def kv'_def)
  moreover have "kvm_inv kv' d t' U (F - {p}) Up Fp'"
    using v(4) m'(2) by (simp add: kvm_inv_def kv'_def vma_inv_buddy)
  moreover have "same_walk (pages_mod N (512 * n)) (pages_of kv) m'" using m'(4) by (simp add: same_walk_def bud_indep2)
  ultimately show ?thesis using m'(3,5)
    by (intro exI [of _ kv'] exI [of _ t'] exI [of _ p] exI [of _ Fp']) (simp add: kv'_def shows_frames_def)
qed

section \<open>Claims\<close>

text \<open>C20. \<^verbatim>\<open>ioremap\<close> of whole 2 MiB blocks in the case it is right: the cache has a free object and the areas a gap for
  the range; physical base, place and length are multiples of 2 MiB; there are fewer than 512 blocks, all below a
  single 1 GiB entry; no last-level table hangs where the large entries go and no 1 GiB page above them; the page
  allocator has two frames, for the tables above the entries; physical addresses stay below 2^52. Then it returns
  the address of the new area, every byte of the blocks translates to its physical address through the large
  entries, all other translations stay, and the invariants of areas, slab cache, page tables and page allocator
  hold again. Ranges over more than one 1 GiB entry, and an allocator without frames, are excluded.\<close>

theorem ioremap_large_correct:
  assumes "kvm_inv kv d t U F Up Fp" "F \<noteq> {}"
    and "phy = pg P + of_nat off" "off < 4096" "PAGE_ALIGNUP (len + of_nat off) = pg (512 * n)" "0 < n" "n < 512"
    and "vma_place (areas_of kv) (pg (512 * n)) = Some (Some (pg N))" "pg (512 * n) \<le> r_end (areas_of kv) - r_start (areas_of kv)"
    and "N mod 512 = 0" "N div 512 mod 512 + n \<le> 512" "N + 512 * n < 2 ^ 52" and "P mod 512 = 0" "P + 512 * n \<le> 2 ^ 40"
    and "no_large (pages_of kv) N 0" "\<forall>j<n. table_at (pages_of kv) (ppath (N + 512 * j) 0) = None" "2 \<le> card Fp"
  shows "\<exists>kv' t' p Fp'. ioremap kv phy len fl = Some (kv', pg N + of_nat off) \<and> kvm_inv kv' d t' U (F - {p}) Up Fp' \<and> Fp' \<subseteq> Fp \<and>
    (\<forall>j<512 * n. \<forall>o' < 4096. kpt_get_phys (pages_of kv') (pg (N + j) + of_nat o') = Some (pg (P + j) + of_nat o')) \<and>
    same_walk (pages_mod N (512 * n)) (pages_of kv) (pages_of kv')"
  by (rule ioremap_large_spec [OF assms(1-15) _ assms(17)]) (use assms(16) in \<open>simp add: no_table_def\<close>)

lemma ioremap_large_correct_witness:
  "\<exists>kv kv'. ioremap kv 0xFD000000 0x800000 (VM_READ OR VM_WRITE OR VM_IO) = Some (kv', 0xFFFFC00000000000) \<and>
     kpt_get_phys (pages_of kv') 0xFFFFC000007FF004 = Some 0xFD7FF004"
proof (rule demo_region)
  fix m c a assume m: "vma_inv m c Leaf (objs_of c a) (objs_of c a)" "r_start m = KERNEL_VMMMAP"
    "r_end m = KERNEL_VMMMAP + KERNEL_VMMAP_LEN" "card (objs_of c a) = 63" "r_tree m = rb_inittree Map.empty"
    "kbud_alloc demo1 0 = Some (buddy (kheap m), a)"
  define N :: nat where "N = 0xFFFFC00000000"
  from demo_pgm_inv [OF m(6)] obtain Up Fp where p: "pt_inv (demo_pgm (buddy (kheap m))) Up Fp" "card Fp = 3"
    "no_large (demo_pgm (buddy (kheap m))) N 0" .
  define kv where "kv = \<lparr>areas_of = m, pages_of = demo_pgm (buddy (kheap m))\<rparr>"
  have ki: "kvm_inv kv c Leaf (objs_of c a) (objs_of c a) Up Fp" using m(1) p(1) by (simp add: kvm_inv_def kv_def demo_pgm_def)
  have ne: "objs_of c a \<noteq> {}" using m(4) by auto
  have al: "PAGE_ALIGNUP (0x800000 + of_nat 0) = pg (512 * 4)" by (simp add: PAGE_ALIGNUP_def PAGESIZE_def pg_def)
  have ph: "0xFD000000 = pg 0xFD000 + of_nat 0" by (simp add: pg_def)
  have pl: "vma_place (areas_of kv) (pg (512 * 4)) = Some (Some (pg N))"
    using m(2,5) by (simp add: vma_place_def kv_def rb_inittree_def pg_def N_def KERNEL_VMMMAP_def)
  have rg: "pg (512 * 4) \<le> r_end (areas_of kv) - r_start (areas_of kv)" using m(2,3) by (simp add: kv_def pg_def KERNEL_VMMAP_LEN_def)
  have nl: "no_large (pages_of kv) N 0" using p(3) by (simp add: kv_def)
  have "table_at (pages_of kv) q = None" if "q \<noteq> []" for q
    using that demo_pgm_tables(2) by (cases q) (auto simp: kv_def simp del: table_at.simps)
  moreover have "length (ppath x 0) = 3" for x by (simp add: ppath_simps)
  then have "ppath x 0 \<noteq> []" for x by (metis list.size(3) zero_neq_numeral)
  ultimately have nt: "\<forall>j<4. table_at (pages_of kv) (ppath (N + 512 * j) 0) = None" by blast
  have nn: "N mod 512 = 0" "N div 512 mod 512 + 4 \<le> 512" "N + 512 * 4 < 2 ^ 52" by (simp_all add: N_def)
  from ioremap_large_correct [OF ki ne ph _ al _ _ pl rg nn _ _ nl nt, of "VM_READ OR VM_WRITE OR VM_IO"] p(2) obtain kv' where
    "ioremap kv 0xFD000000 0x800000 (VM_READ OR VM_WRITE OR VM_IO) = Some (kv', pg N + of_nat 0)"
    "\<forall>j<512 * 4. \<forall>o' < 4096. kpt_get_phys (pages_of kv') (pg (N + j) + of_nat o') = Some (pg (0xFD000 + j) + of_nat o')"
    by auto
  moreover from this(2) have "kpt_get_phys (pages_of kv') (pg (N + 2047) + of_nat 4) = Some (pg (0xFD000 + 2047) + of_nat 4)"
    by (elim allE [where x = 2047]) (auto dest: spec [of _ 4])
  ultimately show ?thesis by (intro exI [of _ kv] exI [of _ kv']) (simp add: pg_def N_def)
qed

end
