(* ===== verification/PageHardware.thy ===== *)
theory PageHardware
  imports PageSpecs
begin

text \<open>
  Address translation as the processor does it, written down from its manual and without the helpers of the
  code: physical memory as eight-byte words, entries and addresses as numbers, the fields of an entry by
  division and remainder. \<^verbatim>\<open>kpt_get_phys\<close> gives the result of this walk.
\<close>

section \<open>The walk of the processor\<close>

text \<open>The word at a physical address. The kernel sees the first 128 TiB through its direct map, which starts at
  0xFFFF800000000000; the model's memory holds page tables only.\<close>

definition pmem64 :: "pgm \<Rightarrow> nat \<Rightarrow> u64 option" where
  "pmem64 m a = (if a < 2 ^ 47
     then map_option (\<lambda>t. t (of_nat (a mod 4096 div 8))) (tables m (0xFFFF800000000000 + of_nat (a div 4096 * 4096)))
     else None)"

text \<open>
  Level 3 is the table behind \<^verbatim>\<open>cr3\<close>, level 0 the last one; \<open>base\<close> is the physical address of the table of the
  level. An entry is present when bit 0 is set, and maps a page itself when bit 7 is set at level 2 (1 GiB) or 1
  (2 MiB); its address is in the bits up to 51. The result is \<open>None\<close> when no memory is at the address of an
  entry, \<open>Some None\<close> for a page fault, and the physical address otherwise.
\<close>

primrec hw_walk :: "pgm \<Rightarrow> nat \<Rightarrow> nat \<Rightarrow> nat \<Rightarrow> nat option option" where
  "hw_walk m va 0 base = (case pmem64 m (base + 8 * (va div 2 ^ 12 mod 512)) of
       None \<Rightarrow> None
     | Some e \<Rightarrow> Some (if odd (unat e) then Some (unat e div 2 ^ 12 mod 2 ^ 40 * 2 ^ 12 + va mod 2 ^ 12) else None))"
| "hw_walk m va (Suc k) base = (case pmem64 m (base + 8 * (va div 2 ^ (21 + 9 * k) mod 512)) of
       None \<Rightarrow> None
     | Some e \<Rightarrow>
         if even (unat e) then Some None
         else if k < 2 \<and> odd (unat e div 2 ^ 7)
         then Some (Some (unat e div 2 ^ (21 + 9 * k) mod 2 ^ (31 - 9 * k) * 2 ^ (21 + 9 * k) + va mod 2 ^ (21 + 9 * k)))
         else hw_walk m va k (unat e div 2 ^ 12 mod 2 ^ 40 * 2 ^ 12))"

section \<open>The fields of entries and addresses as numbers\<close>

lemma unat_and_mask: "unat (x AND mask n) = unat x mod 2 ^ n" for x :: u64
proof -
  have "unat (take_bit n x) = take_bit n (unat x)" by (rule unsigned_take_bit_eq)
  also have "take_bit n (unat x) = unat x mod 2 ^ n" by (rule take_bit_eq_mod)
  finally show ?thesis unfolding take_bit_eq_mask .
qed

lemma word_nat_eq: "unat x = n \<Longrightarrow> x = of_nat n" for x :: u64
  by auto

lemma flags_nat: "present e \<longleftrightarrow> odd (unat e)" "large e \<longleftrightarrow> odd (unat e div 2 ^ 7)"
proof -
  have "bit e n \<longleftrightarrow> odd (unat e div 2 ^ n)" if "n < 64" for n
  proof -
    have "bit e n \<longleftrightarrow> bit (unat e) n" using that by (simp add: bit_unsigned_iff)
    then show ?thesis by (simp add: bit_iff_odd)
  qed
  from this [of 0] this [of 7] show "present e \<longleftrightarrow> odd (unat e)" "large e \<longleftrightarrow> odd (unat e div 2 ^ 7)"
    by (simp_all add: present_def large_def)
qed

lemma idx_nat: "idx k va = of_nat (unat va div 2 ^ (12 + 9 * k) mod 512)"
proof -
  have m: "(0x1FF :: u64) = mask 9" by (simp add: mask_eq_exp_minus_1)
  show ?thesis unfolding idx_def m by (intro word_nat_eq) (simp add: unat_and_mask unat_drop)
qed

lemma rebase_nat:
  assumes n: "n \<le> 40"
  shows "page_phys_rebase e n (mask (52 - n)) OR (va AND mask n) =
    (of_nat (unat e div 2 ^ n mod 2 ^ (52 - n) * 2 ^ n + unat va mod 2 ^ n) :: u64)"
proof -
  let ?f = "unat e div 2 ^ n mod 2 ^ (52 - n)"
  have f: "?f * 2 ^ n < 2 ^ 52" 
  proof -
    have "?f * 2 ^ n < 2 ^ (52 - n) * 2 ^ n" by (intro mult_strict_right_mono) simp_all
    then show ?thesis using n by (simp add: power_add [symmetric])
  qed
  have d: "drop_bit n e AND mask (52 - n) = of_nat ?f" by (intro word_nat_eq) (simp add: unat_and_mask unat_drop)
  have v: "va AND mask n = of_nat (unat va mod 2 ^ n)" by (intro word_nat_eq) (rule unat_and_mask)
  have "push_bit n (of_nat ?f) OR (va AND mask n) = push_bit n (of_nat ?f) + (va AND mask n)"
    by (intro disjunctive_add [symmetric]) (auto simp: bit_simps)
  then show ?thesis unfolding page_phys_rebase_def d v by (simp add: push_bit_eq_mult mult.commute)
qed

lemma entry_pmem:
  assumes dm: "\<forall>t. tables m t \<noteq> None \<longrightarrow> 0xFFFF800000000000 \<le> t" and f: "f < 2 ^ 40" and i: "i < 512"
  shows "entry m (phys_to_virt_pm (of_nat (f * 2 ^ 12))) (of_nat i) = pmem64 m (f * 2 ^ 12 + 8 * i)"
proof -
  have a: "(f * 2 ^ 12 + 8 * i) div 4096 = f" "(f * 2 ^ 12 + 8 * i) mod 4096 div 8 = i" using i by auto
  have v: "phys_to_virt_pm (of_nat (f * 2 ^ 12)) = 0xFFFF800000000000 + of_nat (f * 4096)"
    by (simp add: phys_to_virt_pm_def get_kernel_phmap_def KERNEL_PHMMAP_def)
  have uf: "unat (of_nat (f * 4096) :: u64) = f * 4096" using f by (intro unat_of_nat64) simp
  have K: "unat (0xFFFF800000000000 :: u64) = 2 ^ 64 - 2 ^ 47" by simp
  show ?thesis
  proof (cases "f < 2 ^ 35")
    case True
    then have u: "unat (0xFFFF800000000000 + of_nat (f * 4096) :: u64) = 2 ^ 64 - 2 ^ 47 + f * 4096"
      unfolding unat_word_ariths uf K by simp
    have "(0xFFFF800000000000 + of_nat (f * 4096) :: u64) \<noteq> 0"
    proof
      assume "0xFFFF800000000000 + of_nat (f * 4096) = (0 :: u64)"
      then have "unat (0xFFFF800000000000 + of_nat (f * 4096) :: u64) = 0" by (simp only: unat_0)
      with u show False by simp
    qed
    moreover have "f * 2 ^ 12 + 8 * i < 2 ^ 47" using True i by simp
    ultimately show ?thesis unfolding entry_def pmem64_def v a by (simp del: of_nat_mult)
  next
    case False
    then have "unat (0xFFFF800000000000 + of_nat (f * 4096) :: u64) = f * 4096 - 2 ^ 47"
      unfolding unat_word_ariths uf K using f by (simp add: mod_if)
    then have "\<not> (0xFFFF800000000000 \<le> (0xFFFF800000000000 + of_nat (f * 4096) :: u64))"
      unfolding word_le_nat_alt K using f by simp
    then have "tables m (0xFFFF800000000000 + of_nat (f * 4096)) = None" using dm by blast
    moreover have "\<not> f * 2 ^ 12 + 8 * i < 2 ^ 47" using False by simp
    ultimately show ?thesis unfolding entry_def pmem64_def v by (simp del: of_nat_mult)
  qed
qed

lemma rebase_masks: "BITRANGE_MASK 51 n = mask (52 - n)" if "n \<le> 40"
proof -
  have "51 - n + 1 = 52 - n" using that by simp
  then show ?thesis unfolding BITRANGE_MASK_def by (simp only: mask_eq_exp_minus_1 push_bit_eq_mult mult_1)
qed

lemma PT_REBASE_nat: "PT_REBASE e = of_nat (unat e div 2 ^ 12 mod 2 ^ 40 * 2 ^ 12)"
  using rebase_nat [of 12 e 0] by (simp add: PT_REBASE_def rebase_masks)

section \<open>The walk\<close>

lemma pwalk_hw:
  assumes dm: "\<forall>t. tables m t \<noteq> None \<longrightarrow> 0xFFFF800000000000 \<le> t"
  shows "f < 2 ^ 40 \<Longrightarrow> k \<le> 3 \<Longrightarrow> pwalk m va k (phys_to_virt_pm (of_nat (f * 2 ^ 12))) =
    map_option (\<lambda>r. case r of None \<Rightarrow> KPAGE_ERR | Some p \<Rightarrow> of_nat p) (hw_walk m (unat va) k (f * 2 ^ 12))"
proof (induction k arbitrary: f)
  case 0
  have m: "(0xFFF :: u64) = mask 12" by (simp add: mask_eq_exp_minus_1)
  have i: "idx 0 va = of_nat (unat va div 2 ^ 12 mod 512)" using idx_nat [of 0 va] by simp
  have r: "PT_REBASE e OR (va AND 0xFFF) = of_nat (unat e div 2 ^ 12 mod 2 ^ 40 * 2 ^ 12 + unat va mod 2 ^ 12)" for e
    using rebase_nat [of 12 e va] unfolding m by (simp add: PT_REBASE_def rebase_masks)
  show ?case unfolding pwalk.simps hw_walk.simps i entry_pmem [OF dm "0.prems"(1) mod_less_divisor [OF zero_less_numeral]] r flags_nat(1)
    by (simp split: option.split)
next
  case (Suc k)
  have i: "idx (Suc k) va = of_nat (unat va div 2 ^ (21 + 9 * k) mod 512)" using idx_nat [of "Suc k" va] by simp
  have r: "page_phys_rebase e (12 + 9 * Suc k) (BITRANGE_MASK 51 (12 + 9 * Suc k)) OR (va AND mask (12 + 9 * Suc k)) =
      of_nat (unat e div 2 ^ (21 + 9 * k) mod 2 ^ (31 - 9 * k) * 2 ^ (21 + 9 * k) + unat va mod 2 ^ (21 + 9 * k))" if "k < 2" for e
    using rebase_nat [of "21 + 9 * k" e va] that by (simp add: rebase_masks)
  have t: "table_ptr e = phys_to_virt_pm (of_nat (unat e div 2 ^ 12 mod 2 ^ 40 * 2 ^ 12))" for e
    by (simp only: table_ptr_def PT_REBASE_nat)
  have ih: "pwalk m va k (table_ptr e) = map_option (\<lambda>r. case r of None \<Rightarrow> KPAGE_ERR | Some p \<Rightarrow> of_nat p)
      (hw_walk m (unat va) k (unat e div 2 ^ 12 mod 2 ^ 40 * 2 ^ 12))" for e
    unfolding t using Suc.prems by (intro Suc.IH) simp_all
  show ?case
    unfolding pwalk.simps hw_walk.simps i entry_pmem [OF dm Suc.prems(1) mod_less_divisor [OF zero_less_numeral]] flags_nat ih
    using r by (simp split: option.split)
qed

text \<open>Two tables: the first entry of the first leads to the second, whose entry 1 maps the GiB at 3 GiB, not
  executable.\<close>

definition demo_tables :: "kbuddy \<Rightarrow> pgm" where
  "demo_tables b = \<lparr>pt_buddy = b, tables = [0xFFFF800000001000 \<mapsto> (\<lambda>_. 0)(0 := 0x2003),
     0xFFFF800000002000 \<mapsto> (\<lambda>_. 0)(1 := 0x80000000C0000083)], cr3 = 0x1008, invlpg = [], pt_bytes = (\<lambda>_. 0)\<rparr>"

section \<open>Claims\<close>

text \<open>C22. When all page tables lie in the direct map, \<^verbatim>\<open>kpt_get_phys\<close> of any address is the result of the processor's
  four-level walk from the frame in \<^verbatim>\<open>cr3\<close>: \<^verbatim>\<open>KPAGE_ERR\<close> where the walk ends in a page fault, its physical address
  otherwise, and no result where the walk meets an address without a table.\<close>

theorem kpt_get_phys_hardware:
  assumes "\<forall>t. tables m t \<noteq> None \<longrightarrow> 0xFFFF800000000000 \<le> t"
  shows "kpt_get_phys m va = map_option (\<lambda>r. case r of None \<Rightarrow> KPAGE_ERR | Some p \<Rightarrow> of_nat p)
    (hw_walk m (unat va) 3 (unat (cr3 m) div 2 ^ 12 mod 2 ^ 40 * 2 ^ 12))"
  unfolding kpt_get_phys_walk kpt_get_l4_def PT_REBASE_nat by (rule pwalk_hw [OF assms]) simp_all

lemma kpt_get_phys_hardware_witness:
  "\<forall>b. kpt_get_phys (demo_tables b) 0x40001234 = Some 0xC0001234 \<and> kpt_get_phys (demo_tables b) 0x80000000 = Some KPAGE_ERR"
proof
  fix b
  have t: "\<forall>t. tables (demo_tables b) t \<noteq> None \<longrightarrow> 0xFFFF800000000000 \<le> t" by (simp add: demo_tables_def)
  note k = kpt_get_phys_hardware [OF t]
  have c: "unat (cr3 (demo_tables b)) div 2 ^ 12 mod 2 ^ 40 * 2 ^ 12 = 0x1000" by (simp add: demo_tables_def)
  have n: "hw_walk m va 3 = hw_walk m va (Suc (Suc (Suc 0)))" for m va by (simp add: numeral_3_eq_3)
  have "hw_walk (demo_tables b) (unat (0x40001234 :: u64)) 3 0x1000 = Some (Some 0xC0001234)"
    "hw_walk (demo_tables b) (unat (0x80000000 :: u64)) 3 0x1000 = Some None"
    unfolding n by (simp_all add: pmem64_def demo_tables_def)
  then show "kpt_get_phys (demo_tables b) 0x40001234 = Some 0xC0001234 \<and> kpt_get_phys (demo_tables b) 0x80000000 = Some KPAGE_ERR"
    unfolding k c by simp
qed

end
