(* ===== verification/Spec2Isabelle.thy ===== *)
theory Spec2Isabelle
  imports RbTreeProps BuddyProps BuddyBase SlabProps VmaProps PageProps Stdio PortIo VgaDriver CpuMasks Interrupts KernelMain
    BootHandoff MemInit Remap LargePages PageHardware
begin

text \<open>
  A verification library of the sync-kernel, an x86-64 kernel in C that boots from a multiboot2 loader, sets up its
  memory and its console, and idles. Paths below are relative to \<^verbatim>\<open>src/kernel\<close>.

  \<^bold>\<open>How the program is put together.\<close> \<^verbatim>\<open>boot.c\<close> runs first, on physical addresses: it reads the boot information, takes
  page frames from the first region of the memory map, builds the page tables of the kernel, and hands the other
  regions to the page allocator of \<^verbatim>\<open>mm/buddy.c\<close>. Then \<^verbatim>\<open>main.c\<close> calls the initialisation of each part. \<^verbatim>\<open>mm/slab.c\<close> cuts
  pages of the page allocator into objects; \<^verbatim>\<open>mm/vma.c\<close> keeps the areas of the kernel's virtual region in a red-black
  tree (\<^verbatim>\<open>rbtree.c\<close>) whose nodes are such objects; \<^verbatim>\<open>mm/vmalloc.c\<close> takes an area and enters its pages into the page
  tables of \<^verbatim>\<open>pagetbl.c\<close>, which takes new tables from the page allocator again. The display driver maps its framebuffer
  this way and \<^verbatim>\<open>io/console.c\<close> draws the text on it that \<^verbatim>\<open>printk.c\<close> and \<^verbatim>\<open>stdio.c\<close> format.

  \<^bold>\<open>How the code is translated.\<close> Integers are words of their width, so that additions wrap as in C. A structure that the
  code reaches through pointers is a \<open>record\<close> in a map from addresses, memory that is read as bytes a total map from
  addresses to bytes; a record of these is passed along and returned. A read through a pointer to nothing is \<open>None\<close>,
  and so is an array access out of bounds where the array ends, a \<^verbatim>\<open>die\<close>, and a loop that never ends. Error codes of the
  program (\<^verbatim>\<open>KPAGE_ERR\<close>, \<^verbatim>\<open>VMA_INVALID_PTR\<close>) stay what they are: values of a result that is \<open>Some\<close>. A panic during
  initialisation is \<open>Inl\<close> of its message. Counted loops are \<open>primrec\<close> over the count; no fuel is guessed anywhere. Loops
  that need not end (walks over linked lists and trees, scans for a terminator, the freeing of a range, the search for
  a tag) are \<open>partial_function (option)\<close>, and the theorems about them show \<open>Some\<close>, that they return. \<^verbatim>\<open>find_slave_loop\<close>
  (binary search), \<^verbatim>\<open>strnlen_loop\<close> and \<^verbatim>\<open>digit_loop\<close> are \<open>function\<close>s with their measures.
\<close>

text \<open>
  \<^bold>\<open>The theories and the sources.\<close>

  \<^item> \<^theory_text>\<open>Prelude\<close>: words as numbers, masks, \<open>option\<close> lists (\<open>nth_opt\<close>), splitting of binds (\<open>bind_splits\<close>). \<^theory_text>\<open>Builtin\<close>:
    \<^verbatim>\<open>include/builtin.h\<close>. \<^theory_text>\<open>Kstring\<close>: \<^verbatim>\<open>kstring.c\<close>, \<^verbatim>\<open>kctype.h\<close> and the string instructions of \<^verbatim>\<open>include/str_io.h\<close>, with
    the direction flag as state. \<^theory_text>\<open>PortIo\<close>: \<^verbatim>\<open>include/io.h\<close> over a parameter for the devices, and the debug console.

  \<^item> \<^theory_text>\<open>RbTree\<close>: \<^verbatim>\<open>rbtree.c\<close> on a heap of nodes. \<^theory_text>\<open>RbTreeRep\<close> relates the heap to a tree and a zipper, \<^theory_text>\<open>RbTreeInsert\<close>,
    \<^theory_text>\<open>RbTreeRemove\<close> and \<^theory_text>\<open>RbTreeWalk\<close> follow the operations on both; \<^theory_text>\<open>RbTreeProps\<close> has the claims. Walking is the locale
    \<open>ordered_cursor\<close>, interpreted as \<open>rbcur\<close>.

  \<^item> \<^theory_text>\<open>Buddy\<close>: \<^verbatim>\<open>mm/buddy.c\<close>. \<^theory_text>\<open>BuddyLists\<close> (free lists and bitmaps), \<^theory_text>\<open>BuddyFrames\<close> (aligned blocks as sets of frames),
    \<^theory_text>\<open>BuddyInv\<close> (the invariant \<open>region_inv\<close>, kept by push, pop, split and merge), \<^theory_text>\<open>BuddyRegion\<close> (the array of regions),
    \<^theory_text>\<open>BuddyRelease\<close> (layout of a new region and \<^verbatim>\<open>kbud_free_range\<close>), \<^theory_text>\<open>BuddyProps\<close>; \<^theory_text>\<open>BuddyBase\<close> shows what happens in a region whose base is an odd
    page, which the invariant excludes. \<^theory_text>\<open>ObjectPool\<close> states what a client of an allocator relies on, the locales \<open>object_pool\<close> and its extension \<open>object_pool_free\<close>; \<^theory_text>\<open>PagePool\<close> interprets the first
    on single pages of the page allocator (\<open>pages\<close>), \<^theory_text>\<open>SlabPool\<close> the second on the objects of a slab cache (\<open>sp\<close>).

  \<^item> \<^theory_text>\<open>Slab\<close>: \<^verbatim>\<open>mm/slab.c\<close>. \<^theory_text>\<open>SlabLists\<close>, \<^theory_text>\<open>SlabInv\<close> (the invariant \<open>slab_inv\<close> of the three lists and the objects of each
    slab), \<^theory_text>\<open>SlabCreate\<close> (choice of the order, the first slab), \<^theory_text>\<open>SlabProps\<close>.

  \<^item> \<^theory_text>\<open>Vma\<close>: \<^verbatim>\<open>mm/vma.c\<close>. \<^theory_text>\<open>VmaInv\<close> (disjoint areas in the order of the tree, the search), \<^theory_text>\<open>VmaAlloc\<close> (the gaps, the
    joint invariant \<open>vma_inv\<close> of tree, region and slab cache), \<^theory_text>\<open>VmaProps\<close>.

  \<^item> \<^theory_text>\<open>PageTables\<close>: \<^verbatim>\<open>pagetbl.c\<close> and \<^verbatim>\<open>pagetbl.h\<close>; \<^theory_text>\<open>Vmalloc\<close>: \<^verbatim>\<open>mm/vmalloc.c\<close> and \<^verbatim>\<open>mm_init\<close> of \<^verbatim>\<open>mm/kmalloc.c\<close>. \<^theory_text>\<open>PageWalk\<close>
    has the walk as a recursion on the level, with which the translations below are reasoned about; \<^theory_text>\<open>PageHardware\<close> the walk
    of the processor, on physical memory and numbers and with no definition of the code, which \<^verbatim>\<open>kpt_get_phys\<close> computes. \<^theory_text>\<open>PageMap\<close> has
    the invariant \<open>pt_inv\<close> (no table is reached twice or is a free page), \<^theory_text>\<open>PageEnter\<close> the entering of pages, \<^theory_text>\<open>PageSpecs\<close>
    the specification of \<^verbatim>\<open>ioremap\<close> and the joint invariant \<open>kvm_inv\<close>, \<^theory_text>\<open>PageProps\<close> the claims, \<^theory_text>\<open>LargePages\<close> the same for ranges of 2 MiB
    blocks (the branch for 1 GiB entries is a definition without a specification). \<^theory_text>\<open>MemInit\<close>:
    \<^verbatim>\<open>vma_subsystem_init\<close> establishes \<open>kvm_inv\<close>. \<^theory_text>\<open>Remap\<close>: \<^verbatim>\<open>reallocate_bootmem_pages\<close> builds the tables anew, with the lemmas
    on the entering of pages that \<^theory_text>\<open>BootCode\<close> and \<^theory_text>\<open>BootDram\<close> have for the boot code.

  \<^item> \<^theory_text>\<open>Bootparams\<close>: \<^verbatim>\<open>bootparams.h\<close>. \<^theory_text>\<open>BootParse\<close> and \<^theory_text>\<open>BootMem\<close>: \<^verbatim>\<open>boot.c\<close>, up to \<^verbatim>\<open>start_kernel\<close>. \<^theory_text>\<open>BootInfo\<close> has the encoder
    of the boot information and that parsing inverts it; \<^theory_text>\<open>BootPool\<close>, \<^theory_text>\<open>BootCode\<close>, \<^theory_text>\<open>BootDram\<close> and \<^theory_text>\<open>BootMaps\<close> follow the early
    allocator and the three maps; \<^theory_text>\<open>BootProps\<close> the claims, \<^theory_text>\<open>BootHandoff\<close> the whole of \<^verbatim>\<open>start_kernel\<close>.

  \<^item> \<^theory_text>\<open>Stdio\<close>: \<^verbatim>\<open>stdio.c\<close> and the formatting part of \<^verbatim>\<open>printk.c\<close>. \<^theory_text>\<open>VgaText\<close>, \<^theory_text>\<open>VgaDriver\<close>: \<^verbatim>\<open>drivers/video/vga\<close>. \<^theory_text>\<open>Font\<close>:
    \<^verbatim>\<open>drivers/video/font.c\<close>. \<^theory_text>\<open>Framebuffer\<close>, \<^theory_text>\<open>FbDriver\<close>: \<^verbatim>\<open>drivers/video/gop\<close>; the locale \<open>fb_driver\<close> is what the console asks of
    a driver, interpreted as \<open>gop\<close>. \<^theory_text>\<open>Console\<close>: \<^verbatim>\<open>io/console.c\<close>, with \<^theory_text>\<open>ConsoleSpec\<close> (the pixels a text sets), \<^theory_text>\<open>ConsoleInv\<close>
    (cursor and driver) and \<^theory_text>\<open>ConsoleProps\<close>. \<^theory_text>\<open>FbCon\<close>: \<^verbatim>\<open>drivers/video/framebuffer.c\<close> and \<^verbatim>\<open>kcon_init\<close>.

  \<^item> \<^theory_text>\<open>Interrupts\<close>: \<^verbatim>\<open>gdt.c\<close>, \<^verbatim>\<open>idt.c\<close>, \<^verbatim>\<open>isr.c\<close>. \<^theory_text>\<open>CpuFeats\<close>, \<^theory_text>\<open>CpuMasks\<close>: \<^verbatim>\<open>cpu_feats.c\<close> and its header. \<^theory_text>\<open>KernelMain\<close>: \<^verbatim>\<open>main.c\<close> and
    \<^verbatim>\<open>panic.c\<close>.
\<close>

text \<open>
  \<^bold>\<open>What the theorems show.\<close> For data structures, that the representation is kept and the operation does on the abstract
  value what it should: insertion into the red-black tree, allocation and release of blocks, objects and areas. For the
  page tables, that the lookup is the walk of the processor and that mapping, in the cases the claims name, changes exactly
  the translations it is asked to change. For booting, that the kernel is entered in the address space it assumes and with its allocators in their
  invariants, from which \<^theory_text>\<open>MemInit\<close> goes on to the areas; so the invariants that the other theorems assume are reached.
  For formatted output and the console, which characters and pixels appear, and that nothing else is written. Where the
  code fails, the theorem states the failure: removal of a black leaf from the tree and the release of an area that causes it, the
  allocation of a page in use in a region that is not aligned, a mapping that runs over the end of a table, a character format that never returns.

  \<^bold>\<open>Bounds.\<close> A region of the page allocator has at most \<open>2 ^ 34\<close> pages below \<open>2 ^ 46\<close> (\<open>geom\<close>), its managed part starts at
  a multiple of 4 MiB, the largest block; without that alignment the allocator is wrong, which is a theorem too. The
  direct map covers the physical addresses up to \<^verbatim>\<open>ram_max\<close>, the sum of the lengths of the map's entries (at most \<open>2 ^ 46\<close>),
  rounded up to a GiB, so not all memory where the map has holes; the image has at most 1 GiB, as the tables the code
  builds for it. Signed integers that overflow, which C leaves undefined, have no result (\<^verbatim>\<open>atoi_bit\<close>, \<^verbatim>\<open>printf\<close>). Pages have numbers below
  \<open>2 ^ 52\<close>.

  \<^bold>\<open>Parameters.\<close> What is not in the sources is an argument: \<^verbatim>\<open>cpuid\<close>, the symbols of the linker script (\<open>kimage\<close>), the
  addresses of string literals (\<open>lit\<close>), the stubs of \<^verbatim>\<open>isr.S\<close>, the devices behind the ports (\<open>bus\<close>).

  \<^bold>\<open>Not modelled.\<close> The start-up in \<^verbatim>\<open>entry.S\<close> (the boot theories state what they need of it, that the first GiB is mapped
  at its own addresses), \<^verbatim>\<open>splash.S\<close>, \<^verbatim>\<open>gdt.S\<close> and the stubs of \<^verbatim>\<open>isr.S\<close> are assembly; so is \<^verbatim>\<open>trampoline\<close>, the jump at the
  end of \<^verbatim>\<open>start_kernel\<close>. \<^verbatim>\<open>cli\<close>, \<^verbatim>\<open>sti\<close> and \<^verbatim>\<open>hlt\<close> are single instructions: where the kernel ends is the datatype \<open>halted\<close>.
  \<^verbatim>\<open>serial.c\<close> and \<^verbatim>\<open>irq.c\<close> are empty. \<^verbatim>\<open>include/multiboot2.h\<close> is the description of a format, of which the layouts and
  constants that the code reads are used. \<^verbatim>\<open>include/types.h\<close> and the attributes of \<^verbatim>\<open>include/macros.h\<close> name types of C and
  instruct the compiler. The command line in the boot information is neither read nor written by the code.
\<close>

end
